(* ===== verification/Varint.thy ===== *)
theory Varint
  imports Prelude
begin

text \<open>
  Variable-length integers: the \<open>encoding/binary\<close> routines the codec uses
  (\<open>AppendUvarint\<close>, \<open>Uvarint\<close>, the little-endian fixed-width accessors), the aliases of
  \<open>internal/tgb/varint.go\<close> and \<open>VarintSize\<close> of \<open>internal/streaming/wire/wire.go\<close>.
  A decoder returns the number it read and the count of bytes consumed; \<open>0\<close> is a truncated
  input and a negative count an overflow, as in Go.
\<close>

section \<open>Unsigned varints\<close>

lemma unat_drop_bit_7_less: "\<not> (v :: u64) < 0x80 \<Longrightarrow> unat (drop_bit 7 v) < unat v"
proof -
  assume "\<not> v < 0x80"
  then have "128 \<le> unat v"
    by (simp add: word_less_nat_alt not_less)
  moreover have "unat (drop_bit 7 v) = unat v div 2 ^ 7"
    by (rule unat_drop_bit_eq [THEN trans]) (simp add: drop_bit_eq_div)
  ultimately show ?thesis
    by simp
qed

function AppendUvarint :: "u64 \<Rightarrow> bytes" where
  "AppendUvarint v = (if v < 0x80 then [ucast v] else (ucast v OR 0x80) # AppendUvarint (drop_bit 7 v))"
  by auto
termination
  by (relation "measure unat") (simp_all only: in_measure wf_measure unat_drop_bit_7_less not_False_eq_True)

declare AppendUvarint.simps [simp del]

fun uvarint_loop :: "nat \<Rightarrow> nat \<Rightarrow> u64 \<Rightarrow> bytes \<Rightarrow> u64 \<times> int" where
  "uvarint_loop i s x [] = (0, 0)"
| "uvarint_loop i s x (b # buf) =
    (if i = 10 then (0, - (int i + 1))
     else if b < 0x80 then
       (if i = 9 \<and> 1 < b then (0, - (int i + 1))
        else (x OR push_bit s (ucast b), int i + 1))
     else uvarint_loop (i + 1) (s + 7) (x OR push_bit s (ucast (b AND 0x7f))) buf)"

definition Uvarint :: "bytes \<Rightarrow> u64 \<times> int" where
  "Uvarint buf = uvarint_loop 0 0 0 buf"

definition appendUvarint :: "bytes \<Rightarrow> u64 \<Rightarrow> bytes" where
  "appendUvarint b v = b @ AppendUvarint v"

definition readUvarint :: "bytes \<Rightarrow> u64 \<times> int" where
  "readUvarint b = Uvarint b"

definition appendZigzag :: "bytes \<Rightarrow> i64 \<Rightarrow> bytes" where
  "appendZigzag b v = b @ AppendUvarint (push_bit 1 v XOR signed_drop_bit 63 v)"

definition readZigzag :: "bytes \<Rightarrow> i64 \<times> int" where
  "readZigzag b = (case Uvarint b of (u, n) \<Rightarrow> (drop_bit 1 u XOR - (u AND 1), n))"

function VarintSize_loop :: "u64 \<Rightarrow> nat \<Rightarrow> nat" where
  "VarintSize_loop x n = (if x < 0x80 then n else VarintSize_loop (drop_bit 7 x) (n + 1))"
  by auto
termination
  by (relation "measure (\<lambda>(x, n). unat x)")
    (simp_all only: in_measure wf_measure unat_drop_bit_7_less split_conv not_False_eq_True)

declare VarintSize_loop.simps [simp del]

definition VarintSize :: "u64 \<Rightarrow> nat" where
  "VarintSize x = VarintSize_loop x 1"

section \<open>Round trips\<close>

lemma bit_0x7f: "bit (0x7f :: int) k \<longleftrightarrow> k < 7"
  using bit_mask_iff [of 7 k, where 'a = int] by (auto simp: mask_numeral)

lemma bit_0x80: "bit (0x80 :: int) k \<longleftrightarrow> k = 7"
  using bit_exp_iff [of 7 k, where 'a = int] by auto

lemma low_group: "ucast ((ucast v OR 0x80 :: byte) AND 0x7f) = take_bit 7 (v :: u64)"
  by (rule bit_word_eqI)
    (auto simp: bit_or_iff bit_and_iff bit_unsigned_iff bit_take_bit_iff bit_0x7f bit_0x80)

lemma push_bit_split: "push_bit s (take_bit 7 v) OR push_bit (s + 7) (drop_bit 7 v) = push_bit s (v :: u64)"
proof (rule bit_word_eqI)
  fix n
  have "7 + (n - (s + 7)) = n - s" if "s + 7 \<le> n"
    using that by simp
  then show "bit (push_bit s (take_bit 7 v) OR push_bit (s + 7) (drop_bit 7 v)) n = bit (push_bit s v) n"
    by (cases "s + 7 \<le> n")
      (auto simp: bit_or_iff bit_push_bit_iff bit_take_bit_iff bit_drop_bit_eq)
qed

lemma high_bit_set: "\<not> (ucast (v :: u64) OR 0x80 :: byte) < 0x80"
proof -
  have "bit (ucast v OR 0x80 :: byte) 7"
    by (simp add: bit_or_iff bit_0x80)
  then have "bit (unat (ucast v OR 0x80 :: byte)) 7"
    by (simp only: bit_unsigned_iff) simp
  then have "take_bit 7 (unat (ucast v OR 0x80 :: byte)) \<noteq> unat (ucast v OR 0x80 :: byte)"
    by (metis bit_take_bit_iff less_irrefl)
  then show ?thesis
    by (simp only: take_bit_nat_eq_self_iff) (simp add: word_less_nat_alt)
qed

lemma ucast_ucast_byte: "unat (v :: u64) < 256 \<Longrightarrow> ucast (ucast v :: byte) = v"
proof -
  assume "unat v < 256"
  then have "take_bit 8 (unat v) = unat v"
    by (simp add: take_bit_nat_eq_self)
  then have "take_bit 8 v = v"
    by (metis unsigned_take_bit_eq word_unat_eq_iff)
  moreover have "ucast (ucast v :: byte) = take_bit 8 v"
    by (rule bit_word_eqI) (auto simp: bit_unsigned_iff bit_take_bit_iff)
  ultimately show ?thesis
    by simp
qed

lemma uvarint_loop_append:
  assumes "unat v < 2 ^ (64 - 7 * i)" "i \<le> 9"
  shows "uvarint_loop i (7 * i) x (AppendUvarint v @ rest) =
    (x OR push_bit (7 * i) v, int i + int (length (AppendUvarint v)))"
  using assms
proof (induction v arbitrary: i x rule: AppendUvarint.induct)
  case (1 v)
  show ?case
  proof (cases "v < 0x80")
    case True
    then have "unat v < 128"
      by (simp add: word_less_nat_alt)
    then have u: "unat (ucast v :: byte) = unat v"
      by (simp add: unsigned_ucast_eq take_bit_nat_eq_self)
    then have lt: "(ucast v :: byte) < 0x80"
      using \<open>unat v < 128\<close> by (simp add: word_less_nat_alt)
    have nine: "\<not> (i = 9 \<and> 1 < (ucast v :: byte))"
      using 1(2) u by (auto simp: word_less_nat_alt)
    have "ucast (ucast v :: byte) = v"
      using \<open>unat v < 128\<close> by (intro ucast_ucast_byte) simp
    then show ?thesis
      using lt nine \<open>i \<le> 9\<close> True by (auto simp: AppendUvarint.simps [of v])
  next
    case False
    then have "128 \<le> unat v"
      by (simp add: word_less_nat_alt not_less)
    with 1(2) have "(2::nat) ^ 7 < 2 ^ (64 - 7 * i)"
      by simp
    then have "7 < 64 - 7 * i"
      by (simp only: power_strict_increasing_iff)
    then have i: "i \<le> 8" "64 - 7 * i = 7 + (64 - 7 * (i + 1))"
      by auto
    have "unat (drop_bit 7 v) = unat v div 2 ^ 7"
      by (rule unat_drop_bit_eq [THEN trans]) (simp add: drop_bit_eq_div)
    then have "unat (drop_bit 7 v) < 2 ^ (64 - 7 * (i + 1))"
      using 1(2) unfolding i(2) power_add by (simp add: less_mult_imp_div_less mult.commute)
    note IH = 1(1) [OF False this]
    show ?thesis
      using False high_bit_set [of v] i IH
      by (simp add: AppendUvarint.simps [of v] low_group add.commute [of 7] or.assoc push_bit_split)
  qed
qed

lemma Uvarint_AppendUvarint [codec_simps]:
  "Uvarint (AppendUvarint v @ rest) = (v, int (length (AppendUvarint v)))"
  using uvarint_loop_append [of v 0 0 rest] unsigned_less [of v, where 'a = nat]
  by (simp add: Uvarint_def)

lemma AppendUvarint_not_Nil [simp]: "AppendUvarint v \<noteq> []"
  by (simp add: AppendUvarint.simps [of v])

lemma length_AppendUvarint_pos [simp]: "0 < length (AppendUvarint v)"
  by simp

lemma Uvarint_Nil [simp]: "Uvarint [] = (0, 0)"
  by (simp add: Uvarint_def)

lemma zigzag_inverse:
  fixes v :: i64
  defines "u \<equiv> push_bit 1 v XOR signed_drop_bit 63 v"
  shows "drop_bit 1 u XOR - (u AND 1) = v"
proof -
  have low: "bit u 0 \<longleftrightarrow> bit v 63"
    unfolding u_def bit_xor_iff bit_push_bit_iff bit_signed_drop_bit_iff by simp
  have "u AND 1 = of_bool (bit v 63)"
    using low by (auto simp: and_one_eq bit_0 mod_2_eq_odd)
  then have "- (u AND 1) = (if bit v 63 then - 1 else 0)"
    by simp
  note neg = this
  show ?thesis
  proof (rule bit_word_eqI)
    fix n
    assume "n < LENGTH(64)"
    then have "n < 63 \<or> n = 63"
      by auto
    moreover have "bit v k \<Longrightarrow> k < 64" for k
      using bit_imp_le_length [of v k] by simp
    ultimately show "bit (drop_bit 1 u XOR - (u AND 1)) n = bit v n"
      unfolding neg by (auto simp add: u_def bit_xor_iff bit_push_bit_iff
        bit_signed_drop_bit_iff bit_drop_bit_eq simp del: push_bit_Suc push_bit_numeral)
  qed
qed

lemma VarintSize_loop_eq: "VarintSize_loop x n + 1 = n + length (AppendUvarint x)"
proof (induction x arbitrary: n rule: AppendUvarint.induct)
  case (1 x)
  then show ?case
    by (cases "x < 0x80") (simp_all add: AppendUvarint.simps [of x] VarintSize_loop.simps [of x])
qed

lemma VarintSize_eq_length: "VarintSize x = length (AppendUvarint x)"
  using VarintSize_loop_eq [of x 1] by (simp add: VarintSize_def)

lemma length_AppendUvarint_less:
  "unat x < 2 ^ (7 * k) \<Longrightarrow> 0 < k \<Longrightarrow> length (AppendUvarint x) \<le> k"
proof (induction k arbitrary: x)
  case (Suc k)
  show ?case
  proof (cases "x < 0x80")
    case True
    then show ?thesis by (simp add: AppendUvarint.simps [of x])
  next
    case False
    then have "128 \<le> unat x"
      by (simp add: word_less_nat_alt not_less)
    then have "0 < k"
      using Suc.prems(1) by (cases k) auto
    moreover have "unat (drop_bit 7 x) = unat x div 2 ^ 7"
      by (rule unat_drop_bit_eq [THEN trans]) (simp add: drop_bit_eq_div)
    then have "unat (drop_bit 7 x) < 2 ^ (7 * k)"
      using Suc.prems(1) by (simp add: less_mult_imp_div_less power_add mult.commute)
    ultimately show ?thesis
      using Suc.IH False by (simp add: AppendUvarint.simps [of x])
  qed
qed simp

lemma length_AppendUvarint_le_10: "length (AppendUvarint x) \<le> 10"
proof (rule length_AppendUvarint_less)
  have "unat x < 2 ^ 64"
    using unsigned_less [of x, where 'a = nat] by simp
  then show "unat x < 2 ^ (7 * 10)"
    by (rule less_le_trans) simp
qed simp

section \<open>Reading varints off a buffer\<close>

text \<open>
  The pattern \<open>v, sz := binary.Uvarint(b); if sz <= 0 { return err }; b = b[sz:]\<close>, which every
  decoder of the codec repeats: the varint and the rest of the buffer, or the given error.
\<close>

definition nextUvarint :: "'e \<Rightarrow> bytes \<Rightarrow> 'e + u64 \<times> bytes" where
  "nextUvarint err b = (case Uvarint b of (v, sz) \<Rightarrow>
     if sz \<le> 0 then Inl err else Inr (v, drop (nat sz) b))"

lemma nextUvarint_AppendUvarint [codec_simps]:
  "nextUvarint err (AppendUvarint v @ rest) = Inr (v, rest)"
  by (simp add: nextUvarint_def codec_simps)

lemma nextUvarint_AppendUvarint_end [codec_simps]: "nextUvarint err (AppendUvarint v) = Inr (v, [])"
  using nextUvarint_AppendUvarint [of err v "[]"] by simp

lemma nextUvarint_Nil [simp]: "nextUvarint err [] = Inl err"
  by (simp add: nextUvarint_def)

lemma uvarint_loop_bound: "uvarint_loop i s x b = (v, n) \<Longrightarrow> n \<le> int i + int (length b)"
  by (induction i s x b rule: uvarint_loop.induct) (auto split: if_splits)

lemma Uvarint_bound: "Uvarint b = (v, n) \<Longrightarrow> n \<le> int (length b)"
  using uvarint_loop_bound [of 0 0 0 b] by (simp add: Uvarint_def)

text \<open>Every successful read consumes at least one byte, so a decoding loop terminates.\<close>

lemma nextUvarint_shrinks: "nextUvarint err b = Inr (v, rest) \<Longrightarrow> length rest < length b"
  using Uvarint_bound [of b]
  by (cases b) (auto simp: nextUvarint_def split: prod.splits if_splits)

lemma nextUvarint_suffix: "nextUvarint err b = Inr (v, rest) \<Longrightarrow> \<exists>pre. b = pre @ rest"
  by (auto simp: nextUvarint_def split: prod.splits if_splits intro: append_take_drop_id [symmetric])

section \<open>Little-endian fixed-width integers\<close>

fun LE_put :: "nat \<Rightarrow> 'a::len word \<Rightarrow> bytes" where
  "LE_put 0 w = []"
| "LE_put (Suc n) w = ucast w # LE_put n (drop_bit 8 w)"

fun LE_get :: "nat \<Rightarrow> bytes \<Rightarrow> 'a::len word" where
  "LE_get (Suc n) (b # bs) = ucast b OR push_bit 8 (LE_get n bs)"
| "LE_get _ _ = 0"

lemma length_LE_put [simp]: "length (LE_put n w) = n"
  by (induction n w rule: LE_put.induct) auto

lemma LE_get_LE_put: "LE_get n (LE_put n w @ rest) = take_bit (8 * n) w"
proof (induction n w rule: LE_put.induct)
  case (2 n w)
  show ?case
    by (rule bit_word_eqI)
      (auto simp: "2.IH" bit_or_iff bit_push_bit_iff bit_unsigned_iff bit_take_bit_iff bit_drop_bit_eq)
qed simp

lemma LE_get_put_16 [codec_simps]: "LE_get 2 (LE_put 2 (w :: u16) @ rest) = w"
  and LE_get_put_32 [codec_simps]: "LE_get 4 (LE_put 4 (w32 :: u32) @ rest) = w32"
  and LE_get_put_64 [codec_simps]: "LE_get 8 (LE_put 8 (w64 :: u64) @ rest) = w64"
  by (simp_all add: LE_get_LE_put take_bit_word_eq_self)

lemma LE_get_put_plain [codec_simps]:
  "LE_get 2 (LE_put 2 (w :: u16)) = w" "LE_get 4 (LE_put 4 (w32 :: u32)) = w32"
  "LE_get 8 (LE_put 8 (w64 :: u64)) = w64"
  using LE_get_put_16 [of w "[]"] LE_get_put_32 [of w32 "[]"] LE_get_put_64 [of w64 "[]"]
  by simp_all

end
