(* ===== verification/Entity.thy ===== *)
theory Entity
  imports Varint
begin

text \<open>
  \<open>entity/\<close>: the domain types that the components exchange, and the wire-size estimates that
  the stream splitters use. \<open>protoTarget\<close> and \<open>protoChanged\<close> are the protobuf encodings of the two
  messages (field numbers of \<open>proto/tango.proto\<close>), the reference against which \<open>Size\<close> is judged:
  the estimate is the exact length of the serialized message.
\<close>

section \<open>Types\<close>

datatype ChangeType = ChangeTypeInvalid | ChangeTypeNew | ChangeTypeDeleted | ChangeTypeChanged

fun ChangeType_code :: "ChangeType \<Rightarrow> nat" where
  "ChangeType_code ChangeTypeInvalid = 0"
| "ChangeType_code ChangeTypeNew = 1"
| "ChangeType_code ChangeTypeDeleted = 2"
| "ChangeType_code ChangeTypeChanged = 3"

fun ChangeType_String :: "ChangeType \<Rightarrow> string" where
  "ChangeType_String ChangeTypeNew = ''CHANGE_TYPE_NEW''"
| "ChangeType_String ChangeTypeDeleted = ''CHANGE_TYPE_DELETED''"
| "ChangeType_String ChangeTypeChanged = ''CHANGE_TYPE_CHANGED''"
| "ChangeType_String ChangeTypeInvalid = ''CHANGE_TYPE_INVALID''"

datatype ComputationStrategy = ComputationStrategyUnset | ComputationStrategyInvalid
  | ComputationStrategyShell | ComputationStrategyNative

fun ComputationStrategy_String :: "ComputationStrategy \<Rightarrow> string" where
  "ComputationStrategy_String ComputationStrategyUnset = ''COMPUTATION_STRATEGY_UNSET''"
| "ComputationStrategy_String ComputationStrategyShell = ''COMPUTATION_STRATEGY_SHELL''"
| "ComputationStrategy_String ComputationStrategyNative = ''COMPUTATION_STRATEGY_NATIVE''"
| "ComputationStrategy_String ComputationStrategyInvalid = ''COMPUTATION_STRATEGY_INVALID''"

record BuildDescription =
  bd_Remote :: string
  bd_BaseSha :: string
  bd_ChangeRequests :: "string list"
  bd_Strategy :: ComputationStrategy

record OptimizedTarget =
  ot_ID :: i32
  ot_Hash :: string
  ot_DirectDependencies :: "i32 list"
  ot_RuleType :: i32
  ot_Tags :: "i32 list"
  ot_Root :: bool
  ot_External :: bool
  ot_Attributes :: "(i32, i32) gomap"

record Metadata =
  md_TargetIDMapping :: "(i32, string) gomap"
  md_RuleTypeMapping :: "(i32, string) gomap"
  md_TagMapping :: "(i32, string) gomap"
  md_AttributeNameMapping :: "(i32, string) gomap"
  md_AttributeStringValueMapping :: "(i32, string) gomap"
  md_AllTargetsFileHashes :: "(string, string) gomap"

record GetTargetGraphResponse =
  gr_Targets :: "OptimizedTarget list"
  gr_Metadata :: "Metadata option"

record ChangedTarget =
  ct_ChangeType :: ChangeType
  ct_OldTarget :: "OptimizedTarget option"
  ct_NewTarget :: "OptimizedTarget option"
  ct_Distance :: i32

record GetChangedTargetsResponse =
  cr_ChangedTargets :: "ChangedTarget list"
  cr_Metadata :: "Metadata option"

definition emptyMetadata :: Metadata where
  "emptyMetadata = \<lparr> md_TargetIDMapping = [], md_RuleTypeMapping = [], md_TagMapping = [],
     md_AttributeNameMapping = [], md_AttributeStringValueMapping = [], md_AllTargetsFileHashes = [] \<rparr>"

section \<open>Size estimates\<close>

text \<open>\<open>uint64(x)\<close> of an \<open>int32\<close> is the sign extension; \<open>uint64(n)\<close> of a length is \<open>of_nat\<close>.\<close>

abbreviation varint32 :: "i32 \<Rightarrow> nat" where
  "varint32 x \<equiv> VarintSize (scast x)"

abbreviation varintLen :: "nat \<Rightarrow> nat" where
  "varintLen n \<equiv> VarintSize (of_nat n)"

definition packedSize :: "i32 list \<Rightarrow> nat" where
  "packedSize xs = (if xs = [] then 0
     else let dataSize = sum_list (map varint32 xs) in 1 + varintLen dataSize + dataSize)"

definition attributeSize :: "i32 \<times> i32 \<Rightarrow> nat" where
  "attributeSize kv = (case kv of (k, v) \<Rightarrow>
     let entrySize = 1 + varint32 k + 1 + varint32 v in 1 + varintLen entrySize + entrySize)"

definition OptimizedTarget_Size :: "OptimizedTarget \<Rightarrow> nat" where
  "OptimizedTarget_Size t =
    (if ot_ID t \<noteq> 0 then 1 + varint32 (ot_ID t) else 0) +
    (if ot_Hash t \<noteq> [] then 1 + varintLen (length (ot_Hash t)) + length (ot_Hash t) else 0) +
    packedSize (ot_DirectDependencies t) +
    (if ot_RuleType t \<noteq> 0 then 1 + varint32 (ot_RuleType t) else 0) +
    packedSize (ot_Tags t) +
    (if ot_Root t then 1 + 1 else 0) +
    (if ot_External t then 1 + 1 else 0) +
    sum_list (map attributeSize (ot_Attributes t))"

definition nestedSize :: "OptimizedTarget option \<Rightarrow> nat" where
  "nestedSize ot = (case ot of None \<Rightarrow> 0
     | Some t \<Rightarrow> let inner = OptimizedTarget_Size t in 1 + varintLen inner + inner)"

definition ChangedTarget_Size :: "ChangedTarget \<Rightarrow> nat" where
  "ChangedTarget_Size ct =
    (if ct_ChangeType ct \<noteq> ChangeTypeInvalid then 1 + varintLen (ChangeType_code (ct_ChangeType ct)) else 0) +
    nestedSize (ct_OldTarget ct) + nestedSize (ct_NewTarget ct) +
    (if ct_Distance ct \<noteq> 0 then 1 + varint32 (ct_Distance ct) else 0)"

section \<open>The protobuf wire format of the two messages\<close>

text \<open>The tag byte of a field: its number and wire type (0 varint, 2 length-delimited).\<close>

definition protoTag :: "nat \<Rightarrow> nat \<Rightarrow> bytes" where
  "protoTag field wireType = AppendUvarint (of_nat (8 * field + wireType))"

definition protoInt32 :: "nat \<Rightarrow> i32 \<Rightarrow> bytes" where
  "protoInt32 field x = (if x = 0 then [] else protoTag field 0 @ AppendUvarint (scast x))"

definition protoBool :: "nat \<Rightarrow> bool \<Rightarrow> bytes" where
  "protoBool field b = (if b then protoTag field 0 @ [1] else [])"

definition protoBytes :: "nat \<Rightarrow> bytes \<Rightarrow> bytes" where
  "protoBytes field bs = protoTag field 2 @ AppendUvarint (of_nat (length bs)) @ bs"

definition protoPacked :: "nat \<Rightarrow> i32 list \<Rightarrow> bytes" where
  "protoPacked field xs = (if xs = [] then []
     else protoBytes field (concat (map (\<lambda>x. AppendUvarint (scast x)) xs)))"

definition protoMapEntry :: "nat \<Rightarrow> i32 \<times> i32 \<Rightarrow> bytes" where
  "protoMapEntry field kv = protoBytes field
     (protoTag 1 0 @ AppendUvarint (scast (fst kv)) @ protoTag 2 0 @ AppendUvarint (scast (snd kv)))"

definition protoTarget :: "OptimizedTarget \<Rightarrow> bytes" where
  "protoTarget t =
    protoInt32 1 (ot_ID t) @
    (if ot_Hash t = [] then [] else protoBytes 2 (bytes_of (ot_Hash t))) @
    protoPacked 3 (ot_DirectDependencies t) @
    protoPacked 4 (ot_Tags t) @
    protoInt32 5 (ot_RuleType t) @
    protoBool 6 (ot_Root t) @
    protoBool 7 (ot_External t) @
    concat (map (protoMapEntry 8) (ot_Attributes t))"

definition protoChanged :: "ChangedTarget \<Rightarrow> bytes" where
  "protoChanged ct =
    (if ct_ChangeType ct = ChangeTypeInvalid then []
     else protoTag 1 0 @ AppendUvarint (of_nat (ChangeType_code (ct_ChangeType ct)))) @
    (case ct_OldTarget ct of None \<Rightarrow> [] | Some t \<Rightarrow> protoBytes 2 (protoTarget t)) @
    (case ct_NewTarget ct of None \<Rightarrow> [] | Some t \<Rightarrow> protoBytes 3 (protoTarget t)) @
    protoInt32 4 (ct_Distance ct)"

lemma length_protoTag: "8 * field + wireType < 128 \<Longrightarrow> length (protoTag field wireType) = 1"
proof -
  assume "8 * field + wireType < 128"
  then have "(of_nat (8 * field + wireType) :: u64) < 0x80"
    by (simp only: word_less_nat_alt unat_of_nat) simp
  then show ?thesis
    by (simp only: protoTag_def AppendUvarint.simps [of "of_nat _"]) simp
qed

lemma length_protoBytes:
  "8 * field + 2 < 128 \<Longrightarrow> length (protoBytes field bs) = 1 + varintLen (length bs) + length bs"
  by (simp add: protoBytes_def length_protoTag VarintSize_eq_length)

lemma length_concat_varints:
  "length (concat (map (\<lambda>x. AppendUvarint (scast x)) xs)) = sum_list (map varint32 xs)"
  by (simp add: length_concat VarintSize_eq_length comp_def)

lemma length_protoTarget: "length (protoTarget t) = OptimizedTarget_Size t"
proof -
  have "length (protoMapEntry 8 kv) = attributeSize kv" for kv
    by (cases kv) (simp add: protoMapEntry_def attributeSize_def length_protoBytes length_protoTag
      VarintSize_eq_length Let_def)
  then have "length (concat (map (protoMapEntry 8) (ot_Attributes t))) =
      sum_list (map attributeSize (ot_Attributes t))"
    by (simp add: length_concat comp_def)
  then show ?thesis
    by (simp add: protoTarget_def OptimizedTarget_Size_def protoInt32_def protoBool_def protoPacked_def
      packedSize_def length_protoBytes length_protoTag length_concat_varints VarintSize_eq_length Let_def)
qed

lemma ChangedTarget_Size_length: "length (protoChanged ct) = ChangedTarget_Size ct"
  by (simp add: ChangedTarget_Size_def protoChanged_def nestedSize_def protoInt32_def length_protoTag
    length_protoBytes length_protoTarget VarintSize_eq_length Let_def split: option.split)

text \<open>C39: the size estimate of a changed target, and of the targets inside it, is the exact
  length of its protobuf serialization, whatever the values (negative \<open>int32\<close> fields take the
  ten bytes of their sign extension).\<close>

theorem ChangedTarget_Size_exact:
  "ChangedTarget_Size ct = length (protoChanged ct) \<and> OptimizedTarget_Size t = length (protoTarget t)"
  by (simp add: ChangedTarget_Size_length length_protoTarget)

end
