(* ===== verification/Streaming.thy ===== *)
theory Streaming
  imports Entity "HOL-Library.Multiset"
begin

text \<open>
  \<open>internal/streaming/streaming.go\<close>: splitting a list of messages, and the metadata maps that
  accompany it, into groups whose serialized size stays within a budget. Results: no item is
  lost, duplicated or reordered, every group with more than one item respects the budget, and
  the two ``internal error'' branches are unreachable.
\<close>

section \<open>Splitting a list\<close>

text \<open>The loop of \<open>SplitBySize\<close>: finished groups, current group and its size.\<close>

fun split_loop :: "('a \<Rightarrow> nat) \<Rightarrow> nat \<Rightarrow> 'a list \<Rightarrow> 'a list list \<Rightarrow> 'a list \<Rightarrow> nat \<Rightarrow> 'a list list" where
  "split_loop Size maxBytes [] groups current currentBytes = groups @ [current]"
| "split_loop Size maxBytes (item # items) groups current currentBytes =
    (let itemBytes = Size item in
     if current \<noteq> [] \<and> maxBytes < currentBytes + itemBytes
     then split_loop Size maxBytes items (groups @ [current]) [item] itemBytes
     else split_loop Size maxBytes items groups (current @ [item]) (currentBytes + itemBytes))"

definition SplitBySize :: "('a \<Rightarrow> nat) \<Rightarrow> 'a list \<Rightarrow> nat \<Rightarrow> string + 'a list list" where
  "SplitBySize Size items maxBytes =
    (if items = [] then Inr [[]]
     else let groups = split_loop Size maxBytes items [] [] 0 in
       if \<exists>g \<in> set (tl groups). g = [] then Inl ''internal error: group %d of %d is empty''
       else Inr groups)"

section \<open>Splitting the metadata\<close>

definition mapEntryWireSize :: "i32 \<times> string \<Rightarrow> nat" where
  "mapEntryWireSize kv = (case kv of (k, v) \<Rightarrow>
     let mapEntrySize = 1 + varint32 k + 1 + length v + varintLen (length v) in
     mapEntrySize + 1 + varintLen mapEntrySize)"

text \<open>
  The same loop over the entries of a map, in the order the range visits them. The keys of a
  Go map are distinct, so \<open>current[k] = v\<close> adds an entry.
\<close>

definition splitMapByBytes :: "(i32, string) gomap \<Rightarrow> nat \<Rightarrow> (i32, string) gomap list" where
  "splitMapByBytes m maxBytes =
    (if m = [] then []
     else let gs = split_loop mapEntryWireSize maxBytes m [] [] 0 in
       if last gs \<noteq> [] then gs else butlast gs)"

definition emptyMeta :: "Metadata \<Rightarrow> bool" where
  "emptyMeta m \<longleftrightarrow> md_TargetIDMapping m = [] \<and> md_RuleTypeMapping m = [] \<and> md_TagMapping m = [] \<and>
     md_AttributeNameMapping m = [] \<and> md_AttributeStringValueMapping m = []"

definition SplitMetadata ::
  "(i32, string) gomap \<Rightarrow> (i32, string) gomap \<Rightarrow> (i32, string) gomap \<Rightarrow> (i32, string) gomap \<Rightarrow>
   (i32, string) gomap \<Rightarrow> nat \<Rightarrow> string + Metadata list" where
  "SplitMetadata targetIDToName ruleTypeIDToName tagIDToName attrNameIDToName attrStrValIDToVal maxBytes =
    (let targetGroups = splitMapByBytes targetIDToName maxBytes;
         attrValGroups = splitMapByBytes attrStrValIDToVal maxBytes;
         metas = map (\<lambda>g. emptyMetadata \<lparr> md_TargetIDMapping := g \<rparr>) targetGroups @
                 map (\<lambda>g. emptyMetadata \<lparr> md_AttributeStringValueMapping := g \<rparr>) attrValGroups;
         metas = (if metas = [] then [emptyMetadata] else metas);
         metas = metas[0 := (metas ! 0) \<lparr> md_RuleTypeMapping := ruleTypeIDToName,
                   md_TagMapping := tagIDToName, md_AttributeNameMapping := attrNameIDToName \<rparr>]
     in if \<exists>m \<in> set (tl metas). emptyMeta m then Inl ''internal error: metadata group %d of %d is empty''
        else Inr metas)"

section \<open>The splitting loop\<close>

text \<open>What a finished group satisfies: it is not empty and, unless it is a single item, within budget.\<close>

definition good_group :: "('a \<Rightarrow> nat) \<Rightarrow> nat \<Rightarrow> 'a list \<Rightarrow> bool" where
  "good_group Size maxBytes g \<longleftrightarrow> g \<noteq> [] \<and> (sum_list (map Size g) \<le> maxBytes \<or> length g = 1)"

lemma split_loop_concat:
  "concat (split_loop Size maxBytes items groups current cb) = concat groups @ current @ items"
  by (induction items arbitrary: groups current cb) (simp_all add: Let_def)

lemma split_loop_good:
  assumes "\<forall>g \<in> set groups. good_group Size maxBytes g" "cb = sum_list (map Size current)"
    and "current = [] \<or> good_group Size maxBytes current" "current = [] \<longrightarrow> items \<noteq> []"
  shows "\<forall>g \<in> set (split_loop Size maxBytes items groups current cb). good_group Size maxBytes g"
  using assms
proof (induction items arbitrary: groups current cb)
  case (Cons x xs)
  have one: "good_group Size maxBytes [x]"
    by (simp add: good_group_def)
  show ?case
  proof (cases "current \<noteq> [] \<and> maxBytes < cb + Size x")
    case True
    then have "\<forall>g \<in> set (groups @ [current]). good_group Size maxBytes g"
      using Cons.prems(1,3) by auto
    then have "\<forall>g \<in> set (split_loop Size maxBytes xs (groups @ [current]) [x] (Size x)). good_group Size maxBytes g"
      using one by (intro Cons.IH) simp_all
    then show ?thesis
      using True by (simp add: Let_def)
  next
    case False
    then have "good_group Size maxBytes (current @ [x])"
      using Cons.prems(2) one by (cases "current = []") (simp_all add: good_group_def)
    then have "\<forall>g \<in> set (split_loop Size maxBytes xs groups (current @ [x]) (cb + Size x)). good_group Size maxBytes g"
      using Cons.prems(1,2) by (intro Cons.IH) simp_all
    then show ?thesis
      by (simp only: split_loop.simps Let_def False if_False)
  qed
qed simp

lemma split_loop_not_Nil: "split_loop Size maxBytes items groups current cb \<noteq> []"
  by (induction items arbitrary: groups current cb) (simp_all add: Let_def)

lemma split_loop_start:
  assumes "items \<noteq> []"
  shows "\<forall>g \<in> set (split_loop Size maxBytes items [] [] 0). good_group Size maxBytes g"
  using assms by (intro split_loop_good) simp_all

lemma SplitBySize_total:
  "\<exists>groups. SplitBySize Size items maxBytes = Inr groups \<and> concat groups = items \<and> groups \<noteq> [] \<and>
    (items = [] \<or> (\<forall>g \<in> set groups. good_group Size maxBytes g))"
proof (cases "items = []")
  case False
  let ?gs = "split_loop Size maxBytes items [] [] 0"
  have good: "\<forall>g \<in> set ?gs. good_group Size maxBytes g"
    using False by (rule split_loop_start)
  then have "\<forall>g \<in> set (tl ?gs). g \<noteq> []"
    using list.set_sel(2) [OF split_loop_not_Nil] by (fastforce simp: good_group_def)
  then have "SplitBySize Size items maxBytes = Inr ?gs"
    using False by (auto simp: SplitBySize_def Let_def)
  then show ?thesis
    using good split_loop_concat [of Size maxBytes items "[]" "[]" 0] split_loop_not_Nil by simp
qed (simp add: SplitBySize_def)

section \<open>Metadata\<close>

lemma splitMapByBytes_eq:
  "splitMapByBytes m maxBytes = (if m = [] then [] else split_loop mapEntryWireSize maxBytes m [] [] 0)"
proof (cases "m = []")
  case False
  then have "last (split_loop mapEntryWireSize maxBytes m [] [] 0) \<noteq> []"
    using split_loop_start [OF False] last_in_set [OF split_loop_not_Nil] by (fastforce simp: good_group_def)
  then show ?thesis
    using False by (simp add: splitMapByBytes_def Let_def)
qed (simp add: splitMapByBytes_def)

lemma splitMapByBytes_props:
  "concat (splitMapByBytes m maxBytes) = m"
  "\<forall>g \<in> set (splitMapByBytes m maxBytes). good_group mapEntryWireSize maxBytes g"
  using split_loop_start [of m mapEntryWireSize maxBytes]
  by (auto simp: splitMapByBytes_eq split_loop_concat)

text \<open>How a consumer merges the metadata chunks: the union of the maps, in order.\<close>

definition mergeMetas :: "(Metadata \<Rightarrow> ('k, 'v) gomap) \<Rightarrow> Metadata list \<Rightarrow> ('k, 'v) gomap" where
  "mergeMetas field metas = concat (map field metas)"

text \<open>The chunks before the small maps are put into the first one.\<close>

definition largeMetas :: "(i32, string) gomap \<Rightarrow> (i32, string) gomap \<Rightarrow> nat \<Rightarrow> Metadata list" where
  "largeMetas tids avs maxBytes =
    (let metas = map (\<lambda>g. emptyMetadata \<lparr> md_TargetIDMapping := g \<rparr>) (splitMapByBytes tids maxBytes) @
                 map (\<lambda>g. emptyMetadata \<lparr> md_AttributeStringValueMapping := g \<rparr>) (splitMapByBytes avs maxBytes)
     in if metas = [] then [emptyMetadata] else metas)"

lemma largeMetas_not_Nil: "largeMetas tids avs maxBytes \<noteq> []"
  by (simp add: largeMetas_def Let_def)

lemma largeMetas_merge:
  "mergeMetas md_TargetIDMapping (largeMetas tids avs maxBytes) = tids"
  "mergeMetas md_AttributeStringValueMapping (largeMetas tids avs maxBytes) = avs"
  using splitMapByBytes_props(1) [of tids maxBytes] splitMapByBytes_props(1) [of avs maxBytes]
  by (auto simp: largeMetas_def Let_def mergeMetas_def emptyMetadata_def comp_def)

lemma largeMetas_small_empty:
  "m \<in> set (largeMetas tids avs maxBytes) \<Longrightarrow>
    md_RuleTypeMapping m = [] \<and> md_TagMapping m = [] \<and> md_AttributeNameMapping m = []"
  by (auto simp: largeMetas_def Let_def emptyMetadata_def split: if_splits)

lemma largeMetas_good:
  "m \<in> set (largeMetas tids avs maxBytes) \<Longrightarrow>
    (md_TargetIDMapping m = [] \<or> good_group mapEntryWireSize maxBytes (md_TargetIDMapping m)) \<and>
    (md_AttributeStringValueMapping m = [] \<or>
     good_group mapEntryWireSize maxBytes (md_AttributeStringValueMapping m))"
  using splitMapByBytes_props(2) [of tids maxBytes] splitMapByBytes_props(2) [of avs maxBytes]
  by (auto simp: largeMetas_def Let_def emptyMetadata_def split: if_splits)

lemma splitMapByBytes_nonempty: "g \<in> set (splitMapByBytes m maxBytes) \<Longrightarrow> g \<noteq> []"
  using splitMapByBytes_props(2) by (auto simp: good_group_def)

lemma largeMetas_cases:
  "m \<in> set (largeMetas tids avs maxBytes) \<Longrightarrow> largeMetas tids avs maxBytes = [emptyMetadata] \<or> \<not> emptyMeta m"
  unfolding largeMetas_def Let_def
  by (auto simp: emptyMeta_def emptyMetadata_def dest: splitMapByBytes_nonempty split: if_splits)

lemma largeMetas_tail_nonempty: "m \<in> set (tl (largeMetas tids avs maxBytes)) \<Longrightarrow> \<not> emptyMeta m"
  using largeMetas_cases [of m tids avs maxBytes] list.set_sel(2) [OF largeMetas_not_Nil, of m] by force

lemma SplitMetadata_eq:
  assumes "largeMetas tids avs maxBytes = m # ms"
  shows "SplitMetadata tids rts tags ans avs maxBytes =
    Inr (m \<lparr> md_RuleTypeMapping := rts, md_TagMapping := tags, md_AttributeNameMapping := ans \<rparr> # ms)"
proof -
  have "\<not> (\<exists>m \<in> set ms. emptyMeta m)"
    using largeMetas_tail_nonempty [of _ tids avs maxBytes] assms by auto
  then show ?thesis
    using assms unfolding SplitMetadata_def largeMetas_def Let_def by simp
qed

lemma SplitMetadata_total:
  "\<exists>metas. SplitMetadata tids rts tags ans avs maxBytes = Inr metas \<and> metas \<noteq> [] \<and>
    mergeMetas md_TargetIDMapping metas = tids \<and>
    mergeMetas md_RuleTypeMapping metas = rts \<and>
    mergeMetas md_TagMapping metas = tags \<and>
    mergeMetas md_AttributeNameMapping metas = ans \<and>
    mergeMetas md_AttributeStringValueMapping metas = avs \<and>
    (\<forall>m \<in> set metas. (md_TargetIDMapping m = [] \<or> good_group mapEntryWireSize maxBytes (md_TargetIDMapping m)) \<and>
       (md_AttributeStringValueMapping m = [] \<or>
        good_group mapEntryWireSize maxBytes (md_AttributeStringValueMapping m)))"
proof -
  obtain m ms where mms: "largeMetas tids avs maxBytes = m # ms"
    using largeMetas_not_Nil by (metis neq_Nil_conv)
  have small: "\<forall>x \<in> set (m # ms). md_RuleTypeMapping x = [] \<and> md_TagMapping x = [] \<and> md_AttributeNameMapping x = []"
    using largeMetas_small_empty [of _ tids avs maxBytes] unfolding mms by blast
  have good: "\<forall>x \<in> set (m # ms).
      (md_TargetIDMapping x = [] \<or> good_group mapEntryWireSize maxBytes (md_TargetIDMapping x)) \<and>
      (md_AttributeStringValueMapping x = [] \<or>
       good_group mapEntryWireSize maxBytes (md_AttributeStringValueMapping x))"
    using largeMetas_good [of _ tids avs maxBytes] unfolding mms by blast
  show ?thesis
    unfolding SplitMetadata_eq [OF mms]
    using small good largeMetas_merge [of tids avs maxBytes] unfolding mms by (simp add: mergeMetas_def)
qed

section \<open>Properties\<close>

text \<open>C40: splitting changed targets for the stream always succeeds, keeps every target in order,
  yields at least one group, and every group of a non-empty input is non-empty and, unless it
  holds a single target, serializes to at most \<open>maxBytes\<close> bytes.\<close>

theorem SplitBySize_changed_targets:
  "\<exists>groups. SplitBySize ChangedTarget_Size items maxBytes = Inr groups \<and> groups \<noteq> [] \<and> concat groups = items \<and>
    (items = [] \<and> groups = [[]] \<or>
     list_all (\<lambda>g. g \<noteq> [] \<and> (length (concat (map protoChanged g)) \<le> maxBytes \<or> length g = 1)) groups)"
proof -
  obtain groups where g: "SplitBySize ChangedTarget_Size items maxBytes = Inr groups" "concat groups = items"
      "groups \<noteq> []" "items = [] \<or> (\<forall>g \<in> set groups. good_group ChangedTarget_Size maxBytes g)"
    using SplitBySize_total by metis
  have len: "length (concat (map protoChanged g)) = sum_list (map ChangedTarget_Size g)" for g
    by (simp add: length_concat comp_def ChangedTarget_Size_length)
  have "items = [] \<Longrightarrow> groups = [[]]"
    using g(1) by (simp add: SplitBySize_def)
  then show ?thesis
    using g by (intro exI [of _ groups]) (auto simp: list_all_iff good_group_def len)
qed

text \<open>Splitting the metadata always succeeds; merging the chunks gives back the five maps,
  and every chunk's share of the two large maps is within budget unless it is a single entry.\<close>

theorem SplitMetadata_merges_back:
  "\<exists>metas. SplitMetadata tids rts tags ans avs maxBytes = Inr metas \<and> metas \<noteq> [] \<and>
    mergeMetas md_TargetIDMapping metas = tids \<and>
    mergeMetas md_RuleTypeMapping metas = rts \<and>
    mergeMetas md_TagMapping metas = tags \<and>
    mergeMetas md_AttributeNameMapping metas = ans \<and>
    mergeMetas md_AttributeStringValueMapping metas = avs \<and>
    list_all (\<lambda>m. (md_TargetIDMapping m = [] \<or> good_group mapEntryWireSize maxBytes (md_TargetIDMapping m)) \<and>
       (md_AttributeStringValueMapping m = [] \<or>
        good_group mapEntryWireSize maxBytes (md_AttributeStringValueMapping m))) metas"
  using SplitMetadata_total [of tids rts tags ans avs maxBytes] by (simp add: list_all_iff)

end
