(* ===== verification/TgbFormat.thy ===== *)
theory TgbFormat
  imports Varint
begin

text \<open>
  \<open>internal/tgb/format.go\<close>: the container of a TGB v1 blob,

  header (64 bytes) | column blobs | column directory | footer (16 bytes),

  with the CRC-32 (Castagnoli) that protects the header and the directory. Results: each
  of the three structures is read back as it was written, and a header with one corrupted
  byte is refused.
\<close>

section \<open>Errors and constants\<close>

text \<open>An error of the codec carries the format string of the Go error; \<open>Panic\<close> is a run-time panic.\<close>

datatype tgb_error = Err string | Panic

definition magic :: string where "magic = ''TGB1''"
definition formatVersion :: u16 where "formatVersion = 3"
definition headerSize :: nat where "headerSize = 64"
definition footerSize :: nat where "footerSize = 16"
definition maxDirectoryEntries :: u64 where "maxDirectoryEntries = 64"
definition maxColumnRawSize :: u64 where "maxColumnRawSize = push_bit 30 1"
definition maxTotalRawFactor :: u64 where "maxTotalRawFactor = 16"
definition maxTotalRawFloor :: u64 where "maxTotalRawFloor = push_bit 20 4"
definition maxDictExpansionFactor :: nat where "maxDictExpansionFactor = 32"
definition maxDictExpansionFloor :: nat where "maxDictExpansionFloor = 2 ^ 20"

definition colPkgDict :: u64 where "colPkgDict = 1"
definition colNameDict :: u64 where "colNameDict = 2"
definition colNodePkg :: u64 where "colNodePkg = 3"
definition colNodeName :: u64 where "colNodeName = 4"
definition colHash :: u64 where "colHash = 5"
definition colDeg :: u64 where "colDeg = 6"
definition colDeps :: u64 where "colDeps = 7"
definition colRuleType :: u64 where "colRuleType = 8"
definition colRuleTypeDict :: u64 where "colRuleTypeDict = 9"
definition colTagDeg :: u64 where "colTagDeg = 10"
definition colTags :: u64 where "colTags = 11"
definition colTagDict :: u64 where "colTagDict = 12"
definition colAttrDeg :: u64 where "colAttrDeg = 13"
definition colAttrName :: u64 where "colAttrName = 14"
definition colAttrValue :: u64 where "colAttrValue = 15"
definition colAttrNameDict :: u64 where "colAttrNameDict = 16"
definition colAttrValueDict :: u64 where "colAttrValueDict = 17"
definition colFlags :: u64 where "colFlags = 18"
definition colBlockDigest :: u64 where "colBlockDigest = 19"
definition colBlockStart :: u64 where "colBlockStart = 20"
definition colNodeIndex :: u64 where "colNodeIndex = 21"
definition colAllTargetsFileHashes :: u64 where "colAllTargetsFileHashes = 22"

lemmas col_defs = colPkgDict_def colNameDict_def colNodePkg_def colNodeName_def colHash_def
  colDeg_def colDeps_def colRuleType_def colRuleTypeDict_def colTagDeg_def colTags_def
  colTagDict_def colAttrDeg_def colAttrName_def colAttrValue_def colAttrNameDict_def
  colAttrValueDict_def colFlags_def colBlockDigest_def colBlockStart_def colNodeIndex_def
  colAllTargetsFileHashes_def

definition codecRaw :: byte where "codecRaw = 0"
definition codecZstd :: byte where "codecZstd = 1"

definition colNames :: "u64 \<rightharpoonup> string" where
  "colNames = map_of
    [(colPkgDict, ''PKG_DICT''), (colNameDict, ''NAME_DICT''), (colNodePkg, ''NODE_PKG''),
     (colNodeName, ''NODE_NAME''), (colHash, ''HASH''), (colDeg, ''DEG''), (colDeps, ''DEPS''),
     (colRuleType, ''RULETYPE''), (colRuleTypeDict, ''RULETYPE_DICT''), (colTagDeg, ''TAG_DEG''),
     (colTags, ''TAGS''), (colTagDict, ''TAG_DICT''), (colAttrDeg, ''ATTR_DEG''),
     (colAttrName, ''ATTR_NAME''), (colAttrValue, ''ATTR_VALUE''),
     (colAttrNameDict, ''ATTR_NAME_DICT''), (colAttrValueDict, ''ATTR_VALUE_DICT''),
     (colFlags, ''FLAGS''), (colBlockDigest, ''BLOCK_DIGEST''), (colBlockStart, ''BLOCK_START''),
     (colNodeIndex, ''NODE_INDEX''), (colAllTargetsFileHashes, ''ALL_TARGETS_FILE_HASHES'')]"

section \<open>CRC-32 (Castagnoli)\<close>

text \<open>\<open>hash/crc32\<close> with the reflected Castagnoli polynomial, one bit at a time.\<close>

definition crc_bit :: "u32 \<Rightarrow> u32" where
  "crc_bit c = (if bit c 0 then drop_bit 1 c XOR 0x82f63b78 else drop_bit 1 c)"

definition crc_byte :: "byte \<Rightarrow> u32 \<Rightarrow> u32" where
  "crc_byte b c = (crc_bit ^^ 8) (c XOR ucast b)"

definition crc32_checksum :: "bytes \<Rightarrow> u32" where
  "crc32_checksum bs = NOT (fold crc_byte bs (NOT 0))"

section \<open>Header\<close>

record fileHeader =
  nodeCount :: u64
  edgeCount :: u64
  blockSize :: u64
  flags :: u16
  hashBytes :: u16

text \<open>\<open>b[lo:hi]\<close> of an array of statically known length.\<close>

definition sub :: "bytes \<Rightarrow> nat \<Rightarrow> nat \<Rightarrow> bytes" where
  "sub b lo hi = take (hi - lo) (drop lo b)"

definition encodeHeader :: "fileHeader \<Rightarrow> bytes" where
  "encodeHeader h =
    (let b = bytes_of magic @ LE_put 2 formatVersion @ LE_put 2 (flags h) @
             LE_put 8 (nodeCount h) @ LE_put 8 (edgeCount h) @ LE_put 8 (blockSize h) @
             LE_put 2 (hashBytes h) @ replicate 22 0
     in b @ LE_put 4 (crc32_checksum b) @ replicate 4 0)"

definition decodeHeader :: "bytes \<Rightarrow> tgb_error + fileHeader" where
  "decodeHeader b =
    (if string_of (sub b 0 4) \<noteq> magic then Inl (Err ''tgb: bad magic: %q'')
     else if (LE_get 2 (sub b 4 6) :: u16) \<noteq> formatVersion then Inl (Err ''tgb: unsupported version %d'')
     else if crc32_checksum (sub b 0 56) \<noteq> LE_get 4 (sub b 56 60)
       then Inl (Err ''tgb: header CRC mismatch: got %08x want %08x'')
     else let hb = (LE_get 2 (sub b 32 34) :: u16) in
       if hb \<noteq> 8 \<and> hb \<noteq> 16 \<and> hb \<noteq> 20
         then Inl (Err ''tgb: invalid hash stride %d (want 8, 16, or 20)'')
       else Inr \<lparr> nodeCount = LE_get 8 (sub b 8 16), edgeCount = LE_get 8 (sub b 16 24),
                  blockSize = LE_get 8 (sub b 24 32), flags = LE_get 2 (sub b 6 8),
                  hashBytes = hb \<rparr>)"

section \<open>Footer\<close>

record fileFooter =
  dirOffset :: u64
  dirCRC :: u32

definition encodeFooter :: "fileFooter \<Rightarrow> bytes" where
  "encodeFooter f = LE_put 8 (dirOffset f) @ LE_put 4 (dirCRC f) @ bytes_of magic"

definition decodeFooter :: "bytes \<Rightarrow> tgb_error + fileFooter" where
  "decodeFooter b =
    (if string_of (sub b 12 16) \<noteq> magic then Inl (Err ''tgb: bad footer magic: %q'')
     else Inr \<lparr> dirOffset = LE_get 8 (sub b 0 8), dirCRC = LE_get 4 (sub b 8 12) \<rparr>)"

section \<open>Column directory\<close>

record colEntry =
  ce_id :: u64
  ce_codec :: byte
  ce_offset :: u64
  ce_compressedSize :: u64
  ce_rawSize :: u64

definition encodeEntry :: "colEntry \<Rightarrow> bytes" where
  "encodeEntry e = AppendUvarint (ce_id e) @ [ce_codec e] @ AppendUvarint (ce_offset e) @
     AppendUvarint (ce_compressedSize e) @ AppendUvarint (ce_rawSize e)"

definition encodeDirectory :: "colEntry list \<Rightarrow> bytes" where
  "encodeDirectory entries = AppendUvarint (of_nat (length entries)) @ concat (map encodeEntry entries)"

definition decodeEntry :: "bytes \<Rightarrow> tgb_error + colEntry \<times> bytes" where
  "decodeEntry b =
    bindE (nextUvarint (Err ''tgb: truncated column id'') b) (\<lambda>(id, b).
    case b of [] \<Rightarrow> Inl (Err ''tgb: truncated codec byte'')
    | codec # b \<Rightarrow>
    bindE (nextUvarint (Err ''tgb: truncated offset'') b) (\<lambda>(off, b).
    bindE (nextUvarint (Err ''tgb: truncated compressedSize'') b) (\<lambda>(comp, b).
    bindE (nextUvarint (Err ''tgb: truncated rawSize'') b) (\<lambda>(raw, b).
    Inr (\<lparr> ce_id = id, ce_codec = codec, ce_offset = off, ce_compressedSize = comp,
           ce_rawSize = raw \<rparr>, b)))))"

fun decodeEntries :: "nat \<Rightarrow> bytes \<Rightarrow> tgb_error + colEntry list" where
  "decodeEntries 0 b = Inr []"
| "decodeEntries (Suc n) b =
    bindE (decodeEntry b) (\<lambda>(e, b). bindE (decodeEntries n b) (\<lambda>es. Inr (e # es)))"

definition decodeDirectory :: "bytes \<Rightarrow> tgb_error + colEntry list" where
  "decodeDirectory b =
    bindE (nextUvarint (Err ''tgb: truncated directory count'') b) (\<lambda>(n, b).
    if maxDirectoryEntries < n then Inl (Err ''tgb: directory claims %d columns (max %d)'')
    else decodeEntries (unat n) b)"

section \<open>Round trips\<close>

lemma length_encodeHeader [simp]: "length (encodeHeader h) = headerSize"
  by (simp add: encodeHeader_def Let_def headerSize_def magic_def)

lemma length_encodeFooter [simp]: "length (encodeFooter f) = footerSize"
  by (simp add: encodeFooter_def footerSize_def magic_def)

lemma decodeHeader_encodeHeader:
  "decodeHeader (encodeHeader h) =
    (if hashBytes h \<in> {8, 16, 20} then Inr h
     else Inl (Err ''tgb: invalid hash stride %d (want 8, 16, or 20)''))"
proof -
  have m: "length (bytes_of magic) = 4"
    by (simp add: magic_def)
  have "sub (encodeHeader h) 0 4 = bytes_of magic"
    "sub (encodeHeader h) 4 6 = LE_put 2 formatVersion"
    "sub (encodeHeader h) 6 8 = LE_put 2 (flags h)"
    "sub (encodeHeader h) 8 16 = LE_put 8 (nodeCount h)"
    "sub (encodeHeader h) 16 24 = LE_put 8 (edgeCount h)"
    "sub (encodeHeader h) 24 32 = LE_put 8 (blockSize h)"
    "sub (encodeHeader h) 32 34 = LE_put 2 (hashBytes h)"
    "sub (encodeHeader h) 56 60 = LE_put 4 (crc32_checksum (sub (encodeHeader h) 0 56))"
    using m by (simp_all add: sub_def encodeHeader_def Let_def del: length_bytes_of)
  then show ?thesis
    by (simp add: decodeHeader_def codec_simps Let_def)
qed

lemma decodeFooter_encodeFooter: "decodeFooter (encodeFooter f) = Inr f"
  by (simp add: decodeFooter_def encodeFooter_def sub_def codec_simps magic_def)

lemma decodeEntry_encodeEntry [codec_simps]: "decodeEntry (encodeEntry e @ rest) = Inr (e, rest)"
  by (simp add: decodeEntry_def encodeEntry_def codec_simps)

lemma decodeEntries_encode:
  "decodeEntries (length es) (concat (map encodeEntry es) @ rest) = Inr es"
  by (induction es) (simp_all add: codec_simps)

lemma decodeDirectory_encodeDirectory:
  assumes "length entries < 2 ^ 64"
  shows "decodeDirectory (encodeDirectory entries @ rest) =
    (if length entries \<le> 64 then Inr entries
     else Inl (Err ''tgb: directory claims %d columns (max %d)''))"
proof -
  have "unat (of_nat (length entries) :: u64) = length entries"
    using assms by (simp add: unat_of_nat)
  then show ?thesis
    by (simp add: decodeDirectory_def encodeDirectory_def codec_simps maxDirectoryEntries_def
      word_less_nat_alt not_less decodeEntries_encode)
qed

section \<open>Corruption of a header byte\<close>

lemma bit_poly_31: "bit (0x82f63b78 :: u32) 31"
  by simp

lemma inj_crc_bit: "inj crc_bit"
proof (rule injI)
  fix c d
  assume eq: "crc_bit c = crc_bit d"
  have top: "bit (crc_bit x) 31 \<longleftrightarrow> bit x 0" for x
    using bit_imp_le_length [of x 32]
    by (auto simp add: crc_bit_def bit_xor_iff bit_drop_bit_eq bit_poly_31 simp del: bit_numeral_word_iff)
  have low: "bit c 0 = bit d 0"
    using eq top by metis
  then have "drop_bit 1 c = drop_bit 1 d"
    using eq unfolding crc_bit_def by (auto dest: arg_cong [where f = "\<lambda>x. x XOR 0x82f63b78"] simp: xor.assoc)
  then have "bit c (Suc n) = bit d (Suc n)" for n
    by (metis bit_drop_bit_eq comp_apply plus_1_eq_Suc)
  with low show "c = d"
    by (intro bit_word_eqI) (metis not0_implies_Suc)
qed

lemma inj_crc_byte: "inj (crc_byte b)"
proof -
  have "inj (crc_bit ^^ 8)"
    using inj_crc_bit by (rule inj_fn)
  moreover have "inj (\<lambda>c. c XOR (ucast b :: u32))"
    by (rule inj_on_inverseI [where g = "\<lambda>c. c XOR ucast b"]) (simp add: xor.assoc)
  ultimately have "inj ((crc_bit ^^ 8) \<circ> (\<lambda>c. c XOR (ucast b :: u32)))"
    by (rule inj_compose)
  then show ?thesis
    by (simp add: crc_byte_def [abs_def] comp_def)
qed

lemma ucast_byte_inj: "(ucast (b :: byte) :: u32) = ucast b' \<Longrightarrow> b = b'"
proof (rule bit_word_eqI)
  fix n
  assume "(ucast b :: u32) = ucast b'" "n < LENGTH(8)"
  then have "bit (ucast b :: u32) n = bit (ucast b' :: u32) n" "n < 32"
    by simp_all
  then show "bit b n = bit b' n"
    by (simp add: bit_unsigned_iff)
qed

lemma crc_byte_neq: "b \<noteq> b' \<Longrightarrow> crc_byte b c \<noteq> crc_byte b' c"
proof
  assume "b \<noteq> b'" and eq: "crc_byte b c = crc_byte b' c"
  have "c XOR ucast b = c XOR (ucast b' :: u32)"
    using eq unfolding crc_byte_def by (rule injD [OF inj_fn [OF inj_crc_bit]])
  then have "c XOR (c XOR ucast b) = c XOR (c XOR (ucast b' :: u32))"
    by (rule arg_cong)
  then have "ucast b = (ucast b' :: u32)"
    by (simp flip: xor.assoc)
  with \<open>b \<noteq> b'\<close> show False
    using ucast_byte_inj by blast
qed

lemma fold_crc_byte_inj: "fold crc_byte bs c = fold crc_byte bs d \<Longrightarrow> c = d"
  by (induction bs arbitrary: c d) (auto dest: injD [OF inj_crc_byte])

lemma crc32_detects_byte:
  assumes "i < length bs" "x \<noteq> bs ! i"
  shows "crc32_checksum (bs[i := x]) \<noteq> crc32_checksum bs"
proof
  assume eq: "crc32_checksum (bs[i := x]) = crc32_checksum bs"
  let ?c = "fold crc_byte (take i bs) (NOT 0)"
  let ?r = "drop (Suc i) bs"
  have split: "fold crc_byte (bs[i := y]) (NOT 0) = fold crc_byte ?r (crc_byte y ?c)" for y
    using assms(1) by (simp add: upd_conv_take_nth_drop)
  have "fold crc_byte (bs[i := x]) (NOT 0) = fold crc_byte (bs[i := bs ! i]) (NOT 0)"
    using eq unfolding crc32_checksum_def by (simp add: bit.compl_eq_compl_iff)
  then have "fold crc_byte ?r (crc_byte x ?c) = fold crc_byte ?r (crc_byte (bs ! i) ?c)"
    unfolding split .
  then show False
    using assms(2) crc_byte_neq by (auto dest: fold_crc_byte_inj)
qed

lemma bit_LE_get:
  "length bs = n \<Longrightarrow> bit (LE_get n bs :: 'a::len word) k \<longleftrightarrow>
    k < LENGTH('a) \<and> k div 8 < n \<and> bit (bs ! (k div 8)) (k mod 8)"
proof (induction n arbitrary: bs k)
  case (Suc n)
  obtain b bs' where bs: "bs = b # bs'" "length bs' = n"
    using Suc.prems by (cases bs) auto
  have high: "bit b k \<Longrightarrow> k < 8" for k
    using bit_imp_le_length [of b k] by simp
  show ?case
  proof (cases "k < 8")
    case True
    then show ?thesis
      using bs by (auto simp: bit_or_iff bit_unsigned_iff bit_push_bit_iff)
  next
    case False
    then obtain m where "k = m + 8"
      by (metis le_add_diff_inverse2 not_less)
    moreover have "(m + 8) div 8 = Suc (m div 8)" "(m + 8) mod 8 = m mod 8"
      by simp_all
    ultimately show ?thesis
      using bs Suc.IH [OF bs(2), of m] high [of k]
      by (auto simp: bit_or_iff bit_unsigned_iff bit_push_bit_iff)
  qed
qed simp

lemma LE_get_inj:
  assumes "length xs = n" "length ys = n" "8 * n \<le> LENGTH('a::len)"
    and eq: "(LE_get n xs :: 'a word) = LE_get n ys"
  shows "xs = ys"
proof (rule nth_equalityI)
  fix i
  assume "i < length xs"
  show "xs ! i = ys ! i"
  proof (rule bit_word_eqI)
    fix j
    assume "j < LENGTH(8)"
    then have "(8 * i + j) div 8 = i" "(8 * i + j) mod 8 = j" "8 * i + j < LENGTH('a)"
      using \<open>i < length xs\<close> assms(1,3) by auto
    then show "bit (xs ! i) j = bit (ys ! i) j"
      using bit_LE_get [OF assms(1), where 'a = 'a, of "8 * i + j"]
        bit_LE_get [OF assms(2), where 'a = 'a, of "8 * i + j"] eq \<open>i < length xs\<close> assms(1,2)
      by simp
  qed
qed (use assms in simp)

lemma sub_update:
  "lo \<le> i \<Longrightarrow> i < hi \<Longrightarrow> hi \<le> length b \<Longrightarrow> sub (b[i := x]) lo hi = (sub b lo hi)[i - lo := x]"
  "i < lo \<or> hi \<le> i \<Longrightarrow> sub (b[i := x]) lo hi = sub b lo hi"
  by (auto simp: sub_def drop_update_swap take_update_swap nth_list_update intro!: nth_equalityI)

lemma header_crc_stored:
  "(LE_get 4 (sub (encodeHeader h) 56 60) :: u32) = crc32_checksum (sub (encodeHeader h) 0 56)"
proof -
  have "length (bytes_of magic) = 4"
    by (simp add: magic_def)
  then have "sub (encodeHeader h) 56 60 = LE_put 4 (crc32_checksum (sub (encodeHeader h) 0 56))"
    by (simp add: sub_def encodeHeader_def Let_def del: length_bytes_of)
  then show ?thesis
    by (simp add: codec_simps)
qed

lemma header_crc_mismatch:
  assumes "i < 60" "x \<noteq> encodeHeader h ! i"
  shows "crc32_checksum (sub ((encodeHeader h)[i := x]) 0 56) \<noteq>
    LE_get 4 (sub ((encodeHeader h)[i := x]) 56 60)"
proof (cases "i < 56")
  case True
  have "sub (encodeHeader h) 0 56 ! i = encodeHeader h ! i" "length (sub (encodeHeader h) 0 56) = 56"
    using True by (simp_all add: sub_def headerSize_def)
  then show ?thesis
    using True assms(2) crc32_detects_byte [of i "sub (encodeHeader h) 0 56" x]
    by (simp add: sub_update header_crc_stored headerSize_def)
next
  case False
  let ?s = "sub (encodeHeader h) 56 60"
  have len: "length ?s = 4"
    by (simp add: sub_def headerSize_def)
  have len_gt: "i - 56 < length ?s"
    using False assms(1) len by simp
  have "?s ! (i - 56) = encodeHeader h ! i"
    using False assms(1) by (simp add: sub_def headerSize_def)
  then have "?s[i - 56 := x] \<noteq> ?s"
    using False assms len nth_list_update_eq [of "i - 56" ?s x] by (metis len_gt)
  then have "(LE_get 4 (?s[i - 56 := x]) :: u32) \<noteq> LE_get 4 ?s"
    using len LE_get_inj [of "?s[i - 56 := x]" 4 ?s, where 'a = 32] by auto
  then show ?thesis
    using False assms(1) by (simp add: sub_update header_crc_stored headerSize_def)
qed

text \<open>C28: a header in which one byte of the 60 meaningful ones was changed is refused,
  whatever the header and the byte: \<open>decodeHeader\<close> returns an error and never a wrong header.\<close>

theorem decodeHeader_rejects_corruption:
  assumes "i < 60" "x \<noteq> encodeHeader h ! i"
  shows "\<exists>e. decodeHeader ((encodeHeader h)[i := x]) = Inl e"
  using header_crc_mismatch [OF assms] by (simp add: decodeHeader_def)

theorem decodeHeader_rejects_corruption_witness:
  "\<exists>e. decodeHeader ((encodeHeader
      \<lparr> nodeCount = 1, edgeCount = 0, blockSize = 4096, flags = 0, hashBytes = 8 \<rparr>)[0 := 0x55]) = Inl e"
proof (rule decodeHeader_rejects_corruption)
  show "0x55 \<noteq> encodeHeader
      \<lparr> nodeCount = 1, edgeCount = 0, blockSize = 4096, flags = 0, hashBytes = 8 \<rparr> ! 0"
    by (simp add: encodeHeader_def Let_def magic_def bytes_of_def byte_of_char_def)
qed simp

end
