(* ===== verification/TgbDict.thy ===== *)
theory TgbDict
  imports TgbFormat
begin

text \<open>
  \<open>internal/tgb/dict.go\<close>: front-coded string dictionaries. Every string is stored as the
  length of the prefix it shares with its predecessor and the remaining suffix; every
  1024th entry is a restart point that shares nothing, and the byte offsets of the restart
  points precede the string data. Results: expanding a dictionary gives back exactly its
  strings whenever the expansion budget allows it and the budget error otherwise; the restart
  table points at entries that decode without their predecessors.
\<close>

definition restartInterval :: nat where "restartInterval = 1024"

fun commonPrefixLen :: "string \<Rightarrow> string \<Rightarrow> nat" where
  "commonPrefixLen (a # as) (b # bs) = (if a \<noteq> b then 0 else Suc (commonPrefixLen as bs))"
| "commonPrefixLen _ _ = 0"

section \<open>Building\<close>

definition entryBytes :: "nat \<Rightarrow> string \<Rightarrow> bytes" where
  "entryBytes shared s = (let suffix = drop shared s in
     AppendUvarint (of_nat shared) @ AppendUvarint (of_nat (length suffix)) @ bytes_of suffix)"

text \<open>The loop over \<open>strs\<close>: index, previous string, string data and restart offsets so far.\<close>

fun buildDict_loop :: "nat \<Rightarrow> string \<Rightarrow> string list \<Rightarrow> bytes \<Rightarrow> u64 list \<Rightarrow> bytes \<times> u64 list" where
  "buildDict_loop i prev [] strData offs = (strData, offs)"
| "buildDict_loop i prev (s # strs) strData offs =
    (let shared = (if i mod restartInterval \<noteq> 0 then commonPrefixLen prev s else 0);
         offs' = (if i mod restartInterval \<noteq> 0 then offs else offs @ [of_nat (length strData)])
     in buildDict_loop (Suc i) s strs (strData @ entryBytes shared s) offs')"

definition buildFrontCodedDict :: "string list \<Rightarrow> bytes" where
  "buildFrontCodedDict strs =
    (if strs = [] then AppendUvarint 0
     else case buildDict_loop 0 [] strs [] [] of (strData, restartOffsets) \<Rightarrow>
       AppendUvarint (of_nat (length restartOffsets)) @ concat (map (LE_put 8) restartOffsets) @ strData)"

section \<open>Expanding\<close>

text \<open>
  One entry. \<open>int(shared) > len(prev)\<close> compares the signed reading of the \<open>uint64\<close>, so a
  \<open>shared\<close> of \<open>2 ^ 63\<close> or more passes the check and \<open>prev[:shared]\<close> panics.
\<close>

definition expandEntry :: "string \<Rightarrow> bytes \<Rightarrow> tgb_error + string \<times> bytes" where
  "expandEntry prev data =
    bindE (nextUvarint (Err ''tgb: dict: truncated sharedPrefixLen'') data) (\<lambda>(shared, data).
    bindE (nextUvarint (Err ''tgb: dict: truncated suffixLen'') data) (\<lambda>(suffLen, data).
    if length data < unat suffLen then Inl (Err ''tgb: dict: suffix truncated'')
    else let suf = string_of (take (unat suffLen) data); data = drop (unat suffLen) data in
      if int (length prev) < sint shared
        then Inl (Err ''tgb: dict: shared prefix %d > prev len %d'')
      else if length prev < unat shared then Inl Panic
      else Inr (take (unat shared) prev @ suf, data)))"

lemma expandEntry_shrinks: "expandEntry prev data = Inr (s, rest) \<Longrightarrow> length rest < length data"
  unfolding expandEntry_def
  by (auto simp: bindE_eq_Inr Let_def dest!: nextUvarint_shrinks split: if_splits)

function expandDict_loop :: "nat \<Rightarrow> nat \<Rightarrow> string \<Rightarrow> bytes \<Rightarrow> tgb_error + string list" where
  "expandDict_loop budget tot prev data =
    (if data = [] then Inr []
     else bindE (expandEntry prev data) (\<lambda>(s, data).
       let tot = tot + length s in
       if budget < tot then Inl (Err ''tgb: dict: expands to %d+ bytes from %d encoded (max %d)'')
       else bindE (expandDict_loop budget tot s data) (\<lambda>out. Inr (s # out))))"
  by auto
termination
  by (relation "measure (\<lambda>(budget, tot, prev, data). length data)")
    (auto dest: expandEntry_shrinks)

declare expandDict_loop.simps [simp del]

text \<open>\<open>restartCount\<close> and the data behind it, bounded by the bytes present.\<close>

definition dictRestartCount :: "bytes \<Rightarrow> tgb_error + nat \<times> bytes" where
  "dictRestartCount data =
    bindE (nextUvarint (Err ''tgb: dict: truncated restartCount'') data) (\<lambda>(rc, data).
    if length data div 8 < unat rc then Inl (Err ''tgb: dict: restartCount %d exceeds data'')
    else Inr (unat rc, data))"

definition dictBudget :: "bytes \<Rightarrow> nat" where
  "dictBudget strData = max (length strData * maxDictExpansionFactor) maxDictExpansionFloor"

definition expandDict :: "bytes \<Rightarrow> tgb_error + string list" where
  "expandDict data =
    (if data = [] then Inr []
     else bindE (dictRestartCount data) (\<lambda>(rc, data).
       let data = drop (rc * 8) data in expandDict_loop (dictBudget data) 0 [] data))"

definition restartTable :: "bytes \<Rightarrow> tgb_error + u64 list \<times> bytes" where
  "restartTable data =
    bindE (dictRestartCount data) (\<lambda>(rc, data).
    Inr (map (\<lambda>i. LE_get 8 (drop (i * 8) data)) [0..<rc], drop (rc * 8) data))"

definition lookupDictEntry :: "string list \<Rightarrow> int \<Rightarrow> tgb_error + string" where
  "lookupDictEntry expanded idx =
    (if idx < 0 \<or> int (length expanded) \<le> idx then Inl (Err ''tgb: dict: index %d out of range [0,%d)'')
     else Inr (expanded ! nat idx))"

section \<open>Common prefixes\<close>

lemma commonPrefixLen_le: "commonPrefixLen a b \<le> length a" "commonPrefixLen a b \<le> length b"
  by (induction a b rule: commonPrefixLen.induct) auto

lemma commonPrefixLen_take: "take (commonPrefixLen a b) a = take (commonPrefixLen a b) b"
  by (induction a b rule: commonPrefixLen.induct) auto

lemma commonPrefixLen_maximal:
  "k < length a \<Longrightarrow> k < length b \<Longrightarrow> take (Suc k) a = take (Suc k) b \<Longrightarrow> k < commonPrefixLen a b"
  by (induction a b arbitrary: k rule: commonPrefixLen.induct) (auto simp: less_Suc_eq_0_disj split: nat.splits)

section \<open>Round trip\<close>

text \<open>The string data on its own: what the loop appends, and what a shared length must satisfy.\<close>

fun frontCode :: "nat \<Rightarrow> string \<Rightarrow> string list \<Rightarrow> bytes" where
  "frontCode i prev [] = []"
| "frontCode i prev (s # strs) =
    entryBytes (if i mod restartInterval \<noteq> 0 then commonPrefixLen prev s else 0) s @ frontCode (Suc i) s strs"

definition fits64 :: "string list \<Rightarrow> bool" where
  "fits64 strs \<longleftrightarrow> length strs < 2 ^ 60 \<and> (\<forall>s \<in> set strs. length s < 2 ^ 63)"

lemma buildDict_loop_data: "fst (buildDict_loop i prev strs strData offs) = strData @ frontCode i prev strs"
  by (induction i prev strs strData offs rule: buildDict_loop.induct) (simp_all add: Let_def)

lemma buildDict_loop_offs_length:
  "length (snd (buildDict_loop i prev strs strData offs)) \<le> length offs + length strs"
proof (induction strs arbitrary: i prev strData offs)
  case (Cons s strs)
  show ?case
    by (cases "i mod restartInterval = 0") (auto simp: Let_def intro: order_trans [OF Cons.IH])
qed simp

lemma unat_of_nat_64: "n < 2 ^ 63 \<Longrightarrow> unat (of_nat n :: u64) = n"
  by (simp add: unat_of_nat)

lemma sint_of_nat_64: "n < 2 ^ 63 \<Longrightarrow> sint (of_nat n :: u64) = int n"
  by (simp add: sint_uint uint_nat unat_of_nat_64 signed_take_bit_int_eq_self)

lemma expandEntry_entryBytes:
  assumes "shared \<le> length prev" "shared \<le> length s" "take shared prev = take shared s"
    and "length s < 2 ^ 63"
  shows "expandEntry prev (entryBytes shared s @ rest) = Inr (s, rest)"
proof -
  have u: "unat (of_nat shared :: u64) = shared" "sint (of_nat shared :: u64) = int shared"
    "unat (of_nat (length s - shared) :: u64) = length s - shared"
    by (rule unat_of_nat_64 sint_of_nat_64, use assms(2,4) in linarith)+
  show ?thesis
    unfolding expandEntry_def entryBytes_def Let_def
    using u assms(1,2) by (simp add: codec_simps assms(3) del: of_nat_diff)
qed

lemma expandDict_loop_frontCode:
  assumes "\<forall>s \<in> set strs. length s < 2 ^ 63"
  shows "tot \<le> budget \<Longrightarrow> expandDict_loop budget tot prev (frontCode i prev strs) =
    (if tot + sum_list (map length strs) \<le> budget then Inr strs
     else Inl (Err ''tgb: dict: expands to %d+ bytes from %d encoded (max %d)''))"
  using assms
proof (induction strs arbitrary: i prev tot)
  case Nil
  then show ?case by (simp add: expandDict_loop.simps)
next
  case (Cons s strs)
  let ?sh = "if i mod restartInterval \<noteq> 0 then commonPrefixLen prev s else 0"
  have e: "expandEntry prev (entryBytes ?sh s @ frontCode (Suc i) s strs) = Inr (s, frontCode (Suc i) s strs)"
    using Cons.prems commonPrefixLen_take [of prev s] commonPrefixLen_le [of prev s]
    by (intro expandEntry_entryBytes) auto
  have "entryBytes ?sh s \<noteq> []"
    by (simp add: entryBytes_def Let_def)
  then show ?case
    using e Cons by (auto simp: expandDict_loop.simps [of budget tot] Let_def)
qed

lemma length_concat_LE_put: "length (concat (map (LE_put 8) offs)) = 8 * length offs"
  by (induction offs) auto

lemma dictRestartCount_build:
  assumes "fits64 strs"
  defines "offs \<equiv> snd (buildDict_loop 0 [] strs [] [])"
  shows "dictRestartCount (buildFrontCodedDict strs) =
    Inr (length offs, concat (map (LE_put 8) offs) @ frontCode 0 [] strs)"
proof (cases strs)
  case Nil
  then show ?thesis
    by (simp add: buildFrontCodedDict_def dictRestartCount_def offs_def codec_simps)
next
  case Cons
  have "length offs < 2 ^ 63"
    using buildDict_loop_offs_length [of 0 "[]" strs "[]" "[]"] assms by (auto simp: fits64_def)
  then have "unat (of_nat (length offs) :: u64) = length offs"
    by (rule unat_of_nat_64)
  moreover have "buildFrontCodedDict strs = AppendUvarint (of_nat (length offs)) @
      concat (map (LE_put 8) offs) @ frontCode 0 [] strs"
    using Cons buildDict_loop_data [of 0 "[]" strs "[]" "[]"]
    by (auto simp: buildFrontCodedDict_def offs_def split: prod.split)
  ultimately show ?thesis
    by (simp add: dictRestartCount_def codec_simps length_concat_LE_put)
qed

lemma expandDict_build:
  assumes "fits64 strs"
  shows "expandDict (buildFrontCodedDict strs) =
    (if sum_list (map length strs) \<le> dictBudget (frontCode 0 [] strs) then Inr strs
     else Inl (Err ''tgb: dict: expands to %d+ bytes from %d encoded (max %d)''))"
proof -
  have "buildFrontCodedDict strs \<noteq> []"
    by (simp add: buildFrontCodedDict_def split: prod.split)
  then show ?thesis
    using assms expandDict_loop_frontCode [of strs 0 "dictBudget (frontCode 0 [] strs)" "[]" 0]
    by (simp add: expandDict_def dictRestartCount_build [OF assms] length_concat_LE_put Let_def fits64_def)
qed

section \<open>Restart points\<close>

lemma frontCode_append:
  "frontCode i prev (xs @ ys) = frontCode i prev xs @ frontCode (i + length xs) (last (prev # xs)) ys"
  by (induction xs arbitrary: i prev) auto

lemma buildDict_loop_offs:
  "snd (buildDict_loop i prev strs strData offs) = offs @
    map (\<lambda>j. of_nat (length strData + length (frontCode i prev (take j strs))))
      (filter (\<lambda>j. (i + j) mod restartInterval = 0) [0..<length strs])"
proof (induction strs arbitrary: i prev strData offs)
  case (Cons s strs)
  have shift: "[0..<length (s # strs)] = 0 # map Suc [0..<length strs]"
    by (simp add: upt_conv_Cons map_Suc_upt del: upt_Suc)
  show ?case
    unfolding shift
    by (cases "i mod restartInterval = 0")
      (simp_all add: Let_def Cons.IH filter_map comp_def add.assoc)
qed simp

lemma map_LE_get_concat:
  "map (\<lambda>i. LE_get 8 (drop (i * 8) (concat (map (LE_put 8) offs) @ rest))) [0..<length offs] = (offs :: u64 list)"
proof (induction offs)
  case (Cons a offs)
  have shift: "[0..<length (a # offs)] = 0 # map Suc [0..<length offs]"
    by (simp add: upt_conv_Cons map_Suc_upt del: upt_Suc)
  show ?case
    unfolding shift using Cons.IH by (simp add: codec_simps comp_def)
qed simp

text \<open>The indices of the restart entries of a dictionary of \<open>n\<close> strings.\<close>

definition restartIndices :: "nat \<Rightarrow> nat list" where
  "restartIndices n = filter (\<lambda>j. j mod restartInterval = 0) [0..<n]"

lemma restartTable_build:
  assumes "fits64 strs"
  shows "restartTable (buildFrontCodedDict strs) =
    Inr (map (\<lambda>j. of_nat (length (frontCode 0 [] (take j strs)))) (restartIndices (length strs)),
         frontCode 0 [] strs)"
proof -
  have offs: "snd (buildDict_loop 0 [] strs [] []) =
      map (\<lambda>j. of_nat (length (frontCode 0 [] (take j strs)))) (restartIndices (length strs))"
    by (simp add: buildDict_loop_offs restartIndices_def)
  have "restartTable (buildFrontCodedDict strs) = Inr (snd (buildDict_loop 0 [] strs [] []), frontCode 0 [] strs)"
    unfolding restartTable_def dictRestartCount_build [OF assms]
    using map_LE_get_concat [of "snd (buildDict_loop 0 [] strs [] [])" "frontCode 0 [] strs"]
    by (simp add: length_concat_LE_put)
  then show ?thesis
    unfolding offs .
qed

lemma restart_entry_decodes:
  assumes "fits64 strs" "length (frontCode 0 [] strs) < 2 ^ 63" "j < length strs" "j mod restartInterval = 0"
  shows "expandEntry [] (drop (unat (of_nat (length (frontCode 0 [] (take j strs))) :: u64)) (frontCode 0 [] strs))
    = Inr (strs ! j, frontCode (Suc j) (strs ! j) (drop (Suc j) strs))"
proof -
  have split: "strs = take j strs @ strs ! j # drop (Suc j) strs"
    using assms(3) by (rule id_take_nth_drop)
  have fc: "frontCode 0 [] strs = frontCode 0 [] (take j strs) @
      entryBytes 0 (strs ! j) @ frontCode (Suc j) (strs ! j) (drop (Suc j) strs)"
    using assms(3,4) by (subst split, subst frontCode_append) simp
  then have "length (frontCode 0 [] (take j strs)) < 2 ^ 63"
    using assms(2) by simp
  then have "unat (of_nat (length (frontCode 0 [] (take j strs))) :: u64) = length (frontCode 0 [] (take j strs))"
    by (rule unat_of_nat_64)
  moreover have "length (strs ! j) < 2 ^ 63"
    using assms(1,3) by (simp add: fits64_def)
  ultimately show ?thesis
    by (subst fc) (simp add: expandEntry_entryBytes)
qed

section \<open>Properties\<close>

text \<open>C29: a front-coded dictionary expands to exactly the strings it was built from, in order,
  when their total length is within the expansion budget (32 times the string data, at least
  1 MiB); above the budget \<open>expandDict\<close> reports the budget error, so the encoder can write a
  dictionary its own reader refuses.\<close>

theorem expandDict_buildFrontCodedDict:
  assumes "fits64 strs"
  shows "expandDict (buildFrontCodedDict strs) =
    (if sum_list (map length strs) \<le> dictBudget (frontCode 0 [] strs) then Inr strs
     else Inl (Err ''tgb: dict: expands to %d+ bytes from %d encoded (max %d)''))"
  using assms by (rule expandDict_build)

theorem expandDict_buildFrontCodedDict_witness:
  "expandDict (buildFrontCodedDict [''app/a'', ''app/b'', ''lib'']) = Inr [''app/a'', ''app/b'', ''lib'']"
  by (subst expandDict_buildFrontCodedDict)
    (simp_all add: fits64_def dictBudget_def maxDictExpansionFloor_def)

text \<open>The restart table of a dictionary lists, for every 1024th string in order, an offset
  into the string data at which that string decodes on its own, with an empty predecessor.\<close>

theorem restartTable_random_access:
  assumes "fits64 strs" "length (frontCode 0 [] strs) < 2 ^ 63"
  shows "\<exists>offs strData. restartTable (buildFrontCodedDict strs) = Inr (offs, strData) \<and>
    list_all2 (\<lambda>off j. \<exists>rest. expandEntry [] (drop (unat off) strData) = Inr (strs ! j, rest))
      offs (restartIndices (length strs))"
proof (intro exI conjI)
  show "restartTable (buildFrontCodedDict strs) =
    Inr (map (\<lambda>j. of_nat (length (frontCode 0 [] (take j strs)))) (restartIndices (length strs)),
         frontCode 0 [] strs)"
    using assms(1) by (rule restartTable_build)
  show "list_all2 (\<lambda>off j. \<exists>rest. expandEntry [] (drop (unat off) (frontCode 0 [] strs)) = Inr (strs ! j, rest))
    (map (\<lambda>j. of_nat (length (frontCode 0 [] (take j strs))) :: u64) (restartIndices (length strs)))
    (restartIndices (length strs))"
    unfolding list_all2_map1 restartIndices_def
    by (rule list.rel_refl_strong) (rule exI, rule restart_entry_decodes [OF assms], simp_all)
qed

theorem restartTable_random_access_witness:
  "\<exists>offs strData. restartTable (buildFrontCodedDict [''x'', ''xy'']) = Inr (offs, strData) \<and>
    list_all2 (\<lambda>off j. \<exists>rest. expandEntry [] (drop (unat off) strData) = Inr ([''x'', ''xy''] ! j, rest))
      offs (restartIndices (length [''x'', ''xy'']))"
proof (rule restartTable_random_access)
  show "length (frontCode 0 [] [''x'', ''xy'']) < 2 ^ 63"
    by (simp add: entryBytes_def AppendUvarint.simps restartInterval_def Let_def)
qed (simp add: fits64_def)

text \<open>A \<open>sharedPrefixLen\<close> of \<open>2 ^ 63\<close> or more is not refused but crashes the reader: the range
  check compares its signed reading, which is negative, and the slice of the previous string
  panics.\<close>

theorem expandEntry_panics_on_huge_shared:
  "expandEntry prev (AppendUvarint (push_bit 63 1) @ AppendUvarint 0 @ rest) = Inl Panic \<longleftrightarrow> length prev < 2 ^ 63"
  by (auto simp: expandEntry_def codec_simps not_less)

end
