(* ===== verification/TgbSort.thy ===== *)
theory TgbSort
  imports Prelude "HOL-Library.Multiset"
begin

text \<open>
  \<open>internal/tgb/psort.go\<close>: the parallel merge sort of the encoder. The two recursive calls of
  \<open>sortMerge\<close> work on disjoint halves of the slice, so running one of them in a goroutine is the
  pure computation below; the scratch buffer only receives the merged run. The sequential sort
  of the standard library is the operation \<open>SortFunc\<close> of the locale \<open>go_sort\<close>: it returns a sorted
  permutation and promises nothing about the order of equal elements.
\<close>

section \<open>Model\<close>

fun mergeRuns :: "('a \<Rightarrow> 'a \<Rightarrow> int) \<Rightarrow> 'a list \<Rightarrow> 'a list \<Rightarrow> 'a list" where
  "mergeRuns cmp (x # xs) (y # ys) =
    (if cmp x y \<le> 0 then x # mergeRuns cmp xs (y # ys) else y # mergeRuns cmp (x # xs) ys)"
| "mergeRuns cmp xs ys = xs @ ys"

fun sortMerge :: "('a list \<Rightarrow> 'a list) \<Rightarrow> ('a \<Rightarrow> 'a \<Rightarrow> int) \<Rightarrow> nat \<Rightarrow> 'a list \<Rightarrow> 'a list" where
  "sortMerge SortFunc cmp 0 s = SortFunc s"
| "sortMerge SortFunc cmp (Suc depth) s =
    (if length s < 4096 then SortFunc s
     else let m = length s div 2 in
       mergeRuns cmp (sortMerge SortFunc cmp depth (take m s)) (sortMerge SortFunc cmp depth (drop m s)))"

text \<open>\<open>for c := GOMAXPROCS(0); c > 1 && depth < 4; c >>= 1 { depth++ }\<close>\<close>

function sortDepth :: "nat \<Rightarrow> nat \<Rightarrow> nat" where
  "sortDepth c depth = (if 1 < c \<and> depth < 4 then sortDepth (c div 2) (depth + 1) else depth)"
  by auto
termination by (relation "measure fst") auto

declare sortDepth.simps [simp del]

definition parallelSortFunc ::
  "('a list \<Rightarrow> 'a list) \<Rightarrow> ('a \<Rightarrow> 'a \<Rightarrow> int) \<Rightarrow> nat \<Rightarrow> 'a list \<Rightarrow> 'a list" where
  "parallelSortFunc SortFunc cmp procs s =
    (if length s < 2 ^ 15 then SortFunc s else sortMerge SortFunc cmp (sortDepth procs 0) s)"

definition strings_Compare :: "string \<Rightarrow> string \<Rightarrow> int" where
  "strings_Compare a b = (if a = b then 0 else if a < b then -1 else 1)"

section \<open>The contract of the sequential sort\<close>

locale go_sort =
  fixes key :: "'a \<Rightarrow> 'k::linorder"
    and cmp :: "'a \<Rightarrow> 'a \<Rightarrow> int"
    and SortFunc :: "'a list \<Rightarrow> 'a list"
  assumes cmp_key: "cmp a b \<le> 0 \<longleftrightarrow> key a \<le> key b"
    and SortFunc_perm: "mset (SortFunc xs) = mset xs"
    and SortFunc_sorted: "sorted (map key (SortFunc xs))"
begin

lemma mset_mergeRuns: "mset (mergeRuns cmp xs ys) = mset xs + mset ys"
  by (induction cmp xs ys rule: mergeRuns.induct) auto

lemma set_mergeRuns: "set (mergeRuns cmp xs ys) = set xs \<union> set ys"
  using mset_mergeRuns [of xs ys] by (metis set_mset_mset set_mset_union)

lemma sorted_mergeRuns:
  "sorted (map key xs) \<Longrightarrow> sorted (map key ys) \<Longrightarrow> sorted (map key (mergeRuns cmp xs ys))"
proof (induction c \<equiv> cmp xs ys rule: mergeRuns.induct)
  case (1 x xs y ys)
  then show ?case
    by (auto simp: cmp_key set_mergeRuns not_le less_imp_le dest: order_trans)
qed simp_all

lemma mset_sortMerge: "mset (sortMerge SortFunc cmp depth s) = mset s"
proof (induction depth arbitrary: s)
  case (Suc depth)
  then show ?case
    by (simp add: Let_def SortFunc_perm mset_mergeRuns flip: mset_append)
qed (simp add: SortFunc_perm)

lemma sorted_sortMerge: "sorted (map key (sortMerge SortFunc cmp depth s))"
  by (induction depth arbitrary: s) (simp_all add: Let_def SortFunc_sorted sorted_mergeRuns)

lemma parallelSort_perm: "mset (parallelSortFunc SortFunc cmp procs s) = mset s"
  by (simp add: parallelSortFunc_def SortFunc_perm mset_sortMerge)

lemma parallelSort_sorted: "sorted (map key (parallelSortFunc SortFunc cmp procs s))"
  by (simp add: parallelSortFunc_def SortFunc_sorted sorted_sortMerge)

text \<open>Without equal keys the result is the only sorted arrangement, whatever the parallelism.\<close>

lemma parallelSort_unique:
  assumes "inj_on key (set s)"
  shows "parallelSortFunc SortFunc cmp procs s = sort_key key s"
proof (rule map_inj_on)
  let ?p = "parallelSortFunc SortFunc cmp procs s"
  have set_eq: "set ?p = set s"
    using parallelSort_perm by (metis set_mset_mset)
  have "mset (map key ?p) = mset (map key s)"
    by (simp add: parallelSort_perm)
  then have "sort (map key s) = map key ?p"
    by (rule properties_for_sort) (rule parallelSort_sorted)
  moreover have "sort (map key s) = map key (sort_key key s)"
    by (rule properties_for_sort) simp_all
  ultimately show "map key ?p = map key (sort_key key s)"
    by simp
  show "inj_on key (set ?p \<union> set (sort_key key s))"
    using assms set_eq by simp
qed

end

text \<open>A stable sequential sort satisfies the contract; this is the instance the encoder model uses.\<close>

interpretation stringSort: go_sort "\<lambda>s. s" strings_Compare "sort_key (\<lambda>s. s)"
  by unfold_locales (auto simp: strings_Compare_def)

lemma parallelSort_strings: "parallelSortFunc sort strings_Compare procs s = sort s"
  using stringSort.parallelSort_unique [of s procs] by (simp add: inj_on_def)

end
