(* ===== verification/TgbEncode.thy ===== *)
theory TgbEncode
  imports TgbDict TgbSort Entity
begin

text \<open>
  \<open>internal/tgb/encode.go\<close> and \<open>graph.go\<close>: the encoder. Its state is the record \<open>encoder\<close>;
  \<open>buildNodes\<close>, \<open>buildDicts\<close>, \<open>buildColumns\<close> and \<open>buildBlocks\<close> fill it in that order and \<open>write\<close>
  (here \<open>writeBlob\<close>) lays the columns out. The per-node pass runs in shards; a shard stops at its
  first error and the error of the lowest failing shard is returned.

  Parameters that stand for third-party code: \<open>xxh\<close> is \<open>xxhash.Sum64\<close> (streaming writes hash
  the concatenation), \<open>zc level\<close> is zstd's \<open>EncodeAll\<close>. \<open>procs\<close> is \<open>runtime.GOMAXPROCS(0)\<close>.
  Go's library sorts do not fix the order of equal elements; the model uses a stable sort, and
  the results rest only on sortedness and permutation.
\<close>

section \<open>State\<close>

record Graph =
  g_Targets :: "OptimizedTarget list"
  g_Metadata :: Metadata

record EncodeOptions =
  opt_ZstdLevel :: int
  opt_HashBytes :: int
  opt_BlockSize :: int
  opt_Serial :: bool

definition fillDefaults :: "EncodeOptions \<Rightarrow> EncodeOptions" where
  "fillDefaults o' =
    (let o1 = (if opt_HashBytes o' = 0 then o' \<lparr> opt_HashBytes := 8 \<rparr> else o')
     in if opt_BlockSize o1 = 0 then o1 \<lparr> opt_BlockSize := 512 \<rparr> else o1)"

record nodeInfo =
  ni_label :: string
  ni_pkg :: string
  ni_name :: string
  ni_origIdx :: nat
  ni_origID :: i32

record encoder =
  e_opts :: EncodeOptions
  e_g :: Graph
  e_nodes :: "nodeInfo list"
  e_pkgDict :: "string list"
  e_nameDict :: "string list"
  e_ruleTypeDict :: "string list"
  e_tagDict :: "string list"
  e_attrNameDict :: "string list"
  e_attrValDict :: "string list"
  e_pkgIDs :: "i32 list"
  e_nameIDs :: "i32 list"
  e_ruleTypeIDs :: "i32 list"
  e_hashRaw :: bytes
  e_depDeg :: "i32 list"
  e_depList :: bytes
  e_tagDeg :: "i32 list"
  e_tagList :: bytes
  e_attrDeg :: "i32 list"
  e_attrNms :: bytes
  e_attrVls :: bytes
  e_rootBits :: bytes
  e_extBits :: bytes
  e_hashEmptyBits :: bytes
  e_blockStarts :: "i32 list"
  e_blockDigests :: "u64 list"

definition zeroEncoder :: "Graph \<Rightarrow> EncodeOptions \<Rightarrow> encoder" where
  "zeroEncoder g opts = \<lparr> e_opts = opts, e_g = g, e_nodes = [], e_pkgDict = [], e_nameDict = [],
     e_ruleTypeDict = [], e_tagDict = [], e_attrNameDict = [], e_attrValDict = [], e_pkgIDs = [],
     e_nameIDs = [], e_ruleTypeIDs = [], e_hashRaw = [], e_depDeg = [], e_depList = [], e_tagDeg = [],
     e_tagList = [], e_attrDeg = [], e_attrNms = [], e_attrVls = [], e_rootBits = [], e_extBits = [],
     e_hashEmptyBits = [], e_blockStarts = [], e_blockDigests = [] \<rparr>"

section \<open>Labels\<close>

text \<open>\<open>strings.LastIndex(s, sep)\<close> for a one-byte separator; \<open>None\<close> is \<open>-1\<close>.\<close>

fun LastIndex :: "string \<Rightarrow> char \<Rightarrow> nat option" where
  "LastIndex [] c = None"
| "LastIndex (x # xs) c = (case LastIndex xs c of Some i \<Rightarrow> Some (Suc i)
     | None \<Rightarrow> if x = c then Some 0 else None)"

definition splitLabel :: "string \<Rightarrow> string \<times> string" where
  "splitLabel label = (case LastIndex label CHR '':'' of None \<Rightarrow> ([], label)
     | Some i \<Rightarrow> (take i label, drop (i + 1) label))"

definition joinLabel :: "string \<Rightarrow> string \<Rightarrow> string" where
  "joinLabel pkg name = (if pkg = [] then name else pkg @ '':'' @ name)"

section \<open>Nodes\<close>

definition nodeCmp :: "nodeInfo \<Rightarrow> nodeInfo \<Rightarrow> int" where
  "nodeCmp a b = (let c = strings_Compare (ni_pkg a) (ni_pkg b) in
     if c \<noteq> 0 then c else strings_Compare (ni_name a) (ni_name b))"

abbreviation nodeKey :: "nodeInfo \<Rightarrow> string \<times> string" where
  "nodeKey n \<equiv> (ni_pkg n, ni_name n)"

definition mkNode :: "Metadata \<Rightarrow> nat \<times> OptimizedTarget \<Rightarrow> tgb_error + nodeInfo" where
  "mkNode meta it = (case it of (i, t) \<Rightarrow>
     case map_of (md_TargetIDMapping meta) (ot_ID t) of
       None \<Rightarrow> Inl (Err ''tgb: target ID %d has no label'')
     | Some label \<Rightarrow> (case splitLabel label of (pkg, name) \<Rightarrow>
         Inr \<lparr> ni_label = label, ni_pkg = pkg, ni_name = name, ni_origIdx = i, ni_origID = ot_ID t \<rparr>))"

definition buildNodes :: "nat \<Rightarrow> encoder \<Rightarrow> tgb_error + encoder" where
  "buildNodes procs e =
    bindE (mapE (mkNode (g_Metadata (e_g e))) (enumerate 0 (g_Targets (e_g e)))) (\<lambda>nodes.
    Inr (e \<lparr> e_nodes := parallelSortFunc (sort_key nodeKey) nodeCmp procs nodes \<rparr>))"

section \<open>Dictionaries\<close>

text \<open>\<open>slices.Compact\<close> is \<^const>\<open>remdups_adj\<close>.\<close>

definition sortedUniqueStrings :: "(i32, string) gomap \<Rightarrow> string list" where
  "sortedUniqueStrings m = remdups_adj (sort (map snd m))"

fun strIndex_loop :: "nat \<Rightarrow> string list \<Rightarrow> (string \<rightharpoonup> i32) \<Rightarrow> (string \<rightharpoonup> i32)" where
  "strIndex_loop i [] m = m"
| "strIndex_loop i (s # strs) m = strIndex_loop (Suc i) strs (m(s \<mapsto> of_nat i))"

definition buildStrIndex :: "string list \<Rightarrow> (string \<rightharpoonup> i32)" where
  "buildStrIndex strs = strIndex_loop 0 strs Map.empty"

text \<open>A lookup of an absent key in a Go map gives the zero value.\<close>

definition lookup0 :: "('k \<rightharpoonup> 'v::zero) \<Rightarrow> 'k \<Rightarrow> 'v" where
  "lookup0 m k = (case m k of None \<Rightarrow> 0 | Some v \<Rightarrow> v)"

definition remapTable :: "(i32, string) gomap \<Rightarrow> (string \<rightharpoonup> i32) \<Rightarrow> (i32 \<rightharpoonup> i32)" where
  "remapTable mapping dictIdx = map_of (map (\<lambda>(oldID, s). (oldID, lookup0 dictIdx s)) mapping)"

text \<open>The run counter of packages: \<open>None\<close> before the first node, else the previous package.\<close>

fun pkgRuns :: "string option \<Rightarrow> i32 \<Rightarrow> nodeInfo list \<Rightarrow> string list \<times> i32 list" where
  "pkgRuns prev cur [] = ([], [])"
| "pkgRuns prev cur (n # ns) =
    (if prev \<noteq> Some (ni_pkg n)
     then (case pkgRuns (Some (ni_pkg n)) (cur + 1) ns of (d, ids) \<Rightarrow> (ni_pkg n # d, (cur + 1) # ids))
     else (case pkgRuns prev cur ns of (d, ids) \<Rightarrow> (d, cur # ids)))"

definition buildDicts :: "nat \<Rightarrow> encoder \<Rightarrow> encoder" where
  "buildDicts procs e =
    (let meta = g_Metadata (e_g e); (pkgDict, pkgIDs) = pkgRuns None (- 1) (e_nodes e) in
     e \<lparr> e_pkgDict := pkgDict, e_pkgIDs := pkgIDs,
         e_nameDict := remdups_adj (parallelSortFunc sort strings_Compare procs (map ni_name (e_nodes e))),
         e_ruleTypeDict := sortedUniqueStrings (md_RuleTypeMapping meta),
         e_tagDict := sortedUniqueStrings (md_TagMapping meta),
         e_attrNameDict := sortedUniqueStrings (md_AttributeNameMapping meta),
         e_attrValDict := sortedUniqueStrings (md_AttributeStringValueMapping meta) \<rparr>)"

section \<open>Hashes\<close>

definition hexNibble :: "byte \<Rightarrow> byte option" where
  "hexNibble c =
    (if 0x30 \<le> c \<and> c \<le> 0x39 then Some (c - 0x30)
     else if 0x61 \<le> c \<and> c \<le> 0x66 then Some (c - 0x61 + 10)
     else if 0x41 \<le> c \<and> c \<le> 0x46 then Some (c - 0x41 + 10)
     else None)"

fun hexPairs :: "nat \<Rightarrow> bytes \<Rightarrow> bytes option" where
  "hexPairs 0 s = (if list_all (\<lambda>c. hexNibble c \<noteq> None) s then Some [] else None)"
| "hexPairs (Suc n) (a # b # s) = (case (hexNibble a, hexNibble b) of
     (Some hi, Some lo) \<Rightarrow> map_option (\<lambda>bs. (push_bit 4 hi OR lo) # bs) (hexPairs n s)
   | _ \<Rightarrow> None)"
| "hexPairs (Suc n) s = None"

definition hexDecodeInto :: "nat \<Rightarrow> string \<Rightarrow> tgb_error + bytes" where
  "hexDecodeInto n s =
    (if length s mod 2 \<noteq> 0 then Inl (Err ''hash has odd hex length %d'')
     else if length s div 2 < n then Inl (Err ''hash is %d bytes, need at least %d'')
     else case hexPairs n (bytes_of s) of None \<Rightarrow> Inl (Err ''hash is not hex: %q'') | Some bs \<Rightarrow> Inr bs)"

text \<open>\<open>hex.EncodeToString\<close>\<close>

definition hexDigit :: "byte \<Rightarrow> char" where
  "hexDigit d = ''0123456789abcdef'' ! unat d"

definition EncodeToString :: "bytes \<Rightarrow> string" where
  "EncodeToString bs = concat (map (\<lambda>b. [hexDigit (drop_bit 4 b), hexDigit (b AND 0x0f)]) bs)"

section \<open>Per-node columns\<close>

record nodeOut =
  no_nameID :: i32
  no_ruleTypeID :: i32
  no_hash :: bytes
  no_hashEmpty :: bool
  no_deps :: "i32 list"
  no_tags :: "i32 list"
  no_attrs :: "(i32 \<times> i32) list"
  no_root :: bool
  no_ext :: bool

text \<open>What the pass reads: the name index, the remap tables, the ID resolver and the options.\<close>

record columnCtx =
  cc_nameIdx :: "string \<rightharpoonup> i32"
  cc_rtRemap :: "i32 \<rightharpoonup> i32"
  cc_tagRemap :: "i32 \<rightharpoonup> i32"
  cc_anRemap :: "i32 \<rightharpoonup> i32"
  cc_avRemap :: "i32 \<rightharpoonup> i32"
  cc_resolveID :: "i32 \<rightharpoonup> i32"
  cc_hashBytes :: nat

definition maxOrigID :: "nodeInfo list \<Rightarrow> i32" where
  "maxOrigID nodes = foldl (\<lambda>m n. if sint m < sint (ni_origID n) then ni_origID n else m) 0 nodes"

definition idSlice :: "nodeInfo list \<Rightarrow> i32 list" where
  "idSlice nodes = foldl (\<lambda>s (i, n). if 0 \<le> sint (ni_origID n) then s[nat (sint (ni_origID n)) := of_nat i] else s)
     (replicate (nat (sint (maxOrigID nodes)) + 1) (- 1)) (enumerate 0 nodes)"

definition idMap :: "nodeInfo list \<Rightarrow> (i32 \<rightharpoonup> i32)" where
  "idMap nodes = foldl (\<lambda>m (i, n). m(ni_origID n \<mapsto> of_nat i)) Map.empty (enumerate 0 nodes)"

definition resolveID :: "nodeInfo list \<Rightarrow> i32 \<Rightarrow> i32 option" where
  "resolveID nodes depID =
    (if sint (maxOrigID nodes) < 2 * int (length nodes) + 16
     then (let s = idSlice nodes in
       if sint depID < 0 \<or> int (length s) \<le> sint depID \<or> sint (s ! nat (sint depID)) < 0 then None
       else Some (s ! nat (sint depID)))
     else idMap nodes depID)"

definition lookupE :: "tgb_error \<Rightarrow> ('k \<rightharpoonup> 'v) \<Rightarrow> 'k \<Rightarrow> tgb_error + 'v" where
  "lookupE err m k = (case m k of None \<Rightarrow> Inl err | Some v \<Rightarrow> Inr v)"

definition encodeNode :: "columnCtx \<Rightarrow> OptimizedTarget list \<Rightarrow> nodeInfo \<Rightarrow> tgb_error + nodeOut" where
  "encodeNode cc targets nd =
    (let t = targets ! ni_origIdx nd in
     bindE (lookupE (Err ''tgb: target %q: rule type ID %d has no mapping'') (cc_rtRemap cc) (ot_RuleType t)) (\<lambda>rtID.
     bindE (if ot_Hash t = [] then Inr (replicate (cc_hashBytes cc) 0)
            else hexDecodeInto (cc_hashBytes cc) (ot_Hash t)) (\<lambda>hash.
     bindE (mapE (lookupE (Err ''tgb: target %q: dependency ID %d has no target in the graph'') (cc_resolveID cc))
             (ot_DirectDependencies t)) (\<lambda>deps.
     bindE (mapE (lookupE (Err ''tgb: target %q: tag ID %d has no mapping'') (cc_tagRemap cc)) (ot_Tags t)) (\<lambda>tags.
     bindE (mapE (\<lambda>(anID, avID).
             bindE (lookupE (Err ''tgb: target %q: attribute name ID %d has no mapping'') (cc_anRemap cc) anID) (\<lambda>nid.
             bindE (lookupE (Err ''tgb: target %q: attribute value ID %d has no mapping'') (cc_avRemap cc) avID) (\<lambda>vid.
             Inr (nid, vid)))) (ot_Attributes t)) (\<lambda>kvs.
     Inr \<lparr> no_nameID = lookup0 (cc_nameIdx cc) (ni_name nd), no_ruleTypeID = rtID, no_hash = hash,
           no_hashEmpty = (ot_Hash t = []), no_deps = sort_key sint deps, no_tags = sort_key sint tags,
           no_attrs = sort_key (\<lambda>kv. sint (fst kv)) kvs, no_root = ot_Root t, no_ext = ot_External t \<rparr>))))))"

text \<open>\<open>depList\<close> and \<open>tagList\<close>: the varints one node contributes.\<close>

fun uvarintDeltas :: "i32 \<Rightarrow> i32 list \<Rightarrow> bytes" where
  "uvarintDeltas prev [] = []"
| "uvarintDeltas prev (v # vs) = AppendUvarint (scast (v - prev)) @ uvarintDeltas v vs"

definition encodeDeps :: "nat \<Rightarrow> i32 list \<Rightarrow> bytes" where
  "encodeDeps i deps = (case deps of [] \<Rightarrow> []
     | d # ds \<Rightarrow> appendZigzag [] (scast d - of_nat i) @ uvarintDeltas d ds)"

definition encodeTags :: "i32 list \<Rightarrow> bytes" where
  "encodeTags tags = (case tags of [] \<Rightarrow> []
     | t # ts \<Rightarrow> AppendUvarint (scast t) @ uvarintDeltas t ts)"

text \<open>A bitset of \<open>n\<close> bits: zeroed, then one \<open>|=\<close> per node whose flag is set.\<close>

definition setBit :: "bytes \<Rightarrow> nat \<Rightarrow> bytes" where
  "setBit bs i = bs[i div 8 := bs ! (i div 8) OR push_bit (i mod 8) 1]"

definition bitset :: "bool list \<Rightarrow> bytes" where
  "bitset fs = foldl (\<lambda>bs (i, f). if f then setBit bs i else bs)
     (replicate ((length fs + 7) div 8) 0) (enumerate 0 fs)"

section \<open>Sharding\<close>

definition shardLen :: "nat \<Rightarrow> nat \<Rightarrow> nat" where
  "shardLen procs n =
    (let shards = min procs 32; l = (n div shards + 8) div 8 * 8 in if l < 4096 then n else l)"

function shardsOf :: "nat \<Rightarrow> 'a list \<Rightarrow> 'a list list" where
  "shardsOf k xs = (if xs = [] \<or> k = 0 then [] else take k xs # shardsOf k (drop k xs))"
  by auto
termination by (relation "measure (\<lambda>(k, xs). length xs)") auto

declare shardsOf.simps [simp del]

definition runShards :: "nat \<Rightarrow> ('a \<Rightarrow> tgb_error + 'b) \<Rightarrow> 'a list \<Rightarrow> tgb_error + 'b list" where
  "runShards procs f xs =
    (let outs = map (mapE f) (shardsOf (shardLen procs (length xs)) xs) in
     bindE (mapE (\<lambda>out. out) outs) (\<lambda>yss. Inr (concat yss)))"

definition buildColumns :: "nat \<Rightarrow> encoder \<Rightarrow> tgb_error + encoder" where
  "buildColumns procs e =
    (let meta = g_Metadata (e_g e);
         cc = \<lparr> cc_nameIdx = buildStrIndex (e_nameDict e),
                cc_rtRemap = remapTable (md_RuleTypeMapping meta) (buildStrIndex (e_ruleTypeDict e)),
                cc_tagRemap = remapTable (md_TagMapping meta) (buildStrIndex (e_tagDict e)),
                cc_anRemap = remapTable (md_AttributeNameMapping meta) (buildStrIndex (e_attrNameDict e)),
                cc_avRemap = remapTable (md_AttributeStringValueMapping meta) (buildStrIndex (e_attrValDict e)),
                cc_resolveID = resolveID (e_nodes e), cc_hashBytes = nat (opt_HashBytes (e_opts e)) \<rparr>
     in bindE (runShards procs (encodeNode cc (g_Targets (e_g e))) (e_nodes e)) (\<lambda>outs.
     Inr (e \<lparr> e_nameIDs := map no_nameID outs, e_ruleTypeIDs := map no_ruleTypeID outs,
              e_hashRaw := concat (map no_hash outs),
              e_depDeg := map (\<lambda>x. of_nat (length (no_deps x))) outs,
              e_depList := concat (map (\<lambda>(i, x). encodeDeps i (no_deps x)) (enumerate 0 outs)),
              e_tagDeg := map (\<lambda>x. of_nat (length (no_tags x))) outs,
              e_tagList := concat (map (\<lambda>x. encodeTags (no_tags x)) outs),
              e_attrDeg := map (\<lambda>x. of_nat (length (no_attrs x))) outs,
              e_attrNms := concat (map (\<lambda>x. concat (map (\<lambda>kv. AppendUvarint (scast (fst kv))) (no_attrs x))) outs),
              e_attrVls := concat (map (\<lambda>x. concat (map (\<lambda>kv. AppendUvarint (scast (snd kv))) (no_attrs x))) outs),
              e_rootBits := bitset (map no_root outs), e_extBits := bitset (map no_ext outs),
              e_hashEmptyBits := bitset (map no_hashEmpty outs) \<rparr>)))"

section \<open>Blocks\<close>

definition blockDigest :: "(bytes \<Rightarrow> u64) \<Rightarrow> nodeInfo list \<Rightarrow> u64" where
  "blockDigest xxh block = xxh (concat (map (\<lambda>n. bytes_of (ni_label n) @ [0]) block))"

text \<open>The loop over the nodes: start and labels of the open block, nodes still to come.\<close>

fun blocks_loop :: "(bytes \<Rightarrow> u64) \<Rightarrow> nat \<Rightarrow> nat \<Rightarrow> nodeInfo list \<Rightarrow> nodeInfo list \<Rightarrow> (nat \<times> u64) list" where
  "blocks_loop xxh bsz blockStart open [] = []"
| "blocks_loop xxh bsz blockStart open (n # ns) =
    (let sz = length open + 1;
         cut = (xxh (bytes_of (ni_label n)) AND (of_nat bsz - 1) = 0) \<or> bsz * 8 \<le> sz
     in if cut \<or> ns = []
        then (blockStart, blockDigest xxh (open @ [n])) # blocks_loop xxh bsz (blockStart + sz) [] ns
        else blocks_loop xxh bsz blockStart (open @ [n]) ns)"

definition buildBlocks :: "(bytes \<Rightarrow> u64) \<Rightarrow> encoder \<Rightarrow> encoder" where
  "buildBlocks xxh e =
    (let bl = blocks_loop xxh (nat (opt_BlockSize (e_opts e))) 0 [] (e_nodes e) in
     e \<lparr> e_blockStarts := map (\<lambda>b. of_nat (fst b)) bl, e_blockDigests := map snd bl \<rparr>)"

definition newEncoder :: "(bytes \<Rightarrow> u64) \<Rightarrow> nat \<Rightarrow> Graph \<Rightarrow> EncodeOptions \<Rightarrow> tgb_error + encoder" where
  "newEncoder xxh procs g opts =
    bindE (buildNodes procs (zeroEncoder g opts)) (\<lambda>e.
    bindE (buildColumns procs (buildDicts procs e)) (\<lambda>e.
    Inr (buildBlocks xxh e)))"

section \<open>Writing\<close>

definition encodePlain :: "i32 list \<Rightarrow> bytes" where
  "encodePlain vals = concat (map (\<lambda>v. AppendUvarint (scast v)) vals)"

definition encodeDeltas :: "i32 list \<Rightarrow> bytes" where
  "encodeDeltas vals = uvarintDeltas 0 vals"

fun encodeNames :: "i32 \<Rightarrow> i32 \<Rightarrow> (i32 \<times> i32) list \<Rightarrow> bytes" where
  "encodeNames prevPkg prevName [] = []"
| "encodeNames prevPkg prevName ((pid, nid) # ps) =
    AppendUvarint (scast (if pid \<noteq> prevPkg then nid else nid - prevName)) @ encodeNames pid nid ps"

definition encodePair :: "string \<times> string \<Rightarrow> bytes" where
  "encodePair kv = AppendUvarint (of_nat (length (fst kv))) @ bytes_of (fst kv) @
     AppendUvarint (of_nat (length (snd kv))) @ bytes_of (snd kv)"

definition encodeStringMap :: "(string, string) gomap \<Rightarrow> bytes" where
  "encodeStringMap m = AppendUvarint (of_nat (length m)) @
     concat (map (\<lambda>k. encodePair (k, the (map_of m k))) (sort (map fst m)))"

record rawCol =
  rc_id :: u64
  rc_codec :: byte
  rc_data :: bytes

definition mkCol :: "u64 \<times> byte \<times> bytes \<Rightarrow> rawCol" where
  "mkCol c = (case c of (i, codec, d) \<Rightarrow> \<lparr> rc_id = i, rc_codec = codec, rc_data = d \<rparr>)"

definition rawCols :: "encoder \<Rightarrow> rawCol list" where
  "rawCols e = map mkCol
    ([(colPkgDict, codecZstd, buildFrontCodedDict (e_pkgDict e)),
      (colNameDict, codecZstd, buildFrontCodedDict (e_nameDict e)),
      (colNodePkg, codecZstd, encodeDeltas (e_pkgIDs e)),
      (colNodeName, codecZstd, encodeNames (- 1) 0 (zip (e_pkgIDs e) (e_nameIDs e))),
      (colHash, codecRaw, e_hashRaw e),
      (colDeg, codecZstd, encodePlain (e_depDeg e)),
      (colDeps, codecZstd, e_depList e),
      (colRuleType, codecZstd, encodePlain (e_ruleTypeIDs e)),
      (colRuleTypeDict, codecZstd, buildFrontCodedDict (e_ruleTypeDict e)),
      (colTagDeg, codecZstd, encodePlain (e_tagDeg e)),
      (colTags, codecZstd, e_tagList e),
      (colTagDict, codecZstd, buildFrontCodedDict (e_tagDict e)),
      (colAttrDeg, codecZstd, encodePlain (e_attrDeg e)),
      (colAttrName, codecZstd, e_attrNms e),
      (colAttrValue, codecZstd, e_attrVls e),
      (colAttrNameDict, codecZstd, buildFrontCodedDict (e_attrNameDict e)),
      (colAttrValueDict, codecZstd, buildFrontCodedDict (e_attrValDict e)),
      (colFlags, codecZstd, e_rootBits e @ e_extBits e @ e_hashEmptyBits e),
      (colBlockDigest, codecRaw, concat (map (LE_put 8) (e_blockDigests e))),
      (colBlockStart, codecZstd, encodeDeltas (e_blockStarts e))] @
     (if md_AllTargetsFileHashes (g_Metadata (e_g e)) = [] then []
      else [(colAllTargetsFileHashes, codecZstd, encodeStringMap (md_AllTargetsFileHashes (g_Metadata (e_g e))))]))"

text \<open>
  Compression of one column; the results land in an indexed slice, so the parallel and the
  serial loop compute the same list.
\<close>

definition compressCol :: "(bytes \<Rightarrow> bytes) \<Rightarrow> rawCol \<Rightarrow> bytes" where
  "compressCol zc rc = (if rc_codec rc = codecZstd \<and> rc_data rc \<noteq> [] then zc (rc_data rc) else rc_data rc)"

fun assignOffsets :: "u64 \<Rightarrow> (rawCol \<times> bytes) list \<Rightarrow> colEntry list" where
  "assignOffsets offset [] = []"
| "assignOffsets offset ((rc, cb) # rs) =
    \<lparr> ce_id = rc_id rc, ce_codec = rc_codec rc, ce_offset = offset,
      ce_compressedSize = of_nat (length cb), ce_rawSize = of_nat (length (rc_data rc)) \<rparr>
    # assignOffsets (offset + of_nat (length cb)) rs"

definition encHeader :: "encoder \<Rightarrow> fileHeader" where
  "encHeader e = \<lparr> nodeCount = of_nat (length (e_nodes e)),
     edgeCount = foldl (\<lambda>c d. c + scast d) 0 (e_depDeg e),
     blockSize = of_int (opt_BlockSize (e_opts e)), flags = 0, hashBytes = of_int (opt_HashBytes (e_opts e)) \<rparr>"

text \<open>\<open>zstd.SpeedDefault\<close> is level 2 of the compressor.\<close>

definition zstdLevel :: "EncodeOptions \<Rightarrow> int" where
  "zstdLevel o' = (if opt_ZstdLevel o' \<noteq> 0 then opt_ZstdLevel o' else 2)"

definition writeBlob :: "(int \<Rightarrow> bytes \<Rightarrow> bytes) \<Rightarrow> encoder \<Rightarrow> bytes" where
  "writeBlob zc e =
    (let results = map (\<lambda>rc. (rc, compressCol (zc (zstdLevel (e_opts e))) rc)) (rawCols e);
         entries = assignOffsets (of_nat headerSize) results;
         body = concat (map snd results);
         dirBytes = encodeDirectory entries;
         ftr = \<lparr> dirOffset = of_nat (headerSize + length body), dirCRC = crc32_checksum dirBytes \<rparr>
     in encodeHeader (encHeader e) @ body @ dirBytes @ encodeFooter ftr)"

definition Encode :: "(int \<Rightarrow> bytes \<Rightarrow> bytes) \<Rightarrow> (bytes \<Rightarrow> u64) \<Rightarrow> nat \<Rightarrow> Graph \<Rightarrow> EncodeOptions \<Rightarrow> tgb_error + bytes" where
  "Encode zc xxh procs g opts0 =
    (let opts = fillDefaults opts0 in
     if opt_HashBytes opts \<noteq> 8 \<and> opt_HashBytes opts \<noteq> 16 \<and> opt_HashBytes opts \<noteq> 20
       then Inl (Err ''tgb: HashBytes must be 8, 16, or 20; got %d'')
     else if opt_BlockSize opts \<le> 0 \<or> opt_BlockSize opts AND (opt_BlockSize opts - 1) \<noteq> 0
       then Inl (Err ''tgb: BlockSize must be a power of two; got %d'')
     else bindE (newEncoder xxh procs g opts) (\<lambda>e. Inr (writeBlob zc e)))"

section \<open>Truncating hashes\<close>

text \<open>\<open>hex.DecodeString\<close> fails on an odd length and on a byte that is not hex.\<close>

definition DecodeString :: "string \<Rightarrow> bytes option" where
  "DecodeString h = (if length h mod 2 \<noteq> 0 then None else hexPairs (length h div 2) (bytes_of h))"

definition decodeHashHex :: "string \<Rightarrow> nat \<Rightarrow> bytes" where
  "decodeHashHex h n = (case DecodeString h of None \<Rightarrow> replicate n 0
     | Some raw \<Rightarrow> take n raw @ replicate (n - length raw) 0)"

definition TruncateHashes :: "Graph \<Rightarrow> nat \<Rightarrow> Graph" where
  "TruncateHashes g n = g \<lparr> g_Targets := map (\<lambda>t. if ot_Hash t \<noteq> []
     then t \<lparr> ot_Hash := EncodeToString (decodeHashHex (ot_Hash t) n) \<rparr> else t) (g_Targets g) \<rparr>"

end
