(* ===== verification/TgbReader.thy ===== *)
theory TgbReader
  imports TgbEncode
begin

text \<open>
  \<open>internal/tgb/reader.go\<close>: the lazy, column-addressable view of a TGB blob. The record
  \<open>Reader\<close> holds the blob and the caches; an accessor is a state transformer on it, because the
  first access decompresses and caches. The mutex serializes the accessors, so a run is a
  sequence of them. A nil slice is the empty list. \<open>zd maxMem\<close> stands for zstd's \<open>DecodeAll\<close>
  under a memory cap (third-party); \<open>None\<close> is its error.

  A run-time panic is the error \<open>Panic\<close>; an accessor that ignores an error still panics
  (\<open>orElse\<close>). Positions and offsets are \<open>nat\<close>: a column has at most \<open>2 ^ 30\<close> bytes
  (\<open>validateColumns\<close>), so Go's \<open>int32\<close> offsets never wrap.
\<close>

section \<open>State\<close>

record Reader =
  rd_data :: bytes
  rd_hdr :: fileHeader
  rd_cols :: "(u64, colEntry) gomap"
  rd_decompressed :: "u64 \<rightharpoonup> bytes"
  rd_DecompressionCount :: nat
  rd_pkgDict :: "string list"
  rd_nameDict :: "string list"
  rd_ruleTypeDict :: "string list"
  rd_tagDict :: "string list"
  rd_attrNameDict :: "string list"
  rd_attrValDict :: "string list"
  rd_depDegs :: "i32 list"
  rd_depByteOffset :: "nat list"
  rd_tagDegs :: "i32 list"
  rd_tagByteOffset :: "nat list"
  rd_attrDegs :: "i32 list"
  rd_attrNmOffset :: "nat list"
  rd_attrVlOffset :: "nat list"
  rd_pkgIDsCache :: "i32 list"
  rd_nameIDsCache :: "i32 list"
  rd_ruleTypeIDsCache :: "i32 list"
  rd_blockStartsCache :: "i32 list"

type_synonym 'a access = "(Reader, tgb_error, 'a) stateful"

definition freshReader :: "bytes \<Rightarrow> fileHeader \<Rightarrow> (u64, colEntry) gomap \<Rightarrow> Reader" where
  "freshReader data hdr cols = \<lparr> rd_data = data, rd_hdr = hdr, rd_cols = cols,
     rd_decompressed = Map.empty, rd_DecompressionCount = 0, rd_pkgDict = [], rd_nameDict = [],
     rd_ruleTypeDict = [], rd_tagDict = [], rd_attrNameDict = [], rd_attrValDict = [],
     rd_depDegs = [], rd_depByteOffset = [], rd_tagDegs = [], rd_tagByteOffset = [],
     rd_attrDegs = [], rd_attrNmOffset = [], rd_attrVlOffset = [], rd_pkgIDsCache = [],
     rd_nameIDsCache = [], rd_ruleTypeIDsCache = [], rd_blockStartsCache = [] \<rparr>"

text \<open>\<open>x, _ := f()\<close>: the zero value on error, but a panic is not an error value.\<close>

definition orElse :: "'a \<Rightarrow> tgb_error + 'a \<Rightarrow> tgb_error + 'a" where
  "orElse d m = (case m of Inr x \<Rightarrow> Inr x | Inl Panic \<Rightarrow> Inl Panic | Inl (Err _) \<Rightarrow> Inr d)"

definition orElseS :: "'a \<Rightarrow> 'a access \<Rightarrow> 'a access" where
  "orElseS d m = (\<lambda>r. case m r of (x, r') \<Rightarrow> (orElse d x, r'))"

text \<open>\<open>fmt.Errorf("...: %w", err)\<close>\<close>

definition wrapE :: "string \<Rightarrow> tgb_error + 'a \<Rightarrow> tgb_error + 'a" where
  "wrapE msg m = (case m of Inl (Err e) \<Rightarrow> Inl (Err (msg @ e)) | Inl Panic \<Rightarrow> Inl Panic | Inr x \<Rightarrow> Inr x)"

lemma wrapE_Inr [simp]: "wrapE msg (Inr x) = Inr x"
  by (simp add: wrapE_def)

definition panicE :: "'a option \<Rightarrow> tgb_error + 'a" where
  "panicE x = (case x of None \<Rightarrow> Inl Panic | Some v \<Rightarrow> Inr v)"

section \<open>Opening a blob\<close>

definition colRawSize :: "(u64, colEntry) gomap \<Rightarrow> u64 \<Rightarrow> u64" where
  "colRawSize cols i = (case map_of cols i of Some e \<Rightarrow> ce_rawSize e | None \<Rightarrow> 0)"

definition validateColumn :: "u64 \<Rightarrow> colEntry \<Rightarrow> tgb_error + unit" where
  "validateColumn dirOff e =
    (let ende = ce_offset e + ce_compressedSize e in
     if ende < ce_offset e \<or> ce_offset e < of_nat headerSize \<or> dirOff < ende
       then Inl (Err ''tgb: column %d spans [%d, %d) outside data region [%d, %d)'')
     else if ce_codec e \<noteq> codecRaw \<and> ce_codec e \<noteq> codecZstd
       then Inl (Err ''tgb: column %d has unknown codec %d'')
     else if ce_codec e = codecRaw \<and> ce_rawSize e \<noteq> ce_compressedSize e
       then Inl (Err ''tgb: raw column %d claims rawSize %d != stored size %d'')
     else if ce_codec e = codecZstd \<and> 0 < ce_rawSize e \<and> ce_compressedSize e = 0
       then Inl (Err ''tgb: column %d claims %d raw bytes from empty data'')
     else if maxColumnRawSize < ce_rawSize e
       then Inl (Err ''tgb: column %d claims %d raw bytes (max %d)'')
     else Inr ())"

definition flagRevCSR :: u16 where "flagRevCSR = push_bit 1 1"

definition validateColumns :: "fileHeader \<Rightarrow> (u64, colEntry) gomap \<Rightarrow> u64 \<Rightarrow> u64 \<Rightarrow> tgb_error + unit" where
  "validateColumns hdr cols fileSize dirOff =
    (if flags hdr AND NOT flagRevCSR \<noteq> 0 then Inl (Err ''tgb: unknown header flag bits %#x'')
     else if blockSize hdr \<noteq> 0 \<and> blockSize hdr AND (blockSize hdr - 1) \<noteq> 0
       then Inl (Err ''tgb: blockSize %d is not a power of two'')
     else bindE (mapE (\<lambda>(i, e). validateColumn dirOff e) cols) (\<lambda>_.
     let totalRaw = sum_list (map (\<lambda>(i, e). ce_rawSize e) cols);
         n = nodeCount hdr in
     if max (fileSize * maxTotalRawFactor) maxTotalRawFloor < totalRaw
       then Inl (Err ''tgb: columns claim %d total raw bytes from a %d-byte file (max %d)'')
     else if 0 < n \<and> (map_of cols colDeg = None \<or> colRawSize cols colDeg < n)
       then Inl (Err ''tgb: nodeCount %d inconsistent with DEG column'')
     else if 0 < n \<and> (map_of cols colHash = None \<or> colRawSize cols colHash \<noteq> n * ucast (hashBytes hdr))
       then Inl (Err ''tgb: HASH column is %d bytes, want nodeCount %d x stride %d'')
     else if 0 < edgeCount hdr \<and> (map_of cols colDeps = None \<or> colRawSize cols colDeps < edgeCount hdr)
       then Inl (Err ''tgb: edgeCount %d inconsistent with DEPS column'')
     else if map_of cols colBlockDigest \<noteq> None \<and> colRawSize cols colBlockDigest mod 8 \<noteq> 0
       then Inl (Err ''tgb: BLOCK_DIGEST size %d not a multiple of 8'')
     else if map_of cols colBlockDigest \<noteq> None \<and> n < colRawSize cols colBlockDigest div 8
       then Inl (Err ''tgb: %d digest blocks for %d nodes'')
     else Inr ()))"

fun collectCols :: "(u64, colEntry) gomap \<Rightarrow> colEntry list \<Rightarrow> tgb_error + (u64, colEntry) gomap" where
  "collectCols cols [] = Inr cols"
| "collectCols cols (e # es) =
    (if map_of cols (ce_id e) \<noteq> None then Inl (Err ''tgb: duplicate directory entry for column %d'')
     else collectCols (cols @ [(ce_id e, e)]) es)"

definition NewReader :: "bytes \<Rightarrow> tgb_error + Reader" where
  "NewReader data =
    (if length data < headerSize + footerSize then Inl (Err ''tgb: data too short'')
     else bindE (decodeHeader (take headerSize data)) (\<lambda>hdr.
     bindE (decodeFooter (drop (length data - footerSize) data)) (\<lambda>ftr.
     let dirEnd = length data - footerSize in
     if (of_nat dirEnd :: u64) < dirOffset ftr then Inl (Err ''tgb: directory offset out of range'')
     else let dirData = take (dirEnd - unat (dirOffset ftr)) (drop (unat (dirOffset ftr)) data) in
     if crc32_checksum dirData \<noteq> dirCRC ftr then Inl (Err ''tgb: directory CRC mismatch'')
     else bindE (decodeDirectory dirData) (\<lambda>entries.
     bindE (collectCols [] entries) (\<lambda>cols.
     bindE (validateColumns hdr cols (of_nat (length data)) (dirOffset ftr)) (\<lambda>_.
     Inr (freshReader data hdr cols)))))))"

section \<open>Columns\<close>

text \<open>\<open>decompressZstd\<close>: the memory cap is the claimed size, at least the encoder's 8 MiB window.\<close>

definition decompressZstd :: "(nat \<Rightarrow> bytes \<Rightarrow> bytes option) \<Rightarrow> bytes \<Rightarrow> u64 \<Rightarrow> bytes option" where
  "decompressZstd zd data rawSize = zd (max (unat rawSize) (8 * 2 ^ 20)) data"

definition getColumnLocked :: "(nat \<Rightarrow> bytes \<Rightarrow> bytes option) \<Rightarrow> u64 \<Rightarrow> bytes access" where
  "getColumnLocked zd i = (\<lambda>r. case rd_decompressed r i of
     Some v \<Rightarrow> (Inr v, r)
   | None \<Rightarrow> (case map_of (rd_cols r) i of
       None \<Rightarrow> (Inr [], r \<lparr> rd_decompressed := (rd_decompressed r)(i \<mapsto> []) \<rparr>)
     | Some e \<Rightarrow> (case go_slice (rd_data r) (unat (ce_offset e)) (unat (ce_offset e + ce_compressedSize e)) of
         None \<Rightarrow> (Inl Panic, r)
       | Some raw \<Rightarrow>
           if ce_codec e = codecZstd
           then let r' = r \<lparr> rd_DecompressionCount := rd_DecompressionCount r + 1 \<rparr> in
             (case decompressZstd zd raw (ce_rawSize e) of
               None \<Rightarrow> (Inl (Err ''tgb: decompress col %d: %w''), r')
             | Some out \<Rightarrow>
                 if (of_nat (length out) :: u64) \<noteq> ce_rawSize e
                 then (Inl (Err ''tgb: col %d decompressed to %d bytes, directory claims %d''), r')
                 else (Inr out, r' \<lparr> rd_decompressed := (rd_decompressed r')(i \<mapsto> out) \<rparr>))
           else (Inr raw, r \<lparr> rd_decompressed := (rd_decompressed r)(i \<mapsto> raw) \<rparr>))))"

definition getColumn :: "(nat \<Rightarrow> bytes \<Rightarrow> bytes option) \<Rightarrow> u64 \<Rightarrow> bytes access" where
  "getColumn zd i = getColumnLocked zd i"

section \<open>Column decoders\<close>

text \<open>Each decoder stops silently at the first byte that is not a varint.\<close>

function decodeUvarints :: "bytes \<Rightarrow> u64 list" where
  "decodeUvarints data = (case nextUvarint () data of Inl _ \<Rightarrow> [] | Inr (v, rest) \<Rightarrow> v # decodeUvarints rest)"
  by auto
termination
  by (relation "measure length") (auto dest: nextUvarint_shrinks)

declare decodeUvarints.simps [simp del]

fun sumDeltas :: "i32 \<Rightarrow> u64 list \<Rightarrow> i32 list" where
  "sumDeltas prev [] = []"
| "sumDeltas prev (v # vs) = (prev + ucast v) # sumDeltas (prev + ucast v) vs"

definition decodeDeltaInts :: "bytes \<Rightarrow> i32 list" where
  "decodeDeltaInts data = sumDeltas 0 (decodeUvarints data)"

definition decodePlainInts :: "bytes \<Rightarrow> i32 list" where
  "decodePlainInts data = map ucast (decodeUvarints data)"

fun nameIDs_loop :: "i32 \<Rightarrow> i32 \<Rightarrow> i32 list \<Rightarrow> u64 list \<Rightarrow> i32 list" where
  "nameIDs_loop prevPkg prevName pkgIDs [] = []"
| "nameIDs_loop prevPkg prevName (p # ps) (v # vs) =
    (let nid = (if p \<noteq> prevPkg then ucast v else prevName + ucast v)
     in nid # nameIDs_loop (if p \<noteq> prevPkg then p else prevPkg) nid ps vs)"
| "nameIDs_loop prevPkg prevName [] (v # vs) =
    (let nid = prevName + ucast v in nid # nameIDs_loop prevPkg nid [] vs)"

definition decodeNameIDs :: "bytes \<Rightarrow> i32 list \<Rightarrow> i32 list" where
  "decodeNameIDs data pkgIDs = nameIDs_loop (- 1) 0 pkgIDs (decodeUvarints data)"

fun validateDegs_loop :: "nat \<Rightarrow> nat \<Rightarrow> i32 list \<Rightarrow> tgb_error + unit" where
  "validateDegs_loop listLen tot [] = Inr ()"
| "validateDegs_loop listLen tot (d # ds) =
    (if sint d < 0 then Inl (Err ''tgb: negative %s degree %d at node %d'')
     else if listLen < tot + nat (sint d)
       then Inl (Err ''tgb: %s degrees claim %d+ entries but list column is %d bytes'')
     else validateDegs_loop listLen (tot + nat (sint d)) ds)"

definition validateDegs :: "i32 list \<Rightarrow> nat \<Rightarrow> tgb_error + unit" where
  "validateDegs degs listLen = validateDegs_loop listLen 0 degs"

text \<open>
  The runs of the list columns. \<open>readRun\<close> reads \<open>k\<close> deltas from position \<open>pos\<close>; a dependency run
  starts with a zigzag delta relative to the node's own index, a tag run with a delta to 0;
  \<open>readPairs\<close> reads attribute name and value IDs, which are not deltas, from two columns in step.
\<close>

fun readRun :: "tgb_error \<Rightarrow> bytes \<Rightarrow> i32 \<Rightarrow> nat \<Rightarrow> nat \<Rightarrow> tgb_error + i32 list \<times> nat" where
  "readRun err data prev 0 pos = Inr ([], pos)"
| "readRun err data prev (Suc k) pos = (case readUvarint (drop pos data) of (v, n) \<Rightarrow>
    if n \<le> 0 then Inl err
    else bindE (readRun err data (prev + ucast v) k (pos + nat n)) (\<lambda>(ds, p). Inr ((prev + ucast v) # ds, p)))"

definition readDeps :: "tgb_error \<Rightarrow> bytes \<Rightarrow> nat \<Rightarrow> nat \<Rightarrow> nat \<Rightarrow> tgb_error + i32 list \<times> nat" where
  "readDeps err data i deg pos = (case deg of 0 \<Rightarrow> Inr ([], pos)
    | Suc k \<Rightarrow> (case readZigzag (drop pos data) of (v, n) \<Rightarrow>
        if n \<le> 0 then Inl err
        else let d = ucast v + of_nat i in
          bindE (readRun err data d k (pos + nat n)) (\<lambda>(ds, p). Inr (d # ds, p))))"

definition readTags :: "tgb_error \<Rightarrow> bytes \<Rightarrow> nat \<Rightarrow> nat \<Rightarrow> nat \<Rightarrow> tgb_error + i32 list \<times> nat" where
  "readTags err data i deg pos = readRun err data 0 deg pos"

fun readPairs :: "bytes \<Rightarrow> bytes \<Rightarrow> nat \<Rightarrow> nat \<times> nat \<Rightarrow> tgb_error + (u64 \<times> u64) list \<times> nat \<times> nat" where
  "readPairs nmData vlData 0 pos = Inr ([], pos)"
| "readPairs nmData vlData (Suc k) (nmPos, vlPos) = (case readUvarint (drop nmPos nmData) of (nv, n) \<Rightarrow>
    if n \<le> 0 then Inl (Err ''tgb: truncated ATTR_NAME column at node %d'')
    else (case readUvarint (drop vlPos vlData) of (vv, m) \<Rightarrow>
      if m \<le> 0 then Inl (Err ''tgb: truncated ATTR_VALUE column at node %d'')
      else bindE (readPairs nmData vlData k (nmPos + nat n, vlPos + nat m)) (\<lambda>(ps, p). Inr ((nv, vv) # ps, p))))"

text \<open>The outer loop over the nodes: the start position and the contents of every run, and the end.\<close>

fun walkRuns :: "(nat \<Rightarrow> nat \<Rightarrow> 'p \<Rightarrow> tgb_error + 'a \<times> 'p) \<Rightarrow> nat \<Rightarrow> 'p \<Rightarrow> i32 list \<Rightarrow>
    tgb_error + ('p \<times> 'a) list \<times> 'p" where
  "walkRuns rd i pos [] = Inr ([], pos)"
| "walkRuns rd i pos (deg # degs) =
    bindE (rd i (nat (sint deg)) pos) (\<lambda>(xs, p).
    bindE (walkRuns rd (Suc i) p degs) (\<lambda>(rs, q). Inr ((pos, xs) # rs, q)))"

definition truncDeps :: tgb_error where "truncDeps = Err ''tgb: truncated DEPS column at node %d''"
definition truncTags :: tgb_error where "truncTags = Err ''tgb: truncated TAGS column at node %d''"

text \<open>Degrees and list column of a CSR pair: decode, validate, walk.\<close>

definition csrRuns :: "(bytes \<Rightarrow> nat \<Rightarrow> nat \<Rightarrow> nat \<Rightarrow> tgb_error + 'a \<times> nat) \<Rightarrow> bytes \<Rightarrow> bytes \<Rightarrow>
    tgb_error + i32 list \<times> (nat \<times> 'a) list \<times> nat" where
  "csrRuns rd degData listData =
    (let degs = decodePlainInts degData in
     bindE (validateDegs degs (length listData)) (\<lambda>_.
     bindE (walkRuns (rd listData) 0 0 degs) (\<lambda>(runs, endp). Inr (degs, runs, endp))))"

section \<open>Dictionaries and fixed-width columns\<close>

text \<open>
  The pattern of every lazily built slice: return it when it is not nil, else compute it, store
  it and return it.
\<close>

definition cached :: "(Reader \<Rightarrow> 'a list) \<Rightarrow> ('a list \<Rightarrow> Reader \<Rightarrow> Reader) \<Rightarrow> 'a list access \<Rightarrow> 'a list access" where
  "cached get put compute = (\<lambda>r. if get r \<noteq> [] then (Inr (get r), r)
     else bindS compute (\<lambda>xs r. (Inr xs, put xs r)) r)"

text \<open>
  The pattern of the offset tables: fetch the columns, return the stored table when there is
  one, else compute and store it.
\<close>

definition cachedTable :: "(Reader \<Rightarrow> 'c list) \<Rightarrow> 'b access \<Rightarrow> ('b \<Rightarrow> Reader \<Rightarrow> 'a) \<Rightarrow> ('b \<Rightarrow> tgb_error + 'a) \<Rightarrow>
    ('a \<Rightarrow> Reader \<Rightarrow> Reader) \<Rightarrow> 'a access" where
  "cachedTable get columns stored compute put = bindS columns (\<lambda>a r.
     if get r \<noteq> [] then (Inr (stored a r), r)
     else bindS (liftS (compute a)) (\<lambda>x r. (Inr x, put x r)) r)"

definition ensureDict :: "(nat \<Rightarrow> bytes \<Rightarrow> bytes option) \<Rightarrow> u64 \<Rightarrow> (Reader \<Rightarrow> string list) \<Rightarrow>
    (string list \<Rightarrow> Reader \<Rightarrow> Reader) \<Rightarrow> string list access" where
  "ensureDict zd i get put = cached get put (bindS (getColumnLocked zd i) (\<lambda>data. liftS (expandDict data)))"

definition ensurePkgDict :: "(nat \<Rightarrow> bytes \<Rightarrow> bytes option) \<Rightarrow> string list access" where
  "ensurePkgDict zd = ensureDict zd colPkgDict rd_pkgDict (\<lambda>d r. r \<lparr> rd_pkgDict := d \<rparr>)"

definition ensureNameDict :: "(nat \<Rightarrow> bytes \<Rightarrow> bytes option) \<Rightarrow> string list access" where
  "ensureNameDict zd = ensureDict zd colNameDict rd_nameDict (\<lambda>d r. r \<lparr> rd_nameDict := d \<rparr>)"

definition ensureRuleTypeDict :: "(nat \<Rightarrow> bytes \<Rightarrow> bytes option) \<Rightarrow> string list access" where
  "ensureRuleTypeDict zd = ensureDict zd colRuleTypeDict rd_ruleTypeDict (\<lambda>d r. r \<lparr> rd_ruleTypeDict := d \<rparr>)"

definition ensureTagDict :: "(nat \<Rightarrow> bytes \<Rightarrow> bytes option) \<Rightarrow> string list access" where
  "ensureTagDict zd = ensureDict zd colTagDict rd_tagDict (\<lambda>d r. r \<lparr> rd_tagDict := d \<rparr>)"

definition ensureAttrNameDict :: "(nat \<Rightarrow> bytes \<Rightarrow> bytes option) \<Rightarrow> string list access" where
  "ensureAttrNameDict zd = ensureDict zd colAttrNameDict rd_attrNameDict (\<lambda>d r. r \<lparr> rd_attrNameDict := d \<rparr>)"

definition ensureAttrValDict :: "(nat \<Rightarrow> bytes \<Rightarrow> bytes option) \<Rightarrow> string list access" where
  "ensureAttrValDict zd = ensureDict zd colAttrValueDict rd_attrValDict (\<lambda>d r. r \<lparr> rd_attrValDict := d \<rparr>)"

definition getPkgIDColumn :: "(nat \<Rightarrow> bytes \<Rightarrow> bytes option) \<Rightarrow> i32 list access" where
  "getPkgIDColumn zd = cached rd_pkgIDsCache (\<lambda>d r. r \<lparr> rd_pkgIDsCache := d \<rparr>)
     (bindS (getColumn zd colNodePkg) (\<lambda>data. retS (decodeDeltaInts data)))"

definition getNameIDColumn :: "(nat \<Rightarrow> bytes \<Rightarrow> bytes option) \<Rightarrow> i32 list access" where
  "getNameIDColumn zd = cached rd_nameIDsCache (\<lambda>d r. r \<lparr> rd_nameIDsCache := d \<rparr>)
     (bindS (getPkgIDColumn zd) (\<lambda>pkgIDs. bindS (getColumn zd colNodeName) (\<lambda>data.
      retS (decodeNameIDs data pkgIDs))))"

definition getRuleTypeIDColumn :: "(nat \<Rightarrow> bytes \<Rightarrow> bytes option) \<Rightarrow> i32 list access" where
  "getRuleTypeIDColumn zd = cached rd_ruleTypeIDsCache (\<lambda>d r. r \<lparr> rd_ruleTypeIDsCache := d \<rparr>)
     (bindS (getColumn zd colRuleType) (\<lambda>data. retS (decodePlainInts data)))"

definition RuleTypeIDs :: "(nat \<Rightarrow> bytes \<Rightarrow> bytes option) \<Rightarrow> i32 list access" where
  "RuleTypeIDs zd = getRuleTypeIDColumn zd"

section \<open>Accessors\<close>

definition NodeCount :: "Reader \<Rightarrow> nat" where
  "NodeCount r = unat (nodeCount (rd_hdr r))"

definition HashBytes :: "Reader \<Rightarrow> nat" where
  "HashBytes r = unat (hashBytes (rd_hdr r))"

definition Hashes :: "Reader \<Rightarrow> tgb_error + bytes" where
  "Hashes r = (case map_of (rd_cols r) colHash of None \<Rightarrow> Inr []
     | Some e \<Rightarrow> if ce_rawSize e = 0 then Inr []
         else panicE (go_slice (rd_data r) (unat (ce_offset e)) (unat (ce_offset e + ce_compressedSize e))))"

definition BlockCount :: "Reader \<Rightarrow> nat" where
  "BlockCount r = (case map_of (rd_cols r) colBlockDigest of None \<Rightarrow> 0 | Some e \<Rightarrow> unat (ce_rawSize e div 8))"

definition BlockDigests :: "Reader \<Rightarrow> tgb_error + u64 list" where
  "BlockDigests r = (case map_of (rd_cols r) colBlockDigest of None \<Rightarrow> Inr []
     | Some e \<Rightarrow> bindE (panicE (go_slice (rd_data r) (unat (ce_offset e)) (unat (ce_offset e + ce_compressedSize e))))
         (\<lambda>raw. Inr (map (\<lambda>i. LE_get 8 (drop (i * 8) raw)) [0..<length raw div 8])))"

definition BlockStart :: "(nat \<Rightarrow> bytes \<Rightarrow> bytes option) \<Rightarrow> nat \<Rightarrow> int access" where
  "BlockStart zd i = bindS (orElseS [] (getColumn zd colBlockStart)) (\<lambda>data.
     if data = [] then retS 0
     else bindS (cached rd_blockStartsCache (\<lambda>d r. r \<lparr> rd_blockStartsCache := d \<rparr>) (retS (decodeDeltaInts data)))
       (\<lambda>starts. retS (if length starts \<le> i then 0 else sint (starts ! i))))"

text \<open>\<open>if int(id) < len(dict) { s = dict[id] }\<close>: a negative \<open>id\<close> passes the test and panics.\<close>

definition dictAt :: "string list \<Rightarrow> int \<Rightarrow> tgb_error + string" where
  "dictAt dict i = (if i < int (length dict) then (if i < 0 then Inl Panic else Inr (dict ! nat i)) else Inr [])"

definition PackageID :: "(nat \<Rightarrow> bytes \<Rightarrow> bytes option) \<Rightarrow> nat \<Rightarrow> i32 access" where
  "PackageID zd node = bindS (orElseS [] (getPkgIDColumn zd)) (\<lambda>ids. retS (if node < length ids then ids ! node else 0))"

definition NameID :: "(nat \<Rightarrow> bytes \<Rightarrow> bytes option) \<Rightarrow> nat \<Rightarrow> i32 access" where
  "NameID zd node = bindS (orElseS [] (getNameIDColumn zd)) (\<lambda>ids. retS (if node < length ids then ids ! node else 0))"

definition SplitLabel :: "(nat \<Rightarrow> bytes \<Rightarrow> bytes option) \<Rightarrow> nat \<Rightarrow> (string \<times> string) access" where
  "SplitLabel zd node =
    bindS (PackageID zd node) (\<lambda>pid. bindS (NameID zd node) (\<lambda>nid.
    orElseS ([], []) (
      bindS (ensurePkgDict zd) (\<lambda>pkgDict. bindS (ensureNameDict zd) (\<lambda>nameDict.
      bindS (liftS (dictAt pkgDict (sint pid))) (\<lambda>pkg. bindS (liftS (dictAt nameDict (sint nid))) (\<lambda>name.
      retS (pkg, name))))))))"

definition Label :: "(nat \<Rightarrow> bytes \<Rightarrow> bytes option) \<Rightarrow> nat \<Rightarrow> string access" where
  "Label zd node =
    bindS (PackageID zd node) (\<lambda>pid. bindS (NameID zd node) (\<lambda>nid.
    orElseS [] (
      bindS (ensurePkgDict zd) (\<lambda>pkgDict. bindS (ensureNameDict zd) (\<lambda>nameDict.
      bindS (liftS (dictAt pkgDict (sint pid))) (\<lambda>pkg. bindS (liftS (dictAt nameDict (sint nid))) (\<lambda>name.
      retS (joinLabel pkg name))))))))"

text \<open>\<open>sort.Search\<close>: the smallest index in \<open>[i, j)\<close> at which the predicate holds, by bisection.\<close>

function searchS :: "(nat \<Rightarrow> bool access) \<Rightarrow> nat \<Rightarrow> nat \<Rightarrow> nat access" where
  "searchS f i j = (if i < j then
      let h = (i + j) div 2 in
      bindS (f h) (\<lambda>b. if \<not> b then searchS f (h + 1) j else searchS f i h)
    else retS i)"
  by auto
termination by (relation "measure (\<lambda>(f, i, j). j - i)") auto

declare searchS.simps [simp del]

definition FindNode :: "(nat \<Rightarrow> bytes \<Rightarrow> bytes option) \<Rightarrow> string \<Rightarrow> string \<Rightarrow> int access" where
  "FindNode zd pkg name = (\<lambda>r. let n = NodeCount r in
    bindS (searchS (\<lambda>i. bindS (SplitLabel zd i) (\<lambda>(p, nm).
             retS (if p \<noteq> pkg then pkg < p else name \<le> nm))) 0 n) (\<lambda>i.
    if i < n then bindS (SplitLabel zd i) (\<lambda>(p, nm). retS (if p = pkg \<and> nm = name then int i else - 1))
    else retS (- 1)) r)"

text \<open>The three bitsets of the FLAGS column, \<open>nb\<close> bytes each; what a short column lacks is nil.\<close>

definition splitFlags :: "nat \<Rightarrow> bytes \<Rightarrow> bytes \<times> bytes \<times> bytes" where
  "splitFlags nb data =
    (if data = [] then ([], [], [])
     else if length data < nb then (data, [], [])
     else if length data < 2 * nb then (take nb data, drop nb data, [])
     else if length data < 3 * nb then (take nb data, take nb (drop nb data), [])
     else (take nb data, take nb (drop nb data), take nb (drop (2 * nb) data)))"

definition decodeFlags :: "(nat \<Rightarrow> bytes \<Rightarrow> bytes option) \<Rightarrow> (bytes \<times> bytes \<times> bytes) access" where
  "decodeFlags zd = bindS (getColumn zd colFlags) (\<lambda>data r. (Inr (splitFlags ((NodeCount r + 7) div 8) data), r))"

text \<open>\<open>bits[i/8] & (1 << (i % 8)) != 0\<close>\<close>

definition testBit :: "bytes \<Rightarrow> nat \<Rightarrow> bool" where
  "testBit bs i = (bs ! (i div 8) AND push_bit (i mod 8) 1 \<noteq> 0)"

definition HashEmpty :: "(nat \<Rightarrow> bytes \<Rightarrow> bytes option) \<Rightarrow> nat \<Rightarrow> bool access" where
  "HashEmpty zd node = bindS (orElseS ([], [], []) (decodeFlags zd)) (\<lambda>(_, _, he).
     retS (if length he \<le> node div 8 then False else testBit he node))"

definition HashEmptyBits :: "(nat \<Rightarrow> bytes \<Rightarrow> bytes option) \<Rightarrow> bytes access" where
  "HashEmptyBits zd = bindS (decodeFlags zd) (\<lambda>(_, _, he). retS he)"

definition Root :: "(nat \<Rightarrow> bytes \<Rightarrow> bytes option) \<Rightarrow> nat \<Rightarrow> bool access" where
  "Root zd node = (\<lambda>r. case getColumn zd colFlags r of
      (Inl Panic, r') \<Rightarrow> (Inl Panic, r')
    | (Inl (Err _), r') \<Rightarrow> (Inr False, r')
    | (Inr data, r') \<Rightarrow>
        if length data < (NodeCount r + 7) div 8 then (Inr False, r')
        else if length data \<le> node div 8 then (Inl Panic, r')
        else (Inr (testBit data node), r'))"

definition External :: "(nat \<Rightarrow> bytes \<Rightarrow> bytes option) \<Rightarrow> nat \<Rightarrow> bool access" where
  "External zd node = (\<lambda>r. case getColumn zd colFlags r of
      (Inl Panic, r') \<Rightarrow> (Inl Panic, r')
    | (Inl (Err _), r') \<Rightarrow> (Inr False, r')
    | (Inr data, r') \<Rightarrow>
        if length data < (NodeCount r + 7) div 8 then (Inl Panic, r')
        else let extData = drop ((NodeCount r + 7) div 8) data in
          if length extData \<le> node div 8 then (Inr False, r')
          else (Inr (testBit extData node), r'))"

definition Hash :: "(nat \<Rightarrow> bytes \<Rightarrow> bytes option) \<Rightarrow> nat \<Rightarrow> string access" where
  "Hash zd node = bindS (HashEmpty zd node) (\<lambda>empty. if empty then retS []
     else (\<lambda>r. let hb = HashBytes r; lo = node * hb in
       (bindE (Hashes r) (\<lambda>hashes. Inr (if length hashes < lo + hb then []
          else EncodeToString (take hb (drop lo hashes)))), r)))"

definition TagName :: "(nat \<Rightarrow> bytes \<Rightarrow> bytes option) \<Rightarrow> i32 \<Rightarrow> string access" where
  "TagName zd i = bindS (orElseS [] (ensureTagDict zd)) (\<lambda>dict.
     retS (if sint i < 0 \<or> int (length dict) \<le> sint i then [] else dict ! nat (sint i)))"

definition RuleType :: "(nat \<Rightarrow> bytes \<Rightarrow> bytes option) \<Rightarrow> nat \<Rightarrow> string access" where
  "RuleType zd node = bindS (orElseS [] (getRuleTypeIDColumn zd)) (\<lambda>ids.
     if length ids \<le> node then retS []
     else bindS (orElseS [] (ensureRuleTypeDict zd)) (\<lambda>dict. liftS (dictAt dict (sint (ids ! node)))))"

text \<open>\<open>RuleTypeDictID\<close>: the first position of the name in the dictionary, or \<open>-1\<close>.\<close>

fun firstIndex :: "nat \<Rightarrow> string \<Rightarrow> string list \<Rightarrow> i32" where
  "firstIndex i name [] = - 1"
| "firstIndex i name (s # ss) = (if s = name then of_nat i else firstIndex (Suc i) name ss)"

definition RuleTypeDictID :: "(nat \<Rightarrow> bytes \<Rightarrow> bytes option) \<Rightarrow> string \<Rightarrow> i32 access" where
  "RuleTypeDictID zd name = orElseS (- 1) (bindS (ensureRuleTypeDict zd) (\<lambda>dict. retS (firstIndex 0 name dict)))"

definition OriginalID :: "nat \<Rightarrow> i32" where
  "OriginalID node = of_nat node"

end
