(* ===== verification/TgbDecode.thy ===== *)
theory TgbDecode
  imports TgbReader
begin

text \<open>
  \<open>internal/tgb/reader.go\<close>, second part: the accessors of the variable-length columns
  (dependencies, tags, attributes), the sidecar map, full decoding (\<open>DecodeGraph\<close>, \<open>Decode\<close>)
  and \<open>ColumnStats\<close>.
\<close>

section \<open>Dependencies, tags, attributes\<close>

definition twoColumns :: "(nat \<Rightarrow> bytes \<Rightarrow> bytes option) \<Rightarrow> u64 \<Rightarrow> u64 \<Rightarrow> (bytes \<times> bytes) access" where
  "twoColumns zd i j = bindS (getColumn zd i) (\<lambda>degData. bindS (getColumn zd j) (\<lambda>listData. retS (degData, listData)))"

definition offsetTable :: "(bytes \<Rightarrow> nat \<Rightarrow> nat \<Rightarrow> nat \<Rightarrow> tgb_error + 'a \<times> nat) \<Rightarrow> bytes \<times> bytes \<Rightarrow>
    tgb_error + i32 list \<times> nat list \<times> bytes" where
  "offsetTable rd cols = (case cols of (degData, listData) \<Rightarrow>
     bindE (csrRuns rd degData listData) (\<lambda>(degs, runs, endp). Inr (degs, map fst runs @ [endp], listData)))"

definition ensureDepOffsets :: "(nat \<Rightarrow> bytes \<Rightarrow> bytes option) \<Rightarrow> (i32 list \<times> nat list \<times> bytes) access" where
  "ensureDepOffsets zd = cachedTable rd_depByteOffset (twoColumns zd colDeg colDeps)
     (\<lambda>cols r. (rd_depDegs r, rd_depByteOffset r, snd cols)) (offsetTable (readDeps truncDeps))
     (\<lambda>(degs, offsets, _) r. r \<lparr> rd_depDegs := degs, rd_depByteOffset := offsets \<rparr>)"

definition ensureTagOffsets :: "(nat \<Rightarrow> bytes \<Rightarrow> bytes option) \<Rightarrow> (i32 list \<times> nat list \<times> bytes) access" where
  "ensureTagOffsets zd = cachedTable rd_tagByteOffset (twoColumns zd colTagDeg colTags)
     (\<lambda>cols r. (rd_tagDegs r, rd_tagByteOffset r, snd cols)) (offsetTable (readTags truncTags))
     (\<lambda>(degs, offsets, _) r. r \<lparr> rd_tagDegs := degs, rd_tagByteOffset := offsets \<rparr>)"

text \<open>The two attribute columns are validated and walked in step.\<close>

definition attrRuns :: "bytes \<Rightarrow> bytes \<Rightarrow> bytes \<Rightarrow> tgb_error + i32 list \<times> ((nat \<times> nat) \<times> (u64 \<times> u64) list) list \<times> nat \<times> nat" where
  "attrRuns degData nmData vlData =
    (let degs = decodePlainInts degData in
     bindE (validateDegs degs (length nmData)) (\<lambda>_.
     bindE (validateDegs degs (length vlData)) (\<lambda>_.
     bindE (walkRuns (\<lambda>i. readPairs nmData vlData) 0 (0, 0) degs) (\<lambda>(runs, endp). Inr (degs, runs, endp)))))"

definition attrColumns :: "(nat \<Rightarrow> bytes \<Rightarrow> bytes option) \<Rightarrow> (bytes \<times> bytes \<times> bytes) access" where
  "attrColumns zd = bindS (getColumn zd colAttrDeg) (\<lambda>degData.
     bindS (getColumn zd colAttrName) (\<lambda>nmData. bindS (getColumn zd colAttrValue) (\<lambda>vlData.
     retS (degData, nmData, vlData))))"

definition attrTable :: "bytes \<times> bytes \<times> bytes \<Rightarrow> tgb_error + i32 list \<times> nat list \<times> nat list \<times> bytes \<times> bytes" where
  "attrTable cols = (case cols of (degData, nmData, vlData) \<Rightarrow>
     bindE (attrRuns degData nmData vlData) (\<lambda>(degs, runs, endp).
     Inr (degs, map (fst \<circ> fst) runs @ [fst endp], map (snd \<circ> fst) runs @ [snd endp], nmData, vlData)))"

definition ensureAttrOffsets ::
  "(nat \<Rightarrow> bytes \<Rightarrow> bytes option) \<Rightarrow> (i32 list \<times> nat list \<times> nat list \<times> bytes \<times> bytes) access" where
  "ensureAttrOffsets zd = cachedTable rd_attrNmOffset (attrColumns zd)
     (\<lambda>cols r. (rd_attrDegs r, rd_attrNmOffset r, rd_attrVlOffset r, snd cols)) attrTable
     (\<lambda>(degs, nmOff, vlOff, _) r. r \<lparr> rd_attrDegs := degs, rd_attrNmOffset := nmOff, rd_attrVlOffset := vlOff \<rparr>)"

text \<open>
  \<open>Deps(node, buf)\<close>. The offsets were validated, so the varints are re-read without checks: a
  read that fails contributes 0 and moves nothing.
\<close>

fun rereadRun :: "bytes \<Rightarrow> i32 \<Rightarrow> nat \<Rightarrow> int \<Rightarrow> i32 list" where
  "rereadRun data prev 0 pos = []"
| "rereadRun data prev (Suc k) pos = (case readUvarint (drop (nat pos) data) of (v, n) \<Rightarrow>
     (prev + ucast v) # rereadRun data (prev + ucast v) k (pos + n))"

definition Deps :: "(nat \<Rightarrow> bytes \<Rightarrow> bytes option) \<Rightarrow> nat \<Rightarrow> i32 list \<Rightarrow> i32 list access" where
  "Deps zd node buf =
    bindS (orElseS ([], [], []) (ensureDepOffsets zd)) (\<lambda>(degs, offsets, depsData).
    retS (if length degs \<le> node then buf
      else buf @ (case nat (sint (degs ! node)) of 0 \<Rightarrow> []
        | Suc k \<Rightarrow> (case readZigzag (drop (offsets ! node) depsData) of (v, n) \<Rightarrow>
            let d = ucast v + of_nat node in d # rereadRun depsData d k (int (offsets ! node) + n)))))"

definition Tags :: "(nat \<Rightarrow> bytes \<Rightarrow> bytes option) \<Rightarrow> nat \<Rightarrow> i32 list \<Rightarrow> i32 list access" where
  "Tags zd node buf =
    bindS (orElseS ([], [], []) (ensureTagOffsets zd)) (\<lambda>(degs, offsets, tagsData).
    retS (if length degs \<le> node then buf
      else buf @ rereadRun tagsData 0 (nat (sint (degs ! node))) (int (offsets ! node))))"

text \<open>\<open>DepsCSR\<close>: row offsets are the running totals of the run lengths.\<close>

fun rowOffsets :: "nat \<Rightarrow> 'a list list \<Rightarrow> nat list" where
  "rowOffsets k [] = [k]"
| "rowOffsets k (xs # xss) = k # rowOffsets (k + length xs) xss"

definition DepsCSR :: "(nat \<Rightarrow> bytes \<Rightarrow> bytes option) \<Rightarrow> (nat list \<times> i32 list) access" where
  "DepsCSR zd =
    bindS (getColumn zd colDeg) (\<lambda>degData. bindS (getColumn zd colDeps) (\<lambda>depsData.
    bindS (liftS (csrRuns (readDeps truncDeps) degData depsData)) (\<lambda>(degs, runs, endp).
    retS (rowOffsets 0 (map snd runs), concat (map snd runs)))))"

fun rereadPairs :: "bytes \<Rightarrow> bytes \<Rightarrow> nat \<Rightarrow> int \<Rightarrow> int \<Rightarrow> (u64 \<times> u64) list" where
  "rereadPairs nmData vlData 0 nmPos vlPos = []"
| "rereadPairs nmData vlData (Suc k) nmPos vlPos =
    (case readUvarint (drop (nat nmPos) nmData) of (nid, n) \<Rightarrow>
     case readUvarint (drop (nat vlPos) vlData) of (vid, m) \<Rightarrow>
       (nid, vid) # rereadPairs nmData vlData k (nmPos + n) (vlPos + m))"

definition Attrs :: "(nat \<Rightarrow> bytes \<Rightarrow> bytes option) \<Rightarrow> nat \<Rightarrow> (string, string) gomap access" where
  "Attrs zd node =
    bindS (orElseS ([], [], [], [], []) (ensureAttrOffsets zd)) (\<lambda>(degs, nmOff, vlOff, nmData, vlData).
    if length degs \<le> node then retS []
    else bindS (orElseS [] (ensureAttrNameDict zd)) (\<lambda>anDict.
      bindS (orElseS [] (ensureAttrValDict zd)) (\<lambda>avDict.
      liftS (bindE (mapE (\<lambda>(nid, vid). bindE (dictAt anDict (sint nid)) (\<lambda>aname.
              bindE (dictAt avDict (sint vid)) (\<lambda>aval. Inr (aname, aval))))
            (rereadPairs nmData vlData (nat (sint (degs ! node))) (int (nmOff ! node)) (int (vlOff ! node))))
          (\<lambda>kvs. Inr (foldl (\<lambda>m (k, v). AList.update k v m) [] kvs))))))"

section \<open>The sidecar map\<close>

definition nextString :: "tgb_error \<Rightarrow> bytes \<Rightarrow> tgb_error + string \<times> bytes" where
  "nextString err data = bindE (nextUvarint err data) (\<lambda>(l, data).
     if length data < unat l then Inl err
     else Inr (string_of (take (unat l) data), drop (unat l) data))"

fun decodePairs :: "nat \<Rightarrow> bytes \<Rightarrow> (string, string) gomap \<Rightarrow> tgb_error + (string, string) gomap" where
  "decodePairs 0 data m = Inr m"
| "decodePairs (Suc n) data m =
    bindE (nextString (Err ''truncated key at entry %d'') data) (\<lambda>(key, data).
    bindE (nextString (Err ''truncated value at entry %d'') data) (\<lambda>(v, data).
    decodePairs n data (AList.update key v m)))"

definition decodeStringMap :: "bytes \<Rightarrow> tgb_error + (string, string) gomap" where
  "decodeStringMap data = bindE (nextUvarint (Err ''truncated count'') data) (\<lambda>(n, data). decodePairs (unat n) data [])"

definition AllTargetsFileHashes :: "(nat \<Rightarrow> bytes \<Rightarrow> bytes option) \<Rightarrow> (string, string) gomap access" where
  "AllTargetsFileHashes zd = (\<lambda>r. if map_of (rd_cols r) colAllTargetsFileHashes = None then (Inr [], r)
     else bindS (getColumn zd colAllTargetsFileHashes) (\<lambda>data. liftS (decodeStringMap data)) r)"

section \<open>Full decoding\<close>

definition expandAllDicts :: "(nat \<Rightarrow> bytes \<Rightarrow> bytes option) \<Rightarrow>
    (string list \<times> string list \<times> string list \<times> string list \<times> string list \<times> string list) access" where
  "expandAllDicts zd =
    bindS (ensurePkgDict zd) (\<lambda>pkg. bindS (ensureNameDict zd) (\<lambda>name.
    bindS (ensureRuleTypeDict zd) (\<lambda>rt. bindS (ensureTagDict zd) (\<lambda>tag.
    bindS (ensureAttrNameDict zd) (\<lambda>an. bindS (ensureAttrValDict zd) (\<lambda>av.
    retS (pkg, name, rt, tag, an, av)))))))"

fun forEachS :: "('a \<Rightarrow> 'b access) \<Rightarrow> 'a list \<Rightarrow> unit access" where
  "forEachS f [] = retS ()"
| "forEachS f (x # xs) = bindS (f x) (\<lambda>_. forEachS f xs)"

definition decompressAll :: "(nat \<Rightarrow> bytes \<Rightarrow> bytes option) \<Rightarrow> unit access" where
  "decompressAll zd = forEachS (getColumnLocked zd)
    [colNodePkg, colNodeName, colRuleType, colDeg, colDeps, colTagDeg, colTags, colAttrDeg,
     colAttrName, colAttrValue, colFlags, colBlockStart]"

definition decodePkgIDs :: "(nat \<Rightarrow> bytes \<Rightarrow> bytes option) \<Rightarrow> i32 list access" where
  "decodePkgIDs zd = bindS (getColumn zd colNodePkg) (\<lambda>data. retS (decodeDeltaInts data))"

definition decodeNameIDsCol :: "(nat \<Rightarrow> bytes \<Rightarrow> bytes option) \<Rightarrow> i32 list \<Rightarrow> i32 list access" where
  "decodeNameIDsCol zd pkgIDs = bindS (getColumn zd colNodeName) (\<lambda>data. retS (decodeNameIDs data pkgIDs))"

definition decodeRuleTypeIDs :: "(nat \<Rightarrow> bytes \<Rightarrow> bytes option) \<Rightarrow> i32 list access" where
  "decodeRuleTypeIDs zd = bindS (getColumn zd colRuleType) (\<lambda>data. retS (decodePlainInts data))"

definition decodeDepColumns :: "(nat \<Rightarrow> bytes \<Rightarrow> bytes option) \<Rightarrow> i32 list list access" where
  "decodeDepColumns zd = bindS (getColumn zd colDeg) (\<lambda>degData. bindS (getColumn zd colDeps) (\<lambda>depsData.
     bindS (liftS (csrRuns (readDeps truncDeps) degData depsData)) (\<lambda>(degs, runs, endp). retS (map snd runs))))"

definition decodeTagColumns :: "(nat \<Rightarrow> bytes \<Rightarrow> bytes option) \<Rightarrow> i32 list list access" where
  "decodeTagColumns zd = bindS (getColumn zd colTagDeg) (\<lambda>degData. bindS (getColumn zd colTags) (\<lambda>tagsData.
     bindS (liftS (csrRuns (readTags truncTags) degData tagsData)) (\<lambda>(degs, runs, endp). retS (map snd runs))))"

definition decodeAttrColumns :: "(nat \<Rightarrow> bytes \<Rightarrow> bytes option) \<Rightarrow> (i32 \<times> i32) list list access" where
  "decodeAttrColumns zd = bindS (getColumn zd colAttrDeg) (\<lambda>degData.
     bindS (getColumn zd colAttrName) (\<lambda>nmData. bindS (getColumn zd colAttrValue) (\<lambda>vlData.
     bindS (liftS (attrRuns degData nmData vlData)) (\<lambda>(degs, runs, endp).
     retS (map (\<lambda>run. map (\<lambda>(n, v). (ucast n, ucast v)) (snd run)) runs)))))"

text \<open>What the loop of \<open>DecodeGraph\<close> reads, and one iteration of it; \<open>None\<close> is an index panic.\<close>

record decoded =
  dc_pkgDict :: "string list"
  dc_nameDict :: "string list"
  dc_pkgIDs :: "i32 list"
  dc_nameIDs :: "i32 list"
  dc_rtIDs :: "i32 list"
  dc_depLists :: "i32 list list"
  dc_tagLists :: "i32 list list"
  dc_attrLists :: "(i32 \<times> i32) list list"
  dc_rootBits :: bytes
  dc_extBits :: bytes
  dc_hashEmptyBits :: bytes
  dc_hashes :: bytes
  dc_hb :: nat

definition bitAt :: "bytes \<Rightarrow> nat \<Rightarrow> tgb_error + bool" where
  "bitAt bs i = (if bs = [] then Inr False
     else if length bs \<le> i div 8 then Inl Panic else Inr (testBit bs i))"

definition decodeNode :: "decoded \<Rightarrow> nat \<Rightarrow> tgb_error + string \<times> OptimizedTarget" where
  "decodeNode dc i =
    bindE (panicE (go_index (dc_pkgIDs dc) i)) (\<lambda>pid.
    bindE (panicE (go_index (dc_nameIDs dc) i)) (\<lambda>nid.
    bindE (wrapE ''tgb decode: pkg dict lookup: '' (lookupDictEntry (dc_pkgDict dc) (sint pid))) (\<lambda>pkg.
    bindE (wrapE ''tgb decode: name dict lookup: '' (lookupDictEntry (dc_nameDict dc) (sint nid))) (\<lambda>name.
    bindE (bitAt (dc_hashEmptyBits dc) i) (\<lambda>hempty.
    bindE (if hempty then Inr []
           else bindE (panicE (go_slice (dc_hashes dc) (i * dc_hb dc) ((i + 1) * dc_hb dc))) (\<lambda>raw.
             Inr (EncodeToString raw))) (\<lambda>hashStr.
    bindE (panicE (go_index (dc_rtIDs dc) i)) (\<lambda>rtID.
    bindE (panicE (go_index (dc_depLists dc) i)) (\<lambda>deps.
    bindE (panicE (go_index (dc_tagLists dc) i)) (\<lambda>tags.
    bindE (panicE (go_index (dc_attrLists dc) i)) (\<lambda>attrs.
    bindE (bitAt (dc_rootBits dc) i) (\<lambda>root.
    bindE (bitAt (dc_extBits dc) i) (\<lambda>ext.
    Inr (joinLabel pkg name,
         \<lparr> ot_ID = of_nat i, ot_Hash = hashStr, ot_DirectDependencies = deps, ot_RuleType = rtID,
           ot_Tags = tags, ot_Root = root, ot_External = ext,
           ot_Attributes = foldl (\<lambda>m (k, v). AList.update k v m) [] attrs \<rparr>)))))))))))))"

definition numbered :: "string list \<Rightarrow> (i32, string) gomap" where
  "numbered strs = map (\<lambda>(i, s). (of_nat i, s)) (enumerate 0 strs)"

definition DecodeGraph :: "(nat \<Rightarrow> bytes \<Rightarrow> bytes option) \<Rightarrow> Graph access" where
  "DecodeGraph zd =
    bindS (expandAllDicts zd) (\<lambda>(pkgDict, nameDict, ruleTypeDict, tagDict, attrNameDict, attrValDict).
    bindS (decompressAll zd) (\<lambda>_.
    bindS (decodePkgIDs zd) (\<lambda>pkgIDs.
    bindS (decodeNameIDsCol zd pkgIDs) (\<lambda>nameIDs.
    bindS (decodeRuleTypeIDs zd) (\<lambda>rtIDs.
    bindS (decodeDepColumns zd) (\<lambda>depLists.
    bindS (decodeTagColumns zd) (\<lambda>tagLists.
    bindS (decodeAttrColumns zd) (\<lambda>attrLists.
    bindS (decodeFlags zd) (\<lambda>(rootBits, extBits, hashEmptyBits).
    bindS (\<lambda>r. (Hashes r, r)) (\<lambda>hashData.
    bindS (\<lambda>r. (mapE (decodeNode
        \<lparr> dc_pkgDict = pkgDict, dc_nameDict = nameDict, dc_pkgIDs = pkgIDs, dc_nameIDs = nameIDs,
          dc_rtIDs = rtIDs, dc_depLists = depLists, dc_tagLists = tagLists, dc_attrLists = attrLists,
          dc_rootBits = rootBits, dc_extBits = extBits, dc_hashEmptyBits = hashEmptyBits,
          dc_hashes = hashData, dc_hb = HashBytes r \<rparr>) [0..<NodeCount r], r)) (\<lambda>nodes.
    bindS (\<lambda>r. case AllTargetsFileHashes zd r of (x, r') \<Rightarrow>
      (wrapE ''tgb: decode AllTargetsFileHashes: '' x, r')) (\<lambda>atfh.
    retS \<lparr> g_Targets = map snd nodes,
           g_Metadata = \<lparr> md_TargetIDMapping = numbered (map fst nodes),
             md_RuleTypeMapping = numbered ruleTypeDict, md_TagMapping = numbered tagDict,
             md_AttributeNameMapping = numbered attrNameDict,
             md_AttributeStringValueMapping = numbered attrValDict,
             md_AllTargetsFileHashes = atfh \<rparr> \<rparr>))))))))))))"

definition Decode :: "(nat \<Rightarrow> bytes \<Rightarrow> bytes option) \<Rightarrow> bytes \<Rightarrow> tgb_error + Graph" where
  "Decode zd data = bindE (NewReader data) (\<lambda>r. fst (DecodeGraph zd r))"

section \<open>Statistics\<close>

record ColumnStat =
  cs_ID :: u64
  cs_Name :: string
  cs_RawSize :: u64
  cs_CompressedSize :: u64

text \<open>A column without a name is called \<open>col\<close> and its number.\<close>

definition ColumnStats :: "bytes \<Rightarrow> tgb_error + ColumnStat list" where
  "ColumnStats data = bindE (NewReader data) (\<lambda>r.
     Inr (sort_key (\<lambda>s. unat (cs_ID s)) (map (\<lambda>(i, e).
       \<lparr> cs_ID = i, cs_Name = (case colNames i of Some n \<Rightarrow> n | None \<Rightarrow> ''col'' @ decimal (unat i)),
         cs_RawSize = ce_rawSize e, cs_CompressedSize = ce_compressedSize e \<rparr>) (rd_cols r))))"

end
