(* ===== verification/TgbColumns.thy ===== *)
theory TgbColumns
  imports TgbDecode
begin

text \<open>
  Every column of a TGB blob is read back as it was written: plain and delta-coded integer
  columns, the name column, the dependency, tag and attribute runs behind their degree columns,
  the flag bitsets, the hashes and the sidecar map. The statements hold for all \<open>int32\<close> values:
  the encoder writes differences as sign-extended \<open>uint64\<close> and the decoder truncates them.
\<close>

section \<open>Integer columns\<close>

lemma decodeUvarints_concat [codec_simps]: "decodeUvarints (concat (map AppendUvarint vs)) = vs"
proof (induction vs)
  case Nil
  show ?case by (simp add: decodeUvarints.simps)
next
  case (Cons v vs)
  then show ?case by (subst decodeUvarints.simps) (simp add: codec_simps)
qed

fun deltasOf :: "i32 \<Rightarrow> i32 list \<Rightarrow> u64 list" where
  "deltasOf prev [] = []"
| "deltasOf prev (v # vs) = scast (v - prev) # deltasOf v vs"

lemma uvarintDeltas_eq: "uvarintDeltas prev vs = concat (map AppendUvarint (deltasOf prev vs))"
  by (induction prev vs rule: uvarintDeltas.induct) auto

lemma sumDeltas_deltasOf [codec_simps]: "sumDeltas prev (deltasOf prev vs) = vs"
  by (induction prev vs rule: deltasOf.induct) (simp_all add: cast_simps)

lemma decodeDeltaInts_encodeDeltas [codec_simps]: "decodeDeltaInts (encodeDeltas vs) = vs"
  by (simp add: decodeDeltaInts_def encodeDeltas_def uvarintDeltas_eq codec_simps)

lemma encodePlain_eq: "encodePlain vs = concat (map AppendUvarint (map scast vs))"
  by (simp add: encodePlain_def comp_def)

lemma decodePlainInts_encodePlain [codec_simps]: "decodePlainInts (encodePlain vs) = vs"
  unfolding decodePlainInts_def encodePlain_eq decodeUvarints_concat
  by (simp add: comp_def cast_simps)

fun nameDeltas :: "i32 \<Rightarrow> i32 \<Rightarrow> (i32 \<times> i32) list \<Rightarrow> u64 list" where
  "nameDeltas prevPkg prevName [] = []"
| "nameDeltas prevPkg prevName ((pid, nid) # ps) =
    scast (if pid \<noteq> prevPkg then nid else nid - prevName) # nameDeltas pid nid ps"

lemma encodeNames_eq: "encodeNames p n ps = concat (map AppendUvarint (nameDeltas p n ps))"
  by (induction p n ps rule: encodeNames.induct) auto

lemma nameIDs_loop_nameDeltas:
  "length ns = length ps \<Longrightarrow> nameIDs_loop p n ps (nameDeltas p n (zip ps ns)) = ns"
  by (induction ps ns arbitrary: p n rule: list_induct2') (auto simp: Let_def cast_simps)

lemma decodeNameIDs_encodeNames [codec_simps]:
  "length ns = length ps \<Longrightarrow> decodeNameIDs (encodeNames (- 1) 0 (zip ps ns)) ps = ns"
  by (simp add: decodeNameIDs_def encodeNames_eq codec_simps nameIDs_loop_nameDeltas)

section \<open>Runs\<close>

lemma readUvarint_append: "drop pos data = AppendUvarint v @ rest \<Longrightarrow>
    readUvarint (drop pos data) = (v, int (length (AppendUvarint v))) \<and> drop (pos + length (AppendUvarint v)) data = rest"
  by (simp add: readUvarint_def codec_simps add.commute [of pos] flip: drop_drop)

lemma readRun_uvarintDeltas:
  "drop pos data = uvarintDeltas prev vs @ rest \<Longrightarrow>
    readRun err data prev (length vs) pos = Inr (vs, pos + length (uvarintDeltas prev vs))"
proof (induction vs arbitrary: prev pos)
  case (Cons v vs)
  note rd = readUvarint_append [OF Cons.prems [unfolded uvarintDeltas.simps append_assoc]]
  have "prev + ucast (scast (v - prev) :: u64) = v"
    by (simp add: cast_simps)
  then show ?case
    using rd Cons.IH [of "pos + length (AppendUvarint (scast (v - prev)))" v] by simp
qed simp

lemma readZigzag_append: "drop pos data = appendZigzag [] v @ rest \<Longrightarrow>
    readZigzag (drop pos data) = (v, int (length (appendZigzag [] v))) \<and> drop (pos + length (appendZigzag [] v)) data = rest"
  using zigzag_inverse [of v]
  by (simp add: readZigzag_def appendZigzag_def codec_simps add.commute [of pos] flip: drop_drop)

lemma ucast_of_nat_64_32: "(ucast (of_nat n :: 64 word) :: 32 word) = of_nat n"
  by transfer simp

lemma dep_first: "ucast (scast d - of_nat i :: 64 word) + of_nat i = (d :: 32 word)"
proof -
  have "ucast (scast d - of_nat i :: 64 word) + of_nat i = (ucast ((scast d - of_nat i) + of_nat i :: 64 word) :: 32 word)"
    by (simp only: ucast_add_64_32 ucast_of_nat_64_32)
  then show ?thesis
    by (simp add: cast_simps)
qed

lemma readDeps_encodeDeps:
  assumes "drop pos data = encodeDeps i deps @ rest"
  shows "readDeps err data i (length deps) pos = Inr (deps, pos + length (encodeDeps i deps))"
proof (cases deps)
  case Nil
  then show ?thesis by (simp add: readDeps_def encodeDeps_def)
next
  case (Cons d ds)
  have split: "drop pos data = appendZigzag [] (scast d - of_nat i) @ uvarintDeltas d ds @ rest"
    using assms Cons by (simp add: encodeDeps_def)
  note rd = readZigzag_append [OF split]
  have "readRun err data d (length ds) (pos + length (appendZigzag [] (scast d - of_nat i))) =
      Inr (ds, pos + length (appendZigzag [] (scast d - of_nat i)) + length (uvarintDeltas d ds))"
    using rd by (intro readRun_uvarintDeltas [where rest = rest]) simp
  moreover have "0 < length (appendZigzag [] (scast d - of_nat i))"
    by (simp add: appendZigzag_def)
  ultimately show ?thesis
    using rd Cons by (simp add: readDeps_def encodeDeps_def dep_first Let_def)
qed

lemma encodeTags_eq: "encodeTags ts = uvarintDeltas 0 ts"
  by (cases ts) (simp_all add: encodeTags_def)

lemma readTags_encodeTags:
  "drop pos data = encodeTags ts @ rest \<Longrightarrow> readTags err data i (length ts) pos = Inr (ts, pos + length (encodeTags ts))"
  unfolding readTags_def encodeTags_eq by (rule readRun_uvarintDeltas)

lemma readPairs_encode:
  "drop np nmData = concat (map (\<lambda>kv. AppendUvarint (scast (fst kv))) kvs) @ nrest \<Longrightarrow>
   drop vp vlData = concat (map (\<lambda>kv. AppendUvarint (scast (snd kv))) kvs) @ vrest \<Longrightarrow>
    readPairs nmData vlData (length kvs) (np, vp) =
      Inr (map (\<lambda>kv. (scast (fst kv), scast (snd kv))) (kvs :: (i32 \<times> i32) list),
           np + length (concat (map (\<lambda>kv. AppendUvarint (scast (fst kv))) kvs)),
           vp + length (concat (map (\<lambda>kv. AppendUvarint (scast (snd kv))) kvs)))"
proof (induction kvs arbitrary: np vp)
  case (Cons kv kvs)
  note n = readUvarint_append [OF Cons.prems(1) [unfolded list.map concat.simps append_assoc]]
  note v = readUvarint_append [OF Cons.prems(2) [unfolded list.map concat.simps append_assoc]]
  show ?case
    using n v Cons.IH [of "np + length (AppendUvarint (scast (fst kv)))" "vp + length (AppendUvarint (scast (snd kv)))"]
    by simp
qed simp

text \<open>Degrees are small enough to be read back from their \<open>int32\<close>.\<close>

definition degs_ok :: "'a list list \<Rightarrow> bool" where
  "degs_ok xss \<longleftrightarrow> (\<forall>xs \<in> set xss. length xs < 2 ^ 31)"

lemma sint_of_nat_32: "n < 2 ^ 31 \<Longrightarrow> sint (of_nat n :: i32) = int n"
  by (simp add: sint_uint uint_nat unat_of_nat signed_take_bit_int_eq_self)

text \<open>
  The outer loop keeps any invariant \<open>I\<close> that says where the runs of the remaining nodes start.
\<close>

lemma walkRuns_inv:
  assumes step: "\<And>k p xs xss. I k p (xs # xss) \<Longrightarrow> \<exists>p'. rd k (length xs) p = Inr (f xs, p') \<and> I (Suc k) p' xss"
    and "degs_ok xss" "I k pos xss"
  shows "\<exists>starts endp. length starts = length xss \<and>
    walkRuns rd k pos (map (\<lambda>xs. of_nat (length xs)) xss) = Inr (zip starts (map f xss), endp) \<and>
    (\<forall>j < length xss. I (k + j) (starts ! j) (drop j xss))"
  using assms(2,3)
proof (induction xss arbitrary: k pos)
  case (Cons xs xss)
  have deg: "nat (sint (of_nat (length xs) :: i32)) = length xs"
    using Cons.prems(1) by (simp add: degs_ok_def sint_of_nat_32)
  obtain p' where p': "rd k (length xs) pos = Inr (f xs, p')" "I (Suc k) p' xss"
    using step [OF Cons.prems(2)] by blast
  obtain starts endp where st: "length starts = length xss"
      "walkRuns rd (Suc k) p' (map (\<lambda>xs. of_nat (length xs)) xss) = Inr (zip starts (map f xss), endp)"
      "\<forall>j < length xss. I (Suc k + j) (starts ! j) (drop j xss)"
    using Cons.IH [OF _ p'(2)] Cons.prems(1) by (auto simp: degs_ok_def)
  then show ?case
    using p'(1) deg Cons.prems(2)
    by (intro exI [of _ "pos # starts"] exI [of _ endp]) (auto simp: less_Suc_eq_0_disj)
qed simp

definition runsAt :: "(nat \<Rightarrow> 'a list \<Rightarrow> bytes) \<Rightarrow> bytes \<Rightarrow> nat \<Rightarrow> nat \<Rightarrow> 'a list list \<Rightarrow> bool" where
  "runsAt enc data k p xss \<longleftrightarrow> drop p data = concat (map (\<lambda>(i, xs). enc i xs) (enumerate k xss))"

lemma runsAt_step:
  assumes "runsAt enc data k p (xs # xss)"
  shows "drop p data = enc k xs @ concat (map (\<lambda>(i, xs). enc i xs) (enumerate (Suc k) xss)) \<and>
    runsAt enc data (Suc k) (p + length (enc k xs)) xss"
  using assms by (simp add: runsAt_def add.commute [of p] flip: drop_drop)

text \<open>Every list entry costs at least one byte, so the byte-conservation check passes.\<close>

lemma validateDegs_loop_ok:
  assumes "degs_ok xss" "tot + sum_list (map length xss) \<le> listLen"
  shows "validateDegs_loop listLen tot (map (\<lambda>xs. of_nat (length xs)) xss) = Inr ()"
  using assms
proof (induction xss arbitrary: tot)
  case (Cons xs xss)
  then have "sint (of_nat (length xs) :: i32) = int (length xs)"
    by (simp add: degs_ok_def sint_of_nat_32)
  then show ?case
    using Cons by (simp add: degs_ok_def)
qed simp

lemma validateDegs_ok:
  assumes "degs_ok xss" "\<And>i xs. length xs \<le> length (enc i xs)"
    and "data = concat (map (\<lambda>(i, xs). enc i xs) (enumerate k xss))"
  shows "validateDegs (map (\<lambda>xs. of_nat (length xs)) xss) (length data) = Inr ()"
proof -
  have "sum_list (map length xss) \<le> length (concat (map (\<lambda>(i, xs). enc i xs) (enumerate k xss)))"
    using assms(2) by (induction xss arbitrary: k) (auto intro!: add_mono)
  then show ?thesis
    using assms(1,3) unfolding validateDegs_def by (intro validateDegs_loop_ok) simp_all
qed

lemma length_uvarintDeltas: "length vs \<le> length (uvarintDeltas prev vs)"
proof (induction vs arbitrary: prev)
  case (Cons v vs)
  have "1 \<le> length (AppendUvarint (scast (v - prev)))"
    by (simp add: Suc_le_eq)
  then show ?case
    using Cons [of v] by simp
qed simp

lemma length_encodeDeps: "length ds \<le> length (encodeDeps i ds)"
proof (cases ds)
  case (Cons d ds')
  have "0 < length (appendZigzag [] (scast d - of_nat i))"
    by (simp add: appendZigzag_def)
  then show ?thesis
    using Cons length_uvarintDeltas [of ds' d] by (simp add: encodeDeps_def del: length_greater_0_conv)
qed simp

text \<open>A CSR column pair: the runs come back, and every recorded start is the start of its run.\<close>

lemma csrRuns_encode:
  assumes "\<And>i xs p rest. drop p data = enc i xs @ rest \<Longrightarrow>
      rd data i (length xs) p = Inr (xs, p + length (enc i xs))"
    and "\<And>i xs. length xs \<le> length (enc i xs)"
    and "degs_ok xss" and data: "data = concat (map (\<lambda>(i, xs). enc i xs) (enumerate 0 xss))"
  shows "\<exists>starts endp. length starts = length xss \<and>
    csrRuns rd (encodePlain (map (\<lambda>xs. of_nat (length xs)) xss)) data =
      Inr (map (\<lambda>xs. of_nat (length xs)) xss, zip starts xss, endp) \<and>
    (\<forall>j < length xss. runsAt enc data j (starts ! j) (drop j xss))"
proof -
  have "\<exists>p'. rd data k (length xs) p = Inr (xs, p') \<and> runsAt enc data (Suc k) p' xss'"
    if "runsAt enc data k p (xs # xss')" for k p xs xss'
    using assms(1) runsAt_step [OF that] by blast
  from walkRuns_inv [of "runsAt enc data" "rd data" "\<lambda>xs. xs" xss 0 0, OF this assms(3)]
  obtain starts endp where st: "length starts = length xss"
      "walkRuns (rd data) 0 0 (map (\<lambda>xs. of_nat (length xs)) xss) = Inr (zip starts xss, endp)"
      "\<forall>j < length xss. runsAt enc data j (starts ! j) (drop j xss)"
    using data by (auto simp: runsAt_def)
  then show ?thesis
    using validateDegs_ok [OF assms(3,2) data]
    by (intro exI [of _ starts] exI [of _ endp]) (simp add: csrRuns_def codec_simps)
qed

lemma csrRuns_deps:
  assumes "degs_ok xss" "data = concat (map (\<lambda>(i, xs). encodeDeps i xs) (enumerate 0 xss))"
  shows "\<exists>starts endp. length starts = length xss \<and>
    csrRuns (readDeps truncDeps) (encodePlain (map (\<lambda>xs. of_nat (length xs)) xss)) data =
      Inr (map (\<lambda>xs. of_nat (length xs)) xss, zip starts xss, endp) \<and>
    (\<forall>j < length xss. runsAt encodeDeps data j (starts ! j) (drop j xss))"
  by (rule csrRuns_encode [OF _ length_encodeDeps assms]) (rule readDeps_encodeDeps)

lemma length_encodeTags: "length ts \<le> length (encodeTags ts)"
  by (simp add: encodeTags_eq length_uvarintDeltas)

lemma csrRuns_tags:
  assumes "degs_ok xss" "data = concat (map (\<lambda>(i, xs). encodeTags xs) (enumerate 0 xss))"
  shows "\<exists>starts endp. length starts = length xss \<and>
    csrRuns (readTags truncTags) (encodePlain (map (\<lambda>xs. of_nat (length xs)) xss)) data =
      Inr (map (\<lambda>xs. of_nat (length xs)) xss, zip starts xss, endp) \<and>
    (\<forall>j < length xss. runsAt (\<lambda>i. encodeTags) data j (starts ! j) (drop j xss))"
  by (rule csrRuns_encode [OF _ length_encodeTags assms]) (rule readTags_encodeTags)

text \<open>A list column of bounded size has bounded degrees.\<close>

lemma degs_ok_concat:
  assumes "\<And>i xs. length xs \<le> length (enc i xs)"
    and "length (concat (map (\<lambda>(i, xs). enc i xs) (enumerate k xss))) \<le> 2 ^ 30"
  shows "degs_ok xss"
  using assms(2)
proof (induction xss arbitrary: k)
  case (Cons xs xss)
  then have "length (enc k xs) \<le> 2 ^ 30" "degs_ok xss"
    using Cons.IH [of "Suc k"] by simp_all
  then show ?case
    using assms(1) [of xs k] by (simp add: degs_ok_def)
qed (simp add: degs_ok_def)

definition attrNames :: "(i32 \<times> i32) list \<Rightarrow> bytes" where
  "attrNames kvs = concat (map (\<lambda>kv. AppendUvarint (scast (fst kv))) kvs)"

definition attrValues :: "(i32 \<times> i32) list \<Rightarrow> bytes" where
  "attrValues kvs = concat (map (\<lambda>kv. AppendUvarint (scast (snd kv))) kvs)"

lemma length_varints_ge: "length xs \<le> length (concat (map (\<lambda>x. AppendUvarint (f x)) xs))"
proof (induction xs)
  case (Cons x xs)
  have "1 \<le> length (AppendUvarint (f x))"
    by (simp add: Suc_le_eq)
  then show ?case
    using Cons by simp
qed simp

lemma length_attrBytes: "length kvs \<le> length (attrNames kvs)" "length kvs \<le> length (attrValues kvs)"
  unfolding attrNames_def attrValues_def by (rule length_varints_ge)+

lemma attrRuns_encode:
  assumes "degs_ok xss"
    and nm: "nmData = concat (map attrNames xss)" and vl: "vlData = concat (map attrValues xss)"
  shows "\<exists>starts endp. length starts = length xss \<and>
    attrRuns (encodePlain (map (\<lambda>xs. of_nat (length xs)) xss)) nmData vlData =
      Inr (map (\<lambda>xs. of_nat (length xs)) xss,
           zip starts (map (map (\<lambda>kv. (scast (fst kv), scast (snd kv)))) xss), endp) \<and>
    (\<forall>j < length xss. drop (fst (starts ! j)) nmData = concat (map attrNames (drop j xss)) \<and>
      drop (snd (starts ! j)) vlData = concat (map attrValues (drop j xss)))"
proof -
  let ?I = "\<lambda>k p xss. drop (fst p) nmData = concat (map attrNames xss) \<and> drop (snd p) vlData = concat (map attrValues xss)"
  let ?f = "map (\<lambda>kv. (scast (fst kv), scast (snd kv) :: u64))"
  have step: "\<exists>p'. readPairs nmData vlData (length xs) p = Inr (?f xs, p') \<and> ?I (Suc k) p' xss'"
    if "?I k p (xs # xss')" for k :: nat and p xs xss'
  proof -
    have n: "drop (fst p) nmData = attrNames xs @ concat (map attrNames xss')"
      and v: "drop (snd p) vlData = attrValues xs @ concat (map attrValues xss')"
      using that by simp_all
    have "readPairs nmData vlData (length xs) p = Inr (?f xs, fst p + length (attrNames xs), snd p + length (attrValues xs))"
      using readPairs_encode [of "fst p" nmData xs _ "snd p" vlData] n v
      by (simp add: attrNames_def attrValues_def)
    then show ?thesis
      using n v by (intro exI [of _ "(fst p + length (attrNames xs), snd p + length (attrValues xs))"])
        (simp add: add.commute [of "fst p"] add.commute [of "snd p"] flip: drop_drop)
  qed
  from walkRuns_inv [of ?I "\<lambda>i. readPairs nmData vlData" ?f xss 0 "(0, 0)", OF step assms(1)]
  obtain starts endp where st: "length starts = length xss"
      "walkRuns (\<lambda>i. readPairs nmData vlData) 0 (0, 0) (map (\<lambda>xs. of_nat (length xs)) xss) = Inr (zip starts (map ?f xss), endp)"
      "\<forall>j < length xss. ?I j (starts ! j) (drop j xss)"
    using nm vl by auto
  have en: "concat (map (\<lambda>(i, xs). g xs) (enumerate k yss)) = concat (map g yss)" for g :: "'b \<Rightarrow> bytes" and k yss
    by (induction yss arbitrary: k) auto
  have "validateDegs (map (\<lambda>xs. of_nat (length xs)) xss) (length nmData) = Inr ()"
    using nm by (intro validateDegs_ok [where enc = "\<lambda>i. attrNames" and k = 0] assms(1)) (simp_all add: length_attrBytes en)
  moreover have "validateDegs (map (\<lambda>xs. of_nat (length xs)) xss) (length vlData) = Inr ()"
    using vl by (intro validateDegs_ok [where enc = "\<lambda>i. attrValues" and k = 0] assms(1)) (simp_all add: length_attrBytes en)
  ultimately show ?thesis
    using st by (intro exI [of _ starts] exI [of _ endp]) (simp add: attrRuns_def codec_simps)
qed

section \<open>Bitsets\<close>

lemma testBit_iff: "testBit bs i \<longleftrightarrow> bit (bs ! (i div 8)) (i mod 8)"
proof -
  have "bs ! (i div 8) AND push_bit (i mod 8) 1 \<noteq> 0 \<longleftrightarrow> bit (bs ! (i div 8)) (i mod 8)"
    by (metis and.commute bit_iff_and_push_bit_not_eq_0)
  then show ?thesis
    by (simp add: testBit_def)
qed

lemma length_setBit [simp]: "length (setBit bs i) = length bs"
  by (simp add: setBit_def)

lemma testBit_setBit:
  assumes "i div 8 < length bs"
  shows "testBit (setBit bs i) j \<longleftrightarrow> testBit bs j \<or> j = i"
proof (cases "j div 8 = i div 8")
  case True
  have "bit (push_bit (i mod 8) (1 :: byte)) (j mod 8) \<longleftrightarrow> j mod 8 = i mod 8"
    unfolding bit_push_bit_iff bit_1_iff by auto
  moreover have "j mod 8 = i mod 8 \<longleftrightarrow> j = i"
    using True by (metis mult_div_mod_eq)
  ultimately show ?thesis
    using True assms by (auto simp: testBit_iff setBit_def bit_or_iff)
next
  case False
  then show ?thesis
    using assms by (auto simp: testBit_iff setBit_def)
qed

lemma testBit_fold:
  assumes "(k + length fs + 7) div 8 \<le> length bs"
  shows "testBit (foldl (\<lambda>bs (i, f). if f then setBit bs i else bs) bs (enumerate k fs)) j \<longleftrightarrow>
    testBit bs j \<or> (k \<le> j \<and> j < k + length fs \<and> fs ! (j - k))"
  using assms
proof (induction fs arbitrary: k bs)
  case (Cons f fs)
  have "k div 8 < length bs"
    using Cons.prems by simp
  then show ?case
    using Cons.IH [of "Suc k" "if f then setBit bs k else bs"] Cons.prems
    by (auto simp: testBit_setBit nth_Cons' not_less_eq_eq Suc_le_eq split: if_splits)
qed auto

lemma length_bitset [simp]: "length (bitset fs) = (length fs + 7) div 8"
proof -
  have "length (foldl (\<lambda>bs (i, f). if f then setBit bs i else bs) bs xs) = length bs" for bs xs
    by (induction xs arbitrary: bs) auto
  then show ?thesis
    by (simp add: bitset_def)
qed

lemma testBit_bitset: "i < length fs \<Longrightarrow> testBit (bitset fs) i = fs ! i"
proof -
  assume i: "i < length fs"
  then have "i div 8 < (length fs + 7) div 8"
    by simp
  then have "\<not> testBit (replicate ((length fs + 7) div 8) 0) i"
    by (simp add: testBit_iff)
  then show ?thesis
    using i testBit_fold [of 0 fs "replicate ((length fs + 7) div 8) 0" i] by (simp add: bitset_def)
qed

section \<open>Hashes\<close>

lemma length_hexPairs: "hexPairs n s = Some bs \<Longrightarrow> length bs = n"
  by (induction n s arbitrary: bs rule: hexPairs.induct) (auto split: if_splits option.splits)

lemma hexPairs_all:
  "list_all (\<lambda>c. hexNibble c \<noteq> None) s \<Longrightarrow> even (length s) \<Longrightarrow> \<exists>bs. hexPairs (length s div 2) s = Some bs"
proof (induction s rule: induct_list012)
  case (3 a b s)
  then show ?case by auto
qed auto

lemma hexPairs_extend:
  "hexPairs n s = Some bs \<Longrightarrow> even (length s) \<Longrightarrow> n \<le> length s div 2 \<Longrightarrow>
    \<exists>raw. hexPairs (length s div 2) s = Some raw \<and> take n raw = bs"
proof (induction n s arbitrary: bs rule: hexPairs.induct)
  case (1 s)
  then show ?case
    using hexPairs_all [of s] by (auto split: if_splits)
next
  case (2 n a b s)
  obtain hi lo bs' where h: "hexNibble a = Some hi" "hexNibble b = Some lo" "hexPairs n s = Some bs'"
      "bs = (push_bit 4 hi OR lo) # bs'"
    using "2.prems"(1) by (auto split: option.splits)
  moreover obtain raw where "hexPairs (length s div 2) s = Some raw" "take n raw = bs'"
    using "2.IH" [OF refl h(1,2) h(3)] "2.prems"(2,3) by auto
  ultimately show ?case
    by (intro exI [of _ "(push_bit 4 hi OR lo) # raw"]) simp
qed auto

lemma decodeHashHex_hexDecodeInto:
  assumes "hexDecodeInto n s = Inr bs"
  shows "decodeHashHex s n = bs \<and> length bs = n"
proof -
  have h: "even (length (bytes_of s))" "n \<le> length (bytes_of s) div 2" "hexPairs n (bytes_of s) = Some bs"
    using assms by (auto simp: hexDecodeInto_def even_iff_mod_2_eq_zero not_less split: if_splits option.splits)
  obtain raw where raw: "hexPairs (length s div 2) (bytes_of s) = Some raw" "take n raw = bs"
    using hexPairs_extend [OF h(3,1,2)] by auto
  then have "DecodeString s = Some raw" "length raw = length s div 2"
    using h(1) length_hexPairs [OF raw(1)] by (auto simp: DecodeString_def even_iff_mod_2_eq_zero)
  then show ?thesis
    using raw(2) h(2) length_hexPairs [OF h(3)] by (simp add: decodeHashHex_def)
qed

section \<open>The sidecar map\<close>

lemma nextString_append [codec_simps]:
  "length s < 2 ^ 63 \<Longrightarrow> nextString err (AppendUvarint (of_nat (length s)) @ bytes_of s @ rest) = Inr (s, rest)"
  by (simp add: nextString_def codec_simps unat_of_nat_64)

lemma decodePairs_encode:
  assumes "\<forall>kv \<in> set kvs. length (fst kv) < 2 ^ 63 \<and> length (snd kv) < 2 ^ 63"
    and "distinct (map fst kvs)" "\<forall>k \<in> set (map fst kvs). map_of m k = None"
  shows "decodePairs (length kvs) (concat (map encodePair kvs) @ rest) m = Inr (m @ kvs)"
  using assms
proof (induction kvs arbitrary: m)
  case (Cons kv kvs)
  obtain k v where kv: "kv = (k, v)"
    by (cases kv)
  have upd: "AList.update k v m = m @ [(k, v)]"
  proof -
    have "k \<notin> fst ` set m"
      using Cons.prems(3) kv by (simp add: map_of_eq_None_iff)
    then show ?thesis
      by (induction m) auto
  qed
  have "decodePairs (length kvs) (concat (map encodePair kvs) @ rest) (m @ [(k, v)]) = Inr ((m @ [(k, v)]) @ kvs)"
    using Cons.prems kv by (intro Cons.IH) (auto simp: map_add_None)
  then show ?case
    using Cons.prems(1) kv upd by (simp add: encodePair_def [of "(k, v)"] codec_simps)
qed simp

lemma decodeStringMap_encodeStringMap:
  assumes "distinct (map fst m)" "length m < 2 ^ 63"
    and "\<forall>kv \<in> set m. length (fst kv) < 2 ^ 63 \<and> length (snd kv) < 2 ^ 63"
  shows "decodeStringMap (encodeStringMap m) = Inr (map (\<lambda>k. (k, the (map_of m k))) (sort (map fst m)))"
proof -
  let ?kvs = "map (\<lambda>k. (k, the (map_of m k))) (sort (map fst m))"
  have val: "the (map_of m k) \<in> snd ` set m" if "k \<in> fst ` set m" for k
    using that assms(1) by force
  have "length k < 2 ^ 63 \<and> length (the (map_of m k)) < 2 ^ 63" if "k \<in> fst ` set m" for k
    using that val [OF that] assms(3) by auto
  then have "decodePairs (length ?kvs) (concat (map encodePair ?kvs) @ []) [] = Inr ([] @ ?kvs)"
    using assms(1) by (intro decodePairs_encode) (auto simp: comp_def)
  then show ?thesis
    using assms(2) by (simp add: decodeStringMap_def encodeStringMap_def codec_simps unat_of_nat_64 comp_def)
qed

end
