(* ===== verification/TgbLazy.thy ===== *)
theory TgbLazy
  imports TgbColumns
begin

text \<open>
  The laziness of the reader is invisible: whatever accessors were called before, in whatever
  order, an accessor returns what it returns on a freshly opened reader. The contract is the
  locale \<open>lazy_accessor\<close>; every accessor of the model interprets it. The caches satisfy the
  invariant \<open>cache_ok\<close>: a filled cache holds what a fresh reader computes.
\<close>

section \<open>The cache invariant\<close>

text \<open>The reader as \<open>NewReader\<close> would return it for the same blob.\<close>

definition base :: "Reader \<Rightarrow> Reader" where
  "base r = freshReader (rd_data r) (rd_hdr r) (rd_cols r)"

definition holds :: "'a list \<Rightarrow> tgb_error + 'a list \<Rightarrow> bool" where
  "holds cache x \<longleftrightarrow> cache = [] \<or> x = Inr cache"

definition cache_ok :: "(nat \<Rightarrow> bytes \<Rightarrow> bytes option) \<Rightarrow> Reader \<Rightarrow> bool" where
  "cache_ok zd r \<longleftrightarrow>
    (\<forall>i v. rd_decompressed r i = Some v \<longrightarrow> fst (getColumn zd i (base r)) = Inr v) \<and>
    holds (rd_pkgDict r) (fst (ensurePkgDict zd (base r))) \<and>
    holds (rd_nameDict r) (fst (ensureNameDict zd (base r))) \<and>
    holds (rd_ruleTypeDict r) (fst (ensureRuleTypeDict zd (base r))) \<and>
    holds (rd_tagDict r) (fst (ensureTagDict zd (base r))) \<and>
    holds (rd_attrNameDict r) (fst (ensureAttrNameDict zd (base r))) \<and>
    holds (rd_attrValDict r) (fst (ensureAttrValDict zd (base r))) \<and>
    holds (rd_pkgIDsCache r) (fst (getPkgIDColumn zd (base r))) \<and>
    holds (rd_nameIDsCache r) (fst (getNameIDColumn zd (base r))) \<and>
    holds (rd_ruleTypeIDsCache r) (fst (getRuleTypeIDColumn zd (base r))) \<and>
    (rd_blockStartsCache r = [] \<or>
      (\<exists>data. fst (getColumn zd colBlockStart (base r)) = Inr data \<and> rd_blockStartsCache r = decodeDeltaInts data)) \<and>
    (rd_depByteOffset r = [] \<or>
      (\<exists>data. fst (ensureDepOffsets zd (base r)) = Inr (rd_depDegs r, rd_depByteOffset r, data))) \<and>
    (rd_tagByteOffset r = [] \<or>
      (\<exists>data. fst (ensureTagOffsets zd (base r)) = Inr (rd_tagDegs r, rd_tagByteOffset r, data))) \<and>
    (rd_attrNmOffset r = [] \<or>
      (\<exists>nm vl. fst (ensureAttrOffsets zd (base r)) = Inr (rd_attrDegs r, rd_attrNmOffset r, rd_attrVlOffset r, nm, vl)))"

lemma base_base [simp]: "base (base r) = base r"
  by (simp add: base_def freshReader_def)

lemma base_freshReader [simp]: "base (freshReader data hdr cols) = freshReader data hdr cols"
  by (simp add: base_def freshReader_def)

lemma base_eq_iff: "base r = base r' \<longleftrightarrow> rd_data r = rd_data r' \<and> rd_hdr r = rd_hdr r' \<and> rd_cols r = rd_cols r'"
  by (auto simp: base_def freshReader_def)

lemma base_fields [simp]:
  "rd_data (base r) = rd_data r" "rd_hdr (base r) = rd_hdr r" "rd_cols (base r) = rd_cols r"
  "rd_decompressed (base r) = Map.empty" "rd_pkgDict (base r) = []" "rd_nameDict (base r) = []"
  "rd_ruleTypeDict (base r) = []" "rd_tagDict (base r) = []" "rd_attrNameDict (base r) = []"
  "rd_attrValDict (base r) = []" "rd_depByteOffset (base r) = []" "rd_tagByteOffset (base r) = []"
  "rd_attrNmOffset (base r) = []" "rd_pkgIDsCache (base r) = []" "rd_nameIDsCache (base r) = []"
  "rd_ruleTypeIDsCache (base r) = []" "rd_blockStartsCache (base r) = []"
  by (simp_all add: base_def freshReader_def)

lemma cache_ok_base [simp]: "cache_ok zd (base r)"
  by (simp add: cache_ok_def holds_def)

section \<open>The contract\<close>

locale lazy_accessor =
  fixes zd :: "nat \<Rightarrow> bytes \<Rightarrow> bytes option"
    and access :: "'a access"
  assumes same_result: "cache_ok zd r \<Longrightarrow> fst (access r) = fst (access (base r))"
    and keeps_cache: "cache_ok zd r \<Longrightarrow> cache_ok zd (snd (access r))"
    and keeps_base: "cache_ok zd r \<Longrightarrow> base (snd (access r)) = base r"
begin

text \<open>Calling the accessor again, or after any other operation that keeps the contract, changes nothing.\<close>

lemma repeatable: "cache_ok zd r \<Longrightarrow> fst (access (snd (access r))) = fst (access r)"
  using same_result [of r] same_result [of "snd (access r)"] keeps_cache keeps_base by simp

lemma same_on_equal_blobs:
  "cache_ok zd r \<Longrightarrow> cache_ok zd r' \<Longrightarrow> base r = base r' \<Longrightarrow> fst (access r) = fst (access r')"
  using same_result by metis

end

lemma lazy_retS: "lazy_accessor zd (retS x)"
  by unfold_locales (simp_all add: retS_def)

lemma lazy_liftS: "lazy_accessor zd (liftS x)"
  by unfold_locales (simp_all add: liftS_def)

lemma lazy_read: "(\<And>r. f r = f (base r)) \<Longrightarrow> lazy_accessor zd (\<lambda>r. (f r, r))"
  by unfold_locales (metis fst_conv, simp_all)

text \<open>The contract at one reader, for the steps whose argument is what an earlier step returned.\<close>

definition lazyAt :: "(nat \<Rightarrow> bytes \<Rightarrow> bytes option) \<Rightarrow> 'a access \<Rightarrow> Reader \<Rightarrow> bool" where
  "lazyAt zd access r \<longleftrightarrow> fst (access r) = fst (access (base r)) \<and> cache_ok zd (snd (access r)) \<and>
     base (snd (access r)) = base r"

lemma lazy_accessor_iff: "lazy_accessor zd access \<longleftrightarrow> (\<forall>r. cache_ok zd r \<longrightarrow> lazyAt zd access r)"
  by (auto simp: lazy_accessor_def lazyAt_def)

lemma lazyAt_bindS:
  assumes m: "lazy_accessor zd m" and ok: "cache_ok zd r"
    and f: "\<And>x s. fst (m (base r)) = Inr x \<Longrightarrow> cache_ok zd s \<Longrightarrow> base s = base r \<Longrightarrow> lazyAt zd (f x) s"
  shows "lazyAt zd (bindS m f) r"
proof -
  obtain x s where ms: "m r = (x, s)"
    by (cases "m r")
  obtain y t where mt: "m (base r) = (y, t)"
    by (cases "m (base r)")
  have xy: "x = y"
    using lazy_accessor.same_result [OF m ok] ms mt by simp
  have s: "cache_ok zd s" "base s = base r"
    using lazy_accessor.keeps_cache [OF m ok] lazy_accessor.keeps_base [OF m ok] ms by auto
  have t: "cache_ok zd t" "base t = base r"
    using lazy_accessor.keeps_cache [OF m, of "base r"] lazy_accessor.keeps_base [OF m, of "base r"] mt by auto
  show ?thesis
  proof (cases y)
    case (Inl e)
    then show ?thesis
      using xy ms mt s by (simp add: lazyAt_def bindS_def)
  next
    case (Inr v)
    then have "lazyAt zd (f v) s" "lazyAt zd (f v) t"
      using f s t mt by auto
    then show ?thesis
      using xy ms mt s t Inr by (simp add: lazyAt_def bindS_def)
  qed
qed

lemma lazy_bindS:
  assumes "lazy_accessor zd m" "\<And>x. lazy_accessor zd (f x)"
  shows "lazy_accessor zd (bindS m f)"
  unfolding lazy_accessor_iff
  using lazyAt_bindS [OF assms(1)] assms(2) lazy_accessor_iff by blast

lemma lazy_orElseS: "lazy_accessor zd m \<Longrightarrow> lazy_accessor zd (orElseS d m)"
proof
  fix r
  assume m: "lazy_accessor zd m" and ok: "cache_ok zd r"
  show "fst (orElseS d m r) = fst (orElseS d m (base r))"
    using lazy_accessor.same_result [OF m ok] by (simp add: orElseS_def case_prod_beta)
  show "cache_ok zd (snd (orElseS d m r))" "base (snd (orElseS d m r)) = base r"
    using lazy_accessor.keeps_cache [OF m ok] lazy_accessor.keeps_base [OF m ok]
    by (simp_all add: orElseS_def case_prod_beta)
qed

section \<open>Columns\<close>

lemma getColumn_base_cong: "base r = base r' \<Longrightarrow> rd_decompressed r i = None \<Longrightarrow>
    fst (getColumn zd i r) = fst (getColumn zd i (base r'))"
  unfolding base_eq_iff getColumn_def getColumnLocked_def
  by (auto simp: Let_def split: option.splits)

lemma cache_ok_decompressed:
  assumes "cache_ok zd r" "fst (getColumn zd i (base r)) = Inr v"
  shows "cache_ok zd (r \<lparr> rd_DecompressionCount := c, rd_decompressed := (rd_decompressed r)(i \<mapsto> v) \<rparr>)"
proof -
  have "base (r \<lparr> rd_DecompressionCount := c, rd_decompressed := (rd_decompressed r)(i \<mapsto> v) \<rparr>) = base r"
    by (simp add: base_def)
  then show ?thesis
    using assms by (simp add: cache_ok_def)
qed

lemma cache_ok_count:
  "cache_ok zd r \<Longrightarrow> cache_ok zd (r \<lparr> rd_DecompressionCount := c \<rparr>)"
  by (simp add: cache_ok_def base_def)

lemma getColumn_cases:
  "getColumn zd i r = (x, s) \<Longrightarrow> (\<exists>c. s = r \<lparr> rd_DecompressionCount := c \<rparr>) \<or>
    (\<exists>c v. x = Inr v \<and> rd_decompressed r i = None \<and>
       s = r \<lparr> rd_DecompressionCount := c, rd_decompressed := (rd_decompressed r)(i \<mapsto> v) \<rparr>)"
  unfolding getColumn_def getColumnLocked_def
  by (auto simp: Let_def split: option.splits if_splits intro: exI [of _ "rd_DecompressionCount r"])

interpretation column: lazy_accessor zd "getColumn zd i" for zd i
proof
  fix r
  assume ok: "cache_ok zd r"
  show eq: "fst (getColumn zd i r) = fst (getColumn zd i (base r))"
  proof (cases "rd_decompressed r i")
    case None
    then show ?thesis by (intro getColumn_base_cong) simp_all
  next
    case (Some v)
    then show ?thesis
      using ok by (simp add: cache_ok_def) (simp add: getColumn_def getColumnLocked_def)
  qed
  obtain x s where xs: "getColumn zd i r = (x, s)"
    by (cases "getColumn zd i r")
  show "cache_ok zd (snd (getColumn zd i r))"
    using getColumn_cases [OF xs] xs eq ok by (auto intro: cache_ok_count cache_ok_decompressed)
  show "base (snd (getColumn zd i r)) = base r"
    using getColumn_cases [OF xs] xs by (auto simp: base_def)
qed

lemma lazy_getColumnLocked: "lazy_accessor zd (getColumnLocked zd i)"
  using column.lazy_accessor_axioms by (simp add: getColumn_def [abs_def])

section \<open>Cached slices\<close>

lemma lazy_cached:
  assumes compute: "lazy_accessor zd compute"
    and get: "\<And>x r. get (put x r) = x" "\<And>r. get (base r) = []"
    and put_base: "\<And>x r. base (put x r) = base r"
    and filled: "\<And>r. cache_ok zd r \<Longrightarrow> holds (get r) (fst (cached get put compute (base r)))"
    and put_ok: "\<And>x r. cache_ok zd r \<Longrightarrow> fst (cached get put compute (base r)) = Inr x \<Longrightarrow> cache_ok zd (put x r)"
  shows "lazy_accessor zd (cached get put compute)"
proof
  fix r
  assume ok: "cache_ok zd r"
  have fresh: "fst (cached get put compute (base r)) = fst (compute (base r))"
    by (simp add: cached_def get bindS_def split: prod.splits sum.splits)
  show eq: "fst (cached get put compute r) = fst (cached get put compute (base r))"
  proof (cases "get r = []")
    case True
    then have "fst (cached get put compute r) = fst (compute r)"
      by (simp add: cached_def bindS_def split: prod.splits sum.splits)
    then show ?thesis
      using fresh lazy_accessor.same_result [OF compute ok] by simp
  next
    case False
    then show ?thesis
      using filled [OF ok] by (simp add: holds_def) (simp add: cached_def)
  qed
  obtain x s where xs: "compute r = (x, s)"
    by (cases "compute r")
  have s: "cache_ok zd s" "base s = base r"
    using lazy_accessor.keeps_cache [OF compute ok] lazy_accessor.keeps_base [OF compute ok] xs by auto
  have run: "snd (cached get put compute r) = (if get r \<noteq> [] then r else case x of Inl _ \<Rightarrow> s | Inr v \<Rightarrow> put v s)"
    using xs by (simp add: cached_def bindS_def split: sum.splits)
  have "cache_ok zd (put v s)" if "get r = []" "x = Inr v" for v
    using put_ok [OF s(1), of v] eq xs that s(2) by (simp add: cached_def bindS_def)
  then show "cache_ok zd (snd (cached get put compute r))"
    unfolding run using ok s by (auto split: sum.splits)
  show "base (snd (cached get put compute r)) = base r"
    unfolding run using s put_base by (auto split: sum.splits)
qed

lemma lazy_dict_compute: "lazy_accessor zd (bindS (getColumnLocked zd i) (\<lambda>data. liftS (expandDict data)))"
  by (intro lazy_bindS lazy_getColumnLocked lazy_liftS)

text \<open>Storing into one cache leaves the others alone and \<open>base\<close> unchanged.\<close>

lemma base_updates [simp]:
  "base (r \<lparr> rd_pkgDict := a \<rparr>) = base r" "base (r \<lparr> rd_nameDict := a \<rparr>) = base r"
  "base (r \<lparr> rd_ruleTypeDict := a \<rparr>) = base r" "base (r \<lparr> rd_tagDict := a \<rparr>) = base r"
  "base (r \<lparr> rd_attrNameDict := a \<rparr>) = base r" "base (r \<lparr> rd_attrValDict := a \<rparr>) = base r"
  "base (r \<lparr> rd_pkgIDsCache := b \<rparr>) = base r" "base (r \<lparr> rd_nameIDsCache := b \<rparr>) = base r"
  "base (r \<lparr> rd_ruleTypeIDsCache := b \<rparr>) = base r" "base (r \<lparr> rd_blockStartsCache := b \<rparr>) = base r"
  "base (r \<lparr> rd_depDegs := b \<rparr>) = base r" "base (r \<lparr> rd_depByteOffset := c \<rparr>) = base r"
  "base (r \<lparr> rd_tagDegs := b \<rparr>) = base r" "base (r \<lparr> rd_tagByteOffset := c \<rparr>) = base r"
  "base (r \<lparr> rd_attrDegs := b \<rparr>) = base r" "base (r \<lparr> rd_attrNmOffset := c \<rparr>) = base r"
  "base (r \<lparr> rd_attrVlOffset := c \<rparr>) = base r"
  by (simp_all add: base_def)

interpretation pkgDict: lazy_accessor zd "ensurePkgDict zd" for zd
  unfolding ensurePkgDict_def ensureDict_def
  by (rule lazy_cached [OF lazy_dict_compute])
    (simp_all add: cache_ok_def holds_def ensurePkgDict_def ensureDict_def)

interpretation nameDict: lazy_accessor zd "ensureNameDict zd" for zd
  unfolding ensureNameDict_def ensureDict_def
  by (rule lazy_cached [OF lazy_dict_compute])
    (simp_all add: cache_ok_def holds_def ensureNameDict_def ensureDict_def)

interpretation ruleTypeDict: lazy_accessor zd "ensureRuleTypeDict zd" for zd
  unfolding ensureRuleTypeDict_def ensureDict_def
  by (rule lazy_cached [OF lazy_dict_compute])
    (simp_all add: cache_ok_def holds_def ensureRuleTypeDict_def ensureDict_def)

interpretation tagDict: lazy_accessor zd "ensureTagDict zd" for zd
  unfolding ensureTagDict_def ensureDict_def
  by (rule lazy_cached [OF lazy_dict_compute])
    (simp_all add: cache_ok_def holds_def ensureTagDict_def ensureDict_def)

interpretation attrNameDict: lazy_accessor zd "ensureAttrNameDict zd" for zd
  unfolding ensureAttrNameDict_def ensureDict_def
  by (rule lazy_cached [OF lazy_dict_compute])
    (simp_all add: cache_ok_def holds_def ensureAttrNameDict_def ensureDict_def)

interpretation attrValDict: lazy_accessor zd "ensureAttrValDict zd" for zd
  unfolding ensureAttrValDict_def ensureDict_def
  by (rule lazy_cached [OF lazy_dict_compute])
    (simp_all add: cache_ok_def holds_def ensureAttrValDict_def ensureDict_def)

interpretation pkgIDColumn: lazy_accessor zd "getPkgIDColumn zd" for zd
  unfolding getPkgIDColumn_def
  by (rule lazy_cached [OF lazy_bindS [OF column.lazy_accessor_axioms lazy_retS]])
    (simp_all add: cache_ok_def holds_def getPkgIDColumn_def)

interpretation nameIDColumn: lazy_accessor zd "getNameIDColumn zd" for zd
  unfolding getNameIDColumn_def
  by (rule lazy_cached [OF lazy_bindS [OF pkgIDColumn.lazy_accessor_axioms
        lazy_bindS [OF column.lazy_accessor_axioms lazy_retS]]])
    (simp_all add: cache_ok_def holds_def getNameIDColumn_def)

interpretation ruleTypeIDColumn: lazy_accessor zd "getRuleTypeIDColumn zd" for zd
  unfolding getRuleTypeIDColumn_def
  by (rule lazy_cached [OF lazy_bindS [OF column.lazy_accessor_axioms lazy_retS]])
    (simp_all add: cache_ok_def holds_def getRuleTypeIDColumn_def)

section \<open>Offset tables\<close>

lemma cachedTable_fresh:
  assumes "get (snd (columns (base r))) = []"
  shows "fst (cachedTable get columns stored compute put (base r)) = bindE (fst (columns (base r))) compute"
  using assms by (cases "columns (base r)")
    (auto simp: cachedTable_def bindS_def liftS_def bindE_def split: sum.splits)

lemma lazy_cachedTable:
  fixes columns :: "'b access"
  assumes columns: "lazy_accessor zd columns"
    and untouched: "\<And>r. get (snd (columns r)) = get r" "\<And>r. get (base r) = []"
    and put_base: "\<And>x r. base (put x r) = base r"
    and filled: "\<And>r a. cache_ok zd r \<Longrightarrow> get r \<noteq> [] \<Longrightarrow> fst (columns (base r)) = Inr a \<Longrightarrow> compute a = Inr (stored a r)"
    and put_ok: "\<And>x r. cache_ok zd r \<Longrightarrow> fst (cachedTable get columns stored compute put (base r)) = Inr x \<Longrightarrow> cache_ok zd (put x r)"
  shows "lazy_accessor zd (cachedTable get columns stored compute put)"
proof (unfold lazy_accessor_iff, intro allI impI)
  fix r
  assume ok: "cache_ok zd r"
  note fresh = cachedTable_fresh [of get columns r stored compute put]
  show "lazyAt zd (cachedTable get columns stored compute put) r"
    unfolding cachedTable_def
  proof (rule lazyAt_bindS [OF columns ok])
    fix a s
    assume a: "fst (columns (base r)) = Inr a" and s: "cache_ok zd s" "base s = base r"
    have f: "fst (cachedTable get columns stored compute put (base s)) = compute a"
      using fresh untouched a s by simp
    show "lazyAt zd (\<lambda>r. if get r \<noteq> [] then (Inr (stored a r), r)
        else bindS (liftS (compute a)) (\<lambda>x r. (Inr x, put x r)) r) s"
    proof (cases "get s = []")
      case True
      have "cache_ok zd (put x s)" if "compute a = Inr x" for x
        using put_ok [OF s(1)] f that by simp
      then show ?thesis
        using True untouched(2) s put_base by (cases "compute a") (simp_all add: lazyAt_def bindS_def liftS_def)
    next
      case False
      then have "compute a = Inr (stored a s)"
        using filled [OF s(1)] a s(2) by simp
      then show ?thesis
        using False untouched(2) s by (simp add: lazyAt_def bindS_def liftS_def)
    qed
  qed
qed

lemma getColumn_keeps_tables [simp]:
  "rd_depByteOffset (snd (getColumn zd i r)) = rd_depByteOffset r"
  "rd_tagByteOffset (snd (getColumn zd i r)) = rd_tagByteOffset r"
  "rd_attrNmOffset (snd (getColumn zd i r)) = rd_attrNmOffset r"
proof -
  obtain x s where "getColumn zd i r = (x, s)"
    by (cases "getColumn zd i r")
  then show "rd_depByteOffset (snd (getColumn zd i r)) = rd_depByteOffset r"
    "rd_tagByteOffset (snd (getColumn zd i r)) = rd_tagByteOffset r"
    "rd_attrNmOffset (snd (getColumn zd i r)) = rd_attrNmOffset r"
    using getColumn_cases [of zd i r x s] by auto
qed

lemma snd_bindS_keeps:
  "(\<And>r. get (snd (m r)) = get r) \<Longrightarrow> (\<And>x r. get (snd (f x r)) = get r) \<Longrightarrow> get (snd (bindS m f r)) = get r"
  by (cases "m r") (auto simp: bindS_def split: sum.splits dest: arg_cong [where f = "\<lambda>p. get (snd p)"])

lemma columns_keep_tables [simp]:
  "rd_depByteOffset (snd (twoColumns zd i j r)) = rd_depByteOffset r"
  "rd_tagByteOffset (snd (twoColumns zd i j r)) = rd_tagByteOffset r"
  "rd_attrNmOffset (snd (attrColumns zd r)) = rd_attrNmOffset r"
  unfolding twoColumns_def attrColumns_def
  by (intro snd_bindS_keeps getColumn_keeps_tables; simp add: retS_def)+

lemma lazy_twoColumns: "lazy_accessor zd (twoColumns zd i j)"
  unfolding twoColumns_def by (intro lazy_bindS column.lazy_accessor_axioms lazy_retS)

lemma lazy_attrColumns: "lazy_accessor zd (attrColumns zd)"
  unfolding attrColumns_def by (intro lazy_bindS column.lazy_accessor_axioms lazy_retS)

lemma offsetTable_data: "offsetTable rd cols = Inr (degs, offs, data) \<Longrightarrow> data = snd cols"
  by (auto simp: offsetTable_def bindE_eq_Inr split: prod.splits)

lemma attrTable_data: "attrTable cols = Inr (degs, nm, vl, data) \<Longrightarrow> data = snd cols"
  by (auto simp: attrTable_def bindE_eq_Inr split: prod.splits)

lemma tuple_eta:
  "\<exists>c. x = (fst x, fst (snd x), c)" "\<exists>c d. y = (fst y, fst (snd y), fst (snd (snd y)), c, d)"
  by (cases x, auto) (cases y, auto)

interpretation depOffsets: lazy_accessor zd "ensureDepOffsets zd" for zd
  unfolding ensureDepOffsets_def
proof (rule lazy_cachedTable [OF lazy_twoColumns])
  fix r a
  assume ok: "cache_ok zd r" "rd_depByteOffset r \<noteq> []" "fst (twoColumns zd colDeg colDeps (base r)) = Inr a"
  then obtain data where "fst (ensureDepOffsets zd (base r)) = Inr (rd_depDegs r, rd_depByteOffset r, data)"
    by (auto simp: cache_ok_def)
  then show "offsetTable (readDeps truncDeps) a = Inr (rd_depDegs r, rd_depByteOffset r, snd a)"
    using ok(3) offsetTable_data by (fastforce simp: ensureDepOffsets_def cachedTable_fresh)
qed (simp_all add: case_prod_beta cache_ok_def ensureDepOffsets_def tuple_eta)

interpretation tagOffsets: lazy_accessor zd "ensureTagOffsets zd" for zd
  unfolding ensureTagOffsets_def
proof (rule lazy_cachedTable [OF lazy_twoColumns])
  fix r a
  assume ok: "cache_ok zd r" "rd_tagByteOffset r \<noteq> []" "fst (twoColumns zd colTagDeg colTags (base r)) = Inr a"
  then obtain data where "fst (ensureTagOffsets zd (base r)) = Inr (rd_tagDegs r, rd_tagByteOffset r, data)"
    by (auto simp: cache_ok_def)
  then show "offsetTable (readTags truncTags) a = Inr (rd_tagDegs r, rd_tagByteOffset r, snd a)"
    using ok(3) offsetTable_data by (fastforce simp: ensureTagOffsets_def cachedTable_fresh)
qed (simp_all add: case_prod_beta cache_ok_def ensureTagOffsets_def tuple_eta)

interpretation attrOffsets: lazy_accessor zd "ensureAttrOffsets zd" for zd
  unfolding ensureAttrOffsets_def
proof (rule lazy_cachedTable [OF lazy_attrColumns])
  fix r a
  assume ok: "cache_ok zd r" "rd_attrNmOffset r \<noteq> []" "fst (attrColumns zd (base r)) = Inr a"
  then obtain nm vl where "fst (ensureAttrOffsets zd (base r)) = Inr (rd_attrDegs r, rd_attrNmOffset r, rd_attrVlOffset r, nm, vl)"
    by (auto simp: cache_ok_def)
  then show "attrTable a = Inr (rd_attrDegs r, rd_attrNmOffset r, rd_attrVlOffset r, snd a)"
    using ok(3) attrTable_data by (fastforce simp: ensureAttrOffsets_def cachedTable_fresh)
qed (simp_all add: case_prod_beta cache_ok_def ensureAttrOffsets_def tuple_eta)

section \<open>The accessors\<close>

lemmas lazy_intros = lazy_bindS lazy_retS lazy_liftS lazy_orElseS lazy_getColumnLocked
  column.lazy_accessor_axioms pkgDict.lazy_accessor_axioms nameDict.lazy_accessor_axioms
  ruleTypeDict.lazy_accessor_axioms tagDict.lazy_accessor_axioms attrNameDict.lazy_accessor_axioms
  attrValDict.lazy_accessor_axioms pkgIDColumn.lazy_accessor_axioms nameIDColumn.lazy_accessor_axioms
  ruleTypeIDColumn.lazy_accessor_axioms depOffsets.lazy_accessor_axioms tagOffsets.lazy_accessor_axioms
  attrOffsets.lazy_accessor_axioms

lemma lazy_prod_case: "(\<And>a b. lazy_accessor zd (f a b)) \<Longrightarrow> lazy_accessor zd (case p of (a, b) \<Rightarrow> f a b)"
  by (cases p) simp

lemma lazy_if: "lazy_accessor zd f \<Longrightarrow> lazy_accessor zd g \<Longrightarrow> lazy_accessor zd (if b then f else g)"
  by simp

lemma NodeCount_base [simp]: "NodeCount (base r) = NodeCount r"
  by (simp add: NodeCount_def)

lemma HashBytes_base [simp]: "HashBytes (base r) = HashBytes r"
  by (simp add: HashBytes_def)

lemma Hashes_base [simp]: "Hashes (base r) = Hashes r"
  by (simp add: Hashes_def split: option.split)

lemma lazy_sized:
  "(\<And>r. f r = f (base r)) \<Longrightarrow> (\<And>n. lazy_accessor zd (g n)) \<Longrightarrow> lazy_accessor zd (\<lambda>r. g (f r) r)"
  unfolding lazy_accessor_iff lazyAt_def by metis

interpretation packageID: lazy_accessor zd "PackageID zd node" for zd node
  unfolding PackageID_def by (intro lazy_intros)

interpretation nameID: lazy_accessor zd "NameID zd node" for zd node
  unfolding NameID_def by (intro lazy_intros)

interpretation splitLabel: lazy_accessor zd "SplitLabel zd node" for zd node
  unfolding SplitLabel_def
  by (intro lazy_intros packageID.lazy_accessor_axioms nameID.lazy_accessor_axioms)

interpretation label: lazy_accessor zd "Label zd node" for zd node
  unfolding Label_def
  by (intro lazy_intros packageID.lazy_accessor_axioms nameID.lazy_accessor_axioms)

lemma lazy_searchS: "(\<And>i. lazy_accessor zd (f i)) \<Longrightarrow> lazy_accessor zd (searchS f i j)"
proof (induction f i j rule: searchS.induct)
  case (1 f i j)
  show ?case
  proof (cases "i < j")
    case True
    then show ?thesis
      using 1 by (subst searchS.simps) (simp add: Let_def lazy_bindS lazy_if)
  next
    case False
    then show ?thesis
      by (subst searchS.simps) (simp add: lazy_retS)
  qed
qed

interpretation findNode: lazy_accessor zd "FindNode zd pkg name" for zd pkg name
  unfolding FindNode_def Let_def
  by (rule lazy_sized, simp)
    (intro lazy_bindS lazy_searchS lazy_if lazy_retS lazy_prod_case splitLabel.lazy_accessor_axioms)

interpretation flags: lazy_accessor zd "decodeFlags zd" for zd
  unfolding decodeFlags_def
  by (intro lazy_bindS column.lazy_accessor_axioms lazy_read) simp

interpretation hashEmpty: lazy_accessor zd "HashEmpty zd node" for zd node
  unfolding HashEmpty_def
  by (intro lazy_bindS lazy_orElseS flags.lazy_accessor_axioms lazy_prod_case lazy_retS)

interpretation hash: lazy_accessor zd "Hash zd node" for zd node
  unfolding Hash_def Let_def
  by (intro lazy_bindS lazy_if lazy_retS hashEmpty.lazy_accessor_axioms lazy_read) (simp cong: if_cong)

interpretation tagName: lazy_accessor zd "TagName zd i" for zd i
  unfolding TagName_def by (intro lazy_intros)

interpretation ruleType: lazy_accessor zd "RuleType zd node" for zd node
  unfolding RuleType_def by (intro lazy_intros lazy_if)

interpretation ruleTypeDictID: lazy_accessor zd "RuleTypeDictID zd name" for zd name
  unfolding RuleTypeDictID_def by (intro lazy_intros)

interpretation deps: lazy_accessor zd "Deps zd node buf" for zd node buf
  unfolding Deps_def by (intro lazy_intros lazy_prod_case)

interpretation tags: lazy_accessor zd "Tags zd node buf" for zd node buf
  unfolding Tags_def by (intro lazy_intros lazy_prod_case)

interpretation attrs: lazy_accessor zd "Attrs zd node" for zd node
  unfolding Attrs_def by (intro lazy_intros lazy_prod_case lazy_if)

interpretation depsCSR: lazy_accessor zd "DepsCSR zd" for zd
  unfolding DepsCSR_def by (intro lazy_intros lazy_prod_case)

interpretation hashEmptyBits: lazy_accessor zd "HashEmptyBits zd" for zd
  unfolding HashEmptyBits_def
  by (intro lazy_bindS flags.lazy_accessor_axioms lazy_prod_case lazy_retS)

text \<open>\<open>Root\<close> and \<open>External\<close> look at the result of \<open>getColumn\<close> themselves.\<close>

lemma lazy_result:
  assumes m: "lazy_accessor zd m" and g: "\<And>x r. g x r = g x (base r)"
  shows "lazy_accessor zd (\<lambda>r. (g (fst (m r)) r, snd (m r)))"
proof
  fix r
  assume ok: "cache_ok zd r"
  show "fst (g (fst (m r)) r, snd (m r)) = fst (g (fst (m (base r))) (base r), snd (m (base r)))"
    using lazy_accessor.same_result [OF m ok] g by simp
  show "cache_ok zd (snd (g (fst (m r)) r, snd (m r)))" "base (snd (g (fst (m r)) r, snd (m r))) = base r"
    using lazy_accessor.keeps_cache [OF m ok] lazy_accessor.keeps_base [OF m ok] by simp_all
qed

interpretation root: lazy_accessor zd "Root zd node" for zd node
proof -
  have "Root zd node = (\<lambda>r. (case fst (getColumn zd colFlags r) of Inl Panic \<Rightarrow> Inl Panic
      | Inl (Err _) \<Rightarrow> Inr False
      | Inr data \<Rightarrow> if length data < (NodeCount r + 7) div 8 then Inr False
          else if length data \<le> node div 8 then Inl Panic else Inr (testBit data node),
      snd (getColumn zd colFlags r)))"
    by (auto simp: Root_def split: prod.splits sum.splits tgb_error.splits)
  then show "lazy_accessor zd (Root zd node)"
    by (simp only:) (rule lazy_result [OF column.lazy_accessor_axioms], simp cong: sum.case_cong)
qed

interpretation external: lazy_accessor zd "External zd node" for zd node
proof -
  have "External zd node = (\<lambda>r. (case fst (getColumn zd colFlags r) of Inl Panic \<Rightarrow> Inl Panic
      | Inl (Err _) \<Rightarrow> Inr False
      | Inr data \<Rightarrow> if length data < (NodeCount r + 7) div 8 then Inl Panic
          else let extData = drop ((NodeCount r + 7) div 8) data in
            if length extData \<le> node div 8 then Inr False else Inr (testBit extData node),
      snd (getColumn zd colFlags r)))"
    by (auto simp: External_def Let_def split: prod.splits sum.splits tgb_error.splits)
  then show "lazy_accessor zd (External zd node)"
    by (simp only:) (rule lazy_result [OF column.lazy_accessor_axioms], simp add: Let_def cong: sum.case_cong if_cong)
qed

interpretation blockStart: lazy_accessor zd "BlockStart zd i" for zd i
proof (unfold lazy_accessor_iff, intro allI impI)
  fix r
  assume ok: "cache_ok zd r"
  show "lazyAt zd (BlockStart zd i) r"
    unfolding BlockStart_def
  proof (rule lazyAt_bindS [OF lazy_orElseS [OF column.lazy_accessor_axioms] ok])
    fix data s
    assume d: "fst (orElseS [] (getColumn zd colBlockStart) (base r)) = Inr data" and s: "cache_ok zd s" "base s = base r"
    let ?put = "\<lambda>d r. r \<lparr> rd_blockStartsCache := d \<rparr>"
    have get: "data \<noteq> [] \<Longrightarrow> fst (getColumn zd colBlockStart (base r)) = Inr data"
      using d by (auto simp: orElseS_def orElse_def case_prod_beta split: sum.splits tgb_error.splits)
    have "lazyAt zd (cached rd_blockStartsCache ?put (retS (decodeDeltaInts data))) t"
      if "data \<noteq> []" "cache_ok zd t" "base t = base r" for t
      using that get by (auto simp: lazyAt_def cached_def bindS_def retS_def cache_ok_def)
    then have "lazyAt zd (bindS (cached rd_blockStartsCache ?put (retS (decodeDeltaInts data)))
        (\<lambda>starts. retS (if length starts \<le> i then 0 else sint (starts ! i)))) s" if "data \<noteq> []"
      using that s by (force simp: lazyAt_def bindS_def retS_def split: prod.splits sum.splits)
    then show "lazyAt zd (if data = [] then retS 0
        else bindS (cached rd_blockStartsCache ?put (retS (decodeDeltaInts data)))
          (\<lambda>starts. retS (if length starts \<le> i then 0 else sint (starts ! i)))) s"
      using s by (simp add: lazyAt_def retS_def)
  qed
qed

interpretation fileHashes: lazy_accessor zd "AllTargetsFileHashes zd" for zd
proof -
  let ?g = "\<lambda>b. if b then (\<lambda>r. (Inr [], r))
    else bindS (getColumn zd colAllTargetsFileHashes) (\<lambda>data. liftS (decodeStringMap data))"
  have "AllTargetsFileHashes zd = (\<lambda>r. ?g (map_of (rd_cols r) colAllTargetsFileHashes = None) r)"
    by (auto simp: AllTargetsFileHashes_def)
  moreover have "lazy_accessor zd (\<lambda>r. ?g (map_of (rd_cols r) colAllTargetsFileHashes = None) r)"
    by (rule lazy_sized) (simp, intro lazy_if lazy_read lazy_intros, simp)
  ultimately show "lazy_accessor zd (AllTargetsFileHashes zd)"
    by simp
qed

interpretation allDicts: lazy_accessor zd "expandAllDicts zd" for zd
  unfolding expandAllDicts_def by (intro lazy_intros)

lemma lazy_forEachS: "(\<And>x. lazy_accessor zd (f x)) \<Longrightarrow> lazy_accessor zd (forEachS f xs)"
  by (induction xs) (simp_all add: lazy_retS lazy_bindS)

interpretation decompressAll: lazy_accessor zd "decompressAll zd" for zd
  unfolding decompressAll_def by (intro lazy_forEachS lazy_getColumnLocked)

lemma lazy_wrapped:
  "lazy_accessor zd m \<Longrightarrow> lazy_accessor zd (\<lambda>r. case m r of (x, r') \<Rightarrow> (wrapE msg x, r'))"
  using lazy_result [of zd m "\<lambda>x r. wrapE msg x"] by (simp add: case_prod_beta)

interpretation decodeGraph: lazy_accessor zd "DecodeGraph zd" for zd
  unfolding DecodeGraph_def decodePkgIDs_def decodeNameIDsCol_def decodeRuleTypeIDs_def decodeDepColumns_def
    decodeTagColumns_def decodeAttrColumns_def
  by (intro lazy_bindS lazy_prod_case allDicts.lazy_accessor_axioms decompressAll.lazy_accessor_axioms
      column.lazy_accessor_axioms lazy_liftS flags.lazy_accessor_axioms lazy_retS lazy_read lazy_wrapped
      fileHashes.lazy_accessor_axioms) simp_all

section \<open>Histories\<close>

text \<open>
  The states a reader can be in: the freshly opened one, and what any accessor leaves behind,
  whether it succeeds or fails.
\<close>

inductive reader_step :: "(nat \<Rightarrow> bytes \<Rightarrow> bytes option) \<Rightarrow> Reader \<Rightarrow> Reader \<Rightarrow> bool" for zd where
  step_Label: "reader_step zd r (snd (Label zd node r))"
| step_SplitLabel: "reader_step zd r (snd (SplitLabel zd node r))"
| step_FindNode: "reader_step zd r (snd (FindNode zd pkg name r))"
| step_Hash: "reader_step zd r (snd (Hash zd node r))"
| step_HashEmpty: "reader_step zd r (snd (HashEmpty zd node r))"
| step_HashEmptyBits: "reader_step zd r (snd (HashEmptyBits zd r))"
| step_TagName: "reader_step zd r (snd (TagName zd i r))"
| step_PackageID: "reader_step zd r (snd (PackageID zd node r))"
| step_NameID: "reader_step zd r (snd (NameID zd node r))"
| step_RuleType: "reader_step zd r (snd (RuleType zd node r))"
| step_RuleTypeIDs: "reader_step zd r (snd (RuleTypeIDs zd r))"
| step_RuleTypeDictID: "reader_step zd r (snd (RuleTypeDictID zd name r))"
| step_BlockStart: "reader_step zd r (snd (BlockStart zd k r))"
| step_Deps: "reader_step zd r (snd (Deps zd node buf r))"
| step_DepsCSR: "reader_step zd r (snd (DepsCSR zd r))"
| step_Tags: "reader_step zd r (snd (Tags zd node buf r))"
| step_Attrs: "reader_step zd r (snd (Attrs zd node r))"
| step_Root: "reader_step zd r (snd (Root zd node r))"
| step_External: "reader_step zd r (snd (External zd node r))"
| step_AllTargetsFileHashes: "reader_step zd r (snd (AllTargetsFileHashes zd r))"
| step_DecodeGraph: "reader_step zd r (snd (DecodeGraph zd r))"

lemma lazy_step_inv:
  "lazy_accessor zd f \<Longrightarrow> cache_ok zd r \<Longrightarrow> cache_ok zd (snd (f r)) \<and> base (snd (f r)) = base r"
  using lazy_accessor.keeps_cache lazy_accessor.keeps_base by blast

lemma reader_step_inv: "reader_step zd r r' \<Longrightarrow> cache_ok zd r \<Longrightarrow> cache_ok zd r' \<and> base r' = base r"
  unfolding reader_step.simps
  by (elim disjE exE conjE; hypsubst_thin; intro lazy_step_inv; (assumption | unfold RuleTypeIDs_def)?)
    (rule label.lazy_accessor_axioms splitLabel.lazy_accessor_axioms findNode.lazy_accessor_axioms
      hash.lazy_accessor_axioms hashEmpty.lazy_accessor_axioms hashEmptyBits.lazy_accessor_axioms
      tagName.lazy_accessor_axioms packageID.lazy_accessor_axioms nameID.lazy_accessor_axioms
      ruleType.lazy_accessor_axioms ruleTypeIDColumn.lazy_accessor_axioms ruleTypeDictID.lazy_accessor_axioms
      blockStart.lazy_accessor_axioms deps.lazy_accessor_axioms depsCSR.lazy_accessor_axioms
      tags.lazy_accessor_axioms attrs.lazy_accessor_axioms root.lazy_accessor_axioms
      external.lazy_accessor_axioms fileHashes.lazy_accessor_axioms decodeGraph.lazy_accessor_axioms)+

lemma reader_steps_inv:
  assumes "(reader_step zd)\<^sup>*\<^sup>* r r'" "cache_ok zd r"
  shows "cache_ok zd r' \<and> base r' = base r"
  using assms by (induction rule: rtranclp_induct) (auto dest: reader_step_inv)

lemma NewReader_fresh: "NewReader data = Inr r \<Longrightarrow> base r = r \<and> rd_data r = data"
  by (auto simp: NewReader_def bindE_eq_Inr Let_def freshReader_def base_def split: if_splits)

end
