(* ===== verification/TgbContainer.thy ===== *)
theory TgbContainer
  imports TgbLazy
begin

text \<open>
  Opening a blob that the encoder wrote: the directory is found, its entries are the columns in
  the order they were written, every column passes validation, and \<open>getColumn\<close> gives back the
  raw bytes of each column. The conditions are the limits the reader enforces: 1 GiB per column
  and a total raw size of at most 16 times the file (4 MiB for small files).
\<close>

section \<open>Layout\<close>

definition blobOf :: "fileHeader \<Rightarrow> (rawCol \<times> bytes) list \<Rightarrow> bytes" where
  "blobOf h rs =
    (let entries = assignOffsets (of_nat headerSize) rs; body = concat (map snd rs);
         dirBytes = encodeDirectory entries
     in encodeHeader h @ body @ dirBytes @
        encodeFooter \<lparr> dirOffset = of_nat (headerSize + length body), dirCRC = crc32_checksum dirBytes \<rparr>)"

lemma writeBlob_eq:
  "writeBlob zc e = blobOf (encHeader e) (map (\<lambda>rc. (rc, compressCol (zc (zstdLevel (e_opts e))) rc)) (rawCols e))"
  by (simp add: writeBlob_def blobOf_def Let_def)

lemma length_assignOffsets [simp]: "length (assignOffsets off rs) = length rs"
  by (induction off rs rule: assignOffsets.induct) auto

lemma map_id_assignOffsets: "map ce_id (assignOffsets off rs) = map (rc_id \<circ> fst) rs"
  by (induction off rs rule: assignOffsets.induct) auto

text \<open>A directory entry that describes a column and points at its stored bytes, between \<open>lo\<close> and \<open>hi\<close>.\<close>

definition placed :: "bytes \<Rightarrow> nat \<Rightarrow> nat \<Rightarrow> colEntry \<Rightarrow> rawCol \<times> bytes \<Rightarrow> bool" where
  "placed blob lo hi e rc \<longleftrightarrow> ce_id e = rc_id (fst rc) \<and> ce_codec e = rc_codec (fst rc) \<and>
     ce_rawSize e = of_nat (length (rc_data (fst rc))) \<and> ce_compressedSize e = of_nat (length (snd rc)) \<and>
     go_slice blob (unat (ce_offset e)) (unat (ce_offset e + ce_compressedSize e)) = Some (snd rc) \<and>
     lo \<le> unat (ce_offset e) \<and> unat (ce_offset e + ce_compressedSize e) = unat (ce_offset e) + length (snd rc) \<and>
     unat (ce_offset e) + length (snd rc) \<le> hi"

lemma assignOffsets_placed:
  assumes "blob = pre @ concat (map snd rs) @ post" "length blob < 2 ^ 63"
    and "lo \<le> length pre" "length pre + length (concat (map snd rs)) \<le> hi"
  shows "list_all2 (placed blob lo hi) (assignOffsets (of_nat (length pre)) rs) rs"
  using assms
proof (induction rs arbitrary: pre)
  case (Cons rc rs)
  obtain c cb where rc: "rc = (c, cb)"
    by (cases rc)
  have lens: "length pre < 2 ^ 63" "length pre + length cb < 2 ^ 63"
    using Cons.prems(1,2) rc by auto
  have u: "unat (of_nat (length pre) :: u64) = length pre"
    using unat_of_nat_64 [OF lens(1)] .
  have v: "unat (of_nat (length pre) + of_nat (length cb) :: u64) = length pre + length cb"
    using unat_of_nat_64 [OF lens(2)] by simp
  have "go_slice blob (length pre) (length pre + length cb) = Some cb"
    using Cons.prems(1) rc go_slice_append [of pre cb "concat (map snd rs) @ post"] by simp
  moreover have "list_all2 (placed blob lo hi) (assignOffsets (of_nat (length (pre @ cb))) rs) rs"
    using Cons.prems rc by (intro Cons.IH) auto
  ultimately show ?case
    using rc u v Cons.prems(3,4) by (simp add: placed_def [where rc = "(c, cb)"])
qed simp

lemma collectCols_distinct:
  "distinct (map fst cols @ map ce_id es) \<Longrightarrow> collectCols cols es = Inr (cols @ map (\<lambda>e. (ce_id e, e)) es)"
proof (induction es arbitrary: cols)
  case (Cons e es)
  have "map_of cols (ce_id e) = None"
    using Cons.prems by (auto simp: map_of_eq_None_iff)
  then show ?case
    using Cons.IH [of "cols @ [(ce_id e, e)]"] Cons.prems by auto
qed simp

text \<open>The columns of the directory of a written blob.\<close>

definition colsOf :: "(rawCol \<times> bytes) list \<Rightarrow> (u64, colEntry) gomap" where
  "colsOf rs = map (\<lambda>e. (ce_id e, e)) (assignOffsets (of_nat headerSize) rs)"

text \<open>Reading the directory back; what is left to \<open>NewReader\<close> is the validation.\<close>

lemma NewReader_blobOf:
  assumes "hashBytes h \<in> {8, 16, 20}" "length (blobOf h rs) < 2 ^ 63" "length rs \<le> 64"
    and "distinct (map (rc_id \<circ> fst) rs)"
  shows "NewReader (blobOf h rs) =
    bindE (validateColumns h (colsOf rs) (of_nat (length (blobOf h rs))) (of_nat (headerSize + length (concat (map snd rs)))))
      (\<lambda>_. Inr (freshReader (blobOf h rs) h (colsOf rs)))"
proof -
  let ?body = "concat (map snd rs)" and ?dir = "encodeDirectory (assignOffsets (of_nat headerSize) rs)"
  let ?ftr = "\<lparr> dirOffset = of_nat (headerSize + length ?body), dirCRC = crc32_checksum ?dir \<rparr>"
  let ?blob = "blobOf h rs"
  have blob: "?blob = encodeHeader h @ ?body @ ?dir @ encodeFooter ?ftr"
    by (simp add: blobOf_def Let_def)
  have len: "length ?blob = headerSize + length ?body + length ?dir + footerSize"
    by (simp add: blob)
  have hdr: "decodeHeader (take headerSize ?blob) = Inr h"
    using assms(1) by (simp add: blob decodeHeader_encodeHeader)
  have ftr: "drop (length ?blob - footerSize) ?blob = encodeFooter ?ftr"
    by (simp add: blob)
  have off: "unat (of_nat (headerSize + length ?body) :: u64) = headerSize + length ?body"
    using assms(2) len by (intro unat_of_nat_64) simp
  have dirEnd: "length ?blob - footerSize = headerSize + length ?body + length ?dir"
    using len by simp
  have "unat (of_nat (headerSize + length ?body + length ?dir) :: u64) = headerSize + length ?body + length ?dir"
    using assms(2) len by (intro unat_of_nat_64) simp
  then have range: "\<not> (of_nat (headerSize + length ?body + length ?dir) :: u64) < of_nat (headerSize + length ?body)"
    using off by (simp add: word_less_nat_alt del: of_nat_add)
  have dirData: "take (headerSize + length ?body + length ?dir - (headerSize + length ?body)) (drop (headerSize + length ?body) ?blob) = ?dir"
    by (simp add: blob)
  have dir: "decodeDirectory ?dir = Inr (assignOffsets (of_nat headerSize) rs)"
    using decodeDirectory_encodeDirectory [of "assignOffsets (of_nat headerSize) rs" "[]"] assms(3) by simp
  have cols: "collectCols [] (assignOffsets (of_nat headerSize) rs) = Inr (colsOf rs)"
    using assms(4) by (subst collectCols_distinct) (simp_all add: map_id_assignOffsets colsOf_def)
  have "\<not> length ?blob < headerSize + footerSize"
    using len by simp
  then show ?thesis
    unfolding NewReader_def Let_def
    using hdr ftr dirEnd off range dirData dir cols
    by (simp add: decodeFooter_encodeFooter del: of_nat_add)
qed

section \<open>Compression\<close>

text \<open>
  What the codec relies on of the zstd library: a frame is never empty, it decompresses to what
  was compressed under any memory cap that admits the data and the 8 MiB window, and decoding
  an empty input gives an empty output.
\<close>

definition zstd_ok :: "(int \<Rightarrow> bytes \<Rightarrow> bytes) \<Rightarrow> (nat \<Rightarrow> bytes \<Rightarrow> bytes option) \<Rightarrow> bool" where
  "zstd_ok zc zd \<longleftrightarrow> (\<forall>m. zd m [] = Some []) \<and>
     (\<forall>level x m. x \<noteq> [] \<and> length x \<le> m \<and> 8 * 2 ^ 20 \<le> m \<longrightarrow> zc level x \<noteq> [] \<and> zd m (zc level x) = Some x)"

lemma zstd_okD:
  assumes "zstd_ok zc zd"
  shows "zd m [] = Some []"
    "x \<noteq> [] \<Longrightarrow> zc level x \<noteq> []"
    "x \<noteq> [] \<Longrightarrow> length x \<le> m \<Longrightarrow> 8 * 2 ^ 20 \<le> m \<Longrightarrow> zd m (zc level x) = Some x"
proof -
  show "x \<noteq> [] \<Longrightarrow> zc level x \<noteq> []"
    using assms unfolding zstd_ok_def by (metis max.cobounded1 max.cobounded2)
qed (use assms in \<open>auto simp: zstd_ok_def\<close>)

text \<open>A column as the encoder stores it, within the 1 GiB limit.\<close>

definition stored_ok :: "(bytes \<Rightarrow> bytes) \<Rightarrow> rawCol \<times> bytes \<Rightarrow> bool" where
  "stored_ok zc rc \<longleftrightarrow> rc_codec (fst rc) \<in> {codecRaw, codecZstd} \<and> snd rc = compressCol zc (fst rc) \<and>
     length (rc_data (fst rc)) \<le> 2 ^ 30"

lemma codec_distinct [simp]: "codecRaw \<noteq> codecZstd" "codecZstd \<noteq> codecRaw"
  by (simp_all add: codecRaw_def codecZstd_def)

lemma unat_rawSize: "n \<le> 2 ^ 30 \<Longrightarrow> unat (of_nat n :: u64) = n"
  by (rule unat_of_nat_64) simp

lemma unat_maxColumnRawSize: "unat maxColumnRawSize = 2 ^ 30"
  by (simp add: maxColumnRawSize_def)

lemma validateColumn_placed:
  assumes "placed blob headerSize hi e rc" "stored_ok (zc level) rc" "hi < 2 ^ 63" "zstd_ok zc zd"
  shows "validateColumn (of_nat hi) e = Inr ()"
proof -
  have p: "unat (ce_offset e + ce_compressedSize e) = unat (ce_offset e) + length (snd rc)"
    "headerSize \<le> unat (ce_offset e)" "unat (ce_offset e) + length (snd rc) \<le> hi"
    "ce_rawSize e = of_nat (length (rc_data (fst rc)))" "ce_compressedSize e = of_nat (length (snd rc))"
    "ce_codec e = rc_codec (fst rc)"
    using assms(1) by (auto simp: placed_def)
  have raw: "unat (ce_rawSize e) = length (rc_data (fst rc))" "length (rc_data (fst rc)) \<le> 2 ^ 30"
    using assms(2) p(4) by (auto simp: stored_ok_def unat_rawSize)
  have size: "length (snd rc) < 2 ^ 63"
    using p(3) assms(3) by linarith
  have span: "\<not> (ce_offset e + ce_compressedSize e < ce_offset e \<or> ce_offset e < of_nat headerSize \<or>
      of_nat hi < ce_offset e + ce_compressedSize e)"
    using p(1,2,3) unat_of_nat_64 [OF assms(3)] by (simp add: word_less_nat_alt headerSize_def)
  have "ce_codec e = codecZstd \<Longrightarrow> 0 < ce_rawSize e \<Longrightarrow> ce_compressedSize e \<noteq> 0"
  proof -
    assume a: "ce_codec e = codecZstd" "0 < ce_rawSize e"
    then have "rc_data (fst rc) \<noteq> []"
      using p(4) by auto
    then have "snd rc \<noteq> []"
      using assms(2,4) a(1) p(6) by (auto simp: stored_ok_def compressCol_def dest: zstd_okD(2))
    then have "unat (ce_compressedSize e) \<noteq> 0"
      using p(5) unat_of_nat_64 [OF size] by simp
    then show ?thesis by auto
  qed
  moreover have "ce_codec e = codecRaw \<Longrightarrow> ce_rawSize e = ce_compressedSize e"
    using assms(2) p(4,5,6) by (simp add: stored_ok_def compressCol_def)
  moreover have "ce_codec e = codecRaw \<or> ce_codec e = codecZstd"
    using assms(2) p(6) by (auto simp: stored_ok_def)
  moreover have "\<not> maxColumnRawSize < ce_rawSize e"
    using raw by (simp add: word_less_nat_alt unat_maxColumnRawSize)
  ultimately show ?thesis
    using span by (auto simp: validateColumn_def Let_def)
qed

lemma map_of_colsOf:
  assumes "distinct (map (rc_id \<circ> fst) rs)" "rc \<in> set rs"
    and "list_all2 (placed blob lo hi) (assignOffsets (of_nat headerSize) rs) rs"
  shows "\<exists>e. map_of (colsOf rs) (rc_id (fst rc)) = Some e \<and> placed blob lo hi e rc"
proof -
  obtain j where j: "j < length rs" "rs ! j = rc"
    using assms(2) by (auto simp: in_set_conv_nth)
  let ?e = "assignOffsets (of_nat headerSize) rs ! j"
  have p: "placed blob lo hi ?e rc"
    using assms(3) j by (auto simp: list_all2_conv_all_nth)
  have "distinct (map fst (colsOf rs))"
    using assms(1) by (simp add: colsOf_def comp_def map_id_assignOffsets [unfolded comp_def])
  moreover have "(ce_id ?e, ?e) \<in> set (colsOf rs)"
    using j by (force simp: colsOf_def in_set_conv_nth)
  ultimately have "map_of (colsOf rs) (ce_id ?e) = Some ?e"
    by (rule map_of_is_SomeI)
  then show ?thesis
    using p by (auto simp: placed_def)
qed

lemma map_of_colsOf_None: "i \<notin> set (map (rc_id \<circ> fst) rs) \<Longrightarrow> map_of (colsOf rs) i = None"
proof -
  assume "i \<notin> set (map (rc_id \<circ> fst) rs)"
  then have "i \<notin> set (map ce_id (assignOffsets (of_nat headerSize) rs))"
    by (simp add: map_id_assignOffsets)
  then show ?thesis
    by (auto simp: colsOf_def map_of_eq_None_iff)
qed

text \<open>Reading a column of a written blob gives its raw bytes.\<close>

lemma getColumn_written:
  assumes "rd_decompressed r (rc_id (fst rc)) = None" "map_of (rd_cols r) (rc_id (fst rc)) = Some e"
    and "placed (rd_data r) lo hi e rc" "stored_ok (zc level) rc" "zstd_ok zc zd"
  shows "fst (getColumn zd (rc_id (fst rc)) r) = Inr (rc_data (fst rc))"
proof -
  have p: "go_slice (rd_data r) (unat (ce_offset e)) (unat (ce_offset e + ce_compressedSize e)) = Some (snd rc)"
    "ce_codec e = rc_codec (fst rc)" "ce_rawSize e = of_nat (length (rc_data (fst rc)))"
    using assms(3) by (auto simp: placed_def)
  have s: "snd rc = compressCol (zc level) (fst rc)" "length (rc_data (fst rc)) \<le> 2 ^ 30"
    using assms(4) by (auto simp: stored_ok_def)
  have "decompressZstd zd (snd rc) (ce_rawSize e) = Some (rc_data (fst rc))" if "rc_codec (fst rc) = codecZstd"
    using that s p(3) zstd_okD [OF assms(5)] unat_rawSize [OF s(2)]
    by (auto simp: decompressZstd_def compressCol_def max_def)
  moreover have "rc_codec (fst rc) \<noteq> codecZstd \<Longrightarrow> snd rc = rc_data (fst rc)"
    using s(1) by (simp add: compressCol_def)
  ultimately show ?thesis
    using assms(1,2) p by (simp add: getColumn_def getColumnLocked_def Let_def)
qed

lemma getColumn_absent:
  "rd_decompressed r i = None \<Longrightarrow> map_of (rd_cols r) i = None \<Longrightarrow> fst (getColumn zd i r) = Inr []"
  by (simp add: getColumn_def getColumnLocked_def)

end
