(* ===== verification/TgbEncoder.thy ===== *)
theory TgbEncoder
  imports TgbContainer
begin

text \<open>
  What the encoder computes. The sharded pass equals the sequential one for every number of
  processors; a successful run leaves the column fields that correspond to one \<open>nodeOut\<close> per
  node; the node order, the dictionaries and the ID resolver are characterized; and the blob
  it writes opens.
\<close>

section \<open>Sharding\<close>

lemma concat_shardsOf: "0 < k \<Longrightarrow> concat (shardsOf k xs) = xs"
proof (induction k xs rule: shardsOf.induct)
  case (1 k xs)
  then show ?case
    by (subst shardsOf.simps) simp
qed

lemma mapE_concat:
  "bindE (mapE (\<lambda>out. out) (map (mapE f) xss)) (\<lambda>yss. Inr (concat yss)) = mapE f (concat xss)"
proof (induction xss)
  case (Cons xs xss)
  show ?case
    by (cases "mapE f xs"; cases "mapE (\<lambda>out. out) (map (mapE f) xss)")
      (use Cons.IH [symmetric] in \<open>auto simp: mapE_append\<close>)
qed simp

lemma runShards_eq: "runShards procs f xs = mapE f xs"
proof (cases "xs = []")
  case True
  then show ?thesis
    by (simp add: runShards_def shardsOf.simps)
next
  case False
  then have "0 < shardLen procs (length xs)"
    by (simp add: shardLen_def Let_def)
  then show ?thesis
    by (simp add: runShards_def Let_def mapE_concat concat_shardsOf)
qed

section \<open>Node order\<close>

interpretation nodeSort: go_sort nodeKey nodeCmp "sort_key nodeKey"
proof
  show "nodeCmp a b \<le> 0 \<longleftrightarrow> nodeKey a \<le> nodeKey b" for a b
    by (auto simp: nodeCmp_def strings_Compare_def Let_def less_eq_prod_def)
qed simp_all

lemma buildNodes_Inr:
  assumes "buildNodes procs e = Inr e'"
  shows "\<exists>nodes. mapE (mkNode (g_Metadata (e_g e))) (enumerate 0 (g_Targets (e_g e))) = Inr nodes \<and>
    e' = e \<lparr> e_nodes := e_nodes e' \<rparr> \<and> mset (e_nodes e') = mset nodes \<and> sorted (map nodeKey (e_nodes e'))"
proof -
  obtain nodes where "mapE (mkNode (g_Metadata (e_g e))) (enumerate 0 (g_Targets (e_g e))) = Inr nodes"
      "e' = e \<lparr> e_nodes := parallelSortFunc (sort_key nodeKey) nodeCmp procs nodes \<rparr>"
    using assms by (auto simp: buildNodes_def bindE_eq_Inr)
  then show ?thesis
    using nodeSort.parallelSort_perm [of procs nodes] nodeSort.parallelSort_sorted [of procs nodes] by auto
qed

text \<open>A node describes the target it came from.\<close>

definition node_of :: "Graph \<Rightarrow> nodeInfo \<Rightarrow> bool" where
  "node_of g n \<longleftrightarrow> ni_origIdx n < length (g_Targets g) \<and> ni_origID n = ot_ID (g_Targets g ! ni_origIdx n) \<and>
     map_of (md_TargetIDMapping (g_Metadata g)) (ni_origID n) = Some (ni_label n) \<and>
     splitLabel (ni_label n) = (ni_pkg n, ni_name n)"

lemma mkNode_Inr:
  assumes "mkNode (g_Metadata g) (i, g_Targets g ! i) = Inr n" "i < length (g_Targets g)"
  shows "node_of g n \<and> ni_origIdx n = i"
proof -
  obtain label where l: "map_of (md_TargetIDMapping (g_Metadata g)) (ot_ID (g_Targets g ! i)) = Some label"
    using assms(1) by (auto simp: mkNode_def split: option.splits)
  obtain pkg name where "splitLabel label = (pkg, name)"
    by (cases "splitLabel label")
  with l have "n = \<lparr> ni_label = label, ni_pkg = pkg, ni_name = name, ni_origIdx = i, ni_origID = ot_ID (g_Targets g ! i) \<rparr>"
    "splitLabel label = (pkg, name)"
    using assms(1) by (simp_all add: mkNode_def)
  then show ?thesis
    using l assms(2) by (simp add: node_of_def)
qed

lemma mkNode_nodes:
  assumes "mapE (mkNode (g_Metadata g)) (enumerate 0 (g_Targets g)) = Inr nodes"
  shows "length nodes = length (g_Targets g) \<and> (\<forall>i < length nodes. node_of g (nodes ! i) \<and> ni_origIdx (nodes ! i) = i)"
proof -
  have len: "length nodes = length (g_Targets g)"
    using mapE_Inr_length [OF assms] by simp
  have "mkNode (g_Metadata g) (i, g_Targets g ! i) = Inr (nodes ! i)" if "i < length nodes" for i
    using assms that len by (simp add: mapE_eq_Inr nth_enumerate_eq)
  then show ?thesis
    using len mkNode_Inr by metis
qed

section \<open>Dictionaries\<close>

lemma sorted_remdups_adj_distinct: "sorted (xs :: 'a::linorder list) \<Longrightarrow> distinct (remdups_adj xs)"
proof (induction xs rule: remdups_adj.induct)
  case (3 x y xs)
  then show ?case
    by (cases "x = y") (auto dest: order_antisym)
qed auto

text \<open>A lookup in the index of a dictionary without duplicates is the position.\<close>

lemma strIndex_loop_notin: "s \<notin> set strs \<Longrightarrow> strIndex_loop i strs m s = m s"
  by (induction i strs m rule: strIndex_loop.induct) auto

lemma strIndex_loop_nth:
  "distinct strs \<Longrightarrow> j < length strs \<Longrightarrow> strIndex_loop i strs m (strs ! j) = Some (of_nat (i + j))"
proof (induction i strs m arbitrary: j rule: strIndex_loop.induct)
  case (2 i s strs m)
  show ?case
  proof (cases j)
    case 0
    then show ?thesis
      using "2.prems" by (simp add: strIndex_loop_notin)
  next
    case (Suc j')
    then show ?thesis
      using "2.IH" [of j'] "2.prems" by (simp add: fun_upd_def)
  qed
qed simp

lemma buildStrIndex_nth: "distinct strs \<Longrightarrow> j < length strs \<Longrightarrow> buildStrIndex strs (strs ! j) = Some (of_nat j)"
  by (simp add: buildStrIndex_def strIndex_loop_nth)

text \<open>Position of a string in a dictionary, as the encoder stores it.\<close>

definition dict_pos :: "string list \<Rightarrow> string \<Rightarrow> i32 \<Rightarrow> bool" where
  "dict_pos dict s i \<longleftrightarrow> 0 \<le> sint i \<and> nat (sint i) < length dict \<and> dict ! nat (sint i) = s"

lemma dict_pos_buildStrIndex:
  assumes "distinct dict" "s \<in> set dict" "length dict < 2 ^ 31"
  shows "\<exists>i. buildStrIndex dict s = Some i \<and> dict_pos dict s i"
proof -
  obtain j where j: "j < length dict" "dict ! j = s"
    using assms(2) by (auto simp: in_set_conv_nth)
  then have "sint (of_nat j :: i32) = int j"
    using assms(3) by (intro sint_of_nat_32) linarith
  then show ?thesis
    using j buildStrIndex_nth [OF assms(1) j(1)] by (simp add: dict_pos_def)
qed

lemma sortedUniqueStrings_props:
  "distinct (sortedUniqueStrings m)" "set (sortedUniqueStrings m) = snd ` set m" "sorted (sortedUniqueStrings m)"
  by (simp_all add: sortedUniqueStrings_def sorted_remdups_adj_distinct)

text \<open>An ID of a mapping is remapped to the position of its string.\<close>

lemma remapTable_Some:
  assumes "remapTable m (buildStrIndex (sortedUniqueStrings m)) k = Some i" "length (sortedUniqueStrings m) < 2 ^ 31"
  shows "\<exists>s. map_of m k = Some s \<and> dict_pos (sortedUniqueStrings m) s i"
proof -
  obtain s where s: "map_of m k = Some s" "i = lookup0 (buildStrIndex (sortedUniqueStrings m)) s"
    using assms(1) by (auto simp: remapTable_def map_of_map)
  then have "s \<in> set (sortedUniqueStrings m)"
    using sortedUniqueStrings_props(2) map_of_SomeD by force
  then show ?thesis
    using dict_pos_buildStrIndex [OF sortedUniqueStrings_props(1) _ assms(2)] s by (fastforce simp: lookup0_def)
qed

lemma remapTable_None: "remapTable m idx k = None \<longleftrightarrow> map_of m k = None"
  by (auto simp: remapTable_def map_of_map)

section \<open>Packages\<close>

text \<open>
  The package runs. With \<open>pre\<close> the packages met so far, every node's ID is the position of its
  package in the dictionary.
\<close>

lemma pkgRuns_pos:
  assumes "prev = (if pre = [] then None else Some (last pre))"
    and "pkgRuns prev (of_nat (length pre) - 1) ns = (dict, ids)"
  shows "\<exists>js. ids = map of_nat js \<and> length js = length ns \<and>
    (\<forall>i < length ns. js ! i < length (pre @ dict) \<and> (pre @ dict) ! (js ! i) = ni_pkg (ns ! i))"
  using assms
proof (induction ns arbitrary: prev pre dict ids)
  case (Cons n ns)
  show ?case
  proof (cases "prev = Some (ni_pkg n)")
    case True
    then obtain ids' where ids: "ids = (of_nat (length pre) - 1) # ids'"
        "pkgRuns prev (of_nat (length pre) - 1) ns = (dict, ids')"
      using Cons.prems(2) by (auto split: prod.splits)
    obtain js where js: "ids' = map of_nat js" "length js = length ns"
        "\<forall>i < length ns. js ! i < length (pre @ dict) \<and> (pre @ dict) ! (js ! i) = ni_pkg (ns ! i)"
      using Cons.IH [OF Cons.prems(1) ids(2)] by blast
    have pre: "pre \<noteq> []" "last pre = ni_pkg n"
      using True Cons.prems(1) by (auto split: if_splits)
    then have "(of_nat (length pre) - 1 :: i32) = of_nat (length pre - 1)"
      by (simp add: of_nat_diff Suc_le_eq)
    moreover have "length pre - 1 < length pre"
      using pre(1) by simp
    moreover from this have "(pre @ dict) ! (length pre - 1) = ni_pkg n"
      using pre by (simp add: nth_append last_conv_nth)
    ultimately show ?thesis
      using ids js by (intro exI [of _ "(length pre - 1) # js"]) (simp add: All_less_Suc2)
  next
    case False
    then obtain dict' ids' where ids: "ids = of_nat (length pre) # ids'" "dict = ni_pkg n # dict'"
        "pkgRuns (Some (ni_pkg n)) (of_nat (length pre)) ns = (dict', ids')"
      using Cons.prems(2) by (auto split: prod.splits)
    have "pkgRuns (Some (ni_pkg n)) (of_nat (length (pre @ [ni_pkg n])) - 1) ns = (dict', ids')"
      using ids(3) by simp
    from Cons.IH [OF _ this] obtain js where js: "ids' = map of_nat js" "length js = length ns"
        "\<forall>i < length ns. js ! i < length ((pre @ [ni_pkg n]) @ dict') \<and> ((pre @ [ni_pkg n]) @ dict') ! (js ! i) = ni_pkg (ns ! i)"
      by auto
    have "(pre @ dict) ! length pre = ni_pkg n"
      using ids(2) by simp
    then show ?thesis
      using ids js by (intro exI [of _ "length pre # js"]) (simp add: All_less_Suc2)
  qed
qed simp

lemma length_pkgRuns_dict: "length (fst (pkgRuns prev cur ns)) \<le> length ns"
  by (induction prev cur ns rule: pkgRuns.induct) (auto split: prod.splits)

lemma pkgRuns_dict_pos:
  assumes "pkgRuns None (- 1) ns = (dict, ids)" "length ns < 2 ^ 31"
  shows "length ids = length ns \<and> (\<forall>i < length ns. dict_pos dict (ni_pkg (ns ! i)) (ids ! i))"
proof -
  obtain js where js: "ids = map of_nat js" "length js = length ns"
      "\<forall>i < length ns. js ! i < length dict \<and> dict ! (js ! i) = ni_pkg (ns ! i)"
    using pkgRuns_pos [of None "[]" ns dict ids] assms(1) by auto
  have "length dict < 2 ^ 31"
    using length_pkgRuns_dict [of None "- 1" ns] assms by simp
  then have "sint (of_nat (js ! i) :: i32) = int (js ! i)" if "i < length ns" for i
    using js(3) that by (intro sint_of_nat_32) force
  then show ?thesis
    using js by (auto simp: dict_pos_def)
qed

section \<open>Resolving dependency IDs\<close>

lemma foldl_enumerate_snoc: "foldl f a (enumerate k (xs @ [x])) = f (foldl f a (enumerate k xs)) (k + length xs, x)"
  by (simp add: enumerate_append_eq)

lemma idMap_Some:
  "idMap nodes i = Some v \<Longrightarrow> \<exists>j < length nodes. v = of_nat j \<and> ni_origID (nodes ! j) = i"
proof (induction nodes rule: rev_induct)
  case (snoc n ns)
  then show ?case
    unfolding idMap_def foldl_enumerate_snoc
    by (fastforce simp: nth_append split: if_splits intro: less_SucI)
qed (simp add: idMap_def)

lemma idSlice_entry:
  defines "upd \<equiv> \<lambda>s (i, n). if 0 \<le> sint (ni_origID n) then s[nat (sint (ni_origID n)) := of_nat i] else s"
  assumes "k < length s0" "foldl upd s0 (enumerate 0 nodes) ! k = v" "v \<noteq> s0 ! k"
  shows "\<exists>j < length nodes. v = of_nat j \<and> sint (ni_origID (nodes ! j)) = int k"
  using assms(3,4)
proof (induction nodes rule: rev_induct)
  case (snoc n ns)
  have len: "length (foldl upd s0 xs) = length s0" for xs
    by (induction xs arbitrary: s0) (auto simp: upd_def)
  show ?case
  proof (cases "0 \<le> sint (ni_origID n) \<and> nat (sint (ni_origID n)) = k")
    case True
    then have "v = of_nat (length ns)"
      using snoc.prems(1) len assms(2) unfolding foldl_enumerate_snoc by (simp add: upd_def)
    then show ?thesis
      using True by (intro exI [of _ "length ns"]) auto
  next
    case False
    then have "foldl upd s0 (enumerate 0 ns) ! k = v"
      using snoc.prems(1) unfolding foldl_enumerate_snoc by (auto simp: upd_def nth_list_update)
    then obtain j where "j < length ns" "v = of_nat j" "sint (ni_origID (ns ! j)) = int k"
      using snoc.IH snoc.prems(2) by blast
    then show ?thesis
      by (intro exI [of _ j]) (simp add: nth_append)
  qed
qed simp

lemma resolveID_sound:
  assumes "resolveID nodes depID = Some v"
  shows "\<exists>j < length nodes. v = of_nat j \<and> ni_origID (nodes ! j) = depID"
proof (cases "sint (maxOrigID nodes) < 2 * int (length nodes) + 16")
  case True
  let ?k = "nat (sint depID)" and ?s = "idSlice nodes"
  have r: "0 \<le> sint depID" "sint depID < int (length ?s)" "0 \<le> sint (?s ! ?k)" "v = ?s ! ?k"
    using assms True by (auto simp: resolveID_def Let_def split: if_splits)
  let ?init = "replicate (nat (sint (maxOrigID nodes)) + 1) (- 1 :: i32)"
  have "length (foldl (\<lambda>s (i, n). if 0 \<le> sint (ni_origID n) then s[nat (sint (ni_origID n)) := of_nat i] else s) s xs) = length s"
    for s :: "i32 list" and xs :: "(nat \<times> nodeInfo) list"
    by (induction xs arbitrary: s) auto
  then have len: "length ?s = length ?init"
    by (simp only: idSlice_def)
  have "?k < length ?s"
    using r(1,2) by linarith
  then have k: "?k < length ?init"
    unfolding len .
  have "?s ! ?k \<noteq> ?init ! ?k"
  proof -
    have "?init ! ?k = - 1"
      using k by (metis length_replicate nth_replicate)
    then show ?thesis
      using r(3) by auto
  qed
  then obtain j where "j < length nodes" "?s ! ?k = of_nat j" "sint (ni_origID (nodes ! j)) = int ?k"
    using idSlice_entry [OF k refl, of nodes] by (auto simp: idSlice_def)
  then show ?thesis
    using r by (intro exI [of _ j]) (simp add: signed_word_eqI)
next
  case False
  then show ?thesis
    using assms idMap_Some by (auto simp: resolveID_def)
qed

section \<open>The finished encoder\<close>

definition columnCtxOf :: "encoder \<Rightarrow> columnCtx" where
  "columnCtxOf e =
    (let meta = g_Metadata (e_g e) in
     \<lparr> cc_nameIdx = buildStrIndex (e_nameDict e),
       cc_rtRemap = remapTable (md_RuleTypeMapping meta) (buildStrIndex (e_ruleTypeDict e)),
       cc_tagRemap = remapTable (md_TagMapping meta) (buildStrIndex (e_tagDict e)),
       cc_anRemap = remapTable (md_AttributeNameMapping meta) (buildStrIndex (e_attrNameDict e)),
       cc_avRemap = remapTable (md_AttributeStringValueMapping meta) (buildStrIndex (e_attrValDict e)),
       cc_resolveID = resolveID (e_nodes e), cc_hashBytes = nat (opt_HashBytes (e_opts e)) \<rparr>)"

text \<open>What a successful \<open>newEncoder\<close> leaves: one \<open>nodeOut\<close> per node, and the fields made of them.\<close>

definition encoded :: "encoder \<Rightarrow> nodeOut list \<Rightarrow> bool" where
  "encoded e outs \<longleftrightarrow>
    (\<exists>nodes. mapE (mkNode (g_Metadata (e_g e))) (enumerate 0 (g_Targets (e_g e))) = Inr nodes \<and> mset (e_nodes e) = mset nodes) \<and>
    sorted (map nodeKey (e_nodes e)) \<and>
    pkgRuns None (- 1) (e_nodes e) = (e_pkgDict e, e_pkgIDs e) \<and>
    e_nameDict e = remdups_adj (sort (map ni_name (e_nodes e))) \<and>
    e_ruleTypeDict e = sortedUniqueStrings (md_RuleTypeMapping (g_Metadata (e_g e))) \<and>
    e_tagDict e = sortedUniqueStrings (md_TagMapping (g_Metadata (e_g e))) \<and>
    e_attrNameDict e = sortedUniqueStrings (md_AttributeNameMapping (g_Metadata (e_g e))) \<and>
    e_attrValDict e = sortedUniqueStrings (md_AttributeStringValueMapping (g_Metadata (e_g e))) \<and>
    mapE (encodeNode (columnCtxOf e) (g_Targets (e_g e))) (e_nodes e) = Inr outs \<and>
    e_nameIDs e = map no_nameID outs \<and> e_ruleTypeIDs e = map no_ruleTypeID outs \<and>
    e_hashRaw e = concat (map no_hash outs) \<and>
    e_depDeg e = map (\<lambda>xs. of_nat (length xs)) (map no_deps outs) \<and>
    e_depList e = concat (map (\<lambda>(i, xs). encodeDeps i xs) (enumerate 0 (map no_deps outs))) \<and>
    e_tagDeg e = map (\<lambda>xs. of_nat (length xs)) (map no_tags outs) \<and>
    e_tagList e = concat (map (\<lambda>(i, xs). encodeTags xs) (enumerate 0 (map no_tags outs))) \<and>
    e_attrDeg e = map (\<lambda>xs. of_nat (length xs)) (map no_attrs outs) \<and>
    e_attrNms e = concat (map attrNames (map no_attrs outs)) \<and>
    e_attrVls e = concat (map attrValues (map no_attrs outs)) \<and>
    e_rootBits e = bitset (map no_root outs) \<and> e_extBits e = bitset (map no_ext outs) \<and>
    e_hashEmptyBits e = bitset (map no_hashEmpty outs) \<and>
    length (e_blockStarts e) = length (e_blockDigests e) \<and> length (e_blockDigests e) \<le> length (e_nodes e)"

lemma length_blocks_loop: "length (blocks_loop xxh bsz start open ns) \<le> length ns"
  by (induction ns arbitrary: start "open") (simp_all add: Let_def le_SucI)

lemma concat_map_enumerate: "concat (map (\<lambda>(i, x). g x) (enumerate k xs)) = concat (map g xs)"
  by (induction xs arbitrary: k) auto

lemma map_enumerate_map: "map f (enumerate k (map g xs)) = map (\<lambda>(i, x). f (i, g x)) (enumerate k xs)"
  by (induction xs arbitrary: k) auto

lemma newEncoder_encoded:
  assumes "newEncoder xxh procs g opts = Inr e"
  shows "e_g e = g \<and> e_opts e = opts \<and> (\<exists>outs. encoded e outs)"
proof -
  obtain e1 e3 where e1: "buildNodes procs (zeroEncoder g opts) = Inr e1"
      and e3: "buildColumns procs (buildDicts procs e1) = Inr e3" and e: "e = buildBlocks xxh e3"
    using assms by (auto simp: newEncoder_def bindE_eq_Inr)
  obtain nodes where n: "mapE (mkNode (g_Metadata g)) (enumerate 0 (g_Targets g)) = Inr nodes"
      "e1 = zeroEncoder g opts \<lparr> e_nodes := e_nodes e1 \<rparr>" "mset (e_nodes e1) = mset nodes"
      "sorted (map nodeKey (e_nodes e1))"
    using buildNodes_Inr [OF e1] by (auto simp: zeroEncoder_def)
  let ?e2 = "buildDicts procs e1"
  have g1: "e_g e1 = g" "e_opts e1 = opts"
    using n(2) by (metis (no_types, lifting) encoder.select_convs encoder.simps zeroEncoder_def)+
  obtain pd pi where pr: "pkgRuns None (- 1) (e_nodes e1) = (pd, pi)"
    by (cases "pkgRuns None (- 1) (e_nodes e1)")
  have e2: "e_g ?e2 = g" "e_opts ?e2 = opts" "e_nodes ?e2 = e_nodes e1" "e_pkgDict ?e2 = pd" "e_pkgIDs ?e2 = pi"
    "e_nameDict ?e2 = remdups_adj (sort (map ni_name (e_nodes e1)))"
    "e_ruleTypeDict ?e2 = sortedUniqueStrings (md_RuleTypeMapping (g_Metadata g))"
    "e_tagDict ?e2 = sortedUniqueStrings (md_TagMapping (g_Metadata g))"
    "e_attrNameDict ?e2 = sortedUniqueStrings (md_AttributeNameMapping (g_Metadata g))"
    "e_attrValDict ?e2 = sortedUniqueStrings (md_AttributeStringValueMapping (g_Metadata g))"
    using g1 pr by (simp_all add: buildDicts_def Let_def parallelSort_strings)
  obtain outs where outs: "mapE (encodeNode (columnCtxOf ?e2) (g_Targets g)) (e_nodes e1) = Inr outs"
      and e3': "e3 = ?e2 \<lparr> e_nameIDs := map no_nameID outs, e_ruleTypeIDs := map no_ruleTypeID outs,
              e_hashRaw := concat (map no_hash outs),
              e_depDeg := map (\<lambda>x. of_nat (length (no_deps x))) outs,
              e_depList := concat (map (\<lambda>(i, x). encodeDeps i (no_deps x)) (enumerate 0 outs)),
              e_tagDeg := map (\<lambda>x. of_nat (length (no_tags x))) outs,
              e_tagList := concat (map (\<lambda>x. encodeTags (no_tags x)) outs),
              e_attrDeg := map (\<lambda>x. of_nat (length (no_attrs x))) outs,
              e_attrNms := concat (map (\<lambda>x. concat (map (\<lambda>kv. AppendUvarint (scast (fst kv))) (no_attrs x))) outs),
              e_attrVls := concat (map (\<lambda>x. concat (map (\<lambda>kv. AppendUvarint (scast (snd kv))) (no_attrs x))) outs),
              e_rootBits := bitset (map no_root outs), e_extBits := bitset (map no_ext outs),
              e_hashEmptyBits := bitset (map no_hashEmpty outs) \<rparr>"
    using e3 by (auto simp: buildColumns_def Let_def bindE_eq_Inr runShards_eq columnCtxOf_def e2(1,3))
  have ctx: "columnCtxOf e = columnCtxOf ?e2"
    by (simp add: columnCtxOf_def e buildBlocks_def e3' Let_def)
  have "encoded e outs"
    unfolding encoded_def ctx
    using n outs pr e2 length_blocks_loop [of xxh _ 0 "[]" "e_nodes e1"]
    by (simp add: e buildBlocks_def e3' Let_def comp_def concat_map_enumerate map_enumerate_map
      attrNames_def attrValues_def)
  then show ?thesis
    using e2 by (auto simp: e buildBlocks_def e3' Let_def)
qed

section \<open>Opening what was written\<close>

definition stored :: "(int \<Rightarrow> bytes \<Rightarrow> bytes) \<Rightarrow> encoder \<Rightarrow> (rawCol \<times> bytes) list" where
  "stored zc e = map (\<lambda>rc. (rc, compressCol (zc (zstdLevel (e_opts e))) rc)) (rawCols e)"

text \<open>The limits the reader enforces: dictionary expansion, column size, total size; any real file is shorter than \<open>2 ^ 59\<close> bytes.\<close>

definition limits :: "(int \<Rightarrow> bytes \<Rightarrow> bytes) \<Rightarrow> encoder \<Rightarrow> bool" where
  "limits zc e \<longleftrightarrow>
    (\<forall>d \<in> {e_pkgDict e, e_nameDict e, e_ruleTypeDict e, e_tagDict e, e_attrNameDict e, e_attrValDict e}.
       sum_list (map length d) \<le> dictBudget (frontCode 0 [] d)) \<and>
    (\<forall>rc \<in> set (rawCols e). length (rc_data rc) \<le> 2 ^ 30) \<and>
    sum_list (map (\<lambda>rc. length (rc_data rc)) (rawCols e)) \<le> max (16 * length (writeBlob zc e)) (4 * 2 ^ 20) \<and>
    length (writeBlob zc e) < 2 ^ 59"

definition options_ok :: "EncodeOptions \<Rightarrow> bool" where
  "options_ok o' \<longleftrightarrow> opt_HashBytes o' \<in> {8, 16, 20} \<and> 0 < opt_BlockSize o' \<and>
     opt_BlockSize o' AND (opt_BlockSize o' - 1) = 0"

lemma rawCols_ids: "distinct (map rc_id (rawCols e))" "length (rawCols e) \<le> 64"
  by (simp_all add: rawCols_def mkCol_def col_defs)

lemma rawCols_codec: "rc \<in> set (rawCols e) \<Longrightarrow> rc_codec rc \<in> {codecRaw, codecZstd}"
  by (auto simp: rawCols_def mkCol_def split: if_splits)

lemma stored_stored_ok:
  assumes "limits zc e" "rc \<in> set (stored zc e)"
  shows "stored_ok (zc (zstdLevel (e_opts e))) rc"
  using assms by (auto simp: stored_def stored_ok_def limits_def dest: rawCols_codec)

lemma stored_placed:
  assumes "limits zc e"
  shows "list_all2 (placed (writeBlob zc e) headerSize (headerSize + length (concat (map snd (stored zc e)))))
    (assignOffsets (of_nat headerSize) (stored zc e)) (stored zc e)"
proof -
  let ?rs = "stored zc e"
  have blob: "writeBlob zc e = encodeHeader (encHeader e) @ concat (map snd ?rs) @
      (encodeDirectory (assignOffsets (of_nat headerSize) ?rs) @
       encodeFooter \<lparr> dirOffset = of_nat (headerSize + length (concat (map snd ?rs))),
         dirCRC = crc32_checksum (encodeDirectory (assignOffsets (of_nat headerSize) ?rs)) \<rparr>)"
    by (simp add: writeBlob_eq blobOf_def Let_def stored_def)
  have "length (writeBlob zc e) < 2 ^ 63"
    using assms by (simp add: limits_def)
  from assignOffsets_placed [OF blob this, of headerSize "headerSize + length (concat (map snd ?rs))"]
  show ?thesis
    by simp
qed

lemma stored_distinct: "distinct (map (rc_id \<circ> fst) (stored zc e))"
  using rawCols_ids(1) [of e] by (simp add: stored_def comp_def)

text \<open>The directory entry of a column of the encoder.\<close>

lemma stored_entry:
  assumes "limits zc e" "rc \<in> set (rawCols e)"
  shows "\<exists>ce. map_of (colsOf (stored zc e)) (rc_id rc) = Some ce \<and> ce_rawSize ce = of_nat (length (rc_data rc)) \<and>
    placed (writeBlob zc e) headerSize (headerSize + length (concat (map snd (stored zc e)))) ce
      (rc, compressCol (zc (zstdLevel (e_opts e))) rc)"
proof -
  have "(rc, compressCol (zc (zstdLevel (e_opts e))) rc) \<in> set (stored zc e)"
    using assms(2) by (simp add: stored_def)
  from map_of_colsOf [OF stored_distinct this stored_placed [OF assms(1)]]
  show ?thesis
    by (auto simp: placed_def)
qed

lemma stored_rawSize:
  assumes "limits zc e" "rc \<in> set (rawCols e)"
  shows "map_of (colsOf (stored zc e)) (rc_id rc) \<noteq> None"
    "unat (colRawSize (colsOf (stored zc e)) (rc_id rc)) = length (rc_data rc)"
  using stored_entry [OF assms] assms by (auto simp: colRawSize_def limits_def unat_rawSize)

lemma sum_rawSize:
  "list_all2 (placed blob lo hi) es rs \<Longrightarrow>
    sum_list (map ce_rawSize es) = of_nat (sum_list (map (\<lambda>rc. length (rc_data (fst rc))) rs))"
  by (induction es rs rule: list_all2_induct) (auto simp: placed_def)

lemma totalRaw:
  assumes "limits zc e"
  shows "\<not> max ((of_nat (length (writeBlob zc e)) :: u64) * maxTotalRawFactor) maxTotalRawFloor
    < sum_list (map (\<lambda>(i, ce). ce_rawSize ce) (colsOf (stored zc e)))"
proof -
  let ?n = "length (writeBlob zc e)"
  let ?t = "sum_list (map (\<lambda>rc. length (rc_data rc)) (rawCols e))"
  have "sum_list (map (\<lambda>(i, ce). ce_rawSize ce) (colsOf (stored zc e))) = of_nat ?t"
    using sum_rawSize [OF stored_placed [OF assms]] by (simp add: colsOf_def comp_def stored_def)
  moreover have n: "?n < 2 ^ 59" "?t \<le> max (16 * ?n) (4 * 2 ^ 20)"
    using assms by (auto simp: limits_def)
  then have "unat (of_nat ?t :: u64) = ?t"
    by (intro unat_of_nat_64) (auto simp: max_def split: if_splits)
  moreover have "unat ((of_nat ?n :: u64) * maxTotalRawFactor) = 16 * ?n"
  proof -
    have "(of_nat ?n :: u64) * maxTotalRawFactor = of_nat (16 * ?n)"
      by (simp add: maxTotalRawFactor_def)
    then show ?thesis
      using n(1) unat_of_nat_64 [of "16 * ?n"] by simp
  qed
  moreover have "unat maxTotalRawFloor = 4 * 2 ^ 20"
    by (simp add: maxTotalRawFloor_def)
  ultimately show ?thesis
    using n(2) by (auto simp: max_def word_less_nat_alt word_le_nat_alt split: if_splits)
qed

text \<open>The columns the reader ties to the header.\<close>

lemma rawCols_members:
  "mkCol (colDeg, codecZstd, encodePlain (e_depDeg e)) \<in> set (rawCols e)"
  "mkCol (colHash, codecRaw, e_hashRaw e) \<in> set (rawCols e)"
  "mkCol (colDeps, codecZstd, e_depList e) \<in> set (rawCols e)"
  "mkCol (colBlockDigest, codecRaw, concat (map (LE_put 8) (e_blockDigests e))) \<in> set (rawCols e)"
  by (simp_all add: rawCols_def)

lemma mkCol_simps [simp]: "rc_id (mkCol (i, c, d)) = i" "rc_codec (mkCol (i, c, d)) = c" "rc_data (mkCol (i, c, d)) = d"
  by (simp_all add: mkCol_def)

lemma encodeNode_hash:
  "encodeNode cc targets nd = Inr o' \<Longrightarrow> length (no_hash o') = cc_hashBytes cc"
  by (auto simp: encodeNode_def Let_def bindE_eq_Inr split: if_splits dest: decodeHashHex_hexDecodeInto)

lemma encoded_sizes:
  assumes "encoded e outs"
  shows "length outs = length (e_nodes e)"
    "length (e_hashRaw e) = length (e_nodes e) * nat (opt_HashBytes (e_opts e))"
    "length (e_nodes e) \<le> length (encodePlain (e_depDeg e))"
    "sum_list (map length (map no_deps outs)) \<le> length (e_depList e)"
proof -
  have outs: "mapE (encodeNode (columnCtxOf e) (g_Targets (e_g e))) (e_nodes e) = Inr outs"
    using assms by (simp add: encoded_def)
  then show len: "length outs = length (e_nodes e)"
    by (rule mapE_Inr_length)
  have "length (no_hash o') = nat (opt_HashBytes (e_opts e))" if "o' \<in> set outs" for o'
    using outs that encodeNode_hash len by (fastforce simp: mapE_eq_Inr in_set_conv_nth columnCtxOf_def Let_def)
  then have "map length (map no_hash outs) = replicate (length outs) (nat (opt_HashBytes (e_opts e)))"
    by (simp add: comp_def map_replicate_const [symmetric])
  then show "length (e_hashRaw e) = length (e_nodes e) * nat (opt_HashBytes (e_opts e))"
    using assms len by (simp add: encoded_def length_concat sum_list_replicate)
  show "length (e_nodes e) \<le> length (encodePlain (e_depDeg e))"
    using length_varints_ge [of "e_depDeg e" scast] assms len by (simp add: encoded_def encodePlain_def)
  have sum: "sum_list (map length xss) \<le> length (concat (map (\<lambda>(i, xs). encodeDeps i xs) (enumerate k xss)))" for xss k
    by (induction xss arbitrary: k) (auto intro!: add_mono length_encodeDeps)
  have "e_depList e = concat (map (\<lambda>(i, xs). encodeDeps i xs) (enumerate 0 (map no_deps outs)))"
    using assms unfolding encoded_def by blast
  then show "sum_list (map length (map no_deps outs)) \<le> length (e_depList e)"
    using sum by (simp only:)
qed

lemma edgeCount_encoded:
  assumes "encoded e outs" "length (e_depList e) \<le> 2 ^ 30"
  shows "edgeCount (encHeader e) = of_nat (sum_list (map length (map no_deps outs)))"
proof -
  have bound: "length (no_deps o') < 2 ^ 31" if "o' \<in> set outs" for o'
  proof -
    have "length (no_deps o') \<le> sum_list (map length (map no_deps outs))"
      using that by (intro member_le_sum_list) auto
    then show ?thesis
      using encoded_sizes(4) [OF assms(1)] assms(2) by simp
  qed
  have scast: "(scast (of_nat n :: i32) :: u64) = of_nat n" if "n < 2 ^ 31" for n
    using that by (metis sint_of_nat_32 scast_eq of_int_of_nat_eq)
  have "foldl (\<lambda>c d. c + scast d) c (map (\<lambda>xs. of_nat (length xs) :: i32) xss) = c + of_nat (sum_list (map length xss))"
    if "\<forall>xs \<in> set xss. length xs < 2 ^ 31" for c :: u64 and xss :: "i32 list list"
    using that by (induction xss arbitrary: c) (simp_all add: scast)
  from this [of "map no_deps outs" 0] show ?thesis
    using assms(1) bound by (simp add: encHeader_def encoded_def)
qed

lemma NewReader_written:
  assumes "encoded e outs" "limits zc e" "options_ok (e_opts e)" "zstd_ok zc zd"
  shows "NewReader (writeBlob zc e) = Inr (freshReader (writeBlob zc e) (encHeader e) (colsOf (stored zc e)))"
proof -
  let ?h = "encHeader e" and ?rs = "stored zc e" and ?n = "length (e_nodes e)"
  let ?hi = "headerSize + length (concat (map snd ?rs))"
  have blob: "writeBlob zc e = blobOf ?h ?rs"
    by (simp add: writeBlob_eq stored_def)
  have size: "length (writeBlob zc e) < 2 ^ 59"
    using assms(2) by (simp add: limits_def)
  have hb: "hashBytes ?h \<in> {8, 16, 20}" "unat (hashBytes ?h) = nat (opt_HashBytes (e_opts e))"
    using assms(3) by (auto simp: encHeader_def options_ok_def)
  have rs: "length ?rs \<le> 64"
    using rawCols_ids(2) [of e] by (simp add: stored_def)
  have hi: "?hi < 2 ^ 63"
    using size by (simp add: blob blobOf_def Let_def)
  note S = stored_rawSize [OF assms(2)]
  note deg = S [OF rawCols_members(1), unfolded mkCol_simps]
  note hash = S [OF rawCols_members(2), unfolded mkCol_simps]
  note deps = S [OF rawCols_members(3), unfolded mkCol_simps]
  note digest = S [OF rawCols_members(4), unfolded mkCol_simps length_concat_LE_put]
  have raw: "length (e_depList e) \<le> 2 ^ 30" "length (encodePlain (e_depDeg e)) \<le> 2 ^ 30"
    using assms(2) rawCols_members(3,1) [of e] by (force simp: limits_def)+
  have n: "?n \<le> 2 ^ 30" "unat (nodeCount ?h) = ?n"
    using encoded_sizes(3) [OF assms(1)] raw(2) by (auto simp: encHeader_def unat_rawSize)
  have edges: "unat (edgeCount ?h) = sum_list (map length (map no_deps outs))"
    using edgeCount_encoded [OF assms(1) raw(1)] encoded_sizes(4) [OF assms(1)] raw(1) by (simp add: unat_rawSize)
  have blockSize: "blockSize ?h AND (blockSize ?h - 1) = 0"
  proof -
    have "(of_int (opt_BlockSize (e_opts e) AND (opt_BlockSize (e_opts e) - 1)) :: u64) = 0"
      using assms(3) by (simp add: options_ok_def)
    then show ?thesis
      by (simp add: encHeader_def of_int_and_eq)
  qed
  have cols: "mapE (\<lambda>(i, ce). validateColumn (of_nat ?hi) ce) (colsOf ?rs) = Inr (map (\<lambda>_. ()) (colsOf ?rs))"
  proof (rule mapE_total)
    fix x
    assume "x \<in> set (colsOf ?rs)"
    then obtain j where j: "j < length ?rs" "x = (ce_id (assignOffsets (of_nat headerSize) ?rs ! j), assignOffsets (of_nat headerSize) ?rs ! j)"
      by (auto simp: colsOf_def in_set_conv_nth)
    then show "(case x of (i, ce) \<Rightarrow> validateColumn (of_nat ?hi) ce) = Inr ()"
      using stored_placed [OF assms(2)] stored_stored_ok [OF assms(2), of "?rs ! j"] assms(4) hi
      by (auto simp: list_all2_conv_all_nth intro!: validateColumn_placed simp del: of_nat_add)
  qed
  have deg_ok: "\<not> colRawSize (colsOf ?rs) colDeg < nodeCount ?h"
    using deg(2) n(2) encoded_sizes(3) [OF assms(1)] by (simp add: word_less_nat_alt)
  have hash_ok: "colRawSize (colsOf ?rs) colHash = nodeCount ?h * ucast (hashBytes ?h)"
  proof -
    have "?n * nat (opt_HashBytes (e_opts e)) \<le> 2 ^ 30 * 20"
      using assms(3) n(1) by (intro mult_le_mono) (auto simp: options_ok_def)
    then have "?n * nat (opt_HashBytes (e_opts e)) < 2 ^ 64"
      by simp
    moreover have "unat (ucast (hashBytes ?h) :: u64) = nat (opt_HashBytes (e_opts e))"
      using hb by auto
    ultimately have "unat (nodeCount ?h * ucast (hashBytes ?h)) = ?n * nat (opt_HashBytes (e_opts e))"
      using n(2) by (simp add: unat_word_ariths)
    then show ?thesis
      using hash(2) encoded_sizes(2) [OF assms(1)] by (simp add: word_unat_eq_iff)
  qed
  have deps_ok: "\<not> colRawSize (colsOf ?rs) colDeps < edgeCount ?h"
    using deps(2) edges encoded_sizes(4) [OF assms(1)] by (simp add: word_less_nat_alt)
  have digest_ok: "colRawSize (colsOf ?rs) colBlockDigest mod 8 = 0" "\<not> nodeCount ?h < colRawSize (colsOf ?rs) colBlockDigest div 8"
    using digest(2) n(2) assms(1)
    by (simp_all add: word_less_nat_alt word_unat_eq_iff unat_mod unat_div encoded_def)
  have "validateColumns ?h (colsOf ?rs) (of_nat (length (writeBlob zc e))) (of_nat ?hi) = Inr ()"
    unfolding validateColumns_def Let_def cols bindE_simps
    using blockSize totalRaw [OF assms(2)] deg(1) deg_ok hash(1) hash_ok deps(1) deps_ok digest(1) digest_ok
    by (simp add: encHeader_def [of e, THEN arg_cong, of flags])
  then show ?thesis
    using NewReader_blobOf [of ?h ?rs] hb(1) size rs stored_distinct unfolding blob by simp
qed

end
