(* ===== verification/TgbRoundTrip.thy ===== *)
theory TgbRoundTrip
  imports TgbEncoder
begin

text \<open>
  Encoding a graph and decoding the blob gives back the graph: the same targets with the same
  labels, rule types, tags, attributes, flags, dependency labels and sidecar map, with hashes
  truncated to the stride and IDs renumbered in label order.
\<close>

section \<open>Evaluating accessors\<close>

definition evals :: "(nat \<Rightarrow> bytes \<Rightarrow> bytes option) \<Rightarrow> Reader \<Rightarrow> 'a access \<Rightarrow> 'a \<Rightarrow> bool" where
  "evals zd r0 m x \<longleftrightarrow> (\<forall>r. cache_ok zd r \<longrightarrow> base r = r0 \<longrightarrow>
     fst (m r) = Inr x \<and> cache_ok zd (snd (m r)) \<and> base (snd (m r)) = r0)"

lemma evals_lazy:
  assumes "lazy_accessor zd m" "fst (m r0) = Inr x"
  shows "evals zd r0 m x"
  unfolding evals_def
  using assms lazy_accessor.same_result [OF assms(1)] lazy_accessor.keeps_cache [OF assms(1)]
    lazy_accessor.keeps_base [OF assms(1)] by metis

lemma evals_bindS:
  assumes "evals zd r0 m x" "evals zd r0 (f x) y"
  shows "evals zd r0 (bindS m f) y"
  unfolding evals_def
proof (intro allI impI)
  fix r
  assume r: "cache_ok zd r" "base r = r0"
  obtain s where s: "m r = (Inr x, s)" "cache_ok zd s" "base s = r0"
    using assms(1) r by (cases "m r") (auto simp: evals_def)
  then show "fst (bindS m f r) = Inr y \<and> cache_ok zd (snd (bindS m f r)) \<and> base (snd (bindS m f r)) = r0"
    using assms(2) by (simp add: evals_def bindS_def)
qed

lemma evals_retS: "evals zd r0 (retS x) x"
  by (simp add: evals_def retS_def)

lemma evals_liftS: "m = Inr x \<Longrightarrow> evals zd r0 (liftS m) x"
  by (simp add: evals_def liftS_def)

lemma evals_read: "(\<And>r. base r = r0 \<Longrightarrow> f r = Inr x) \<Longrightarrow> evals zd r0 (\<lambda>r. (f r, r)) x"
  by (simp add: evals_def)

lemma evals_fresh: "evals zd r0 m x \<Longrightarrow> base r0 = r0 \<Longrightarrow> fst (m r0) = Inr x"
  using cache_ok_base [of zd r0] by (simp add: evals_def)

lemma evals_cached:
  assumes "lazy_accessor zd (cached get put compute)" "evals zd r0 compute x" "get r0 = []" "base r0 = r0"
  shows "evals zd r0 (cached get put compute) x"
proof (rule evals_lazy [OF assms(1)])
  show "fst (cached get put compute r0) = Inr x"
    using evals_fresh [OF assms(2,4)] assms(3)
    by (cases "compute r0") (simp add: cached_def bindS_def)
qed

lemma evals_forEachS: "(\<And>i. i \<in> set is \<Longrightarrow> \<exists>x. evals zd r0 (f i) x) \<Longrightarrow> evals zd r0 (forEachS f is) ()"
proof (induction "is")
  case (Cons i "is")
  then obtain x where "evals zd r0 (f i) x"
    by auto
  then show ?case
    using Cons by (auto intro: evals_bindS)
qed (simp add: evals_retS)

section \<open>The columns of a written blob\<close>

definition openedReader :: "(int \<Rightarrow> bytes \<Rightarrow> bytes) \<Rightarrow> encoder \<Rightarrow> Reader" where
  "openedReader zc e = freshReader (writeBlob zc e) (encHeader e) (colsOf (stored zc e))"

lemma base_openedReader [simp]: "base (openedReader zc e) = openedReader zc e"
  by (simp add: openedReader_def)

lemma openedReader_caches [simp]:
  "rd_pkgDict (openedReader zc e) = []" "rd_nameDict (openedReader zc e) = []"
  "rd_ruleTypeDict (openedReader zc e) = []" "rd_tagDict (openedReader zc e) = []"
  "rd_attrNameDict (openedReader zc e) = []" "rd_attrValDict (openedReader zc e) = []"
  "rd_pkgIDsCache (openedReader zc e) = []" "rd_nameIDsCache (openedReader zc e) = []"
  "rd_ruleTypeIDsCache (openedReader zc e) = []" "rd_decompressed (openedReader zc e) = Map.empty"
  "rd_data (openedReader zc e) = writeBlob zc e" "rd_hdr (openedReader zc e) = encHeader e"
  "rd_cols (openedReader zc e) = colsOf (stored zc e)"
  by (simp_all add: openedReader_def freshReader_def)

lemma evals_column:
  assumes "limits zc e" "zstd_ok zc zd" "mkCol (i, c, d) \<in> set (rawCols e)"
  shows "evals zd (openedReader zc e) (getColumn zd i) d"
proof (rule evals_lazy [OF column.lazy_accessor_axioms])
  let ?rc = "mkCol (i, c, d)"
  obtain ce where ce: "map_of (colsOf (stored zc e)) i = Some ce"
      "placed (writeBlob zc e) headerSize (headerSize + length (concat (map snd (stored zc e)))) ce
        (?rc, compressCol (zc (zstdLevel (e_opts e))) ?rc)"
    using stored_entry [OF assms(1,3)] by auto
  have "stored_ok (zc (zstdLevel (e_opts e))) (?rc, compressCol (zc (zstdLevel (e_opts e))) ?rc)"
    using assms by (intro stored_stored_ok) (auto simp: stored_def)
  then show "fst (getColumn zd i (openedReader zc e)) = Inr d"
    using getColumn_written [of "openedReader zc e" "(?rc, compressCol (zc (zstdLevel (e_opts e))) ?rc)" ce _ _ zc _ zd]
      ce assms(2) by simp
qed

lemma evals_columns:
  assumes "limits zc e" "zstd_ok zc zd"
  shows "evals zd (openedReader zc e) (getColumn zd colNodePkg) (encodeDeltas (e_pkgIDs e))"
    "evals zd (openedReader zc e) (getColumn zd colNodeName) (encodeNames (- 1) 0 (zip (e_pkgIDs e) (e_nameIDs e)))"
    "evals zd (openedReader zc e) (getColumn zd colRuleType) (encodePlain (e_ruleTypeIDs e))"
    "evals zd (openedReader zc e) (getColumn zd colDeg) (encodePlain (e_depDeg e))"
    "evals zd (openedReader zc e) (getColumn zd colDeps) (e_depList e)"
    "evals zd (openedReader zc e) (getColumn zd colTagDeg) (encodePlain (e_tagDeg e))"
    "evals zd (openedReader zc e) (getColumn zd colTags) (e_tagList e)"
    "evals zd (openedReader zc e) (getColumn zd colAttrDeg) (encodePlain (e_attrDeg e))"
    "evals zd (openedReader zc e) (getColumn zd colAttrName) (e_attrNms e)"
    "evals zd (openedReader zc e) (getColumn zd colAttrValue) (e_attrVls e)"
    "evals zd (openedReader zc e) (getColumn zd colFlags) (e_rootBits e @ e_extBits e @ e_hashEmptyBits e)"
    "evals zd (openedReader zc e) (getColumn zd colBlockStart) (encodeDeltas (e_blockStarts e))"
  by (rule evals_column [OF assms, where c = codecZstd], simp add: rawCols_def)+

lemma evals_dict:
  assumes "limits zc e" "zstd_ok zc zd" "mkCol (i, c, buildFrontCodedDict d) \<in> set (rawCols e)"
    and "sum_list (map length d) \<le> dictBudget (frontCode 0 [] d)"
    and "lazy_accessor zd (ensureDict zd i get put)" "get (openedReader zc e) = []"
  shows "evals zd (openedReader zc e) (ensureDict zd i get put) d"
proof -
  have raw: "length (buildFrontCodedDict d) \<le> 2 ^ 30"
    using assms(1,3) by (force simp: limits_def)
  have sum: "length (frontCode k prev d) \<ge> 2 * length d" for k prev
  proof (induction d arbitrary: k prev)
    case (Cons s d)
    have "2 \<le> length (entryBytes m s)" for m
    proof -
      have "1 \<le> length (AppendUvarint (of_nat m))" "1 \<le> length (AppendUvarint (of_nat (length (drop m s))))"
        by (simp_all add: Suc_le_eq)
      then show ?thesis
        by (simp add: entryBytes_def Let_def)
    qed
    from add_mono [OF this Cons.IH] show ?case
      by simp
  qed simp
  have fc: "length (frontCode 0 [] d) \<le> 2 ^ 30"
  proof (cases "d = []")
    case False
    then show ?thesis
      using raw buildDict_loop_data [of 0 "[]" d "[]" "[]"]
      by (simp add: buildFrontCodedDict_def split: prod.splits)
  qed simp
  have "sum_list (map length d) < 2 ^ 63"
    using assms(4) fc by (auto simp: dictBudget_def maxDictExpansionFactor_def maxDictExpansionFloor_def max_def split: if_splits)
  then have "length s < 2 ^ 63" if "s \<in> set d" for s
    using member_le_sum_list [of "length s" "map length d"] that by simp
  moreover have "length d < 2 ^ 60"
    using sum [of 0 "[]"] fc by simp
  ultimately have "fits64 d"
    by (simp add: fits64_def)
  then have "expandDict (buildFrontCodedDict d) = Inr d"
    using expandDict_build assms(4) by simp
  then have "evals zd (openedReader zc e) (bindS (getColumnLocked zd i) (\<lambda>data. liftS (expandDict data))) d"
    using evals_column [OF assms(1,2,3)] by (auto simp: getColumn_def [abs_def] intro: evals_bindS evals_liftS)
  then show ?thesis
    using assms(5,6) unfolding ensureDict_def by (intro evals_cached) simp_all
qed

lemma evals_each_dict:
  assumes "limits zc e" "zstd_ok zc zd"
  shows "evals zd (openedReader zc e) (ensurePkgDict zd) (e_pkgDict e)"
    "evals zd (openedReader zc e) (ensureNameDict zd) (e_nameDict e)"
    "evals zd (openedReader zc e) (ensureRuleTypeDict zd) (e_ruleTypeDict e)"
    "evals zd (openedReader zc e) (ensureTagDict zd) (e_tagDict e)"
    "evals zd (openedReader zc e) (ensureAttrNameDict zd) (e_attrNameDict e)"
    "evals zd (openedReader zc e) (ensureAttrValDict zd) (e_attrValDict e)"
proof -
  note D = evals_dict [OF assms]
  have b: "\<And>d. d \<in> {e_pkgDict e, e_nameDict e, e_ruleTypeDict e, e_tagDict e, e_attrNameDict e, e_attrValDict e} \<Longrightarrow>
      sum_list (map length d) \<le> dictBudget (frontCode 0 [] d)"
    using assms(1) unfolding limits_def by blast
  show "evals zd (openedReader zc e) (ensurePkgDict zd) (e_pkgDict e)"
    unfolding ensurePkgDict_def by (rule D [where c = codecZstd])
      (simp_all add: rawCols_def b pkgDict.lazy_accessor_axioms [unfolded ensurePkgDict_def])
  show "evals zd (openedReader zc e) (ensureNameDict zd) (e_nameDict e)"
    unfolding ensureNameDict_def by (rule D [where c = codecZstd])
      (simp_all add: rawCols_def b nameDict.lazy_accessor_axioms [unfolded ensureNameDict_def])
  show "evals zd (openedReader zc e) (ensureRuleTypeDict zd) (e_ruleTypeDict e)"
    unfolding ensureRuleTypeDict_def by (rule D [where c = codecZstd])
      (simp_all add: rawCols_def b ruleTypeDict.lazy_accessor_axioms [unfolded ensureRuleTypeDict_def])
  show "evals zd (openedReader zc e) (ensureTagDict zd) (e_tagDict e)"
    unfolding ensureTagDict_def by (rule D [where c = codecZstd])
      (simp_all add: rawCols_def b tagDict.lazy_accessor_axioms [unfolded ensureTagDict_def])
  show "evals zd (openedReader zc e) (ensureAttrNameDict zd) (e_attrNameDict e)"
    unfolding ensureAttrNameDict_def by (rule D [where c = codecZstd])
      (simp_all add: rawCols_def b attrNameDict.lazy_accessor_axioms [unfolded ensureAttrNameDict_def])
  show "evals zd (openedReader zc e) (ensureAttrValDict zd) (e_attrValDict e)"
    unfolding ensureAttrValDict_def by (rule D [where c = codecZstd])
      (simp_all add: rawCols_def b attrValDict.lazy_accessor_axioms [unfolded ensureAttrValDict_def])
qed

lemma evals_dicts:
  assumes "limits zc e" "zstd_ok zc zd"
  shows "evals zd (openedReader zc e) (expandAllDicts zd)
    (e_pkgDict e, e_nameDict e, e_ruleTypeDict e, e_tagDict e, e_attrNameDict e, e_attrValDict e)"
  unfolding expandAllDicts_def
  by (intro evals_bindS [OF evals_each_dict(1) [OF assms]] evals_bindS [OF evals_each_dict(2) [OF assms]]
    evals_bindS [OF evals_each_dict(3) [OF assms]] evals_bindS [OF evals_each_dict(4) [OF assms]]
    evals_bindS [OF evals_each_dict(5) [OF assms]] evals_bindS [OF evals_each_dict(6) [OF assms]] evals_retS)

section \<open>Per-node columns\<close>

lemma NodeCount_opened:
  assumes "encoded e outs" "limits zc e" "base r = openedReader zc e"
  shows "NodeCount r = length (e_nodes e)" "length (e_nodes e) \<le> 2 ^ 30"
proof -
  have "length (encodePlain (e_depDeg e)) \<le> 2 ^ 30"
    using assms(2) rawCols_members(1) [of e] by (force simp: limits_def)
  then show n: "length (e_nodes e) \<le> 2 ^ 30"
    using encoded_sizes(3) [OF assms(1)] by linarith
  have "NodeCount r = NodeCount (openedReader zc e)"
    using assms(3) by (metis NodeCount_base)
  then show "NodeCount r = length (e_nodes e)"
    using n by (simp add: NodeCount_def encHeader_def unat_rawSize)
qed

lemma degs_ok_encoded:
  assumes "encoded e outs" "limits zc e"
  shows "degs_ok (map no_deps outs)" "degs_ok (map no_tags outs)" "degs_ok (map no_attrs outs)"
proof -
  have raw: "length d \<le> 2 ^ 30" if "mkCol (i, c, d) \<in> set (rawCols e)" for i c d
    using assms(2) that by (force simp: limits_def)
  have f: "e_depList e = concat (map (\<lambda>(i, xs). encodeDeps i xs) (enumerate 0 (map no_deps outs)))"
    "e_tagList e = concat (map (\<lambda>(i, xs). encodeTags xs) (enumerate 0 (map no_tags outs)))"
    "e_attrNms e = concat (map attrNames (map no_attrs outs))"
    using assms(1) unfolding encoded_def by blast+
  have "length (e_depList e) \<le> 2 ^ 30" "length (e_tagList e) \<le> 2 ^ 30" "length (e_attrNms e) \<le> 2 ^ 30"
    using raw [of colDeps codecZstd "e_depList e"] raw [of colTags codecZstd "e_tagList e"]
      raw [of colAttrName codecZstd "e_attrNms e"] by (simp_all add: rawCols_def)
  then show "degs_ok (map no_deps outs)" "degs_ok (map no_tags outs)" "degs_ok (map no_attrs outs)"
    using f degs_ok_concat [of encodeDeps 0 "map no_deps outs", OF length_encodeDeps]
      degs_ok_concat [of "\<lambda>i. encodeTags" 0 "map no_tags outs", OF length_encodeTags]
      degs_ok_concat [of "\<lambda>i. attrNames" 0 "map no_attrs outs", OF length_attrBytes(1)]
    by (simp_all only: concat_map_enumerate)
qed

lemma evals_ints:
  assumes "limits zc e" "zstd_ok zc zd"
  shows "evals zd (openedReader zc e) (decodePkgIDs zd) (e_pkgIDs e)"
    "evals zd (openedReader zc e) (decodeRuleTypeIDs zd) (e_ruleTypeIDs e)"
    "length (e_nameIDs e) = length (e_pkgIDs e) \<Longrightarrow>
      evals zd (openedReader zc e) (decodeNameIDsCol zd (e_pkgIDs e)) (e_nameIDs e)"
  unfolding decodePkgIDs_def decodeRuleTypeIDs_def decodeNameIDsCol_def
  by (rule evals_bindS, rule evals_columns [OF assms], simp add: codec_simps evals_retS)+

lemma evals_csr:
  assumes "evals zd r0 (getColumn zd i) degData" "evals zd r0 (getColumn zd j) listData"
    and "csrRuns rd degData listData = Inr (degs, zip starts xss, endp)" "length starts = length xss"
  shows "evals zd r0 (bindS (getColumn zd i) (\<lambda>degData. bindS (getColumn zd j) (\<lambda>listData.
     bindS (liftS (csrRuns rd degData listData)) (\<lambda>(degs, runs, endp). retS (map snd runs))))) xss"
  by (rule evals_bindS [OF assms(1)], rule evals_bindS [OF assms(2)], rule evals_bindS [OF evals_liftS [OF assms(3)]])
    (simp add: assms(4) evals_retS)

lemma evals_deps:
  assumes "encoded e outs" "limits zc e" "zstd_ok zc zd"
  shows "evals zd (openedReader zc e) (decodeDepColumns zd) (map no_deps outs)"
proof -
  have f: "e_depDeg e = map (\<lambda>xs. of_nat (length xs)) (map no_deps outs)"
    "e_depList e = concat (map (\<lambda>(i, xs). encodeDeps i xs) (enumerate 0 (map no_deps outs)))"
    using assms(1) unfolding encoded_def by blast+
  obtain starts endp where st: "length starts = length (map no_deps outs)"
      "csrRuns (readDeps truncDeps) (encodePlain (e_depDeg e)) (e_depList e) = Inr (e_depDeg e, zip starts (map no_deps outs), endp)"
    using csrRuns_deps [OF degs_ok_encoded(1) [OF assms(1,2)] f(2)] unfolding f(1) by blast
  show ?thesis
    unfolding decodeDepColumns_def
    by (rule evals_csr [OF evals_columns(4,5) [OF assms(2,3)] st(2,1)])
qed

lemma evals_tags:
  assumes "encoded e outs" "limits zc e" "zstd_ok zc zd"
  shows "evals zd (openedReader zc e) (decodeTagColumns zd) (map no_tags outs)"
proof -
  have f: "e_tagDeg e = map (\<lambda>xs. of_nat (length xs)) (map no_tags outs)"
    "e_tagList e = concat (map (\<lambda>(i, xs). encodeTags xs) (enumerate 0 (map no_tags outs)))"
    using assms(1) unfolding encoded_def by blast+
  obtain starts endp where st: "length starts = length (map no_tags outs)"
      "csrRuns (readTags truncTags) (encodePlain (e_tagDeg e)) (e_tagList e) = Inr (e_tagDeg e, zip starts (map no_tags outs), endp)"
    using csrRuns_tags [OF degs_ok_encoded(2) [OF assms(1,2)] f(2)] unfolding f(1) by blast
  show ?thesis
    unfolding decodeTagColumns_def
    by (rule evals_csr [OF evals_columns(6,7) [OF assms(2,3)] st(2,1)])
qed

lemma map_snd_zip_f: "length xs = length ys \<Longrightarrow> map (\<lambda>p. f (snd p)) (zip xs ys) = map f ys"
  by (induction xs ys rule: list_induct2) auto

lemma evals_attrs:
  assumes "encoded e outs" "limits zc e" "zstd_ok zc zd"
  shows "evals zd (openedReader zc e) (decodeAttrColumns zd) (map no_attrs outs)"
proof -
  have f: "e_attrDeg e = map (\<lambda>xs. of_nat (length xs)) (map no_attrs outs)"
    "e_attrNms e = concat (map attrNames (map no_attrs outs))"
    "e_attrVls e = concat (map attrValues (map no_attrs outs))"
    using assms(1) unfolding encoded_def by blast+
  let ?f = "map (\<lambda>kv :: i32 \<times> i32. (scast (fst kv) :: u64, scast (snd kv) :: u64))"
  let ?h = "map (\<lambda>(n, v). (ucast (n :: u64) :: i32, ucast (v :: u64) :: i32))"
  obtain starts endp where st: "length starts = length (map no_attrs outs)"
      "attrRuns (encodePlain (e_attrDeg e)) (e_attrNms e) (e_attrVls e) = Inr (e_attrDeg e, zip starts (map ?f (map no_attrs outs)), endp)"
    using attrRuns_encode [OF degs_ok_encoded(3) [OF assms(1,2)] f(2,3)] unfolding f(1) by blast
  have "map (\<lambda>run. ?h (snd run)) (zip starts (map ?f (map no_attrs outs))) = map ?h (map ?f (map no_attrs outs))"
    using st(1) by (intro map_snd_zip_f) simp
  also have "\<dots> = map no_attrs outs"
    by (simp add: comp_def cast_simps)
  finally have conv: "map (\<lambda>run. ?h (snd run)) (zip starts (map ?f (map no_attrs outs))) = map no_attrs outs" .
  show ?thesis
    unfolding decodeAttrColumns_def
    by (rule evals_bindS [OF evals_columns(8) [OF assms(2,3)]], rule evals_bindS [OF evals_columns(9) [OF assms(2,3)]],
        rule evals_bindS [OF evals_columns(10) [OF assms(2,3)]], rule evals_bindS [OF evals_liftS [OF st(2)]])
      (simp only: split_conv conv evals_retS)
qed

lemma length_flags:
  assumes "encoded e outs"
  shows "length (e_rootBits e) = (length (e_nodes e) + 7) div 8" "length (e_extBits e) = (length (e_nodes e) + 7) div 8"
    "length (e_hashEmptyBits e) = (length (e_nodes e) + 7) div 8"
proof -
  have "e_rootBits e = bitset (map no_root outs)" "e_extBits e = bitset (map no_ext outs)"
    "e_hashEmptyBits e = bitset (map no_hashEmpty outs)"
    using assms unfolding encoded_def by blast+
  then show "length (e_rootBits e) = (length (e_nodes e) + 7) div 8" "length (e_extBits e) = (length (e_nodes e) + 7) div 8"
    "length (e_hashEmptyBits e) = (length (e_nodes e) + 7) div 8"
    using encoded_sizes(1) [OF assms] by simp_all
qed

lemma splitFlags_append:
  assumes "length a = nb" "length b = nb" "length c = nb"
  shows "splitFlags nb (a @ b @ c) = (a, b, c)"
proof (cases "nb = 0")
  case True
  then show ?thesis
    using assms by (simp add: splitFlags_def)
next
  case False
  define d where "d = a @ b @ c"
  have len: "length d = nb + nb + nb"
    unfolding d_def using assms by (simp only: length_append add.assoc)
  have tk: "take nb d = a" "drop nb d = b @ c"
    unfolding d_def using append_eq_conv_conj [of a "b @ c" "a @ b @ c"] assms(1) by auto
  have tk2: "take nb (b @ c) = b" "drop nb (b @ c) = c" "take nb c = c"
    using append_eq_conv_conj [of b c "b @ c"] assms(2,3) by auto
  have dr: "drop (2 * nb) d = c"
    using tk(2) tk2(2) by (metis drop_drop mult_2)
  have c: "d \<noteq> []" "\<not> length d < nb" "\<not> length d < 2 * nb" "\<not> length d < 3 * nb"
    using len False by auto
  have "splitFlags nb d = (a, b, c)"
    by (simp only: splitFlags_def c tk tk2 dr if_False)
  then show ?thesis
    unfolding d_def .
qed

lemma evals_flags:
  assumes "encoded e outs" "limits zc e" "zstd_ok zc zd"
  shows "evals zd (openedReader zc e) (decodeFlags zd) (e_rootBits e, e_extBits e, e_hashEmptyBits e)"
  unfolding decodeFlags_def
  by (rule evals_bindS [OF evals_columns(11) [OF assms(2,3)]], rule evals_read)
    (simp add: splitFlags_append length_flags [OF assms(1)] NodeCount_opened(1) [OF assms(1,2)])

lemma Hashes_opened:
  assumes "encoded e outs" "limits zc e" "base r = openedReader zc e"
  shows "Hashes r = Inr (e_hashRaw e)"
proof -
  let ?rc = "mkCol (colHash, codecRaw, e_hashRaw e)"
  obtain ce where ce: "map_of (colsOf (stored zc e)) colHash = Some ce" "ce_rawSize ce = of_nat (length (e_hashRaw e))"
      "placed (writeBlob zc e) headerSize (headerSize + length (concat (map snd (stored zc e)))) ce
        (?rc, compressCol (zc (zstdLevel (e_opts e))) ?rc)"
    using stored_entry [OF assms(2) rawCols_members(2)] by auto
  have raw: "length (e_hashRaw e) \<le> 2 ^ 30"
    using assms(2) rawCols_members(2) [of e] by (force simp: limits_def)
  have "Hashes r = Hashes (openedReader zc e)"
    unfolding assms(3) [symmetric] by simp
  moreover have "Hashes (openedReader zc e) = Inr (e_hashRaw e)"
  proof (cases "ce_rawSize ce = 0")
    case True
    then have "unat (of_nat (length (e_hashRaw e)) :: u64) = 0"
      using ce(2) by simp
    then have "e_hashRaw e = []"
      unfolding unat_rawSize [OF raw] by simp
    then show ?thesis
      using True ce(1) by (simp add: Hashes_def)
  next
    case False
    have "go_slice (writeBlob zc e) (unat (ce_offset ce)) (unat (ce_offset ce + ce_compressedSize ce)) = Some (e_hashRaw e)"
    proof -
      have "compressCol (zc (zstdLevel (e_opts e))) ?rc = e_hashRaw e"
        by (simp add: compressCol_def)
      then show ?thesis
        using ce(3) unfolding placed_def snd_conv by metis
    qed
    then show ?thesis
      using False ce(1) by (simp add: Hashes_def panicE_def)
  qed
  ultimately show ?thesis
    by simp
qed

end
