(* ===== verification/TgbInverse.thy ===== *)
theory TgbInverse
  imports TgbRoundTrip
begin

text \<open>
  \<open>DecodeGraph\<close> on a blob the encoder wrote: every node decodes to what the encoder's pass
  computed for it, and read through the label, rule-type, tag and attribute mappings the decoded
  graph is the encoded one.
\<close>

section \<open>Sizes\<close>

lemma length_frontCode_ge: "2 * length d \<le> length (frontCode k prev d)"
proof (induction d arbitrary: k prev)
  case (Cons s d)
  have "2 \<le> length (entryBytes m s)" for m
  proof -
    have "1 \<le> length (AppendUvarint (of_nat m))" "1 \<le> length (AppendUvarint (of_nat (length (drop m s))))"
      by (simp_all add: Suc_le_eq)
    then show ?thesis
      by (simp add: entryBytes_def Let_def)
  qed
  from add_mono [OF this Cons.IH] show ?case
    by simp
qed simp

lemma length_dict:
  assumes "limits zc e" "mkCol (i, c, buildFrontCodedDict d) \<in> set (rawCols e)"
  shows "length d < 2 ^ 31"
proof (cases "d = []")
  case False
  have "length (buildFrontCodedDict d) \<le> 2 ^ 30"
    using assms by (force simp: limits_def)
  then have "length (frontCode 0 [] d) \<le> 2 ^ 30"
    using False buildDict_loop_data [of 0 "[]" d "[]" "[]"] by (simp add: buildFrontCodedDict_def split: prod.splits)
  then show ?thesis
    using length_frontCode_ge [of d 0 "[]"] by simp
qed simp

lemma length_dicts:
  assumes "limits zc e"
  shows "length (e_pkgDict e) < 2 ^ 31" "length (e_nameDict e) < 2 ^ 31" "length (e_ruleTypeDict e) < 2 ^ 31"
    "length (e_tagDict e) < 2 ^ 31" "length (e_attrNameDict e) < 2 ^ 31" "length (e_attrValDict e) < 2 ^ 31"
  by (rule length_dict [OF assms, where c = codecZstd and i = colPkgDict], simp add: rawCols_def,
      rule length_dict [OF assms, where c = codecZstd and i = colNameDict], simp add: rawCols_def,
      rule length_dict [OF assms, where c = codecZstd and i = colRuleTypeDict], simp add: rawCols_def,
      rule length_dict [OF assms, where c = codecZstd and i = colTagDict], simp add: rawCols_def,
      rule length_dict [OF assms, where c = codecZstd and i = colAttrNameDict], simp add: rawCols_def,
      rule length_dict [OF assms, where c = codecZstd and i = colAttrValueDict], simp add: rawCols_def)

section \<open>One node\<close>

definition targetOut :: "nat \<Rightarrow> nodeOut \<Rightarrow> OptimizedTarget" where
  "targetOut i o' = \<lparr> ot_ID = of_nat i, ot_Hash = (if no_hashEmpty o' then [] else EncodeToString (no_hash o')),
     ot_DirectDependencies = no_deps o', ot_RuleType = no_ruleTypeID o', ot_Tags = no_tags o',
     ot_Root = no_root o', ot_External = no_ext o',
     ot_Attributes = foldl (\<lambda>m (k, v). AList.update k v m) [] (no_attrs o') \<rparr>"

definition decodedOf :: "encoder \<Rightarrow> nodeOut list \<Rightarrow> decoded" where
  "decodedOf e outs = \<lparr> dc_pkgDict = e_pkgDict e, dc_nameDict = e_nameDict e, dc_pkgIDs = e_pkgIDs e,
     dc_nameIDs = e_nameIDs e, dc_rtIDs = e_ruleTypeIDs e, dc_depLists = map no_deps outs,
     dc_tagLists = map no_tags outs, dc_attrLists = map no_attrs outs, dc_rootBits = e_rootBits e,
     dc_extBits = e_extBits e, dc_hashEmptyBits = e_hashEmptyBits e, dc_hashes = e_hashRaw e,
     dc_hb = nat (opt_HashBytes (e_opts e)) \<rparr>"

lemma bitAt_bitset: "i < length fs \<Longrightarrow> bitAt (bitset fs) i = Inr (fs ! i)"
proof -
  assume i: "i < length fs"
  then have "i div 8 < length (bitset fs)"
    by simp
  then show ?thesis
    using testBit_bitset [OF i] by (cases "bitset fs") (simp_all add: bitAt_def del: length_bitset)
qed

lemma go_slice_concat:
  assumes "i < length xss" "\<forall>xs \<in> set xss. length xs = k"
  shows "go_slice (concat xss) (i * k) ((i + 1) * k) = Some (xss ! i)"
proof -
  have len: "length (concat ys) = length ys * k" if "set ys \<subseteq> set xss" for ys
    using that assms(2) by (induction ys) auto
  have split: "concat xss = concat (take i xss) @ xss ! i @ concat (drop (Suc i) xss)"
    using assms(1) by (metis concat.simps(2) concat_append id_take_nth_drop)
  have "length (concat (take i xss)) = i * k" "length (xss ! i) = k"
    using len [OF set_take_subset, of i] assms by auto
  then show ?thesis
    using go_slice_append [of "concat (take i xss)" "xss ! i" "concat (drop (Suc i) xss)"] split
    by (simp add: add.commute)
qed

lemma lookupDictEntry_pos: "dict_pos dict s i \<Longrightarrow> lookupDictEntry dict (sint i) = Inr s"
  by (auto simp: dict_pos_def lookupDictEntry_def)

lemma columnCtxOf_simps [simp]:
  "cc_nameIdx (columnCtxOf e) = buildStrIndex (e_nameDict e)"
  "cc_rtRemap (columnCtxOf e) = remapTable (md_RuleTypeMapping (g_Metadata (e_g e))) (buildStrIndex (e_ruleTypeDict e))"
  "cc_tagRemap (columnCtxOf e) = remapTable (md_TagMapping (g_Metadata (e_g e))) (buildStrIndex (e_tagDict e))"
  "cc_anRemap (columnCtxOf e) = remapTable (md_AttributeNameMapping (g_Metadata (e_g e))) (buildStrIndex (e_attrNameDict e))"
  "cc_avRemap (columnCtxOf e) = remapTable (md_AttributeStringValueMapping (g_Metadata (e_g e))) (buildStrIndex (e_attrValDict e))"
  "cc_resolveID (columnCtxOf e) = resolveID (e_nodes e)"
  "cc_hashBytes (columnCtxOf e) = nat (opt_HashBytes (e_opts e))"
  by (simp_all add: columnCtxOf_def Let_def)

lemma lookupE_eq_Inr [simp]: "lookupE err m k = Inr v \<longleftrightarrow> m k = Some v"
  by (auto simp: lookupE_def split: option.splits)

lemma mapE_list_all2: "mapE f xs = Inr ys \<longleftrightarrow> list_all2 (\<lambda>x y. f x = Inr y) xs ys"
  by (auto simp: mapE_eq_Inr list_all2_conv_all_nth)

lemma attrStep:
  "(case a of (x, y) \<Rightarrow> bindE (lookupE e1 m1 x) (\<lambda>n. bindE (lookupE e2 m2 y) (\<lambda>v. Inr (n, v)))) = Inr kv \<longleftrightarrow>
    m1 (fst a) = Some (fst kv) \<and> m2 (snd a) = Some (snd kv)"
  by (cases a; cases kv) (simp add: bindE_eq_Inr)

text \<open>What the encoder's pass computes for one node.\<close>

lemma encodeNode_InrD:
  assumes "encodeNode cc targets nd = Inr o'" "t = targets ! ni_origIdx nd"
  shows "no_nameID o' = lookup0 (cc_nameIdx cc) (ni_name nd)" "cc_rtRemap cc (ot_RuleType t) = Some (no_ruleTypeID o')"
    "no_hashEmpty o' \<longleftrightarrow> ot_Hash t = []" "no_root o' = ot_Root t" "no_ext o' = ot_External t"
    "ot_Hash t \<noteq> [] \<Longrightarrow> no_hash o' = decodeHashHex (ot_Hash t) (cc_hashBytes cc)"
    "\<exists>ds. no_deps o' = sort_key sint ds \<and> list_all2 (\<lambda>d v. cc_resolveID cc d = Some v) (ot_DirectDependencies t) ds"
    "\<exists>ts. no_tags o' = sort_key sint ts \<and> list_all2 (\<lambda>d v. cc_tagRemap cc d = Some v) (ot_Tags t) ts"
    "\<exists>kvs. no_attrs o' = sort_key (\<lambda>kv. sint (fst kv)) kvs \<and>
       list_all2 (\<lambda>a kv. cc_anRemap cc (fst a) = Some (fst kv) \<and> cc_avRemap cc (snd a) = Some (snd kv)) (ot_Attributes t) kvs"
proof -
  obtain rt hash ds ts kvs where r: "cc_rtRemap cc (ot_RuleType t) = Some rt"
      "(if ot_Hash t = [] then Inr (replicate (cc_hashBytes cc) 0) else hexDecodeInto (cc_hashBytes cc) (ot_Hash t)) = Inr hash"
      "list_all2 (\<lambda>d v. cc_resolveID cc d = Some v) (ot_DirectDependencies t) ds"
      "list_all2 (\<lambda>d v. cc_tagRemap cc d = Some v) (ot_Tags t) ts"
      "list_all2 (\<lambda>a kv. cc_anRemap cc (fst a) = Some (fst kv) \<and> cc_avRemap cc (snd a) = Some (snd kv)) (ot_Attributes t) kvs"
    and o': "o' = \<lparr> no_nameID = lookup0 (cc_nameIdx cc) (ni_name nd), no_ruleTypeID = rt, no_hash = hash,
           no_hashEmpty = (ot_Hash t = []), no_deps = sort_key sint ds, no_tags = sort_key sint ts,
           no_attrs = sort_key (\<lambda>kv. sint (fst kv)) kvs, no_root = ot_Root t, no_ext = ot_External t \<rparr>"
    using assms(1) unfolding encodeNode_def Let_def assms(2) [symmetric] bindE_eq_Inr lookupE_eq_Inr mapE_list_all2
      attrStep sum.inject by blast
  show "no_nameID o' = lookup0 (cc_nameIdx cc) (ni_name nd)" "cc_rtRemap cc (ot_RuleType t) = Some (no_ruleTypeID o')"
    "no_hashEmpty o' \<longleftrightarrow> ot_Hash t = []" "no_root o' = ot_Root t" "no_ext o' = ot_External t"
    "ot_Hash t \<noteq> [] \<Longrightarrow> no_hash o' = decodeHashHex (ot_Hash t) (cc_hashBytes cc)"
    using r(1,2) by (auto simp: o' dest: decodeHashHex_hexDecodeInto)
  show "\<exists>ds. no_deps o' = sort_key sint ds \<and> list_all2 (\<lambda>d v. cc_resolveID cc d = Some v) (ot_DirectDependencies t) ds"
    using r(3) by (auto simp: o')
  show "\<exists>ts. no_tags o' = sort_key sint ts \<and> list_all2 (\<lambda>d v. cc_tagRemap cc d = Some v) (ot_Tags t) ts"
    using r(4) by (auto simp: o')
  show "\<exists>kvs. no_attrs o' = sort_key (\<lambda>kv. sint (fst kv)) kvs \<and>
       list_all2 (\<lambda>a kv. cc_anRemap cc (fst a) = Some (fst kv) \<and> cc_avRemap cc (snd a) = Some (snd kv)) (ot_Attributes t) kvs"
    using r(5) by (auto simp: o')
qed

lemma encoded_node:
  assumes "encoded e outs" "i < length outs"
  shows "encodeNode (columnCtxOf e) (g_Targets (e_g e)) (e_nodes e ! i) = Inr (outs ! i)"
proof -
  have "mapE (encodeNode (columnCtxOf e) (g_Targets (e_g e))) (e_nodes e) = Inr outs"
    using assms(1) unfolding encoded_def by blast
  then show ?thesis
    using assms(2) encoded_sizes(1) [OF assms(1)] by (simp add: mapE_eq_Inr)
qed

lemma encoded_nameID:
  assumes "encoded e outs" "limits zc e" "i < length outs"
  shows "dict_pos (e_nameDict e) (ni_name (e_nodes e ! i)) (no_nameID (outs ! i))"
proof -
  have nd: "e_nameDict e = remdups_adj (sort (map ni_name (e_nodes e)))"
    using assms(1) unfolding encoded_def by blast
  have len: "length outs = length (e_nodes e)"
    using encoded_sizes(1) [OF assms(1)] .
  have "no_nameID (outs ! i) = lookup0 (buildStrIndex (e_nameDict e)) (ni_name (e_nodes e ! i))"
    using encodeNode_InrD(1) [OF encoded_node [OF assms(1,3)] refl] by simp
  moreover have "distinct (e_nameDict e)"
    unfolding nd by (rule sorted_remdups_adj_distinct) simp
  moreover have "ni_name (e_nodes e ! i) \<in> set (e_nameDict e)"
    using nd assms(3) len by simp
  ultimately show ?thesis
    using dict_pos_buildStrIndex [OF _ _ length_dicts(2) [OF assms(2)]] by (fastforce simp: lookup0_def)
qed

lemma decodeNode_encoded:
  assumes "encoded e outs" "limits zc e" "i < length outs"
  shows "decodeNode (decodedOf e outs) i =
    Inr (joinLabel (ni_pkg (e_nodes e ! i)) (ni_name (e_nodes e ! i)), targetOut i (outs ! i))"
proof -
  let ?n = "e_nodes e ! i"
  have len: "length outs = length (e_nodes e)"
    using encoded_sizes(1) [OF assms(1)] .
  have f: "pkgRuns None (- 1) (e_nodes e) = (e_pkgDict e, e_pkgIDs e)"
    "mapE (encodeNode (columnCtxOf e) (g_Targets (e_g e))) (e_nodes e) = Inr outs"
    "e_nameIDs e = map no_nameID outs" "e_ruleTypeIDs e = map no_ruleTypeID outs"
    "e_hashRaw e = concat (map no_hash outs)"
    "e_rootBits e = bitset (map no_root outs)" "e_extBits e = bitset (map no_ext outs)"
    "e_hashEmptyBits e = bitset (map no_hashEmpty outs)"
    using assms(1) unfolding encoded_def by blast+
  have "length (e_nodes e) < 2 ^ 31"
    using NodeCount_opened(2) [OF assms(1,2) base_openedReader] by simp
  then have pkg: "length (e_pkgIDs e) = length outs" "dict_pos (e_pkgDict e) (ni_pkg ?n) (e_pkgIDs e ! i)"
    using pkgRuns_dict_pos [OF f(1)] assms(3) len by auto
  have hash: "length (no_hash o') = nat (opt_HashBytes (e_opts e))" if "o' \<in> set outs" for o'
    using f(2) that encodeNode_hash len by (fastforce simp: mapE_eq_Inr in_set_conv_nth columnCtxOf_def Let_def)
  then have "go_slice (e_hashRaw e) (i * nat (opt_HashBytes (e_opts e))) ((i + 1) * nat (opt_HashBytes (e_opts e))) =
      Some (no_hash (outs ! i))"
    using go_slice_concat [of i "map no_hash outs" "nat (opt_HashBytes (e_opts e))"] assms(3) f(5) by simp
  then show ?thesis
    using assms(3) pkg lookupDictEntry_pos [OF pkg(2)] lookupDictEntry_pos [OF encoded_nameID [OF assms]]
    by (simp add: decodeNode_def decodedOf_def f(3,4,6,7,8) go_index_def panicE_def wrapE_def bitAt_bitset targetOut_def)
qed

section \<open>The whole graph\<close>

definition labelsOf :: "encoder \<Rightarrow> string list" where
  "labelsOf e = map (\<lambda>n. joinLabel (ni_pkg n) (ni_name n)) (e_nodes e)"

definition fileHashesOf :: "encoder \<Rightarrow> (string, string) gomap" where
  "fileHashesOf e = (let m = md_AllTargetsFileHashes (g_Metadata (e_g e)) in
     map (\<lambda>k. (k, the (map_of m k))) (sort (map fst m)))"

definition decodedGraph :: "encoder \<Rightarrow> nodeOut list \<Rightarrow> Graph" where
  "decodedGraph e outs =
    \<lparr> g_Targets = map (\<lambda>(i, o'). targetOut i o') (enumerate 0 outs),
      g_Metadata = \<lparr> md_TargetIDMapping = numbered (labelsOf e), md_RuleTypeMapping = numbered (e_ruleTypeDict e),
        md_TagMapping = numbered (e_tagDict e), md_AttributeNameMapping = numbered (e_attrNameDict e),
        md_AttributeStringValueMapping = numbered (e_attrValDict e), md_AllTargetsFileHashes = fileHashesOf e \<rparr> \<rparr>"

text \<open>A Go map of strings: no key twice, and no string longer than an address space.\<close>

definition strmap_ok :: "(string, string) gomap \<Rightarrow> bool" where
  "strmap_ok m \<longleftrightarrow> distinct (map fst m) \<and> length m < 2 ^ 63 \<and>
     (\<forall>kv \<in> set m. length (fst kv) < 2 ^ 63 \<and> length (snd kv) < 2 ^ 63)"

lemma evals_fileHashes:
  assumes "limits zc e" "zstd_ok zc zd" "strmap_ok (md_AllTargetsFileHashes (g_Metadata (e_g e)))"
  shows "evals zd (openedReader zc e) (AllTargetsFileHashes zd) (fileHashesOf e)"
proof (rule evals_lazy [OF fileHashes.lazy_accessor_axioms])
  let ?m = "md_AllTargetsFileHashes (g_Metadata (e_g e))"
  show "fst (AllTargetsFileHashes zd (openedReader zc e)) = Inr (fileHashesOf e)"
  proof (cases "?m = []")
    case True
    then have "colAllTargetsFileHashes \<notin> set (map (rc_id \<circ> fst) (stored zc e))"
      by (simp add: stored_def comp_def rawCols_def mkCol_def col_defs)
    then show ?thesis
      using True by (simp add: AllTargetsFileHashes_def map_of_colsOf_None fileHashesOf_def)
  next
    case False
    then have mem: "mkCol (colAllTargetsFileHashes, codecZstd, encodeStringMap ?m) \<in> set (rawCols e)"
      by (simp add: rawCols_def)
    then obtain ce where ce: "map_of (colsOf (stored zc e)) colAllTargetsFileHashes = Some ce"
      using stored_entry [OF assms(1) mem] by auto
    have "decodeStringMap (encodeStringMap ?m) = Inr (fileHashesOf e)"
      using assms(3) decodeStringMap_encodeStringMap [of ?m] by (simp add: strmap_ok_def fileHashesOf_def Let_def)
    then have "evals zd (openedReader zc e) (bindS (getColumn zd colAllTargetsFileHashes) (\<lambda>data. liftS (decodeStringMap data))) (fileHashesOf e)"
      by (intro evals_bindS [OF evals_column [OF assms(1,2) mem]] evals_liftS)
    from evals_fresh [OF this] show ?thesis
      using ce by (simp add: AllTargetsFileHashes_def)
  qed
qed

lemma evals_decompressAll:
  assumes "limits zc e" "zstd_ok zc zd"
  shows "evals zd (openedReader zc e) (decompressAll zd) ()"
  unfolding decompressAll_def
proof (rule evals_forEachS)
  note C = evals_columns [OF assms, unfolded getColumn_def]
  fix i
  assume "i \<in> set [colNodePkg, colNodeName, colRuleType, colDeg, colDeps, colTagDeg, colTags, colAttrDeg,
     colAttrName, colAttrValue, colFlags, colBlockStart]"
  then show "\<exists>x. evals zd (openedReader zc e) (getColumnLocked zd i) x"
    using C by (auto simp del: bindS_liftS)
qed

lemma decodedGraph_nodes:
  fixes e outs
  defines "nodes \<equiv> map (\<lambda>i. (labelsOf e ! i, targetOut i (outs ! i))) [0..<length outs]"
  assumes "length (labelsOf e) = length outs"
  shows "\<lparr> g_Targets = map snd nodes, g_Metadata = \<lparr> md_TargetIDMapping = numbered (map fst nodes),
      md_RuleTypeMapping = numbered (e_ruleTypeDict e), md_TagMapping = numbered (e_tagDict e),
      md_AttributeNameMapping = numbered (e_attrNameDict e), md_AttributeStringValueMapping = numbered (e_attrValDict e),
      md_AllTargetsFileHashes = fileHashesOf e \<rparr> \<rparr> = decodedGraph e outs"
proof -
  have "map fst nodes = map (\<lambda>i. labelsOf e ! i) [0..<length outs]"
    by (simp add: nodes_def comp_def)
  also have "\<dots> = labelsOf e"
    unfolding assms(2) [symmetric] by (rule map_nth)
  finally have labels: "map fst nodes = labelsOf e" .
  have targets: "map snd nodes = map (\<lambda>(i, o'). targetOut i o') (enumerate 0 outs)"
    by (rule nth_equalityI) (simp_all add: nodes_def nth_enumerate_eq)
  show ?thesis
    unfolding labels targets decodedGraph_def ..
qed

text \<open>Decoding what the encoder wrote computes the graph of the encoder's per-node results.\<close>

lemma evals_DecodeGraph:
  assumes "encoded e outs" "limits zc e" "zstd_ok zc zd" "opt_HashBytes (e_opts e) \<in> {8, 16, 20}"
    and "strmap_ok (md_AllTargetsFileHashes (g_Metadata (e_g e)))"
  shows "evals zd (openedReader zc e) (DecodeGraph zd) (decodedGraph e outs)"
proof -
  let ?nodes = "map (\<lambda>i. (labelsOf e ! i, targetOut i (outs ! i))) [0..<length outs]"
  have len: "length outs = length (e_nodes e)"
    using encoded_sizes(1) [OF assms(1)] .
  have names: "length (e_nameIDs e) = length (e_pkgIDs e)"
  proof -
    have "length (e_nodes e) < 2 ^ 31"
      using NodeCount_opened(2) [OF assms(1,2) base_openedReader] by simp
    then show ?thesis
      using assms(1) pkgRuns_dict_pos [of "e_nodes e" "e_pkgDict e" "e_pkgIDs e"] len by (simp add: encoded_def)
  qed
  have hb: "HashBytes r = nat (opt_HashBytes (e_opts e))" if "base r = openedReader zc e" for r
  proof -
    have "HashBytes r = HashBytes (openedReader zc e)"
      using that by (metis HashBytes_base)
    then show ?thesis
      using assms(4) by (auto simp: HashBytes_def encHeader_def)
  qed
  have nodes: "mapE (decodeNode (decodedOf e outs)) [0..<NodeCount r] = Inr ?nodes" if "base r = openedReader zc e" for r
    unfolding NodeCount_opened(1) [OF assms(1,2) that] len [symmetric]
    using decodeNode_encoded [OF assms(1,2)] len by (intro mapE_total) (simp add: labelsOf_def)
  have "length (labelsOf e) = length outs"
    using len by (simp add: labelsOf_def)
  note res = decodedGraph_nodes [OF this]
  have fh: "evals zd (openedReader zc e) (\<lambda>r. case AllTargetsFileHashes zd r of (x, r') \<Rightarrow>
      (wrapE ''tgb: decode AllTargetsFileHashes: '' x, r')) (fileHashesOf e)"
    using evals_fileHashes [OF assms(2,3,5)] by (auto simp: evals_def wrapE_def split: prod.splits)
  have H: "evals zd (openedReader zc e) (\<lambda>r. (Hashes r, r)) (e_hashRaw e)"
    by (rule evals_read) (rule Hashes_opened [OF assms(1,2)])
  have N: "evals zd (openedReader zc e) (\<lambda>r. (mapE (decodeNode
        \<lparr> dc_pkgDict = e_pkgDict e, dc_nameDict = e_nameDict e, dc_pkgIDs = e_pkgIDs e, dc_nameIDs = e_nameIDs e,
          dc_rtIDs = e_ruleTypeIDs e, dc_depLists = map no_deps outs, dc_tagLists = map no_tags outs,
          dc_attrLists = map no_attrs outs, dc_rootBits = e_rootBits e, dc_extBits = e_extBits e,
          dc_hashEmptyBits = e_hashEmptyBits e, dc_hashes = e_hashRaw e, dc_hb = HashBytes r \<rparr>) [0..<NodeCount r], r)) ?nodes"
    by (rule evals_read) (use nodes hb in \<open>simp add: decodedOf_def\<close>)
  show ?thesis
    unfolding DecodeGraph_def
    apply (rule evals_bindS [OF evals_dicts [OF assms(2,3)]], unfold split_conv)
    apply (rule evals_bindS [OF evals_decompressAll [OF assms(2,3)]])
    apply (rule evals_bindS [OF evals_ints(1) [OF assms(2,3)]])
    apply (rule evals_bindS [OF evals_ints(3) [OF assms(2,3) names]])
    apply (rule evals_bindS [OF evals_ints(2) [OF assms(2,3)]])
    apply (rule evals_bindS [OF evals_deps [OF assms(1,2,3)]])
    apply (rule evals_bindS [OF evals_tags [OF assms(1,2,3)]])
    apply (rule evals_bindS [OF evals_attrs [OF assms(1,2,3)]])
    apply (rule evals_bindS [OF evals_flags [OF assms(1,2,3)]], unfold split_conv)
    apply (rule evals_bindS [OF H])
    apply (rule evals_bindS [OF N])
    apply (rule evals_bindS [OF fh])
    apply (unfold res)
    apply (rule evals_retS)
    done
qed

lemma Decode_writeBlob:
  assumes "encoded e outs" "limits zc e" "zstd_ok zc zd" "options_ok (e_opts e)"
    and "strmap_ok (md_AllTargetsFileHashes (g_Metadata (e_g e)))"
  shows "Decode zd (writeBlob zc e) = Inr (decodedGraph e outs)"
proof -
  have "evals zd (openedReader zc e) (DecodeGraph zd) (decodedGraph e outs)"
    using assms by (intro evals_DecodeGraph) (auto simp: options_ok_def)
  from evals_fresh [OF this] show ?thesis
    using NewReader_written [OF assms(1,2,4,3)] by (simp add: Decode_def openedReader_def)
qed

end
