(* ===== verification/TgbCodec.thy ===== *)
theory TgbCodec
  imports TgbInverse
begin

text \<open>
  The contract of the codec. \<open>viewOf g t\<close> is what a target means to a client: its label, hash,
  rule type, dependency labels, tags and attributes as strings, and its flags, all read through
  the metadata of the graph. Decoding an encoded graph gives the same targets in this sense.
\<close>

section \<open>Meaning of a target\<close>

record targetView =
  tv_label :: "string option"
  tv_hash :: string
  tv_ruleType :: "string option"
  tv_deps :: "string option multiset"
  tv_tags :: "string option multiset"
  tv_attrs :: "(string option \<times> string option) multiset"
  tv_root :: bool
  tv_ext :: bool

definition viewOf :: "Graph \<Rightarrow> OptimizedTarget \<Rightarrow> targetView" where
  "viewOf g t = (let meta = g_Metadata g in
    \<lparr> tv_label = map_of (md_TargetIDMapping meta) (ot_ID t), tv_hash = ot_Hash t,
      tv_ruleType = map_of (md_RuleTypeMapping meta) (ot_RuleType t),
      tv_deps = mset (map (map_of (md_TargetIDMapping meta)) (ot_DirectDependencies t)),
      tv_tags = mset (map (map_of (md_TagMapping meta)) (ot_Tags t)),
      tv_attrs = mset (map (\<lambda>(k, v). (map_of (md_AttributeNameMapping meta) k,
        map_of (md_AttributeStringValueMapping meta) v)) (ot_Attributes t)),
      tv_root = ot_Root t, tv_ext = ot_External t \<rparr>)"

text \<open>
  What the encoder relies on of a graph it cannot report: labels that survive being split at the
  last colon, attribute names that stay distinct as strings, and Go maps.
\<close>

definition graph_ok :: "Graph \<Rightarrow> bool" where
  "graph_ok g \<longleftrightarrow>
    (\<forall>(i, l) \<in> set (md_TargetIDMapping (g_Metadata g)). joinLabel (fst (splitLabel l)) (snd (splitLabel l)) = l) \<and>
    (\<forall>t \<in> set (g_Targets g). distinct (map (\<lambda>a. map_of (md_AttributeNameMapping (g_Metadata g)) (fst a)) (ot_Attributes t))) \<and>
    strmap_ok (md_AllTargetsFileHashes (g_Metadata g))"

section \<open>Lookups in the decoded mappings\<close>

lemma inj_on_of_nat_32: "n < 2 ^ 31 \<Longrightarrow> inj_on (of_nat :: nat \<Rightarrow> i32) {..<n}"
proof (rule inj_onI)
  fix x y
  assume n: "n < 2 ^ 31" and xy: "x \<in> {..<n}" "y \<in> {..<n}" "(of_nat x :: i32) = of_nat y"
  have b: "x < 2 ^ 31" "y < 2 ^ 31"
    using xy(1,2) n by (meson lessThan_iff less_trans)+
  have "int x = sint (of_nat x :: i32)"
    using sint_of_nat_32 [OF b(1)] by (rule sym)
  also have "\<dots> = sint (of_nat y :: i32)"
    by (simp only: xy(3))
  also have "\<dots> = int y"
    using sint_of_nat_32 [OF b(2)] .
  finally show "x = y"
    by (simp only: of_nat_eq_iff)
qed

lemma keys_numbered: "map fst (numbered strs) = map of_nat [0..<length strs]"
  by (rule nth_equalityI) (simp_all add: numbered_def nth_enumerate_eq)

lemma map_of_numbered:
  assumes "j < length strs" "length strs < 2 ^ 31"
  shows "map_of (numbered strs) (of_nat j) = Some (strs ! j)"
proof (rule map_of_is_SomeI)
  show "distinct (map fst (numbered strs))"
    unfolding keys_numbered distinct_map set_upt atLeast0LessThan using inj_on_of_nat_32 [OF assms(2)] by simp
  have "numbered strs ! j = (of_nat j, strs ! j)" "j < length (numbered strs)"
    using assms(1) by (simp_all add: numbered_def nth_enumerate_eq)
  then show "(of_nat j, strs ! j) \<in> set (numbered strs)"
    by (metis nth_mem)
qed

lemma map_of_numbered_pos:
  assumes "dict_pos dict s i" "length dict < 2 ^ 31"
  shows "map_of (numbered dict) i = Some s"
proof -
  have i: "i = of_nat (nat (sint i))"
    using assms(1) by (simp add: dict_pos_def)
  show ?thesis
    using map_of_numbered [of "nat (sint i)" dict] assms i by (simp add: dict_pos_def)
qed

text \<open>A remapped ID reads the same string in the new mapping as in the old one.\<close>

lemma remap_same_string:
  assumes "remapTable m (buildStrIndex (sortedUniqueStrings m)) k = Some i" "length (sortedUniqueStrings m) < 2 ^ 31"
  shows "map_of (numbered (sortedUniqueStrings m)) i = map_of m k"
  using remapTable_Some [OF assms] map_of_numbered_pos [OF _ assms(2)] by auto

lemma mset_map_remap:
  assumes "list_all2 (\<lambda>d v. remapTable m (buildStrIndex (sortedUniqueStrings m)) d = Some v) ds vs"
    and "length (sortedUniqueStrings m) < 2 ^ 31"
  shows "mset (map (map_of (numbered (sortedUniqueStrings m))) (sort_key f vs)) = mset (map (map_of m) ds)"
proof -
  have "map (map_of (numbered (sortedUniqueStrings m))) vs = map (map_of m) ds"
    using assms(1) remap_same_string [OF _ assms(2)] by (induction rule: list_all2_induct) auto
  then show ?thesis
    by (metis mset_map mset_sort)
qed

section \<open>Attributes\<close>

lemma foldl_update_distinct:
  "distinct (map fst (m @ kvs)) \<Longrightarrow> foldl (\<lambda>m (k, v). AList.update k v m) m kvs = m @ kvs"
proof (induction kvs arbitrary: m)
  case (Cons kv kvs)
  obtain k v where kv: "kv = (k, v)"
    by (cases kv)
  have "k \<notin> fst ` set m"
    using Cons.prems kv by auto
  then have "AList.update k v m = m @ [(k, v)]"
    by (induction m) auto
  then show ?case
    using Cons.IH [of "m @ [(k, v)]"] Cons.prems kv by simp
qed simp

section \<open>Every node keeps its meaning\<close>

lemma targetOut_simps [simp]:
  "ot_ID (targetOut i o') = of_nat i" "ot_DirectDependencies (targetOut i o') = no_deps o'"
  "ot_RuleType (targetOut i o') = no_ruleTypeID o'" "ot_Tags (targetOut i o') = no_tags o'"
  "ot_Root (targetOut i o') = no_root o'" "ot_External (targetOut i o') = no_ext o'"
  by (simp_all add: targetOut_def)

lemma encoded_dicts:
  assumes "encoded e outs"
  shows "e_ruleTypeDict e = sortedUniqueStrings (md_RuleTypeMapping (g_Metadata (e_g e)))"
    "e_tagDict e = sortedUniqueStrings (md_TagMapping (g_Metadata (e_g e)))"
    "e_attrNameDict e = sortedUniqueStrings (md_AttributeNameMapping (g_Metadata (e_g e)))"
    "e_attrValDict e = sortedUniqueStrings (md_AttributeStringValueMapping (g_Metadata (e_g e)))"
  using assms unfolding encoded_def by blast+

lemma encoded_node_of:
  assumes "encoded e outs" "n \<in> set (e_nodes e)"
  shows "node_of (e_g e) n"
proof -
  obtain nodes where n: "mapE (mkNode (g_Metadata (e_g e))) (enumerate 0 (g_Targets (e_g e))) = Inr nodes"
      "mset (e_nodes e) = mset nodes"
    using assms(1) unfolding encoded_def by blast
  then have "n \<in> set nodes"
    using assms(2) by (metis set_mset_mset)
  then show ?thesis
    using mkNode_nodes [OF n(1)] by (auto simp: in_set_conv_nth)
qed

text \<open>The label of a node in the decoded mapping is its label in the encoded one.\<close>

lemma decoded_label:
  assumes "encoded e outs" "limits zc e" "graph_ok (e_g e)" "j < length outs"
  shows "map_of (numbered (labelsOf e)) (of_nat j) = map_of (md_TargetIDMapping (g_Metadata (e_g e))) (ni_origID (e_nodes e ! j))"
proof -
  let ?n = "e_nodes e ! j"
  have len: "length outs = length (e_nodes e)" "length (e_nodes e) \<le> 2 ^ 30"
    using encoded_sizes(1) [OF assms(1)] NodeCount_opened(2) [OF assms(1,2) base_openedReader] by auto
  have n: "node_of (e_g e) ?n"
    using assms(4) len by (intro encoded_node_of [OF assms(1)]) simp
  then have "(ni_origID ?n, ni_label ?n) \<in> set (md_TargetIDMapping (g_Metadata (e_g e)))"
    by (auto simp: node_of_def dest: map_of_SomeD)
  then have "joinLabel (ni_pkg ?n) (ni_name ?n) = ni_label ?n"
    using assms(3) n by (fastforce simp: graph_ok_def node_of_def)
  then show ?thesis
    using map_of_numbered [of j "labelsOf e"] n assms(4) len by (simp add: labelsOf_def node_of_def [of _ ?n]) metis
qed

lemma decoded_deps:
  assumes "encoded e outs" "limits zc e" "graph_ok (e_g e)"
    and "list_all2 (\<lambda>d v. resolveID (e_nodes e) d = Some v) ds vs"
  shows "mset (map (map_of (numbered (labelsOf e))) (sort_key f vs)) =
    mset (map (map_of (md_TargetIDMapping (g_Metadata (e_g e)))) ds)"
proof -
  have "map_of (numbered (labelsOf e)) v = map_of (md_TargetIDMapping (g_Metadata (e_g e))) d"
    if "resolveID (e_nodes e) d = Some v" for d v
    using resolveID_sound [OF that] decoded_label [OF assms(1-3)] encoded_sizes(1) [OF assms(1)] by auto
  with assms(4) have "map (map_of (numbered (labelsOf e))) vs = map (map_of (md_TargetIDMapping (g_Metadata (e_g e)))) ds"
    by (induction rule: list_all2_induct) auto
  then show ?thesis
    by (metis mset_map mset_sort)
qed

lemma decoded_attrs:
  assumes "list_all2 (\<lambda>a kv. remapTable an (buildStrIndex (sortedUniqueStrings an)) (fst a) = Some (fst kv) \<and>
      remapTable av (buildStrIndex (sortedUniqueStrings av)) (snd a) = Some (snd kv)) as kvs"
    and "length (sortedUniqueStrings an) < 2 ^ 31" "length (sortedUniqueStrings av) < 2 ^ 31"
    and "distinct (map (\<lambda>a. map_of an (fst a)) as)"
  shows "mset (map (\<lambda>(k, v). (map_of (numbered (sortedUniqueStrings an)) k, map_of (numbered (sortedUniqueStrings av)) v))
      (foldl (\<lambda>m (k, v). AList.update k v m) [] (sort_key f kvs))) =
    mset (map (\<lambda>(k, v). (map_of an k, map_of av v)) as)"
proof -
  let ?g = "\<lambda>(k, v). (map_of (numbered (sortedUniqueStrings an)) k, map_of (numbered (sortedUniqueStrings av)) v)"
  have step: "map_of (numbered (sortedUniqueStrings an)) (fst kv) = map_of an (fst a) \<and>
      map_of (numbered (sortedUniqueStrings av)) (snd kv) = map_of av (snd a)"
    if "remapTable an (buildStrIndex (sortedUniqueStrings an)) (fst a) = Some (fst kv) \<and>
      remapTable av (buildStrIndex (sortedUniqueStrings av)) (snd a) = Some (snd kv)" for a kv
    using that remap_same_string [OF _ assms(2)] remap_same_string [OF _ assms(3)] by blast
  have eq: "map ?g kvs = map (\<lambda>(k, v). (map_of an k, map_of av v)) as"
    using assms(1) by (induction rule: list_all2_induct) (simp_all add: split_beta step)
  have "map (map_of (numbered (sortedUniqueStrings an))) (map fst kvs) = map (\<lambda>a. map_of an (fst a)) as"
    using assms(1) by (induction rule: list_all2_induct) (simp_all add: step)
  then have "distinct (map fst kvs)"
    using assms(4) distinct_map [of "map_of (numbered (sortedUniqueStrings an))" "map fst kvs"] by simp
  moreover have "mset (map fst (sort_key f kvs)) = mset (map fst kvs)"
    by simp
  ultimately have "distinct (map fst (sort_key f kvs))"
    using mset_eq_imp_distinct_iff by blast
  then have "foldl (\<lambda>m (k, v). AList.update k v m) [] (sort_key f kvs) = sort_key f kvs"
    using foldl_update_distinct [of "[]" "sort_key f kvs"] by simp
  moreover have "mset (map ?g (sort_key f kvs)) = mset (map ?g kvs)"
    by simp
  ultimately show ?thesis
    using eq by simp
qed

lemma view_targetOut:
  assumes "encoded e outs" "limits zc e" "graph_ok (e_g e)" "i < length outs"
    and "g = TruncateHashes (e_g e) (nat (opt_HashBytes (e_opts e)))"
  shows "viewOf (decodedGraph e outs) (targetOut i (outs ! i)) = viewOf g (g_Targets g ! ni_origIdx (e_nodes e ! i))"
proof -
  let ?n = "e_nodes e ! i" and ?o = "outs ! i" and ?m = "g_Metadata (e_g e)"
  define t where "t = g_Targets (e_g e) ! ni_origIdx ?n"
  have n: "node_of (e_g e) ?n"
    using assms(4) encoded_sizes(1) [OF assms(1)] by (intro encoded_node_of [OF assms(1)]) simp
  then have t: "t \<in> set (g_Targets (e_g e))" "ni_origID ?n = ot_ID t" "ni_origIdx ?n < length (g_Targets (e_g e))"
    by (auto simp: node_of_def t_def)
  note D = encodeNode_InrD [OF encoded_node [OF assms(1,4)] t_def, unfolded columnCtxOf_simps encoded_dicts [OF assms(1)]]
  note L = length_dicts(3-6) [OF assms(2), unfolded encoded_dicts [OF assms(1)]]
  obtain ds where ds: "no_deps ?o = sort_key sint ds" "list_all2 (\<lambda>d v. resolveID (e_nodes e) d = Some v) (ot_DirectDependencies t) ds"
    using D(7) by blast
  obtain ts where ts: "no_tags ?o = sort_key sint ts" "list_all2 (\<lambda>d v. remapTable (md_TagMapping ?m)
      (buildStrIndex (sortedUniqueStrings (md_TagMapping ?m))) d = Some v) (ot_Tags t) ts"
    using D(8) by blast
  obtain kvs where kvs: "no_attrs ?o = sort_key (\<lambda>kv. sint (fst kv)) kvs" "list_all2 (\<lambda>a kv.
      remapTable (md_AttributeNameMapping ?m) (buildStrIndex (sortedUniqueStrings (md_AttributeNameMapping ?m))) (fst a) = Some (fst kv) \<and>
      remapTable (md_AttributeStringValueMapping ?m) (buildStrIndex (sortedUniqueStrings (md_AttributeStringValueMapping ?m))) (snd a) =
        Some (snd kv)) (ot_Attributes t) kvs"
    using D(9) by blast
  have distinct: "distinct (map (\<lambda>a. map_of (md_AttributeNameMapping ?m) (fst a)) (ot_Attributes t))"
    using assms(3) t(1) by (auto simp: graph_ok_def)
  define t' where "t' = g_Targets g ! ni_origIdx ?n"
  have t': "ot_ID t' = ot_ID t" "ot_DirectDependencies t' = ot_DirectDependencies t" "ot_RuleType t' = ot_RuleType t"
    "ot_Tags t' = ot_Tags t" "ot_Attributes t' = ot_Attributes t" "ot_Root t' = ot_Root t" "ot_External t' = ot_External t"
    "ot_Hash t' = (if ot_Hash t = [] then [] else EncodeToString (decodeHashHex (ot_Hash t) (nat (opt_HashBytes (e_opts e)))))"
    using t(3) by (simp_all add: t'_def t_def assms(5) TruncateHashes_def)
  have meta: "g_Metadata g = ?m"
    by (simp add: assms(5) TruncateHashes_def)
  have hash: "ot_Hash (targetOut i ?o) = ot_Hash t'"
    using D(3,6) t'(8) by (simp add: targetOut_def)
  have attrs: "ot_Attributes (targetOut i ?o) = foldl (\<lambda>m (k, v). AList.update k v m) [] (sort_key (\<lambda>kv. sint (fst kv)) kvs)"
    by (simp add: targetOut_def kvs(1))
  show ?thesis
    unfolding t'_def [symmetric] viewOf_def Let_def meta hash attrs targetOut_simps t'(1-7) ds(1) ts(1) D(4,5)
    using decoded_label [OF assms(1-4)] t(2) remap_same_string [OF D(2) L(1)] decoded_deps [OF assms(1-3) ds(2)]
      mset_map_remap [OF ts(2) L(2)] decoded_attrs [OF kvs(2) L(3,4) distinct]
    by (simp add: decodedGraph_def encoded_dicts [OF assms(1)])
qed

section \<open>All nodes\<close>

lemma views_decodedGraph:
  assumes "encoded e outs" "limits zc e" "graph_ok (e_g e)"
    and "g = TruncateHashes (e_g e) (nat (opt_HashBytes (e_opts e)))"
  shows "mset (map (viewOf (decodedGraph e outs)) (g_Targets (decodedGraph e outs))) = mset (map (viewOf g) (g_Targets g))"
proof -
  obtain nodes where n: "mapE (mkNode (g_Metadata (e_g e))) (enumerate 0 (g_Targets (e_g e))) = Inr nodes"
      "mset (e_nodes e) = mset nodes"
    using assms(1) unfolding encoded_def by blast
  let ?F = "\<lambda>k. viewOf g (g_Targets g ! k)"
  have len: "length outs = length (e_nodes e)"
    using encoded_sizes(1) [OF assms(1)] .
  have gl: "length (g_Targets g) = length nodes" "length nodes = length (g_Targets (e_g e))"
    using mkNode_nodes [OF n(1)] by (simp_all add: assms(4) TruncateHashes_def)
  have "map (viewOf (decodedGraph e outs)) (g_Targets (decodedGraph e outs)) = map (\<lambda>n. ?F (ni_origIdx n)) (e_nodes e)"
    using len view_targetOut [OF assms(1-3) _ assms(4)]
    by (intro nth_equalityI) (simp_all add: decodedGraph_def nth_enumerate_eq)
  then have "mset (map (viewOf (decodedGraph e outs)) (g_Targets (decodedGraph e outs))) = mset (map (\<lambda>n. ?F (ni_origIdx n)) nodes)"
    using n(2) by (metis mset_map)
  also have "map (\<lambda>n. ?F (ni_origIdx n)) nodes = map (viewOf g) (g_Targets g)"
    using mkNode_nodes [OF n(1)] gl by (intro nth_equalityI) simp_all
  finally show ?thesis .
qed

end
