(* ===== verification/TgbExample.thy ===== *)
theory TgbExample
  imports TgbCodec
begin

text \<open>
  A graph of two targets with a dependency, a tag, an attribute, a cycle sentinel and a sidecar
  entry, run through the encoder; the compressor is the identity. The theorems of the codec are
  applied to it.
\<close>

section \<open>Small graphs are within the limits\<close>

lemma length_encodeDirectory_le: "length (encodeDirectory es) \<le> 10 + 41 * length es"
proof -
  have "length (encodeEntry e) \<le> 41" for e
  proof -
    note L = length_AppendUvarint_le_10
    show ?thesis
      using L [of "ce_id e"] L [of "ce_offset e"] L [of "ce_compressedSize e"] L [of "ce_rawSize e"]
      by (simp add: encodeEntry_def)
  qed
  then have "length (concat (map encodeEntry es)) \<le> 41 * length es"
    by (induction es) (simp_all add: add_mono)
  then show ?thesis
    using length_AppendUvarint_le_10 [of "of_nat (length es)"] by (simp add: encodeDirectory_def)
qed

lemma limits_small:
  assumes raw: "sum_list (map (\<lambda>rc. length (rc_data rc)) (rawCols e)) \<le> 2 ^ 20"
    and stored: "\<And>x. length (zc (zstdLevel (e_opts e)) x) \<le> length x"
    and dicts: "\<forall>d \<in> {e_pkgDict e, e_nameDict e, e_ruleTypeDict e, e_tagDict e, e_attrNameDict e, e_attrValDict e}.
       sum_list (map length d) \<le> 2 ^ 20"
  shows "limits zc e"
proof -
  have "length (compressCol (zc (zstdLevel (e_opts e))) rc) \<le> length (rc_data rc)" for rc
    using stored by (simp add: compressCol_def)
  then have "length (concat (map (compressCol (zc (zstdLevel (e_opts e)))) rcs)) \<le> sum_list (map (\<lambda>rc. length (rc_data rc)) rcs)" for rcs
    by (induction rcs) (simp_all add: add_mono)
  from this [of "rawCols e"] have body: "length (concat (map (compressCol (zc (zstdLevel (e_opts e)))) (rawCols e))) \<le> 2 ^ 20"
    using raw by linarith
  have "length (rc_data rc) \<le> 2 ^ 30" if "rc \<in> set (rawCols e)" for rc
  proof -
    have "length (rc_data rc) \<le> sum_list (map (\<lambda>rc. length (rc_data rc)) (rawCols e))"
      using that by (intro member_le_sum_list) simp_all
    then show ?thesis
      using raw by simp
  qed
  moreover have "length (writeBlob zc e) < 2 ^ 59"
  proof -
    let ?es = "assignOffsets (of_nat headerSize) (map (\<lambda>rc. (rc, compressCol (zc (zstdLevel (e_opts e))) rc)) (rawCols e))"
    have "length (encodeDirectory ?es) \<le> 10 + 41 * 64"
      using length_encodeDirectory_le [of ?es] rawCols_ids(2) [of e] by simp
    then show ?thesis
      using body by (simp add: writeBlob_def Let_def comp_def headerSize_def footerSize_def)
  qed
  moreover have "sum_list (map length d) \<le> dictBudget (frontCode 0 [] d)" if "sum_list (map length d) \<le> 2 ^ 20" for d :: "string list"
    using that by (simp add: dictBudget_def maxDictExpansionFloor_def max_def)
  ultimately show ?thesis
    using dicts raw unfolding limits_def by (auto simp: max_def)
qed

lemma buildColumns_eq: "buildColumns procs e =
    bindE (mapE (encodeNode (columnCtxOf e) (g_Targets (e_g e))) (e_nodes e)) (\<lambda>outs.
     Inr (e \<lparr> e_nameIDs := map no_nameID outs, e_ruleTypeIDs := map no_ruleTypeID outs,
              e_hashRaw := concat (map no_hash outs),
              e_depDeg := map (\<lambda>x. of_nat (length (no_deps x))) outs,
              e_depList := concat (map (\<lambda>(i, x). encodeDeps i (no_deps x)) (enumerate 0 outs)),
              e_tagDeg := map (\<lambda>x. of_nat (length (no_tags x))) outs,
              e_tagList := concat (map (\<lambda>x. encodeTags (no_tags x)) outs),
              e_attrDeg := map (\<lambda>x. of_nat (length (no_attrs x))) outs,
              e_attrNms := concat (map (\<lambda>x. concat (map (\<lambda>kv. AppendUvarint (scast (fst kv))) (no_attrs x))) outs),
              e_attrVls := concat (map (\<lambda>x. concat (map (\<lambda>kv. AppendUvarint (scast (snd kv))) (no_attrs x))) outs),
              e_rootBits := bitset (map no_root outs), e_extBits := bitset (map no_ext outs),
              e_hashEmptyBits := bitset (map no_hashEmpty outs) \<rparr>))"
  by (simp only: buildColumns_def runShards_eq columnCtxOf_def Let_def)

section \<open>The example\<close>

definition exampleGraph :: Graph where
 "exampleGraph = \<lparr> g_Targets = [\<lparr> ot_ID = 7, ot_Hash = ''0011223344556677'', ot_DirectDependencies = [3], ot_RuleType = 1,
           ot_Tags = [5], ot_Root = True, ot_External = False, ot_Attributes = [(2, 9)] \<rparr>,
           \<lparr> ot_ID = 3, ot_Hash = [], ot_DirectDependencies = [], ot_RuleType = 1,
           ot_Tags = [], ot_Root = False, ot_External = True, ot_Attributes = [] \<rparr>],
    g_Metadata = \<lparr> md_TargetIDMapping = [(7, ''//b:x''), (3, ''//a:y'')], md_RuleTypeMapping = [(1, ''lib'')],
      md_TagMapping = [(5, ''t'')], md_AttributeNameMapping = [(2, ''n'')], md_AttributeStringValueMapping = [(9, ''v'')],
      md_AllTargetsFileHashes = [(''k'', ''h'')] \<rparr> \<rparr>"

definition exampleOptions :: EncodeOptions where
  "exampleOptions = \<lparr> opt_ZstdLevel = 0, opt_HashBytes = 8, opt_BlockSize = 512, opt_Serial = False \<rparr>"

definition exampleEncoder :: encoder where
  "exampleEncoder = \<lparr> e_opts = exampleOptions, e_g = exampleGraph,
     e_nodes = [\<lparr>ni_label = ''//a:y'', ni_pkg = ''//a'', ni_name = ''y'', ni_origIdx = 1, ni_origID = 3\<rparr>,
           \<lparr>ni_label = ''//b:x'', ni_pkg = ''//b'', ni_name = ''x'', ni_origIdx = 0, ni_origID = 7\<rparr>],
     e_pkgDict = [''//a'', ''//b''], e_nameDict = [''x'', ''y''],
     e_ruleTypeDict = [''lib''], e_tagDict = [''t''], e_attrNameDict = [''n''], e_attrValDict = [''v''], e_pkgIDs = [0, 1],
     e_nameIDs = [1, 0], e_ruleTypeIDs = [0, 0], e_hashRaw = [0,0,0,0,0,0,0,0, 0,17,34,51,68,85,102,119], e_depDeg = [0, 1], e_depList = [1], e_tagDeg = [0, 1],
     e_tagList = [0], e_attrDeg = [0, 1], e_attrNms = [0], e_attrVls = [0], e_rootBits = [2], e_extBits = [1],
     e_hashEmptyBits = [1], e_blockStarts = [0, 1], e_blockDigests = [0, 0] \<rparr>"

lemma example_sort: "sort_key nodeKey
     [\<lparr>ni_label = ''//b:x'', ni_pkg = ''//b'', ni_name = ''x'', ni_origIdx = 0, ni_origID = 7\<rparr>,
     \<lparr>ni_label = ''//a:y'', ni_pkg = ''//a'', ni_name = ''y'', ni_origIdx = Suc 0, ni_origID = 3\<rparr>] =
    [\<lparr>ni_label = ''//a:y'', ni_pkg = ''//a'', ni_name = ''y'', ni_origIdx = Suc 0, ni_origID = 3\<rparr>,
           \<lparr>ni_label = ''//b:x'', ni_pkg = ''//b'', ni_name = ''x'', ni_origIdx = 0, ni_origID = 7\<rparr>]"
 by simp

lemma example_mkNode: "mapE (mkNode (g_Metadata exampleGraph)) (enumerate 0 (g_Targets exampleGraph)) =
 Inr [\<lparr>ni_label = ''//b:x'', ni_pkg = ''//b'', ni_name = ''x'', ni_origIdx = 0, ni_origID = 7\<rparr>,
     \<lparr>ni_label = ''//a:y'', ni_pkg = ''//a'', ni_name = ''y'', ni_origIdx = Suc 0, ni_origID = 3\<rparr>]"
 by (simp add: exampleGraph_def mkNode_def splitLabel_def enumerate_eq_zip upt_rec)

lemma example_buildNodes: "buildNodes 1 (zeroEncoder exampleGraph exampleOptions) = Inr (zeroEncoder exampleGraph exampleOptions \<lparr> e_nodes := e_nodes exampleEncoder \<rparr>)"
  by (simp add: buildNodes_def example_mkNode parallelSortFunc_def example_sort exampleEncoder_def zeroEncoder_def del: sort_key_simps)

lemma example_hash: "hexDecodeInto 8 ''0011223344556677'' = Inr [0,0x11,0x22,0x33,0x44,0x55,0x66,0x77]" by code_simp

lemma example_buildDicts: "buildDicts 1 (zeroEncoder exampleGraph exampleOptions \<lparr> e_nodes := e_nodes exampleEncoder \<rparr>) =
   zeroEncoder exampleGraph exampleOptions \<lparr> e_nodes := e_nodes exampleEncoder, e_pkgDict := [''//a'', ''//b''], e_nameDict := [''x'', ''y''],
     e_ruleTypeDict := [''lib''], e_tagDict := [''t''], e_attrNameDict := [''n''], e_attrValDict := [''v''], e_pkgIDs := [0, 1] \<rparr>"
  by (simp add: buildDicts_def Let_def parallelSort_strings exampleEncoder_def exampleGraph_def sortedUniqueStrings_def zeroEncoder_def)

lemma example_resolve: "resolveID (e_nodes exampleEncoder) 3 = Some 0"
  by (simp add: resolveID_def maxOrigID_def idSlice_def exampleEncoder_def enumerate_eq_zip upt_rec Let_def numeral_eq_Suc)

lemma example_encodeNode: "mapE (encodeNode (columnCtxOf exampleEncoder) (g_Targets exampleGraph)) (e_nodes exampleEncoder) =
  Inr [\<lparr> no_nameID = 1, no_ruleTypeID = 0, no_hash = [0,0,0,0,0,0,0,0], no_hashEmpty = True, no_deps = [], no_tags = [], no_attrs = [], no_root = False, no_ext = True \<rparr>,
     \<lparr> no_nameID = 0, no_ruleTypeID = 0, no_hash = [0,17,34,51,68,85,102,119], no_hashEmpty = False, no_deps = [0], no_tags = [0], no_attrs = [(0,0)], no_root = True, no_ext = False \<rparr>]"
proof -
  have f: "e_nodes exampleEncoder = [\<lparr>ni_label = ''//a:y'', ni_pkg = ''//a'', ni_name = ''y'', ni_origIdx = 1, ni_origID = 3\<rparr>,
           \<lparr>ni_label = ''//b:x'', ni_pkg = ''//b'', ni_name = ''x'', ni_origIdx = 0, ni_origID = 7\<rparr>]"
    "e_g exampleEncoder = exampleGraph" "opt_HashBytes (e_opts exampleEncoder) = 8"
   "e_ruleTypeDict exampleEncoder = [''lib'']" "e_tagDict exampleEncoder = [''t'']" "e_attrNameDict exampleEncoder = [''n'']" "e_attrValDict exampleEncoder = [''v'']"
   "e_nameDict exampleEncoder = [''x'', ''y'']"
    by (simp_all add: exampleEncoder_def exampleOptions_def)
  have rep: "replicate 8 (0 :: byte) = [0,0,0,0,0,0,0,0]" by (simp add: numeral_eq_Suc)
  show ?thesis
  using example_resolve by (simp add: f encodeNode_def Let_def exampleGraph_def remapTable_def buildStrIndex_def lookup0_def lookupE_def example_hash rep)
qed

lemma example_buildColumns: "buildColumns 1 (zeroEncoder exampleGraph exampleOptions \<lparr> e_nodes := e_nodes exampleEncoder, e_pkgDict := [''//a'', ''//b''], e_nameDict := [''x'', ''y''],
     e_ruleTypeDict := [''lib''], e_tagDict := [''t''], e_attrNameDict := [''n''], e_attrValDict := [''v''], e_pkgIDs := [0, 1] \<rparr>) =
   Inr (exampleEncoder \<lparr> e_blockStarts := [], e_blockDigests := [] \<rparr>)" (is "buildColumns 1 ?e = _")
proof -
  have ctx: "columnCtxOf ?e = columnCtxOf exampleEncoder"
    by (simp add: columnCtxOf_def Let_def zeroEncoder_def exampleEncoder_def)
  have [simp]: "AppendUvarint 0 = [0]" "AppendUvarint 1 = [1]" "encodeDeps (Suc 0) [0] = [1]" "encodeDeps 0 [] = []" "bitset [False, True] = [2]" "bitset [True, False] = [1]"
    by code_simp+
  have m: "mapE (encodeNode (columnCtxOf ?e) (g_Targets (e_g ?e))) (e_nodes ?e) = mapE (encodeNode (columnCtxOf exampleEncoder) (g_Targets exampleGraph)) (e_nodes exampleEncoder)"
    by (simp only: ctx) (simp add: zeroEncoder_def)
  show ?thesis
    unfolding buildColumns_eq m example_encodeNode bindE_simps
    by (simp add: zeroEncoder_def exampleEncoder_def encodeTags_def enumerate_eq_zip upt_rec)
qed

lemma example_newEncoder: "newEncoder (\<lambda>_. 0) 1 exampleGraph exampleOptions = Inr exampleEncoder"
  unfolding newEncoder_def example_buildNodes bindE_simps example_buildDicts example_buildColumns
  by (simp add: buildBlocks_def exampleEncoder_def blockDigest_def exampleOptions_def Let_def)

definition storeAll :: "int \<Rightarrow> bytes \<Rightarrow> bytes" where
  "storeAll level x = x"

definition loadAll :: "nat \<Rightarrow> bytes \<Rightarrow> bytes option" where
  "loadAll m x = Some x"

lemma example_limits: "limits storeAll exampleEncoder"
proof (rule limits_small)
 have len: "map (\<lambda>rc. length (rc_data rc)) (rawCols exampleEncoder) = [17, 15, 2, 2, 16, 2, 1, 2, 14, 2, 1, 12, 2, 1, 1, 12, 12, 3, 16, 2, 5]"
   by code_simp
 then show "sum_list (map (\<lambda>rc. length (rc_data rc)) (rawCols exampleEncoder)) \<le> 2 ^ 20" by simp
qed (simp_all add: exampleEncoder_def storeAll_def)

lemma example_zstd: "zstd_ok storeAll loadAll"
  by (simp add: zstd_ok_def storeAll_def loadAll_def)

lemma example_Encode:
  "Encode storeAll (\<lambda>_. 0) 1 exampleGraph exampleOptions = Inr (writeBlob storeAll exampleEncoder)"
proof -
  have "fillDefaults exampleOptions = exampleOptions"
    by (simp add: fillDefaults_def exampleOptions_def)
  then show ?thesis
    using example_newEncoder by (simp add: Encode_def Let_def) (simp add: exampleOptions_def)
qed

lemma example_graph_ok: "graph_ok exampleGraph"
  by (simp add: graph_ok_def exampleGraph_def splitLabel_def joinLabel_def strmap_ok_def)

end
