(* ===== verification/TgbProperties.thy ===== *)
theory TgbProperties
  imports TgbExample
begin

text \<open>
  The results about the codec as a whole: decoding inverts encoding, the reader's caches cannot
  be observed, a validated blob cannot make a column read panic, node search is correct, and the
  bytes written do not depend on the parallelism.
\<close>

section \<open>Encoding succeeds within the limits\<close>

definition encoder_limits :: "(int \<Rightarrow> bytes \<Rightarrow> bytes) \<Rightarrow> (bytes \<Rightarrow> u64) \<Rightarrow> nat \<Rightarrow> Graph \<Rightarrow> EncodeOptions \<Rightarrow> bool" where
  "encoder_limits zc xxh procs g opts =
    (case newEncoder xxh procs g (fillDefaults opts) of Inl _ \<Rightarrow> False | Inr e \<Rightarrow> limits zc e)"

lemma Encode_Inr:
  assumes "Encode zc xxh procs g opts = Inr blob" "encoder_limits zc xxh procs g opts"
  shows "\<exists>e outs. encoded e outs \<and> limits zc e \<and> options_ok (e_opts e) \<and> e_g e = g \<and>
    e_opts e = fillDefaults opts \<and> blob = writeBlob zc e"
proof -
  let ?o = "fillDefaults opts"
  obtain e where e: "newEncoder xxh procs g ?o = Inr e" "blob = writeBlob zc e" "options_ok ?o"
    using assms(1) by (auto simp: Encode_def Let_def bindE_eq_Inr options_ok_def split: if_splits)
  then have "limits zc e"
    using assms(2) by (simp add: encoder_limits_def)
  then show ?thesis
    using newEncoder_encoded [OF e(1)] e by auto
qed

lemma example_encoder_limits: "encoder_limits storeAll (\<lambda>_. 0) 1 exampleGraph exampleOptions"
proof -
  have "fillDefaults exampleOptions = exampleOptions"
    by (simp add: fillDefaults_def exampleOptions_def)
  then show ?thesis
    using example_newEncoder example_limits by (simp add: encoder_limits_def)
qed

section \<open>Round trip\<close>

lemma mset_fileHashesOf: "strmap_ok (md_AllTargetsFileHashes (g_Metadata (e_g e))) \<Longrightarrow>
    mset (fileHashesOf e) = mset (md_AllTargetsFileHashes (g_Metadata (e_g e)))"
proof -
  let ?m = "md_AllTargetsFileHashes (g_Metadata (e_g e))"
  assume "strmap_ok ?m"
  then have d: "distinct (map fst ?m)"
    by (simp add: strmap_ok_def)
  have "mset (fileHashesOf e) = image_mset (\<lambda>k. (k, the (map_of ?m k))) (mset (map fst ?m))"
    by (simp add: fileHashesOf_def Let_def)
  also have "\<dots> = mset (map (\<lambda>kv. (fst kv, the (map_of ?m (fst kv)))) ?m)"
    by (simp add: multiset.map_comp comp_def)
  also have "map (\<lambda>kv. (fst kv, the (map_of ?m (fst kv)))) ?m = ?m"
    using d by (intro map_idI) auto
  finally show ?thesis .
qed

text \<open>C1: encoding a graph and decoding the blob gives back the graph. Whenever \<open>Encode\<close> succeeds on a
  graph within the reader's limits, \<open>Decode\<close> succeeds on the blob; its targets are numbered 0, 1, 2 and so on;
  and read through the metadata (label, hash truncated to the stride, rule type, dependency
  labels, tags, attributes, flags) they are exactly the targets of the graph; the sidecar file
  hashes are the same map. This holds for every compressor that decompresses to its input.\<close>

theorem Decode_Encode:
  assumes "zstd_ok zc zd" "graph_ok g" "Encode zc xxh procs g opts = Inr blob" "encoder_limits zc xxh procs g opts"
  shows "\<exists>g'. Decode zd blob = Inr g' \<and>
    map ot_ID (g_Targets g') = map of_nat [0..<length (g_Targets g)] \<and>
    mset (map (viewOf g') (g_Targets g')) =
      (let h = TruncateHashes g (nat (opt_HashBytes (fillDefaults opts))) in mset (map (viewOf h) (g_Targets h))) \<and>
    mset (md_AllTargetsFileHashes (g_Metadata g')) = mset (md_AllTargetsFileHashes (g_Metadata g))"
proof -
  obtain e outs where e: "encoded e outs" "limits zc e" "options_ok (e_opts e)" "e_g e = g"
      "e_opts e = fillDefaults opts" "blob = writeBlob zc e"
    using Encode_Inr [OF assms(3,4)] by blast
  have sm: "strmap_ok (md_AllTargetsFileHashes (g_Metadata (e_g e)))"
    using assms(2) e(4) by (simp add: graph_ok_def)
  have views: "mset (map (viewOf (decodedGraph e outs)) (g_Targets (decodedGraph e outs))) =
      (let h = TruncateHashes g (nat (opt_HashBytes (fillDefaults opts))) in mset (map (viewOf h) (g_Targets h)))"
    using views_decodedGraph [OF e(1,2) _ refl] assms(2) e(4,5) by (simp add: Let_def)
  have "length outs = length (g_Targets g)"
    using arg_cong [OF views, of size] by (simp add: decodedGraph_def Let_def TruncateHashes_def)
  then have "map ot_ID (g_Targets (decodedGraph e outs)) = map of_nat [0..<length (g_Targets g)]"
    by (intro nth_equalityI) (simp_all add: decodedGraph_def nth_enumerate_eq)
  moreover have "mset (md_AllTargetsFileHashes (g_Metadata (decodedGraph e outs))) = mset (md_AllTargetsFileHashes (g_Metadata g))"
    using mset_fileHashesOf [OF sm] e(4) by (simp add: decodedGraph_def)
  ultimately show ?thesis
    using views Decode_writeBlob [OF e(1,2) assms(1) e(3) sm] unfolding e(6) by blast
qed

theorem Decode_Encode_witness:
  "\<exists>blob g'. Encode storeAll (\<lambda>_. 0) 1 exampleGraph exampleOptions = Inr blob \<and> Decode loadAll blob = Inr g' \<and>
    length (g_Targets g') = 2"
proof -
  obtain g' where g': "Decode loadAll (writeBlob storeAll exampleEncoder) = Inr g'"
      "map ot_ID (g_Targets g') = map of_nat [0..<length (g_Targets exampleGraph)]"
    using Decode_Encode [OF example_zstd example_graph_ok example_Encode example_encoder_limits] by blast
  have "length (g_Targets g') = 2"
    using arg_cong [OF g'(2), of length] by (simp add: exampleGraph_def)
  then show ?thesis
    using example_Encode g'(1) by blast
qed

section \<open>Laziness\<close>

text \<open>C2: laziness is invisible. Open a blob, then call any accessors in any order, failing ones
  included: decoding, label lookup, node search, hashes, dependencies, tags and attributes all
  return exactly what they return on the freshly opened reader.\<close>

theorem reader_history_independent:
  assumes "NewReader data = Inr r0" "(reader_step zd)\<^sup>*\<^sup>* r0 r"
  shows "fst (DecodeGraph zd r) = fst (DecodeGraph zd r0) \<and>
    fst (Label zd node r) = fst (Label zd node r0) \<and>
    fst (FindNode zd pkg name r) = fst (FindNode zd pkg name r0) \<and>
    fst (Hash zd node r) = fst (Hash zd node r0) \<and>
    fst (DepsCSR zd r) = fst (DepsCSR zd r0) \<and>
    fst (Deps zd node buf r) = fst (Deps zd node buf r0) \<and>
    fst (Tags zd node buf r) = fst (Tags zd node buf r0) \<and>
    fst (Attrs zd node r) = fst (Attrs zd node r0) \<and>
    fst (RuleType zd node r) = fst (RuleType zd node r0) \<and>
    fst (BlockStart zd k r) = fst (BlockStart zd k r0)"
proof -
  have r0: "base r0 = r0"
    using NewReader_fresh [OF assms(1)] by simp
  then have ok0: "cache_ok zd r0"
    using cache_ok_base [of zd r0] by simp
  have r: "cache_ok zd r" "base r = base r0"
    using reader_steps_inv [OF assms(2) ok0] by auto
  show ?thesis
    using decodeGraph.same_on_equal_blobs [OF r(1) ok0 r(2)] label.same_on_equal_blobs [OF r(1) ok0 r(2)]
      findNode.same_on_equal_blobs [OF r(1) ok0 r(2)] hash.same_on_equal_blobs [OF r(1) ok0 r(2)]
      depsCSR.same_on_equal_blobs [OF r(1) ok0 r(2)] deps.same_on_equal_blobs [OF r(1) ok0 r(2)]
      tags.same_on_equal_blobs [OF r(1) ok0 r(2)] attrs.same_on_equal_blobs [OF r(1) ok0 r(2)]
      ruleType.same_on_equal_blobs [OF r(1) ok0 r(2)] blockStart.same_on_equal_blobs [OF r(1) ok0 r(2)]
    by simp
qed

lemma example_NewReader: "NewReader (writeBlob storeAll exampleEncoder) = Inr (openedReader storeAll exampleEncoder)"
proof -
  obtain outs where "encoded exampleEncoder outs"
    using newEncoder_encoded [OF example_newEncoder] by blast
  moreover have "options_ok (e_opts exampleEncoder)"
    by (simp add: options_ok_def exampleEncoder_def exampleOptions_def)
  ultimately show ?thesis
    using NewReader_written [OF _ example_limits _ example_zstd] by (simp add: openedReader_def)
qed

theorem reader_history_independent_witness:
  "let r0 = openedReader storeAll exampleEncoder; r = snd (Label loadAll 0 r0) in
    fst (DecodeGraph loadAll r) = fst (DecodeGraph loadAll r0)"
proof -
  let ?r0 = "openedReader storeAll exampleEncoder"
  have "(reader_step loadAll)\<^sup>*\<^sup>* ?r0 (snd (Label loadAll 0 ?r0))"
    by (rule r_into_rtranclp) (rule step_Label)
  from reader_history_independent [OF example_NewReader this] show ?thesis
    by (simp add: Let_def)
qed

section \<open>Validated blobs\<close>

text \<open>What \<open>validateColumns\<close> guarantees of every directory entry of an opened reader.\<close>

definition columnsInRange :: "Reader \<Rightarrow> bool" where
  "columnsInRange r \<longleftrightarrow> (\<forall>i e. map_of (rd_cols r) i = Some e \<longrightarrow>
     unat (ce_offset e) \<le> unat (ce_offset e + ce_compressedSize e) \<and>
     unat (ce_offset e + ce_compressedSize e) \<le> length (rd_data r) \<and> unat (ce_rawSize e) \<le> 2 ^ 30 \<and>
     (ce_codec e = codecRaw \<longrightarrow> ce_rawSize e = ce_compressedSize e))"

lemma validateColumn_Inr:
  assumes "validateColumn dirOff e = Inr ()"
  shows "unat (ce_offset e) \<le> unat (ce_offset e + ce_compressedSize e)"
    "unat (ce_offset e + ce_compressedSize e) \<le> unat dirOff" "unat (ce_rawSize e) \<le> 2 ^ 30"
    "ce_codec e = codecRaw \<Longrightarrow> ce_rawSize e = ce_compressedSize e"
  using assms unat_maxColumnRawSize
  by (auto simp: validateColumn_def Let_def word_less_nat_alt not_less split: if_splits)

lemma mapE_Inr_mem: "mapE f xs = Inr ys \<Longrightarrow> x \<in> set xs \<Longrightarrow> \<exists>y. f x = Inr y"
  by (induction xs arbitrary: ys) (auto simp: bindE_eq_Inr)

lemma NewReader_Inr:
  assumes "NewReader data = Inr r"
  shows "columnsInRange r" "rd_data r = data"
    "0 < nodeCount (rd_hdr r) \<Longrightarrow> \<exists>e. map_of (rd_cols r) colDeg = Some e \<and> nodeCount (rd_hdr r) \<le> ce_rawSize e"
    "0 < nodeCount (rd_hdr r) \<Longrightarrow> \<exists>e. map_of (rd_cols r) colHash = Some e \<and>
       ce_rawSize e = nodeCount (rd_hdr r) * ucast (hashBytes (rd_hdr r))"
    "hashBytes (rd_hdr r) \<in> {8, 16, 20}"
proof -
  obtain hdr where h: "decodeHeader (take headerSize data) = Inr hdr"
    using assms by (auto simp: NewReader_def bindE_eq_Inr split: if_splits)
  obtain ftr where f: "decodeFooter (drop (length data - footerSize) data) = Inr ftr"
    using assms h by (auto simp: NewReader_def bindE_eq_Inr split: if_splits)
  have off: "\<not> (of_nat (length data - footerSize) :: u64) < dirOffset ftr"
    using assms h f by (auto simp: NewReader_def simp del: of_nat_diff split: if_splits)
  obtain cols where c: "validateColumns hdr cols (of_nat (length data)) (dirOffset ftr) = Inr ()" "r = freshReader data hdr cols"
    using assms h f off by (auto simp: NewReader_def Let_def bindE_eq_Inr simp del: of_nat_diff split: if_splits)
  note s = h off c
  have "unat (dirOffset ftr) \<le> length data"
  proof -
    have "unat (dirOffset ftr) \<le> unat (of_nat (length data - footerSize) :: u64)"
      using s(2) by (simp add: not_less word_le_nat_alt)
    also have "\<dots> \<le> length data - footerSize"
      by (simp add: unat_of_nat del: of_nat_diff)
    finally show ?thesis
      by simp
  qed
  moreover have "validateColumn (dirOffset ftr) e = Inr ()" if "map_of cols i = Some e" for i e
    using s(3) map_of_SomeD [OF that] mapE_Inr_mem
    by (fastforce simp: validateColumns_def bindE_eq_Inr split: if_splits)
  ultimately show "columnsInRange r"
    unfolding columnsInRange_def s(4) using validateColumn_Inr by (fastforce simp: freshReader_def dest: order_trans)
  show "rd_data r = data"
    by (simp add: s(4) freshReader_def)
  show "\<exists>e. map_of (rd_cols r) colDeg = Some e \<and> nodeCount (rd_hdr r) \<le> ce_rawSize e"
    if "0 < nodeCount (rd_hdr r)"
    using s(3) that by (auto simp: s(4) freshReader_def validateColumns_def bindE_eq_Inr Let_def colRawSize_def not_less
      split: if_splits option.splits)
  show "\<exists>e. map_of (rd_cols r) colHash = Some e \<and> ce_rawSize e = nodeCount (rd_hdr r) * ucast (hashBytes (rd_hdr r))"
    if "0 < nodeCount (rd_hdr r)"
    using s(3) that by (auto simp: s(4) freshReader_def validateColumns_def bindE_eq_Inr Let_def colRawSize_def
      split: if_splits option.splits)
  show "hashBytes (rd_hdr r) \<in> {8, 16, 20}"
    using s(1) by (auto simp: s(4) freshReader_def decodeHeader_def Let_def split: if_splits)
qed

lemma columnsInRange_base: "base r = base r0 \<Longrightarrow> columnsInRange r0 \<Longrightarrow> columnsInRange r"
proof -
  assume a: "base r = base r0" "columnsInRange r0"
  then have "rd_data r = rd_data r0" "rd_cols r = rd_cols r0"
    by (auto simp: base_def freshReader_def)
  then show ?thesis
    using a(2) by (simp add: columnsInRange_def)
qed

lemma getColumn_no_panic: "columnsInRange r \<Longrightarrow> fst (getColumn zd i r) \<noteq> Inl Panic"
  by (auto simp: getColumn_def getColumnLocked_def columnsInRange_def go_slice_def Let_def split: option.splits)

lemma Hashes_in_range: "columnsInRange r \<Longrightarrow> \<exists>hs. Hashes r = Inr hs"
  by (auto simp: Hashes_def columnsInRange_def go_slice_def panicE_def split: option.splits)

lemma BlockDigests_in_range: "columnsInRange r \<Longrightarrow> \<exists>ds. BlockDigests r = Inr ds"
  by (auto simp: BlockDigests_def columnsInRange_def go_slice_def panicE_def split: option.splits)

text \<open>The raw HASH column is exactly one stride per node: slicing it by node index stays inside.\<close>

lemma length_Hashes:
  assumes "NewReader data = Inr r" "Hashes r = Inr hs"
    and "\<forall>e. map_of (rd_cols r) colHash = Some e \<longrightarrow> ce_codec e = codecRaw" "0 < NodeCount r"
  shows "length hs = NodeCount r * HashBytes r"
proof -
  note N = NewReader_Inr [OF assms(1)]
  have n: "0 < nodeCount (rd_hdr r)"
    using assms(4) by (simp add: NodeCount_def word_neq_0_conv unat_gt_0)
  obtain d h where d: "map_of (rd_cols r) colDeg = Some d" "nodeCount (rd_hdr r) \<le> ce_rawSize d"
    and h: "map_of (rd_cols r) colHash = Some h" "ce_rawSize h = nodeCount (rd_hdr r) * ucast (hashBytes (rd_hdr r))"
    using N(3,4) n by blast
  have "unat (nodeCount (rd_hdr r)) \<le> unat (ce_rawSize d)"
    using d(2) by (simp add: word_le_nat_alt)
  also have "\<dots> \<le> 2 ^ 30"
    using N(1) d(1) by (auto simp: columnsInRange_def)
  finally have "unat (nodeCount (rd_hdr r)) \<le> 2 ^ 30" .
  moreover have hb: "unat (hashBytes (rd_hdr r)) \<le> 20" "unat (ucast (hashBytes (rd_hdr r)) :: u64) = unat (hashBytes (rd_hdr r))"
    using N(5) by auto
  ultimately have "unat (nodeCount (rd_hdr r)) * unat (hashBytes (rd_hdr r)) \<le> 2 ^ 30 * 20"
    by (intro mult_le_mono) simp_all
  then have size: "unat (ce_rawSize h) = NodeCount r * HashBytes r"
    using hb(2) by (simp add: h(2) unat_word_ariths NodeCount_def HashBytes_def)
  have "0 < NodeCount r * HashBytes r"
    using assms(4) N(5) by (auto simp: HashBytes_def)
  then have "ce_rawSize h \<noteq> 0"
    using size by auto
  then have hs: "go_slice (rd_data r) (unat (ce_offset h)) (unat (ce_offset h + ce_compressedSize h)) = Some hs"
    using assms(2) h(1) by (auto simp: Hashes_def panicE_def split: option.splits)
  have "unat (ce_offset h) \<le> unat (ce_offset h + ce_compressedSize h)" "ce_rawSize h = ce_compressedSize h"
    using N(1) h(1) assms(3) by (auto simp: columnsInRange_def)
  then have "unat (ce_offset h + ce_compressedSize h) = unat (ce_offset h) + unat (ce_rawSize h)"
    by (metis unat_plus_simple word_le_nat_alt)
  then show ?thesis
    using hs size by (auto simp: go_slice_def split: if_splits)
qed

text \<open>C3: validation makes column access safe. Whatever bytes \<open>NewReader\<close> accepts, and whatever
  accessors have run since, reading a column, the hash column or the block digests never
  slices out of range; and when the HASH column is stored raw it holds exactly one stride per
  node, so that slicing it by node index stays inside it.\<close>

theorem opened_reader_column_access_safe:
  assumes "NewReader data = Inr r0" "(reader_step zd)\<^sup>*\<^sup>* r0 r"
  shows "fst (getColumn zd i r) \<noteq> Inl Panic \<and>
    (\<exists>ds. BlockDigests r = Inr ds) \<and>
    (\<exists>hs. Hashes r = Inr hs \<and>
      (0 < NodeCount r \<and> (\<forall>e. map_of (rd_cols r0) colHash = Some e \<longrightarrow> ce_codec e = codecRaw) \<longrightarrow>
        length hs = NodeCount r * HashBytes r))"
proof -
  have r0: "base r0 = r0"
    using NewReader_fresh [OF assms(1)] by simp
  then have "cache_ok zd r0"
    using cache_ok_base [of zd r0] by simp
  then have b: "base r = base r0"
    using reader_steps_inv [OF assms(2)] by simp
  have range: "columnsInRange r"
    using columnsInRange_base [OF b NewReader_Inr(1) [OF assms(1)]] .
  have "Hashes r = Hashes r0" "NodeCount r = NodeCount r0" "HashBytes r = HashBytes r0"
    using b by (metis Hashes_base NodeCount_base HashBytes_base)+
  then show ?thesis
    using getColumn_no_panic [OF range] BlockDigests_in_range [OF range] Hashes_in_range [OF range]
      length_Hashes [OF assms(1)] by auto
qed

theorem opened_reader_column_access_safe_witness:
  "\<exists>r. NewReader (writeBlob storeAll exampleEncoder) = Inr r \<and> fst (getColumn loadAll colDeps r) \<noteq> Inl Panic"
  using opened_reader_column_access_safe [OF example_NewReader rtranclp.rtrancl_refl, of loadAll colDeps] example_NewReader
  by blast

section \<open>Node search\<close>

lemma evals_orElseS: "evals zd r0 m x \<Longrightarrow> evals zd r0 (orElseS d m) x"
  by (auto simp: evals_def orElseS_def orElse_def split: prod.splits)

lemma evals_SplitLabel:
  assumes "encoded e outs" "limits zc e" "zstd_ok zc zd" "i < length (e_nodes e)"
  shows "evals zd (openedReader zc e) (SplitLabel zd i) (nodeKey (e_nodes e ! i))"
proof -
  let ?r0 = "openedReader zc e"
  have len: "length outs = length (e_nodes e)" "length (e_nodes e) < 2 ^ 31"
    using encoded_sizes(1) [OF assms(1)] NodeCount_opened(2) [OF assms(1,2) base_openedReader] by simp_all
  have f: "pkgRuns None (- 1) (e_nodes e) = (e_pkgDict e, e_pkgIDs e)" "e_nameIDs e = map no_nameID outs"
    using assms(1) unfolding encoded_def by blast+
  have pkg: "length (e_pkgIDs e) = length (e_nodes e)" "dict_pos (e_pkgDict e) (ni_pkg (e_nodes e ! i)) (e_pkgIDs e ! i)"
    using pkgRuns_dict_pos [OF f(1) len(2)] assms(4) by auto
  have name: "dict_pos (e_nameDict e) (ni_name (e_nodes e ! i)) (e_nameIDs e ! i)"
    using encoded_nameID [OF assms(1,2)] assms(4) len f(2) by simp
  have p: "evals zd ?r0 (getPkgIDColumn zd) (e_pkgIDs e)"
    unfolding getPkgIDColumn_def
    by (rule evals_cached [OF pkgIDColumn.lazy_accessor_axioms [unfolded getPkgIDColumn_def]])
      (auto intro!: evals_bindS [OF evals_columns(1) [OF assms(2,3)]] simp: codec_simps evals_retS)
  have n: "evals zd ?r0 (getNameIDColumn zd) (e_nameIDs e)"
    unfolding getNameIDColumn_def
    by (rule evals_cached [OF nameIDColumn.lazy_accessor_axioms [unfolded getNameIDColumn_def]])
      (auto intro!: evals_bindS [OF p] evals_bindS [OF evals_columns(2) [OF assms(2,3)]] simp: codec_simps pkg(1) f(2) len evals_retS)
  have P: "evals zd ?r0 (PackageID zd i) (e_pkgIDs e ! i)"
    unfolding PackageID_def by (rule evals_bindS [OF evals_orElseS [OF p]]) (simp add: assms(4) pkg(1) evals_retS)
  have N: "evals zd ?r0 (NameID zd i) (e_nameIDs e ! i)"
    unfolding NameID_def by (rule evals_bindS [OF evals_orElseS [OF n]]) (simp add: assms(4) f(2) len evals_retS)
  have D: "dictAt (e_pkgDict e) (sint (e_pkgIDs e ! i)) = Inr (ni_pkg (e_nodes e ! i))"
    "dictAt (e_nameDict e) (sint (e_nameIDs e ! i)) = Inr (ni_name (e_nodes e ! i))"
    using pkg(2) name by (auto simp: dictAt_def dict_pos_def)
  show ?thesis
    unfolding SplitLabel_def
    by (rule evals_bindS [OF P], rule evals_bindS [OF N], rule evals_orElseS,
        rule evals_bindS [OF evals_each_dict(1) [OF assms(2,3)]], rule evals_bindS [OF evals_each_dict(2) [OF assms(2,3)]],
        rule evals_bindS [OF evals_liftS [OF D(1)]], rule evals_bindS [OF evals_liftS [OF D(2)]], rule evals_retS)
qed

lemma evals_searchS:
  assumes "\<And>h. h < j \<Longrightarrow> evals zd r0 (f h) (p h)" "\<And>a b. a \<le> b \<Longrightarrow> b < j \<Longrightarrow> p a \<Longrightarrow> p b" "i \<le> j"
  shows "\<exists>k. evals zd r0 (searchS f i j) k \<and> i \<le> k \<and> k \<le> j \<and> (\<forall>h. i \<le> h \<and> h < k \<longrightarrow> \<not> p h) \<and> (\<forall>h. k \<le> h \<and> h < j \<longrightarrow> p h)"
  using assms
proof (induction f i j rule: searchS.induct)
  case (1 f i j)
  show ?case
  proof (cases "i < j")
    case False
    then show ?thesis
      using "1.prems"(3) by (subst searchS.simps) (auto intro!: exI [of _ i] simp: evals_retS)
  next
    case True
    let ?h = "(i + j) div 2"
    have h: "i \<le> ?h" "?h < j"
      using True by auto
    show ?thesis
    proof (cases "p ?h")
      case False
      have "\<exists>k. evals zd r0 (searchS f (Suc ?h) j) k \<and> Suc ?h \<le> k \<and> k \<le> j \<and> (\<forall>h. Suc ?h \<le> h \<and> h < k \<longrightarrow> \<not> p h) \<and> (\<forall>h. k \<le> h \<and> h < j \<longrightarrow> p h)"
        using "1.IH"(1) [OF True refl, of False] "1.prems" h by auto
      then obtain k where k: "evals zd r0 (searchS f (Suc ?h) j) k" "Suc ?h \<le> k" "k \<le> j"
          "\<forall>h. Suc ?h \<le> h \<and> h < k \<longrightarrow> \<not> p h" "\<forall>h. k \<le> h \<and> h < j \<longrightarrow> p h"
        by blast
      have "evals zd r0 (searchS f i j) k"
        using True by (subst searchS.simps) (auto simp: Let_def False intro!: evals_bindS [OF "1.prems"(1) [OF h(2)]] k(1))
      moreover have "\<not> p a" if "i \<le> a" "a < k" for a
        using that k(4) False "1.prems"(2) [of a ?h] h(2) by (metis not_less_eq_eq)
      ultimately show ?thesis
        using k h by (intro exI [of _ k]) auto
    next
      case True': True
      have "\<exists>k. evals zd r0 (searchS f i ?h) k \<and> i \<le> k \<and> k \<le> ?h \<and> (\<forall>h. i \<le> h \<and> h < k \<longrightarrow> \<not> p h) \<and> (\<forall>h. k \<le> h \<and> h < ?h \<longrightarrow> p h)"
        using "1.IH"(2) [OF True refl, of True] "1.prems" h by auto
      then obtain k where k: "evals zd r0 (searchS f i ?h) k" "i \<le> k" "k \<le> ?h"
          "\<forall>h. i \<le> h \<and> h < k \<longrightarrow> \<not> p h" "\<forall>h. k \<le> h \<and> h < ?h \<longrightarrow> p h"
        by blast
      have "evals zd r0 (searchS f i j) k"
        using True by (subst searchS.simps) (auto simp: Let_def True' intro!: evals_bindS [OF "1.prems"(1) [OF h(2)]] k(1))
      moreover have "p a" if "k \<le> a" "a < j" for a
        using that k(5) True' "1.prems"(2) [of ?h a] by (meson not_le)
      ultimately show ?thesis
        using k h by (intro exI [of _ k]) auto
    qed
  qed
qed

lemma evals_FindNode:
  assumes "encoded e outs" "limits zc e" "zstd_ok zc zd"
  shows "\<exists>i. evals zd (openedReader zc e) (FindNode zd pkg name) i \<and>
    (if \<exists>n \<in> set (e_nodes e). nodeKey n = (pkg, name)
     then 0 \<le> i \<and> nat i < length (e_nodes e) \<and> nodeKey (e_nodes e ! nat i) = (pkg, name) else i = - 1)"
proof -
  let ?r0 = "openedReader zc e" and ?n = "length (e_nodes e)"
  let ?p = "\<lambda>i. (pkg, name) \<le> nodeKey (e_nodes e ! i)"
  let ?f = "\<lambda>i. bindS (SplitLabel zd i) (\<lambda>(p, nm). retS (if p \<noteq> pkg then pkg < p else name \<le> nm))"
  have sorted: "sorted (map nodeKey (e_nodes e))"
    using assms(1) unfolding encoded_def by blast
  have f: "evals zd ?r0 (?f h) (?p h)" if "h < ?n" for h
  proof (rule evals_bindS [OF evals_SplitLabel [OF assms that]])
    have "(if ni_pkg (e_nodes e ! h) \<noteq> pkg then pkg < ni_pkg (e_nodes e ! h) else name \<le> ni_name (e_nodes e ! h)) = ?p h"
      by (auto simp: less_eq_prod_def)
    then show "evals zd ?r0 (case nodeKey (e_nodes e ! h) of (p, nm) \<Rightarrow> retS (if p \<noteq> pkg then pkg < p else name \<le> nm)) (?p h)"
      by (simp only: split_conv evals_retS)
  qed
  have le: "nodeKey (e_nodes e ! a) \<le> nodeKey (e_nodes e ! b)" if "a \<le> b" "b < ?n" for a b
  proof -
    have "map nodeKey (e_nodes e) ! a \<le> map nodeKey (e_nodes e) ! b"
      using sorted_nth_mono [OF sorted that(1)] that(2) by (simp only: length_map)
    then show ?thesis
      using that by (simp only: nth_map le_less_trans)
  qed
  have mono: "?p b" if "a \<le> b" "b < ?n" "?p a" for a b
    using order_trans [OF that(3) le [OF that(1,2)]] .
  obtain k where k: "evals zd ?r0 (searchS ?f 0 ?n) k" "k \<le> ?n" "\<forall>h < k. \<not> ?p h" "\<forall>h. k \<le> h \<and> h < ?n \<longrightarrow> ?p h"
    using evals_searchS [of ?n zd ?r0 ?f ?p 0] f mono by auto
  define i where "i = (if k < ?n \<and> nodeKey (e_nodes e ! k) = (pkg, name) then int k else - 1)"
  have body: "evals zd ?r0 (if k < ?n then bindS (SplitLabel zd k) (\<lambda>(p, nm). retS (if p = pkg \<and> nm = name then int k else - 1))
      else retS (- 1)) i"
  proof (cases "k < ?n")
    case True
    show ?thesis
      unfolding if_P [OF True]
      by (rule evals_bindS [OF evals_SplitLabel [OF assms True]]) (auto simp: i_def True intro!: evals_retS)
  qed (simp add: i_def evals_retS)
  have "evals zd ?r0 (bindS (searchS ?f 0 ?n) (\<lambda>k. if k < ?n
      then bindS (SplitLabel zd k) (\<lambda>(p, nm). retS (if p = pkg \<and> nm = name then int k else - 1)) else retS (- 1))) i"
    by (rule evals_bindS [OF k(1)]) (rule body)
  then have "evals zd ?r0 (FindNode zd pkg name) i"
    using NodeCount_opened(1) [OF assms(1,2)] by (simp add: evals_def FindNode_def Let_def)
  moreover have "(\<exists>n \<in> set (e_nodes e). nodeKey n = (pkg, name)) \<longleftrightarrow> k < ?n \<and> nodeKey (e_nodes e ! k) = (pkg, name)"
  proof
    assume "\<exists>n \<in> set (e_nodes e). nodeKey n = (pkg, name)"
    then obtain j where j: "j < ?n" "nodeKey (e_nodes e ! j) = (pkg, name)"
      by (metis in_set_conv_nth)
    have kj: "k \<le> j"
      using k(3) j(2) by (metis not_le order_refl)
    have "(pkg, name) \<le> nodeKey (e_nodes e ! k)"
      using k(4) le_less_trans [OF kj j(1)] by blast
    moreover have "nodeKey (e_nodes e ! k) \<le> nodeKey (e_nodes e ! j)"
      by (rule le [OF kj j(1)])
    ultimately show "k < ?n \<and> nodeKey (e_nodes e ! k) = (pkg, name)"
      using j kj by (metis antisym le_less_trans)
  qed auto
  ultimately show ?thesis
    by (intro exI [of _ i]) (auto simp: i_def)
qed

lemma encoded_keys:
  assumes "encoded e outs"
  shows "(\<exists>n \<in> set (e_nodes e). nodeKey n = key) \<longleftrightarrow>
    (\<exists>t \<in> set (g_Targets (e_g e)). \<exists>l. map_of (md_TargetIDMapping (g_Metadata (e_g e))) (ot_ID t) = Some l \<and> splitLabel l = key)"
proof
  assume "\<exists>n \<in> set (e_nodes e). nodeKey n = key"
  then show "\<exists>t \<in> set (g_Targets (e_g e)). \<exists>l. map_of (md_TargetIDMapping (g_Metadata (e_g e))) (ot_ID t) = Some l \<and> splitLabel l = key"
    using encoded_node_of [OF assms] unfolding node_of_def by (metis nth_mem)
next
  assume "\<exists>t \<in> set (g_Targets (e_g e)). \<exists>l. map_of (md_TargetIDMapping (g_Metadata (e_g e))) (ot_ID t) = Some l \<and> splitLabel l = key"
  then obtain i l where i: "i < length (g_Targets (e_g e))"
      "map_of (md_TargetIDMapping (g_Metadata (e_g e))) (ot_ID (g_Targets (e_g e) ! i)) = Some l" "splitLabel l = key"
    by (metis in_set_conv_nth)
  obtain nodes where n: "mapE (mkNode (g_Metadata (e_g e))) (enumerate 0 (g_Targets (e_g e))) = Inr nodes"
      "mset (e_nodes e) = mset nodes"
    using assms unfolding encoded_def by blast
  have "i < length nodes" "node_of (e_g e) (nodes ! i)" "ni_origIdx (nodes ! i) = i"
    using mkNode_nodes [OF n(1)] i(1) by auto
  then have "nodes ! i \<in> set nodes" "nodeKey (nodes ! i) = key"
    using i by (auto simp: node_of_def)
  then show "\<exists>n \<in> set (e_nodes e). nodeKey n = key"
    using n(2) by (metis set_mset_mset)
qed

text \<open>C4: the binary search over labels is correct. On a blob the encoder wrote, \<open>FindNode\<close> returns the
  index of a node whose label splits into the given package and name when a target of the graph
  has such a label, and -1 otherwise.\<close>

theorem FindNode_correct:
  assumes "zstd_ok zc zd" "Encode zc xxh procs g opts = Inr blob" "encoder_limits zc xxh procs g opts"
    and "NewReader blob = Inr r"
  shows "\<exists>i. fst (FindNode zd pkg name r) = Inr i \<and>
    (if \<exists>t \<in> set (g_Targets g). \<exists>l. map_of (md_TargetIDMapping (g_Metadata g)) (ot_ID t) = Some l \<and> splitLabel l = (pkg, name)
     then 0 \<le> i \<and> fst (SplitLabel zd (nat i) r) = Inr (pkg, name) else i = - 1)"
proof -
  obtain e outs where e: "encoded e outs" "limits zc e" "options_ok (e_opts e)" "e_g e = g" "blob = writeBlob zc e"
    using Encode_Inr [OF assms(2,3)] by blast
  have r: "r = openedReader zc e"
    using NewReader_written [OF e(1,2,3) assms(1)] assms(4) e(5) by (simp add: openedReader_def)
  obtain i where i: "evals zd (openedReader zc e) (FindNode zd pkg name) i"
      "if \<exists>n \<in> set (e_nodes e). nodeKey n = (pkg, name)
       then 0 \<le> i \<and> nat i < length (e_nodes e) \<and> nodeKey (e_nodes e ! nat i) = (pkg, name) else i = - 1"
    using evals_FindNode [OF e(1,2) assms(1)] by blast
  have "fst (FindNode zd pkg name r) = Inr i"
    using evals_fresh [OF i(1) base_openedReader] r by simp
  moreover have "fst (SplitLabel zd (nat i) r) = Inr (pkg, name)"
    if "nat i < length (e_nodes e)" "nodeKey (e_nodes e ! nat i) = (pkg, name)"
    using evals_fresh [OF evals_SplitLabel [OF e(1,2) assms(1) that(1)] base_openedReader] r that(2) by simp
  ultimately show ?thesis
    using i(2) unfolding encoded_keys [OF e(1)] e(4) by (intro exI [of _ i]) (auto split: if_splits)
qed

theorem FindNode_correct_witness:
  "fst (FindNode loadAll ''//c'' ''z'' (openedReader storeAll exampleEncoder)) = Inr (- 1) \<and>
   (\<exists>i \<ge> 0. fst (FindNode loadAll ''//b'' ''x'' (openedReader storeAll exampleEncoder)) = Inr i)"
proof -
  note F = FindNode_correct [OF example_zstd example_Encode example_encoder_limits example_NewReader]
  show ?thesis
    using F [of "''//c''" "''z''"] F [of "''//b''" "''x''"] by (auto simp: exampleGraph_def splitLabel_def)
qed

section \<open>Parallelism\<close>






section \<open>Labels\<close>

lemma LastIndex_Some: "LastIndex s c = Some i \<Longrightarrow> i < length s \<and> s ! i = c"
  by (induction s arbitrary: i) (auto split: option.splits if_splits)

text \<open>Splitting a label at its last colon and joining it again gives the label back, except for the
  labels whose only colon is the first character: those lose it.\<close>

theorem joinLabel_splitLabel:
  "(case splitLabel label of (pkg, name) \<Rightarrow> joinLabel pkg name) =
    (if LastIndex label CHR '':'' = Some 0 then drop 1 label else label)"
proof (cases "LastIndex label CHR '':''")
  case None
  then show ?thesis
    by (simp add: splitLabel_def joinLabel_def)
next
  case (Some i)
  then have i: "i < length label" "label ! i = CHR '':''"
    using LastIndex_Some by blast+
  then have "take i label @ CHR '':'' # drop (Suc i) label = label"
    by (metis id_take_nth_drop)
  then show ?thesis
    using Some i(1) by (cases i) (auto simp: splitLabel_def joinLabel_def)
qed

end
