(* ===== verification/Bfs.thy ===== *)
theory Bfs
  imports Prelude
begin

text \<open>
  The breadth-first search that \<open>internal/targetdiff\<close> and \<open>internal/tgbdiff\<close> both run to compute
  distances from the seeds of a change: a queue, a visited set, a distance per node, an optional
  limit, and a poll of the context every 4096 dequeues. \<open>ctx k\<close> is the cause of cancellation that the
  \<open>k\<close>-th poll finds, if any. Neighbours outside \<open>scope\<close> are skipped: the targets that did not change
  in \<open>targetdiff\<close>, nothing in \<open>tgbdiff\<close>, where \<open>scope\<close> is the index range.
\<close>

section \<open>Polling the context\<close>

type_synonym 'e go_context = "nat \<Rightarrow> 'e option"

definition checkCtx :: "'e go_context \<Rightarrow> nat \<Rightarrow> 'e + unit" where
  "checkCtx ctx k = (case ctx k of Some cause \<Rightarrow> Inl cause | None \<Rightarrow> Inr ())"

text \<open>
  The polls of a loop over \<open>n\<close> items that polls before every 4096th item. The rest of the loop body
  only fills local maps, so a failing poll discards its work and the polls can be taken together.
\<close>

definition loopPolls :: "nat \<Rightarrow> nat" where
  "loopPolls n = (n + 4095) div 4096"

definition pollLoop :: "'e go_context \<Rightarrow> nat \<Rightarrow> nat \<Rightarrow> 'e + unit" where
  "pollLoop ctx k n = bindE (mapE (checkCtx ctx) [k..<k + loopPolls n]) (\<lambda>_. Inr ())"

definition never_cancelled :: "'e go_context \<Rightarrow> bool" where
  "never_cancelled ctx \<longleftrightarrow> (\<forall>k. ctx k = None)"

lemma checkCtx_never: "never_cancelled ctx \<Longrightarrow> checkCtx ctx k = Inr ()"
  by (simp add: never_cancelled_def checkCtx_def)

lemma pollLoop_never: "never_cancelled ctx \<Longrightarrow> pollLoop ctx k n = Inr ()"
proof -
  assume "never_cancelled ctx"
  then have "mapE (checkCtx ctx) [k..<k + loopPolls n] = Inr (map (\<lambda>_. ()) [k..<k + loopPolls n])"
    by (intro mapE_total) (simp add: checkCtx_never)
  then show ?thesis
    by (simp add: pollLoop_def)
qed

section \<open>The search\<close>

fun bfsVisit :: "'a list \<Rightarrow> int \<Rightarrow> int \<Rightarrow> 'a list \<Rightarrow> 'a list \<times> 'a set \<times> ('a \<Rightarrow> int) \<Rightarrow> 'a list \<times> 'a set \<times> ('a \<Rightarrow> int)" where
  "bfsVisit scope maxDistance distance [] st = st"
| "bfsVisit scope maxDistance distance (nb # nbs) (queue, visited, dist) =
    bfsVisit scope maxDistance distance nbs
      (if nb \<in> visited \<or> nb \<notin> set scope \<or> 0 \<le> maxDistance \<and> maxDistance < distance then (queue, visited, dist)
       else (queue @ [nb], insert nb visited, dist(nb := distance)))"

lemma bfsVisit_measure:
  "bfsVisit scope m d nbs (q, vis, dist) = (q', vis', dist') \<Longrightarrow>
    card (set scope - vis') + length q' \<le> card (set scope - vis) + length q"
proof (induction nbs arbitrary: q vis dist)
  case (Cons nb nbs)
  show ?case
  proof (cases "nb \<in> vis \<or> nb \<notin> set scope \<or> 0 \<le> m \<and> m < d")
    case True
    then have "bfsVisit scope m d nbs (q, vis, dist) = (q', vis', dist')"
      using Cons.prems by simp
    then show ?thesis
      by (rule Cons.IH)
  next
    case False
    then have "bfsVisit scope m d nbs (q @ [nb], insert nb vis, dist(nb := d)) = (q', vis', dist')"
      using Cons.prems by (simp only: bfsVisit.simps if_False)
    from Cons.IH [OF this] have "card (set scope - vis') + length q' \<le> card (set scope - insert nb vis) + length (q @ [nb])" .
    moreover have "card (set scope - insert nb vis) < card (set scope - vis)"
      using False by (intro psubset_card_mono) auto
    ultimately show ?thesis
      by simp
  qed
qed simp

function bfs :: "'e go_context \<Rightarrow> nat \<Rightarrow> ('a \<Rightarrow> 'a list) \<Rightarrow> 'a list \<Rightarrow> int \<Rightarrow> nat \<Rightarrow> 'a list \<Rightarrow> 'a set \<Rightarrow> ('a \<Rightarrow> int) \<Rightarrow> 'e + ('a \<Rightarrow> int)" where
  "bfs ctx k succs scope maxDistance i [] visited dist = Inr dist"
| "bfs ctx k succs scope maxDistance i (current # queue) visited dist =
    bindE (if i mod 4096 = 0 then checkCtx ctx (k + i div 4096) else Inr ()) (\<lambda>_.
    case bfsVisit scope maxDistance (dist current + 1) (succs current) (queue, visited, dist) of
      (queue', visited', dist') \<Rightarrow> bfs ctx k succs scope maxDistance (i + 1) queue' visited' dist')"
  by pat_completeness auto
termination
  by (relation "measure (\<lambda>(ctx, k, succs, scope, m, i, q, vis, dist). card (set scope - vis) + length q)")
    (auto split: prod.splits dest!: bfsVisit_measure simp: less_Suc_eq_le)

section \<open>Distances\<close>

text \<open>
  The specification: edges lead from a node to its successors in \<open>scope\<close>, \<open>within\<close> says that the limit
  admits a distance, and \<open>shortest\<close> is the length of the shortest path from a seed, or -1 when the
  edges or the limit do not reach the node.
\<close>

definition edges :: "('a \<Rightarrow> 'a list) \<Rightarrow> 'a list \<Rightarrow> ('a \<times> 'a) set" where
  "edges succs scope = {(a, b). b \<in> set (succs a) \<and> b \<in> set scope}"

definition within :: "int \<Rightarrow> int \<Rightarrow> bool" where
  "within maxDistance n \<longleftrightarrow> maxDistance < 0 \<or> n \<le> maxDistance"

definition reach :: "('a \<Rightarrow> 'a list) \<Rightarrow> 'a list \<Rightarrow> 'a set \<Rightarrow> nat \<Rightarrow> 'a \<Rightarrow> bool" where
  "reach succs scope seeds n x \<longleftrightarrow> (\<exists>s \<in> seeds. (s, x) \<in> edges succs scope ^^ n)"

definition shortest :: "('a \<Rightarrow> 'a list) \<Rightarrow> 'a list \<Rightarrow> int \<Rightarrow> 'a set \<Rightarrow> 'a \<Rightarrow> int" where
  "shortest succs scope maxDistance seeds x =
    (if x \<in> seeds then 0
     else if \<exists>n. reach succs scope seeds n x \<and> within maxDistance (int n)
     then int (LEAST n. reach succs scope seeds n x) else - 1)"

text \<open>One dequeue: the neighbours that are new and within the limit join the queue.\<close>

lemma bfsVisit_spec:
  assumes "bfsVisit scope m d nbs (q, vis, dist) = (q', vis', dist')"
  shows "\<exists>new. q' = q @ new \<and> vis' = vis \<union> set new \<and>
    set new = {y \<in> set nbs. y \<in> set scope \<and> within m d} - vis \<and> dist' = (\<lambda>x. if x \<in> set new then d else dist x)"
  using assms
proof (induction nbs arbitrary: q vis dist)
  case (Cons nb nbs)
  show ?case
  proof (cases "nb \<in> vis \<or> nb \<notin> set scope \<or> \<not> within m d")
    case True
    then have "bfsVisit scope m d nbs (q, vis, dist) = (q', vis', dist')"
      using Cons.prems by (auto simp: within_def)
    from Cons.IH [OF this] obtain new where new: "q' = q @ new" "vis' = vis \<union> set new"
        "set new = {y \<in> set nbs. y \<in> set scope \<and> within m d} - vis" "dist' = (\<lambda>x. if x \<in> set new then d else dist x)"
      by blast
    have "{y \<in> set nbs. y \<in> set scope \<and> within m d} - vis = {y \<in> set (nb # nbs). y \<in> set scope \<and> within m d} - vis"
      using True by auto
    then show ?thesis
      using new by blast
  next
    case False
    then have "bfsVisit scope m d nbs (q @ [nb], insert nb vis, dist(nb := d)) = (q', vis', dist')"
      using Cons.prems by (auto simp: within_def)
    from Cons.IH [OF this] obtain new where new: "q' = (q @ [nb]) @ new" "vis' = insert nb vis \<union> set new"
        "set new = {y \<in> set nbs. y \<in> set scope \<and> within m d} - insert nb vis"
        "dist' = (\<lambda>x. if x \<in> set new then d else (dist(nb := d)) x)"
      by blast
    have "set (nb # new) = {y \<in> set (nb # nbs). y \<in> set scope \<and> within m d} - vis"
      using new(3) False by auto
    moreover have "dist' = (\<lambda>x. if x \<in> set (nb # new) then d else dist x)"
      using new(4) by (auto simp: fun_eq_iff)
    ultimately show ?thesis
      using new(1,2) by (intro exI [of _ "nb # new"]) auto
  qed
qed auto

text \<open>
  The contract of a search from a list of seeds; the client's facts are proved here once and used
  by both comparisons through their interpretations.
\<close>

locale bfs_graph =
  fixes succs :: "'a \<Rightarrow> 'a list"
    and scope :: "'a list"
    and maxDistance :: int
    and seeds :: "'a list"
begin

abbreviation E where
  "E \<equiv> edges succs scope"

abbreviation R where
  "R \<equiv> reach succs scope (set seeds)"

lemma reach_Suc: "R n x \<Longrightarrow> (x, y) \<in> E \<Longrightarrow> R (Suc n) y"
  unfolding reach_def by (meson relpow_Suc_I)

text \<open>What holds between two dequeues.\<close>

definition bfs_inv :: "'a list \<Rightarrow> 'a set \<Rightarrow> ('a \<Rightarrow> int) \<Rightarrow> bool" where
  "bfs_inv queue visited dist \<longleftrightarrow>
     set seeds \<subseteq> visited \<and> set queue \<subseteq> visited \<and>
     (\<forall>x \<in> visited. 0 \<le> dist x \<and> R (nat (dist x)) x \<and> (x \<in> set seeds \<or> within maxDistance (dist x))) \<and>
     (\<forall>x. x \<notin> visited \<longrightarrow> dist x = - 1) \<and> (\<forall>x \<in> set seeds. dist x = 0) \<and>
     (\<forall>x \<in> visited - set queue. \<forall>y. (x, y) \<in> E \<longrightarrow> within maxDistance (dist x + 1) \<longrightarrow> y \<in> visited \<and> dist y \<le> dist x + 1) \<and>
     sorted (map dist queue) \<and> (queue \<noteq> [] \<longrightarrow> (\<forall>x \<in> visited. dist x \<le> dist (hd queue) + 1))"

lemma bfs_inv_init:
  assumes "set queue = set seeds"
  shows "bfs_inv queue (set seeds) (\<lambda>x. if x \<in> set seeds then 0 else - 1)"
proof -
  have "R 0 x" if "x \<in> set seeds" for x
    using that by (auto simp: reach_def)
  moreover have "sorted (map (\<lambda>x. if x \<in> set seeds then 0 else - 1 :: int) queue)"
    unfolding sorted_map by (rule sorted_wrt_mono_rel [OF _ sorted_wrt_true]) (use assms in auto)
  ultimately show ?thesis
    using assms by (auto simp: bfs_inv_def hd_in_set)
qed

lemma bfs_inv_step:
  assumes inv: "bfs_inv (cur # q) vis dist"
    and visit: "bfsVisit scope maxDistance (dist cur + 1) (succs cur) (q, vis, dist) = (q', vis', dist')"
  shows "bfs_inv q' vis' dist'"
proof -
  let ?d = "dist cur + 1"
  obtain new where new: "q' = q @ new" "vis' = vis \<union> set new"
      "set new = {y \<in> set (succs cur). y \<in> set scope \<and> within maxDistance ?d} - vis"
      "dist' = (\<lambda>x. if x \<in> set new then ?d else dist x)"
    using bfsVisit_spec [OF visit] by blast
  have I: "set seeds \<subseteq> vis" "set (cur # q) \<subseteq> vis"
    "\<And>x. x \<in> vis \<Longrightarrow> 0 \<le> dist x \<and> R (nat (dist x)) x \<and> (x \<in> set seeds \<or> within maxDistance (dist x))"
    "\<And>x. x \<notin> vis \<Longrightarrow> dist x = - 1" "\<And>x. x \<in> set seeds \<Longrightarrow> dist x = 0"
    "\<And>x y. x \<in> vis \<Longrightarrow> x \<notin> set (cur # q) \<Longrightarrow> (x, y) \<in> E \<Longrightarrow> within maxDistance (dist x + 1) \<Longrightarrow> y \<in> vis \<and> dist y \<le> dist x + 1"
    "sorted (map dist (cur # q))" "\<forall>x \<in> vis. dist x \<le> dist (hd (cur # q)) + 1"
    using inv unfolding bfs_inv_def by blast+
  then have I8: "\<And>x. x \<in> vis \<Longrightarrow> dist x \<le> ?d"
    by simp
  have old: "dist' x = dist x" if "x \<in> vis" for x
    using that new(3,4) by auto
  have fresh: "dist' x = ?d" "R (nat ?d) x" "within maxDistance ?d" if "x \<in> set new" for x
  proof -
    have "(cur, x) \<in> E"
      using that new(3) by (auto simp: edges_def)
    then show "R (nat ?d) x"
      using I(2,3) reach_Suc [of "nat (dist cur)" cur x] by (simp add: nat_add_distrib)
  qed (use that new(3,4) in auto)
  have "sorted (map dist' q')"
  proof -
    have "map dist' q' = map dist q @ map (\<lambda>_. ?d) new"
      using new(1) old fresh(1) I(2) by auto
    moreover have "sorted (map (\<lambda>_. ?d) new)"
      by (simp add: sorted_map sorted_wrt_true)
    ultimately show ?thesis
      using I(2,7) I8 by (auto simp: sorted_append)
  qed
  moreover have "dist' x \<le> dist' (hd q') + 1" if "q' \<noteq> []" "x \<in> vis'" for x
  proof -
    have "dist cur \<le> dist' (hd q')"
      using that(1) new(1) old fresh(1) I(2,7) by (cases q) (auto simp: hd_append)
    moreover have "dist' x \<le> ?d"
      using that(2) new(2) old fresh(1) I8 by auto
    ultimately show ?thesis
      by simp
  qed
  moreover have "y \<in> vis' \<and> dist' y \<le> dist' x + 1"
    if "x \<in> vis'" "x \<notin> set q'" "(x, y) \<in> E" "within maxDistance (dist' x + 1)" for x y
  proof (cases "x = cur")
    case True
    then have "x \<in> vis" "dist' x = dist cur"
      using I(2) old by auto
    moreover from this have "y \<in> vis'"
      using that(3,4) True new(2,3) by (auto simp: edges_def)
    ultimately show ?thesis
      using new(2) old fresh(1) I8 by auto
  next
    case False
    then have "x \<in> vis" "x \<notin> set (cur # q)"
      using that(1,2) new(1,2) by auto
    then show ?thesis
      using I(6) [of x y] that(3,4) old new(2) by auto
  qed
  moreover have "0 \<le> dist' x \<and> R (nat (dist' x)) x \<and> (x \<in> set seeds \<or> within maxDistance (dist' x))" if "x \<in> vis'" for x
    using that new(2) old fresh I(3) [of x] I(3) [of cur] I(2) by auto
  moreover have "dist' x = - 1" if "x \<notin> vis'" for x
    using that new(2,4) I(4) by auto
  moreover have "dist' x = 0" if "x \<in> set seeds" for x
    using that I(1,5) old by auto
  moreover have "set seeds \<subseteq> vis'" "set q' \<subseteq> vis'"
    using I(1,2) new(1,2) by auto
  ultimately show ?thesis
    unfolding bfs_inv_def by blast
qed

lemma bfs_inv_final:
  assumes "bfs_inv [] vis dist"
  shows "dist x = shortest succs scope maxDistance (set seeds) x"
proof -
  have I: "set seeds \<subseteq> vis"
    "\<And>x. x \<in> vis \<Longrightarrow> 0 \<le> dist x \<and> R (nat (dist x)) x \<and> (x \<in> set seeds \<or> within maxDistance (dist x))"
    "\<And>x. x \<notin> vis \<Longrightarrow> dist x = - 1" "\<And>x. x \<in> set seeds \<Longrightarrow> dist x = 0"
    "\<And>x y. x \<in> vis \<Longrightarrow> (x, y) \<in> E \<Longrightarrow> within maxDistance (dist x + 1) \<Longrightarrow> y \<in> vis \<and> dist y \<le> dist x + 1"
    using assms unfolding bfs_inv_def by auto
  have complete: "x \<in> vis \<and> dist x \<le> int n" if "R n x" "within maxDistance (int n)" for n x
    using that
  proof (induction n arbitrary: x)
    case 0
    then show ?case
      using I(1,4) by (auto simp: reach_def)
  next
    case (Suc n)
    then obtain s y where "s \<in> set seeds" "(s, y) \<in> E ^^ n" "(y, x) \<in> E"
      by (auto simp: reach_def elim: relpow_Suc_E)
    then have y: "R n y" "(y, x) \<in> E"
      by (auto simp: reach_def)
    have w: "within maxDistance (int n)"
      using Suc.prems(2) by (auto simp: within_def)
    have "y \<in> vis \<and> dist y \<le> int n"
      by (rule Suc.IH [OF y(1) w])
    then show ?case
      using I(5) [of y x] y(2) Suc.prems(2) by (auto simp: within_def)
  qed
  show ?thesis
  proof (cases "x \<in> set seeds")
    case True
    then show ?thesis
      using I(4) by (simp add: shortest_def)
  next
    case False
    show ?thesis
    proof (cases "x \<in> vis")
      case True
      have d: "R (nat (dist x)) x" "within maxDistance (int (nat (dist x)))" "int (nat (dist x)) = dist x"
        using I(2) [OF True] False by auto
      have "(LEAST n. R n x) = nat (dist x)"
      proof (rule Least_equality [where P = "\<lambda>n. R n x"])
        fix n
        assume "R n x"
        then show "nat (dist x) \<le> n"
          using complete [of n x] d(2,3) by (cases "within maxDistance (int n)") (auto simp: within_def)
      qed (rule d(1))
      then show ?thesis
        using d False by (auto simp: shortest_def)
    next
      case False': False
      then have "\<not> (\<exists>n. R n x \<and> within maxDistance (int n))"
        using complete by blast
      then show ?thesis
        using False False' I(3) by (simp add: shortest_def)
    qed
  qed
qed

lemma bfs_inv_result:
  "bfs_inv q vis dist \<Longrightarrow> bfs ctx k succs scope maxDistance i q vis dist = Inr dist' \<Longrightarrow>
    dist' = shortest succs scope maxDistance (set seeds)"
proof (induction ctx k s \<equiv> succs u \<equiv> scope m \<equiv> maxDistance i q vis dist rule: bfs.induct)
  case (1 ctx k i vis dist)
  then show ?case
    using bfs_inv_final by auto
next
  case (2 ctx k i cur q vis dist)
  obtain q' vis' d' where v: "bfsVisit scope maxDistance (dist cur + 1) (succs cur) (q, vis, dist) = (q', vis', d')"
    by (metis prod_cases3)
  then have "bfs ctx k succs scope maxDistance (i + 1) q' vis' d' = Inr dist'"
    using "2.prems"(2) by (auto simp: bindE_eq_Inr)
  moreover obtain u where "(if i mod 4096 = 0 then checkCtx ctx (k + i div 4096) else Inr ()) = Inr u"
    using "2.prems"(2) by (auto simp: bindE_eq_Inr)
  ultimately show ?case
    using "2.hyps" [OF _ v [symmetric] refl bfs_inv_step [OF "2.prems"(1) v]] by blast
qed

text \<open>Whenever the search is not cancelled it returns, and its result is the shortest distance.\<close>

lemma bfs_correct:
  assumes "bfs ctx k succs scope maxDistance 0 queue (set seeds) (\<lambda>x. if x \<in> set seeds then 0 else - 1) = Inr dist"
    and "set queue = set seeds"
  shows "dist x = shortest succs scope maxDistance (set seeds) x"
  using bfs_inv_result [OF bfs_inv_init [OF assms(2)] assms(1)] by simp

end

lemma bfs_returns: "never_cancelled ctx \<Longrightarrow> \<exists>dist'. bfs ctx k succs scope m i q vis dist = Inr dist'"
proof (induction ctx k succs scope m i q vis dist rule: bfs.induct)
  case (2 ctx k succs scope m i cur q vis dist)
  obtain q' vis' d' where v: "bfsVisit scope m (dist cur + 1) (succs cur) (q, vis, dist) = (q', vis', d')"
    by (metis prod_cases3)
  have "(if i mod 4096 = 0 then checkCtx ctx (k + i div 4096) else Inr ()) = Inr ()"
    using checkCtx_never [OF "2.prems"] by simp
  then show ?case
    using "2.IH" [OF _ v [symmetric] refl "2.prems"] v by simp
qed simp

end
