(* ===== verification/TargetDiff.thy ===== *)
theory TargetDiff
  imports Bfs
begin

text \<open>
  \<open>internal/targetdiff\<close>: the reference comparison of two target graphs. A graph is the association
  list of its entries (label to target). \<open>Compare\<close> classifies every label, marks the seeds (targets
  whose own state changed) and runs a breadth-first search from them over the reverse dependencies
  of the later graph. \<open>changedByName\<close> holds pointers whose \<open>Distance\<close> field the search writes; here
  the distances are a function of the name that is put into the entries at the end. A context error
  is the cause found by a poll.
\<close>

section \<open>Data\<close>

record Target =
  dt_Name :: string
  dt_Hash :: string
  dt_RuleType :: string
  dt_Dependencies :: "string list"
  dt_Tags :: "string list"
  dt_Attributes :: "(string, string) gomap"
  dt_Root :: bool
  dt_External :: bool

type_synonym DiffGraph = "(string, Target) gomap"

datatype DiffChangeType = DiffTypeInvalid | DiffTypeNew | DiffTypeDeleted | DiffTypeChanged

record DiffTarget =
  cd_ChangeType :: DiffChangeType
  cd_Before :: "Target option"
  cd_After :: "Target option"
  cd_Distance :: int

record Request =
  rq_Before :: DiffGraph
  rq_After :: DiffGraph
  rq_MaxDistance :: int

definition sourceFileRuleType :: string where
  "sourceFileRuleType = ''source file''"

section \<open>Classification\<close>

definition classifyAfter :: "DiffGraph \<Rightarrow> string \<times> Target \<Rightarrow> (string \<times> DiffTarget) option" where
  "classifyAfter before entry = (case entry of (name, afterTarget) \<Rightarrow>
    (case map_of before name of
       None \<Rightarrow> Some (name, \<lparr> cd_ChangeType = DiffTypeNew, cd_Before = None, cd_After = Some afterTarget, cd_Distance = 0 \<rparr>)
     | Some beforeTarget \<Rightarrow>
         if dt_Hash beforeTarget = dt_Hash afterTarget then None
         else Some (name, \<lparr> cd_ChangeType = DiffTypeChanged, cd_Before = Some beforeTarget,
           cd_After = Some afterTarget, cd_Distance = 0 \<rparr>)))"

definition isSeedAfter :: "string \<times> DiffTarget \<Rightarrow> bool" where
  "isSeedAfter entry = (case entry of (name, changed) \<Rightarrow>
     cd_ChangeType changed = DiffTypeNew \<or>
     (case cd_After changed of Some afterTarget \<Rightarrow> dt_RuleType afterTarget = sourceFileRuleType | None \<Rightarrow> False))"

definition classifyBefore :: "DiffGraph \<Rightarrow> string \<times> Target \<Rightarrow> (string \<times> DiffTarget) option" where
  "classifyBefore after entry = (case entry of (name, beforeTarget) \<Rightarrow>
     if map_of after name \<noteq> None then None
     else Some (name, \<lparr> cd_ChangeType = DiffTypeDeleted, cd_Before = Some beforeTarget, cd_After = None, cd_Distance = 0 \<rparr>))"

text \<open>\<open>changedDependencyStatus\<close>: both targets are present when it is called.\<close>

definition changedDependencyStatus :: "Target \<Rightarrow> Target \<Rightarrow> (string, DiffTarget) gomap \<Rightarrow> bool \<times> bool" where
  "changedDependencyStatus beforeTarget afterTarget changedByName =
    (let anyChanged = list_ex (\<lambda>dependency. case map_of changedByName dependency of
           Some changed \<Rightarrow> cd_ChangeType changed = DiffTypeChanged | None \<Rightarrow> False) (dt_Dependencies afterTarget);
         lengthsMatch = (length (dt_Dependencies beforeTarget) = length (dt_Dependencies afterTarget))
     in (anyChanged, \<not> lengthsMatch \<or>
           list_ex (\<lambda>dependency. dependency \<notin> set (dt_Dependencies afterTarget)) (dt_Dependencies beforeTarget)))"

definition hasChangedSourceFileDependency :: "Target \<Rightarrow> (string, DiffTarget) gomap \<Rightarrow> DiffGraph \<Rightarrow> bool" where
  "hasChangedSourceFileDependency target changedByName targetsByName =
    list_ex (\<lambda>dependencyName. map_of changedByName dependencyName \<noteq> None \<and>
      (case map_of targetsByName dependencyName of
         Some dependency \<Rightarrow> dt_RuleType dependency = sourceFileRuleType | None \<Rightarrow> False)) (dt_Dependencies target)"

definition attributesChanged :: "(string, string) gomap \<Rightarrow> (string, string) gomap \<Rightarrow> bool" where
  "attributesChanged before after \<longleftrightarrow> length before \<noteq> length after \<or>
    list_ex (\<lambda>(name, value). map_of after name \<noteq> Some value) before"

text \<open>The second loop: a changed target that is not a seed yet.\<close>

definition isSeedChanged :: "DiffGraph \<Rightarrow> (string, DiffTarget) gomap \<Rightarrow> string \<times> DiffTarget \<Rightarrow> bool" where
  "isSeedChanged after changedByName entry = (case entry of (name, changed) \<Rightarrow>
     (case (cd_Before changed, cd_After changed) of
        (Some beforeTarget, Some afterTarget) \<Rightarrow>
          (case changedDependencyStatus beforeTarget afterTarget changedByName of (anyChanged, dependenciesChanged) \<Rightarrow>
             \<not> anyChanged \<or> dependenciesChanged \<or>
             hasChangedSourceFileDependency afterTarget changedByName after \<or>
             attributesChanged (dt_Attributes beforeTarget) (dt_Attributes afterTarget))
      | _ \<Rightarrow> False))"

definition changedAfter :: "Request \<Rightarrow> (string, DiffTarget) gomap" where
  "changedAfter request = List.map_filter (classifyAfter (rq_Before request)) (rq_After request)"

definition changedAll :: "Request \<Rightarrow> (string, DiffTarget) gomap" where
  "changedAll request = changedAfter request @ List.map_filter (classifyBefore (rq_After request)) (rq_Before request)"

definition isSeed :: "Request \<Rightarrow> string \<times> DiffTarget \<Rightarrow> bool" where
  "isSeed request entry \<longleftrightarrow> isSeedAfter entry \<or> cd_ChangeType (snd entry) = DiffTypeDeleted \<or>
     (cd_ChangeType (snd entry) = DiffTypeChanged \<and> isSeedChanged (rq_After request) (changedAfter request) entry)"

definition seedNames :: "Request \<Rightarrow> string list" where
  "seedNames request = map fst (filter (isSeed request) (changedAll request))"

section \<open>Distances\<close>

definition reverseDependencies :: "DiffGraph \<Rightarrow> string \<Rightarrow> string list" where
  "reverseDependencies targetsByName d =
    (if d = [] then [] else concat (map (\<lambda>(name, target). map (\<lambda>_. name) (filter (\<lambda>x. x = d) (dt_Dependencies target))) targetsByName))"

definition computeDistances :: "'e go_context \<Rightarrow> nat \<Rightarrow> (string, DiffTarget) gomap \<Rightarrow> DiffGraph \<Rightarrow> string list \<Rightarrow> int \<Rightarrow>
    'e + (string \<Rightarrow> int)" where
  "computeDistances ctx k changedByName targetsByName seeds maxDistance =
    bindE (pollLoop ctx k (length targetsByName)) (\<lambda>_.
    let queue = filter (\<lambda>name. name \<in> set seeds) (map fst changedByName) in
    bfs ctx (k + loopPolls (length targetsByName)) (reverseDependencies targetsByName) (map fst changedByName) maxDistance 0
      queue (set queue) (\<lambda>name. if name \<in> set seeds then 0 else - 1))"

definition Compare :: "'e go_context \<Rightarrow> Request \<Rightarrow> 'e + DiffTarget list" where
  "Compare ctx request =
    (let k1 = 1 + loopPolls (length (rq_After request)); k2 = k1 + 1 + loopPolls (length (rq_Before request)) in
     bindE (checkCtx ctx 0) (\<lambda>_.
     bindE (pollLoop ctx 1 (length (rq_After request))) (\<lambda>_.
     bindE (checkCtx ctx k1) (\<lambda>_.
     bindE (pollLoop ctx (k1 + 1) (length (rq_Before request))) (\<lambda>_.
     bindE (computeDistances ctx k2 (changedAll request) (rq_After request) (seedNames request) (rq_MaxDistance request)) (\<lambda>dist.
     Inr (map (\<lambda>(name, changed). changed \<lparr> cd_Distance := dist name \<rparr>) (changedAll request))))))))"

lemma set_map_filter: "set (List.map_filter f xs) = {y. \<exists>x \<in> set xs. f x = Some y}"
  by (induction xs) (auto simp: map_filter_simps split: option.splits)

section \<open>Cancellation\<close>

lemma checkCtx_Inl: "checkCtx ctx k = Inl c \<Longrightarrow> \<exists>j. ctx j = Some c"
  by (auto simp: checkCtx_def split: option.splits)

lemma mapE_checkCtx_Inl: "mapE (checkCtx ctx) ks = Inl c \<Longrightarrow> \<exists>k. ctx k = Some c"
  by (induction ks) (auto simp: bindE_eq_Inl dest: checkCtx_Inl)

lemma pollLoop_Inl: "pollLoop ctx k n = Inl c \<Longrightarrow> \<exists>j. ctx j = Some c"
  by (auto simp: pollLoop_def bindE_eq_Inl dest: mapE_checkCtx_Inl)

lemma bfs_Inl: "bfs ctx k succs scope m i q vis dist = Inl c \<Longrightarrow> \<exists>j. ctx j = Some c"
proof (induction ctx k succs scope m i q vis dist rule: bfs.induct)
  case (2 ctx k succs scope m i cur q vis dist)
  obtain q' vis' d' where v: "bfsVisit scope m (dist cur + 1) (succs cur) (q, vis, dist) = (q', vis', d')"
    by (metis prod_cases3)
  show ?case
    using "2.prems" "2.IH" [OF _ v [symmetric] refl] v
    by (auto simp: bindE_eq_Inl split: if_splits dest: checkCtx_Inl)
qed simp

section \<open>Classification is exact\<close>

text \<open>The change of one label, from what the two graphs have under it.\<close>

fun changeOf :: "Target option \<Rightarrow> Target option \<Rightarrow> DiffTarget option" where
  "changeOf None None = None"
| "changeOf None (Some a) = Some \<lparr> cd_ChangeType = DiffTypeNew, cd_Before = None, cd_After = Some a, cd_Distance = 0 \<rparr>"
| "changeOf (Some b) None = Some \<lparr> cd_ChangeType = DiffTypeDeleted, cd_Before = Some b, cd_After = None, cd_Distance = 0 \<rparr>"
| "changeOf (Some b) (Some a) = (if dt_Hash b = dt_Hash a then None
     else Some \<lparr> cd_ChangeType = DiffTypeChanged, cd_Before = Some b, cd_After = Some a, cd_Distance = 0 \<rparr>)"

lemma classifyAfter_eq: "classifyAfter before (n, a) = map_option (Pair n) (changeOf (map_of before n) (Some a))"
  by (auto simp: classifyAfter_def split: option.splits)

lemma classifyBefore_eq:
  "classifyBefore after (n, b) = (if map_of after n = None then map_option (Pair n) (changeOf (Some b) None) else None)"
  by (simp add: classifyBefore_def)

lemma mem_changedAll:
  assumes "distinct (map fst (rq_Before request))" "distinct (map fst (rq_After request))"
  shows "(n, c) \<in> set (changedAll request) \<longleftrightarrow> changeOf (map_of (rq_Before request) n) (map_of (rq_After request) n) = Some c"
proof -
  have "(n, c) \<in> set (changedAfter request) \<longleftrightarrow>
      (\<exists>a. map_of (rq_After request) n = Some a \<and> changeOf (map_of (rq_Before request) n) (Some a) = Some c)"
    using map_of_eq_Some_iff [OF assms(2)] by (force simp: changedAfter_def set_map_filter classifyAfter_eq)
  moreover have "(n, c) \<in> set (List.map_filter (classifyBefore (rq_After request)) (rq_Before request)) \<longleftrightarrow>
      (\<exists>b. map_of (rq_Before request) n = Some b \<and> map_of (rq_After request) n = None \<and> changeOf (Some b) None = Some c)"
    using map_of_eq_Some_iff [OF assms(1)] by (force simp: set_map_filter classifyBefore_eq split: if_splits)
  ultimately show ?thesis
    by (cases "map_of (rq_After request) n"; cases "map_of (rq_Before request) n") (auto simp: changedAll_def)
qed

lemma distinct_map_filter_fst:
  assumes "\<And>x y. f x = Some y \<Longrightarrow> fst y = fst x" "distinct (map fst xs)"
  shows "distinct (map fst (List.map_filter f xs))"
  using assms(2)
proof (induction xs)
  case (Cons x xs)
  have "fst ` set (List.map_filter f xs) \<subseteq> fst ` set xs"
    using assms(1) by (force simp: set_map_filter)
  then show ?case
    using Cons assms(1) [of x] by (auto simp: map_filter_simps split: option.splits)
qed (simp add: map_filter_simps)

lemma distinct_changedAll:
  assumes "distinct (map fst (rq_Before request))" "distinct (map fst (rq_After request))"
  shows "distinct (map fst (changedAll request))"
proof -
  have a: "distinct (map fst (changedAfter request))"
    unfolding changedAfter_def
    by (rule distinct_map_filter_fst [OF _ assms(2)]) (auto simp: classifyAfter_def split: option.splits if_splits prod.splits)
  have b: "distinct (map fst (List.map_filter (classifyBefore (rq_After request)) (rq_Before request)))"
    by (rule distinct_map_filter_fst [OF _ assms(1)]) (auto simp: classifyBefore_def split: option.splits if_splits prod.splits)
  have "n \<in> fst ` set (rq_After request)" if "n \<in> fst ` set (changedAfter request)" for n
    using that by (force simp: changedAfter_def set_map_filter classifyAfter_def split: option.splits if_splits)
  moreover have "n \<notin> fst ` set (rq_After request)"
    if "n \<in> fst ` set (List.map_filter (classifyBefore (rq_After request)) (rq_Before request))" for n
    using that by (force simp: set_map_filter classifyBefore_def map_of_eq_None_iff split: option.splits if_splits)
  ultimately show ?thesis
    using a b by (auto simp: changedAll_def)
qed

section \<open>Distances are shortest paths\<close>

interpretation diffSearch: bfs_graph "reverseDependencies after" "map fst changed" maxDistance seeds
  for after changed maxDistance seeds .

lemma seedNames_subset: "set (seedNames request) \<subseteq> set (map fst (changedAll request))"
  by (auto simp: seedNames_def)

lemma computeDistances_correct:
  assumes "computeDistances ctx k changed after seeds m = Inr dist" "set seeds \<subseteq> set (map fst changed)"
  shows "dist x = shortest (reverseDependencies after) (map fst changed) m (set seeds) x"
proof -
  have q: "set (filter (\<lambda>name. name \<in> set seeds) (map fst changed)) = set seeds"
    using assms(2) by auto
  then have "bfs ctx (k + loopPolls (length after)) (reverseDependencies after) (map fst changed) m 0
      (filter (\<lambda>name. name \<in> set seeds) (map fst changed)) (set seeds) (\<lambda>name. if name \<in> set seeds then 0 else - 1) = Inr dist"
    using assms(1) by (auto simp: computeDistances_def bindE_eq_Inr Let_def)
  from diffSearch.bfs_correct [OF this q] show ?thesis .
qed

text \<open>The specification of the result: every changed entry with its shortest distance from a seed.\<close>

definition compareSpec :: "Request \<Rightarrow> DiffTarget list" where
  "compareSpec request = map (\<lambda>(name, changed). changed \<lparr> cd_Distance :=
      shortest (reverseDependencies (rq_After request)) (map fst (changedAll request)) (rq_MaxDistance request)
        (set (seedNames request)) name \<rparr>) (changedAll request)"

lemma Compare_Inr:
  assumes "Compare ctx request = Inr result"
  shows "result = compareSpec request"
proof -
  let ?k = "1 + loopPolls (length (rq_After request)) + 1 + loopPolls (length (rq_Before request))"
  obtain dist where d: "computeDistances ctx ?k (changedAll request) (rq_After request) (seedNames request) (rq_MaxDistance request) = Inr dist"
    using assms by (fastforce simp: Compare_def Let_def bindE_eq_Inr)
  then have "result = map (\<lambda>(name, changed). changed \<lparr> cd_Distance := dist name \<rparr>) (changedAll request)"
    using assms by (auto simp: Compare_def Let_def bindE_eq_Inr)
  then show ?thesis
    using computeDistances_correct [OF d seedNames_subset] by (simp add: compareSpec_def)
qed

lemma Compare_never:
  assumes "never_cancelled ctx"
  shows "Compare ctx request = Inr (compareSpec request)"
proof -
  have "\<exists>dist. computeDistances ctx k (changedAll request) (rq_After request) (seedNames request) (rq_MaxDistance request) = Inr dist" for k
    unfolding computeDistances_def Let_def pollLoop_never [OF assms] bindE_simps using bfs_returns [OF assms] by blast
  then have "\<exists>result. Compare ctx request = Inr result"
    by (simp add: Compare_def Let_def checkCtx_never [OF assms] pollLoop_never [OF assms] bindE_eq_Inr)
  then show ?thesis
    using Compare_Inr by auto
qed

text \<open>C30: \<open>Compare\<close> returns, and its result is the specification: one entry for every label that is new,
  deleted or has another hash, and for each the length of the shortest path from a seed over the
  reverse dependencies within the changed targets, or -1 when no such path fits the limit.\<close>

theorem Compare_correct:
  assumes "never_cancelled ctx"
  shows "Compare ctx request = Inr (map (\<lambda>(name, changed). changed \<lparr> cd_Distance :=
      shortest (reverseDependencies (rq_After request)) (map fst (changedAll request)) (rq_MaxDistance request)
        (set (seedNames request)) name \<rparr>) (changedAll request))"
  using Compare_never [OF assms] by (simp add: compareSpec_def)

definition demoTarget :: "string \<Rightarrow> string \<Rightarrow> string list \<Rightarrow> Target" where
  "demoTarget name hash deps = \<lparr> dt_Name = name, dt_Hash = hash, dt_RuleType = ''go_library'', dt_Dependencies = deps,
     dt_Tags = [], dt_Attributes = [], dt_Root = False, dt_External = False \<rparr>"

definition demoRequest :: Request where
  "demoRequest = \<lparr> rq_Before = [(''a'', demoTarget ''a'' ''1'' []), (''b'', demoTarget ''b'' ''1'' [''a''])],
     rq_After = [(''a'', demoTarget ''a'' ''2'' []), (''b'', demoTarget ''b'' ''2'' [''a''])], rq_MaxDistance = - 1 \<rparr>"

definition demoDistances :: "unit + DiffTarget list \<Rightarrow> int list" where
  "demoDistances r = (case r of Inl _ \<Rightarrow> [] | Inr cs \<Rightarrow> map cd_Distance cs)"

lemma demoRequest_distances: "demoDistances (Compare (\<lambda>_. None) demoRequest) = [0, 1]"
  by code_simp

theorem Compare_correct_witness:
  "never_cancelled (\<lambda>_. None :: unit option) \<and>
   Compare (\<lambda>_. None :: unit option) demoRequest = Inr (map (\<lambda>(name, changed). changed \<lparr> cd_Distance :=
      shortest (reverseDependencies (rq_After demoRequest)) (map fst (changedAll demoRequest)) (rq_MaxDistance demoRequest)
        (set (seedNames demoRequest)) name \<rparr>) (changedAll demoRequest))"
  using Compare_correct [of "\<lambda>_. None :: unit option" demoRequest] by (simp add: never_cancelled_def)

text \<open>C32: cancellation is all or nothing. \<open>Compare\<close> either fails with the cause that one of its polls found,
  or returns exactly what it returns when nothing is ever cancelled; there are no partial results.\<close>

theorem Compare_cancellation:
  "case Compare ctx request of
     Inl cause \<Rightarrow> \<exists>k. ctx k = Some cause
   | Inr result \<Rightarrow> Compare (\<lambda>_. None :: 'e option) request = Inr result"
proof (cases "Compare ctx request")
  case (Inl cause)
  then show ?thesis
    by (auto simp: Compare_def Let_def computeDistances_def bindE_eq_Inl dest: checkCtx_Inl pollLoop_Inl bfs_Inl)
next
  case (Inr result)
  have "never_cancelled (\<lambda>_. None :: 'e option)"
    by (simp add: never_cancelled_def)
  then show ?thesis
    using Inr Compare_Inr [OF Inr] Compare_never by simp
qed

text \<open>C31: the classification is exact. When neither graph lists a label twice, the result has exactly one
  entry per label that only one graph has or whose hashes differ: a new one with the later target,
  a deleted one with the earlier, a changed one with both.\<close>

theorem Compare_classification:
  assumes "distinct (map fst (rq_Before request))" "distinct (map fst (rq_After request))" "Compare ctx request = Inr result"
  shows "\<exists>names. distinct names \<and> length names = length result \<and>
    (\<forall>n ty b a. (n, ty, b, a) \<in> set (zip names (map (\<lambda>c. (cd_ChangeType c, cd_Before c, cd_After c)) result)) \<longleftrightarrow>
       b = map_of (rq_Before request) n \<and> a = map_of (rq_After request) n \<and>
       (case (b, a) of (None, Some _) \<Rightarrow> ty = DiffTypeNew | (Some _, None) \<Rightarrow> ty = DiffTypeDeleted
        | (Some x, Some y) \<Rightarrow> ty = DiffTypeChanged \<and> dt_Hash x \<noteq> dt_Hash y | (None, None) \<Rightarrow> False))"
proof -
  let ?v = "\<lambda>c. (cd_ChangeType c, cd_Before c, cd_After c)" and ?all = "changedAll request"
  have "zip (map fst ?all) (map ?v result) = map (\<lambda>(n, c). (n, ?v c)) ?all"
    unfolding Compare_Inr [OF assms(3)] compareSpec_def by (rule nth_equalityI) (auto simp: split_beta)
  then have "(n, ty, b, a) \<in> set (zip (map fst ?all) (map ?v result)) \<longleftrightarrow> (\<exists>c. (n, c) \<in> set ?all \<and> (ty, b, a) = ?v c)" for n ty b a
    by auto
  moreover have "(\<exists>c. changeOf b' a' = Some c \<and> (ty, b, a) = ?v c) \<longleftrightarrow> b = b' \<and> a = a' \<and>
      (case (b, a) of (None, Some _) \<Rightarrow> ty = DiffTypeNew | (Some _, None) \<Rightarrow> ty = DiffTypeDeleted
        | (Some x, Some y) \<Rightarrow> ty = DiffTypeChanged \<and> dt_Hash x \<noteq> dt_Hash y | (None, None) \<Rightarrow> False)" for ty b a b' a'
    by (cases b'; cases a') auto
  ultimately show ?thesis
    using distinct_changedAll [OF assms(1,2)] Compare_Inr [OF assms(3)] mem_changedAll [OF assms(1,2)]
    by (intro exI [of _ "map fst ?all"]) (simp add: compareSpec_def)
qed

lemma demoRequest_keys:
  "distinct (map fst (rq_Before demoRequest))" "distinct (map fst (rq_After demoRequest))"
  by (simp_all add: demoRequest_def)

lemma demoRequest_result: "Compare (\<lambda>_. None :: unit option) demoRequest = Inr (compareSpec demoRequest)"
  by (rule Compare_never) (simp add: never_cancelled_def)

theorem Compare_classification_witness:
  "\<exists>names :: string list. distinct names \<and> length names = length (compareSpec demoRequest) \<and>
    (''b'', DiffTypeChanged, Some (demoTarget ''b'' ''1'' [''a'']), Some (demoTarget ''b'' ''2'' [''a'']))
      \<in> set (zip names (map (\<lambda>c. (cd_ChangeType c, cd_Before c, cd_After c)) (compareSpec demoRequest)))"
proof -
  have row: "map_of (rq_Before demoRequest) ''b'' = Some (demoTarget ''b'' ''1'' [''a''])"
      "map_of (rq_After demoRequest) ''b'' = Some (demoTarget ''b'' ''2'' [''a''])"
      "dt_Hash (demoTarget ''b'' ''1'' [''a'']) \<noteq> dt_Hash (demoTarget ''b'' ''2'' [''a''])"
    by (simp_all add: demoRequest_def demoTarget_def)
  show ?thesis
    using Compare_classification [OF demoRequest_keys demoRequest_result] by (elim ex_forward conj_forward) (simp_all add: row)
qed

section \<open>Acyclic graphs\<close>

lemma set_reverseDependencies:
  "d \<noteq> [] \<Longrightarrow> set (reverseDependencies after d) = {n. \<exists>t. (n, t) \<in> set after \<and> d \<in> set (dt_Dependencies t)}"
  by (force simp: reverseDependencies_def)

definition dependsOn :: "DiffGraph \<Rightarrow> (string \<times> string) set" where
  "dependsOn after = {(d, n). \<exists>t. (n, t) \<in> set after \<and> d \<in> set (dt_Dependencies t)}"

lemma finite_dependsOn: "finite (dependsOn after)"
proof -
  have "dependsOn after = (\<Union>(n, t) \<in> set after. (\<lambda>d. (d, n)) ` set (dt_Dependencies t))"
    by (auto simp: dependsOn_def)
  then show ?thesis
    by auto
qed

text \<open>A changed target that is not a seed has a changed dependency.\<close>

lemma not_seed_has_changed_dependency:
  assumes "distinct (map fst (rq_Before request))" "distinct (map fst (rq_After request))"
    and "(n, c) \<in> set (changedAll request)" "\<not> isSeed request (n, c)"
  shows "\<exists>d c' t. (n, t) \<in> set (rq_After request) \<and> d \<in> set (dt_Dependencies t) \<and> (d, c') \<in> set (changedAll request) \<and>
    map_of (rq_After request) d \<noteq> None"
proof -
  obtain a b where ab: "c = \<lparr> cd_ChangeType = DiffTypeChanged, cd_Before = Some b, cd_After = Some a, cd_Distance = 0 \<rparr>"
      "map_of (rq_After request) n = Some a"
    using assms(3,4) unfolding mem_changedAll [OF assms(1,2)]
    by (cases "map_of (rq_Before request) n"; cases "map_of (rq_After request) n")
      (auto simp: isSeed_def isSeedAfter_def split: if_splits)
  then have "fst (changedDependencyStatus b a (changedAfter request))"
    using assms(4) by (auto simp: isSeed_def isSeedChanged_def split: prod.splits)
  then obtain d c' where d: "d \<in> set (dt_Dependencies a)" "map_of (changedAfter request) d = Some c'" "cd_ChangeType c' = DiffTypeChanged"
    by (auto simp: changedDependencyStatus_def Let_def list_ex_iff split: option.splits)
  have m: "(d, c') \<in> set (changedAll request)"
    using map_of_SomeD [OF d(2)] by (simp add: changedAll_def)
  then have "map_of (rq_After request) d \<noteq> None"
    using d(3) unfolding mem_changedAll [OF assms(1,2)] 
    by (cases "map_of (rq_Before request) d"; cases "map_of (rq_After request) d") auto
  then show ?thesis
    using m d(1) map_of_SomeD [OF ab(2)] by blast
qed

text \<open>Without a limit every changed target of an acyclic graph is explained: its distance is not -1,
  since following changed dependencies from it always ends at a seed.\<close>

theorem Compare_acyclic_distances:
  assumes "distinct (map fst (rq_Before request))" "distinct (map fst (rq_After request))"
    and "acyclic (dependsOn (rq_After request))" "map_of (rq_After request) [] = None" "rq_MaxDistance request < 0"
    and "Compare ctx request = Inr result" "c \<in> set result"
  shows "0 \<le> cd_Distance c"
proof -
  let ?succs = "reverseDependencies (rq_After request)" and ?scope = "map fst (changedAll request)"
  let ?seeds = "set (seedNames request)"
  obtain n c0 where n: "(n, c0) \<in> set (changedAll request)"
      "cd_Distance c = shortest ?succs ?scope (rq_MaxDistance request) ?seeds n"
    using assms(7) unfolding Compare_Inr [OF assms(6)] by (auto simp: compareSpec_def)
  have "wf (dependsOn (rq_After request))"
    using finite_acyclic_wf [OF finite_dependsOn assms(3)] .
  then have "\<exists>k. reach ?succs ?scope ?seeds k n" if "(n, c0) \<in> set (changedAll request)" for n c0
    using that
  proof (induction n arbitrary: c0 rule: wf_induct_rule)
    case (less n)
    show ?case
    proof (cases "isSeed request (n, c0)")
      case True
      then have "n \<in> ?seeds"
        using less.prems by (force simp: seedNames_def)
      then have "reach ?succs ?scope ?seeds 0 n"
        by (auto simp: reach_def)
      then show ?thesis ..
    next
      case False
      obtain dep c' t where dep: "(n, t) \<in> set (rq_After request)" "dep \<in> set (dt_Dependencies t)"
          "(dep, c') \<in> set (changedAll request)" "map_of (rq_After request) dep \<noteq> None"
        using not_seed_has_changed_dependency [OF assms(1,2) less.prems False] by blast
      then have "(dep, n) \<in> dependsOn (rq_After request)" "dep \<noteq> []"
        using assms(4) by (auto simp: dependsOn_def)
      then obtain k where "reach ?succs ?scope ?seeds k dep" "(dep, n) \<in> edges ?succs ?scope"
        using less.IH [OF _ dep(3)] set_reverseDependencies [of dep "rq_After request"] dep(1,2) less.prems
        by (force simp: edges_def)
      then show ?thesis
        unfolding reach_def by (meson relpow_Suc_I)
    qed
  qed
  then obtain k' where "reach ?succs ?scope ?seeds k' n"
    using n(1) by blast
  then have "0 \<le> shortest ?succs ?scope (rq_MaxDistance request) ?seeds n"
    using assms(5) by (auto simp: shortest_def within_def)
  then show ?thesis
    using n(2) by simp
qed

theorem Compare_acyclic_distances_witness:
  "list_all (\<lambda>c. 0 \<le> cd_Distance c) (compareSpec demoRequest)"
proof -
  have "dependsOn (rq_After demoRequest) \<subseteq> {(''a'', ''b'')}"
    by (auto simp: dependsOn_def demoRequest_def demoTarget_def)
  moreover have "acyclic {(''a'', ''b'')}"
    by (simp add: acyclic_insert) (simp add: acyclic_def)
  ultimately have acyclic: "acyclic (dependsOn (rq_After demoRequest))"
    using acyclic_subset by blast
  have "map_of (rq_After demoRequest) [] = None" "rq_MaxDistance demoRequest < 0"
    by (simp_all add: demoRequest_def)
  then show ?thesis
    using Compare_acyclic_distances [OF demoRequest_keys acyclic _ _ demoRequest_result] by (simp add: list_all_iff)
qed

end
