(* ===== verification/TgbAlign.thy ===== *)
theory TgbAlign
  imports TgbProperties TargetDiff
begin

text \<open>
  \<open>internal/tgbdiff\<close>, phase 0: aligning the nodes of two blobs. \<open>align\<close> pairs whole blocks by their
  label digests and merge-joins the gaps between them; \<open>alignFallback\<close> merge-joins everything.

  The comparison only calls accessors of its two readers. Their results do not depend on which
  calls came before, so a reader is represented here by a \<open>readerView\<close>, the record of
  what its accessors return; \<open>viewOfReader\<close> reads it off a reader. An accessor that Go lets fail
  keeps its error; one that panics on a corrupt blob is read as the zero value. Positions
  and lengths are natural numbers.
\<close>

section \<open>What the comparison reads\<close>

record readerView =
  vNodeCount :: nat
  vHashBytes :: nat
  vHashes :: bytes
  vBlockCount :: nat
  vBlockDigests :: "u64 list"
  vBlockStart :: "nat \<Rightarrow> nat"
  vSplitLabel :: "nat \<Rightarrow> string \<times> string"
  vLabel :: "nat \<Rightarrow> string"
  vHash :: "nat \<Rightarrow> string"
  vRuleType :: "nat \<Rightarrow> string"
  vRoot :: "nat \<Rightarrow> bool"
  vExternal :: "nat \<Rightarrow> bool"
  vHashEmptyBits :: "tgb_error + bytes"
  vRuleTypeIDs :: "tgb_error + i32 list"
  vRuleTypeDictID :: "string \<Rightarrow> i32"
  vDeps :: "nat \<Rightarrow> i32 list"
  vDepsCSR :: "tgb_error + nat list \<times> i32 list"
  vTags :: "nat \<Rightarrow> i32 list"
  vTagName :: "i32 \<Rightarrow> string"
  vAttrs :: "nat \<Rightarrow> (string, string) gomap"
  vFindNode :: "string \<Rightarrow> string \<Rightarrow> int"

definition valueOr :: "'a \<Rightarrow> 'e + 'a \<Rightarrow> 'a" where
  "valueOr d m = (case m of Inl _ \<Rightarrow> d | Inr x \<Rightarrow> x)"

definition viewOfReader :: "(nat \<Rightarrow> bytes \<Rightarrow> bytes option) \<Rightarrow> Reader \<Rightarrow> readerView" where
  "viewOfReader zd r = \<lparr>
     vNodeCount = NodeCount r, vHashBytes = HashBytes r, vHashes = valueOr [] (Hashes r),
     vBlockCount = BlockCount r, vBlockDigests = valueOr [] (BlockDigests r),
     vBlockStart = (\<lambda>i. nat (valueOr 0 (fst (BlockStart zd i r)))),
     vSplitLabel = (\<lambda>i. valueOr ([], []) (fst (SplitLabel zd i r))),
     vLabel = (\<lambda>i. valueOr [] (fst (Label zd i r))),
     vHash = (\<lambda>i. valueOr [] (fst (Hash zd i r))),
     vRuleType = (\<lambda>i. valueOr [] (fst (RuleType zd i r))),
     vRoot = (\<lambda>i. valueOr False (fst (Root zd i r))),
     vExternal = (\<lambda>i. valueOr False (fst (External zd i r))),
     vHashEmptyBits = fst (HashEmptyBits zd r),
     vRuleTypeIDs = fst (RuleTypeIDs zd r),
     vRuleTypeDictID = (\<lambda>s. valueOr (- 1) (fst (RuleTypeDictID zd s r))),
     vDeps = (\<lambda>i. valueOr [] (fst (Deps zd i [] r))),
     vDepsCSR = fst (DepsCSR zd r),
     vTags = (\<lambda>i. valueOr [] (fst (Tags zd i [] r))),
     vTagName = (\<lambda>t. valueOr [] (fst (TagName zd t r))),
     vAttrs = (\<lambda>i. valueOr [] (fst (Attrs zd i r))),
     vFindNode = (\<lambda>p n. valueOr (- 1) (fst (FindNode zd p n r))) \<rparr>"

section \<open>Aligned runs\<close>

record alignedRun =
  beforeStart :: nat
  afterStart :: nat
  runLength :: nat

record blockRange =
  br_start :: nat
  br_end :: nat

record matchedPair =
  mp_bStart :: nat
  mp_bEnd :: nat
  mp_aStart :: nat
  mp_aEnd :: nat

text \<open>The blocks of a graph with their digests; the last block ends at the node count.\<close>

definition blockStarts :: "readerView \<Rightarrow> nat list" where
  "blockStarts v = map (vBlockStart v) [0..<vBlockCount v] @ [vNodeCount v]"

definition blocksOf :: "readerView \<Rightarrow> (blockRange \<times> u64) list" where
  "blocksOf v = map (\<lambda>i. (\<lparr> br_start = blockStarts v ! i, br_end = blockStarts v ! (i + 1) \<rparr>, vBlockDigests v ! i))
     [0..<vBlockCount v]"

definition digestMap :: "(blockRange \<times> u64) list \<Rightarrow> u64 \<Rightarrow> blockRange list" where
  "digestMap blocks d = map fst (filter (\<lambda>b. snd b = d) blocks)"

text \<open>The inner loop over the queue of a digest, from the position that earlier matches left.\<close>

fun scanQueue :: "nat \<Rightarrow> nat \<Rightarrow> nat \<Rightarrow> blockRange list \<Rightarrow> nat \<times> blockRange option" where
  "scanQueue afterPos bLen ptr [] = (ptr, None)"
| "scanQueue afterPos bLen ptr (br # brs) =
    (if br_start br < afterPos then scanQueue afterPos bLen (ptr + 1) brs
     else if br_end br - br_start br \<noteq> bLen then scanQueue afterPos bLen (ptr + 1) brs
     else (ptr + 1, Some br))"

fun digestMatches :: "(u64 \<Rightarrow> blockRange list) \<Rightarrow> (blockRange \<times> u64) list \<Rightarrow> (u64 \<Rightarrow> nat) \<Rightarrow> nat \<Rightarrow> matchedPair list" where
  "digestMatches aDigestMap [] aQueuePtr afterPos = []"
| "digestMatches aDigestMap ((b, d) # blocks) aQueuePtr afterPos =
    (case scanQueue afterPos (br_end b - br_start b) (aQueuePtr d) (drop (aQueuePtr d) (aDigestMap d)) of
       (ptr, None) \<Rightarrow> digestMatches aDigestMap blocks (aQueuePtr(d := ptr)) afterPos
     | (ptr, Some br) \<Rightarrow>
         \<lparr> mp_bStart = br_start b, mp_bEnd = br_end b, mp_aStart = br_start br, mp_aEnd = br_end br \<rparr>
         # digestMatches aDigestMap blocks (aQueuePtr(d := ptr)) (br_end br))"

text \<open>The merge-join of one gap: matched pairs, nodes only before, nodes only after.\<close>

function mergeGap :: "(nat \<Rightarrow> string \<times> string) \<Rightarrow> (nat \<Rightarrow> string \<times> string) \<Rightarrow> nat \<Rightarrow> nat \<Rightarrow> nat \<Rightarrow> nat \<Rightarrow>
    matchedPair list \<times> nat list \<times> nat list" where
  "mergeGap before after bi gb1 ai ga1 =
    (if bi < gb1 \<and> ai < ga1 then
       (case (before bi, after ai) of ((bPkg, bName), (aPkg, aName)) \<Rightarrow>
          if bPkg = aPkg \<and> bName = aName then
            (case mergeGap before after (bi + 1) gb1 (ai + 1) ga1 of (pairs, deleted, inserted) \<Rightarrow>
               (\<lparr> mp_bStart = bi, mp_bEnd = bi + 1, mp_aStart = ai, mp_aEnd = ai + 1 \<rparr> # pairs, deleted, inserted))
          else if bPkg < aPkg \<or> bPkg = aPkg \<and> bName < aName then
            (case mergeGap before after (bi + 1) gb1 ai ga1 of (pairs, deleted, inserted) \<Rightarrow>
               (pairs, bi # deleted, inserted))
          else
            (case mergeGap before after bi gb1 (ai + 1) ga1 of (pairs, deleted, inserted) \<Rightarrow>
               (pairs, deleted, ai # inserted)))
     else ([], [bi..<gb1], [ai..<ga1]))"
  by auto
termination
  by (relation "measure (\<lambda>(b, a, bi, gb1, ai, ga1). (gb1 - bi) + (ga1 - ai))") auto

declare mergeGap.simps [simp del]

fun mergeGaps :: "(nat \<Rightarrow> string \<times> string) \<Rightarrow> (nat \<Rightarrow> string \<times> string) \<Rightarrow> nat \<Rightarrow> nat \<Rightarrow> nat \<Rightarrow> nat \<Rightarrow> matchedPair list \<Rightarrow>
    matchedPair list \<times> nat list \<times> nat list" where
  "mergeGaps before after bN aN prevB prevA [] = mergeGap before after prevB bN prevA aN"
| "mergeGaps before after bN aN prevB prevA (p # ps) =
    (case mergeGap before after prevB (mp_bStart p) prevA (mp_aStart p) of (pairs, deleted, inserted) \<Rightarrow>
     case mergeGaps before after bN aN (mp_bEnd p) (mp_aEnd p) ps of (pairs', deleted', inserted') \<Rightarrow>
       (pairs @ pairs', deleted @ deleted', inserted @ inserted'))"

text \<open>Joining adjacent pairs into runs, the pairs being sorted by \<open>mp_bStart\<close>.\<close>

definition runOf :: "matchedPair \<Rightarrow> alignedRun" where
  "runOf p = \<lparr> beforeStart = mp_bStart p, afterStart = mp_aStart p, runLength = mp_bEnd p - mp_bStart p \<rparr>"

fun growRun :: "alignedRun \<Rightarrow> matchedPair \<Rightarrow> matchedPair list \<Rightarrow> alignedRun list" where
  "growRun run prev [] = [run]"
| "growRun run prev (cur # ps) =
    (if mp_bStart cur = mp_bEnd prev \<and> mp_aStart cur = mp_aEnd prev
     then growRun (run \<lparr> runLength := runLength run + (mp_bEnd cur - mp_bStart cur) \<rparr>) cur ps
     else run # growRun (runOf cur) cur ps)"

fun joinRuns :: "matchedPair list \<Rightarrow> alignedRun list" where
  "joinRuns [] = []"
| "joinRuns (p # ps) = growRun (runOf p) p ps"

text \<open>The merge-join over all nodes, which extends the last run or starts one.\<close>

definition addToRuns :: "alignedRun list \<Rightarrow> nat \<Rightarrow> nat \<Rightarrow> alignedRun list" where
  "addToRuns runs bi ai =
    (if runs \<noteq> [] \<and> beforeStart (last runs) + runLength (last runs) = bi \<and> afterStart (last runs) + runLength (last runs) = ai
     then butlast runs @ [(last runs) \<lparr> runLength := runLength (last runs) + 1 \<rparr>]
     else runs @ [\<lparr> beforeStart = bi, afterStart = ai, runLength = 1 \<rparr>])"

function fallback_loop :: "(nat \<Rightarrow> string \<times> string) \<Rightarrow> (nat \<Rightarrow> string \<times> string) \<Rightarrow> nat \<Rightarrow> nat \<Rightarrow> nat \<Rightarrow> nat \<Rightarrow>
    alignedRun list \<Rightarrow> alignedRun list \<times> nat list \<times> nat list" where
  "fallback_loop bLabels aLabels bi bN ai aN runs =
    (if bi < bN \<and> ai < aN then
       (if bLabels bi = aLabels ai then fallback_loop bLabels aLabels (bi + 1) bN (ai + 1) aN (addToRuns runs bi ai)
        else if fst (bLabels bi) < fst (aLabels ai) \<or> fst (bLabels bi) = fst (aLabels ai) \<and> snd (bLabels bi) < snd (aLabels ai) then
          (case fallback_loop bLabels aLabels (bi + 1) bN ai aN runs of (runs', deleted, inserted) \<Rightarrow> (runs', bi # deleted, inserted))
        else
          (case fallback_loop bLabels aLabels bi bN (ai + 1) aN runs of (runs', deleted, inserted) \<Rightarrow> (runs', deleted, ai # inserted)))
     else (runs, [bi..<bN], [ai..<aN]))"
  by auto
termination
  by (relation "measure (\<lambda>(b, a, bi, bN, ai, aN, runs). (bN - bi) + (aN - ai))") auto

declare fallback_loop.simps [simp del]

definition alignFallback :: "readerView \<Rightarrow> readerView \<Rightarrow> nat \<Rightarrow> nat \<Rightarrow> alignedRun list \<times> nat list \<times> nat list" where
  "alignFallback before after bN aN = fallback_loop (vSplitLabel before) (vSplitLabel after) 0 bN 0 aN []"

definition align :: "readerView \<Rightarrow> readerView \<Rightarrow> alignedRun list \<times> nat list \<times> nat list" where
  "align before after =
    (let bN = vNodeCount before; aN = vNodeCount after in
     if vBlockCount before = 0 \<and> vBlockCount after = 0 then
       (if 0 < bN \<or> 0 < aN then alignFallback before after bN aN else ([], [], []))
     else if vBlockCount before = 0 then ([], [], [0..<aN])
     else if vBlockCount after = 0 then ([], [0..<bN], [])
     else
       (let matched = digestMatches (digestMap (blocksOf after)) (blocksOf before) (\<lambda>_. 0) 0 in
        case mergeGaps (vSplitLabel before) (vSplitLabel after) bN aN 0 0 matched of (pairs, deletedBefore, insertedAfter) \<Rightarrow>
          (joinRuns (sort_key mp_bStart (matched @ pairs)), deletedBefore, insertedAfter)))"


section \<open>The merge-join\<close>

text \<open>
  The specification: the pairs of positions with equal keys in key order, and the positions of each
  side without a partner. \<open>ascending\<close> says that the keys of a range increase strictly.
\<close>

definition matchesIn :: "(nat \<Rightarrow> 'k) \<Rightarrow> (nat \<Rightarrow> 'k) \<Rightarrow> nat \<Rightarrow> nat \<Rightarrow> nat \<Rightarrow> nat \<Rightarrow> (nat \<times> nat) list" where
  "matchesIn b a b0 b1 a0 a1 = concat (map (\<lambda>i. map (Pair i) (filter (\<lambda>j. b i = a j) [a0..<a1])) [b0..<b1])"

definition onlyIn :: "(nat \<Rightarrow> 'k) \<Rightarrow> (nat \<Rightarrow> 'k) \<Rightarrow> nat \<Rightarrow> nat \<Rightarrow> nat \<Rightarrow> nat \<Rightarrow> nat list" where
  "onlyIn b a b0 b1 a0 a1 = filter (\<lambda>i. \<forall>j \<in> {a0..<a1}. b i \<noteq> a j) [b0..<b1]"

definition ascending :: "(nat \<Rightarrow> 'k::linorder) \<Rightarrow> nat \<Rightarrow> nat \<Rightarrow> bool" where
  "ascending f lo hi \<longleftrightarrow> (\<forall>i j. lo \<le> i \<and> i < j \<and> j < hi \<longrightarrow> f i < f j)"

definition unitPair :: "nat \<times> nat \<Rightarrow> matchedPair" where
  "unitPair p = \<lparr> mp_bStart = fst p, mp_bEnd = fst p + 1, mp_aStart = snd p, mp_aEnd = snd p + 1 \<rparr>"

lemma ascendingD: "ascending f lo hi \<Longrightarrow> lo \<le> i \<Longrightarrow> i < j \<Longrightarrow> j < hi \<Longrightarrow> f i < f j"
  by (simp add: ascending_def)

lemma ascending_mono: "ascending f lo hi \<Longrightarrow> lo \<le> lo' \<Longrightarrow> hi' \<le> hi \<Longrightarrow> ascending f lo' hi'"
  by (auto simp: ascending_def)

lemma matchesIn_empty [simp]: "b1 \<le> b0 \<Longrightarrow> matchesIn b a b0 b1 a0 a1 = []" "a1 \<le> a0 \<Longrightarrow> matchesIn b a b0 b1 a0 a1 = []"
  by (simp_all add: matchesIn_def)

lemma onlyIn_empty [simp]: "b1 \<le> b0 \<Longrightarrow> onlyIn b a b0 b1 a0 a1 = []" "a1 \<le> a0 \<Longrightarrow> onlyIn b a b0 b1 a0 a1 = [b0..<b1]"
  by (simp_all add: onlyIn_def)

text \<open>Narrowing the other side to the positions that can match.\<close>

lemma matchesIn_cong:
  assumes "\<And>i j. b0 \<le> i \<Longrightarrow> i < b1 \<Longrightarrow> b i = a j \<Longrightarrow> a0 \<le> j \<and> j < a1 \<longleftrightarrow> a0' \<le> j \<and> j < a1'"
  shows "matchesIn b a b0 b1 a0 a1 = matchesIn b a b0 b1 a0' a1'"
proof -
  have "filter (\<lambda>j. b i = a j) [a0..<a1] = filter (\<lambda>j. b i = a j) [a0'..<a1']" if "b0 \<le> i" "i < b1" for i
    by (rule sorted_distinct_set_unique) (use assms [OF that] in \<open>auto simp: sorted_wrt_filter\<close>)
  then show ?thesis
    by (auto simp: matchesIn_def intro!: arg_cong [of _ _ concat])
qed

lemma onlyIn_cong:
  assumes "\<And>i j. b0 \<le> i \<Longrightarrow> i < b1 \<Longrightarrow> b i = a j \<Longrightarrow> a0 \<le> j \<and> j < a1 \<longleftrightarrow> a0' \<le> j \<and> j < a1'"
  shows "onlyIn b a b0 b1 a0 a1 = onlyIn b a b0 b1 a0' a1'"
  unfolding onlyIn_def by (rule filter_cong [OF refl]) (use assms in auto)

lemma upt_split: "i \<le> j \<Longrightarrow> j \<le> k \<Longrightarrow> [i..<k] = [i..<j] @ [j..<k]"
  using upt_add_eq_append [of i j "k - j"] by simp

lemma matchesIn_append: "b0 \<le> b1 \<Longrightarrow> b1 \<le> b2 \<Longrightarrow> matchesIn b a b0 b2 a0 a1 = matchesIn b a b0 b1 a0 a1 @ matchesIn b a b1 b2 a0 a1"
  by (simp add: matchesIn_def upt_split [of b0 b1 b2])

lemma onlyIn_append: "b0 \<le> b1 \<Longrightarrow> b1 \<le> b2 \<Longrightarrow> onlyIn b a b0 b2 a0 a1 = onlyIn b a b0 b1 a0 a1 @ onlyIn b a b1 b2 a0 a1"
  by (simp add: onlyIn_def upt_split [of b0 b1 b2])

lemma matchesIn_Cons:
  "b0 < b1 \<Longrightarrow> matchesIn b a b0 b1 a0 a1 = map (Pair b0) (filter (\<lambda>j. b b0 = a j) [a0..<a1]) @ matchesIn b a (Suc b0) b1 a0 a1"
  by (simp add: matchesIn_def upt_conv_Cons)

lemma onlyIn_Cons:
  "b0 < b1 \<Longrightarrow> onlyIn b a b0 b1 a0 a1 = (if \<forall>j \<in> {a0..<a1}. b b0 \<noteq> a j then [b0] else []) @ onlyIn b a (Suc b0) b1 a0 a1"
  by (simp add: onlyIn_def upt_conv_Cons)

text \<open>The three ways a step of the join narrows the problem.\<close>

lemma join_equal:
  assumes "b0 < b1" "a0 < a1" "b b0 = a a0" "ascending b b0 b1" "ascending a a0 a1"
  shows "matchesIn b a b0 b1 a0 a1 = (b0, a0) # matchesIn b a (Suc b0) b1 (Suc a0) a1"
    "onlyIn b a b0 b1 a0 a1 = onlyIn b a (Suc b0) b1 (Suc a0) a1"
proof -
  have "filter (\<lambda>j. b b0 = a j) [a0..<a1] = [a0]"
  proof -
    have "a a0 \<noteq> a j" if "j \<in> set [Suc a0..<a1]" for j
      using ascendingD [OF assms(5), of a0 j] that by auto
    then show ?thesis
      using assms(2,3) by (auto simp: upt_conv_Cons filter_empty_conv)
  qed
  moreover have "a0 \<le> j \<and> j < a1 \<longleftrightarrow> Suc a0 \<le> j \<and> j < a1" if "Suc b0 \<le> i" "i < b1" "b i = a j" for i j
    using that assms(3) ascendingD [OF assms(4), of b0 i] by (auto simp: le_eq_less_or_eq)
  ultimately show "matchesIn b a b0 b1 a0 a1 = (b0, a0) # matchesIn b a (Suc b0) b1 (Suc a0) a1"
    "onlyIn b a b0 b1 a0 a1 = onlyIn b a (Suc b0) b1 (Suc a0) a1"
    using assms(1-3) matchesIn_cong [of "Suc b0" b1 b a a0 a1 "Suc a0" a1] onlyIn_cong [of "Suc b0" b1 b a a0 a1 "Suc a0" a1]
    by (auto simp: matchesIn_Cons onlyIn_Cons)
qed

lemma join_less:
  assumes "b0 < b1" "a0 < a1" "b b0 < a a0" "ascending a a0 a1"
  shows "matchesIn b a b0 b1 a0 a1 = matchesIn b a (Suc b0) b1 a0 a1"
    "onlyIn b a b0 b1 a0 a1 = b0 # onlyIn b a (Suc b0) b1 a0 a1"
    "onlyIn a b a0 a1 b0 b1 = onlyIn a b a0 a1 (Suc b0) b1"
proof -
  have ne: "b b0 \<noteq> a j" if "a0 \<le> j" "j < a1" for j
    using that assms(3) ascendingD [OF assms(4), of a0 j] by (cases "j = a0") auto
  then show "matchesIn b a b0 b1 a0 a1 = matchesIn b a (Suc b0) b1 a0 a1"
    "onlyIn b a b0 b1 a0 a1 = b0 # onlyIn b a (Suc b0) b1 a0 a1"
    using assms(1) by (auto simp: matchesIn_Cons onlyIn_Cons filter_empty_conv)
  show "onlyIn a b a0 a1 b0 b1 = onlyIn a b a0 a1 (Suc b0) b1"
    by (rule onlyIn_cong) (metis ne Suc_leD le_antisym not_less_eq_eq)
qed

lemma join_greater:
  assumes "b0 < b1" "a0 < a1" "a a0 < b b0" "ascending b b0 b1"
  shows "matchesIn b a b0 b1 a0 a1 = matchesIn b a b0 b1 (Suc a0) a1"
proof (rule matchesIn_cong)
  have "a a0 \<noteq> b i" if "b0 \<le> i" "i < b1" for i
    using that assms(3) ascendingD [OF assms(4), of b0 i] by (cases "i = b0") auto
  then show "(a0 \<le> j \<and> j < a1) = (Suc a0 \<le> j \<and> j < a1)" if "b0 \<le> i" "i < b1" "b i = a j" for i j
    using that by (metis Suc_leD le_antisym not_less_eq_eq)
qed

lemma mergeGap_step:
  assumes "bi < gb1" "ai < ga1"
  shows "mergeGap before after bi gb1 ai ga1 =
    (if before bi = after ai then
       (case mergeGap before after (Suc bi) gb1 (Suc ai) ga1 of (ps, ds, is) \<Rightarrow> (unitPair (bi, ai) # ps, ds, is))
     else if before bi < after ai then (case mergeGap before after (Suc bi) gb1 ai ga1 of (ps, ds, is) \<Rightarrow> (ps, bi # ds, is))
     else (case mergeGap before after bi gb1 (Suc ai) ga1 of (ps, ds, is) \<Rightarrow> (ps, ds, ai # is)))"
  using assms
  by (subst mergeGap.simps) (cases "before bi"; cases "after ai"; auto simp: unitPair_def)

lemma mergeGap_spec:
  assumes "ascending before bi gb1" "ascending after ai ga1"
  shows "mergeGap before after bi gb1 ai ga1 =
    (map unitPair (matchesIn before after bi gb1 ai ga1), onlyIn before after bi gb1 ai ga1, onlyIn after before ai ga1 bi gb1)"
  using assms
proof (induction "(gb1 - bi) + (ga1 - ai)" arbitrary: bi ai rule: less_induct)
  case less
  have asc: "ascending before (Suc bi) gb1" "ascending after (Suc ai) ga1"
    using less.prems by (auto elim: ascending_mono)
  consider "\<not> (bi < gb1 \<and> ai < ga1)" | "bi < gb1" "ai < ga1" "before bi = after ai"
    | "bi < gb1" "ai < ga1" "before bi < after ai" | "bi < gb1" "ai < ga1" "after ai < before bi"
    by (meson neqE)
  then show ?case
  proof cases
    case 1
    then show ?thesis
      by (auto simp: mergeGap.simps [of before after bi gb1 ai ga1] not_less)
  next
    case 2
    then show ?thesis
      using less.hyps [of "Suc bi" "Suc ai"] asc join_equal [where b = before and a = after, OF 2 less.prems] join_equal(2) [where a = before and b = after, OF 2(2,1) 2(3) [symmetric] less.prems(2,1)]
      by (simp add: mergeGap_step)
  next
    case 3
    then have "before bi \<noteq> after ai"
      by auto
    with 3 show ?thesis
      using less.hyps [of "Suc bi" ai] asc less.prems join_less [where b = before and a = after, OF 3 less.prems(2)] by (simp add: mergeGap_step)
  next
    case 4
    then have "before bi \<noteq> after ai" "\<not> before bi < after ai"
      by auto
    with 4 show ?thesis
      using less.hyps [of bi "Suc ai"] asc less.prems join_greater [where b = before and a = after, OF 4 less.prems(1)] join_less(2,3) [where a = before and b = after, OF 4(2,1,3) less.prems(1)]
      by (simp add: mergeGap_step)
  qed
qed

section \<open>Joining runs\<close>

text \<open>Runs as a function of the aligned positions, one at a time.\<close>

fun growUnit :: "alignedRun \<Rightarrow> (nat \<times> nat) list \<Rightarrow> alignedRun list" where
  "growUnit run [] = [run]"
| "growUnit run ((i, j) # ps) =
    (if i = beforeStart run + runLength run \<and> j = afterStart run + runLength run
     then growUnit (run \<lparr> runLength := runLength run + 1 \<rparr>) ps
     else run # growUnit \<lparr> beforeStart = i, afterStart = j, runLength = 1 \<rparr> ps)"

fun runsOf :: "(nat \<times> nat) list \<Rightarrow> alignedRun list" where
  "runsOf [] = []"
| "runsOf ((i, j) # ps) = growUnit \<lparr> beforeStart = i, afterStart = j, runLength = 1 \<rparr> ps"

definition explode :: "matchedPair \<Rightarrow> (nat \<times> nat) list" where
  "explode p = map (\<lambda>k. (mp_bStart p + k, mp_aStart p + k)) [0..<mp_bEnd p - mp_bStart p]"

definition pair_ok :: "matchedPair \<Rightarrow> bool" where
  "pair_ok p \<longleftrightarrow> mp_bStart p < mp_bEnd p \<and> mp_aEnd p = mp_aStart p + (mp_bEnd p - mp_bStart p)"

lemma growUnit_extend:
  assumes "i = beforeStart run + runLength run" "j = afterStart run + runLength run"
  shows "growUnit run (map (\<lambda>k. (i + k, j + k)) [0..<n] @ ps) = growUnit (run \<lparr> runLength := runLength run + n \<rparr>) ps"
  using assms
proof (induction n arbitrary: run i j)
  case (Suc n)
  have "map (\<lambda>k. (i + k, j + k)) [0..<Suc n] = (i, j) # map (\<lambda>k. (Suc i + k, Suc j + k)) [0..<n]"
    by (simp add: upt_conv_Cons map_Suc_upt [symmetric] del: upt_Suc)
  then show ?case
    using Suc.IH [of "Suc i" "run \<lparr> runLength := runLength run + 1 \<rparr>" "Suc j"] Suc.prems by (simp del: upt_Suc)
qed simp

lemma explode_Cons:
  assumes "pair_ok p"
  shows "explode p = (mp_bStart p, mp_aStart p) # map (\<lambda>k. (Suc (mp_bStart p) + k, Suc (mp_aStart p) + k)) [0..<mp_bEnd p - mp_bStart p - 1]"
proof -
  obtain n where n: "mp_bEnd p - mp_bStart p = Suc n"
    using assms by (metis pair_ok_def Suc_diff_Suc)
  show ?thesis
    by (simp add: explode_def n upt_conv_Cons map_Suc_upt [symmetric] del: upt_Suc)
qed

lemma growUnit_start: "pair_ok p \<Longrightarrow> growUnit \<lparr> beforeStart = mp_bStart p, afterStart = mp_aStart p, runLength = 1 \<rparr>
    (map (\<lambda>k. (Suc (mp_bStart p) + k, Suc (mp_aStart p) + k)) [0..<mp_bEnd p - mp_bStart p - 1] @ ps) = growUnit (runOf p) ps"
  by (subst growUnit_extend) (auto simp: runOf_def pair_ok_def Suc_diff_Suc)

lemma growRun_explode:
  assumes "\<forall>p \<in> set ps. pair_ok p" "mp_bEnd prev = beforeStart run + runLength run" "mp_aEnd prev = afterStart run + runLength run"
  shows "growRun run prev ps = growUnit run (concat (map explode ps))"
  using assms
proof (induction ps arbitrary: run prev)
  case (Cons p ps)
  then have ok: "pair_ok p"
    by simp
  show ?case
  proof (cases "mp_bStart p = mp_bEnd prev \<and> mp_aStart p = mp_aEnd prev")
    case True
    then show ?thesis
      using Cons.IH [of p "run \<lparr> runLength := runLength run + (mp_bEnd p - mp_bStart p) \<rparr>"] Cons.prems ok
        growUnit_extend [of "mp_bStart p" run "mp_aStart p" "mp_bEnd p - mp_bStart p" "concat (map explode ps)", folded explode_def]
      by (simp add: pair_ok_def)
  next
    case False
    then show ?thesis
      using Cons.IH [of p "runOf p"] Cons.prems ok growUnit_start [OF ok, of "concat (map explode ps)"]
      by (auto simp: explode_Cons runOf_def pair_ok_def)
  qed
qed simp

lemma joinRuns_explode: "\<forall>p \<in> set ps. pair_ok p \<Longrightarrow> joinRuns ps = runsOf (concat (map explode ps))"
proof (cases ps)
  case (Cons p qs)
  assume "\<forall>p \<in> set ps. pair_ok p"
  then show ?thesis
    using growUnit_start [of p "concat (map explode qs)"] growRun_explode [of qs p "runOf p"]
    by (auto simp: Cons explode_Cons runOf_def pair_ok_def)
qed simp

section \<open>The fallback\<close>

lemma addToRuns_last: "foldl (\<lambda>rs p. addToRuns rs (fst p) (snd p)) (rs @ [run]) ps = rs @ growUnit run ps"
proof (induction ps arbitrary: rs run)
  case (Cons p ps)
  obtain i j where p: "p = (i, j)"
    by (cases p)
  have "addToRuns (rs @ [run]) i j = (if i = beforeStart run + runLength run \<and> j = afterStart run + runLength run
      then rs @ [run \<lparr> runLength := runLength run + 1 \<rparr>] else (rs @ [run]) @ [\<lparr> beforeStart = i, afterStart = j, runLength = 1 \<rparr>])"
    by (auto simp: addToRuns_def)
  then show ?case
    using Cons.IH [of rs "run \<lparr> runLength := runLength run + 1 \<rparr>"] Cons.IH [of "rs @ [run]"] by (simp add: p)
qed simp

lemma addToRuns_runsOf: "foldl (\<lambda>rs p. addToRuns rs (fst p) (snd p)) [] ps = runsOf ps"
  using addToRuns_last [of "[]"] by (cases ps rule: runsOf.cases) (simp_all add: addToRuns_def)

lemma key_less: "fst x < fst y \<or> fst x = fst y \<and> snd x < snd y \<longleftrightarrow> x < (y :: 'a::linorder \<times> 'b::linorder)"
  by (cases x; cases y) auto

lemma fallback_mergeGap:
  "fallback_loop b a bi bN ai aN runs = (case mergeGap b a bi bN ai aN of (ps, ds, is) \<Rightarrow>
     (foldl (\<lambda>rs p. addToRuns rs (mp_bStart p) (mp_aStart p)) runs ps, ds, is))"
proof (induction b a bi bN ai aN runs rule: fallback_loop.induct)
  case (1 b a bi bN ai aN runs)
  show ?case
  proof (cases "bi < bN \<and> ai < aN")
    case False
    then show ?thesis
      by (subst fallback_loop.simps, subst mergeGap.simps) auto
  next
    case True
    then show ?thesis
      unfolding fallback_loop.simps [of b a bi bN ai aN] mergeGap_step [OF conjunct1 [OF True] conjunct2 [OF True]] key_less
      using "1.IH" [OF True] by (simp add: key_less unitPair_def split: prod.splits)
  qed
qed

lemma fallback_spec:
  assumes "ascending (vSplitLabel before) 0 bN" "ascending (vSplitLabel after) 0 aN"
  shows "alignFallback before after bN aN =
    (runsOf (matchesIn (vSplitLabel before) (vSplitLabel after) 0 bN 0 aN),
     onlyIn (vSplitLabel before) (vSplitLabel after) 0 bN 0 aN, onlyIn (vSplitLabel after) (vSplitLabel before) 0 aN 0 bN)"
proof -
  have "foldl (\<lambda>rs p. addToRuns rs (mp_bStart p) (mp_aStart p)) [] (map unitPair ps) = runsOf ps" for ps
    by (simp add: foldl_map unitPair_def addToRuns_runsOf)
  then show ?thesis
    by (simp add: alignFallback_def fallback_mergeGap mergeGap_spec [OF assms])
qed

section \<open>Gap by gap\<close>

text \<open>
  The digest matches as a chain: disjoint, ascending on both sides, not empty, and with equal keys
  position by position.
\<close>

fun chain :: "(nat \<Rightarrow> 'k) \<Rightarrow> (nat \<Rightarrow> 'k) \<Rightarrow> nat \<Rightarrow> nat \<Rightarrow> nat \<Rightarrow> nat \<Rightarrow> matchedPair list \<Rightarrow> bool" where
  "chain b a bN aN pb pa [] \<longleftrightarrow> pb \<le> bN \<and> pa \<le> aN"
| "chain b a bN aN pb pa (p # ps) \<longleftrightarrow> pb \<le> mp_bStart p \<and> pa \<le> mp_aStart p \<and> pair_ok p \<and>
     (\<forall>k < mp_bEnd p - mp_bStart p. b (mp_bStart p + k) = a (mp_aStart p + k)) \<and> chain b a bN aN (mp_bEnd p) (mp_aEnd p) ps"

lemma chain_bounds: "chain b a bN aN pb pa ps \<Longrightarrow> pb \<le> bN \<and> pa \<le> aN"
  by (induction ps arbitrary: pb pa) (force simp: pair_ok_def)+

text \<open>Nothing before the cut on one side equals anything behind it on the other.\<close>

definition splitsAt :: "(nat \<Rightarrow> 'k::linorder) \<Rightarrow> (nat \<Rightarrow> 'k) \<Rightarrow> nat \<Rightarrow> nat \<Rightarrow> nat \<Rightarrow> nat \<Rightarrow> bool" where
  "splitsAt b a bN aN x y \<longleftrightarrow> (\<forall>i < bN. \<forall>j < aN. b i = a j \<longrightarrow> (i < x \<longleftrightarrow> j < y))"

lemma cut_at_match:
  assumes "ascending b 0 bN" "ascending a 0 aN" "x < bN" "y < aN" "b x = a y"
  shows "splitsAt b a bN aN x y" "splitsAt b a bN aN (Suc x) (Suc y)"
proof -
  have "i < x \<longleftrightarrow> j < y" "i < Suc x \<longleftrightarrow> j < Suc y" if "i < bN" "j < aN" "b i = a j" for i j
  proof -
    have "i < x \<longleftrightarrow> b i < b x" "x < i \<longleftrightarrow> b x < b i" "j < y \<longleftrightarrow> a j < a y" "y < j \<longleftrightarrow> a y < a j"
      using that assms ascendingD [OF assms(1), of i x] ascendingD [OF assms(1), of x i]
        ascendingD [OF assms(2), of j y] ascendingD [OF assms(2), of y j]
      by (metis le0 less_asym nat_neq_iff)+
    then show "i < x \<longleftrightarrow> j < y" "i < Suc x \<longleftrightarrow> j < Suc y"
      using assms(5) that(3) by (auto simp: less_Suc_eq_le not_less [symmetric])
  qed
  then show "splitsAt b a bN aN x y" "splitsAt b a bN aN (Suc x) (Suc y)"
    by (auto simp: splitsAt_def)
qed

lemma splitsAt_swap: "splitsAt a b aN bN y x = splitsAt b a bN aN x y"
  by (fastforce simp: splitsAt_def)

lemma between_cuts:
  assumes "splitsAt b a bN aN pb pa" "splitsAt b a bN aN x y" "x \<le> bN" "y \<le> aN" "pb \<le> x" "pa \<le> y"
  shows "matchesIn b a pb x pa y = matchesIn b a pb x 0 aN" "onlyIn b a pb x pa y = onlyIn b a pb x 0 aN"
proof -
  have "pa \<le> j \<and> j < y \<longleftrightarrow> 0 \<le> j \<and> j < aN" if "pb \<le> i" "i < x" "b i = a j" for i j
    using assms that unfolding splitsAt_def by (metis le0 le_trans less_le_trans not_less)
  then show "matchesIn b a pb x pa y = matchesIn b a pb x 0 aN" "onlyIn b a pb x pa y = onlyIn b a pb x 0 aN"
    by (auto intro: matchesIn_cong onlyIn_cong)
qed

text \<open>The pairs in key order: the joined pairs of a gap, the matched block behind it, and so on.\<close>

fun ordered :: "(nat \<Rightarrow> string \<times> string) \<Rightarrow> (nat \<Rightarrow> string \<times> string) \<Rightarrow> nat \<Rightarrow> nat \<Rightarrow> nat \<Rightarrow> nat \<Rightarrow> matchedPair list \<Rightarrow> matchedPair list" where
  "ordered b a bN aN pb pa [] = fst (mergeGap b a pb bN pa aN)"
| "ordered b a bN aN pb pa (p # ps) = fst (mergeGap b a pb (mp_bStart p) pa (mp_aStart p)) @ p # ordered b a bN aN (mp_bEnd p) (mp_aEnd p) ps"

lemma mset_ordered: "mset (ordered b a bN aN pb pa ps) = mset (ps @ fst (mergeGaps b a bN aN pb pa ps))"
  by (induction ps arbitrary: pb pa) (auto split: prod.splits)

lemma concat_explode_unit [simp]: "concat (map (explode \<circ> unitPair) ps) = ps"
  by (induction ps) (auto simp: explode_def unitPair_def)

lemma matchesIn_block:
  assumes "ascending a 0 aN" "\<forall>k < n. b (x + k) = a (y + k)" "y + n \<le> aN"
  shows "matchesIn b a x (x + n) 0 aN = map (\<lambda>k. (x + k, y + k)) [0..<n]"
proof -
  have "filter (\<lambda>j. b (x + k) = a j) [0..<aN] = [y + k]" if "k < n" for k
  proof (rule sorted_distinct_set_unique)
    have "a (y + k) = a j \<longleftrightarrow> j = y + k" if "j < aN" for j
      using ascendingD [OF assms(1), of j "y + k"] ascendingD [OF assms(1), of "y + k" j] that assms(3) \<open>k < n\<close>
      by (cases j "y + k" rule: linorder_cases) auto
    then show "set (filter (\<lambda>j. b (x + k) = a j) [0..<aN]) = set [y + k]"
      using assms(2,3) that by auto
  qed (auto simp: sorted_wrt_filter)
  moreover have "[x..<x + n] = map (\<lambda>k. x + k) [0..<n]"
    by (rule nth_equalityI) auto
  ultimately have "map (\<lambda>i. map (Pair i) (filter (\<lambda>j. b i = a j) [0..<aN])) [x..<x + n] = map (\<lambda>k. [(x + k, y + k)]) [0..<n]"
    by simp
  then show ?thesis
    unfolding matchesIn_def by simp
qed

lemma onlyIn_block:
  assumes "\<forall>k < n. b (x + k) = a (y + k)" "y + n \<le> aN"
  shows "onlyIn b a x (x + n) 0 aN = []"
proof -
  have "\<exists>j \<in> {0..<aN}. b i = a j" if "i \<in> set [x..<x + n]" for i
    using assms that by (intro bexI [of _ "y + (i - x)"]) (auto dest: spec [of _ "i - x"])
  then show ?thesis
    by (fastforce simp: onlyIn_def filter_empty_conv)
qed

lemma mergeGaps_spec:
  assumes "ascending b 0 bN" "ascending a 0 aN" "chain b a bN aN pb pa ps" "splitsAt b a bN aN pb pa"
  shows "concat (map explode (ordered b a bN aN pb pa ps)) = matchesIn b a pb bN 0 aN \<and>
    snd (mergeGaps b a bN aN pb pa ps) = (onlyIn b a pb bN 0 aN, onlyIn a b pa aN 0 bN)"
  using assms(3,4)
proof (induction ps arbitrary: pb pa)
  case Nil
  have asc: "ascending b pb bN" "ascending a pa aN"
    using assms(1,2) by (auto elim: ascending_mono)
  have top: "splitsAt b a bN aN bN aN" "splitsAt a b aN bN aN bN" "splitsAt a b aN bN pa pb"
    using Nil.prems(2) by (auto simp: splitsAt_def)
  show ?case
    using Nil.prems(1) between_cuts [OF Nil.prems(2) top(1)] between_cuts(2) [OF top(3,2)]
    by (simp add: mergeGap_spec [OF asc])
next
  case (Cons p ps)
  let ?n = "mp_bEnd p - mp_bStart p"
  have p: "pb \<le> mp_bStart p" "pa \<le> mp_aStart p" "pair_ok p" "\<forall>k < ?n. b (mp_bStart p + k) = a (mp_aStart p + k)"
      "chain b a bN aN (mp_bEnd p) (mp_aEnd p) ps"
    using Cons.prems(1) by auto
  have n: "0 < ?n" "mp_bEnd p = mp_bStart p + ?n" "mp_aEnd p = mp_aStart p + ?n" "mp_bEnd p \<le> bN" "mp_aEnd p \<le> aN"
    using p(3) chain_bounds [OF p(5)] by (auto simp: pair_ok_def)
  have m1: "b (mp_bStart p) = a (mp_aStart p)"
    using p(4) n(1) by (metis add.right_neutral)
  have m2: "b (mp_bStart p + (?n - 1)) = a (mp_aStart p + (?n - 1))"
    by (rule p(4) [rule_format]) (use n(1) in linarith)
  have c1: "splitsAt b a bN aN (mp_bStart p) (mp_aStart p)"
    using cut_at_match(1) [OF assms(1,2) _ _ m1] n by linarith
  have c2: "splitsAt b a bN aN (mp_bEnd p) (mp_aEnd p)"
  proof -
    have "Suc (mp_bStart p + (?n - 1)) = mp_bEnd p" "Suc (mp_aStart p + (?n - 1)) = mp_aEnd p"
      "mp_bStart p + (?n - 1) < bN" "mp_aStart p + (?n - 1) < aN"
      using n by linarith+
    then show ?thesis
      using cut_at_match(2) [OF assms(1,2) _ _ m2] by (simp only:)
  qed
  have asc: "ascending b pb (mp_bStart p)" "ascending a pa (mp_aStart p)"
    using assms(1,2) n by (auto elim!: ascending_mono)
  note IH = Cons.IH [OF p(5) c2]
  note gap = between_cuts [OF Cons.prems(2) c1] between_cuts(2) [OF splitsAt_swap [THEN iffD2, OF Cons.prems(2)] splitsAt_swap [THEN iffD2, OF c1]]
  have sp: "matchesIn b a pb bN 0 aN = matchesIn b a pb (mp_bStart p) 0 aN @ explode p @ matchesIn b a (mp_bEnd p) bN 0 aN"
      "onlyIn b a pb bN 0 aN = onlyIn b a pb (mp_bStart p) 0 aN @ onlyIn b a (mp_bEnd p) bN 0 aN"
      "onlyIn a b pa aN 0 bN = onlyIn a b pa (mp_aStart p) 0 bN @ onlyIn a b (mp_aEnd p) aN 0 bN"
    using matchesIn_append [of pb "mp_bStart p" bN b a 0 aN] matchesIn_append [of "mp_bStart p" "mp_bEnd p" bN b a 0 aN]
      onlyIn_append [of pb "mp_bStart p" bN b a 0 aN] onlyIn_append [of "mp_bStart p" "mp_bEnd p" bN b a 0 aN]
      onlyIn_append [of pa "mp_aStart p" aN a b 0 bN] onlyIn_append [of "mp_aStart p" "mp_aEnd p" aN a b 0 bN]
      matchesIn_block [OF assms(2) p(4)] onlyIn_block [OF p(4), of aN] onlyIn_block [of ?n a "mp_aStart p" b "mp_bStart p" bN] p(1,2,4) n
    by (simp_all add: explode_def)
  show ?case
    using IH gap sp p(1,2) n by (auto simp: mergeGap_spec [OF asc] split: prod.splits)
qed

section \<open>Alignment\<close>

lemma pair_ok_mergeGap: "p \<in> set (fst (mergeGap b a bi gb1 ai ga1)) \<Longrightarrow> pair_ok p"
proof (induction "(gb1 - bi) + (ga1 - ai)" arbitrary: bi ai rule: less_induct)
  case less
  show ?case
  proof (cases "bi < gb1 \<and> ai < ga1")
    case True
    then show ?thesis
      using less.prems less.hyps [of "Suc bi" "Suc ai"] less.hyps [of "Suc bi" ai] less.hyps [of bi "Suc ai"]
      by (auto simp: mergeGap_step unitPair_def pair_ok_def split: if_splits prod.splits)
  qed (use less.prems in \<open>auto simp: mergeGap.simps [of b a bi]\<close>)
qed

lemma pair_ok_ordered: "chain b a bN aN pb pa ps \<Longrightarrow> p \<in> set (ordered b a bN aN pb pa ps) \<Longrightarrow> pair_ok p"
  by (induction ps arbitrary: pb pa) (auto dest: pair_ok_mergeGap)

lemma sorted_matchesIn: "ascending a 0 aN \<Longrightarrow> sorted_wrt (<) (map fst (matchesIn b a b0 (b0 + n) 0 aN))"
proof (induction n arbitrary: b0)
  case (Suc n)
  let ?js = "filter (\<lambda>j. b b0 = a j) [0..<aN]"
  have "i = j" if "i \<in> set ?js" "j \<in> set ?js" for i j
    using that ascendingD [OF Suc.prems, of i j] ascendingD [OF Suc.prems, of j i] by (cases i j rule: linorder_cases) auto
  then have "card (set ?js) \<le> 1"
    by (simp only: card_le_Suc0_iff_eq [OF finite_set] One_nat_def) blast
  then have "length ?js \<le> 1"
    by (simp add: distinct_card [symmetric] del: set_filter)
  then have "sorted_wrt (<) (map fst (map (Pair b0) ?js))"
    by (intro sorted_wrt01) simp
  then show ?case
    using Suc.IH [OF Suc.prems, of "Suc b0"]
    by (auto simp: matchesIn_Cons sorted_wrt_append) (auto simp: matchesIn_def)
qed simp

lemma sorted_bStart:
  assumes "sorted_wrt (<) (map fst (concat (map explode ps)))" "\<forall>p \<in> set ps. pair_ok p"
  shows "sorted_wrt (<) (map mp_bStart ps)"
  using assms
proof (induction ps)
  case (Cons p ps)
  have "(mp_bStart q, mp_aStart q) \<in> set (explode q)" if "q \<in> set (p # ps)" for q
    using that Cons.prems(2) by (auto simp: explode_Cons)
  then have "mp_bStart p < mp_bStart q" if "q \<in> set ps" for q
    using that Cons.prems(1) by (force simp: sorted_wrt_append)
  moreover have "sorted_wrt (<) (map fst (concat (map explode ps)))"
    using Cons.prems(1) by (simp add: sorted_wrt_append)
  ultimately show ?case
    using Cons by auto
qed simp

lemma sort_key_unique:
  assumes "sorted_wrt (<) (map f xs)" "mset ys = mset xs"
  shows "sort_key f ys = (xs :: 'b list)"
proof (rule map_sorted_distinct_set_unique [of f])
  have d: "distinct (map f xs)"
    using assms(1) strict_sorted_iff by blast
  have sets: "set (sort_key f ys) = set xs"
    using assms(2) by (metis set_sort set_mset_mset)
  then show "inj_on f (set (sort_key f ys) \<union> set xs)" "set (sort_key f ys) = set xs"
    using d by (simp_all add: distinct_map)
  show "sorted (map f (sort_key f ys))" "sorted (map f xs)" "distinct (map f xs)"
    using assms(1) d strict_sorted_imp_sorted by auto
  show "distinct (map f (sort_key f ys))"
    using d assms(2) by (metis mset_map mset_sort mset_eq_imp_distinct_iff)
qed

lemma scanQueue_Some:
  "scanQueue afterPos bLen ptr q = (ptr', Some br) \<Longrightarrow> br \<in> set q \<and> afterPos \<le> br_start br \<and> br_end br - br_start br = bLen"
  by (induction afterPos bLen ptr q rule: scanQueue.induct) (auto split: if_splits)

text \<open>What the comparison relies on of the block columns.\<close>

definition blocks_ok :: "readerView \<Rightarrow> bool" where
  "blocks_ok v \<longleftrightarrow> sorted_wrt (<) (blockStarts v) \<and> length (vBlockDigests v) = vBlockCount v \<and>
     (vBlockCount v = 0 \<longrightarrow> vNodeCount v = 0)"

definition digests_ok :: "readerView \<Rightarrow> readerView \<Rightarrow> bool" where
  "digests_ok before after \<longleftrightarrow> (\<forall>(b, d) \<in> set (blocksOf before). \<forall>(a, d') \<in> set (blocksOf after).
     d = d' \<and> br_end b - br_start b = br_end a - br_start a \<longrightarrow>
     (\<forall>k < br_end b - br_start b. vSplitLabel before (br_start b + k) = vSplitLabel after (br_start a + k)))"

lemma block_bounds:
  assumes "blocks_ok v" "b \<in> fst ` set (blocksOf v)"
  shows "br_start b < br_end b" "br_end b \<le> vNodeCount v"
proof -
  obtain i where i: "i < vBlockCount v" "b = \<lparr> br_start = blockStarts v ! i, br_end = blockStarts v ! (i + 1) \<rparr>"
    using assms(2) by (auto simp: blocksOf_def)
  have s: "sorted_wrt (<) (blockStarts v)" "length (blockStarts v) = Suc (vBlockCount v)"
    using assms(1) by (auto simp: blocks_ok_def blockStarts_def)
  show "br_start b < br_end b"
    using sorted_wrt_nth_less [OF s(1), of i "i + 1"] i s(2) by simp
  have "blockStarts v ! (i + 1) \<le> blockStarts v ! vBlockCount v"
    using sorted_nth_mono [OF strict_sorted_imp_sorted [OF s(1)], of "i + 1" "vBlockCount v"] i(1) s(2) by simp
  then show "br_end b \<le> vNodeCount v"
    using i by (simp add: blockStarts_def nth_append)
qed

lemma blocks_ascend: "blocks_ok v \<Longrightarrow> sorted_wrt (\<lambda>x y. br_end (fst x) \<le> br_start (fst y)) (blocksOf v)"
proof -
  assume "blocks_ok v"
  then have s: "sorted (blockStarts v)" "length (blockStarts v) = Suc (vBlockCount v)"
    by (auto simp: blocks_ok_def blockStarts_def strict_sorted_imp_sorted)
  then have "blockStarts v ! (i + 1) \<le> blockStarts v ! j" if "i < j" "j < vBlockCount v" for i j
    using sorted_nth_mono [OF s(1), of "i + 1" j] that by simp
  then show ?thesis
    by (auto simp: sorted_wrt_iff_nth_less blocksOf_def)
qed

lemma digestMatches_chain:
  assumes "blocks_ok after" "\<And>b d. (b, d) \<in> set blocks \<Longrightarrow> (b, d) \<in> set (blocksOf before)" "blocks_ok before" "digests_ok before after"
    and "sorted_wrt (\<lambda>x y. br_end (fst x) \<le> br_start (fst y)) blocks" "\<And>b d. (b, d) \<in> set blocks \<Longrightarrow> pb \<le> br_start b"
    and "pb \<le> vNodeCount before" "pa \<le> vNodeCount after"
  shows "chain (vSplitLabel before) (vSplitLabel after) (vNodeCount before) (vNodeCount after) pb pa
    (digestMatches (digestMap (blocksOf after)) blocks ptrs pa)"
  using assms(2,5-)
proof (induction blocks arbitrary: pb pa ptrs)
  case (Cons block blocks)
  obtain b d where bd: "block = (b, d)"
    by (cases block)
  obtain ptr r where r: "scanQueue pa (br_end b - br_start b) (ptrs d) (drop (ptrs d) (digestMap (blocksOf after) d)) = (ptr, r)"
    by (cases "scanQueue pa (br_end b - br_start b) (ptrs d) (drop (ptrs d) (digestMap (blocksOf after) d))")
  have b: "(b, d) \<in> set (blocksOf before)" "br_start b < br_end b" "br_end b \<le> vNodeCount before"
    using Cons.prems(1) [of b d] block_bounds [OF assms(3), of b] bd by force+
  show ?case
  proof (cases r)
    case None
    then show ?thesis
      using Cons.IH [of pb pa "ptrs(d := ptr)"] Cons.prems r bd by fastforce
  next
    case (Some br)
    have br: "br \<in> set (digestMap (blocksOf after) d)" "pa \<le> br_start br" "br_end br - br_start br = br_end b - br_start b"
      using scanQueue_Some [OF r [unfolded Some]] by (auto dest: in_set_dropD)
    then have a: "(br, d) \<in> set (blocksOf after)"
      by (auto simp: digestMap_def)
    have br': "br_start br < br_end br" "br_end br \<le> vNodeCount after"
      using block_bounds [OF assms(1), of br] a by force+
    have "pb \<le> br_start b"
      using Cons.prems(3) [of b d] by (simp add: bd)
    moreover have "\<forall>k < br_end b - br_start b. vSplitLabel before (br_start b + k) = vSplitLabel after (br_start br + k)"
      using assms(4) b(1) a br(3) unfolding digests_ok_def by fastforce
    moreover have "br_end b \<le> br_start b'" if "(b', d') \<in> set blocks" for b' d'
      using Cons.prems(2) that by (auto simp: bd)
    ultimately show ?thesis
      using Cons.IH [of "br_end b" "br_end br"] Cons.prems(1,2) r bd Some b br br' by (auto simp: pair_ok_def)
  qed
qed simp

lemma align_spec:
  assumes "ascending (vSplitLabel before) 0 (vNodeCount before)" "ascending (vSplitLabel after) 0 (vNodeCount after)"
    and "vBlockCount before = 0 \<and> vBlockCount after = 0 \<or> blocks_ok before \<and> blocks_ok after" "digests_ok before after"
  shows "align before after = alignFallback before after (vNodeCount before) (vNodeCount after)"
proof -
  let ?b = "vSplitLabel before" and ?a = "vSplitLabel after" and ?bN = "vNodeCount before" and ?aN = "vNodeCount after"
  consider "vBlockCount before = 0" "vBlockCount after = 0" | "blocks_ok before" "blocks_ok after" "vBlockCount before = 0" "vBlockCount after \<noteq> 0"
    | "blocks_ok before" "blocks_ok after" "vBlockCount before \<noteq> 0" "vBlockCount after = 0"
    | "blocks_ok before" "blocks_ok after" "vBlockCount before \<noteq> 0" "vBlockCount after \<noteq> 0"
    using assms(3) by (cases "vBlockCount before = 0"; cases "vBlockCount after = 0") auto
  then show ?thesis
  proof cases
    case 4
    let ?m = "digestMatches (digestMap (blocksOf after)) (blocksOf before) (\<lambda>_. 0) 0"
    have chain: "chain ?b ?a ?bN ?aN 0 0 ?m"
      using blocks_ascend [OF 4(1)] by (intro digestMatches_chain [OF 4(2) _ 4(1) assms(4)]) simp_all
    have "splitsAt ?b ?a ?bN ?aN 0 0"
      by (simp add: splitsAt_def)
    note G = mergeGaps_spec [OF assms(1,2) chain this]
    obtain ps ds "is" where g: "mergeGaps ?b ?a ?bN ?aN 0 0 ?m = (ps, ds, is)"
      by (cases "mergeGaps ?b ?a ?bN ?aN 0 0 ?m")
    let ?o = "ordered ?b ?a ?bN ?aN 0 0 ?m"
    have ok: "\<forall>p \<in> set ?o. pair_ok p"
      using pair_ok_ordered [OF chain] by blast
    have "sorted_wrt (<) (map fst (concat (map explode ?o)))"
      using G sorted_matchesIn [OF assms(2), of ?b 0 ?bN] by simp
    then have "sort_key mp_bStart (?m @ ps) = ?o"
      using sorted_bStart ok mset_ordered [of ?b ?a ?bN ?aN 0 0 ?m] g by (intro sort_key_unique) auto
    then show ?thesis
      using 4 g G joinRuns_explode [OF ok] fallback_spec [OF assms(1,2)] by (simp add: align_def Let_def)
  qed (auto simp: align_def alignFallback_def Let_def blocks_ok_def fallback_loop.simps [of "vSplitLabel before" "vSplitLabel after" 0])
qed

definition runPairs :: "alignedRun \<Rightarrow> (nat \<times> nat) list" where
  "runPairs run = map (\<lambda>k. (beforeStart run + k, afterStart run + k)) [0..<runLength run]"

lemma runPairs_growUnit: "concat (map runPairs (growUnit run ps)) = runPairs run @ ps"
  by (induction run ps rule: growUnit.induct) (auto simp: runPairs_def)

lemma runPairs_runsOf: "concat (map runPairs (runsOf ps)) = ps"
  by (cases ps rule: runsOf.cases) (simp_all add: runPairs_growUnit, simp_all add: runPairs_def)

lemma set_matchesIn: "set (matchesIn b a b0 b1 a0 a1) = {(i, j). b0 \<le> i \<and> i < b1 \<and> a0 \<le> j \<and> j < a1 \<and> b i = a j}"
  by (auto simp: matchesIn_def)

text \<open>What every reader of an encoded graph promises of labels and blocks.\<close>

definition view_aligned :: "readerView \<Rightarrow> readerView \<Rightarrow> bool" where
  "view_aligned before after \<longleftrightarrow> ascending (vSplitLabel before) 0 (vNodeCount before) \<and> ascending (vSplitLabel after) 0 (vNodeCount after) \<and>
     (vBlockCount before = 0 \<and> vBlockCount after = 0 \<or> blocks_ok before \<and> blocks_ok after) \<and> digests_ok before after"

lemma align_result:
  assumes "view_aligned before after" "align before after = (runs, deletedBefore, insertedAfter)"
  shows "set (concat (map runPairs runs)) =
      {(i, j). i < vNodeCount before \<and> j < vNodeCount after \<and> vSplitLabel before i = vSplitLabel after j}"
    "sorted_wrt (<) (map fst (concat (map runPairs runs)))"
    "deletedBefore = filter (\<lambda>i. \<forall>j < vNodeCount after. vSplitLabel before i \<noteq> vSplitLabel after j) [0..<vNodeCount before]"
    "insertedAfter = filter (\<lambda>j. \<forall>i < vNodeCount before. vSplitLabel after j \<noteq> vSplitLabel before i) [0..<vNodeCount after]"
    "alignFallback before after (vNodeCount before) (vNodeCount after) = (runs, deletedBefore, insertedAfter)"
proof -
  have v: "ascending (vSplitLabel before) 0 (vNodeCount before)" "ascending (vSplitLabel after) 0 (vNodeCount after)"
    using assms(1) by (auto simp: view_aligned_def)
  have "align before after = alignFallback before after (vNodeCount before) (vNodeCount after)"
    using assms(1) by (intro align_spec) (auto simp: view_aligned_def)
  then show "alignFallback before after (vNodeCount before) (vNodeCount after) = (runs, deletedBefore, insertedAfter)"
    using assms(2) by simp
  then have r: "runs = runsOf (matchesIn (vSplitLabel before) (vSplitLabel after) 0 (vNodeCount before) 0 (vNodeCount after))"
      "deletedBefore = onlyIn (vSplitLabel before) (vSplitLabel after) 0 (vNodeCount before) 0 (vNodeCount after)"
      "insertedAfter = onlyIn (vSplitLabel after) (vSplitLabel before) 0 (vNodeCount after) 0 (vNodeCount before)"
    by (simp_all add: fallback_spec [OF v])
  show "set (concat (map runPairs runs)) =
      {(i, j). i < vNodeCount before \<and> j < vNodeCount after \<and> vSplitLabel before i = vSplitLabel after j}"
    unfolding r(1) runPairs_runsOf set_matchesIn by auto
  show "sorted_wrt (<) (map fst (concat (map runPairs runs)))"
    unfolding r(1) runPairs_runsOf using sorted_matchesIn [OF v(2), of _ 0 "vNodeCount before"] by simp
  show "deletedBefore = filter (\<lambda>i. \<forall>j < vNodeCount after. vSplitLabel before i \<noteq> vSplitLabel after j) [0..<vNodeCount before]"
    "insertedAfter = filter (\<lambda>j. \<forall>i < vNodeCount before. vSplitLabel after j \<noteq> vSplitLabel before i) [0..<vNodeCount after]"
    unfolding r(2,3) onlyIn_def by (simp_all only: atLeast0LessThan Ball_def lessThan_iff)
qed

end
