(* ===== verification/TgbDiff.thy ===== *)
theory TgbDiff
  imports TgbAlign
begin

text \<open>
  \<open>internal/tgbdiff\<close>, phases 1 to 3: comparing the hashes of aligned nodes by bisection, classifying
  seeds in node-index space, and the breadth-first search over the reverse adjacency.
  \<open>compareInternal\<close> without its timings and counters. \<open>changedByAfter\<close> is the list with one optional
  entry per node of the later graph. The nodes it points to are shared with \<open>changedList\<close>, whose
  \<open>seed\<close> and \<open>distance\<close> fields the later phases write; here both are functions of the entry, put
  into the result at the end. A slice or index out of range is the error \<open>Panic\<close> in phase 1, where
  corrupt blocks or hash columns would cause it.
\<close>

section \<open>Data\<close>

record ChangedLabel =
  cl_Label :: string
  cl_ChangeType :: DiffChangeType
  cl_Distance :: int
  cl_Seed :: bool

record DiffOptions =
  do_MaxDistance :: int
  do_SeedAttrs :: "string set option"

datatype changeKind = changeKindNew | changeKindChanged | changeKindDeleted

record changedNode =
  cn_kind :: changeKind
  cn_afterIndex :: int
  cn_beforeIndex :: int

type_synonym changedTable = "changedNode option list"

datatype 'e diffError = CtxCause 'e | ReaderError tgb_error | HashStrideMismatch nat nat

definition mapErr :: "('e \<Rightarrow> 'f) \<Rightarrow> 'e + 'a \<Rightarrow> 'f + 'a" where
  "mapErr f m = (case m of Inl e \<Rightarrow> Inl (f e) | Inr x \<Rightarrow> Inr x)"

section \<open>Phase 1: hashes\<close>

definition hashSlice :: "bytes \<Rightarrow> nat \<Rightarrow> nat \<Rightarrow> nat \<Rightarrow> tgb_error + bytes" where
  "hashSlice hashes stride start len = panicE (go_slice hashes (start * stride) ((start + len) * stride))"

definition changedAt :: "nat \<Rightarrow> nat \<Rightarrow> changedNode" where
  "changedAt bi ai = \<lparr> cn_kind = changeKindChanged, cn_afterIndex = int ai, cn_beforeIndex = int bi \<rparr>"

function bisectHashRun :: "bytes \<Rightarrow> bytes \<Rightarrow> nat \<Rightarrow> nat \<Rightarrow> nat \<Rightarrow> nat \<Rightarrow> changedTable \<Rightarrow> tgb_error + changedTable" where
  "bisectHashRun bHashes aHashes stride bStart aStart len changedByAfter =
    (if len = 0 then Inr changedByAfter
     else if len = 1 then
       (case go_index changedByAfter aStart of
          None \<Rightarrow> Inl Panic
        | Some None \<Rightarrow> Inr (changedByAfter[aStart := Some (changedAt bStart aStart)])
        | Some (Some _) \<Rightarrow> Inr changedByAfter)
     else let half = len div 2 in
       bindE (hashSlice bHashes stride bStart half) (\<lambda>bLeft.
       bindE (hashSlice aHashes stride aStart half) (\<lambda>aLeft.
       bindE (if bLeft \<noteq> aLeft then bisectHashRun bHashes aHashes stride bStart aStart half changedByAfter
              else Inr changedByAfter) (\<lambda>changedByAfter.
       bindE (hashSlice bHashes stride (bStart + half) (len - half)) (\<lambda>bRight.
       bindE (hashSlice aHashes stride (aStart + half) (len - half)) (\<lambda>aRight.
       if bRight \<noteq> aRight then bisectHashRun bHashes aHashes stride (bStart + half) (aStart + half) (len - half) changedByAfter
       else Inr changedByAfter))))))"
  by auto
termination
  by (relation "measure (\<lambda>(b, a, s, bs, as, len, c). len)") auto

declare bisectHashRun.simps [simp del]

fun diffRuns :: "bytes \<Rightarrow> bytes \<Rightarrow> nat \<Rightarrow> alignedRun list \<Rightarrow> changedTable \<Rightarrow> tgb_error + changedTable" where
  "diffRuns bHashes aHashes stride [] changedByAfter = Inr changedByAfter"
| "diffRuns bHashes aHashes stride (run # runs) changedByAfter =
    bindE (hashSlice bHashes stride (beforeStart run) (runLength run)) (\<lambda>bSlice.
    bindE (hashSlice aHashes stride (afterStart run) (runLength run)) (\<lambda>aSlice.
    bindE (if bSlice = aSlice then Inr changedByAfter
           else bisectHashRun bHashes aHashes stride (beforeStart run) (afterStart run) (runLength run) changedByAfter)
      (diffRuns bHashes aHashes stride runs)))"

text \<open>The hash-empty bitsets; a bit beyond the bitset is 0.\<close>

definition emptyBit :: "bytes \<Rightarrow> nat \<Rightarrow> bool" where
  "emptyBit bits i \<longleftrightarrow> i div 8 < length bits \<and> testBit bits i"

definition emptyStep :: "bytes \<Rightarrow> bytes \<Rightarrow> changedTable \<Rightarrow> nat \<times> nat \<Rightarrow> changedTable" where
  "emptyStep bBits aBits changedByAfter p = (case p of (bi, ai) \<Rightarrow>
     if changedByAfter ! ai \<noteq> None then changedByAfter
     else if emptyBit bBits bi \<noteq> emptyBit aBits ai then changedByAfter[ai := Some (changedAt bi ai)]
     else changedByAfter)"

definition diffEmptyBits :: "bytes \<Rightarrow> bytes \<Rightarrow> alignedRun list \<Rightarrow> changedTable \<Rightarrow> changedTable" where
  "diffEmptyBits bBits aBits runs changedByAfter =
    (if bBits \<noteq> [] \<or> aBits \<noteq> [] then foldl (emptyStep bBits aBits) changedByAfter (concat (map runPairs runs))
     else changedByAfter)"

definition deletedNode :: "nat \<Rightarrow> changedNode" where
  "deletedNode bi = \<lparr> cn_kind = changeKindDeleted, cn_afterIndex = - 1, cn_beforeIndex = int bi \<rparr>"

definition insertedNode :: "nat \<Rightarrow> changedNode" where
  "insertedNode ai = \<lparr> cn_kind = changeKindNew, cn_afterIndex = int ai, cn_beforeIndex = - 1 \<rparr>"

definition markInserted :: "nat \<Rightarrow> nat list \<Rightarrow> changedTable" where
  "markInserted nAfterNodes insertedAfter = foldl (\<lambda>t ai. t[ai := Some (insertedNode ai)]) (replicate nAfterNodes None) insertedAfter"

definition mapBeforeToAfter :: "nat \<Rightarrow> alignedRun list \<Rightarrow> int list" where
  "mapBeforeToAfter nBeforeNodes runs =
    foldl (\<lambda>t p. t[fst p := int (snd p)]) (replicate nBeforeNodes (- 1)) (concat (map runPairs runs))"

section \<open>Phase 2: seeds\<close>

definition entryAt :: "changedTable \<Rightarrow> int \<Rightarrow> changedNode option" where
  "entryAt changedByAfter di = (if 0 \<le> di \<and> nat di < length changedByAfter then changedByAfter ! nat di else None)"

definition changedDepStatusIdx :: "int list \<Rightarrow> int list \<Rightarrow> changedTable \<Rightarrow> bool \<times> bool" where
  "changedDepStatusIdx beforeDeps afterDeps changedByAfter =
    (let anyChanged = list_ex (\<lambda>di. case entryAt changedByAfter di of Some e \<Rightarrow> cn_kind e = changeKindChanged | None \<Rightarrow> False) afterDeps in
     if length beforeDeps \<noteq> length afterDeps then (anyChanged, True)
     else (anyChanged, list_ex (\<lambda>di. di < 0 \<or> di \<notin> set afterDeps) beforeDeps))"

definition hasChangedSrcFileDepIdx :: "int list \<Rightarrow> changedTable \<Rightarrow> i32 list \<Rightarrow> i32 \<Rightarrow> bool" where
  "hasChangedSrcFileDepIdx afterDeps changedByAfter afterRuleTypeIDs srcFileTypeID \<longleftrightarrow>
    \<not> sint srcFileTypeID < 0 \<and>
    list_ex (\<lambda>di. entryAt changedByAfter di \<noteq> None \<and> nat di < length afterRuleTypeIDs \<and> afterRuleTypeIDs ! nat di = srcFileTypeID) afterDeps"

definition decodeAttrs :: "readerView \<Rightarrow> nat \<Rightarrow> string set option \<Rightarrow> (string, string) gomap" where
  "decodeAttrs r node seedAttrs = (case seedAttrs of None \<Rightarrow> vAttrs r node
     | Some allowed \<Rightarrow> filter (\<lambda>(k, v). k \<in> allowed) (vAttrs r node))"

definition attrsChanged :: "(string, string) gomap \<Rightarrow> (string, string) gomap \<Rightarrow> bool" where
  "attrsChanged before after \<longleftrightarrow> length before \<noteq> length after \<or>
    list_ex (\<lambda>(name, value). map_of after name \<noteq> Some value) before"

text \<open>A dependency projected into the later graph; \<open>-1\<close> when its label is absent there.\<close>

definition projectDep :: "int list \<Rightarrow> i32 \<Rightarrow> int" where
  "projectDep beforeToAfter bd = (if sint bd < int (length beforeToAfter) then beforeToAfter ! nat (sint bd) else - 1)"

definition isSourceFile :: "i32 list \<Rightarrow> i32 \<Rightarrow> int \<Rightarrow> bool" where
  "isSourceFile ruleTypeIDs srcFileTypeID ai \<longleftrightarrow> 0 \<le> ai \<and> 0 \<le> sint srcFileTypeID \<and>
     nat ai < length ruleTypeIDs \<and> ruleTypeIDs ! nat ai = srcFileTypeID"

definition isSeedNode :: "readerView \<Rightarrow> readerView \<Rightarrow> DiffOptions \<Rightarrow> i32 list \<Rightarrow> i32 \<Rightarrow> int list \<Rightarrow> changedTable \<Rightarrow> changedNode \<Rightarrow> bool" where
  "isSeedNode before after opts ruleTypeIDs srcFileTypeID beforeToAfter changedByAfter node =
    (if cn_kind node = changeKindNew \<or> cn_kind node = changeKindDeleted then True
     else if isSourceFile ruleTypeIDs srcFileTypeID (cn_afterIndex node) then True
     else
       let afterDeps = map sint (vDeps after (nat (cn_afterIndex node)));
           mapped = map (projectDep beforeToAfter) (vDeps before (nat (cn_beforeIndex node)));
           (anyChanged, depsChanged) = changedDepStatusIdx mapped afterDeps changedByAfter in
       if \<not> anyChanged \<or> depsChanged then True
       else if hasChangedSrcFileDepIdx afterDeps changedByAfter ruleTypeIDs srcFileTypeID then True
       else attrsChanged (decodeAttrs before (nat (cn_beforeIndex node)) (do_SeedAttrs opts))
              (decodeAttrs after (nat (cn_afterIndex node)) (do_SeedAttrs opts)))"

section \<open>Phase 3: reverse adjacency and search\<close>

text \<open>
  The forward edges in the order of the scatter pass, as pairs of dependency and dependent; the
  three passes count, sum and scatter. Offsets stay below \<open>2\<^sup>3\<^sup>1\<close>: a column has at most
  \<open>2\<^sup>3\<^sup>0\<close> bytes and an edge takes at least one.
\<close>

definition forwardEdges :: "nat \<Rightarrow> nat list \<Rightarrow> i32 list \<Rightarrow> (nat \<times> nat) list" where
  "forwardEdges n fwdOff fwdTgt = concat (map (\<lambda>i. if i + 1 < length fwdOff
      then concat (map (\<lambda>k. let d = sint (fwdTgt ! k) in if 0 \<le> d \<and> nat d < n then [(nat d, i)] else []) [fwdOff ! i..<fwdOff ! (i + 1)])
      else []) [0..<n])"

definition countInDegrees :: "nat \<Rightarrow> i32 list \<Rightarrow> nat list" where
  "countInDegrees n fwdTgt = foldl (\<lambda>deg d. if 0 \<le> sint d \<and> nat (sint d) < n then deg[nat (sint d) := deg ! nat (sint d) + 1] else deg)
     (replicate n 0) fwdTgt"

fun prefixSums :: "nat \<Rightarrow> nat list \<Rightarrow> nat list" where
  "prefixSums acc [] = [acc]"
| "prefixSums acc (d # ds) = acc # prefixSums (acc + d) ds"

fun scatter :: "(nat \<times> nat) list \<Rightarrow> nat list \<times> nat list \<Rightarrow> nat list \<times> nat list" where
  "scatter [] st = st"
| "scatter ((d, i) # es) (targets, pos) = scatter es (targets[pos ! d := i], pos[d := pos ! d + 1])"

definition buildReverseCSR :: "readerView \<Rightarrow> nat \<Rightarrow> tgb_error + nat list \<times> nat list" where
  "buildReverseCSR after n = bindE (vDepsCSR after) (\<lambda>(fwdOff, fwdTgt).
     let offsets = prefixSums 0 (countInDegrees n fwdTgt) in
     Inr (offsets, fst (scatter (forwardEdges n fwdOff fwdTgt) (replicate (last offsets) 0, butlast offsets))))"

definition csrRow :: "nat list \<times> nat list \<Rightarrow> nat \<Rightarrow> nat list" where
  "csrRow csr cur = take (fst csr ! (cur + 1) - fst csr ! cur) (drop (fst csr ! cur) (snd csr))"

fun seedQueue :: "nat set \<Rightarrow> int list \<Rightarrow> nat list" where
  "seedQueue visited [] = []"
| "seedQueue visited (ai # ais) =
    (if 0 \<le> ai \<and> nat ai \<notin> visited then nat ai # seedQueue (insert (nat ai) visited) ais else seedQueue visited ais)"

definition changeTypeOf :: "changeKind \<Rightarrow> DiffChangeType" where
  "changeTypeOf kind = (case kind of changeKindNew \<Rightarrow> DiffTypeNew | changeKindDeleted \<Rightarrow> DiffTypeDeleted | changeKindChanged \<Rightarrow> DiffTypeChanged)"

definition resultOf :: "readerView \<Rightarrow> readerView \<Rightarrow> (changedNode \<Rightarrow> bool) \<Rightarrow> (nat \<Rightarrow> int) \<Rightarrow> changedNode \<Rightarrow> ChangedLabel" where
  "resultOf before after seed dist node = \<lparr>
     cl_Label = (if 0 \<le> cn_afterIndex node then vLabel after (nat (cn_afterIndex node)) else vLabel before (nat (cn_beforeIndex node))),
     cl_ChangeType = changeTypeOf (cn_kind node),
     cl_Distance = (if seed node then 0 else dist (nat (cn_afterIndex node))),
     cl_Seed = seed node \<rparr>"

section \<open>The comparison\<close>

definition hashPhase :: "readerView \<Rightarrow> readerView \<Rightarrow> alignedRun list \<Rightarrow> nat list \<Rightarrow> 'e diffError + changedTable" where
  "hashPhase before after runs insertedAfter =
    (if vHashBytes after \<noteq> vHashBytes before then Inl (HashStrideMismatch (vHashBytes before) (vHashBytes after))
     else
       bindE (mapErr ReaderError (diffRuns (vHashes before) (vHashes after) (vHashBytes before) runs
         (markInserted (vNodeCount after) insertedAfter))) (\<lambda>changedByAfter.
       bindE (mapErr ReaderError (vHashEmptyBits before)) (\<lambda>bBits.
       bindE (mapErr ReaderError (vHashEmptyBits after)) (\<lambda>aBits.
       Inr (diffEmptyBits bBits aBits runs changedByAfter)))))"

definition compareInternal :: "'e go_context \<Rightarrow> readerView \<Rightarrow> readerView \<Rightarrow> DiffOptions \<Rightarrow> 'e diffError + ChangedLabel list" where
  "compareInternal ctx before after opts =
    bindE (mapErr CtxCause (checkCtx ctx 0)) (\<lambda>_.
    case align before after of (runs, deletedBefore, insertedAfter) \<Rightarrow>
    bindE (mapErr CtxCause (checkCtx ctx 1)) (\<lambda>_.
    bindE (hashPhase before after runs insertedAfter) (\<lambda>changedByAfter.
    bindE (mapErr CtxCause (checkCtx ctx 2)) (\<lambda>_.
    bindE (mapErr ReaderError (vRuleTypeIDs after)) (\<lambda>ruleTypeIDs.
    let changedList = map deletedNode deletedBefore @ map the (filter (\<lambda>e. e \<noteq> None) changedByAfter);
        seed = isSeedNode before after opts ruleTypeIDs (vRuleTypeDictID after sourceFileRuleType)
          (mapBeforeToAfter (vNodeCount before) runs) changedByAfter in
    bindE (mapErr CtxCause (checkCtx ctx 3)) (\<lambda>_.
    bindE (mapErr ReaderError (buildReverseCSR after (vNodeCount after))) (\<lambda>csr.
    let queue = seedQueue {} (map cn_afterIndex (filter seed changedList)) in
    bindE (mapErr CtxCause (bfs ctx 4 (csrRow csr) [0..<vNodeCount after] (do_MaxDistance opts) 0 queue (set queue)
      (\<lambda>i. if i \<in> set queue then 0 else - 1))) (\<lambda>dist.
    Inr (sort_key cl_Label (map (resultOf before after seed dist) changedList))))))))))"

definition tgbCompare :: "'e go_context \<Rightarrow> readerView \<Rightarrow> readerView \<Rightarrow> DiffOptions \<Rightarrow> 'e diffError + ChangedLabel list" where
  "tgbCompare ctx before after opts = compareInternal ctx before after opts"

section \<open>Bisection\<close>

text \<open>
  The reference: compare position by position. \<open>diffStep\<close> marks one aligned pair when \<open>differs\<close> says so;
  the bisection marks exactly the pairs whose hash entries differ.
\<close>

definition hashEntry :: "bytes \<Rightarrow> nat \<Rightarrow> nat \<Rightarrow> bytes" where
  "hashEntry hashes stride i = take stride (drop (i * stride) hashes)"

definition diffStep :: "(nat \<Rightarrow> nat \<Rightarrow> bool) \<Rightarrow> changedTable \<Rightarrow> nat \<times> nat \<Rightarrow> changedTable" where
  "diffStep differs t p = (case p of (bi, ai) \<Rightarrow> if t ! ai = None \<and> differs bi ai then t[ai := Some (changedAt bi ai)] else t)"

definition hashDiffers :: "bytes \<Rightarrow> bytes \<Rightarrow> nat \<Rightarrow> nat \<Rightarrow> nat \<Rightarrow> bool" where
  "hashDiffers bHashes aHashes stride bi ai \<longleftrightarrow> hashEntry bHashes stride bi \<noteq> hashEntry aHashes stride ai"

lemma emptyStep_diffStep: "emptyStep bBits aBits = diffStep (\<lambda>bi ai. emptyBit bBits bi \<noteq> emptyBit aBits ai)"
  by (auto simp: emptyStep_def diffStep_def fun_eq_iff)

lemma length_diffStep [simp]: "length (diffStep P t p) = length t"
  by (cases p) (simp add: diffStep_def)

lemma length_foldl_diffStep [simp]: "length (foldl (diffStep P) t ps) = length t"
  by (induction ps arbitrary: t) simp_all

lemma foldl_diffStep_none: "(\<And>i j. (i, j) \<in> set ps \<Longrightarrow> \<not> P i j) \<Longrightarrow> foldl (diffStep P) t ps = t"
  by (induction ps arbitrary: t) (auto simp: diffStep_def)

lemma hashSlice_Inr:
  assumes "(start + len) * stride \<le> length hashes"
  shows "hashSlice hashes stride start len = Inr (take (len * stride) (drop (start * stride) hashes))"
  using assms by (simp add: hashSlice_def go_slice_def panicE_def add_mult_distrib)

lemma take_Suc_entries:
  "take (Suc n * stride) (drop (s * stride) hs) = take (n * stride) (drop (s * stride) hs) @ hashEntry hs stride (s + n)"
  using take_add [of "n * stride" stride "drop (s * stride) hs"] by (simp add: hashEntry_def add.commute add_mult_distrib)

lemma slices_equal_iff:
  assumes "(bs + n) * stride \<le> length bh" "(as + n) * stride \<le> length ah"
  shows "take (n * stride) (drop (bs * stride) bh) = take (n * stride) (drop (as * stride) ah) \<longleftrightarrow>
    \<not> (\<exists>k < n. hashDiffers bh ah stride (bs + k) (as + k))"
  using assms
proof (induction n)
  case (Suc n)
  have len: "length (take (n * stride) (drop (bs * stride) bh)) = length (take (n * stride) (drop (as * stride) ah))"
    using Suc.prems by (simp add: add_mult_distrib)
  show ?case
    unfolding take_Suc_entries using Suc len by (auto simp: less_Suc_eq add_mult_distrib hashDiffers_def)
qed simp

definition pairsFrom :: "nat \<Rightarrow> nat \<Rightarrow> nat \<Rightarrow> (nat \<times> nat) list" where
  "pairsFrom bs as n = map (\<lambda>k. (bs + k, as + k)) [0..<n]"

lemma pairsFrom_append: "m \<le> n \<Longrightarrow> pairsFrom bs as n = pairsFrom bs as m @ pairsFrom (bs + m) (as + m) (n - m)"
proof -
  assume "m \<le> n"
  then have "[0..<n] = [0..<m] @ map (\<lambda>k. k + m) [0..<n - m]"
    using upt_split [of 0 m n] by (simp add: map_add_upt)
  then show ?thesis
    by (simp add: pairsFrom_def add.commute add.left_commute)
qed

lemma bisectHashRun_pointwise:
  assumes "(bs + n) * stride \<le> length bh" "(as + n) * stride \<le> length ah" "as + n \<le> length t"
    and "\<exists>k < n. hashDiffers bh ah stride (bs + k) (as + k)"
  shows "bisectHashRun bh ah stride bs as n t = Inr (foldl (diffStep (hashDiffers bh ah stride)) t (pairsFrom bs as n))"
  using assms
proof (induction n arbitrary: bs as t rule: less_induct)
  case (less n)
  consider "n = 0" | "n = 1" | "1 < n"
    by linarith
  then show ?case
  proof cases
    case 2
    then show ?thesis
      using less.prems
      by (auto simp: bisectHashRun.simps [of bh ah stride bs as "Suc 0"] pairsFrom_def diffStep_def go_index_def split: option.splits)
  next
    case 3
    let ?h = "n div 2" and ?P = "hashDiffers bh ah stride"
    have h: "?h < n" "n - ?h < n" "?h \<le> n"
      using 3 by auto
    have bounds: "(bs + ?h) * stride \<le> length bh" "(as + ?h) * stride \<le> length ah"
      using less.prems(1,2) h by (meson add_left_mono le_trans mult_le_mono1)+
    have half: "(if take (m * stride) (drop (x * stride) bh) \<noteq> take (m * stride) (drop (y * stride) ah)
        then bisectHashRun bh ah stride x y m t else Inr t) = Inr (foldl (diffStep ?P) t (pairsFrom x y m))"
      if "m < n" "(x + m) * stride \<le> length bh" "(y + m) * stride \<le> length ah" "y + m \<le> length t" for m x y t
    proof (cases "\<exists>k < m. ?P (x + k) (y + k)")
      case True
      then show ?thesis
        using less.IH [OF that True] slices_equal_iff [OF that(2,3)] by simp
    next
      case False
      then show ?thesis
        using slices_equal_iff [OF that(2,3)] by (auto simp: pairsFrom_def intro!: foldl_diffStep_none [symmetric])
    qed
    have "bisectHashRun bh ah stride bs as n t =
        bindE (Inr (foldl (diffStep ?P) t (pairsFrom bs as ?h))) (\<lambda>t'. Inr (foldl (diffStep ?P) t' (pairsFrom (bs + ?h) (as + ?h) (n - ?h))))"
      using 3 bounds less.prems(1-3) half [of ?h bs as t] half [of "n - ?h" "bs + ?h" "as + ?h" "foldl (diffStep ?P) t (pairsFrom bs as ?h)"] h
      by (simp add: bisectHashRun.simps [of bh ah stride bs as n] Let_def hashSlice_Inr)
    then show ?thesis
      by (simp add: pairsFrom_append [OF h(3)])
  qed (use less.prems in simp)
qed


lemma runPairs_pairsFrom: "runPairs run = pairsFrom (beforeStart run) (afterStart run) (runLength run)"
  by (simp add: runPairs_def pairsFrom_def)

lemma diffRuns_pointwise:
  assumes "\<forall>run \<in> set runs. (beforeStart run + runLength run) * stride \<le> length bh \<and>
      (afterStart run + runLength run) * stride \<le> length ah \<and> afterStart run + runLength run \<le> length t"
  shows "diffRuns bh ah stride runs t = Inr (foldl (diffStep (hashDiffers bh ah stride)) t (concat (map runPairs runs)))"
  using assms
proof (induction runs arbitrary: t)
  case (Cons run runs)
  let ?P = "hashDiffers bh ah stride"
  have r: "(beforeStart run + runLength run) * stride \<le> length bh" "(afterStart run + runLength run) * stride \<le> length ah"
      "afterStart run + runLength run \<le> length t"
    using Cons.prems by auto
  have "(if take (runLength run * stride) (drop (beforeStart run * stride) bh) = take (runLength run * stride) (drop (afterStart run * stride) ah)
      then Inr t else bisectHashRun bh ah stride (beforeStart run) (afterStart run) (runLength run) t) =
      Inr (foldl (diffStep ?P) t (runPairs run))"
  proof (cases "\<exists>k < runLength run. ?P (beforeStart run + k) (afterStart run + k)")
    case True
    then show ?thesis
      using bisectHashRun_pointwise [OF r True] slices_equal_iff [OF r(1,2)] by (simp add: runPairs_pairsFrom)
  next
    case False
    then show ?thesis
      using slices_equal_iff [OF r(1,2)] by (auto simp: runPairs_def intro!: foldl_diffStep_none [symmetric])
  qed
  then show ?case
    using Cons.IH [of "foldl (diffStep ?P) t (runPairs run)"] Cons.prems by (simp add: hashSlice_Inr r)
qed simp

text \<open>The table after a scan: an empty slot is filled when its partner differs.\<close>

lemma foldl_diffStep_nth:
  assumes "distinct (map snd ps)" "\<forall>p \<in> set ps. snd p < length t" "j < length t"
  shows "foldl (diffStep P) t ps ! j =
    (case t ! j of Some e \<Rightarrow> Some e
     | None \<Rightarrow> (case map_of (map prod.swap ps) j of Some i \<Rightarrow> if P i j then Some (changedAt i j) else None | None \<Rightarrow> None))"
  using assms
proof (induction ps arbitrary: t)
  case (Cons p ps)
  obtain i j' where p: "p = (i, j')"
    by (cases p)
  have "map_of (map prod.swap ps) j' = None"
    using Cons.prems(1) p by (force simp: map_of_eq_None_iff)
  then show ?case
    using Cons.IH [of "diffStep P t p"] Cons.prems p by (auto simp: diffStep_def nth_list_update split: option.splits)
qed (simp split: option.splits)

section \<open>Reverse adjacency\<close>

definition rowOf :: "(nat \<times> nat) list \<Rightarrow> nat \<Rightarrow> nat list" where
  "rowOf es d = map snd (filter (\<lambda>e. fst e = d) es)"

lemma rowOf_simps [simp]: "rowOf [] d = []" "rowOf (es @ fs) d = rowOf es d @ rowOf fs d"
  "rowOf ((d', i) # es) d = (if d' = d then i # rowOf es d else rowOf es d)"
  by (simp_all add: rowOf_def)

lemma length_scatter: "length (fst (scatter es st)) = length (fst st)"
  by (induction es st rule: scatter.induct) (auto simp: case_prod_beta)

lemma scatter_inv:
  assumes "\<And>d. d < n \<Longrightarrow> off (Suc d) = off d + length (rowOf (ps @ es) d)" "off n \<le> length targets" "length pos = n"
    and "\<forall>e \<in> set es. fst e < n" "\<And>d. d < n \<Longrightarrow> pos ! d = off d + length (rowOf ps d)"
    and "\<And>d k. d < n \<Longrightarrow> k < length (rowOf ps d) \<Longrightarrow> targets ! (off d + k) = rowOf ps d ! k"
  shows "d < n \<Longrightarrow> k < length (rowOf (ps @ es) d) \<Longrightarrow> fst (scatter es (targets, pos)) ! (off d + k) = rowOf (ps @ es) d ! k"
  using assms
proof (induction es arbitrary: ps targets pos)
  case (Cons e es)
  obtain x i where e: "e = (x, i)"
    by (cases e)
  have x: "x < n"
    using Cons.prems(6) e by simp
  have mono: "a \<le> b \<Longrightarrow> b \<le> n \<Longrightarrow> off a \<le> off b" for a b
    using Cons.prems(3) by (induction b) (auto simp: le_Suc_eq intro: le_trans)
  have slot: "off c + k < off (Suc c)" if "c < n" "k < length (rowOf ps c)" for c k
    using Cons.prems(3) that by simp
  have own: "off x + length (rowOf ps x) < off (Suc x)"
    using Cons.prems(3) x e by simp
  have neq: "off c + k \<noteq> off x + length (rowOf ps x)" if "c < n" "k < length (rowOf ps c)" for c k
  proof (cases c x rule: linorder_cases)
    case less
    then show ?thesis
      using slot [OF that] mono [of "Suc c" x] x by simp
  next
    case greater
    then show ?thesis
      using own mono [of "Suc x" c] that(1) by simp
  qed (use that in simp)
  have pos: "pos ! x = off x + length (rowOf ps x)" "pos ! x < length targets"
    using Cons.prems(4,7) x own mono [of "Suc x" n] by auto
  have split: "ps @ (x, i) # es = (ps @ [(x, i)]) @ es"
    by simp
  have filled: "targets[pos ! x := i] ! (off c + m) = rowOf (ps @ [(x, i)]) c ! m" if "c < n" "m < length (rowOf (ps @ [(x, i)]) c)" for c m
    using that pos Cons.prems(8) neq [OF that(1), of m] by (auto simp: nth_list_update nth_append split: if_splits)
  show ?case
    unfolding e scatter.simps split
    by (rule Cons.IH) (use Cons.prems e x pos filled in \<open>auto simp: nth_list_update\<close>)
qed simp

lemma prefixSums_nth: "k \<le> length ds \<Longrightarrow> prefixSums acc ds ! k = acc + sum_list (take k ds)"
  by (induction acc ds arbitrary: k rule: prefixSums.induct) (auto simp: nth_Cons' take_Cons')

lemma length_prefixSums [simp]: "length (prefixSums acc ds) = Suc (length ds)"
  by (induction acc ds rule: prefixSums.induct) auto

lemma prefixSums_neq [simp]: "prefixSums acc ds \<noteq> []"
  by (cases ds) simp_all

lemma last_prefixSums: "last (prefixSums acc ds) = acc + sum_list ds"
  by (induction acc ds rule: prefixSums.induct) simp_all

lemma countInDegrees_nth:
  assumes "d < n"
  shows "countInDegrees n tgt ! d = length (filter (\<lambda>x. 0 \<le> sint x \<and> nat (sint x) = d) tgt) \<and> length (countInDegrees n tgt) = n"
  using assms
proof (induction tgt rule: rev_induct)
  case (snoc x tgt)
  then show ?case
    by (auto simp: countInDegrees_def nth_list_update)
qed (simp add: countInDegrees_def)

text \<open>The forward edges are the dependencies of the nodes in order.\<close>

definition csr_ok :: "readerView \<Rightarrow> bool" where
  "csr_ok v \<longleftrightarrow> vDepsCSR v = Inr (map (\<lambda>i. length (concat (map (vDeps v) [0..<i]))) [0..<vNodeCount v + 1],
     concat (map (vDeps v) [0..<vNodeCount v])) \<and>
     (\<forall>i < vNodeCount v. \<forall>d \<in> set (vDeps v i). 0 \<le> sint d \<and> nat (sint d) < vNodeCount v)"

definition depEdges :: "readerView \<Rightarrow> (nat \<times> nat) list" where
  "depEdges v = concat (map (\<lambda>i. map (\<lambda>d. (nat (sint d), i)) (vDeps v i)) [0..<vNodeCount v])"

lemma slice_concat:
  assumes "i < n"
  shows "map ((!) (concat (map f [0..<n]))) [length (concat (map f [0..<i]))..<length (concat (map f [0..<Suc i]))] = f i"
proof -
  have "[0..<n] = [0..<i] @ i # [Suc i..<n]"
    using assms upt_split [of 0 i n] by (simp add: upt_conv_Cons)
  then show ?thesis
    by (intro nth_equalityI) (simp_all add: nth_append)
qed

lemma forwardEdges_ok:
  assumes "csr_ok v" "vDepsCSR v = Inr (off, tgt)"
  shows "forwardEdges (vNodeCount v) off tgt = depEdges v"
proof -
  let ?n = "vNodeCount v"
  have o: "off = map (\<lambda>i. length (concat (map (vDeps v) [0..<i]))) [0..<?n + 1]" "tgt = concat (map (vDeps v) [0..<?n])"
    using assms by (auto simp: csr_ok_def)
  have "(if i + 1 < length off
      then concat (map (\<lambda>k. let d = sint (tgt ! k) in if 0 \<le> d \<and> nat d < ?n then [(nat d, i)] else []) [off ! i..<off ! (i + 1)])
      else []) = map (\<lambda>d. (nat (sint d), i)) (vDeps v i)" if i: "i < ?n" for i
  proof -
    let ?g = "\<lambda>x. let d = sint x in if 0 \<le> d \<and> nat d < ?n then [(nat d, i)] else []"
    have "off ! i = length (concat (map (vDeps v) [0..<i]))" "off ! (i + 1) = length (concat (map (vDeps v) [0..<Suc i]))" "i + 1 < length off"
      using i by (simp_all add: o(1) nth_append del: upt_Suc)
    then have "concat (map (\<lambda>k. ?g (tgt ! k)) [off ! i..<off ! (i + 1)]) = concat (map ?g (vDeps v i))"
      using arg_cong [OF slice_concat [OF i, of "vDeps v"], of "\<lambda>xs. concat (map ?g xs)"] by (simp only: o(2) map_map comp_def)
    also have "map ?g (vDeps v i) = map (\<lambda>d. [(nat (sint d), i)]) (vDeps v i)"
      using assms(1) i by (auto simp: csr_ok_def)
    finally show ?thesis
      using \<open>i + 1 < length off\<close> by simp
  qed
  then show ?thesis
    unfolding forwardEdges_def depEdges_def by (auto intro!: arg_cong [of _ _ concat])
qed


lemma length_rowOf_depEdges:
  assumes "csr_ok v" "d < vNodeCount v"
  shows "length (filter (\<lambda>x. 0 \<le> sint x \<and> nat (sint x) = d) (concat (map (vDeps v) [0..<vNodeCount v]))) = length (rowOf (depEdges v) d)"
proof -
  have "length (filter (\<lambda>x. 0 \<le> sint x \<and> nat (sint x) = d) (vDeps v i)) = length (rowOf (map (\<lambda>x. (nat (sint x), i)) (vDeps v i)) d)"
    if "i < vNodeCount v" for i
  proof -
    have "filter (\<lambda>x. 0 \<le> sint x \<and> nat (sint x) = d) (vDeps v i) = filter (\<lambda>x. nat (sint x) = d) (vDeps v i)"
      using assms(1) that by (intro filter_cong) (auto simp: csr_ok_def)
    then show ?thesis
      by (simp add: rowOf_def filter_map comp_def)
  qed
  then have "length (filter (\<lambda>x. 0 \<le> sint x \<and> nat (sint x) = d) (concat (map (vDeps v) is))) =
      length (rowOf (concat (map (\<lambda>i. map (\<lambda>d. (nat (sint d), i)) (vDeps v i)) is)) d)" if "set is \<subseteq> {..<vNodeCount v}" for "is"
    using that by (induction "is") auto
  then show ?thesis
    unfolding depEdges_def by (simp add: subset_eq)
qed

lemma buildReverseCSR_rows:
  assumes "csr_ok v"
  shows "\<exists>csr. buildReverseCSR v (vNodeCount v) = Inr csr \<and> (\<forall>d < vNodeCount v. csrRow csr d = rowOf (depEdges v) d)"
proof -
  let ?n = "vNodeCount v" and ?E = "depEdges v"
  obtain off tgt where csr: "vDepsCSR v = Inr (off, tgt)" "tgt = concat (map (vDeps v) [0..<?n])"
    using assms by (auto simp: csr_ok_def)
  let ?deg = "countInDegrees ?n tgt"
  have len: "length ?deg = ?n"
    using countInDegrees_nth [of 0 ?n tgt] by (cases "?n = 0") (auto simp: countInDegrees_def, induction tgt rule: rev_induct, auto)
  have deg: "?deg ! d = length (rowOf ?E d)" if "d < ?n" for d
    using countInDegrees_nth [OF that] length_rowOf_depEdges [OF assms that] csr(2) by simp
  let ?off = "\<lambda>d. sum_list (take d ?deg)"
  have offs: "prefixSums 0 ?deg ! d = ?off d" if "d \<le> ?n" for d
    using prefixSums_nth [of d ?deg 0] that len by simp
  have step: "?off (Suc d) = ?off d + length (rowOf ?E d)" if "d < ?n" for d
    using that deg len by (simp add: take_Suc_conv_app_nth)
  have lst: "last (prefixSums 0 ?deg) = ?off ?n"
    using len by (simp add: last_prefixSums)
  have in_range: "\<forall>e \<in> set ?E. fst e < ?n"
    using assms by (auto simp: depEdges_def csr_ok_def)
  let ?t = "fst (scatter ?E (replicate (?off ?n) 0, butlast (prefixSums 0 ?deg)))"
  have fill: "?t ! (?off d + k) = rowOf ?E d ! k" if "d < ?n" "k < length (rowOf ?E d)" for d k
    using scatter_inv [of ?n ?off "[]" ?E "replicate (?off ?n) 0" "butlast (prefixSums 0 ?deg)" d k] that step in_range len offs
    by (simp add: nth_butlast)
  have mono: "a \<le> b \<Longrightarrow> b \<le> ?n \<Longrightarrow> ?off a \<le> ?off b" for a b
    using step by (induction b) (auto simp: le_Suc_eq intro: le_trans)
  have "csrRow (prefixSums 0 ?deg, ?t) d = rowOf ?E d" if d: "d < ?n" for d
  proof (rule nth_equalityI)
    have "?off (Suc d) \<le> length ?t"
      using mono [of "Suc d" ?n] d by (simp add: length_scatter)
    then show l: "length (csrRow (prefixSums 0 ?deg, ?t) d) = length (rowOf ?E d)"
      using step [OF d] offs [of d] offs [of "Suc d"] d by (simp add: csrRow_def)
    fix k assume "k < length (csrRow (prefixSums 0 ?deg, ?t) d)"
    then show "csrRow (prefixSums 0 ?deg, ?t) d ! k = rowOf ?E d ! k"
      using l fill [OF d, of k] step [OF d] offs [of d] offs [of "Suc d"] d \<open>?off (Suc d) \<le> length ?t\<close> by (simp add: csrRow_def)
  qed
  then show ?thesis
    using forwardEdges_ok [OF assms csr(1)] by (simp add: buildReverseCSR_def csr(1) Let_def lst)
qed

end
