(* ===== verification/TgbAdapt.thy ===== *)
theory TgbAdapt
  imports TgbDiff
begin

text \<open>
  \<open>internal/tgbdiff/adapt.go\<close>: merging a stream of chunks into one graph for the encoder, turning
  a comparison result into full targets, and the oracle that compares two results.
\<close>

section \<open>Merging chunks\<close>

definition putAll :: "('k, 'v) gomap \<Rightarrow> ('k, 'v) gomap \<Rightarrow> ('k, 'v) gomap" where
  "putAll m kvs = foldl (\<lambda>m kv. AList.update (fst kv) (snd kv) m) m kvs"

definition mergeMetadata :: "Metadata \<Rightarrow> Metadata \<Rightarrow> Metadata" where
  "mergeMetadata g m = \<lparr>
     md_TargetIDMapping = putAll (md_TargetIDMapping g) (md_TargetIDMapping m),
     md_RuleTypeMapping = putAll (md_RuleTypeMapping g) (md_RuleTypeMapping m),
     md_TagMapping = putAll (md_TagMapping g) (md_TagMapping m),
     md_AttributeNameMapping = putAll (md_AttributeNameMapping g) (md_AttributeNameMapping m),
     md_AttributeStringValueMapping = putAll (md_AttributeStringValueMapping g) (md_AttributeStringValueMapping m),
     md_AllTargetsFileHashes = putAll (md_AllTargetsFileHashes g) (md_AllTargetsFileHashes m) \<rparr>"

text \<open>\<open>byID\<close> maps an ID to its position: a later target with the same ID replaces the earlier in place.\<close>

definition mergeTarget :: "OptimizedTarget list \<times> (i32 \<Rightarrow> nat option) \<Rightarrow> OptimizedTarget \<Rightarrow> OptimizedTarget list \<times> (i32 \<Rightarrow> nat option)" where
  "mergeTarget st t = (case st of (ts, byID) \<Rightarrow>
     (case byID (ot_ID t) of Some idx \<Rightarrow> (ts[idx := t], byID)
      | None \<Rightarrow> (ts @ [t], byID(ot_ID t \<mapsto> length ts))))"

definition mergeChunk :: "OptimizedTarget list \<times> (i32 \<Rightarrow> nat option) \<times> Metadata \<Rightarrow> GetTargetGraphResponse \<Rightarrow>
    OptimizedTarget list \<times> (i32 \<Rightarrow> nat option) \<times> Metadata" where
  "mergeChunk st chunk = (case st of (ts, byID, md) \<Rightarrow>
     case foldl mergeTarget (ts, byID) (gr_Targets chunk) of (ts', byID') \<Rightarrow>
       (ts', byID', case gr_Metadata chunk of None \<Rightarrow> md | Some m \<Rightarrow> mergeMetadata md m))"

definition MergeChunks :: "GetTargetGraphResponse list \<Rightarrow> Graph" where
  "MergeChunks chunks = (case foldl mergeChunk ([], Map.empty, emptyMetadata) chunks of (ts, byID, md) \<Rightarrow>
     \<lparr> g_Targets = ts, g_Metadata = md \<rparr>)"

definition encodeHashBytes :: int where "encodeHashBytes = 20"
definition encodeBlockSize :: int where "encodeBlockSize = 512"

definition EncodeChunks :: "(int \<Rightarrow> bytes \<Rightarrow> bytes) \<Rightarrow> (bytes \<Rightarrow> u64) \<Rightarrow> nat \<Rightarrow> GetTargetGraphResponse list \<Rightarrow> tgb_error + bytes" where
  "EncodeChunks zc xxh procs chunks = Encode zc xxh procs (MergeChunks chunks)
     \<lparr> opt_ZstdLevel = 0, opt_HashBytes = encodeHashBytes, opt_BlockSize = encodeBlockSize, opt_Serial = False \<rparr>"

section \<open>Materializing results\<close>

definition materializeTarget :: "readerView \<Rightarrow> nat \<Rightarrow> string set option \<Rightarrow> Target" where
  "materializeTarget r node seedAttrs = \<lparr>
     dt_Name = vLabel r node,
     dt_Hash = vHash r node,
     dt_RuleType = vRuleType r node,
     dt_Dependencies = map (\<lambda>d. vLabel r (nat (sint d))) (vDeps r node),
     dt_Tags = filter (\<lambda>name. name \<noteq> []) (map (vTagName r) (vTags r node)),
     dt_Attributes = filter (\<lambda>(k, v). case seedAttrs of None \<Rightarrow> True | Some allowed \<Rightarrow> k \<in> allowed) (vAttrs r node),
     dt_Root = vRoot r node,
     dt_External = vExternal r node \<rparr>"

definition findTarget :: "readerView \<Rightarrow> string \<Rightarrow> string \<Rightarrow> string set option \<Rightarrow> tgb_error + Target" where
  "findTarget r label which seedAttrs = (case splitLabel label of (pkg, name) \<Rightarrow>
     let node = vFindNode r pkg name in
     if node < 0 then Inl (Err (''tgbdiff: changed label %q not found in '' @ which @ '' graph''))
     else Inr (materializeTarget r (nat node) seedAttrs))"

definition materializeOne :: "readerView \<Rightarrow> readerView \<Rightarrow> string set option \<Rightarrow> ChangedLabel \<Rightarrow> tgb_error + DiffTarget" where
  "materializeOne before after seedAttrs c =
    bindE (if cl_ChangeType c = DiffTypeNew \<or> cl_ChangeType c = DiffTypeChanged
           then bindE (findTarget after (cl_Label c) ''after'' seedAttrs) (\<lambda>t. Inr (Some t)) else Inr None) (\<lambda>a.
    bindE (if cl_ChangeType c = DiffTypeDeleted \<or> cl_ChangeType c = DiffTypeChanged
           then bindE (findTarget before (cl_Label c) ''before'' seedAttrs) (\<lambda>t. Inr (Some t)) else Inr None) (\<lambda>b.
    Inr \<lparr> cd_ChangeType = cl_ChangeType c, cd_Before = b, cd_After = a, cd_Distance = cl_Distance c \<rparr>))"

definition Materialize :: "readerView \<Rightarrow> readerView \<Rightarrow> ChangedLabel list \<Rightarrow> string set option \<Rightarrow> tgb_error + DiffTarget list" where
  "Materialize before after result seedAttrs = mapE (materializeOne before after seedAttrs) result"

definition SemanticGraph :: "readerView \<Rightarrow> string set option \<Rightarrow> DiffGraph" where
  "SemanticGraph r seedAttrs = putAll [] (map (\<lambda>i. let t = materializeTarget r i seedAttrs in (dt_Name t, t)) [0..<vNodeCount r])"

section \<open>Comparing results\<close>

definition sortedTarget :: "Target \<Rightarrow> Target" where
  "sortedTarget t = t \<lparr> dt_Dependencies := sort (dt_Dependencies t), dt_Tags := sort (dt_Tags t) \<rparr>"

definition changedLabel :: "DiffTarget \<Rightarrow> string" where
  "changedLabel ct = (case cd_After ct of Some t \<Rightarrow> dt_Name t
     | None \<Rightarrow> (case cd_Before ct of Some t \<Rightarrow> dt_Name t | None \<Rightarrow> []))"

definition normalizeResult :: "DiffTarget list \<Rightarrow> DiffTarget list" where
  "normalizeResult res = sort_key changedLabel (map (\<lambda>ct. ct \<lparr> cd_Before := map_option sortedTarget (cd_Before ct),
     cd_After := map_option sortedTarget (cd_After ct) \<rparr>) res)"

definition mapsEqual :: "(string, string) gomap \<Rightarrow> (string, string) gomap \<Rightarrow> bool" where
  "mapsEqual a b \<longleftrightarrow> length a = length b \<and> list_all (\<lambda>(k, v). map_of b k = Some v) a"

fun slicesEqual :: "string list \<Rightarrow> string list \<Rightarrow> bool" where
  "slicesEqual [] [] = True"
| "slicesEqual (a # as) (b # bs) = (a = b \<and> slicesEqual as bs)"
| "slicesEqual _ _ = False"

fun targetsEqual :: "Target option \<Rightarrow> Target option \<Rightarrow> bool" where
  "targetsEqual None None = True"
| "targetsEqual (Some a) (Some b) = (dt_Name a = dt_Name b \<and> dt_Hash a = dt_Hash b \<and> dt_RuleType a = dt_RuleType b \<and>
     dt_Root a = dt_Root b \<and> dt_External a = dt_External b \<and> slicesEqual (dt_Dependencies a) (dt_Dependencies b) \<and>
     slicesEqual (dt_Tags a) (dt_Tags b) \<and> mapsEqual (dt_Attributes a) (dt_Attributes b))"
| "targetsEqual _ _ = False"

definition changedTargetsEqual :: "DiffTarget \<Rightarrow> DiffTarget \<Rightarrow> bool" where
  "changedTargetsEqual a b \<longleftrightarrow> cd_ChangeType a = cd_ChangeType b \<and> cd_Distance a = cd_Distance b \<and>
     targetsEqual (cd_Before a) (cd_Before b) \<and> targetsEqual (cd_After a) (cd_After b)"

text \<open>The verdict; the description of the first divergence is for the log only.\<close>

definition ResultsEquivalent :: "DiffTarget list \<Rightarrow> DiffTarget list \<Rightarrow> bool" where
  "ResultsEquivalent a b = (let an = normalizeResult a; bn = normalizeResult b in
     length an = length bn \<and> list_all (\<lambda>i. changedTargetsEqual (an ! i) (bn ! i)) [0..<length an])"

section \<open>Views of encoded graphs\<close>

text \<open>
  What a reader of an encoded graph promises: labels are joined keys, hashes are the entries of
  the HASH column except where the hash-empty bit is set, rule types are dictionary entries,
  dependencies are nodes, and \<open>FindNode\<close> finds every node.
\<close>

definition view_ok :: "readerView \<Rightarrow> bool" where
  "view_ok v \<longleftrightarrow> csr_ok v \<and> length (vHashes v) = vNodeCount v * vHashBytes v \<and> 0 < vHashBytes v \<and>
     (\<exists>bits ids. vHashEmptyBits v = Inr bits \<and> vRuleTypeIDs v = Inr ids \<and> length ids = vNodeCount v \<and>
       (\<forall>i < vNodeCount v.
          vLabel v i \<noteq> [] \<and> distinct (map fst (vAttrs v i)) \<and> splitLabel (vLabel v i) = vSplitLabel v i \<and> vLabel v i = joinLabel (fst (vSplitLabel v i)) (snd (vSplitLabel v i)) \<and>
          vHash v i = (if emptyBit bits i then [] else EncodeToString (hashEntry (vHashes v) (vHashBytes v) i)) \<and>
          (emptyBit bits i \<longrightarrow> hashEntry (vHashes v) (vHashBytes v) i = replicate (vHashBytes v) 0) \<and>
          (ids ! i = vRuleTypeDictID v sourceFileRuleType \<and> 0 \<le> sint (vRuleTypeDictID v sourceFileRuleType) \<longleftrightarrow>
             vRuleType v i = sourceFileRuleType) \<and>
          vFindNode v (fst (vSplitLabel v i)) (snd (vSplitLabel v i)) = int i))"

end
