(* ===== verification/TgbDiffNodes.thy ===== *)
theory TgbDiffNodes
  imports TgbAdapt
begin

text \<open>
  What the two comparisons classify. The table that phases 0 and 1 of the blob comparison build has
  the entry \<open>entryOf\<close> for every node of the later graph; the reference comparison of the graphs that
  the blobs stand for finds the same entries under their labels, and both call the same ones seeds.
\<close>

section \<open>The changed nodes\<close>

definition partner :: "readerView \<Rightarrow> readerView \<Rightarrow> nat \<Rightarrow> nat option" where
  "partner before after j = find (\<lambda>i. vSplitLabel before i = vSplitLabel after j) [0..<vNodeCount before]"

definition entryOf :: "readerView \<Rightarrow> readerView \<Rightarrow> nat \<Rightarrow> changedNode option" where
  "entryOf before after j = (case partner before after j of None \<Rightarrow> Some (insertedNode j)
     | Some i \<Rightarrow> if vHash before i \<noteq> vHash after j then Some (changedAt i j) else None)"

text \<open>The two graphs can be compared: well-formed views whose keys and blocks fit and whose strides agree.\<close>

definition comparable :: "readerView \<Rightarrow> readerView \<Rightarrow> bool" where
  "comparable before after \<longleftrightarrow> view_ok before \<and> view_ok after \<and> view_aligned before after \<and> vHashBytes before = vHashBytes after"

lemma ascending_eq: "ascending f 0 n \<Longrightarrow> i < n \<Longrightarrow> j < n \<Longrightarrow> f i = f j \<longleftrightarrow> i = j"
  using ascendingD [of f 0 n i j] ascendingD [of f 0 n j i] by (cases i j rule: linorder_cases) auto

lemma partner_Some:
  assumes "comparable before after" "j < vNodeCount after"
  shows "partner before after j = Some i \<longleftrightarrow> i < vNodeCount before \<and> vSplitLabel before i = vSplitLabel after j"
proof -
  have asc: "ascending (vSplitLabel before) 0 (vNodeCount before)"
    using assms(1) by (simp add: comparable_def view_aligned_def)
  show ?thesis
  proof
    assume "partner before after j = Some i"
    then show "i < vNodeCount before \<and> vSplitLabel before i = vSplitLabel after j"
      by (auto simp: partner_def find_Some_iff)
  next
    assume i: "i < vNodeCount before \<and> vSplitLabel before i = vSplitLabel after j"
    then have "vSplitLabel before k \<noteq> vSplitLabel after j" if "k < i" for k
      using ascending_eq [OF asc, of k i] that by force
    then show "partner before after j = Some i"
      using i by (auto simp: partner_def find_Some_iff intro!: exI [of _ i])
  qed
qed

lemma partner_None:
  "partner before after j = None \<longleftrightarrow> (\<forall>i < vNodeCount before. vSplitLabel after j \<noteq> vSplitLabel before i)"
  by (auto simp: partner_def find_None_iff)

lemma markInserted_nth: "(\<forall>j \<in> set ins. j < n) \<Longrightarrow> j < n \<Longrightarrow>
    markInserted n ins ! j = (if j \<in> set ins then Some (insertedNode j) else None) \<and> length (markInserted n ins) = n"
  by (induction ins rule: rev_induct) (auto simp: markInserted_def nth_list_update)

lemma length_markInserted [simp]: "length (markInserted n ins) = n"
  by (induction ins rule: rev_induct) (auto simp: markInserted_def)

lemma unat_byte_less: "unat (x :: byte) < 256"
  using unsigned_less [of x] by simp

lemma hexDigits_inj:
  assumes "hexDigit (drop_bit 4 b) = hexDigit (drop_bit 4 c)" "hexDigit (b AND 0x0f) = hexDigit (c AND 0x0f)"
  shows "b = (c :: byte)"
proof -
  have hi: "unat (drop_bit 4 x) = unat x div 16" "unat (drop_bit 4 x) < 16" for x :: byte
    using unat_byte_less [of x] by (simp_all add: drop_bit_eq_div unat_div)
  have lo: "unat (x AND 0x0f) = unat x mod 16" for x :: byte
  proof -
    have "x AND 0x0f = take_bit 4 x"
      by (simp add: take_bit_eq_mask mask_eq_exp_minus_1)
    then show ?thesis
      by (simp add: take_bit_eq_mod unat_mod)
  qed
  have "distinct ''0123456789abcdef''" "length ''0123456789abcdef'' = 16"
    by simp_all
  then have "unat (drop_bit 4 b) = unat (drop_bit 4 c)" "unat (b AND 0x0f) = unat (c AND 0x0f)"
    using assms hi(2) [of b] hi(2) [of c] lo [of b] lo [of c] unfolding hexDigit_def by (metis nth_eq_iff_index_eq mod_less_divisor zero_less_numeral)+
  then have "unat b = unat c"
    using hi(1) lo by (metis div_mult_mod_eq)
  then show ?thesis
    by (simp add: word_unat_eq_iff)
qed

lemma EncodeToString_inj: "EncodeToString x = EncodeToString y \<longleftrightarrow> x = y"
proof
  show "EncodeToString x = EncodeToString y \<Longrightarrow> x = y"
  proof (induction x arbitrary: y)
    case (Cons b x)
    then show ?case
      by (cases y) (auto simp: EncodeToString_def dest: hexDigits_inj)
  qed (auto simp: EncodeToString_def split: list.splits)
qed simp

lemma growUnit_pos: "0 < runLength run \<Longrightarrow> r \<in> set (growUnit run ps) \<Longrightarrow> 0 < runLength r"
  by (induction run ps rule: growUnit.induct) (auto split: if_splits)

lemma runsOf_pos: "r \<in> set (runsOf ps) \<Longrightarrow> 0 < runLength r"
  by (cases ps rule: runsOf.cases) (auto dest: growUnit_pos [rotated])

lemma hash_equal_iff:
  assumes "view_ok v" "view_ok w" "i < vNodeCount v" "j < vNodeCount w" "vHashBytes v = vHashBytes w"
    and "vHashEmptyBits v = Inr vb" "vHashEmptyBits w = Inr wb"
  shows "vHash v i = vHash w j \<longleftrightarrow> \<not> hashDiffers (vHashes v) (vHashes w) (vHashBytes v) i j \<and> emptyBit vb i = emptyBit wb j"
proof -
  have entry: "hashEntry (vHashes x) (vHashBytes x) k \<noteq> []" if "view_ok x" "k < vNodeCount x" for x k
  proof -
    have "k * vHashBytes x < vNodeCount x * vHashBytes x" "length (vHashes x) = vNodeCount x * vHashBytes x" "0 < vHashBytes x"
      using that by (auto simp: view_ok_def)
    then show ?thesis
      by (auto simp: hashEntry_def)
  qed
  have V: "vHash v i = (if emptyBit vb i then [] else EncodeToString (hashEntry (vHashes v) (vHashBytes v) i))"
      "emptyBit vb i \<Longrightarrow> hashEntry (vHashes v) (vHashBytes v) i = replicate (vHashBytes v) 0"
      "vHash w j = (if emptyBit wb j then [] else EncodeToString (hashEntry (vHashes w) (vHashBytes w) j))"
      "emptyBit wb j \<Longrightarrow> hashEntry (vHashes w) (vHashBytes w) j = replicate (vHashBytes w) 0"
    using assms unfolding view_ok_def by auto
  have "EncodeToString x \<noteq> []" if "x \<noteq> []" for x
    using that EncodeToString_inj [of x "[]"] by (auto simp: EncodeToString_def)
  then have "EncodeToString (hashEntry (vHashes v) (vHashBytes v) i) \<noteq> []" "EncodeToString (hashEntry (vHashes w) (vHashBytes w) j) \<noteq> []"
    using entry [OF assms(1,3)] entry [OF assms(2,4)] by blast+
  then show ?thesis
    using V assms(5) by (auto simp: hashDiffers_def EncodeToString_inj)
qed

lemma aligned_pairs:
  assumes "comparable before after" "align before after = (runs, deleted, inserted)"
  shows "\<And>i j. (i, j) \<in> set (concat (map runPairs runs)) \<longleftrightarrow> i < vNodeCount before \<and> j < vNodeCount after \<and> vSplitLabel before i = vSplitLabel after j"
    "distinct (map snd (concat (map runPairs runs)))"
proof -
  let ?P = "concat (map runPairs runs)" and ?bN = "vNodeCount before"
  have ok: "view_aligned before after" "ascending (vSplitLabel before) 0 ?bN"
    using assms(1) by (auto simp: comparable_def view_aligned_def)
  note A = align_result [OF ok(1) assms(2)]
  show mem: "(i, j) \<in> set ?P \<longleftrightarrow> i < ?bN \<and> j < vNodeCount after \<and> vSplitLabel before i = vSplitLabel after j" for i j
    by (subst A(1)) simp
  have "distinct (map fst ?P)"
    using A(2) strict_sorted_iff by blast
  then have "distinct ?P"
    by (auto simp: distinct_map)
  moreover have "inj_on snd (set ?P)"
  proof (rule inj_onI)
    fix p q assume pq: "p \<in> set ?P" "q \<in> set ?P" "snd p = snd q"
    then have "fst p < ?bN" "fst q < ?bN" "vSplitLabel before (fst p) = vSplitLabel before (fst q)"
      using mem [of "fst p" "snd p"] mem [of "fst q" "snd q"] by (metis prod.collapse)+
    then show "p = q"
      using ascending_eq [OF ok(2)] pq(3) by (simp add: prod_eq_iff)
  qed
  ultimately show "distinct (map snd ?P)"
    by (simp add: distinct_map)
qed

lemma aligned_runs_in_range:
  assumes "comparable before after" "align before after = (runs, deleted, inserted)" "run \<in> set runs"
  shows "beforeStart run + runLength run \<le> vNodeCount before" "afterStart run + runLength run \<le> vNodeCount after"
proof -
  have ok: "view_aligned before after"
    using assms(1) by (simp add: comparable_def)
  have pos: "0 < runLength run"
    using runsOf_pos assms(3) align_result(5) [OF ok assms(2)] fallback_spec [of before "vNodeCount before" after "vNodeCount after"] ok
    by (auto simp: view_aligned_def)
  then have "(beforeStart run + (runLength run - 1), afterStart run + (runLength run - 1)) \<in> set (runPairs run)"
    unfolding runPairs_def set_map by (intro image_eqI [of _ _ "runLength run - 1"]) simp_all
  then have "(beforeStart run + (runLength run - 1), afterStart run + (runLength run - 1)) \<in> set (concat (map runPairs runs))"
    using assms(3) by auto
  then show "beforeStart run + runLength run \<le> vNodeCount before" "afterStart run + runLength run \<le> vNodeCount after"
    using pos aligned_pairs(1) [OF assms(1,2)] by (metis Suc_leI Suc_diff_1 add_Suc_right)+
qed

lemma map_of_pairs_partner:
  assumes "comparable before after" "align before after = (runs, deleted, inserted)" "j < vNodeCount after"
  shows "map_of (map prod.swap (concat (map runPairs runs))) j = partner before after j"
proof (cases "partner before after j")
  case None
  then have "j \<notin> snd ` set (concat (map runPairs runs))"
    using aligned_pairs(1) [OF assms(1,2)] partner_None [of before after j] by force
  then show ?thesis
    using None by (auto simp: map_of_eq_None_iff image_image simp del: set_concat)
next
  case (Some i)
  then have "(i, j) \<in> set (concat (map runPairs runs))"
    using partner_Some [OF assms(1,3)] aligned_pairs(1) [OF assms(1,2)] assms(3) by blast
  then have "map_of (map prod.swap (concat (map runPairs runs))) j = Some i"
    using aligned_pairs(2) [OF assms(1,2)] by (intro map_of_is_SomeI) (force simp: comp_def simp del: set_concat)+
  then show ?thesis
    using Some by simp
qed

text \<open>Scanning hashes and then hash-empty bits leaves the entry of every node in the table.\<close>

lemma scanned_entry:
  assumes "comparable before after" "align before after = (runs, deleted, inserted)" "j < vNodeCount after"
    and "vHashEmptyBits before = Inr bb" "vHashEmptyBits after = Inr ab"
  shows "foldl (diffStep (\<lambda>bi ai. emptyBit bb bi \<noteq> emptyBit ab ai))
    (foldl (diffStep (hashDiffers (vHashes before) (vHashes after) (vHashBytes before))) (markInserted (vNodeCount after) inserted)
      (concat (map runPairs runs))) (concat (map runPairs runs)) ! j = entryOf before after j"
proof -
  have ok: "view_ok before" "view_ok after" "view_aligned before after" "vHashBytes before = vHashBytes after"
    using assms(1) by (auto simp: comparable_def)
  note A = align_result(4) [OF ok(3) assms(2)] and P = aligned_pairs [OF assms(1,2)]
  have ps: "\<forall>p \<in> set (concat (map runPairs runs)). snd p < vNodeCount after"
    using P(1) by fastforce
  have ins: "markInserted (vNodeCount after) inserted ! j = (if j \<in> set inserted then Some (insertedNode j) else None)"
    using markInserted_nth [of inserted "vNodeCount after" j] assms(3) A by auto
  show ?thesis
  proof (cases "partner before after j")
    case None
    then have "j \<in> set inserted"
      using assms(3) A partner_None by auto
    then show ?thesis
      using assms(3) ps P(2) ins None by (simp add: foldl_diffStep_nth entryOf_def)
  next
    case (Some i)
    then have i: "i < vNodeCount before" "vSplitLabel before i = vSplitLabel after j"
      using partner_Some [OF assms(1,3)] by auto
    then have "j \<notin> set inserted"
      using A by force
    then show ?thesis
      using assms(3) ps P(2) ins Some map_of_pairs_partner [OF assms(1-3)] hash_equal_iff [OF ok(1,2) i(1) assms(3) ok(4) assms(4,5)]
      by (auto simp: foldl_diffStep_nth entryOf_def)
  qed
qed

lemma hashPhase_result:
  assumes "comparable before after" "align before after = (runs, deleted, inserted)"
  shows "hashPhase before after runs inserted = Inr (map (entryOf before after) [0..<vNodeCount after])"
proof -
  let ?P = "concat (map runPairs runs)" and ?t0 = "markInserted (vNodeCount after) inserted"
  let ?D = "hashDiffers (vHashes before) (vHashes after) (vHashBytes before)"
  have ok: "view_ok before" "view_ok after" "vHashBytes after = vHashBytes before"
    using assms(1) by (auto simp: comparable_def)
  obtain bb ab where bits: "vHashEmptyBits before = Inr bb" "vHashEmptyBits after = Inr ab"
    using ok(1,2) by (auto simp: view_ok_def)
  have len: "length (vHashes before) = vNodeCount before * vHashBytes before" "length (vHashes after) = vNodeCount after * vHashBytes before"
    using ok by (auto simp: view_ok_def)
  have "diffRuns (vHashes before) (vHashes after) (vHashBytes before) runs ?t0 = Inr (foldl (diffStep ?D) ?t0 ?P)"
    using aligned_runs_in_range [OF assms] by (intro diffRuns_pointwise) (auto simp: len mult_le_mono1)
  moreover have "diffEmptyBits bb ab runs t = foldl (diffStep (\<lambda>bi ai. emptyBit bb bi \<noteq> emptyBit ab ai)) t ?P" for t
    by (auto simp: diffEmptyBits_def emptyStep_diffStep emptyBit_def intro!: foldl_diffStep_none [symmetric])
  moreover have "foldl (diffStep (\<lambda>bi ai. emptyBit bb bi \<noteq> emptyBit ab ai)) (foldl (diffStep ?D) ?t0 ?P) ?P =
      map (entryOf before after) [0..<vNodeCount after]"
    using scanned_entry [OF assms _ bits] by (intro nth_equalityI) simp_all
  ultimately show ?thesis
    by (simp add: hashPhase_def ok(3) mapErr_def bits)
qed

section \<open>The reference side\<close>

definition requestOf :: "readerView \<Rightarrow> readerView \<Rightarrow> DiffOptions \<Rightarrow> Request" where
  "requestOf before after opts = \<lparr> rq_Before = SemanticGraph before (do_SeedAttrs opts),
     rq_After = SemanticGraph after (do_SeedAttrs opts), rq_MaxDistance = do_MaxDistance opts \<rparr>"

text \<open>The entry of the reference result that a changed node stands for.\<close>

definition entryTarget :: "readerView \<Rightarrow> string set option \<Rightarrow> int \<Rightarrow> Target option" where
  "entryTarget r sa i = (if 0 \<le> i then Some (materializeTarget r (nat i) sa) else None)"

definition toDiff :: "readerView \<Rightarrow> readerView \<Rightarrow> string set option \<Rightarrow> changedNode \<Rightarrow> string \<times> DiffTarget" where
  "toDiff before after sa e =
    (if 0 \<le> cn_afterIndex e then vLabel after (nat (cn_afterIndex e)) else vLabel before (nat (cn_beforeIndex e)),
     \<lparr> cd_ChangeType = changeTypeOf (cn_kind e), cd_Before = entryTarget before sa (cn_beforeIndex e),
       cd_After = entryTarget after sa (cn_afterIndex e), cd_Distance = 0 \<rparr>)"

lemma label_equal_iff:
  assumes "view_ok v" "view_ok w" "i < vNodeCount v" "j < vNodeCount w"
  shows "vLabel v i = vLabel w j \<longleftrightarrow> vSplitLabel v i = vSplitLabel w j"
proof -
  have "splitLabel (vLabel v i) = vSplitLabel v i" "vLabel v i = joinLabel (fst (vSplitLabel v i)) (snd (vSplitLabel v i))"
      "splitLabel (vLabel w j) = vSplitLabel w j" "vLabel w j = joinLabel (fst (vSplitLabel w j)) (snd (vSplitLabel w j))"
    using assms unfolding view_ok_def by blast+
  then show ?thesis
    by metis
qed

lemma comparable_labels:
  assumes "comparable before after"
  shows "inj_on (vLabel before) {..<vNodeCount before}" "inj_on (vLabel after) {..<vNodeCount after}"
proof -
  have ok: "view_ok before" "view_ok after" "ascending (vSplitLabel before) 0 (vNodeCount before)" "ascending (vSplitLabel after) 0 (vNodeCount after)"
    using assms by (auto simp: comparable_def view_aligned_def)
  show "inj_on (vLabel before) {..<vNodeCount before}"
    using label_equal_iff [OF ok(1,1)] ascending_eq [OF ok(3)] by (auto simp: inj_on_def)
  show "inj_on (vLabel after) {..<vNodeCount after}"
    using label_equal_iff [OF ok(2,2)] ascending_eq [OF ok(4)] by (auto simp: inj_on_def)
qed

lemma putAll_distinct: "distinct (map fst kvs) \<Longrightarrow> putAll [] kvs = kvs"
  using foldl_update_distinct [of "[]" kvs] by (simp add: putAll_def case_prod_beta')

lemma materializeTarget_simps [simp]:
  "dt_Name (materializeTarget v i sa) = vLabel v i" "dt_Hash (materializeTarget v i sa) = vHash v i"
  "dt_RuleType (materializeTarget v i sa) = vRuleType v i"
  "dt_Dependencies (materializeTarget v i sa) = map (\<lambda>d. vLabel v (nat (sint d))) (vDeps v i)"
  by (simp_all add: materializeTarget_def)

lemma SemanticGraph_eq:
  assumes "inj_on (vLabel v) {..<vNodeCount v}"
  shows "SemanticGraph v sa = map (\<lambda>i. (vLabel v i, materializeTarget v i sa)) [0..<vNodeCount v]"
proof -
  let ?kvs = "map (\<lambda>i. (vLabel v i, materializeTarget v i sa)) [0..<vNodeCount v]"
  have "distinct (map fst ?kvs)"
    using assms by (simp add: comp_def distinct_map atLeast0LessThan)
  then show ?thesis
    using putAll_distinct [of ?kvs] by (simp add: SemanticGraph_def Let_def)
qed

lemma map_of_labels:
  assumes "inj_on (vLabel v) {..<vNodeCount v}" "i < vNodeCount v"
  shows "map_of (map (\<lambda>i. (vLabel v i, f i)) [0..<vNodeCount v]) (vLabel v i) = Some (f i)"
  using assms by (intro map_of_is_SomeI) (auto simp: comp_def distinct_map atLeast0LessThan)

lemma map_of_partner:
  assumes "comparable before after" "j < vNodeCount after"
  shows "map_of (SemanticGraph before sa) (vLabel after j) = map_option (\<lambda>i. materializeTarget before i sa) (partner before after j)"
proof -
  have ok: "view_ok before" "view_ok after" and inj: "inj_on (vLabel before) {..<vNodeCount before}"
    using assms(1) comparable_labels by (auto simp: comparable_def)
  show ?thesis
  proof (cases "partner before after j")
    case None
    then have "vLabel before i \<noteq> vLabel after j" if "i < vNodeCount before" for i
      using that label_equal_iff [OF ok that assms(2)] partner_None [of before after j] by auto
    then have "vLabel after j \<notin> vLabel before ` {0..<vNodeCount before}"
      by force
    then show ?thesis
      unfolding SemanticGraph_eq [OF inj] None by (simp add: map_of_eq_None_iff image_image)
  next
    case (Some i)
    then have i: "i < vNodeCount before" "vLabel before i = vLabel after j"
      using partner_Some [OF assms] label_equal_iff [OF ok _ assms(2)] by auto
    then show ?thesis
      using map_of_labels [OF inj i(1), of "\<lambda>i. materializeTarget before i sa"] Some SemanticGraph_eq [OF inj] by simp
  qed
qed

lemma map_filter_map: "List.map_filter f (map g xs) = List.map_filter (\<lambda>x. f (g x)) xs"
  by (induction xs) (auto simp: map_filter_simps split: option.splits)

lemma map_filter_option: "List.map_filter (\<lambda>x. map_option h (f x)) xs = map h (map the (filter (\<lambda>e. e \<noteq> None) (map f xs)))"
  by (induction xs) (auto simp: map_filter_simps split: option.splits)

lemma map_filter_if: "List.map_filter (\<lambda>x. if P x then Some (h x) else None) xs = map h (filter P xs)"
  by (induction xs) (auto simp: map_filter_simps)

lemma map_filter_cong: "(\<And>x. x \<in> set xs \<Longrightarrow> f x = g x) \<Longrightarrow> List.map_filter f xs = List.map_filter g xs"
  by (induction xs) (auto simp: map_filter_simps split: option.splits)

lemma classify_entryOf:
  assumes "comparable before after" "j < vNodeCount after"
  shows "classifyAfter (SemanticGraph before sa) (vLabel after j, materializeTarget after j sa) =
    map_option (toDiff before after sa) (entryOf before after j)"
  using map_of_partner [OF assms, of sa]
  by (auto simp: classifyAfter_def entryOf_def toDiff_def insertedNode_def changedAt_def changeTypeOf_def entryTarget_def
      split: option.splits)

lemma changedAfter_entries:
  assumes "comparable before after"
  shows "changedAfter (requestOf before after opts) = map (toDiff before after (do_SeedAttrs opts))
    (map the (filter (\<lambda>e. e \<noteq> None) (map (entryOf before after) [0..<vNodeCount after])))"
proof -
  have "List.map_filter (\<lambda>j. classifyAfter (SemanticGraph before sa) (vLabel after j, materializeTarget after j sa)) [0..<vNodeCount after] =
      List.map_filter (\<lambda>j. map_option (toDiff before after sa) (entryOf before after j)) [0..<vNodeCount after]" for sa
    using classify_entryOf [OF assms, of _ sa] by (intro map_filter_cong) simp
  then show ?thesis
    using SemanticGraph_eq [OF comparable_labels(2) [OF assms]]
    by (simp add: changedAfter_def requestOf_def map_filter_map map_filter_option)
qed

lemma changedAll_entries:
  assumes "comparable before after" "align before after = (runs, deleted, inserted)"
  shows "changedAll (requestOf before after opts) = map (toDiff before after (do_SeedAttrs opts))
    (map the (filter (\<lambda>e. e \<noteq> None) (map (entryOf before after) [0..<vNodeCount after])) @ map deletedNode deleted)"
proof -
  let ?sa = "do_SeedAttrs opts"
  have ok: "view_ok before" "view_ok after" "view_aligned before after"
    using assms(1) by (auto simp: comparable_def)
  have inj: "inj_on (vLabel before) {..<vNodeCount before}" "inj_on (vLabel after) {..<vNodeCount after}"
    using comparable_labels [OF assms(1)] by auto
  have "classifyBefore (SemanticGraph after ?sa) (vLabel before i, materializeTarget before i ?sa) =
      (if \<forall>j < vNodeCount after. vSplitLabel before i \<noteq> vSplitLabel after j then Some (toDiff before after ?sa (deletedNode i)) else None)"
    if "i < vNodeCount before" for i
  proof -
    have "map_of (SemanticGraph after ?sa) (vLabel before i) = None \<longleftrightarrow> (\<forall>j < vNodeCount after. vSplitLabel before i \<noteq> vSplitLabel after j)"
      unfolding SemanticGraph_eq [OF inj(2)] map_of_eq_None_iff set_map image_image fst_conv
      using label_equal_iff [OF ok(1,2) that] by (auto simp: image_iff)
    then show ?thesis
      by (auto simp: classifyBefore_def toDiff_def deletedNode_def changeTypeOf_def entryTarget_def)
  qed
  then have "List.map_filter (\<lambda>i. classifyBefore (SemanticGraph after ?sa) (vLabel before i, materializeTarget before i ?sa)) [0..<vNodeCount before] =
      List.map_filter (\<lambda>i. if \<forall>j < vNodeCount after. vSplitLabel before i \<noteq> vSplitLabel after j
        then Some (toDiff before after ?sa (deletedNode i)) else None) [0..<vNodeCount before]"
    by (intro map_filter_cong) simp
  then show ?thesis
    using changedAfter_entries [OF assms(1), of opts] align_result(3) [OF ok(3) assms(2)] SemanticGraph_eq [OF inj(1)]
    by (simp add: changedAll_def requestOf_def map_filter_map map_filter_if comp_def)
qed

section \<open>Seeds agree\<close>

lemma mem_somes: "y \<in> set (map the (filter (\<lambda>e. e \<noteq> None) (map f xs))) \<longleftrightarrow> (\<exists>x \<in> set xs. f x = Some y)"
  by (induction xs) auto

lemma toDiff_entryOf:
  "entryOf before after j = Some e \<Longrightarrow> fst (toDiff before after sa e) = vLabel after j \<and>
    cd_ChangeType (snd (toDiff before after sa e)) = changeTypeOf (cn_kind e)"
  by (auto simp: entryOf_def toDiff_def insertedNode_def changedAt_def split: option.splits if_splits)

lemma map_of_changedAfter:
  assumes "comparable before after" "k < vNodeCount after"
  shows "map_of (changedAfter (requestOf before after opts)) (vLabel after k) =
    map_option (\<lambda>e. snd (toDiff before after (do_SeedAttrs opts) e)) (entryOf before after k)"
proof -
  let ?C = "changedAfter (requestOf before after opts)" and ?sa = "do_SeedAttrs opts"
  have inj: "inj_on (vLabel after) {..<vNodeCount after}"
    using comparable_labels(2) [OF assms(1)] .
  define es where "es = map the (filter (\<lambda>e. e \<noteq> None) (map (entryOf before after) [0..<vNodeCount after]))"
  have es: "e \<in> set es \<longleftrightarrow> (\<exists>j < vNodeCount after. entryOf before after j = Some e)" for e
    unfolding es_def mem_somes by (simp add: Bex_def)
  have "?C = map (toDiff before after ?sa) es"
    unfolding es_def by (rule changedAfter_entries [OF assms(1)])
  then have "(l, c) \<in> set ?C \<longleftrightarrow> (\<exists>e \<in> set es. (l, c) = toDiff before after ?sa e)" for l c
    by (simp add: image_iff)
  then have mem: "(l, c) \<in> set ?C \<longleftrightarrow> (\<exists>j e. j < vNodeCount after \<and> entryOf before after j = Some e \<and> (l, c) = toDiff before after ?sa e)" for l c
    by (simp only: Bex_def es) (rule iffI; elim exE conjE; intro exI conjI; assumption)
  have key: "c = snd (toDiff before after ?sa e)" if c: "(vLabel after k, c) \<in> set ?C" and e: "entryOf before after k = Some e" for c e
  proof -
    obtain j e' where j: "j < vNodeCount after" "entryOf before after j = Some e'" "(vLabel after k, c) = toDiff before after ?sa e'"
      using iffD1 [OF mem c] by blast
    then have "vLabel after j = vLabel after k"
      using toDiff_entryOf [OF j(2), of ?sa] by (metis fst_conv)
    then have "j = k"
      using inj j(1) assms(2) by (auto simp: inj_on_def)
    then show ?thesis
      using j(2,3) e by (metis option.inject snd_conv)
  qed
  show ?thesis
  proof (cases "entryOf before after k")
    case None
    have "vLabel after k \<notin> fst ` set ?C"
    proof
      assume "vLabel after k \<in> fst ` set ?C"
      then obtain c where c: "(vLabel after k, c) \<in> set ?C"
        by force
      obtain j e where j: "j < vNodeCount after" "entryOf before after j = Some e" "(vLabel after k, c) = toDiff before after ?sa e"
        using iffD1 [OF mem c] by blast
      then have "j = k"
        using toDiff_entryOf [OF j(2), of ?sa] inj assms(2) by (metis fst_conv inj_onD lessThan_iff)
      then show False
        using j(2) None by simp
    qed
    then show ?thesis
      using None by (simp add: map_of_eq_None_iff)
  next
    case (Some e)
    then have "(vLabel after k, snd (toDiff before after ?sa e)) \<in> set ?C"
      using mem [of "vLabel after k"] assms(2) toDiff_entryOf [OF Some, of ?sa] by (metis prod.collapse)
    then obtain c where "map_of ?C (vLabel after k) = Some c"
      using weak_map_of_SomeI by fast
    then show ?thesis
      using key [OF map_of_SomeD Some] Some by simp
  qed
qed

lemma foldl_put_nth:
  assumes "distinct (map fst ps)" "i < length t"
  shows "foldl (\<lambda>t p. t[fst p := int (snd p)]) t ps ! i = (case map_of ps i of Some j \<Rightarrow> int j | None \<Rightarrow> t ! i) \<and>
    length (foldl (\<lambda>t p. t[fst p := int (snd p)]) t ps) = length t"
  using assms
proof (induction ps arbitrary: t)
  case (Cons p ps)
  then have "map_of ps (fst p) = None"
    by (simp add: map_of_eq_None_iff)
  then show ?case
    using Cons.IH [of "t[fst p := int (snd p)]"] Cons.prems by (cases p) (auto simp: nth_list_update split: option.splits)
qed simp

lemma projectDep_result:
  assumes "comparable before after" "align before after = (runs, deleted, inserted)"
    and "0 \<le> sint d" "nat (sint d) < vNodeCount before" "0 \<le> sint x" "nat (sint x) < vNodeCount after"
  shows "projectDep (mapBeforeToAfter (vNodeCount before) runs) d = sint x \<longleftrightarrow> vLabel before (nat (sint d)) = vLabel after (nat (sint x))"
proof -
  let ?P = "concat (map runPairs runs)" and ?bN = "vNodeCount before" and ?i = "nat (sint d)" and ?j = "nat (sint x)"
  have ok: "view_ok before" "view_ok after" "view_aligned before after" "ascending (vSplitLabel after) 0 (vNodeCount after)"
    using assms(1) by (auto simp: comparable_def view_aligned_def)
  note A = align_result [OF ok(3) assms(2)]
  have dist: "distinct (map fst ?P)"
    using A(2) strict_sorted_iff by blast
  have p: "projectDep (mapBeforeToAfter ?bN runs) d = (case map_of ?P ?i of Some j \<Rightarrow> int j | None \<Rightarrow> - 1)"
  proof -
    have "sint d < int ?bN"
      using assms(3,4) by linarith
    then show ?thesis
      using foldl_put_nth [OF dist, of ?i "replicate ?bN (- 1)"] assms(4)
      by (simp add: projectDep_def mapBeforeToAfter_def split: option.splits)
  qed
  have m: "map_of ?P ?i = Some j \<longleftrightarrow> j < vNodeCount after \<and> vSplitLabel before ?i = vSplitLabel after j" for j
    unfolding map_of_eq_Some_iff [OF dist] A(1) using assms(4) by simp
  have "projectDep (mapBeforeToAfter ?bN runs) d = sint x \<longleftrightarrow> map_of ?P ?i = Some ?j"
    unfolding p using assms(5) by (auto split: option.splits)
  then show ?thesis
    unfolding m using label_equal_iff [OF ok(1,2) assms(4,6)] assms(6) by simp
qed


lemma view_sourceFile:
  assumes "view_ok v" "vRuleTypeIDs v = Inr ids" "i < vNodeCount v"
  shows "isSourceFile ids (vRuleTypeDictID v sourceFileRuleType) (int i) \<longleftrightarrow> vRuleType v i = sourceFileRuleType" "i < length ids"
proof -
  obtain bits ids' where v: "vRuleTypeIDs v = Inr ids'" "length ids' = vNodeCount v"
      "\<And>i. i < vNodeCount v \<Longrightarrow> (ids' ! i = vRuleTypeDictID v sourceFileRuleType \<and> 0 \<le> sint (vRuleTypeDictID v sourceFileRuleType) \<longleftrightarrow>
             vRuleType v i = sourceFileRuleType)"
    using assms(1) unfolding view_ok_def by blast
  then show "isSourceFile ids (vRuleTypeDictID v sourceFileRuleType) (int i) \<longleftrightarrow> vRuleType v i = sourceFileRuleType" "i < length ids"
    using assms(2,3) v(3) [of i] by (auto simp: isSourceFile_def)
qed

lemma deps_in_range:
  assumes "view_ok v" "i < vNodeCount v" "d \<in> set (vDeps v i)"
  shows "0 \<le> sint d" "nat (sint d) < vNodeCount v"
  using assms by (auto simp: view_ok_def csr_ok_def)

lemma dep_status_agrees:
  assumes "comparable before after" "align before after = (runs, deleted, inserted)" "i < vNodeCount before" "j < vNodeCount after"
  shows "changedDependencyStatus (materializeTarget before i (do_SeedAttrs opts)) (materializeTarget after j (do_SeedAttrs opts))
      (changedAfter (requestOf before after opts)) =
    changedDepStatusIdx (map (projectDep (mapBeforeToAfter (vNodeCount before) runs)) (vDeps before i)) (map sint (vDeps after j))
      (map (entryOf before after) [0..<vNodeCount after])"
proof -
  let ?T = "map (entryOf before after) [0..<vNodeCount after]" and ?C = "changedAfter (requestOf before after opts)"
  let ?p = "projectDep (mapBeforeToAfter (vNodeCount before) runs)"
  have ok: "view_ok before" "view_ok after"
    using assms(1) by (auto simp: comparable_def)
  note A = deps_in_range [OF ok(2) assms(4)] and B = deps_in_range [OF ok(1) assms(3)]
  have any: "(case map_of ?C (vLabel after (nat (sint d))) of Some c \<Rightarrow> cd_ChangeType c = DiffTypeChanged | None \<Rightarrow> False) =
      (case entryAt ?T (sint d) of Some e \<Rightarrow> cn_kind e = changeKindChanged | None \<Rightarrow> False)" if "d \<in> set (vDeps after j)" for d
    using map_of_changedAfter [OF assms(1) A(2) [OF that], of opts] toDiff_entryOf [of before after "nat (sint d)"] A [OF that]
    by (auto simp: entryAt_def changeTypeOf_def split: option.splits changeKind.splits)
  have sub: "vLabel before (nat (sint d)) \<in> set (map (\<lambda>x. vLabel after (nat (sint x))) (vDeps after j)) \<longleftrightarrow>
      \<not> (?p d < 0 \<or> ?p d \<notin> set (map sint (vDeps after j)))" if d: "d \<in> set (vDeps before i)" for d
  proof -
    have e: "?p d = sint x \<longleftrightarrow> vLabel before (nat (sint d)) = vLabel after (nat (sint x))" "0 \<le> sint x" if "x \<in> set (vDeps after j)" for x
      using projectDep_result [OF assms(1,2) B [OF d] A [OF that]] A(1) [OF that] by auto
    have "vLabel before (nat (sint d)) \<in> set (map (\<lambda>x. vLabel after (nat (sint x))) (vDeps after j)) \<longleftrightarrow> ?p d \<in> set (map sint (vDeps after j))"
      unfolding set_map image_iff using e(1) by (metis (no_types, lifting))
    moreover have "0 \<le> ?p d" if "?p d \<in> set (map sint (vDeps after j))"
      using that e(2) by auto
    ultimately show ?thesis
      by linarith
  qed
  have "list_ex (\<lambda>dep. case map_of ?C dep of Some c \<Rightarrow> cd_ChangeType c = DiffTypeChanged | None \<Rightarrow> False) (map (\<lambda>d. vLabel after (nat (sint d))) (vDeps after j)) =
      list_ex (\<lambda>di. case entryAt ?T di of Some e \<Rightarrow> cn_kind e = changeKindChanged | None \<Rightarrow> False) (map sint (vDeps after j))"
    by (simp only: list_ex_iff set_map bex_simps any cong: bex_cong)
  moreover have "list_ex (\<lambda>dep. dep \<notin> set (map (\<lambda>d. vLabel after (nat (sint d))) (vDeps after j))) (map (\<lambda>d. vLabel before (nat (sint d))) (vDeps before i)) =
      list_ex (\<lambda>di. di < 0 \<or> di \<notin> set (map sint (vDeps after j))) (map ?p (vDeps before i))"
    by (simp only: list_ex_iff set_map [of _ "vDeps before i"] bex_simps sub not_not cong: bex_cong)
  ultimately show ?thesis
    by (simp add: changedDependencyStatus_def changedDepStatusIdx_def Let_def)
qed


lemma srcFile_dep_agrees:
  assumes "comparable before after" "j < vNodeCount after" "vRuleTypeIDs after = Inr ids"
  shows "hasChangedSourceFileDependency (materializeTarget after j (do_SeedAttrs opts)) (changedAfter (requestOf before after opts))
      (SemanticGraph after (do_SeedAttrs opts)) =
    hasChangedSrcFileDepIdx (map sint (vDeps after j)) (map (entryOf before after) [0..<vNodeCount after]) ids
      (vRuleTypeDictID after sourceFileRuleType)"
proof -
  let ?T = "map (entryOf before after) [0..<vNodeCount after]" and ?C = "changedAfter (requestOf before after opts)"
  let ?src = "vRuleTypeDictID after sourceFileRuleType" and ?sa = "do_SeedAttrs opts"
  have ok: "view_ok after" and inj: "inj_on (vLabel after) {..<vNodeCount after}"
    using assms(1) comparable_labels by (auto simp: comparable_def)
  note A = deps_in_range [OF ok assms(2)]
  have dep: "(map_of ?C (vLabel after (nat (sint d))) \<noteq> None \<and>
      (case map_of (SemanticGraph after ?sa) (vLabel after (nat (sint d))) of Some t \<Rightarrow> dt_RuleType t = sourceFileRuleType | None \<Rightarrow> False)) \<longleftrightarrow>
      \<not> sint ?src < 0 \<and> entryAt ?T (sint d) \<noteq> None \<and> nat (sint d) < length ids \<and> ids ! nat (sint d) = ?src"
    if "d \<in> set (vDeps after j)" for d
    using map_of_changedAfter [OF assms(1) A(2) [OF that], of opts] A [OF that] view_sourceFile [OF ok assms(3) A(2) [OF that]]
      map_of_labels [OF inj A(2) [OF that], of "\<lambda>i. materializeTarget after i ?sa"] SemanticGraph_eq [OF inj, of ?sa]
    by (auto simp: entryAt_def isSourceFile_def)
  show ?thesis
    using dep by (auto simp: hasChangedSourceFileDependency_def hasChangedSrcFileDepIdx_def list_ex_iff)
qed

lemma attrs_agree:
  "attributesChanged (dt_Attributes (materializeTarget before i sa)) (dt_Attributes (materializeTarget after j sa)) =
    attrsChanged (decodeAttrs before i sa) (decodeAttrs after j sa)"
  by (cases sa) (simp_all add: attributesChanged_def attrsChanged_def decodeAttrs_def materializeTarget_def case_prod_beta)

text \<open>The nodes that the comparison classifies, and that both sides agree which of them are seeds.\<close>

definition changedNodes :: "readerView \<Rightarrow> readerView \<Rightarrow> changedNode list" where
  "changedNodes before after = map the (filter (\<lambda>e. e \<noteq> None) (map (entryOf before after) [0..<vNodeCount after]))"

lemma mem_changedNodes: "e \<in> set (changedNodes before after) \<longleftrightarrow> (\<exists>j < vNodeCount after. entryOf before after j = Some e)"
  unfolding changedNodes_def mem_somes by (simp add: Bex_def)

lemma seeds_agree:
  assumes "comparable before after" "align before after = (runs, deleted, inserted)" "vRuleTypeIDs after = Inr ids"
    and "e \<in> set (changedNodes before after @ map deletedNode deleted)"
  shows "isSeed (requestOf before after opts) (toDiff before after (do_SeedAttrs opts) e) =
    isSeedNode before after opts ids (vRuleTypeDictID after sourceFileRuleType) (mapBeforeToAfter (vNodeCount before) runs)
      (map (entryOf before after) [0..<vNodeCount after]) e"
proof -
  consider i where "e = deletedNode i" | j where "e = insertedNode j"
    | i j where "j < vNodeCount after" "partner before after j = Some i" "e = changedAt i j"
    using assms(4) by (auto simp: mem_changedNodes entryOf_def split: option.splits if_splits)
  then show ?thesis
  proof cases
    case 3
    then have i: "i < vNodeCount before"
      using partner_Some [OF assms(1)] by blast
    have ok: "view_ok after"
      using assms(1) by (simp add: comparable_def)
    show ?thesis
      using 3(3) dep_status_agrees [OF assms(1,2) i 3(1), of opts] srcFile_dep_agrees [OF assms(1) 3(1) assms(3), of opts]
        attrs_agree [of before i "do_SeedAttrs opts" after j] view_sourceFile(1) [OF ok assms(3) 3(1)]
      by (auto simp: isSeed_def isSeedAfter_def isSeedChanged_def isSeedNode_def toDiff_def changedAt_def entryTarget_def changeTypeOf_def
          requestOf_def Let_def split: prod.splits)
  qed (auto simp: isSeed_def isSeedAfter_def isSeedNode_def toDiff_def deletedNode_def insertedNode_def changeTypeOf_def)
qed

end
