(* ===== verification/TgbDiffPaths.thy ===== *)
theory TgbDiffPaths
  imports TgbDiffNodes
begin

text \<open>
  Distances of the two comparisons. One searches node indices through the whole later graph, the
  other labels through the changed targets only; when hashes propagate changes to dependents, both
  find the same shortest paths, and the materialized results coincide.
\<close>

section \<open>Distances agree\<close>

text \<open>
  Hashes cover the dependencies: whatever depends on a new or changed target is new or changed itself.
\<close>

definition propagates :: "readerView \<Rightarrow> readerView \<Rightarrow> bool" where
  "propagates before after \<longleftrightarrow> (\<forall>j < vNodeCount after. \<forall>d \<in> set (vDeps after j).
     entryOf before after (nat (sint d)) \<noteq> None \<longrightarrow> entryOf before after j \<noteq> None)"

lemma set_rowOf_depEdges: "set (rowOf (depEdges v) d) = {j. j < vNodeCount v \<and> (\<exists>x \<in> set (vDeps v j). nat (sint x) = d)}"
  by (force simp: rowOf_def depEdges_def)

text \<open>Searching node indices through the whole graph or labels within the changed targets.\<close>

definition searches :: "readerView \<Rightarrow> readerView \<Rightarrow> (nat \<Rightarrow> nat list) \<Rightarrow> string list \<Rightarrow> nat set \<Rightarrow> string set \<Rightarrow> string set \<Rightarrow> bool" where
  "searches before after rows names Q S D \<longleftrightarrow> comparable before after \<and> propagates before after \<and>
     (\<forall>d < vNodeCount after. rows d = rowOf (depEdges after) d) \<and>
     set names = vLabel after ` {j. j < vNodeCount after \<and> entryOf before after j \<noteq> None} \<union> D \<and>
     Q \<subseteq> {j. j < vNodeCount after \<and> entryOf before after j \<noteq> None} \<and> S = vLabel after ` Q \<union> D \<and>
     (\<forall>j < vNodeCount after. vLabel after j \<notin> D)"

lemma searchesD:
  assumes "searches before after rows names Q S D"
  shows "view_ok after" "inj_on (vLabel after) {..<vNodeCount after}" "propagates before after"
    "\<And>d. d < vNodeCount after \<Longrightarrow> rows d = rowOf (depEdges after) d"
    "set names = vLabel after ` {j. j < vNodeCount after \<and> entryOf before after j \<noteq> None} \<union> D"
    "Q \<subseteq> {j. j < vNodeCount after \<and> entryOf before after j \<noteq> None}" "S = vLabel after ` Q \<union> D"
    "\<And>j. j < vNodeCount after \<Longrightarrow> vLabel after j \<notin> D" "\<And>j. j < vNodeCount after \<Longrightarrow> vLabel after j \<noteq> []"
    "\<And>i j. i < vNodeCount after \<Longrightarrow> j < vNodeCount after \<Longrightarrow> vLabel after i = vLabel after j \<Longrightarrow> i = j"
proof -
  have c: "comparable before after"
    using assms by (simp add: searches_def)
  then show "view_ok after" "inj_on (vLabel after) {..<vNodeCount after}"
    using comparable_labels by (auto simp: comparable_def)
  then show "\<And>j. j < vNodeCount after \<Longrightarrow> vLabel after j \<noteq> []"
    "\<And>i j. i < vNodeCount after \<Longrightarrow> j < vNodeCount after \<Longrightarrow> vLabel after i = vLabel after j \<Longrightarrow> i = j"
    by (auto simp: view_ok_def inj_on_def)
qed (use assms in \<open>auto simp: searches_def\<close>)

lemma reverse_labels:
  assumes "inj_on (vLabel after) {..<vNodeCount after}" "l \<noteq> []"
  shows "set (reverseDependencies (SemanticGraph after sa) l) =
    {vLabel after j | j. j < vNodeCount after \<and> (\<exists>x \<in> set (vDeps after j). vLabel after (nat (sint x)) = l)}"
  unfolding set_reverseDependencies [OF assms(2)] SemanticGraph_eq [OF assms(1)] by (auto 0 3)

lemma reverse_row:
  assumes S: "searches before after rows names Q S D" and d: "d < vNodeCount after" "j < vNodeCount after"
  shows "vLabel after j \<in> set (reverseDependencies (SemanticGraph after sa) (vLabel after d)) \<longleftrightarrow> j \<in> set (rows d)"
proof -
  note D = searchesD [OF S]
  have "(\<exists>x \<in> set (vDeps after j). vLabel after (nat (sint x)) = vLabel after d) \<longleftrightarrow> (\<exists>x \<in> set (vDeps after j). nat (sint x) = d)"
    using deps_in_range(2) [OF D(1) d(2)] D(10) d(1) by metis
  then show ?thesis
    unfolding reverse_labels [OF D(2) D(9) [OF d(1)]] D(4) [OF d(1)] set_rowOf_depEdges using D(10) d(2) by auto
qed

lemma index_to_label:
  assumes S: "searches before after rows names Q S D"
  shows "reach rows [0..<vNodeCount after] Q n j \<Longrightarrow> j < vNodeCount after \<and> entryOf before after j \<noteq> None \<and>
    reach (reverseDependencies (SemanticGraph after sa)) names S n (vLabel after j)"
proof (induction n arbitrary: j)
  case 0
  then show ?case
    using searchesD(6,7) [OF S] by (auto simp: reach_def)
next
  case (Suc n)
  then obtain i where i: "reach rows [0..<vNodeCount after] Q n i" "j \<in> set (rows i)" "j < vNodeCount after"
    by (auto simp: reach_def edges_def elim!: relpow_Suc_E)
  note I = Suc.IH [OF i(1)]
  have "entryOf before after j \<noteq> None"
    using searchesD(3) [OF S] i(2,3) I searchesD(4) [OF S, of i] by (auto simp: propagates_def set_rowOf_depEdges)
  moreover from this have "(vLabel after i, vLabel after j) \<in> edges (reverseDependencies (SemanticGraph after sa)) names"
    using reverse_row [OF S, of i j] i(2,3) I searchesD(5) [OF S] by (auto simp: edges_def)
  ultimately show ?case
    using I i(3) unfolding reach_def by (meson relpow_Suc_I)
qed

lemma label_to_index:
  assumes S: "searches before after rows names Q S D"
  shows "reach (reverseDependencies (SemanticGraph after sa)) names S n l \<Longrightarrow>
    (\<exists>j < vNodeCount after. l = vLabel after j \<and> reach rows [0..<vNodeCount after] Q n j) \<or> l \<in> D"
proof (induction n arbitrary: l)
  case 0
  then show ?case
    using searchesD(6,7) [OF S] by (auto simp: reach_def)
next
  case (Suc n)
  note D = searchesD [OF S]
  obtain k where k: "reach (reverseDependencies (SemanticGraph after sa)) names S n k" "l \<in> set (reverseDependencies (SemanticGraph after sa) k)"
    using Suc.prems by (auto simp: reach_def edges_def elim!: relpow_Suc_E)
  have "k \<noteq> []"
    using k(2) by (auto simp: reverseDependencies_def)
  then obtain j x where j: "l = vLabel after j" "j < vNodeCount after" "x \<in> set (vDeps after j)" "vLabel after (nat (sint x)) = k"
    using k(2) reverse_labels [OF D(2)] by blast
  have x: "nat (sint x) < vNodeCount after"
    using deps_in_range(2) [OF D(1) j(2,3)] .
  then obtain i where i: "i < vNodeCount after" "k = vLabel after i" "reach rows [0..<vNodeCount after] Q n i"
    using Suc.IH [OF k(1)] D(8) [OF x] j(4) by auto
  have "j \<in> set (rows i)"
    using reverse_row [OF S i(1) j(2)] k(2) i(2) j(1) by simp
  then have "reach rows [0..<vNodeCount after] Q (Suc n) j"
    using i(3) j(2) unfolding reach_def by (force simp: edges_def intro: relpow_Suc_I)
  then show ?case
    using j(1,2) by blast
qed

lemma shortest_agrees:
  assumes S: "searches before after rows names Q S D" and j: "j < vNodeCount after"
  shows "shortest (reverseDependencies (SemanticGraph after sa)) names m S (vLabel after j) = shortest rows [0..<vNodeCount after] m Q j"
proof -
  note D = searchesD [OF S]
  have r: "reach (reverseDependencies (SemanticGraph after sa)) names S n (vLabel after j) = reach rows [0..<vNodeCount after] Q n j" for n
    using label_to_index [OF S, of sa n "vLabel after j"] index_to_label [OF S, of n j sa] D(8,10) j by blast
  have "vLabel after j \<in> S \<longleftrightarrow> j \<in> Q"
    using r [of 0] by (auto simp: reach_def)
  then show ?thesis
    unfolding shortest_def r by (simp only:)
qed

section \<open>The comparisons agree\<close>

interpretation indexSearch: bfs_graph "csrRow csr" "[0..<n]" maxDistance queue
  for csr n maxDistance queue .

lemma mapErr_Inr [simp]: "mapErr f (Inr x) = Inr x"
  by (simp add: mapErr_def)

lemma set_seedQueue: "set (seedQueue visited ais) = nat ` {ai \<in> set ais. 0 \<le> ai} - visited"
  by (induction visited ais rule: seedQueue.induct) auto

text \<open>The result of the index-based comparison in terms of the changed nodes and shortest paths.\<close>

lemma compareInternal_result:
  assumes "comparable before after" "never_cancelled ctx" "align before after = (runs, deleted, inserted)" "vRuleTypeIDs after = Inr ids"
    and "seed = isSeedNode before after opts ids (vRuleTypeDictID after sourceFileRuleType) (mapBeforeToAfter (vNodeCount before) runs)
      (map (entryOf before after) [0..<vNodeCount after])"
  shows "\<exists>rows. (\<forall>d < vNodeCount after. rows d = rowOf (depEdges after) d) \<and>
    tgbCompare ctx before after opts = Inr (sort_key cl_Label (map (resultOf before after seed
      (shortest rows [0..<vNodeCount after] (do_MaxDistance opts)
        (nat ` {cn_afterIndex e | e. e \<in> set (changedNodes before after) \<and> seed e})))
      (map deletedNode deleted @ changedNodes before after)))"
proof -
  let ?n = "vNodeCount after"
  have "csr_ok after"
    using assms(1) by (simp add: comparable_def view_ok_def)
  then obtain csr where csr: "buildReverseCSR after ?n = Inr csr" "\<forall>d < ?n. csrRow csr d = rowOf (depEdges after) d"
    using buildReverseCSR_rows by blast
  let ?L = "map deletedNode deleted @ changedNodes before after"
  let ?q = "seedQueue {} (map cn_afterIndex (filter seed ?L))"
  have "e \<in> set (changedNodes before after) \<Longrightarrow> 0 \<le> cn_afterIndex e" for e
    by (auto simp: mem_changedNodes entryOf_def insertedNode_def changedAt_def split: option.splits if_splits)
  then have "{ai \<in> set (map cn_afterIndex (filter seed ?L)). 0 \<le> ai} = {cn_afterIndex e | e. e \<in> set (changedNodes before after) \<and> seed e}"
    by (auto simp: deletedNode_def)
  then have q: "set ?q = nat ` {cn_afterIndex e | e. e \<in> set (changedNodes before after) \<and> seed e}"
    by (simp add: set_seedQueue)
  obtain dist where d: "bfs ctx 4 (csrRow csr) [0..<?n] (do_MaxDistance opts) 0 ?q (set ?q) (\<lambda>i. if i \<in> set ?q then 0 else - 1) = Inr dist"
    using bfs_returns [OF assms(2)] by blast
  have "dist = shortest (csrRow csr) [0..<?n] (do_MaxDistance opts) (set ?q)"
    using indexSearch.bfs_correct [OF d refl] by (rule ext)
  then have "tgbCompare ctx before after opts = Inr (sort_key cl_Label (map (resultOf before after seed
      (shortest (csrRow csr) [0..<?n] (do_MaxDistance opts) (set ?q))) ?L))"
    unfolding tgbCompare_def compareInternal_def
    by (simp only: checkCtx_never [OF assms(2)] mapErr_Inr bindE_simps assms(3) prod.case hashPhase_result [OF assms(1,3)] assms(4) Let_def
        changedNodes_def [symmetric] assms(5) [symmetric] csr(1) d)
  then show ?thesis
    using csr(2) q by auto
qed

lemma findTarget_ok:
  assumes "view_ok v" "i < vNodeCount v"
  shows "findTarget v (vLabel v i) which sa = Inr (materializeTarget v i sa)"
proof -
  have "splitLabel (vLabel v i) = vSplitLabel v i" "vFindNode v (fst (vSplitLabel v i)) (snd (vSplitLabel v i)) = int i"
    using assms unfolding view_ok_def by blast+
  then show ?thesis
    by (simp add: findTarget_def case_prod_beta)
qed

lemma materializeOne_ok:
  assumes "comparable before after" "align before after = (runs, deleted, inserted)"
    and "e \<in> set (map deletedNode deleted @ changedNodes before after)"
  shows "materializeOne before after sa (resultOf before after seed dist e) =
    Inr ((snd (toDiff before after sa e)) \<lparr> cd_Distance := if seed e then 0 else dist (nat (cn_afterIndex e)) \<rparr>)"
proof -
  have ok: "view_ok before" "view_ok after" "view_aligned before after"
    using assms(1) by (auto simp: comparable_def)
  consider i where "i < vNodeCount before" "e = deletedNode i" | j where "j < vNodeCount after" "e = insertedNode j"
    | i j where "j < vNodeCount after" "partner before after j = Some i" "e = changedAt i j"
    using assms(3) align_result(3) [OF ok(3) assms(2)] by (auto simp: mem_changedNodes entryOf_def split: option.splits if_splits)
  then show ?thesis
  proof cases
    case 3
    then have i: "i < vNodeCount before" "vLabel before i = vLabel after j"
      using partner_Some [OF assms(1)] label_equal_iff [OF ok(1,2)] by auto
    then show ?thesis
      using findTarget_ok [OF ok(2) 3(1)] findTarget_ok [OF ok(1) i(1)] 3(3)
      by (simp add: materializeOne_def resultOf_def toDiff_def changedAt_def changeTypeOf_def entryTarget_def)
  qed (simp_all add: materializeOne_def resultOf_def toDiff_def deletedNode_def insertedNode_def changeTypeOf_def entryTarget_def
      findTarget_ok [OF ok(1)] findTarget_ok [OF ok(2)])
qed

lemma cn_afterIndex_entryOf: "entryOf before after j = Some e \<Longrightarrow> cn_afterIndex e = int j"
  by (auto simp: entryOf_def insertedNode_def changedAt_def split: option.splits if_splits)

lemma filter_image: "(\<And>x. x \<in> set xs \<Longrightarrow> P (h x) = Q x) \<Longrightarrow> set (map g (filter P (map h xs))) = g ` h ` {x \<in> set xs. Q x}"
  by (induction xs) auto

lemma seed_sets:
  assumes "comparable before after" "align before after = (runs, deleted, inserted)" "vRuleTypeIDs after = Inr ids"
    and "seed = isSeedNode before after opts ids (vRuleTypeDictID after sourceFileRuleType) (mapBeforeToAfter (vNodeCount before) runs)
      (map (entryOf before after) [0..<vNodeCount after])"
    and "propagates before after" "\<forall>d < vNodeCount after. rows d = rowOf (depEdges after) d"
  shows "searches before after rows (map fst (changedAll (requestOf before after opts)))
    (nat ` {cn_afterIndex e | e. e \<in> set (changedNodes before after) \<and> seed e}) (set (seedNames (requestOf before after opts)))
    (vLabel before ` set deleted)"
proof -
  let ?req = "requestOf before after opts" and ?sa = "do_SeedAttrs opts" and ?CN = "changedNodes before after"
  let ?all = "?CN @ map deletedNode deleted" and ?toDiff = "toDiff before after ?sa" and ?n = "vNodeCount after"
  have ok: "view_ok before" "view_ok after" "view_aligned before after"
    using assms(1) by (auto simp: comparable_def)
  have all: "changedAll ?req = map ?toDiff ?all"
    unfolding changedNodes_def by (rule changedAll_entries [OF assms(1,2)])
  have seed: "isSeed ?req (?toDiff e) = seed e" if "e \<in> set ?all" for e
    using seeds_agree [OF assms(1-3) that] assms(4) by simp
  have lab: "fst (?toDiff e) = vLabel after (nat (cn_afterIndex e)) \<and> nat (cn_afterIndex e) < ?n \<and> entryOf before after (nat (cn_afterIndex e)) = Some e"
    if "e \<in> set ?CN" for e
    using that toDiff_entryOf [of before after _ e ?sa] cn_afterIndex_entryOf [of before after _ e] unfolding mem_changedNodes by force
  have del: "fst (?toDiff (deletedNode i)) = vLabel before i" "seed (deletedNode i)" for i
    by (simp_all add: toDiff_def deletedNode_def assms(4) isSeedNode_def)
  have CN: "fst ` ?toDiff ` set ?CN = vLabel after ` {j. j < ?n \<and> entryOf before after j \<noteq> None}"
  proof (intro equalityI subsetI)
    fix l assume "l \<in> vLabel after ` {j. j < ?n \<and> entryOf before after j \<noteq> None}"
    then obtain j e where "j < ?n" "entryOf before after j = Some e" "l = vLabel after j"
      by auto
    then show "l \<in> fst ` ?toDiff ` set ?CN"
      using toDiff_entryOf [of before after j e ?sa] mem_changedNodes [of e before after] by (metis image_eqI)
  qed (use lab in force)
  have "set (map fst (changedAll ?req)) = fst ` ?toDiff ` set ?CN \<union> vLabel before ` set deleted"
    unfolding all by (simp add: image_Un image_image del)
  moreover have "set (seedNames ?req) = vLabel after ` nat ` {cn_afterIndex e | e. e \<in> set ?CN \<and> seed e} \<union> vLabel before ` set deleted"
  proof -
    have "set (seedNames ?req) = fst ` ?toDiff ` {e \<in> set ?all. seed e}"
      unfolding seedNames_def all by (rule filter_image) (rule seed)
    also have "\<dots> = fst ` ?toDiff ` {e \<in> set ?CN. seed e} \<union> vLabel before ` set deleted"
    proof -
      have "{e \<in> set ?all. seed e} = {e \<in> set ?CN. seed e} \<union> deletedNode ` set deleted"
        using del(2) by auto
      then show ?thesis
        by (simp only: image_Un image_image del(1))
    qed
    also have "fst ` ?toDiff ` {e \<in> set ?CN. seed e} = vLabel after ` nat ` {cn_afterIndex e | e. e \<in> set ?CN \<and> seed e}"
    proof -
      have "{cn_afterIndex e | e. e \<in> set ?CN \<and> seed e} = cn_afterIndex ` {e \<in> set ?CN. seed e}"
        by auto
      then show ?thesis
        by (simp only: image_image) (rule image_cong, simp_all add: lab)
    qed
    finally show ?thesis .
  qed
  moreover have "nat ` {cn_afterIndex e | e. e \<in> set ?CN \<and> seed e} \<subseteq> {j. j < ?n \<and> entryOf before after j \<noteq> None}"
    using lab by force
  moreover have "vLabel after j \<notin> vLabel before ` set deleted" if "j < ?n" for j
    using align_result(3) [OF ok(3) assms(2)] label_equal_iff [OF ok(1,2) _ that] that by fastforce
  ultimately show ?thesis
    using assms(1,5,6) CN by (simp add: searches_def)
qed

lemma distances_agree:
  assumes S: "searches before after rows names Q S D" and "e \<in> set (changedNodes before after)"
    and "nat (cn_afterIndex e) \<in> Q \<longleftrightarrow> seed e"
  shows "(if seed e then 0 else shortest rows [0..<vNodeCount after] m Q (nat (cn_afterIndex e))) =
    shortest (reverseDependencies (SemanticGraph after sa)) names m S (fst (toDiff before after sa e))"
proof -
  obtain j where j: "j < vNodeCount after" "entryOf before after j = Some e"
    using assms(2) mem_changedNodes by blast
  then show ?thesis
    using shortest_agrees [OF S j(1), of sa m] toDiff_entryOf [OF j(2), of sa] cn_afterIndex_entryOf [OF j(2)] assms(3)
    by (auto simp: shortest_def)
qed

lemma changedNodes_index_inj: "e \<in> set (changedNodes before after) \<Longrightarrow> e' \<in> set (changedNodes before after) \<Longrightarrow>
    cn_afterIndex e = cn_afterIndex e' \<Longrightarrow> e = e'"
  using cn_afterIndex_entryOf [of before after _ e] cn_afterIndex_entryOf [of before after _ e'] unfolding mem_changedNodes by force

text \<open>One materialized entry is the reference entry with its distance.\<close>

definition referenceEntry :: "readerView \<Rightarrow> readerView \<Rightarrow> DiffOptions \<Rightarrow> changedNode \<Rightarrow> DiffTarget" where
  "referenceEntry before after opts e = (snd (toDiff before after (do_SeedAttrs opts) e)) \<lparr> cd_Distance :=
     shortest (reverseDependencies (SemanticGraph after (do_SeedAttrs opts))) (map fst (changedAll (requestOf before after opts)))
       (do_MaxDistance opts) (set (seedNames (requestOf before after opts))) (fst (toDiff before after (do_SeedAttrs opts) e)) \<rparr>"

lemma compareSpec_entries:
  assumes "comparable before after" "align before after = (runs, deleted, inserted)"
  shows "compareSpec (requestOf before after opts) = map (referenceEntry before after opts) (changedNodes before after @ map deletedNode deleted)"
proof -
  let ?req = "requestOf before after opts" and ?sa = "do_SeedAttrs opts"
  have rq: "rq_After ?req = SemanticGraph after ?sa" "rq_MaxDistance ?req = do_MaxDistance opts"
    by (simp_all add: requestOf_def)
  have all: "changedAll ?req = map (toDiff before after ?sa) (changedNodes before after @ map deletedNode deleted)"
    unfolding changedNodes_def by (rule changedAll_entries [OF assms])
  have "(\<lambda>(name, changed). changed \<lparr> cd_Distance := shortest (reverseDependencies (SemanticGraph after ?sa)) (map fst (changedAll ?req))
      (do_MaxDistance opts) (set (seedNames ?req)) name \<rparr>) (toDiff before after ?sa e) = referenceEntry before after opts e" for e
    by (simp add: referenceEntry_def case_prod_beta)
  then show ?thesis
    unfolding compareSpec_def rq all [THEN arg_cong, of "map f" for f] by (simp only: map_map comp_def)
qed

lemma materialized_entry:
  assumes "comparable before after" "align before after = (runs, deleted, inserted)"
    and "searches before after rows (map fst (changedAll (requestOf before after opts)))
      (nat ` {cn_afterIndex e | e. e \<in> set (changedNodes before after) \<and> seed e}) (set (seedNames (requestOf before after opts)))
      (vLabel before ` set deleted)" (is "searches _ _ _ _ ?Q ?S _")
    and "e \<in> set (map deletedNode deleted @ changedNodes before after)" "\<And>i. seed (deletedNode i)"
  shows "materializeOne before after (do_SeedAttrs opts)
    (resultOf before after seed (shortest rows [0..<vNodeCount after] (do_MaxDistance opts) ?Q) e) = Inr (referenceEntry before after opts e)"
proof (cases "e \<in> set (changedNodes before after)")
  case True
  have "nat (cn_afterIndex e) \<in> ?Q \<longleftrightarrow> seed e"
  proof
    assume "nat (cn_afterIndex e) \<in> ?Q"
    then obtain e' where e': "e' \<in> set (changedNodes before after)" "seed e'" "nat (cn_afterIndex e) = nat (cn_afterIndex e')"
      by auto
    then have "cn_afterIndex e = cn_afterIndex e'"
      using True e'(1) unfolding mem_changedNodes by (auto dest!: cn_afterIndex_entryOf)
    then show "seed e"
      using changedNodes_index_inj [OF True e'(1)] e'(2) by simp
  qed (use True in auto)
  then show ?thesis
    using materializeOne_ok [OF assms(1,2,4)] distances_agree [OF assms(3) True] by (simp add: referenceEntry_def)
next
  case False
  then obtain i where i: "i \<in> set deleted" "e = deletedNode i"
    using assms(4) by auto
  have "fst (toDiff before after (do_SeedAttrs opts) e) \<in> ?S"
    using searchesD(7) [OF assms(3)] i by (auto simp: toDiff_def deletedNode_def)
  then show ?thesis
    using materializeOne_ok [OF assms(1,2,4)] assms(5) i(2) by (simp add: referenceEntry_def shortest_def)
qed

lemma mset_map_sort_key: "mset (map g (sort_key k xs)) = mset (map g xs)"
  by simp

lemma tgbCompare_matches_reference:
  assumes "comparable before after" "propagates before after" "never_cancelled ctx"
  shows "\<exists>result out. tgbCompare ctx before after opts = Inr result \<and>
    Materialize before after result (do_SeedAttrs opts) = Inr out \<and> mset out = mset (compareSpec (requestOf before after opts))"
proof -
  obtain runs deleted inserted where al: "align before after = (runs, deleted, inserted)"
    by (metis prod_cases3)
  obtain ids where ids: "vRuleTypeIDs after = Inr ids"
    using assms(1) by (auto simp: comparable_def view_ok_def)
  define seed where "seed = isSeedNode before after opts ids (vRuleTypeDictID after sourceFileRuleType) (mapBeforeToAfter (vNodeCount before) runs)
      (map (entryOf before after) [0..<vNodeCount after])"
  let ?Q = "nat ` {cn_afterIndex e | e. e \<in> set (changedNodes before after) \<and> seed e}" and ?f = "referenceEntry before after opts"
  let ?L = "map deletedNode deleted @ changedNodes before after" and ?one = "materializeOne before after (do_SeedAttrs opts)"
  obtain rows where rows: "\<forall>d < vNodeCount after. rows d = rowOf (depEdges after) d"
      "tgbCompare ctx before after opts = Inr (sort_key cl_Label (map (resultOf before after seed
        (shortest rows [0..<vNodeCount after] (do_MaxDistance opts) ?Q)) ?L))"
    using compareInternal_result [OF assms(1,3) al ids seed_def] by blast
  let ?r = "resultOf before after seed (shortest rows [0..<vNodeCount after] (do_MaxDistance opts) ?Q)"
  have one: "?one (?r e) = Inr (?f e)" if "e \<in> set ?L" for e
  proof (rule materialized_entry [OF assms(1) al seed_sets [OF assms(1) al ids seed_def assms(2) rows(1)] that])
    show "seed (deletedNode i)" for i
      by (simp add: seed_def isSeedNode_def deletedNode_def)
  qed
  let ?res = "sort_key cl_Label (map ?r ?L)"
  have "Materialize before after ?res (do_SeedAttrs opts) = Inr (map (\<lambda>c. projr (?one c)) ?res)"
    unfolding Materialize_def
  proof (rule mapE_total)
    fix c assume "c \<in> set ?res"
    then obtain e where "e \<in> set ?L" "c = ?r e"
      unfolding set_sort set_map by blast
    then show "?one c = Inr (projr (?one c))"
      by (simp only: one sum.sel)
  qed
  moreover have "map (\<lambda>c. projr (?one c)) (map ?r ?L) = map ?f ?L"
    unfolding map_map comp_def by (rule map_cong [OF refl]) (simp add: one)
  then have "mset (map (\<lambda>c. projr (?one c)) ?res) = mset (map ?f ?L)"
    by (simp only: mset_map_sort_key)
  moreover have "mset (compareSpec (requestOf before after opts)) = mset (map ?f ?L)"
    unfolding compareSpec_entries [OF assms(1) al] by (simp add: ac_simps)
  ultimately show ?thesis
    using rows(2) by auto
qed

section \<open>The oracle\<close>

lemma distinct_map_filterI: "distinct (map f xs) \<Longrightarrow> distinct (map f (filter P xs))"
  by (induction xs) auto

lemma slicesEqual_refl: "slicesEqual xs xs"
  by (induction xs) simp_all

lemma changedTargetsEqual_refl:
  assumes "\<forall>t \<in> set_option (cd_Before c) \<union> set_option (cd_After c). distinct (map fst (dt_Attributes t))"
  shows "changedTargetsEqual c c"
proof -
  have "mapsEqual m m" if "distinct (map fst m)" for m
    using that by (auto simp: mapsEqual_def list_all_iff)
  then have "targetsEqual (cd_Before c) (cd_Before c)" "targetsEqual (cd_After c) (cd_After c)"
    using assms by (cases "cd_Before c"; cases "cd_After c"; simp add: slicesEqual_refl)+
  then show ?thesis
    by (simp add: changedTargetsEqual_def)
qed

lemma ResultsEquivalent_permuted:
  assumes "mset a = mset b" "distinct (map changedLabel b)"
    and "\<And>c t. c \<in> set b \<Longrightarrow> t \<in> set_option (cd_Before c) \<union> set_option (cd_After c) \<Longrightarrow> distinct (map fst (dt_Attributes t))"
  shows "ResultsEquivalent a b"
proof -
  let ?norm = "\<lambda>ct. ct \<lparr> cd_Before := map_option sortedTarget (cd_Before ct), cd_After := map_option sortedTarget (cd_After ct) \<rparr>"
  have lab: "changedLabel (?norm c) = changedLabel c" for c
    by (simp add: changedLabel_def sortedTarget_def split: option.splits)
  have "normalizeResult a = normalizeResult b"
  proof -
    have m: "mset (map ?norm a) = mset (map ?norm b)"
      using assms(1) by simp
    have "distinct (map changedLabel (map ?norm b))"
      using assms(2) by (simp add: comp_def lab)
    then have "inj_on changedLabel (set (map ?norm b))"
      by (simp only: distinct_map)
    then have "inj_on changedLabel (set (map ?norm a))"
      by (simp only: mset_eq_setD [OF m])
    then show ?thesis
      unfolding normalizeResult_def using m by (intro sort_key_inj_key_eq) (simp_all only: mset_sort sorted_sort_key)
  qed
  moreover have "changedTargetsEqual c c" if c: "c \<in> set (normalizeResult b)" for c
  proof (rule changedTargetsEqual_refl, rule ballI)
    fix t assume t: "t \<in> set_option (cd_Before c) \<union> set_option (cd_After c)"
    obtain c' where c': "c' \<in> set b" "c = ?norm c'"
      using c by (auto simp: normalizeResult_def)
    then obtain t' where "t = sortedTarget t'" "t' \<in> set_option (cd_Before c') \<union> set_option (cd_After c')"
      using t by (auto simp: option.set_map)
    then show "distinct (map fst (dt_Attributes t))"
      using assms(3) [OF c'(1)] by (simp add: sortedTarget_def)
  qed
  ultimately show ?thesis
    by (simp add: ResultsEquivalent_def Let_def list_all_iff)
qed


lemma reference_labels:
  assumes "comparable before after"
  shows "distinct (map changedLabel (compareSpec (requestOf before after opts)))"
    and "\<And>c t. c \<in> set (compareSpec (requestOf before after opts)) \<Longrightarrow> t \<in> set_option (cd_Before c) \<union> set_option (cd_After c) \<Longrightarrow>
      distinct (map fst (dt_Attributes t))"
proof -
  let ?req = "requestOf before after opts" and ?sa = "do_SeedAttrs opts"
  obtain runs deleted inserted where al: "align before after = (runs, deleted, inserted)"
    by (metis prod_cases3)
  have ok: "view_ok before" "view_ok after" "view_aligned before after"
    using assms by (auto simp: comparable_def)
  note inj = comparable_labels [OF assms]
  have keys: "distinct (map fst (SemanticGraph v ?sa))" if "inj_on (vLabel v) {..<vNodeCount v}" for v
    using that unfolding SemanticGraph_eq [OF that] by (simp add: comp_def distinct_map atLeast0LessThan)
  have all: "changedAll ?req = map (toDiff before after ?sa) (changedNodes before after @ map deletedNode deleted)"
    unfolding changedNodes_def by (rule changedAll_entries [OF assms al])
  have node: "(0 \<le> cn_afterIndex e \<longrightarrow> nat (cn_afterIndex e) < vNodeCount after) \<and> (0 \<le> cn_beforeIndex e \<longrightarrow> nat (cn_beforeIndex e) < vNodeCount before) \<and>
      (0 \<le> cn_afterIndex e \<or> 0 \<le> cn_beforeIndex e)" if "e \<in> set (changedNodes before after @ map deletedNode deleted)" for e
    using that align_result(3) [OF ok(3) al] partner_Some [OF assms]
    by (auto simp: mem_changedNodes entryOf_def insertedNode_def changedAt_def deletedNode_def split: option.splits if_splits)
  have lab: "changedLabel (c \<lparr> cd_Distance := d \<rparr>) = name" if "(name, c) \<in> set (changedAll ?req)" for name c d
  proof -
    obtain e where e: "e \<in> set (changedNodes before after @ map deletedNode deleted)" "(name, c) = toDiff before after ?sa e"
      using \<open>(name, c) \<in> set (changedAll ?req)\<close> unfolding all by force
    then show ?thesis
      using node [OF e(1)] by (auto simp: changedLabel_def toDiff_def entryTarget_def split: if_splits)
  qed
  have "map changedLabel (compareSpec ?req) = map fst (changedAll ?req)"
    unfolding compareSpec_def by (auto simp: lab)
  then show "distinct (map changedLabel (compareSpec ?req))"
    using distinct_changedAll [of ?req] keys [OF inj(1)] keys [OF inj(2)] by (simp add: requestOf_def)
  have attrs: "distinct (map fst (dt_Attributes (materializeTarget v i ?sa)))" if "view_ok v" "i < vNodeCount v" for v i
  proof -
    have "distinct (map fst (vAttrs v i))"
      using that unfolding view_ok_def by blast
    then show ?thesis
      by (auto simp: materializeTarget_def intro: distinct_map_filterI)
  qed
  show "distinct (map fst (dt_Attributes t))" if c: "c \<in> set (compareSpec ?req)" and t: "t \<in> set_option (cd_Before c) \<union> set_option (cd_After c)" for c t
  proof -
    obtain e d where e: "e \<in> set (changedNodes before after @ map deletedNode deleted)" "c = (snd (toDiff before after ?sa e)) \<lparr> cd_Distance := d \<rparr>"
      using c unfolding compareSpec_def all by (auto simp: case_prod_beta)
    then have "t \<in> set_option (entryTarget before ?sa (cn_beforeIndex e)) \<union> set_option (entryTarget after ?sa (cn_afterIndex e))"
      using t by (simp add: toDiff_def)
    then show ?thesis
      using node [OF e(1)] attrs ok by (auto simp: entryTarget_def split: if_splits)
  qed
qed

end
