(* ===== verification/TgbDiffProperties.thy ===== *)
theory TgbDiffProperties
  imports TgbDiffPaths
begin

text \<open>
  The results about the blob comparison: alignment by digests, bisection, the reverse adjacency and
  the agreement with the reference comparison.
\<close>

section \<open>Equivalence\<close>

text \<open>A small pair of views: a source file \<open>a:x\<close> and a library \<open>b:y\<close> that depends on it.\<close>

definition demoView :: "byte \<Rightarrow> readerView" where
  "demoView h = \<lparr> vNodeCount = 2, vHashBytes = 1, vHashes = [h, h], vBlockCount = 1, vBlockDigests = [7],
     vBlockStart = (\<lambda>_. 0), vSplitLabel = (\<lambda>i. if i = 0 then (''a'', ''x'') else (''b'', ''y'')),
     vLabel = (\<lambda>i. if i = 0 then ''a:x'' else ''b:y''), vHash = (\<lambda>_. EncodeToString [h]),
     vRuleType = (\<lambda>i. if i = 0 then sourceFileRuleType else ''lib''), vRoot = (\<lambda>_. False), vExternal = (\<lambda>_. False),
     vHashEmptyBits = Inr [], vRuleTypeIDs = Inr [0, 1],
     vRuleTypeDictID = (\<lambda>s. if s = sourceFileRuleType then 0 else 1),
     vDeps = (\<lambda>i. if i = 0 then [] else [0]), vDepsCSR = Inr ([0, 0, 1], [0]),
     vTags = (\<lambda>_. []), vTagName = (\<lambda>_. []), vAttrs = (\<lambda>_. []),
     vFindNode = (\<lambda>p n. if (p, n) = (''a'', ''x'') then 0 else if (p, n) = (''b'', ''y'') then 1 else - 1) \<rparr>"

lemma less_two: "i < (2::nat) \<longleftrightarrow> i = 0 \<or> i = 1"
  by auto

lemma demoView_ok: "view_ok (demoView h)"
proof -
  have "csr_ok (demoView h)"
    by (auto simp: csr_ok_def demoView_def less_two upt_rec)
  then show ?thesis
    unfolding view_ok_def
    by (auto simp: demoView_def less_two emptyBit_def hashEntry_def splitLabel_def joinLabel_def sourceFileRuleType_def)
qed

lemma demoView_comparable: "comparable (demoView 1) (demoView 2)"
proof -
  have "ascending (vSplitLabel (demoView h)) 0 2" for h
    by (auto simp: ascending_def demoView_def less_two)
  moreover have "blocks_ok (demoView h)" for h
    by (simp add: blocks_ok_def blockStarts_def demoView_def)
  moreover have "digests_ok (demoView 1) (demoView 2)"
    by (simp add: digests_ok_def blocksOf_def blockStarts_def demoView_def)
  ultimately show ?thesis
    using demoView_ok by (simp add: comparable_def view_aligned_def) (simp add: demoView_def)
qed


text \<open>C6: pairing blocks by digest is an optimisation only. On graphs sorted by label whose equal block digests
  stand for equal labels, \<open>align\<close> returns exactly what the full merge-join \<open>alignFallback\<close> returns: its
  runs cover exactly the pairs of nodes with the same label, and the other two lists are exactly the
  nodes without a partner.\<close>

theorem align_correct:
  assumes "view_aligned before after" "align before after = (runs, deletedBefore, insertedAfter)"
  shows "alignFallback before after (vNodeCount before) (vNodeCount after) = (runs, deletedBefore, insertedAfter) \<and>
    set (concat (map runPairs runs)) =
      {(i, j). i < vNodeCount before \<and> j < vNodeCount after \<and> vSplitLabel before i = vSplitLabel after j} \<and>
    deletedBefore = filter (\<lambda>i. \<forall>j < vNodeCount after. vSplitLabel before i \<noteq> vSplitLabel after j) [0..<vNodeCount before] \<and>
    insertedAfter = filter (\<lambda>j. \<forall>i < vNodeCount before. vSplitLabel after j \<noteq> vSplitLabel before i) [0..<vNodeCount after]"
  using align_result [OF assms] by blast

theorem align_correct_witness:
  "snd (align (demoView 1) (demoView 2)) = ([], [])"
proof -
  have v: "view_aligned (demoView 1) (demoView 2)"
    using demoView_comparable by (simp add: comparable_def)
  have same: "vSplitLabel (demoView 1) = vSplitLabel (demoView 2)" "vNodeCount (demoView 1) = vNodeCount (demoView 2)"
    by (simp_all add: demoView_def)
  obtain runs ds "is" where al: "align (demoView 1) (demoView 2) = (runs, ds, is)"
    by (metis prod_cases3)
  have "ds = []" "is = []"
    using align_correct [OF v al] unfolding same by (auto simp: filter_empty_conv)
  then show ?thesis
    by (simp add: al)
qed

text \<open>C25: bisection finds exactly the differing hashes. On hash columns that cover a run that differs somewhere,
  \<open>bisectHashRun\<close> returns the table a position-by-position scan gives, without slicing out of range.\<close>

theorem bisectHashRun_correct:
  assumes "(bs + n) * stride \<le> length bHashes" "(as + n) * stride \<le> length aHashes" "as + n \<le> length t"
    and "\<exists>k < n. hashDiffers bHashes aHashes stride (bs + k) (as + k)"
  shows "bisectHashRun bHashes aHashes stride bs as n t = Inr (foldl (diffStep (hashDiffers bHashes aHashes stride)) t (pairsFrom bs as n))"
  using bisectHashRun_pointwise [OF assms] .

theorem bisectHashRun_correct_witness:
  "bisectHashRun [1, 2, 3] [1, 5, 3] 1 0 0 3 [None, None, None] = Inr [None, Some (changedAt 1 1), None]"
proof -
  have "\<exists>k < 3. hashDiffers [1, 2, 3] [1, 5, 3] 1 (0 + k) (0 + k)"
    by (rule exI [of _ 1]) (simp add: hashDiffers_def hashEntry_def)
  moreover have "foldl (diffStep (hashDiffers [1, 2, 3] [1, 5, 3] 1)) [None, None, None] (pairsFrom 0 0 3) = [None, Some (changedAt 1 1), None]"
    by (simp add: pairsFrom_def diffStep_def hashDiffers_def hashEntry_def upt_rec numeral_3_eq_3)
  ultimately show ?thesis
    using bisectHashRun_correct [of 0 3 1 "[1, 2, 3]" 0 "[1, 5, 3]" "[None, None, None]"] by simp
qed

text \<open>C26: the reverse adjacency is the transposed dependency relation. The counting, summing and scattering
  passes never index out of range, and row \<open>d\<close> lists the nodes that depend on \<open>d\<close> in ascending order, once per edge.\<close>

theorem buildReverseCSR_correct:
  assumes "csr_ok v"
  shows "\<exists>csr. buildReverseCSR v (vNodeCount v) = Inr csr \<and>
    (\<forall>d < vNodeCount v. csrRow csr d =
       concat (map (\<lambda>i. replicate (length (filter (\<lambda>x. nat (sint x) = d) (vDeps v i))) i) [0..<vNodeCount v]))"
proof -
  have "rowOf (map (\<lambda>x. (nat (sint x), i)) ds) d = replicate (length (filter (\<lambda>x. nat (sint x) = d) ds)) i" for d i and ds :: "i32 list"
    by (induction ds) (auto simp: rowOf_def)
  moreover have "rowOf (concat (map f is)) d = concat (map (\<lambda>i. rowOf (f i) d) is)" for f :: "nat \<Rightarrow> (nat \<times> nat) list" and d "is"
    by (induction "is") auto
  ultimately show ?thesis
    using buildReverseCSR_rows [OF assms] by (simp add: depEdges_def)
qed

theorem buildReverseCSR_correct_witness:
  "\<exists>csr. buildReverseCSR (demoView 1) 2 = Inr csr \<and> csrRow csr 0 = [1]"
proof -
  have "csr_ok (demoView 1)"
    using demoView_ok by (simp add: view_ok_def)
  then show ?thesis
    using buildReverseCSR_correct [of "demoView 1"] by (auto simp: demoView_def upt_rec)
qed



section \<open>Hashes that do not propagate\<close>




end
