(* ===== verification/BuildProto.thy ===== *)
theory BuildProto
  imports Prelude
begin

text \<open>
  The messages of \<open>build_proto\<close> that the target hasher reads, with the fields it reads. An optional
  scalar (a Go pointer) is an option; a slice of message pointers is a list of options; the getters
  are those of generated proto2 code, the zero value standing for an absent field. The enumerations
  are the \<open>int32\<close> numbers they are in Go; the number of \<open>Attribute_STRING_LIST\<close> is an argument of
  the operations that test for it.
\<close>

record StringDictEntry =
  sd_Key :: "string option"
  sd_Value :: "string option"

record FilesetEntry =
  fe_Source :: "string option"
  fe_DestinationDirectory :: "string option"
  fe_FilesPresent :: "bool option"
  fe_File :: "string list"
  fe_Exclude :: "string list"
  fe_SymlinkBehavior :: "i32 option"
  fe_StripPrefix :: "string option"

record LabelListDictEntry =
  ll_Key :: "string option"
  ll_Value :: "string list"

record StringListDictEntry =
  sl_Key :: "string option"
  sl_Value :: "string list"

record LabelDictUnaryEntry =
  lu_Key :: "string option"
  lu_Value :: "string option"

record LabelKeyedStringDictEntry =
  lk_Key :: "string option"
  lk_Value :: "string option"

record Attribute =
  at_Name :: "string option"
  at_ExplicitlySpecified :: "bool option"
  at_Nodep :: "bool option"
  at_Type :: "i32 option"
  at_IntValue :: "i32 option"
  at_StringValue :: "string option"
  at_BooleanValue :: "bool option"
  at_TristateValue :: "i32 option"
  at_StringListValue :: "string list"
  at_StringDictValue :: "StringDictEntry option list"
  at_FilesetListValue :: "FilesetEntry option list"
  at_LabelListDictValue :: "LabelListDictEntry option list"
  at_StringListDictValue :: "StringListDictEntry option list"
  at_IntListValue :: "i32 list"
  at_LabelDictUnaryValue :: "LabelDictUnaryEntry option list"
  at_LabelKeyedStringDictValue :: "LabelKeyedStringDictEntry option list"

record Rule =
  ru_Name :: "string option"
  ru_RuleClass :: "string option"
  ru_Attribute :: "Attribute option list"
  ru_RuleInput :: "string list"
  ru_RuleOutput :: "string list"
  ru_DefaultSetting :: "string list"
  ru_SkylarkEnvironmentHashCode :: "string option"

record SourceFile =
  sf_Name :: "string option"
  sf_Location :: "string option"
  sf_VisibilityLabel :: "string list"

record GeneratedFile =
  gf_Name :: "string option"
  gf_GeneratingRule :: "string option"

text \<open>
  A query target is its discriminator with the messages that may be present; \<open>Target_other\<close> is any
  discriminator that the hasher does not name.
\<close>

datatype Discriminator = Target_RULE | Target_SOURCE_FILE | Target_GENERATED_FILE
  | Target_PACKAGE_GROUP | Target_other i32

record BuildTarget =
  bt_Type :: "Discriminator option"
  bt_Rule :: "Rule option"
  bt_SourceFile :: "SourceFile option"
  bt_GeneratedFile :: "GeneratedFile option"
  bt_PackageGroup :: "string option option"

definition getString :: "string option \<Rightarrow> string" where
  "getString s = (case s of None \<Rightarrow> '''' | Some v \<Rightarrow> v)"

definition attrName :: "Attribute option \<Rightarrow> string" where
  "attrName a = (case a of None \<Rightarrow> '''' | Some x \<Rightarrow> getString (at_Name x))"

lemma getString_simps [simp]: "getString None = ''''" "getString (Some s) = s"
  by (simp_all add: getString_def)

lemma attrName_simps [simp]: "attrName None = ''''" "attrName (Some x) = getString (at_Name x)"
  by (simp_all add: attrName_def)

end
