(* ===== verification/RuleHash.thy ===== *)
theory RuleHash
  imports BuildProto Varint "HOL-Library.Multiset"
begin

text \<open>
  The canonical rule encoding of \<open>core/targethasher/sourcehasher.go\<close>. A \<open>canonicalEncoder\<close> is the
  content of its buffer, so a write appends to it. The main result is that the encoding identifies a
  rule up to the order of its collections: two rules have the same encoding exactly if they have the
  same \<open>ruleMeaning\<close>.
\<close>

section \<open>Framing\<close>

datatype canonicalValueType = canonicalMessage | canonicalString | canonicalBool | canonicalInt32
  | canonicalEnum | canonicalList

fun canonicalCode :: "canonicalValueType \<Rightarrow> byte" where
  "canonicalCode canonicalMessage = 1"
| "canonicalCode canonicalString = 2"
| "canonicalCode canonicalBool = 3"
| "canonicalCode canonicalInt32 = 4"
| "canonicalCode canonicalEnum = 5"
| "canonicalCode canonicalList = 6"

type_synonym canonicalEncoder = bytes

definition writeUvarint :: "canonicalEncoder \<Rightarrow> u64 \<Rightarrow> canonicalEncoder" where
  "writeUvarint e v = e @ AppendUvarint v"

definition writeBytes :: "canonicalEncoder \<Rightarrow> bytes \<Rightarrow> canonicalEncoder" where
  "writeBytes e value = writeUvarint e (of_nat (length value)) @ value"

definition writeField :: "canonicalEncoder \<Rightarrow> string \<Rightarrow> canonicalValueType \<Rightarrow> bool \<Rightarrow> bytes \<Rightarrow> canonicalEncoder" where
  "writeField e name valueType present payload =
    (let e = writeBytes e (bytes_of name) @ [canonicalCode valueType]
     in if \<not> present then e @ [0] else writeBytes (e @ [1]) payload)"

definition encodeInt32 :: "i32 \<Rightarrow> bytes" where
  "encodeInt32 v = [ucast (drop_bit 24 v), ucast (drop_bit 16 v), ucast (drop_bit 8 v), ucast v]"

definition writeOptionalString :: "canonicalEncoder \<Rightarrow> string \<Rightarrow> string option \<Rightarrow> canonicalEncoder" where
  "writeOptionalString e name value = (case value of
     None \<Rightarrow> writeField e name canonicalString False []
   | Some s \<Rightarrow> writeField e name canonicalString True (bytes_of s))"

definition writeOptionalBool :: "canonicalEncoder \<Rightarrow> string \<Rightarrow> bool option \<Rightarrow> canonicalEncoder" where
  "writeOptionalBool e name value = (case value of
     None \<Rightarrow> writeField e name canonicalBool False []
   | Some b \<Rightarrow> writeField e name canonicalBool True [if b then 1 else 0])"

definition writeOptionalInt32 :: "canonicalEncoder \<Rightarrow> string \<Rightarrow> i32 option \<Rightarrow> canonicalEncoder" where
  "writeOptionalInt32 e name value = (case value of
     None \<Rightarrow> writeField e name canonicalInt32 False []
   | Some v \<Rightarrow> writeField e name canonicalInt32 True (encodeInt32 v))"

definition writeOptionalEnum :: "canonicalEncoder \<Rightarrow> string \<Rightarrow> i32 option \<Rightarrow> canonicalEncoder" where
  "writeOptionalEnum e name value = (case value of
     None \<Rightarrow> writeField e name canonicalEnum False []
   | Some v \<Rightarrow> writeField e name canonicalEnum True (encodeInt32 v))"

definition writeElement :: "canonicalEncoder \<Rightarrow> bytes \<Rightarrow> canonicalEncoder" where
  "writeElement payload element = writeBytes (payload @ [1]) element"

definition writeList :: "canonicalEncoder \<Rightarrow> string \<Rightarrow> canonicalValueType \<Rightarrow> bytes list \<Rightarrow> canonicalEncoder" where
  "writeList e name elementType elements =
    (let payload = writeUvarint [canonicalCode elementType] (of_nat (length elements));
         payload = foldl writeElement payload elements
     in writeField e name canonicalList True payload)"

definition writeSortedStrings :: "canonicalEncoder \<Rightarrow> string \<Rightarrow> string list \<Rightarrow> canonicalEncoder" where
  "writeSortedStrings e name values = writeList e name canonicalString (map bytes_of (sort values))"

definition writeSortedInt32s :: "canonicalEncoder \<Rightarrow> string \<Rightarrow> i32 list \<Rightarrow> canonicalEncoder" where
  "writeSortedInt32s e name values = writeList e name canonicalInt32 (map encodeInt32 (sort_key sint values))"

definition sortElements :: "bytes list \<Rightarrow> bytes list" where
  "sortElements elements = sort elements"

definition writeSortedMessages ::
    "canonicalEncoder \<Rightarrow> string \<Rightarrow> 'a option list \<Rightarrow> ('a \<Rightarrow> bytes) \<Rightarrow> canonicalEncoder" where
  "writeSortedMessages e name values encode =
    writeList e name canonicalMessage (sortElements (map encode (List.map_filter (\<lambda>v. v) values)))"

definition encodeMessage :: "string \<Rightarrow> (canonicalEncoder \<Rightarrow> canonicalEncoder) \<Rightarrow> bytes" where
  "encodeMessage typeName writeFields =
    writeFields (writeField [] ''message_type'' canonicalString True (bytes_of typeName))"

section \<open>Messages\<close>

definition encodeStringDictEntry :: "StringDictEntry \<Rightarrow> bytes" where
  "encodeStringDictEntry entry = encodeMessage ''StringDictEntry'' (\<lambda>e.
    let e = writeOptionalString e ''key'' (sd_Key entry) in
    writeOptionalString e ''value'' (sd_Value entry))"

definition encodeFilesetEntry :: "FilesetEntry \<Rightarrow> bytes" where
  "encodeFilesetEntry entry = encodeMessage ''FilesetEntry'' (\<lambda>e.
    let e = writeOptionalString e ''source'' (fe_Source entry);
        e = writeOptionalString e ''destination_directory'' (fe_DestinationDirectory entry);
        e = writeOptionalBool e ''files_present'' (fe_FilesPresent entry);
        e = writeSortedStrings e ''file'' (fe_File entry);
        e = writeSortedStrings e ''exclude'' (fe_Exclude entry);
        e = writeOptionalEnum e ''symlink_behavior'' (fe_SymlinkBehavior entry) in
    writeOptionalString e ''strip_prefix'' (fe_StripPrefix entry))"

definition encodeLabelListDictEntry :: "LabelListDictEntry \<Rightarrow> bytes" where
  "encodeLabelListDictEntry entry = encodeMessage ''LabelListDictEntry'' (\<lambda>e.
    let e = writeOptionalString e ''key'' (ll_Key entry) in
    writeSortedStrings e ''value'' (ll_Value entry))"

definition encodeStringListDictEntry :: "StringListDictEntry \<Rightarrow> bytes" where
  "encodeStringListDictEntry entry = encodeMessage ''StringListDictEntry'' (\<lambda>e.
    let e = writeOptionalString e ''key'' (sl_Key entry) in
    writeSortedStrings e ''value'' (sl_Value entry))"

definition encodeLabelDictUnaryEntry :: "LabelDictUnaryEntry \<Rightarrow> bytes" where
  "encodeLabelDictUnaryEntry entry = encodeMessage ''LabelDictUnaryEntry'' (\<lambda>e.
    let e = writeOptionalString e ''key'' (lu_Key entry) in
    writeOptionalString e ''value'' (lu_Value entry))"

definition encodeLabelKeyedStringDictEntry :: "LabelKeyedStringDictEntry \<Rightarrow> bytes" where
  "encodeLabelKeyedStringDictEntry entry = encodeMessage ''LabelKeyedStringDictEntry'' (\<lambda>e.
    let e = writeOptionalString e ''key'' (lk_Key entry) in
    writeOptionalString e ''value'' (lk_Value entry))"

definition encodeAttribute :: "Attribute \<Rightarrow> bytes" where
  "encodeAttribute attribute = encodeMessage ''Attribute'' (\<lambda>e.
    let e = writeOptionalString e ''name'' (at_Name attribute);
        e = writeOptionalBool e ''explicitly_specified'' (at_ExplicitlySpecified attribute);
        e = writeOptionalBool e ''nodep'' (at_Nodep attribute);
        e = writeOptionalEnum e ''type'' (at_Type attribute);
        e = writeOptionalInt32 e ''int_value'' (at_IntValue attribute);
        e = writeOptionalString e ''string_value'' (at_StringValue attribute);
        e = writeOptionalBool e ''boolean_value'' (at_BooleanValue attribute);
        e = writeOptionalEnum e ''tristate_value'' (at_TristateValue attribute);
        e = writeSortedStrings e ''string_list_value'' (at_StringListValue attribute);
        e = writeSortedMessages e ''string_dict_value'' (at_StringDictValue attribute) encodeStringDictEntry;
        e = writeSortedMessages e ''fileset_list_value'' (at_FilesetListValue attribute) encodeFilesetEntry;
        e = writeSortedMessages e ''label_list_dict_value'' (at_LabelListDictValue attribute) encodeLabelListDictEntry;
        e = writeSortedMessages e ''string_list_dict_value'' (at_StringListDictValue attribute) encodeStringListDictEntry;
        e = writeSortedInt32s e ''int_list_value'' (at_IntListValue attribute);
        e = writeSortedMessages e ''label_dict_unary_value'' (at_LabelDictUnaryValue attribute) encodeLabelDictUnaryEntry in
    writeSortedMessages e ''label_keyed_string_dict_value'' (at_LabelKeyedStringDictValue attribute)
      encodeLabelKeyedStringDictEntry)"

text \<open>
  \<open>sort.Slice\<close> may reorder attributes of equal name; the code relies on the names being distinct, and
  so do the statements below that depend on the order.
\<close>

definition hashedAttributes :: "Rule \<Rightarrow> Attribute list" where
  "hashedAttributes r = filter (\<lambda>a. getString (at_Name a) \<noteq> ''generator_location'')
     (List.map_filter (\<lambda>a. a) (ru_Attribute r))"

definition encodeRule :: "Rule \<Rightarrow> bytes" where
  "encodeRule r = encodeMessage ''Rule'' (\<lambda>e.
    let e = writeOptionalString e ''name'' (ru_Name r);
        e = writeOptionalString e ''rule_class'' (ru_RuleClass r);
        attributes = sort_key (\<lambda>a. getString (at_Name a)) (hashedAttributes r);
        e = writeList e ''attribute'' canonicalMessage (map encodeAttribute attributes);
        e = writeSortedStrings e ''rule_input'' (ru_RuleInput r);
        e = writeSortedStrings e ''rule_output'' (ru_RuleOutput r);
        e = writeSortedStrings e ''default_setting'' (ru_DefaultSetting r) in
    writeOptionalString e ''skylark_environment_hash_code'' (ru_SkylarkEnvironmentHashCode r))"

text \<open>\<open>h\<close> is what was written to the hash so far; \<open>Sum\<close> applies SHA-1 to it.\<close>

definition HashRuleCommon :: "Rule option \<Rightarrow> bytes \<Rightarrow> bytes" where
  "HashRuleCommon r h = h @ writeField [] ''rule'' canonicalMessage (r \<noteq> None)
     (case r of None \<Rightarrow> [] | Some x \<Rightarrow> encodeRule x)"

section \<open>Fields as a list\<close>

text \<open>
  Every message is a sequence of fields whose names and types are fixed; only the payloads vary. The
  writers are appends of one field each, so a message is \<open>encodeFields\<close> of its field list.
\<close>

definition frame :: "bytes \<Rightarrow> bytes" where
  "frame value = AppendUvarint (of_nat (length value)) @ value"

fun encodeField :: "string \<times> canonicalValueType \<times> bytes option \<Rightarrow> bytes" where
  "encodeField (name, t, None) = frame (bytes_of name) @ [canonicalCode t, 0]"
| "encodeField (name, t, Some p) = frame (bytes_of name) @ [canonicalCode t, 1] @ frame p"

definition encodeFields :: "(string \<times> canonicalValueType \<times> bytes option) list \<Rightarrow> bytes" where
  "encodeFields fs = concat (map encodeField fs)"

definition listPayload :: "canonicalValueType \<Rightarrow> bytes list \<Rightarrow> bytes" where
  "listPayload t es = canonicalCode t # AppendUvarint (of_nat (length es)) @ concat (map (\<lambda>x. 1 # frame x) es)"

lemma writeBytes_append: "writeBytes e value = e @ frame value"
  by (simp add: writeBytes_def writeUvarint_def frame_def)

lemma writeField_append:
  "writeField e name t present p = e @ encodeFields [(name, t, if present then Some p else None)]"
  by (simp add: writeField_def writeBytes_append encodeFields_def)

lemma foldl_writeElement: "foldl writeElement e es = e @ concat (map (\<lambda>x. 1 # frame x) es)"
  by (induction es arbitrary: e) (simp_all add: writeElement_def writeBytes_append)

lemma writeList_append:
  "writeList e name t es = e @ encodeFields [(name, canonicalList, Some (listPayload t es))]"
  by (simp add: writeList_def foldl_writeElement writeField_append listPayload_def writeUvarint_def)

lemma encodeFields_append: "encodeFields (fs @ gs) = encodeFields fs @ encodeFields gs"
  by (simp add: encodeFields_def)

definition boolBytes :: "bool \<Rightarrow> bytes" where
  "boolBytes b = [if b then 1 else 0]"

lemma writeOptional_append:
  "writeOptionalString e name s = e @ encodeFields [(name, canonicalString, map_option bytes_of s)]"
  "writeOptionalBool e name b = e @ encodeFields [(name, canonicalBool, map_option boolBytes b)]"
  "writeOptionalInt32 e name i = e @ encodeFields [(name, canonicalInt32, map_option encodeInt32 i)]"
  "writeOptionalEnum e name i = e @ encodeFields [(name, canonicalEnum, map_option encodeInt32 i)]"
  by (simp_all add: writeOptionalString_def writeOptionalBool_def writeOptionalInt32_def
      writeOptionalEnum_def writeField_append boolBytes_def split: option.split)

section \<open>The framing is unambiguous\<close>

lemma of_nat_u64_inject:
  assumes "of_nat a = (of_nat b :: u64)" "a < 2 ^ 64" "b < 2 ^ 64"
  shows "a = b"
proof -
  have "unat (of_nat a :: u64) = a" "unat (of_nat b :: u64) = b"
    using assms(2,3) by (simp_all add: unat_of_nat)
  then show ?thesis
    using assms(1) by metis
qed

lemma frame_inject:
  assumes "frame v @ r = frame v' @ r'" "length v < 2 ^ 64" "length v' < 2 ^ 64"
  shows "v = v' \<and> r = r'"
proof -
  have eq: "AppendUvarint (of_nat (length v)) @ v @ r = AppendUvarint (of_nat (length v')) @ v' @ r'"
    using assms(1) by (simp add: frame_def)
  from eq have u: "nextUvarint () (AppendUvarint (of_nat (length v)) @ v @ r) =
      nextUvarint () (AppendUvarint (of_nat (length v')) @ v' @ r')"
    by simp
  then have "of_nat (length v) = (of_nat (length v') :: u64)" and rest: "v @ r = v' @ r'"
    by (simp_all add: nextUvarint_AppendUvarint)
  then have "length v = length v'"
    using assms(2,3) by (intro of_nat_u64_inject)
  then show ?thesis
    using rest by simp
qed

lemma length_frame_ge: "length v \<le> length (frame v)"
  by (simp add: frame_def)

lemma encodeField_inject:
  assumes eq: "encodeField (name, t, p) @ r = encodeField (name, t, p') @ r'"
    and bound: "length (encodeField (name, t, p) @ r) < 2 ^ 64"
  shows "p = p' \<and> r = r'"
proof (cases p)
  case None
  then show ?thesis
    using eq by (cases p') auto
next
  case (Some v)
  then obtain v' where p': "p' = Some v'"
    using eq by (cases p') auto
  have eq': "frame v @ r = frame v' @ r'"
    using eq Some p' by simp
  have "length v < 2 ^ 64"
    using bound Some length_frame_ge [of v] by simp
  moreover have "length v' \<le> length (frame v @ r)"
    using length_frame_ge [of v'] by (simp add: eq')
  then have "length v' < 2 ^ 64"
    using bound Some by simp
  ultimately show ?thesis
    using frame_inject [OF eq'] Some p' by simp
qed

lemma encodeFields_inject:
  assumes "map (\<lambda>(n, t, p). (n, t)) fs = map (\<lambda>(n, t, p). (n, t)) gs"
    and "encodeFields fs = encodeFields gs" and "length (encodeFields fs) < 2 ^ 64"
  shows "fs = gs"
  using assms
proof (induction fs arbitrary: gs)
  case (Cons f fs)
  obtain n t p where f: "f = (n, t, p)"
    by (cases f)
  obtain p' gs' where gs: "gs = (n, t, p') # gs'" and sk: "map (\<lambda>(n, t, p). (n, t)) fs = map (\<lambda>(n, t, p). (n, t)) gs'"
    using Cons.prems(1) f by (auto simp: map_eq_Cons_conv)
  have "encodeField (n, t, p) @ encodeFields fs = encodeField (n, t, p') @ encodeFields gs'"
    using Cons.prems(2) f gs by (simp add: encodeFields_def del: encodeField.simps)
  moreover have b: "length (encodeField (n, t, p) @ encodeFields fs) < 2 ^ 64"
    using Cons.prems(3) f by (simp add: encodeFields_def)
  ultimately have "p = p' \<and> encodeFields fs = encodeFields gs'"
    by (rule encodeField_inject)
  moreover have "length (encodeFields fs) < 2 ^ 64"
    using b by simp
  ultimately show ?case
    using Cons.IH [OF sk] f gs by simp
qed simp

lemma elements_inject:
  assumes "length es = length es'"
    and "concat (map (\<lambda>x. 1 # frame x) es) = concat (map (\<lambda>x. 1 # frame x) es')"
    and "length (concat (map (\<lambda>x. 1 # frame x) es)) < 2 ^ 64"
  shows "es = es'"
  using assms
proof (induction es es' rule: list_induct2)
  case (Cons x xs y ys)
  have eq: "frame x @ concat (map (\<lambda>x. 1 # frame x) xs) = frame y @ concat (map (\<lambda>x. 1 # frame x) ys)"
    using Cons.prems(1) by simp
  have "length y \<le> length (frame x @ concat (map (\<lambda>x. 1 # frame x) xs))"
    using length_frame_ge [of y] by (simp add: eq)
  then have "length y < 2 ^ 64"
    using Cons.prems(2) by simp
  moreover have "length x < 2 ^ 64"
    using Cons.prems(2) length_frame_ge [of x] by simp
  ultimately have "x = y \<and> concat (map (\<lambda>x. 1 # frame x) xs) = concat (map (\<lambda>x. 1 # frame x) ys)"
    by (intro frame_inject [OF eq])
  then show ?case
    using Cons.IH Cons.prems(2) by simp
qed simp

lemma length_elements_ge: "length es \<le> length (concat (map (\<lambda>x. 1 # frame x) es))"
  by (induction es) simp_all

lemma listPayload_inject:
  assumes eq: "listPayload t es = listPayload t es'" and bound: "length (listPayload t es) < 2 ^ 64"
  shows "es = es'"
proof -
  let ?c = "\<lambda>es. concat (map (\<lambda>x. (1 :: byte) # frame x) es)"
  have "nextUvarint () (AppendUvarint (of_nat (length es)) @ ?c es) =
      nextUvarint () (AppendUvarint (of_nat (length es')) @ ?c es')"
    using eq by (simp add: listPayload_def)
  then have n: "of_nat (length es) = (of_nat (length es') :: u64)" and c: "?c es = ?c es'"
    by (simp_all add: nextUvarint_AppendUvarint)
  have len: "length (?c es) < 2 ^ 64"
    using bound by (simp add: listPayload_def)
  moreover have "length (?c es') < 2 ^ 64"
    using len c by simp
  ultimately have "length es < 2 ^ 64" "length es' < 2 ^ 64"
    using length_elements_ge [of es] length_elements_ge [of es'] by linarith+
  then have "length es = length es'"
    using n by (intro of_nat_u64_inject)
  then show ?thesis
    using elements_inject c len by blast
qed

lemma encodeInt32_inject: "encodeInt32 v = encodeInt32 w \<longleftrightarrow> v = w"
proof
  assume eq: "encodeInt32 v = encodeInt32 w"
  show "v = w"
  proof (rule bit_word_eqI)
    fix n assume "n < LENGTH(32)"
    then have n: "n < 32" by simp
    have b: "bit (ucast (drop_bit k v) :: byte) j = bit (ucast (drop_bit k w) :: byte) j" if "k \<in> {0, 8, 16, 24}" for k j
      using eq that by (auto simp: encodeInt32_def)
    have "bit v (k + j) = bit w (k + j)" if "k \<in> {0, 8, 16, 24}" "j < 8" for k j
      using b [OF that(1), of j] that(2) by (simp add: bit_unsigned_iff bit_drop_bit_eq)
    moreover have "\<exists>k \<in> {0, 8, 16, 24}. \<exists>j < 8. n = k + j"
    proof -
      have "n = (n div 8) * 8 + n mod 8" by simp
      moreover have "n div 8 \<in> {0, 1, 2, 3}" using n by auto
      ultimately show ?thesis by fastforce
    qed
    ultimately show "bit v n = bit w n" by blast
  qed
qed simp

section \<open>Meaning\<close>

text \<open>
  What the hash of a rule is meant to depend on: its scalar fields with their presence, and its
  collections as multisets, absent messages left out. Locations, licenses, selector lists and the
  \<open>generator_location\<close> attribute are not part of it.
\<close>

definition present :: "'a option list \<Rightarrow> 'a list" where
  "present vs = List.map_filter (\<lambda>v. v) vs"

definition filesetMeaning where
  "filesetMeaning e = (fe_Source e, fe_DestinationDirectory e, fe_FilesPresent e, mset (fe_File e),
     mset (fe_Exclude e), fe_SymlinkBehavior e, fe_StripPrefix e)"

definition labelListMeaning where
  "labelListMeaning e = (ll_Key e, mset (ll_Value e))"

definition stringListMeaning where
  "stringListMeaning e = (sl_Key e, mset (sl_Value e))"

definition messagesMeaning :: "('a \<Rightarrow> 'm) \<Rightarrow> 'a option list \<Rightarrow> 'm multiset" where
  "messagesMeaning m vs = mset (map m (present vs))"

definition attributeMeaning where
  "attributeMeaning (a :: Attribute) =
    ((at_Name a, at_ExplicitlySpecified a, at_Nodep a, at_Type a),
     (at_IntValue a, at_StringValue a, at_BooleanValue a, at_TristateValue a),
     (mset (at_StringListValue a), mset (at_IntListValue a)),
     (messagesMeaning (\<lambda>e. (sd_Key e, sd_Value e)) (at_StringDictValue a),
      messagesMeaning filesetMeaning (at_FilesetListValue a),
      messagesMeaning labelListMeaning (at_LabelListDictValue a),
      messagesMeaning stringListMeaning (at_StringListDictValue a),
      messagesMeaning (\<lambda>e. (lu_Key e, lu_Value e)) (at_LabelDictUnaryValue a),
      messagesMeaning (\<lambda>e. (lk_Key e, lk_Value e)) (at_LabelKeyedStringDictValue a)))"

definition ruleMeaning where
  "ruleMeaning (r :: Rule) =
    ((ru_Name r, ru_RuleClass r, ru_SkylarkEnvironmentHashCode r),
     mset (map attributeMeaning (hashedAttributes r)),
     (mset (ru_RuleInput r), mset (ru_RuleOutput r), mset (ru_DefaultSetting r)))"

section \<open>Payloads\<close>

lemma mset_map_eq_transfer:
  assumes eq: "mset (map f xs) = mset (map f ys)"
    and fg: "\<And>x y. x \<in> set (xs @ ys) \<Longrightarrow> y \<in> set (xs @ ys) \<Longrightarrow> f x = f y \<Longrightarrow> g x = g y"
  shows "mset (map g xs) = mset (map g ys)"
proof -
  define h where "h b = g (SOME z. z \<in> set (xs @ ys) \<and> f z = b)" for b
  have h: "h (f x) = g x" if "x \<in> set (xs @ ys)" for x
  proof -
    have "(SOME z. z \<in> set (xs @ ys) \<and> f z = f x) \<in> set (xs @ ys) \<and>
        f (SOME z. z \<in> set (xs @ ys) \<and> f z = f x) = f x"
      by (rule someI [where x = x]) (use that in simp)
    then show ?thesis
      unfolding h_def by (intro fg that) simp_all
  qed
  have "image_mset h (mset (map f xs)) = mset (map g xs)" "image_mset h (mset (map f ys)) = mset (map g ys)"
    by (auto simp: h simp flip: mset_map intro!: arg_cong [where f = mset])
  then show ?thesis
    using eq by metis
qed

lemma sort_cong_mset: "mset xs = mset ys \<Longrightarrow> sort xs = sort (ys :: 'a :: linorder list)"
  by (rule properties_for_sort) simp_all

lemma length_element_le: "x \<in> set es \<Longrightarrow> length x \<le> length (listPayload t es)"
proof -
  assume "x \<in> set es"
  then have "length x \<le> length (concat (map (\<lambda>x. (1 :: byte) # frame x) es))"
    by (induction es) (auto simp: frame_def)
  then show ?thesis
    by (simp add: listPayload_def)
qed

lemma length_payload_le: "(n, t, Some p) \<in> set fs \<Longrightarrow> length p \<le> length (encodeFields fs)"
  by (induction fs) (auto simp: encodeFields_def frame_def)

definition stringsPayload :: "string list \<Rightarrow> bytes" where
  "stringsPayload vs = listPayload canonicalString (map bytes_of (sort vs))"

definition int32sPayload :: "i32 list \<Rightarrow> bytes" where
  "int32sPayload vs = listPayload canonicalInt32 (map encodeInt32 (sort_key sint vs))"

definition messagesPayload :: "('a \<Rightarrow> bytes) \<Rightarrow> 'a option list \<Rightarrow> bytes" where
  "messagesPayload encode vs = listPayload canonicalMessage (sort (map encode (present vs)))"

lemma inj_bytes_of: "inj bytes_of"
  by (simp add: inj_def)

lemma inj_encodeInt32: "inj encodeInt32"
  by (simp add: inj_def encodeInt32_inject)

lemma inj_sint: "inj (sint :: i32 \<Rightarrow> int)"
  by (rule inj_on_inverseI [where g = word_of_int]) simp

lemma stringsPayload_eq:
  assumes "length (stringsPayload vs) < 2 ^ 64"
  shows "stringsPayload vs = stringsPayload ws \<longleftrightarrow> mset vs = mset ws"
proof
  assume "stringsPayload vs = stringsPayload ws"
  then have "map bytes_of (sort vs) = map bytes_of (sort ws)"
    using assms unfolding stringsPayload_def by (rule listPayload_inject)
  then have "sort vs = sort ws"
    by (simp add: inj_map_eq_map [OF inj_bytes_of])
  then show "mset vs = mset ws"
    by (metis mset_sort)
qed (simp add: stringsPayload_def sort_cong_mset [of vs ws])

lemma int32sPayload_eq:
  assumes "length (int32sPayload vs) < 2 ^ 64"
  shows "int32sPayload vs = int32sPayload ws \<longleftrightarrow> mset vs = mset ws"
proof
  assume "int32sPayload vs = int32sPayload ws"
  then have "map encodeInt32 (sort_key sint vs) = map encodeInt32 (sort_key sint ws)"
    using assms unfolding int32sPayload_def by (rule listPayload_inject)
  then have "sort_key sint vs = sort_key sint ws"
    by (simp add: inj_map_eq_map [OF inj_encodeInt32])
  then show "mset vs = mset ws"
    by (metis mset_sort)
next
  assume eq: "mset vs = mset ws"
  have "sort_key sint vs = sort_key sint ws"
    using eq inj_sint by (intro sort_key_inj_key_eq) (auto simp: inj_on_def inj_def)
  then show "int32sPayload vs = int32sPayload ws"
    by (simp add: int32sPayload_def)
qed

lemma messagesPayload_eq:
  assumes bound: "length (messagesPayload enc vs) < 2 ^ 64"
    and enc: "\<And>x y. length (enc x) < 2 ^ 64 \<Longrightarrow> enc x = enc y \<longleftrightarrow> m x = m y"
  shows "messagesPayload enc vs = messagesPayload enc ws \<longleftrightarrow> messagesMeaning m vs = messagesMeaning m ws"
proof -
  have small: "length (enc x) < 2 ^ 64" if "x \<in> set (present vs)" for x
    using length_element_le [of "enc x" "sort (map enc (present vs))" canonicalMessage] bound that
    by (simp add: messagesPayload_def)
  show ?thesis
  proof
    assume eq: "messagesPayload enc vs = messagesPayload enc ws"
    then have "sort (map enc (present vs)) = sort (map enc (present ws))"
      using bound unfolding messagesPayload_def by (rule listPayload_inject)
    then have M: "mset (map enc (present vs)) = mset (map enc (present ws))"
      by (metis mset_sort)
    have img: "enc ` set (present vs) = enc ` set (present ws)"
      using mset_eq_setD [OF M] by simp
    have small': "length (enc x) < 2 ^ 64" if "x \<in> set (present vs @ present ws)" for x
    proof -
      have "enc x \<in> enc ` set (present vs)"
        using that img by auto
      then show ?thesis
        using small by (metis imageE)
    qed
    show "messagesMeaning m vs = messagesMeaning m ws"
      unfolding messagesMeaning_def
      by (rule mset_map_eq_transfer [OF M]) (simp only: enc [OF small', symmetric])
  next
    assume M: "messagesMeaning m vs = messagesMeaning m ws"
    have img: "m ` set (present vs) = m ` set (present ws)"
      using mset_eq_setD [OF M [unfolded messagesMeaning_def]] by simp
    have e: "enc x = enc y" if "x \<in> set (present vs @ present ws)" "m x = m y" for x y
    proof -
      have "m x \<in> m ` set (present vs)"
        using that(1) img by auto
      then obtain z where z: "z \<in> set (present vs)" "m z = m x"
        by force
      then have "enc z = enc x" "enc z = enc y"
        using enc [OF small [OF z(1)]] that(2) by simp_all
      then show ?thesis
        by simp
    qed
    have "mset (map enc (present vs)) = mset (map enc (present ws))"
      by (rule mset_map_eq_transfer [OF M [unfolded messagesMeaning_def]]) (rule e)
    then show "messagesPayload enc vs = messagesPayload enc ws"
      by (simp only: messagesPayload_def sort_cong_mset [of "map enc (present vs)" "map enc (present ws)"])
  qed
qed

section \<open>Messages as field lists\<close>

lemma writeSorted_append:
  "writeSortedStrings e name vs = e @ encodeFields [(name, canonicalList, Some (stringsPayload vs))]"
  "writeSortedInt32s e name is = e @ encodeFields [(name, canonicalList, Some (int32sPayload is))]"
  "writeSortedMessages e name ms enc = e @ encodeFields [(name, canonicalList, Some (messagesPayload enc ms))]"
  by (simp_all add: writeSortedStrings_def writeSortedInt32s_def writeSortedMessages_def writeList_append
      stringsPayload_def int32sPayload_def messagesPayload_def sortElements_def present_def)

lemma encodeMessage_fields:
  "encodeMessage name f = f (encodeFields [(''message_type'', canonicalString, Some (bytes_of name))])"
  by (simp add: encodeMessage_def writeField_append)

lemmas field_list = encodeMessage_fields writeSorted_append writeOptional_append writeList_append
  Let_def append_assoc [symmetric] encodeFields_append [symmetric] append.simps

lemma encodeStringDictEntry_fields:
  "encodeStringDictEntry e = encodeFields
    [(''message_type'', canonicalString, Some (bytes_of ''StringDictEntry'')),
     (''key'', canonicalString, map_option bytes_of (sd_Key e)),
     (''value'', canonicalString, map_option bytes_of (sd_Value e))]"
  by (simp only: encodeStringDictEntry_def field_list)

lemma encodeFilesetEntry_fields:
  "encodeFilesetEntry e = encodeFields
    [(''message_type'', canonicalString, Some (bytes_of ''FilesetEntry'')),
     (''source'', canonicalString, map_option bytes_of (fe_Source e)),
     (''destination_directory'', canonicalString, map_option bytes_of (fe_DestinationDirectory e)),
     (''files_present'', canonicalBool, map_option boolBytes (fe_FilesPresent e)),
     (''file'', canonicalList, Some (stringsPayload (fe_File e))),
     (''exclude'', canonicalList, Some (stringsPayload (fe_Exclude e))),
     (''symlink_behavior'', canonicalEnum, map_option encodeInt32 (fe_SymlinkBehavior e)),
     (''strip_prefix'', canonicalString, map_option bytes_of (fe_StripPrefix e))]"
  by (simp only: encodeFilesetEntry_def field_list)

lemma encodeLabelListDictEntry_fields:
  "encodeLabelListDictEntry e = encodeFields
    [(''message_type'', canonicalString, Some (bytes_of ''LabelListDictEntry'')),
     (''key'', canonicalString, map_option bytes_of (ll_Key e)),
     (''value'', canonicalList, Some (stringsPayload (ll_Value e)))]"
  by (simp only: encodeLabelListDictEntry_def field_list)

lemma encodeStringListDictEntry_fields:
  "encodeStringListDictEntry e = encodeFields
    [(''message_type'', canonicalString, Some (bytes_of ''StringListDictEntry'')),
     (''key'', canonicalString, map_option bytes_of (sl_Key e)),
     (''value'', canonicalList, Some (stringsPayload (sl_Value e)))]"
  by (simp only: encodeStringListDictEntry_def field_list)

lemma encodeLabelDictUnaryEntry_fields:
  "encodeLabelDictUnaryEntry e = encodeFields
    [(''message_type'', canonicalString, Some (bytes_of ''LabelDictUnaryEntry'')),
     (''key'', canonicalString, map_option bytes_of (lu_Key e)),
     (''value'', canonicalString, map_option bytes_of (lu_Value e))]"
  by (simp only: encodeLabelDictUnaryEntry_def field_list)

lemma encodeLabelKeyedStringDictEntry_fields:
  "encodeLabelKeyedStringDictEntry e = encodeFields
    [(''message_type'', canonicalString, Some (bytes_of ''LabelKeyedStringDictEntry'')),
     (''key'', canonicalString, map_option bytes_of (lk_Key e)),
     (''value'', canonicalString, map_option bytes_of (lk_Value e))]"
  by (simp only: encodeLabelKeyedStringDictEntry_def field_list)

lemma encodeAttribute_fields:
  "encodeAttribute a = encodeFields
    [(''message_type'', canonicalString, Some (bytes_of ''Attribute'')),
     (''name'', canonicalString, map_option bytes_of (at_Name a)),
     (''explicitly_specified'', canonicalBool, map_option boolBytes (at_ExplicitlySpecified a)),
     (''nodep'', canonicalBool, map_option boolBytes (at_Nodep a)),
     (''type'', canonicalEnum, map_option encodeInt32 (at_Type a)),
     (''int_value'', canonicalInt32, map_option encodeInt32 (at_IntValue a)),
     (''string_value'', canonicalString, map_option bytes_of (at_StringValue a)),
     (''boolean_value'', canonicalBool, map_option boolBytes (at_BooleanValue a)),
     (''tristate_value'', canonicalEnum, map_option encodeInt32 (at_TristateValue a)),
     (''string_list_value'', canonicalList, Some (stringsPayload (at_StringListValue a))),
     (''string_dict_value'', canonicalList, Some (messagesPayload encodeStringDictEntry (at_StringDictValue a))),
     (''fileset_list_value'', canonicalList, Some (messagesPayload encodeFilesetEntry (at_FilesetListValue a))),
     (''label_list_dict_value'', canonicalList, Some (messagesPayload encodeLabelListDictEntry (at_LabelListDictValue a))),
     (''string_list_dict_value'', canonicalList, Some (messagesPayload encodeStringListDictEntry (at_StringListDictValue a))),
     (''int_list_value'', canonicalList, Some (int32sPayload (at_IntListValue a))),
     (''label_dict_unary_value'', canonicalList, Some (messagesPayload encodeLabelDictUnaryEntry (at_LabelDictUnaryValue a))),
     (''label_keyed_string_dict_value'', canonicalList,
       Some (messagesPayload encodeLabelKeyedStringDictEntry (at_LabelKeyedStringDictValue a)))]"
  by (simp only: encodeAttribute_def field_list)

definition attributesPayload :: "Rule \<Rightarrow> bytes" where
  "attributesPayload r = listPayload canonicalMessage
     (map encodeAttribute (sort_key (\<lambda>a. getString (at_Name a)) (hashedAttributes r)))"

lemma encodeRule_fields:
  "encodeRule r = encodeFields
    [(''message_type'', canonicalString, Some (bytes_of ''Rule'')),
     (''name'', canonicalString, map_option bytes_of (ru_Name r)),
     (''rule_class'', canonicalString, map_option bytes_of (ru_RuleClass r)),
     (''attribute'', canonicalList, Some (attributesPayload r)),
     (''rule_input'', canonicalList, Some (stringsPayload (ru_RuleInput r))),
     (''rule_output'', canonicalList, Some (stringsPayload (ru_RuleOutput r))),
     (''default_setting'', canonicalList, Some (stringsPayload (ru_DefaultSetting r))),
     (''skylark_environment_hash_code'', canonicalString, map_option bytes_of (ru_SkylarkEnvironmentHashCode r))]"
  by (simp only: encodeRule_def attributesPayload_def field_list)

section \<open>The encoding determines the meaning\<close>

lemma encodeFields_eq:
  assumes "length (encodeFields fs) < 2 ^ 64" "map (\<lambda>(n, t, p). (n, t)) fs = map (\<lambda>(n, t, p). (n, t)) gs"
  shows "encodeFields fs = encodeFields gs \<longleftrightarrow> fs = gs"
  using encodeFields_inject [OF assms(2) _ assms(1)] by blast

lemma map_option_payload_eq [simp]:
  "map_option bytes_of s = map_option bytes_of s' \<longleftrightarrow> s = s'"
  "map_option boolBytes b = map_option boolBytes b' \<longleftrightarrow> b = b'"
  "map_option encodeInt32 i = map_option encodeInt32 i' \<longleftrightarrow> i = i'"
proof -
  have "inj boolBytes"
    by (auto simp: inj_def boolBytes_def split: if_splits)
  then show "map_option boolBytes b = map_option boolBytes b' \<longleftrightarrow> b = b'"
    by (metis injD option.inj_map)
qed (metis injD option.inj_map inj_bytes_of inj_encodeInt32)+

lemma payload_small:
  "length (encodeFields fs) < 2 ^ 64 \<Longrightarrow> (n, t, Some p) \<in> set fs \<Longrightarrow> length p < 2 ^ 64"
  using length_payload_le by (rule le_less_trans)

lemma encodeStringDictEntry_eq:
  assumes "length (encodeStringDictEntry x) < 2 ^ 64"
  shows "encodeStringDictEntry x = encodeStringDictEntry y \<longleftrightarrow> (sd_Key x, sd_Value x) = (sd_Key y, sd_Value y)"
  using encodeFields_eq [OF assms [unfolded encodeStringDictEntry_fields]]
  unfolding encodeStringDictEntry_fields by simp

lemma encodeLabelDictUnaryEntry_eq:
  assumes "length (encodeLabelDictUnaryEntry x) < 2 ^ 64"
  shows "encodeLabelDictUnaryEntry x = encodeLabelDictUnaryEntry y \<longleftrightarrow> (lu_Key x, lu_Value x) = (lu_Key y, lu_Value y)"
  using encodeFields_eq [OF assms [unfolded encodeLabelDictUnaryEntry_fields]]
  unfolding encodeLabelDictUnaryEntry_fields by simp

lemma encodeLabelKeyedStringDictEntry_eq:
  assumes "length (encodeLabelKeyedStringDictEntry x) < 2 ^ 64"
  shows "encodeLabelKeyedStringDictEntry x = encodeLabelKeyedStringDictEntry y \<longleftrightarrow>
    (lk_Key x, lk_Value x) = (lk_Key y, lk_Value y)"
  using encodeFields_eq [OF assms [unfolded encodeLabelKeyedStringDictEntry_fields]]
  unfolding encodeLabelKeyedStringDictEntry_fields by simp

lemma encodeLabelListDictEntry_eq:
  assumes "length (encodeLabelListDictEntry x) < 2 ^ 64"
  shows "encodeLabelListDictEntry x = encodeLabelListDictEntry y \<longleftrightarrow> labelListMeaning x = labelListMeaning y"
proof -
  note b = assms [unfolded encodeLabelListDictEntry_fields]
  have p: "length (stringsPayload (ll_Value x)) < 2 ^ 64"
    by (rule payload_small [OF b, of "''value''" canonicalList]) simp
  show ?thesis
    using encodeFields_eq [OF b] stringsPayload_eq [OF p]
    unfolding encodeLabelListDictEntry_fields labelListMeaning_def by simp
qed

lemma encodeStringListDictEntry_eq:
  assumes "length (encodeStringListDictEntry x) < 2 ^ 64"
  shows "encodeStringListDictEntry x = encodeStringListDictEntry y \<longleftrightarrow> stringListMeaning x = stringListMeaning y"
proof -
  note b = assms [unfolded encodeStringListDictEntry_fields]
  have p: "length (stringsPayload (sl_Value x)) < 2 ^ 64"
    by (rule payload_small [OF b, of "''value''" canonicalList]) simp
  show ?thesis
    using encodeFields_eq [OF b] stringsPayload_eq [OF p]
    unfolding encodeStringListDictEntry_fields stringListMeaning_def by simp
qed

lemma encodeFilesetEntry_eq:
  assumes "length (encodeFilesetEntry x) < 2 ^ 64"
  shows "encodeFilesetEntry x = encodeFilesetEntry y \<longleftrightarrow> filesetMeaning x = filesetMeaning y"
proof -
  note b = assms [unfolded encodeFilesetEntry_fields]
  have p1: "length (stringsPayload (fe_File x)) < 2 ^ 64"
    by (rule payload_small [OF b, of "''file''" canonicalList]) simp
  have p2: "length (stringsPayload (fe_Exclude x)) < 2 ^ 64"
    by (rule payload_small [OF b, of "''exclude''" canonicalList]) simp
  show ?thesis
    using encodeFields_eq [OF b] stringsPayload_eq [OF p1] stringsPayload_eq [OF p2]
    unfolding encodeFilesetEntry_fields filesetMeaning_def by simp
qed

lemma encodeAttribute_eq:
  assumes "length (encodeAttribute x) < 2 ^ 64"
  shows "encodeAttribute x = encodeAttribute y \<longleftrightarrow> attributeMeaning x = attributeMeaning y"
proof -
  note b = assms [unfolded encodeAttribute_fields]
  have p1: "length (stringsPayload (at_StringListValue x)) < 2 ^ 64"
    by (rule payload_small [OF b, of "''string_list_value''" canonicalList]) simp
  have p2: "length (int32sPayload (at_IntListValue x)) < 2 ^ 64"
    by (rule payload_small [OF b, of "''int_list_value''" canonicalList]) simp
  have p3: "length (messagesPayload encodeStringDictEntry (at_StringDictValue x)) < 2 ^ 64"
    by (rule payload_small [OF b, of "''string_dict_value''" canonicalList]) simp
  have p4: "length (messagesPayload encodeFilesetEntry (at_FilesetListValue x)) < 2 ^ 64"
    by (rule payload_small [OF b, of "''fileset_list_value''" canonicalList]) simp
  have p5: "length (messagesPayload encodeLabelListDictEntry (at_LabelListDictValue x)) < 2 ^ 64"
    by (rule payload_small [OF b, of "''label_list_dict_value''" canonicalList]) simp
  have p6: "length (messagesPayload encodeStringListDictEntry (at_StringListDictValue x)) < 2 ^ 64"
    by (rule payload_small [OF b, of "''string_list_dict_value''" canonicalList]) simp
  have p7: "length (messagesPayload encodeLabelDictUnaryEntry (at_LabelDictUnaryValue x)) < 2 ^ 64"
    by (rule payload_small [OF b, of "''label_dict_unary_value''" canonicalList]) simp
  have p8: "length (messagesPayload encodeLabelKeyedStringDictEntry (at_LabelKeyedStringDictValue x)) < 2 ^ 64"
    by (rule payload_small [OF b, of "''label_keyed_string_dict_value''" canonicalList]) simp
  have m3: "messagesPayload encodeStringDictEntry (at_StringDictValue x) = messagesPayload encodeStringDictEntry ws \<longleftrightarrow>
      messagesMeaning (\<lambda>e. (sd_Key e, sd_Value e)) (at_StringDictValue x) = messagesMeaning (\<lambda>e. (sd_Key e, sd_Value e)) ws" for ws
    by (rule messagesPayload_eq [OF p3]) (rule encodeStringDictEntry_eq)
  have m4: "messagesPayload encodeFilesetEntry (at_FilesetListValue x) = messagesPayload encodeFilesetEntry ws \<longleftrightarrow>
      messagesMeaning filesetMeaning (at_FilesetListValue x) = messagesMeaning filesetMeaning ws" for ws
    by (rule messagesPayload_eq [OF p4]) (rule encodeFilesetEntry_eq)
  have m5: "messagesPayload encodeLabelListDictEntry (at_LabelListDictValue x) = messagesPayload encodeLabelListDictEntry ws \<longleftrightarrow>
      messagesMeaning labelListMeaning (at_LabelListDictValue x) = messagesMeaning labelListMeaning ws" for ws
    by (rule messagesPayload_eq [OF p5]) (rule encodeLabelListDictEntry_eq)
  have m6: "messagesPayload encodeStringListDictEntry (at_StringListDictValue x) = messagesPayload encodeStringListDictEntry ws \<longleftrightarrow>
      messagesMeaning stringListMeaning (at_StringListDictValue x) = messagesMeaning stringListMeaning ws" for ws
    by (rule messagesPayload_eq [OF p6]) (rule encodeStringListDictEntry_eq)
  have m7: "messagesPayload encodeLabelDictUnaryEntry (at_LabelDictUnaryValue x) = messagesPayload encodeLabelDictUnaryEntry ws \<longleftrightarrow>
      messagesMeaning (\<lambda>e. (lu_Key e, lu_Value e)) (at_LabelDictUnaryValue x) = messagesMeaning (\<lambda>e. (lu_Key e, lu_Value e)) ws" for ws
    by (rule messagesPayload_eq [OF p7]) (rule encodeLabelDictUnaryEntry_eq)
  have m8: "messagesPayload encodeLabelKeyedStringDictEntry (at_LabelKeyedStringDictValue x) = messagesPayload encodeLabelKeyedStringDictEntry ws \<longleftrightarrow>
      messagesMeaning (\<lambda>e. (lk_Key e, lk_Value e)) (at_LabelKeyedStringDictValue x) = messagesMeaning (\<lambda>e. (lk_Key e, lk_Value e)) ws" for ws
    by (rule messagesPayload_eq [OF p8]) (rule encodeLabelKeyedStringDictEntry_eq)
  show ?thesis
    unfolding encodeAttribute_fields
    by (subst encodeFields_eq [OF b]) (simp_all add: attributeMeaning_def stringsPayload_eq [OF p1] int32sPayload_eq [OF p2]
        m3 m4 m5 m6 m7 m8 conj_ac)
qed

lemma map_eq_transfer:
  "(\<And>x y. x \<in> set xs \<Longrightarrow> f x = f y \<Longrightarrow> g x = g y) \<Longrightarrow> map f xs = map f ys \<Longrightarrow> map g xs = map g ys"
proof (induction xs arbitrary: ys)
  case (Cons x xs)
  obtain y ys' where ys: "ys = y # ys'" "f x = f y" "map f xs = map f ys'"
    using Cons.prems(2) by (cases ys) simp_all
  have "map g xs = map g ys'"
    using Cons.prems(1) ys(3) by (intro Cons.IH) (metis list.set_intros(2))
  then show ?case
    using Cons.prems(1) [of x y] ys by simp
qed simp

lemma sort_key_map_key: "map f (sort_key (\<lambda>x. k (f x)) xs) = sort_key k (map f xs)"
proof (induction xs)
  case (Cons x xs)
  have "map f (insort_key (\<lambda>x. k (f x)) x ys) = insort_key k (f x) (map f ys)" for ys
    by (induction ys) auto
  then show ?case
    using Cons by simp
qed simp

lemma attributesPayload_eq:
  assumes bound: "length (attributesPayload r) < 2 ^ 64"
    and dist: "distinct (map (\<lambda>a. getString (at_Name a)) (hashedAttributes r))"
  shows "attributesPayload r = attributesPayload r' \<longleftrightarrow>
    mset (map attributeMeaning (hashedAttributes r)) = mset (map attributeMeaning (hashedAttributes r'))"
proof -
  let ?k = "\<lambda>m. getString (fst (fst m))"
  let ?nm = "\<lambda>a. getString (at_Name a)"
  have k: "?nm = (\<lambda>a. ?k (attributeMeaning a))"
    by (simp add: attributeMeaning_def)
  have sorted_meaning: "map attributeMeaning (sort_key ?nm as) = sort_key ?k (map attributeMeaning as)" for as
    unfolding k by (rule sort_key_map_key)
  have small: "length (encodeAttribute a) < 2 ^ 64" if "a \<in> set (sort_key ?nm (hashedAttributes r))" for a
    by (rule le_less_trans [OF length_element_le bound [unfolded attributesPayload_def]]) (use that in simp)
  have "attributesPayload r = attributesPayload r' \<longleftrightarrow>
      map encodeAttribute (sort_key ?nm (hashedAttributes r)) = map encodeAttribute (sort_key ?nm (hashedAttributes r'))"
    unfolding attributesPayload_def
    by (rule iffI, erule listPayload_inject [OF _ bound [unfolded attributesPayload_def]]) (simp only:)
  also have "\<dots> \<longleftrightarrow> map attributeMeaning (sort_key ?nm (hashedAttributes r)) =
      map attributeMeaning (sort_key ?nm (hashedAttributes r'))"
    by (rule iffI; erule map_eq_transfer [rotated])
      (erule (1) iffD1 [OF encodeAttribute_eq [OF small]], erule (1) iffD2 [OF encodeAttribute_eq [OF small]])
  also have "\<dots> \<longleftrightarrow> sort_key ?k (map attributeMeaning (hashedAttributes r)) =
      sort_key ?k (map attributeMeaning (hashedAttributes r'))"
    by (simp only: sorted_meaning)
  also have "\<dots> \<longleftrightarrow> mset (map attributeMeaning (hashedAttributes r)) = mset (map attributeMeaning (hashedAttributes r'))"
  proof
    assume "sort_key ?k (map attributeMeaning (hashedAttributes r)) =
      sort_key ?k (map attributeMeaning (hashedAttributes r'))"
    from arg_cong [OF this, of mset]
    show "mset (map attributeMeaning (hashedAttributes r)) = mset (map attributeMeaning (hashedAttributes r'))"
      by (simp only: mset_sort)
  next
    assume M: "mset (map attributeMeaning (hashedAttributes r)) = mset (map attributeMeaning (hashedAttributes r'))"
    have "distinct (map ?k (map attributeMeaning (hashedAttributes r)))"
      using dist by (simp add: comp_def k [symmetric])
    then have "inj_on ?k (set (map attributeMeaning (hashedAttributes r)))"
      by (simp only: distinct_map)
    then show "sort_key ?k (map attributeMeaning (hashedAttributes r)) =
        sort_key ?k (map attributeMeaning (hashedAttributes r'))"
      using M by (intro sort_key_inj_key_eq) simp_all
  qed
  finally show ?thesis .
qed

lemma encodeRule_eq:
  assumes bound: "length (encodeRule r) < 2 ^ 64"
    and dist: "distinct (map (\<lambda>a. getString (at_Name a)) (hashedAttributes r))"
  shows "encodeRule r = encodeRule r' \<longleftrightarrow> ruleMeaning r = ruleMeaning r'"
proof -
  note b = bound [unfolded encodeRule_fields]
  have p1: "length (attributesPayload r) < 2 ^ 64"
    by (rule payload_small [OF b, of "''attribute''" canonicalList]) simp
  have p2: "length (stringsPayload (ru_RuleInput r)) < 2 ^ 64"
    by (rule payload_small [OF b, of "''rule_input''" canonicalList]) simp
  have p3: "length (stringsPayload (ru_RuleOutput r)) < 2 ^ 64"
    by (rule payload_small [OF b, of "''rule_output''" canonicalList]) simp
  have p4: "length (stringsPayload (ru_DefaultSetting r)) < 2 ^ 64"
    by (rule payload_small [OF b, of "''default_setting''" canonicalList]) simp
  note payloads = attributesPayload_eq [OF p1 dist] stringsPayload_eq [OF p2] stringsPayload_eq [OF p3]
    stringsPayload_eq [OF p4]
  show ?thesis
    unfolding encodeRule_fields
    by (subst encodeFields_eq [OF b]) (simp_all add: ruleMeaning_def payloads conj_ac)
qed

end
