(* ===== verification/GoStrings.thy ===== *)
theory GoStrings
  imports Prelude
begin

text \<open>
  The operations of Go's packages \<open>strings\<close> and \<open>path/filepath\<close> that the components use, on strings
  as byte sequences; the paths are those of Unix.
\<close>

section \<open>Substrings\<close>

definition HasPrefix :: "string \<Rightarrow> string \<Rightarrow> bool" where
  "HasPrefix s p = (take (length p) s = p)"

definition HasSuffix :: "string \<Rightarrow> string \<Rightarrow> bool" where
  "HasSuffix s p = HasPrefix (rev s) (rev p)"

definition TrimPrefix :: "string \<Rightarrow> string \<Rightarrow> string" where
  "TrimPrefix s p = (if HasPrefix s p then drop (length p) s else s)"

definition TrimSuffix :: "string \<Rightarrow> string \<Rightarrow> string" where
  "TrimSuffix s p = (if HasSuffix s p then take (length s - length p) s else s)"

definition TrimLeft :: "string \<Rightarrow> string \<Rightarrow> string" where
  "TrimLeft s cutset = dropWhile (\<lambda>c. c \<in> set cutset) s"

text \<open>ASCII white space; the texts trimmed here are ASCII.\<close>

definition isSpace :: "char \<Rightarrow> bool" where
  "isSpace c = (of_char c \<in> {9, 10, 11, 12, 13, 32 :: nat})"

definition TrimSpace :: "string \<Rightarrow> string" where
  "TrimSpace s = rev (dropWhile isSpace (rev (dropWhile isSpace s)))"

fun strIndex :: "string \<Rightarrow> string \<Rightarrow> nat option" where
  "strIndex [] sep = (if sep = [] then Some 0 else None)"
| "strIndex (c # s) sep = (if HasPrefix (c # s) sep then Some 0 else map_option Suc (strIndex s sep))"

definition LastIndexOf :: "string \<Rightarrow> string \<Rightarrow> nat option" where
  "LastIndexOf s sep = map_option (\<lambda>i. length s - length sep - i) (strIndex (rev s) (rev sep))"

text \<open>\<open>before, after, found := strings.Cut(s, sep)\<close>.\<close>

definition Cut :: "string \<Rightarrow> string \<Rightarrow> string \<times> string \<times> bool" where
  "Cut s sep = (case strIndex s sep of
     None \<Rightarrow> (s, '''', False)
   | Some i \<Rightarrow> (take i s, drop (i + length sep) s, True))"

text \<open>\<open>strings.Split\<close> at a one-byte separator.\<close>

fun SplitByte :: "char \<Rightarrow> string \<Rightarrow> string list" where
  "SplitByte sep [] = [[]]"
| "SplitByte sep (c # s) = (if c = sep then [] # SplitByte sep s
     else case SplitByte sep s of [] \<Rightarrow> [[c]] | p # ps \<Rightarrow> (c # p) # ps)"

fun Join :: "string \<Rightarrow> string list \<Rightarrow> string" where
  "Join sep [] = ''''"
| "Join sep [p] = p"
| "Join sep (p # q # ps) = p @ sep @ Join sep (q # ps)"

section \<open>Paths\<close>

definition IsAbs :: "string \<Rightarrow> bool" where
  "IsAbs path = HasPrefix path ''/''"

text \<open>
  \<open>filepath.Clean\<close> on the elements between slashes: the elements kept so far are in reverse.
\<close>

fun cleanElems :: "bool \<Rightarrow> string list \<Rightarrow> string list \<Rightarrow> string list" where
  "cleanElems rooted out [] = rev out"
| "cleanElems rooted out (e # es) =
    (if e = '''' \<or> e = ''.'' then cleanElems rooted out es
     else if e = ''..'' then
       (case out of
          [] \<Rightarrow> cleanElems rooted (if rooted then [] else [e]) es
        | p # ps \<Rightarrow> cleanElems rooted (if p = ''..'' then e # out else ps) es)
     else cleanElems rooted (e # out) es)"

definition elems :: "string \<Rightarrow> string list" where
  "elems path = cleanElems (IsAbs path) [] (SplitByte (CHR ''/'') path)"

definition Clean :: "string \<Rightarrow> string" where
  "Clean path = (if IsAbs path then ''/'' @ Join ''/'' (elems path)
     else if elems path = [] then ''.'' else Join ''/'' (elems path))"

definition PathJoin :: "string list \<Rightarrow> string" where
  "PathJoin ps = (case filter (\<lambda>p. p \<noteq> '''') ps of [] \<Rightarrow> '''' | q # qs \<Rightarrow> Clean (Join ''/'' (q # qs)))"

definition Dir :: "string \<Rightarrow> string" where
  "Dir path = (case LastIndexOf path ''/'' of None \<Rightarrow> ''.'' | Some i \<Rightarrow> Clean (take (i + 1) path))"

fun stripCommon :: "'a list \<Rightarrow> 'a list \<Rightarrow> 'a list \<times> 'a list" where
  "stripCommon (a # as) (b # bs) = (if a = b then stripCommon as bs else (a # as, b # bs))"
| "stripCommon as bs = (as, bs)"

text \<open>
  \<open>filepath.Rel\<close> for an absolute target; \<open>None\<close> is its error "can't make target relative to base",
  which a relative base gives. The elements of an absolute path hold no \<open>..\<close>.
\<close>

definition Rel :: "string \<Rightarrow> string \<Rightarrow> string option" where
  "Rel base targ =
    (if \<not> IsAbs base then None
     else case stripCommon (elems base) (elems targ) of (up, down) \<Rightarrow>
       Some (case replicate (length up) ''..'' @ down of [] \<Rightarrow> ''.'' | ps \<Rightarrow> Join ''/'' ps))"

section \<open>Facts\<close>

lemma HasPrefix_append [simp]: "HasPrefix (p @ s) p"
  by (simp add: HasPrefix_def)

lemma HasPrefix_iff: "HasPrefix s p \<longleftrightarrow> (\<exists>t. s = p @ t)"
  unfolding HasPrefix_def by (metis append_eq_conv_conj append_take_drop_id)

lemma TrimPrefix_append [simp]: "TrimPrefix (p @ s) p = s"
  by (simp add: TrimPrefix_def)

lemma strIndex_append: "sep \<notin> {[]} \<Longrightarrow> hd sep \<notin> set s \<Longrightarrow> strIndex (s @ sep @ t) sep = Some (length s)"
proof (induction s)
  case Nil
  then show ?case
    by (cases sep) (auto simp: HasPrefix_def)
next
  case (Cons c s)
  then show ?case
    by (cases sep) (auto simp: HasPrefix_def)
qed

lemma Cut_append: "sep \<noteq> [] \<Longrightarrow> hd sep \<notin> set s \<Longrightarrow> Cut (s @ sep @ t) sep = (s, t, True)"
  by (simp add: Cut_def strIndex_append)

lemma SplitByte_not_Nil [simp]: "SplitByte sep s \<noteq> []"
  by (induction s) (auto split: list.split)

lemma Join_SplitByte: "Join [sep] (SplitByte sep s) = s"
proof (induction s)
  case (Cons c s)
  show ?case
  proof (cases "c = sep")
    case True
    obtain p ps where "SplitByte sep s = p # ps"
      by (cases "SplitByte sep s") simp_all
    then show ?thesis
      using Cons True by simp
  next
    case False
    then show ?thesis
      using Cons by (cases "SplitByte sep s" rule: remdups_adj.cases) auto
  qed
qed simp

lemma SplitByte_append: "sep \<notin> set p \<Longrightarrow> SplitByte sep (p @ sep # s) = p # SplitByte sep s"
  by (induction p) auto

lemma SplitByte_free: "sep \<notin> set p \<Longrightarrow> SplitByte sep p = [p]"
  by (induction p) auto

lemma SplitByte_Join:
  "ps \<noteq> [] \<Longrightarrow> list_all (\<lambda>p. sep \<notin> set p) ps \<Longrightarrow> SplitByte sep (Join [sep] ps) = ps"
  by (induction "[sep]" ps rule: Join.induct) (simp_all add: SplitByte_free SplitByte_append)

text \<open>An element that \<open>Clean\<close> keeps.\<close>

definition plainElem :: "string \<Rightarrow> bool" where
  "plainElem e = (e \<noteq> '''' \<and> e \<noteq> ''.'' \<and> e \<noteq> ''..'' \<and> CHR ''/'' \<notin> set e)"

lemma cleanElems_plain: "list_all plainElem es \<Longrightarrow> cleanElems rooted out es = rev out @ es"
  by (induction es arbitrary: out) (auto simp: plainElem_def)

lemma elems_plain:
  assumes "list_all plainElem es"
  shows "elems (''/'' @ Join ''/'' es) = es"
proof (cases "es = []")
  case True
  then show ?thesis
    by (simp add: elems_def IsAbs_def HasPrefix_def)
next
  case False
  have "list_all (\<lambda>p. CHR ''/'' \<notin> set p) es"
    using assms by (simp add: list_all_iff plainElem_def)
  then have "SplitByte (CHR ''/'') (Join ''/'' es) = es"
    using False by (simp add: SplitByte_Join)
  then show ?thesis
    using assms by (simp add: elems_def cleanElems_plain)
qed

lemma stripCommon_append: "stripCommon (zs @ as) (zs @ bs) = stripCommon as bs"
  by (induction zs) auto

end
