(* ===== verification/SourceHash.thy ===== *)
theory SourceHash
  imports RuleHash GoStrings
begin

text \<open>
  \<open>core/targethasher/sourcehasher.go\<close>: hashing source files and directories from disk, and
  \<open>core/targethasher/markers.go\<close>: hashing Bazel's repository marker files. A \<open>hash.Hash\<close> is the bytes
  written to it so far; \<open>sha\<close> (SHA-1 in the code) is applied by \<open>Sum\<close>. A context is its sequence of
  polls: \<open>ctx k\<close> is the cause that the \<open>k\<close>-th poll finds, if any; operations that poll thread the
  number of polls made.

  The file system is what the code reads of it: a directory is the list that \<open>os.ReadDir\<close> returns, in
  order of file name, or its error; a regular file is its content or the error of opening or reading
  it.
\<close>

section \<open>Types\<close>

type_synonym slice = "bytes option"

datatype 'e hashError = Cause 'e | FsError 'e | UnsupportedEntry string | SymlinkRel string string
  | UnhandledTargetType | BadRegex string | MissingExternalRepo string string
  | UnexpectedRepository string | MissingMarker string | Panic

datatype 'e fsnode = RegularFile "'e + bytes" | Directory "'e option" "(string \<times> 'e fsnode) list"
  | SymbolicLink "'e + string" | SpecialFile

datatype 'e stat = StatMissing | StatError 'e | StatDir "'e option" "(string \<times> 'e fsnode) list"
  | StatFile "'e + bytes"

record diskHashHelper =
  dh_workspaceroot :: string
  dh_knownFileHashes :: "string \<rightharpoonup> slice"

definition cancelCheckInterval :: nat where
  "cancelCheckInterval = 1024"

datatype entryMarker = directoryEntryMarker | regularFileEntryMarker | symlinkEntryMarker

fun markerByte :: "entryMarker \<Rightarrow> byte" where
  "markerByte directoryEntryMarker = 0"
| "markerByte regularFileEntryMarker = 1"
| "markerByte symlinkEntryMarker = 2"

section \<open>Files and directories\<close>

definition hashFile :: "'e + bytes \<Rightarrow> 'e hashError + bytes" where
  "hashFile content = (case content of
     Inl e \<Rightarrow> Inl (FsError e)
   | Inr bs \<Rightarrow> Inr (bytes_of (''blob '' @ decimal (length bs) @ [char_of (0 :: nat)]) @ bs))"

definition writeDirectoryBytes :: "bytes \<Rightarrow> bytes \<Rightarrow> bytes" where
  "writeDirectoryBytes h value = h @ value"

definition writeDirectoryUint64 :: "bytes \<Rightarrow> u64 \<Rightarrow> bytes" where
  "writeDirectoryUint64 h v = writeDirectoryBytes h (map (\<lambda>i. ucast (drop_bit (8 * i) v)) [7, 6, 5, 4, 3, 2, 1, 0])"

definition writeFramedDirectoryBytes :: "bytes \<Rightarrow> bytes \<Rightarrow> bytes" where
  "writeFramedDirectoryBytes h value = writeDirectoryBytes (writeDirectoryUint64 h (of_nat (length value))) value"

definition writeDirectoryEntryHeader :: "bytes \<Rightarrow> entryMarker \<Rightarrow> string \<Rightarrow> bytes" where
  "writeDirectoryEntryHeader h marker name =
    writeFramedDirectoryBytes (writeDirectoryBytes h [markerByte marker]) (bytes_of name)"

definition stableSymlinkTarget :: "string \<Rightarrow> string \<Rightarrow> 'e hashError + string" where
  "stableSymlinkTarget path target =
    (if IsAbs target then
       (case Rel (Dir path) target of
          None \<Rightarrow> Inl (SymlinkRel target path)
        | Some relativeTarget \<Rightarrow> Inr (Clean relativeTarget))
     else Inr (Clean target))"

text \<open>
  \<open>walkDirFunc\<close> for one entry below the root: the state is the directory hash, \<open>entryCount\<close> and the
  number of polls.
\<close>

type_synonym walkState = "bytes \<times> nat \<times> nat"

definition walkEntry ::
    "(bytes \<Rightarrow> bytes) \<Rightarrow> (nat \<Rightarrow> 'e option) \<Rightarrow> string \<Rightarrow> string \<Rightarrow> 'e fsnode \<Rightarrow> (walkState, 'e hashError, unit) stateful" where
  "walkEntry sha ctx path name node = (\<lambda>(h, entryCount, k).
    let poll = (entryCount mod cancelCheckInterval = 0);
        k' = (if poll then k + 1 else k);
        n = entryCount + 1
    in case (if poll then ctx k else None) of
      Some e \<Rightarrow> (Inl (Cause e), (h, entryCount, k'))
    | None \<Rightarrow>
      (case node of
         SymbolicLink link \<Rightarrow>
           let h = writeDirectoryEntryHeader h symlinkEntryMarker name in
           (case link of
              Inl e \<Rightarrow> (Inl (FsError e), (h, n, k'))
            | Inr target \<Rightarrow>
                (case stableSymlinkTarget path target of
                   Inl e \<Rightarrow> (Inl e, (h, n, k'))
                 | Inr t \<Rightarrow> (Inr (), (writeFramedDirectoryBytes h (bytes_of t), n, k'))))
       | Directory _ _ \<Rightarrow> (Inr (), (writeDirectoryEntryHeader h directoryEntryMarker name, n, k'))
       | SpecialFile \<Rightarrow> (Inl (UnsupportedEntry path), (h, n, k'))
       | RegularFile content \<Rightarrow>
           let h = writeDirectoryEntryHeader h regularFileEntryMarker name in
           (case hashFile content of
              Inl e \<Rightarrow> (Inl e, (h, n, k'))
            | Inr fileHash \<Rightarrow> (Inr (), (writeDirectoryBytes h (sha fileHash), n, k')))))"

text \<open>\<open>filepath.WalkDir\<close>: a directory is visited before it is read, and its entries follow in order.\<close>

fun walkNode :: "(bytes \<Rightarrow> bytes) \<Rightarrow> (nat \<Rightarrow> 'e option) \<Rightarrow> string \<Rightarrow> string \<Rightarrow> 'e fsnode \<Rightarrow> (walkState, 'e hashError, unit) stateful"
and walkList :: "(bytes \<Rightarrow> bytes) \<Rightarrow> (nat \<Rightarrow> 'e option) \<Rightarrow> string \<Rightarrow> (string \<times> 'e fsnode) list \<Rightarrow> (walkState, 'e hashError, unit) stateful"
where
  "walkNode sha ctx path name (Directory err entries) =
    bindS (walkEntry sha ctx path name (Directory err entries)) (\<lambda>_.
      case err of Some e \<Rightarrow> liftS (Inl (FsError e)) | None \<Rightarrow> walkList sha ctx path entries)"
| "walkNode sha ctx path name node = walkEntry sha ctx path name node"
| "walkList sha ctx dir [] = retS ()"
| "walkList sha ctx dir ((name, node) # entries) =
    bindS (walkNode sha ctx (PathJoin [dir, name]) name node) (\<lambda>_. walkList sha ctx dir entries)"

definition hashDir ::
    "(bytes \<Rightarrow> bytes) \<Rightarrow> (nat \<Rightarrow> 'e option) \<Rightarrow> string \<Rightarrow> 'e option \<Rightarrow> (string \<times> 'e fsnode) list \<Rightarrow> (nat, 'e hashError, bytes) stateful" where
  "hashDir sha ctx root err entries = (\<lambda>k.
    case ctx k of
      Some e \<Rightarrow> (Inl (Cause e), k + 1)
    | None \<Rightarrow>
        (case err of
           Some e \<Rightarrow> (Inl (FsError e), k + 1)
         | None \<Rightarrow>
             (case walkList sha ctx root entries ([], 0, k + 1) of
                (Inl e, (_, _, k')) \<Rightarrow> (Inl e, k')
              | (Inr _, (h, _, k')) \<Rightarrow> (Inr h, k'))))"

section \<open>Source files\<close>

definition defaultSourceFileVisibility :: string where
  "defaultSourceFileVisibility = ''//visibility:private''"

definition filterVisibilityLabels :: "string list \<Rightarrow> string list" where
  "filterVisibilityLabels labels = filter (\<lambda>v. v \<noteq> defaultSourceFileVisibility) labels"

definition sourceLocation :: "SourceFile option \<Rightarrow> string" where
  "sourceLocation sf = (case sf of None \<Rightarrow> '''' | Some s \<Rightarrow> fst (Cut (getString (sf_Location s)) '':''))"

definition sourceName :: "SourceFile option \<Rightarrow> string" where
  "sourceName sf = (case sf of None \<Rightarrow> '''' | Some s \<Rightarrow> getString (sf_Name s))"

definition sourceVisibilities :: "SourceFile option \<Rightarrow> string list" where
  "sourceVisibilities sf = filterVisibilityLabels (case sf of None \<Rightarrow> [] | Some s \<Rightarrow> sf_VisibilityLabel s)"

definition diskHashSourceFile ::
    "(bytes \<Rightarrow> bytes) \<Rightarrow> (string \<Rightarrow> 'e stat) \<Rightarrow> diskHashHelper \<Rightarrow> (nat \<Rightarrow> 'e option) \<Rightarrow> SourceFile option \<Rightarrow>
     (nat, 'e hashError, slice) stateful" where
  "diskHashSourceFile sha stat hh ctx sourceFile = (\<lambda>k.
    let nonDefaultVisibilities = sourceVisibilities sourceFile;
        location = sourceLocation sourceFile;
        h = bytes_of (sourceName sourceFile);
        finish = (\<lambda>contentHash. Some (sha (foldl (\<lambda>h v. h @ bytes_of v) (h @ sha contentHash) nonDefaultVisibilities)))
    in case (dh_knownFileHashes hh (TrimPrefix location (Clean (dh_workspaceroot hh) @ ''/'')), nonDefaultVisibilities) of
      (Some known, []) \<Rightarrow> (Inr known, k)
    | _ \<Rightarrow>
        (case stat location of
           StatMissing \<Rightarrow> (Inr (Some (sha h)), k)
         | StatError e \<Rightarrow> (Inl (FsError e), k)
         | StatDir err entries \<Rightarrow>
             (case hashDir sha ctx location err entries k of
                (Inl e, k') \<Rightarrow> (Inl e, k')
              | (Inr contentHash, k') \<Rightarrow> (Inr (finish contentHash), k'))
         | StatFile content \<Rightarrow>
             (case hashFile content of
                Inl e \<Rightarrow> (Inl e, k)
              | Inr contentHash \<Rightarrow> (Inr (finish contentHash), k))))"

definition noOpHashSourceFile :: "(nat \<Rightarrow> 'e option) \<Rightarrow> SourceFile option \<Rightarrow> (nat, 'e hashError, slice) stateful" where
  "noOpHashSourceFile ctx sourceFile = retS None"

definition externalWorkspaceRulePrefix :: string where
  "externalWorkspaceRulePrefix = ''//external:''"

definition externalTargetForRule :: "string \<Rightarrow> string" where
  "externalTargetForRule t = externalWorkspaceRulePrefix @ TrimLeft (fst (Cut t ''//'')) ''@''"

section \<open>Marker files\<close>

definition localInputPrefixes :: "string list" where
  "localInputPrefixes = [''FILE:@@//'', ''DIRTREE:@@//'', ''DIRENTS:@@//'']"

definition isLocalInput :: "string \<Rightarrow> bool" where
  "isLocalInput line = list_ex (HasPrefix line) localInputPrefixes"

text \<open>The loop over the scanned lines: the hash, \<open>hasContent\<close> and \<open>seenHeader\<close>.\<close>

fun markerLines :: "string list \<Rightarrow> bytes \<Rightarrow> bool \<Rightarrow> bool \<Rightarrow> bytes \<times> bool" where
  "markerLines [] h hasContent seenHeader = (h, hasContent)"
| "markerLines (text # rest) h hasContent seenHeader =
    (let line = TrimSpace text in
     if line = '''' then markerLines rest h hasContent seenHeader
     else if seenHeader \<and> \<not> isLocalInput line then markerLines rest h hasContent True
     else markerLines rest (h @ bytes_of line) True True)"

text \<open>A marker file is the lines the scanner returns and the error it stops with, if any.\<close>

datatype 'e marker = MarkerUnreadable 'e | MarkerFile "string list" "'e option"

definition readMarkerHash :: "(bytes \<Rightarrow> bytes) \<Rightarrow> 'e marker \<Rightarrow> 'e + slice" where
  "readMarkerHash sha file = (case file of
     MarkerUnreadable e \<Rightarrow> Inl e
   | MarkerFile lines err \<Rightarrow>
       (case err of
          Some e \<Rightarrow> Inl e
        | None \<Rightarrow> (case markerLines lines [] False False of
            (h, hasContent) \<Rightarrow> Inr (if \<not> hasContent then None else Some (sha h)))))"

definition markerRepo :: "string \<Rightarrow> string option" where
  "markerRepo name = (if \<not> HasSuffix name ''.marker'' then None
     else let repo = TrimPrefix (TrimSuffix name ''.marker'') ''@'' in if repo = '''' then None else Some repo)"

fun readMarkers :: "(bytes \<Rightarrow> bytes) \<Rightarrow> (string \<times> 'e marker) list \<Rightarrow> (string \<rightharpoonup> bytes) \<Rightarrow> (string \<times> 'e) + (string \<rightharpoonup> bytes)" where
  "readMarkers sha [] hashes = Inr hashes"
| "readMarkers sha ((name, file) # entries) hashes = (case markerRepo name of
     None \<Rightarrow> readMarkers sha entries hashes
   | Some repo \<Rightarrow> (case readMarkerHash sha file of
       Inl e \<Rightarrow> Inl (repo, e)
     | Inr h \<Rightarrow> (case h of
         None \<Rightarrow> readMarkers sha entries hashes
       | Some bs \<Rightarrow> if bs = [] then readMarkers sha entries hashes else readMarkers sha entries (hashes(repo \<mapsto> bs)))))"

datatype 'e markersError = OutputBaseError 'e | MarkerDirError 'e | MarkerReadError string 'e

definition ReadRepoMarkerHashes ::
    "(bytes \<Rightarrow> bytes) \<Rightarrow> 'e + string \<Rightarrow> (string \<Rightarrow> 'e + (string \<times> 'e marker) list) \<Rightarrow> 'e markersError + (string \<rightharpoonup> bytes)" where
  "ReadRepoMarkerHashes sha outputBase readDir = (case outputBase of
     Inl e \<Rightarrow> Inl (OutputBaseError e)
   | Inr base \<Rightarrow> (case readDir (PathJoin [base, ''external'']) of
       Inl e \<Rightarrow> Inl (MarkerDirError e)
     | Inr entries \<Rightarrow> (case readMarkers sha entries Map.empty of
         Inl (repo, e) \<Rightarrow> Inl (MarkerReadError repo e)
       | Inr hashes \<Rightarrow> Inr hashes)))"

section \<open>Facts\<close>

text \<open>The marker hash covers the first line and the local inputs among the others.\<close>

definition stableLines :: "string list \<Rightarrow> string list" where
  "stableLines lines = (case filter (\<lambda>l. l \<noteq> '''') (map TrimSpace lines) of
     [] \<Rightarrow> [] | header # rest \<Rightarrow> header # filter isLocalInput rest)"

lemma markerLines_seen:
  "markerLines lines h c True =
    (h @ concat (map bytes_of (filter (\<lambda>l. l \<noteq> '''' \<and> isLocalInput l) (map TrimSpace lines))),
     c \<or> filter (\<lambda>l. l \<noteq> '''' \<and> isLocalInput l) (map TrimSpace lines) \<noteq> [])"
  by (induction lines arbitrary: h c) (auto simp: Let_def)

lemma markerLines_unseen:
  "markerLines lines h c False = (h @ concat (map bytes_of (stableLines lines)), c \<or> stableLines lines \<noteq> [])"
proof (induction lines)
  case (Cons l lines)
  then show ?case
    by (auto simp: Let_def stableLines_def markerLines_seen filter_filter conj_commute)
qed (simp add: stableLines_def)

lemma LastIndexOf_append_free: "CHR ''/'' \<notin> set e \<Longrightarrow> LastIndexOf (s @ ''/'' @ e) ''/'' = Some (length s)"
  using strIndex_append [of "''/''" "rev e" "rev s"] by (simp add: LastIndexOf_def)

lemma Join_snoc: "xs \<noteq> [] \<Longrightarrow> Join sep (xs @ [x]) = Join sep xs @ sep @ x"
  by (induction sep xs rule: Join.induct) auto

lemma elems_trailing_slash:
  assumes "list_all plainElem es" "es \<noteq> []"
  shows "elems (''/'' @ Join ''/'' es @ ''/'') = es"
proof -
  have "list_all (\<lambda>p. CHR ''/'' \<notin> set p) (es @ [''''])"
    using assms by (simp add: list_all_iff plainElem_def)
  then have "SplitByte (CHR ''/'') (Join ''/'' (es @ [''''])) = es @ ['''']"
    by (intro SplitByte_Join) simp_all
  then have "SplitByte (CHR ''/'') (Join ''/'' es @ ''/'') = es @ ['''']"
    using assms(2) by (simp add: Join_snoc)
  moreover have "cleanElems r out (es @ ['''']) = rev out @ es" for r out
    using assms(1) by (induction es arbitrary: out) (auto simp: plainElem_def)
  ultimately show ?thesis
    by (simp add: elems_def)
qed

lemma Clean_abs: "IsAbs p \<Longrightarrow> Clean p = ''/'' @ Join ''/'' (elems p)"
  by (simp add: Clean_def)

lemma IsAbs_slash [simp]: "IsAbs (''/'' @ p)" "IsAbs (CHR ''/'' # p)"
  by (simp_all add: IsAbs_def HasPrefix_def)

lemma Dir_plain:
  assumes "list_all plainElem es" "plainElem e"
  shows "Dir (''/'' @ Join ''/'' (es @ [e])) = ''/'' @ Join ''/'' es"
proof (cases "es = []")
  case True
  have "LastIndexOf (''/'' @ e) ''/'' = Some 0"
    using LastIndexOf_append_free [of e "''''"] assms(2) by (simp add: plainElem_def)
  then show ?thesis
    using True by (simp add: Dir_def) (simp add: Clean_def elems_def)
next
  case False
  have "LastIndexOf (''/'' @ Join ''/'' (es @ [e])) ''/'' = Some (length (''/'' @ Join ''/'' es))"
    using LastIndexOf_append_free [of e "''/'' @ Join ''/'' es"] assms(2) False by (simp add: plainElem_def Join_snoc)
  moreover have "Clean (''/'' @ Join ''/'' es @ ''/'') = ''/'' @ Join ''/'' es"
    by (simp only: Clean_abs IsAbs_slash elems_trailing_slash [OF assms(1) False])
  ultimately show ?thesis
    using False by (simp add: Dir_def Join_snoc)
qed

lemma Rel_plain:
  assumes "list_all plainElem as" "list_all plainElem bs"
  shows "Rel (''/'' @ Join ''/'' as) (''/'' @ Join ''/'' bs) =
    (case stripCommon as bs of (up, down) \<Rightarrow>
       Some (case replicate (length up) ''..'' @ down of [] \<Rightarrow> ''.'' | ps \<Rightarrow> Join ''/'' ps))"
  using assms elems_plain by (simp add: Rel_def)

end
