(* ===== verification/TargetGraph.thy ===== *)
theory TargetGraph
  imports SourceHash
begin

text \<open>
  \<open>core/targethasher/graph.go\<close>: the target graph built from a query result, its hashes, its roots and
  its topological order. \<open>targets\<close>, a Go map of pointers, is the association list of its entries: a
  pointer is the key under which its record is stored, which is the name of the target for every map
  built here. \<open>labels.Parse\<close>, the compiled regular expressions and SHA-1 are parameters.
\<close>

section \<open>Types\<close>

record HashTarget =
  ht_Name :: string
  ht_Hash :: slice
  ht_HashWithoutDeps :: slice
  ht_RuleType :: string
  ht_Deps :: "string list"
  ht_Tags :: "string list"
  ht_Root :: bool
  ht_External :: bool
  ht_SourceFile :: "SourceFile option"
  ht_Rule :: "Rule option"
  ht_Attributes :: "Attribute option list"

definition newTarget :: "string \<Rightarrow> string \<Rightarrow> HashTarget" where
  "newTarget name ruleType = \<lparr> ht_Name = name, ht_Hash = None, ht_HashWithoutDeps = None, ht_RuleType = ruleType,
     ht_Deps = [], ht_Tags = [], ht_Root = False, ht_External = False, ht_SourceFile = None, ht_Rule = None,
     ht_Attributes = [] \<rparr>"

type_synonym targetMap = "(string, HashTarget) gomap"

record LabelParts =
  lb_Repository :: string
  lb_Package :: string
  lb_Target :: string

record 'e hashEnv =
  env_sha :: "bytes \<Rightarrow> bytes"
  env_Parse :: "string \<Rightarrow> LabelParts"
  env_STRING_LIST :: i32
  env_ctx :: "nat \<Rightarrow> 'e option"

record 'e HashParam =
  hp_Hasher :: "SourceFile option \<Rightarrow> (nat, 'e hashError, slice) stateful"
  hp_isNoOpHasher :: bool
  hp_WorkspaceRoot :: string
  hp_FullHashRepos :: "string set"
  hp_ExcludedRegex :: "(string \<Rightarrow> bool) list"
  hp_UseBzlmod :: bool

record HashResult =
  rs_TargetNames :: "string list"
  rs_Targets :: targetMap
  rs_AllTargetsFileHashes :: "(string, string) gomap option"

definition EmptyResult :: HashResult where
  "EmptyResult = \<lparr> rs_TargetNames = [], rs_Targets = [], rs_AllTargetsFileHashes = None \<rparr>"

definition SourceFileType :: string where
  "SourceFileType = ''source file''"
definition ExternalRuleType :: string where
  "ExternalRuleType = ''external rule''"
definition PackageGroup :: string where
  "PackageGroup = ''package group''"
definition GeneratedFileType :: string where
  "GeneratedFileType = ''generated file''"
definition UnknownRuleType :: string where
  "UnknownRuleType = ''unknown rule''"

lemmas ruleType_defs = SourceFileType_def ExternalRuleType_def PackageGroup_def GeneratedFileType_def
  UnknownRuleType_def

definition isExternalTarget :: "string \<Rightarrow> bool" where
  "isExternalTarget targetName = HasPrefix targetName ''@''"

definition isExcluded :: "string \<Rightarrow> (string \<Rightarrow> bool) list \<Rightarrow> bool" where
  "isExcluded targetName excludedRegex = list_ex (\<lambda>re. re targetName) excludedRegex"

definition CanBeRoot :: "string \<Rightarrow> bool" where
  "CanBeRoot ruleType = (ruleType \<noteq> SourceFileType \<and> ruleType \<noteq> PackageGroup)"

section \<open>Targets from protos\<close>

definition TagsFromRule :: "i32 \<Rightarrow> Rule \<Rightarrow> string list" where
  "TagsFromRule STRING_LIST r =
    (case List.find (\<lambda>a. a \<noteq> None \<and> at_Type (the a) = Some STRING_LIST \<and> attrName a = ''tags'') (ru_Attribute r) of
       Some (Some a) \<Rightarrow> at_StringListValue a
     | _ \<Rightarrow> [])"

definition urlAttrs :: "string list" where
  "urlAttrs = [''url'', ''urls'']"

definition removeURLAttrs :: "Rule option \<Rightarrow> Rule option" where
  "removeURLAttrs rule = (case rule of None \<Rightarrow> None | Some r \<Rightarrow>
     if list_ex (\<lambda>a. attrName a = ''sha256'' \<or> attrName a = ''integrity'') (ru_Attribute r)
     then Some (r \<lparr> ru_Attribute := filter (\<lambda>a. attrName a \<notin> set urlAttrs) (ru_Attribute r) \<rparr>)
     else Some r)"

definition isDoubledPackageLabel :: "(string \<Rightarrow> LabelParts) \<Rightarrow> string \<Rightarrow> bool" where
  "isDoubledPackageLabel parse label =
    (let l = parse label in lb_Package l \<noteq> '''' \<and> HasPrefix (lb_Target l) (lb_Package l @ ''/''))"

definition ruleName :: "Rule option \<Rightarrow> string" where
  "ruleName r = (case r of None \<Rightarrow> '''' | Some x \<Rightarrow> getString (ru_Name x))"

text \<open>
  \<open>HashRuleCommon(rule, h)\<close> on a new hash, then \<open>Sum\<close>. A missing message of the target's type leaves
  its fields at their zero values, except that \<open>TagsFromRule\<close> dereferences the rule.
\<close>

definition toRuleTarget :: "'e hashEnv \<Rightarrow> Rule option \<Rightarrow> 'e hashError + HashTarget" where
  "toRuleTarget env rule =
    (let targetName = ruleName rule;
         inputs = (case rule of None \<Rightarrow> [] | Some r \<Rightarrow> ru_RuleInput r);
         deps = sort (filter (\<lambda>d. \<not> isDoubledPackageLabel (env_Parse env) d) inputs)
     in if HasPrefix targetName externalWorkspaceRulePrefix then
          let rule = removeURLAttrs rule in
          Inr ((newTarget targetName ExternalRuleType)
            \<lparr> ht_Deps := deps, ht_Rule := rule,
              ht_HashWithoutDeps := Some (env_sha env (HashRuleCommon rule [])), ht_External := True \<rparr>)
        else
          (case rule of
             None \<Rightarrow> Inl Panic
           | Some r \<Rightarrow> Inr ((newTarget targetName (getString (ru_RuleClass r)))
               \<lparr> ht_HashWithoutDeps := Some (env_sha env (HashRuleCommon rule [])), ht_Deps := deps,
                 ht_Tags := TagsFromRule (env_STRING_LIST env) r, ht_External := isExternalTarget targetName,
                 ht_Rule := rule, ht_Attributes := ru_Attribute r \<rparr>)))"

definition toTarget :: "'e hashEnv \<Rightarrow> BuildTarget \<Rightarrow> 'e hashError + HashTarget" where
  "toTarget env t = (case bt_Type t of
     None \<Rightarrow> Inl Panic
   | Some Target_RULE \<Rightarrow> toRuleTarget env (bt_Rule t)
   | Some Target_SOURCE_FILE \<Rightarrow>
       let targetName = sourceName (bt_SourceFile t) in
       Inr ((newTarget targetName SourceFileType)
         \<lparr> ht_External := isExternalTarget targetName, ht_SourceFile := bt_SourceFile t \<rparr>)
   | Some Target_GENERATED_FILE \<Rightarrow>
       let targetName = (case bt_GeneratedFile t of None \<Rightarrow> '''' | Some g \<Rightarrow> getString (gf_Name g)) in
       Inr ((newTarget targetName GeneratedFileType)
         \<lparr> ht_Deps := [case bt_GeneratedFile t of None \<Rightarrow> '''' | Some g \<Rightarrow> getString (gf_GeneratingRule g)],
           ht_External := isExternalTarget targetName \<rparr>)
   | Some Target_PACKAGE_GROUP \<Rightarrow>
       let targetName = (case bt_PackageGroup t of None \<Rightarrow> '''' | Some n \<Rightarrow> getString n) in
       Inr ((newTarget targetName PackageGroup) \<lparr> ht_External := isExternalTarget targetName \<rparr>)
   | Some (Target_other _) \<Rightarrow> Inl UnhandledTargetType)"

text \<open>
  The goroutines of the group run in some order, \<open>order\<close>, which lists the positions of \<open>protos\<close>; the
  group returns the first error in that order, and each goroutine polls the context once.
\<close>

fun convertLoop :: "'e hashEnv \<Rightarrow> BuildTarget list \<Rightarrow> nat list \<Rightarrow> nat \<Rightarrow> HashTarget list \<Rightarrow> ('e hashError + HashTarget list) \<times> nat" where
  "convertLoop env protos [] k results = (Inr results, k)"
| "convertLoop env protos (i # order) k results =
    (case env_ctx env k of
       Some e \<Rightarrow> (Inl (Cause e), k + 1)
     | None \<Rightarrow>
         (case toTarget env (protos ! i) of
            Inl e \<Rightarrow> (Inl e, k + 1)
          | Inr target \<Rightarrow> convertLoop env protos order (k + 1) (results[i := target])))"

definition convertProtosToTargets ::
    "'e hashEnv \<Rightarrow> (nat \<Rightarrow> nat list) \<Rightarrow> BuildTarget list \<Rightarrow> nat \<Rightarrow> ('e hashError + HashTarget list) \<times> nat" where
  "convertProtosToTargets env order protos k =
    convertLoop env protos (order (length protos)) k (replicate (length protos) (newTarget '''' ''''))"

definition isExternalProto :: "BuildTarget \<Rightarrow> bool" where
  "isExternalProto t = (bt_Rule t \<noteq> None \<and> HasPrefix (ruleName (bt_Rule t)) externalWorkspaceRulePrefix)"

definition putTargets :: "HashTarget list \<Rightarrow> targetMap \<Rightarrow> targetMap" where
  "putTargets results targets = foldl (\<lambda>T t. AList.update (ht_Name t) t T) targets results"

definition GetInternalTargetsWithoutHashAndRootInfo ::
    "'e hashEnv \<Rightarrow> (nat \<Rightarrow> nat list) \<Rightarrow> BuildTarget list \<Rightarrow> nat \<Rightarrow> ('e hashError + targetMap) \<times> nat" where
  "GetInternalTargetsWithoutHashAndRootInfo env order r k =
    (case convertProtosToTargets env order (filter (\<lambda>t. \<not> isExternalProto t) r) k of
       (Inl e, k') \<Rightarrow> (Inl e, k')
     | (Inr results, k') \<Rightarrow> (Inr (putTargets results []), k'))"

section \<open>Hashing\<close>

text \<open>
  The part of \<open>HashRecursively\<close> before the hash is computed, in the steps of the code: which target
  stands for the name, then the two early returns, then the mark that breaks cycles. A result \<open>Inl\<close>
  is a return; \<open>Inr key\<close> goes on with the target stored under \<open>key\<close>.
\<close>

definition isForeign :: "'e hashEnv \<Rightarrow> 'e HashParam \<Rightarrow> string \<Rightarrow> bool" where
  "isForeign env p name = (let repo = lb_Repository (env_Parse env name) in
     \<not> hp_UseBzlmod p \<and> isExternalTarget name \<and> repo \<noteq> '''' \<and> repo \<notin> hp_FullHashRepos p)"

definition collapsesToRepo :: "HashTarget option \<Rightarrow> bool" where
  "collapsesToRepo actual = (case actual of
     None \<Rightarrow> True
   | Some t \<Rightarrow> ht_RuleType t = SourceFileType \<or> ht_RuleType t = GeneratedFileType \<or> ht_RuleType t = PackageGroup)"

definition unexportedFile :: "'e hashEnv \<Rightarrow> 'e HashParam \<Rightarrow> string \<Rightarrow> HashTarget" where
  "unexportedFile env p name = (let l = env_Parse env name in
     (newTarget name SourceFileType) \<lparr> ht_SourceFile := Some \<lparr> sf_Name = Some name,
        sf_Location = Some (PathJoin [hp_WorkspaceRoot p, lb_Package l, lb_Target l]), sf_VisibilityLabel = [] \<rparr> \<rparr>)"

definition resolveTarget ::
    "'e hashEnv \<Rightarrow> 'e HashParam \<Rightarrow> string \<Rightarrow> targetMap \<Rightarrow> (('e hashError + slice) + string \<times> HashTarget) \<times> targetMap" where
  "resolveTarget env p name T =
    (if isForeign env p name then
       (if collapsesToRepo (map_of T name) then
          let translated = externalTargetForRule name in
          (case map_of T translated of
             Some t \<Rightarrow> (Inr (translated, t), T)
           | None \<Rightarrow>
               if isExcluded name (hp_ExcludedRegex p) then
                 (Inl (Inr (Some [])), AList.update name
                    ((newTarget name ExternalRuleType) \<lparr> ht_Hash := Some [], ht_HashWithoutDeps := Some [] \<rparr>) T)
               else (Inl (Inl (MissingExternalRepo translated name)), T))
        else (Inr (name, the (map_of T name)), T))
     else
       (case map_of T name of
          Some existingTarget \<Rightarrow> (Inr (name, existingTarget), T)
        | None \<Rightarrow>
            if lb_Repository (env_Parse env name) \<noteq> '''' then (Inl (Inl (UnexpectedRepository name)), T)
            else let t = unexportedFile env p name in (Inr (name, t), AList.update name t T)))"

definition aliasTarget :: "string \<Rightarrow> HashTarget \<Rightarrow> HashTarget" where
  "aliasTarget name target = (newTarget name UnknownRuleType)
     \<lparr> ht_Hash := ht_Hash target, ht_HashWithoutDeps := ht_HashWithoutDeps target, ht_External := ht_External target \<rparr>"

definition alreadyVisited :: "string \<Rightarrow> HashTarget \<Rightarrow> targetMap \<Rightarrow> targetMap" where
  "alreadyVisited name target T = (case map_of T name of
     Some t \<Rightarrow> AList.update name (t \<lparr> ht_Hash := ht_Hash target, ht_HashWithoutDeps := ht_HashWithoutDeps target \<rparr>) T
   | None \<Rightarrow> AList.update name (aliasTarget name target) T)"

definition enterTarget ::
    "'e hashEnv \<Rightarrow> 'e HashParam \<Rightarrow> string \<Rightarrow> targetMap \<Rightarrow> (('e hashError + slice) + string \<times> HashTarget) \<times> targetMap" where
  "enterTarget env p name T =
    (case map_option ht_Hash (map_of T name) of
       Some (Some h) \<Rightarrow> (Inl (Inr (Some h)), T)
     | _ \<Rightarrow>
       (case resolveTarget env p name T of
          (Inl r, T1) \<Rightarrow> (Inl r, T1)
        | (Inr (key, target), T1) \<Rightarrow>
            if ht_Hash target \<noteq> None then (Inl (Inr (ht_Hash target)), alreadyVisited name target T1)
            else if isExcluded name (hp_ExcludedRegex p) then
              (case map_of T1 name of
                 None \<Rightarrow> (Inl (Inl Panic), T1)
               | Some t \<Rightarrow> (Inl (Inr (Some [])),
                   AList.update name (t \<lparr> ht_Hash := Some [], ht_HashWithoutDeps := Some [] \<rparr>) T1))
            else (Inr (key, target), AList.update key (target \<lparr> ht_Hash := Some [] \<rparr>) T1)))"

text \<open>
  The part after: the computed hash is stored at the target and, when the name was translated, at an
  alias entry for the name. \<open>hash = None\<close> is the nil slice of the no-op hasher.
\<close>

type_synonym hashState = "targetMap \<times> nat"

definition storeHash ::
    "'e HashParam \<Rightarrow> string \<Rightarrow> string \<Rightarrow> HashTarget \<Rightarrow> slice \<Rightarrow> slice \<Rightarrow> (hashState, 'e hashError, slice) stateful" where
  "storeHash p name key target hash hashWithoutDeps = (\<lambda>(T, k).
    if hash = None then (Inr None, T, k)
    else
      let target = (if hp_isNoOpHasher p then target \<lparr> ht_Hash := Some [], ht_HashWithoutDeps := Some [] \<rparr>
            else target \<lparr> ht_Hash := hash, ht_HashWithoutDeps := hashWithoutDeps \<rparr>);
          T = AList.update key target T
      in if name \<noteq> ht_Name target then (Inr hash, AList.update name (aliasTarget name target) T, k)
         else
           (case map_of T name of
              None \<Rightarrow> (Inl Panic, T, k)
            | Some t \<Rightarrow> (Inr hash, AList.update name (t \<lparr> ht_Hash := ht_Hash target \<rparr>) T, k)))"

definition ruleBody :: "'e hashEnv \<Rightarrow> HashTarget \<Rightarrow> bytes" where
  "ruleBody env target = (case ht_HashWithoutDeps target of
     Some (b # bs) \<Rightarrow> b # bs
   | _ \<Rightarrow> env_sha env (HashRuleCommon (ht_Rule target) []))"

definition sliceBytes :: "slice \<Rightarrow> bytes" where
  "sliceBytes s = (case s of None \<Rightarrow> [] | Some bs \<Rightarrow> bs)"

function HashRecursively :: "'e hashEnv \<Rightarrow> 'e HashParam \<Rightarrow> string \<Rightarrow> hashState \<Rightarrow> ('e hashError + slice) \<times> hashState"
and hashDeps :: "'e hashEnv \<Rightarrow> 'e HashParam \<Rightarrow> string list \<Rightarrow> bytes \<Rightarrow> hashState \<Rightarrow> ('e hashError + bytes) \<times> hashState"
where
  "HashRecursively env p name (T, k) =
    (case env_ctx env k of
       Some e \<Rightarrow> (Inl (Cause e), T, k + 1)
     | None \<Rightarrow>
       (case enterTarget env p name T of
          (Inl r, T1) \<Rightarrow> (r, T1, k + 1)
        | (Inr (key, target), T1) \<Rightarrow>
            if ht_RuleType target = SourceFileType then
              (case hp_Hasher p (ht_SourceFile target) (k + 1) of
                 (Inl e, k2) \<Rightarrow> (Inl e, T1, k2)
               | (Inr hash, k2) \<Rightarrow> storeHash p name key target hash None (T1, k2))
            else if ht_RuleType target = GeneratedFileType then
              (case ht_Deps target of
                 [] \<Rightarrow> (Inl Panic, T1, k + 1)
               | dep # _ \<Rightarrow>
                   (case HashRecursively env p dep (T1, k + 1) of
                      (Inl e, s) \<Rightarrow> (Inl e, s)
                    | (Inr hash, s) \<Rightarrow> storeHash p name key target hash None s))
            else if ht_RuleType target = PackageGroup then
              storeHash p name key target (Some (env_sha env (bytes_of name))) None (T1, k + 1)
            else
              (case hashDeps env p (ht_Deps target) (ruleBody env target) (T1, k + 1) of
                 (Inl e, s) \<Rightarrow> (Inl e, s)
               | (Inr h, s) \<Rightarrow> storeHash p name key target (Some (env_sha env h)) (Some (ruleBody env target)) s)))"
| "hashDeps env p [] h s = (Inr h, s)"
| "hashDeps env p (dep # deps) h s =
    (case HashRecursively env p dep s of
       (Inl e, s') \<Rightarrow> (Inl e, s')
     | (Inr dephash, s') \<Rightarrow> hashDeps env p deps (h @ sliceBytes dephash) s')"
  by pat_completeness auto

text \<open>
  A call that goes on to its dependencies has marked a target that had no hash, and no call removes a
  hash: the number of targets without one bounds the depth of the recursion.
\<close>

definition unhashed :: "targetMap \<Rightarrow> nat" where
  "unhashed T = length (filter (\<lambda>(n, t). ht_Hash t = None) T)"

lemma unhashed_update:
  "unhashed (AList.update k t' T) + (case map_of T k of Some t \<Rightarrow> if ht_Hash t = None then 1 else 0 | None \<Rightarrow> 0) =
   unhashed T + (if ht_Hash t' = None then 1 else 0)"
  by (induction T) (auto simp: unhashed_def)

lemma unhashed_update_Some: "ht_Hash t' \<noteq> None \<Longrightarrow> unhashed (AList.update k t' T) \<le> unhashed T"
  using unhashed_update [of k t' T] by (cases "ht_Hash t'") simp_all

lemma unhashed_update_less:
  "map_of T k = Some t \<Longrightarrow> ht_Hash t = None \<Longrightarrow> ht_Hash t' \<noteq> None \<Longrightarrow> unhashed (AList.update k t' T) < unhashed T"
  using unhashed_update [of k t' T] by (cases "ht_Hash t'") simp_all

lemma aliasTarget_Hash [simp]: "ht_Hash (aliasTarget name t) = ht_Hash t"
  by (simp add: aliasTarget_def)

lemma map_of_alist_update [simp]: "map_of (AList.update k v T) = (map_of T)(k \<mapsto> v)"
  by (simp add: update_conv')

lemma resolveTarget_cases:
  assumes "resolveTarget env p name T = (r, T1)"
  obtains
    (excluded) "r = Inl (Inr (Some []))" "isForeign env p name" "collapsesToRepo (map_of T name)"
      "map_of T (externalTargetForRule name) = None" "isExcluded name (hp_ExcludedRegex p)"
      "T1 = AList.update name ((newTarget name ExternalRuleType) \<lparr> ht_Hash := Some [], ht_HashWithoutDeps := Some [] \<rparr>) T"
  | (error) e where "r = Inl (Inl e)" "T1 = T"
  | (repo) t where "r = Inr (externalTargetForRule name, t)" "isForeign env p name" "collapsesToRepo (map_of T name)"
      "map_of T (externalTargetForRule name) = Some t" "T1 = T"
  | (own) t where "r = Inr (name, t)" "map_of T name = Some t" "T1 = T"
      "isForeign env p name \<Longrightarrow> \<not> collapsesToRepo (map_of T name)"
  | (unexported) "r = Inr (name, unexportedFile env p name)" "map_of T name = None" "\<not> isForeign env p name"
      "lb_Repository (env_Parse env name) = ''''" "T1 = AList.update name (unexportedFile env p name) T"
proof (cases "isForeign env p name")
  case foreign: True
  show ?thesis
  proof (cases "collapsesToRepo (map_of T name)")
    case collapse: True
    show ?thesis
    proof (cases "map_of T (externalTargetForRule name)")
      case None
      with foreign collapse assms show ?thesis
        by (cases "isExcluded name (hp_ExcludedRegex p)") (auto simp: resolveTarget_def intro: excluded error)
    next
      case (Some t)
      with foreign collapse assms show ?thesis
        by (intro repo [of t]) (simp_all add: resolveTarget_def)
    qed
  next
    case False
    then obtain t where "map_of T name = Some t"
      by (auto simp: collapsesToRepo_def split: option.splits)
    with foreign False assms show ?thesis
      by (intro own [of t]) (simp_all add: resolveTarget_def)
  qed
next
  case home: False
  show ?thesis
  proof (cases "map_of T name")
    case None
    with home assms show ?thesis
      by (cases "lb_Repository (env_Parse env name) = ''''") (auto simp: resolveTarget_def Let_def intro: unexported error)
  next
    case (Some t)
    with home assms show ?thesis
      by (intro own [of t]) (simp_all add: resolveTarget_def)
  qed
qed

lemma unexportedFile_simps [simp]:
  "ht_Hash (unexportedFile env p name) = None" "ht_RuleType (unexportedFile env p name) = SourceFileType"
  "ht_Name (unexportedFile env p name) = name" "ht_Deps (unexportedFile env p name) = []"
  by (simp_all add: unexportedFile_def newTarget_def Let_def)

lemma newTarget_simps [simp]:
  "ht_Hash (newTarget n r) = None" "ht_Name (newTarget n r) = n" "ht_RuleType (newTarget n r) = r" "ht_Deps (newTarget n r) = []"
  by (simp_all add: newTarget_def)

lemma enterTarget_unhashed:
  "enterTarget env p name T = (r, T1) \<Longrightarrow>
    unhashed T1 \<le> unhashed T \<and>
    (\<forall>key target. r = Inr (key, target) \<longrightarrow> ht_RuleType target \<noteq> SourceFileType \<longrightarrow> unhashed T1 < unhashed T)"
proof (cases "resolveTarget env p name T")
  case (Pair r' T')
  assume e: "enterTarget env p name T = (r, T1)"
  from Pair show ?thesis
  proof (cases rule: resolveTarget_cases)
    case excluded
    then show ?thesis
      using e Pair by (auto simp: enterTarget_def unhashed_update_Some split: option.splits)
  next
    case (error err)
    then show ?thesis
      using e Pair by (auto simp: enterTarget_def split: option.splits)
  next
    case (repo t)
    then show ?thesis
      using e Pair
      by (auto simp: enterTarget_def alreadyVisited_def unhashed_update_Some unhashed_update_less less_imp_le
          split: option.splits if_splits)
  next
    case (own t)
    then show ?thesis
      using e Pair
      by (auto simp: enterTarget_def alreadyVisited_def unhashed_update_Some unhashed_update_less less_imp_le
          split: option.splits if_splits)
  next
    case unexported
    have "unhashed (AList.update name t (AList.update name (unexportedFile env p name) T)) = unhashed T"
      if "ht_Hash t \<noteq> None" for t
      using unhashed_update [of name t "AList.update name (unexportedFile env p name) T"]
        unhashed_update [of name "unexportedFile env p name" T] unexported(2) that by simp
    then show ?thesis
      using e Pair unexported by (auto simp: enterTarget_def split: option.splits if_splits)
  qed
qed

lemma storeHash_unhashed: "unhashed (fst (snd (storeHash p name key target hash hwd s))) \<le> unhashed (fst s)"
proof -
  have two: "unhashed (AList.update n t' (AList.update k t T)) \<le> unhashed T"
    if "ht_Hash t' \<noteq> None" "ht_Hash t \<noteq> None" for n k t t' T
    using that unhashed_update_Some le_trans by blast
  show ?thesis
    by (cases s) (auto simp: storeHash_def Let_def two unhashed_update_Some split: option.split)
qed

lemma HashRecursively_unhashed_partial:
  fixes env :: "'e hashEnv"
  shows "HashRecursively_hashDeps_dom (Inl (env, p, name, s)) \<Longrightarrow>
      unhashed (fst (snd (HashRecursively env p name s))) \<le> unhashed (fst s)"
    and "HashRecursively_hashDeps_dom (Inr (env, p, deps, h, s)) \<Longrightarrow>
      unhashed (fst (snd (hashDeps env p deps h s))) \<le> unhashed (fst s)"
proof (induction env p name s and env p deps h s rule: HashRecursively_hashDeps.pinduct)
  case (1 env p name T k)
  show ?case
  proof (cases "env_ctx env k")
    case None
    obtain r T1 where e: "enterTarget env p name T = (r, T1)"
      by (cases "enterTarget env p name T")
    note u = enterTarget_unhashed [OF e]
    show ?thesis
    proof (cases r)
      case (Inl res)
      then show ?thesis
        using 1 None e u by (simp add: HashRecursively.psimps)
    next
      case (Inr kt)
      obtain key target where kt: "kt = (key, target)"
        by (cases kt)
      note IH1 = 1(2) [OF None e [symmetric]] and IH2 = 1(3) [OF None e [symmetric]]
      note body = HashRecursively.psimps [OF 1(1)] None e Inr kt
      note store = storeHash_unhashed [THEN order_trans]
      show ?thesis
      proof (cases "ht_RuleType target = SourceFileType")
        case True
        then show ?thesis
          using u by (simp add: body store split: prod.split sum.split)
      next
        case src: False
        show ?thesis
        proof (cases "ht_RuleType target = GeneratedFileType")
          case True
          show ?thesis
          proof (cases "ht_Deps target")
            case (Cons dep rest)
            with IH1 [OF Inr kt [symmetric] src True]
            have "unhashed (fst (snd (HashRecursively env p dep (T1, k + 1)))) \<le> unhashed T"
              using u by fastforce
            then show ?thesis
              using src True Cons by (auto simp: body store split: prod.split sum.split)
          qed (use u src True in \<open>simp add: body\<close>)
        next
          case gen: False
          show ?thesis
          proof (cases "ht_RuleType target = PackageGroup")
            case True
            then show ?thesis
              using u src gen by (simp add: body store)
          next
            case pg: False
            with IH2 [OF Inr kt [symmetric] src gen pg]
            have "unhashed (fst (snd (hashDeps env p (ht_Deps target) (ruleBody env target) (T1, k + 1)))) \<le> unhashed T"
              using u by fastforce
            then show ?thesis
              using src gen pg by (auto simp: body store split: prod.split sum.split)
          qed
        qed
      qed
    qed
  qed (use 1 in \<open>simp add: HashRecursively.psimps\<close>)
next
  case (2 env p h s)
  then show ?case
    by (simp add: hashDeps.psimps)
next
  case (3 env p dep deps h s)
  then show ?case
    by (cases "HashRecursively env p dep s") (auto simp: hashDeps.psimps split: sum.split intro: le_trans)
qed


termination HashRecursively
proof (relation "inv_image (less_than <*lex*> less_than)
    (\<lambda>x. case x of Inl (env, p, name, s) \<Rightarrow> (unhashed (fst s), 0)
       | Inr (env, p, deps, h, s) \<Rightarrow> (unhashed (fst s), Suc (length deps)))", goal_cases)
  case (2 env p name T k x y b xa ya x21 x22)
  then show ?case
    using enterTarget_unhashed [of env p name T x y] by auto
next
  case (3 env p name T k x y b xa ya)
  then show ?case
    using enterTarget_unhashed [of env p name T x y] by auto
next
  case (5 env p dep deps h s x y b)
  then have "unhashed (fst y) \<le> unhashed (fst s)"
    using HashRecursively_unhashed_partial(1) [OF 5(3)] by (cases "HashRecursively env p dep s") auto
  then show ?case
    by auto
qed auto

lemmas hash_simps = HashRecursively.simps hashDeps.simps

declare HashRecursively.simps [simp del]

section \<open>External targets\<close>

text \<open>A loop over names that hashes each and stops at the first error.\<close>

fun hashNames :: "'e hashEnv \<Rightarrow> 'e HashParam \<Rightarrow> string list \<Rightarrow> (hashState, 'e hashError, unit) stateful" where
  "hashNames env p [] s = (Inr (), s)"
| "hashNames env p (name # names) s =
    (case HashRecursively env p name s of
       (Inl e, s') \<Rightarrow> (Inl e, s')
     | (Inr _, s') \<Rightarrow> hashNames env p names s')"

definition HashExternalTargets ::
    "'e hashEnv \<Rightarrow> (nat \<Rightarrow> nat list) \<Rightarrow> 'e HashParam \<Rightarrow> BuildTarget list \<Rightarrow> (hashState, 'e hashError, unit) stateful" where
  "HashExternalTargets env order p r = (\<lambda>(T, k).
    case convertProtosToTargets env order (filter isExternalProto r) k of
      (Inl e, k') \<Rightarrow> (Inl e, T, k')
    | (Inr results, k') \<Rightarrow>
        hashNames env (p \<lparr> hp_ExcludedRegex := [] \<rparr>)
          (map ht_Name (filter (\<lambda>t. ht_RuleType t = ExternalRuleType) results)) (putTargets results T, k'))"

definition bzlmodRepoName :: "string \<Rightarrow> string" where
  "bzlmodRepoName targetName =
    (if \<not> HasPrefix targetName ''@@'' then ''''
     else let rest = drop 2 targetName in
       (case strIndex rest ''//'' of None \<Rightarrow> '''' | Some idx \<Rightarrow> if idx = 0 then '''' else take idx rest))"

definition resolveBzlmodRepo :: "string \<Rightarrow> (string \<rightharpoonup> string) \<Rightarrow> string \<times> string" where
  "resolveBzlmodRepo targetName repoMapping =
    (let repo = bzlmodRepoName targetName in
     if repo \<noteq> '''' then (repo, '''')
     else if \<not> HasPrefix targetName ''@'' \<or> HasPrefix targetName ''@@'' then ('''', '''')
     else (case Cut (drop 1 targetName) ''//'' of (name, _, ok) \<Rightarrow>
       if \<not> ok then ('''', '''')
       else let repo = getString (repoMapping name) in if repo = '''' then ('''', '''') else (repo, name)))"

definition shouldCollapseToBzlmodRepo :: "HashTarget \<Rightarrow> string \<Rightarrow> string set \<Rightarrow> (string \<Rightarrow> bool) list \<Rightarrow> bool" where
  "shouldCollapseToBzlmodRepo target repo fullHashRepos excludedRegex =
    (repo \<noteq> '''' \<and> repo \<notin> fullHashRepos \<and>
     (ht_RuleType target = SourceFileType \<or> ht_RuleType target = GeneratedFileType) \<and>
     ht_Hash target = None \<and> \<not> isExcluded (ht_Name target) excludedRegex)"

text \<open>The loop over the map: the entries done so far come out in the same order.\<close>

fun bzlmodLoop ::
    "(bytes \<Rightarrow> bytes) \<Rightarrow> string set \<Rightarrow> (string \<Rightarrow> bool) list \<Rightarrow> (string \<rightharpoonup> bytes) \<Rightarrow> (string \<rightharpoonup> string) \<Rightarrow>
     (string \<rightharpoonup> bytes) \<Rightarrow> targetMap \<Rightarrow> 'e hashError + targetMap" where
  "bzlmodLoop sha full excl markers mapping repoHashes [] = Inr []"
| "bzlmodLoop sha full excl markers mapping repoHashes ((n, target) # T) =
    (let keep = (\<lambda>hs t. bindE (bzlmodLoop sha full excl markers mapping hs T) (\<lambda>T'. Inr ((n, t) # T'))) in
     case resolveBzlmodRepo (ht_Name target) mapping of (repo, mappedFrom) \<Rightarrow>
       if \<not> shouldCollapseToBzlmodRepo target repo full excl then keep repoHashes target
       else if mappedFrom \<noteq> '''' \<and> mappedFrom \<in> full then keep repoHashes target
       else
         (case repoHashes repo of
            Some h \<Rightarrow> keep repoHashes (target \<lparr> ht_Hash := Some h, ht_HashWithoutDeps := Some h \<rparr>)
          | None \<Rightarrow>
              (case markers repo of
                 Some (b # bs) \<Rightarrow> let h = sha (b # bs) in
                   keep (repoHashes(repo \<mapsto> h)) (target \<lparr> ht_Hash := Some h, ht_HashWithoutDeps := Some h \<rparr>)
               | _ \<Rightarrow> if mappedFrom \<noteq> '''' then keep repoHashes target else Inl (MissingMarker repo))))"

definition HashExternalTargetsBzlmod ::
    "(bytes \<Rightarrow> bytes) \<Rightarrow> targetMap \<Rightarrow> string set \<Rightarrow> (string \<Rightarrow> bool) list \<Rightarrow> (string, bytes) gomap \<Rightarrow>
     (string \<rightharpoonup> string) \<Rightarrow> 'e hashError + targetMap" where
  "HashExternalTargetsBzlmod sha targets fullHashRepos excludedRegex repoMarkerHashes repoMapping =
    (if repoMarkerHashes = [] then Inr targets
     else bzlmodLoop sha fullHashRepos excludedRegex (map_of repoMarkerHashes) repoMapping Map.empty targets)"

section \<open>Roots and topological order\<close>

definition GetTopologicalRootsAndIdentifyBuildableRoots :: "targetMap \<Rightarrow> string list \<times> targetMap" where
  "GetTopologicalRootsAndIdentifyBuildableRoots targets =
    (let notRoots = concat (map (\<lambda>(n, t). ht_Deps t) targets);
         roots = map fst (filter (\<lambda>(n, t). n \<notin> set notRoots) targets);
         targets = map (\<lambda>(n, t). (n, if n \<notin> set notRoots \<and> CanBeRoot (ht_RuleType t) then t \<lparr> ht_Root := True \<rparr> else t)) targets
     in (sort roots, targets))"

type_synonym topoState = "targetMap \<times> string set \<times> nat"

function ToposortRecursively ::
    "(nat \<Rightarrow> 'e option) \<Rightarrow> string \<Rightarrow> string list \<Rightarrow> topoState \<Rightarrow> ('e hashError + string list) \<times> topoState"
and toposortDeps ::
    "(nat \<Rightarrow> 'e option) \<Rightarrow> string list \<Rightarrow> string list \<Rightarrow> topoState \<Rightarrow> ('e hashError + string list) \<times> topoState"
where
  "ToposortRecursively ctx name targets (T, visited, k) =
    (case ctx k of
       Some e \<Rightarrow> (Inl (Cause e), T, visited, k + 1)
     | None \<Rightarrow>
         if name \<in> visited then (Inr targets, T, visited, k + 1)
         else
           (case map_of T name of
              None \<Rightarrow> (Inr targets, T, insert name visited, k + 1)
            | Some target \<Rightarrow>
                let deps = sort (ht_Deps target) in
                (case toposortDeps ctx deps targets
                    (AList.update name (target \<lparr> ht_Deps := deps \<rparr>) T, insert name visited, k + 1) of
                   (Inl e, s) \<Rightarrow> (Inl e, s)
                 | (Inr targets', s) \<Rightarrow> (Inr (targets' @ [name]), s))))"
| "toposortDeps ctx [] targets s = (Inr targets, s)"
| "toposortDeps ctx (dep # deps) targets s =
    (case ToposortRecursively ctx dep targets s of
       (Inl e, s') \<Rightarrow> (Inl e, s')
     | (Inr targets', s') \<Rightarrow> toposortDeps ctx deps targets' s')"
  by pat_completeness auto

definition unvisited :: "topoState \<Rightarrow> nat" where
  "unvisited s = (case s of (T, visited, k) \<Rightarrow> length (filter (\<lambda>(n, t). n \<notin> visited) T))"

lemma unvisited_update:
  assumes "map_of T name = Some t" "name \<notin> visited"
  shows "unvisited (AList.update name t' T, insert name visited, k) < unvisited (T, visited, k')"
proof -
  have mono: "length (filter (\<lambda>(n, t). n \<noteq> name \<and> n \<notin> visited) T) \<le> length (filter (\<lambda>(n, t). n \<notin> visited) T)" for T
    by (induction T) auto
  have "length (filter (\<lambda>(n, t). n \<noteq> name \<and> n \<notin> visited) (AList.update name t' T)) <
      length (filter (\<lambda>(n, t). n \<notin> visited) T)"
    using assms by (induction T) (auto simp: less_Suc_eq_le mono)
  then show ?thesis
    by (simp add: unvisited_def)
qed

lemma Toposort_unvisited_partial:
  fixes ctx :: "nat \<Rightarrow> 'e option"
  shows "ToposortRecursively_toposortDeps_dom (Inl (ctx, name, targets, s)) \<Longrightarrow>
      unvisited (snd (ToposortRecursively ctx name targets s)) \<le> unvisited s"
    and "ToposortRecursively_toposortDeps_dom (Inr (ctx, deps, targets, s)) \<Longrightarrow>
      unvisited (snd (toposortDeps ctx deps targets s)) \<le> unvisited s"
proof (induction ctx name targets s and ctx deps targets s rule: ToposortRecursively_toposortDeps.pinduct)
  case (1 ctx name targets T visited k)
  have visit: "unvisited (T, insert name visited, k') \<le> unvisited (T, visited, k)" for k'
    by (induction T) (auto simp: unvisited_def)
  show ?case
  proof (cases "ctx k = None \<and> name \<notin> visited \<and> map_of T name \<noteq> None")
    case True
    then obtain target where t: "map_of T name = Some target"
      by auto
    let ?d = "toposortDeps ctx (sort (ht_Deps target)) targets
        (AList.update name (target \<lparr> ht_Deps := sort (ht_Deps target) \<rparr>) T, insert name visited, k + 1)"
    have "unvisited (snd ?d) \<le> unvisited (AList.update name (target \<lparr> ht_Deps := sort (ht_Deps target) \<rparr>) T, insert name visited, k + 1)"
      by (rule 1(2) [OF _ _ t refl]) (use True in simp_all)
    also have "\<dots> < unvisited (T, visited, k)"
      by (rule unvisited_update [OF t]) (use True in simp)
    finally have "unvisited (snd ?d) \<le> unvisited (T, visited, k)"
      by simp
    moreover have "snd (ToposortRecursively ctx name targets (T, visited, k)) = snd ?d"
      using True t by (auto simp: ToposortRecursively.psimps [OF 1(1)] Let_def split: prod.split sum.split)
    ultimately show ?thesis
      by simp
  next
    case False
    then show ?thesis
      using visit by (auto simp: ToposortRecursively.psimps [OF 1(1)] unvisited_def split: option.split)
  qed
next
  case (2 ctx targets s)
  then show ?case
    by (simp add: toposortDeps.psimps)
next
  case (3 ctx dep deps targets s)
  then show ?case
    by (cases "ToposortRecursively ctx dep targets s") (auto simp: toposortDeps.psimps split: sum.split intro: le_trans)
qed

termination ToposortRecursively
proof (relation "inv_image (less_than <*lex*> less_than)
    (\<lambda>x. case x of Inl (ctx, name, targets, s) \<Rightarrow> (unvisited s, 0)
       | Inr (ctx, deps, targets, s) \<Rightarrow> (unvisited s, Suc (length deps)))", goal_cases)
  case (2 ctx name targets T visited k target deps)
  then show ?case
    using unvisited_update [of T name target visited] by auto
next
  case (4 ctx dep deps targets s x y b)
  then have "unvisited y \<le> unvisited s"
    using Toposort_unvisited_partial(1) [OF 4(3)] by (cases "ToposortRecursively ctx dep targets s") auto
  then show ?case
    by auto
qed auto

declare ToposortRecursively.simps [simp del]

section \<open>The graph of a query result\<close>

fun toposortNames :: "(nat \<Rightarrow> 'e option) \<Rightarrow> string list \<Rightarrow> string list \<Rightarrow> topoState \<Rightarrow> ('e hashError + string list) \<times> topoState" where
  "toposortNames ctx [] targetNames s = (Inr targetNames, s)"
| "toposortNames ctx (name # names) targetNames s =
    (case ToposortRecursively ctx name targetNames s of
       (Inl e, s') \<Rightarrow> (Inl e, s')
     | (Inr targetNames', s') \<Rightarrow> toposortNames ctx names targetNames' s')"

text \<open>The loop over the targets that no root reaches: each becomes a pseudo-root and is hashed.\<close>

fun hashCyclic :: "'e hashEnv \<Rightarrow> 'e HashParam \<Rightarrow> string list \<Rightarrow> (hashState, 'e hashError, unit) stateful" where
  "hashCyclic env p [] s = (Inr (), s)"
| "hashCyclic env p (name # names) (T, k) =
    (case map_of T name of
       None \<Rightarrow> (Inl Panic, T, k)
     | Some t \<Rightarrow>
         (case HashRecursively env p name (AList.update name (t \<lparr> ht_Root := True \<rparr>) T, k) of
            (Inl e, s) \<Rightarrow> (Inl e, s)
          | (Inr _, s) \<Rightarrow> hashCyclic env p names s))"

record bzlmodParam =
  bz_RepoMarkerHashes :: "(string, bytes) gomap"
  bz_RepoMapping :: "string \<rightharpoonup> string"

definition hashExternals ::
    "'e hashEnv \<Rightarrow> (nat \<Rightarrow> nat list) \<Rightarrow> 'e HashParam \<Rightarrow> bzlmodParam \<Rightarrow> BuildTarget list \<Rightarrow> (hashState, 'e hashError, unit) stateful" where
  "hashExternals env order p bz r = (\<lambda>(T, k).
    if \<not> hp_UseBzlmod p then HashExternalTargets env order p r (T, k)
    else
      (case HashExternalTargetsBzlmod (env_sha env) T (hp_FullHashRepos p) (hp_ExcludedRegex p)
          (bz_RepoMarkerHashes bz) (bz_RepoMapping bz) of
         Inl e \<Rightarrow> (Inl e, T, k)
       | Inr T' \<Rightarrow> (Inr (), T', k)))"

text \<open>
  From the roots on: the traversals, the topological order and the targets on cycles that no root
  reaches. \<open>sequential\<close> is the listing of the set of sequential targets that \<open>ToSlice\<close> returns.
\<close>

definition hashGraph :: "'e hashEnv \<Rightarrow> 'e HashParam \<Rightarrow> string list \<Rightarrow> (hashState, 'e hashError, HashResult) stateful" where
  "hashGraph env p sequential = (\<lambda>(T0, k0).
    case GetTopologicalRootsAndIdentifyBuildableRoots T0 of (roots, T1) \<Rightarrow>
    bindS (hashNames env p (filter (\<lambda>n. map_of T1 n \<noteq> None) sequential)) (\<lambda>_.
    bindS (hashNames env p roots) (\<lambda>_ (T, k).
      case toposortNames (env_ctx env) roots [] (T, {}, k) of
        (Inl e, T', _, k') \<Rightarrow> (Inl e, T', k')
      | (Inr targetNames, T', visited, k') \<Rightarrow>
          (if length targetNames \<noteq> length T' then
             let cyclicTargets = sort (filter (\<lambda>n. n \<notin> visited) (map fst T')) in
             (case hashCyclic env p cyclicTargets (T', k') of
                (Inl e, s) \<Rightarrow> (Inl e, s)
              | (Inr _, T'', k'') \<Rightarrow>
                  (Inr \<lparr> rs_TargetNames = targetNames @ cyclicTargets, rs_Targets = T'', rs_AllTargetsFileHashes = None \<rparr>, T'', k''))
           else (Inr \<lparr> rs_TargetNames = targetNames, rs_Targets = T', rs_AllTargetsFileHashes = None \<rparr>, T', k'))))
     (T1, k0))"

definition fromProto ::
    "'e hashEnv \<Rightarrow> (nat \<Rightarrow> nat list) \<Rightarrow> 'e HashParam \<Rightarrow> bzlmodParam \<Rightarrow> string list \<Rightarrow> BuildTarget list \<Rightarrow> nat \<Rightarrow> 'e hashError + HashResult" where
  "fromProto env order p bz sequential r k =
    (case GetInternalTargetsWithoutHashAndRootInfo env order r k of
       (Inl e, _) \<Rightarrow> Inl e
     | (Inr targets, k1) \<Rightarrow>
         (case hashExternals env order p bz r (targets, k1) of
            (Inl e, _) \<Rightarrow> Inl e
          | (Inr _, s) \<Rightarrow> fst (hashGraph env p sequential s)))"

definition FromProtoNoHash :: "'e hashEnv \<Rightarrow> (nat \<Rightarrow> nat list) \<Rightarrow> BuildTarget list \<Rightarrow> 'e hashError + HashResult" where
  "FromProtoNoHash env order r = fromProto env order
    \<lparr> hp_Hasher = noOpHashSourceFile (env_ctx env), hp_isNoOpHasher = True, hp_WorkspaceRoot = '''',
      hp_FullHashRepos = {}, hp_ExcludedRegex = [], hp_UseBzlmod = False \<rparr>
    \<lparr> bz_RepoMarkerHashes = [], bz_RepoMapping = Map.empty \<rparr> [] r 0"

record HashConfig =
  hc_KnownSourceHashes :: "string \<rightharpoonup> slice"
  hc_FullHashRepos :: "string list"
  hc_SequentialHashTargets :: "string list"
  hc_ExcludedRegex :: "string list"
  hc_UseBzlmod :: bool
  hc_AllTargetsFiles :: "string list"
  hc_RepoMarkerHashes :: "(string, bytes) gomap"
  hc_RepoMapping :: "string \<rightharpoonup> string"

definition hexNibble :: "nat \<Rightarrow> char" where
  "hexNibble n = (if n < 10 then char_of (48 + n) else char_of (87 + n))"

definition hexEncode :: "bytes \<Rightarrow> string" where
  "hexEncode bs = concat (map (\<lambda>b. [hexNibble (unat b div 16), hexNibble (unat b mod 16)]) bs)"

definition allTargetsFileHashes :: "HashConfig \<Rightarrow> (string, string) gomap option" where
  "allTargetsFileHashes hc = (if hc_AllTargetsFiles hc = [] then None
     else Some (foldl (\<lambda>m f. AList.update f
       (case hc_KnownSourceHashes hc f of None \<Rightarrow> '''' | Some h \<Rightarrow> hexEncode (sliceBytes h)) m) [] (hc_AllTargetsFiles hc)))"

fun compileAll :: "(string \<Rightarrow> (string \<Rightarrow> bool) option) \<Rightarrow> string list \<Rightarrow> 'e hashError + (string \<Rightarrow> bool) list" where
  "compileAll compile [] = Inr []"
| "compileAll compile (pat # pats) = (case compile pat of
     None \<Rightarrow> Inl (BadRegex pat)
   | Some re \<Rightarrow> bindE (compileAll compile pats) (\<lambda>res. Inr (re # res)))"

definition FromProto ::
    "'e hashEnv \<Rightarrow> (nat \<Rightarrow> nat list) \<Rightarrow> (string list \<Rightarrow> string list) \<Rightarrow> (string \<Rightarrow> (string \<Rightarrow> bool) option) \<Rightarrow> (string \<Rightarrow> 'e stat) \<Rightarrow>
     BuildTarget list \<Rightarrow> string \<Rightarrow> HashConfig \<Rightarrow> 'e hashError + HashResult" where
  "FromProto env order listing compile stat r workspaceroot hc =
    bindE (compileAll compile (hc_ExcludedRegex hc)) (\<lambda>excludedRegex.
    bindE (fromProto env order
      \<lparr> hp_Hasher = diskHashSourceFile (env_sha env) stat
          \<lparr> dh_workspaceroot = workspaceroot, dh_knownFileHashes = hc_KnownSourceHashes hc \<rparr> (env_ctx env),
        hp_isNoOpHasher = False, hp_WorkspaceRoot = workspaceroot,
        hp_FullHashRepos = set ('''' # hc_FullHashRepos hc), hp_ExcludedRegex = excludedRegex,
        hp_UseBzlmod = hc_UseBzlmod hc \<rparr>
      \<lparr> bz_RepoMarkerHashes = hc_RepoMarkerHashes hc, bz_RepoMapping = hc_RepoMapping hc \<rparr>
      (listing (hc_SequentialHashTargets hc)) r 0) (\<lambda>result.
    Inr (result \<lparr> rs_AllTargetsFileHashes := allTargetsFileHashes hc \<rparr>)))"

end
