(* ===== verification/TargetOrder.thy ===== *)
theory TargetOrder
  imports TargetGraph
begin

text \<open>
  \<open>ToposortRecursively\<close> lists each target that a start reaches once, dependencies first. The traversal
  sorts the dependencies of the targets it visits in place, which keeps the dependency relation.
\<close>

definition targetDeps :: "targetMap \<Rightarrow> (string \<times> string) set" where
  "targetDeps T = {(n, d). \<exists>t. map_of T n = Some t \<and> d \<in> set (ht_Deps t)}"

text \<open>Every dependency of a listed target that is a target is listed before it.\<close>

definition depsFirst :: "targetMap \<Rightarrow> string list \<Rightarrow> bool" where
  "depsFirst T names = (\<forall>i < length names. \<forall>d. (names ! i, d) \<in> targetDeps T \<longrightarrow> d \<in> dom (map_of T) \<longrightarrow> d \<in> set (take i names))"

lemma depsFirst_Nil [simp]: "depsFirst T []"
  by (simp add: depsFirst_def)

lemma depsFirst_snoc:
  "depsFirst T (names @ [n]) \<longleftrightarrow>
    depsFirst T names \<and> (\<forall>d. (n, d) \<in> targetDeps T \<longrightarrow> d \<in> dom (map_of T) \<longrightarrow> d \<in> set names)"
  by (auto simp: depsFirst_def nth_append less_Suc_eq all_conj_distrib)

text \<open>What a traversal may change in the map: the order of dependencies.\<close>

definition sameGraph :: "targetMap \<Rightarrow> targetMap \<Rightarrow> bool" where
  "sameGraph T T' \<longleftrightarrow> map fst T' = map fst T \<and>
     (\<forall>n. rel_option (\<lambda>t t'. \<exists>ds. t' = t \<lparr> ht_Deps := ds \<rparr> \<and> set ds = set (ht_Deps t)) (map_of T n) (map_of T' n))"

lemma sameGraph_refl [simp]: "sameGraph T T"
proof -
  have "rel_option (\<lambda>t t'. \<exists>ds. t' = t \<lparr> ht_Deps := ds \<rparr> \<and> set ds = set (ht_Deps t)) x x" for x
    by (cases x) (auto intro!: exI [where x = "ht_Deps _"])
  then show ?thesis
    unfolding sameGraph_def by blast
qed

lemma sameGraph_trans: "sameGraph T1 T2 \<Longrightarrow> sameGraph T2 T3 \<Longrightarrow> sameGraph T1 T3"
proof -
  assume a: "sameGraph T1 T2" and b: "sameGraph T2 T3"
  have "rel_option (\<lambda>t t'. \<exists>ds. t' = t \<lparr> ht_Deps := ds \<rparr> \<and> set ds = set (ht_Deps t)) (map_of T1 n) (map_of T3 n)" for n
    using a b unfolding sameGraph_def
    by (cases "map_of T1 n"; cases "map_of T2 n"; cases "map_of T3 n")
      (auto simp: option_rel_Some1 dest!: spec [where x = n], blast)
  then show ?thesis
    using a b by (simp add: sameGraph_def)
qed

lemma sameGraph_dom: "sameGraph T T' \<Longrightarrow> dom (map_of T') = dom (map_of T)"
  unfolding sameGraph_def dom_map_of_conv_image_fst by (metis list.set_map)

lemma sameGraph_targetDeps: "sameGraph T T' \<Longrightarrow> targetDeps T' = targetDeps T"
proof -
  assume s: "sameGraph T T'"
  have "(\<exists>t. map_of T' n = Some t \<and> d \<in> set (ht_Deps t)) \<longleftrightarrow> (\<exists>t. map_of T n = Some t \<and> d \<in> set (ht_Deps t))" for n d
    using s unfolding sameGraph_def by (cases "map_of T n"; cases "map_of T' n") (auto dest!: spec [where x = n])
  then show ?thesis
    by (simp add: targetDeps_def)
qed

lemma sameGraph_sort:
  assumes "map_of T name = Some t"
  shows "sameGraph T (AList.update name (t \<lparr> ht_Deps := sort (ht_Deps t) \<rparr>) T)"
proof -
  have "map fst (AList.update name v T) = map fst T" for v
    using assms by (induction T) auto
  moreover have "rel_option (\<lambda>t t'. \<exists>ds. t' = t \<lparr> ht_Deps := ds \<rparr> \<and> set ds = set (ht_Deps t)) (map_of T n)
      (((map_of T)(name \<mapsto> t \<lparr> ht_Deps := sort (ht_Deps t) \<rparr>)) n)" for n
    using assms sameGraph_refl [of T] unfolding sameGraph_def by (cases "n = name") (auto intro!: exI [where x = "sort (ht_Deps t)"])
  ultimately show ?thesis
    by (simp add: sameGraph_def)
qed

text \<open>
  The invariant of the traversal: the visited targets are those listed and those on the stack, the
  list is distinct, within the map and in dependency order.
\<close>

definition topoInv :: "targetMap \<Rightarrow> string set \<Rightarrow> string list \<Rightarrow> topoState \<Rightarrow> bool" where
  "topoInv T0 stack names s \<longleftrightarrow> (case s of (T, visited, k) \<Rightarrow>
     sameGraph T0 T \<and> visited \<inter> dom (map_of T0) = set names \<union> stack \<and> stack \<subseteq> dom (map_of T0) \<and>
     distinct names \<and> set names \<inter> stack = {} \<and> depsFirst T0 names)"

lemma topoInvD:
  assumes "topoInv T0 stack names (T, visited, k)"
  shows "sameGraph T0 T" "visited \<inter> dom (map_of T0) = set names \<union> stack" "distinct names" "stack \<subseteq> dom (map_of T0)"
    "set names \<inter> stack = {}" "depsFirst T0 names"
  using assms by (simp_all add: topoInv_def)

text \<open>The result of a call: the invariant holds again, the start is visited and the list has grown by reachable targets.\<close>

definition topoPost :: "targetMap \<Rightarrow> string set \<Rightarrow> string list \<Rightarrow> string set \<Rightarrow> ('e hashError + string list) \<times> topoState \<Rightarrow> bool" where
  "topoPost T0 stack names starts r \<longleftrightarrow> (\<exists>new s. r = (Inr (names @ new), s) \<and> topoInv T0 stack (names @ new) s \<and>
     starts \<subseteq> fst (snd s) \<and> set new \<subseteq> (targetDeps T0)\<^sup>* `` starts)"

lemma visited_mono:
  "fst (snd s) \<subseteq> fst (snd (snd (ToposortRecursively ctx name names s)))"
  "fst (snd s) \<subseteq> fst (snd (snd (toposortDeps ctx deps names s)))"
proof (induction ctx name names s and ctx deps names s rule: ToposortRecursively_toposortDeps.induct)
  case (1 ctx name names T visited k)
  show ?case
  proof (cases "ctx k = None \<and> name \<notin> visited \<and> map_of T name \<noteq> None")
    case True
    then obtain target where t: "map_of T name = Some target"
      by auto
    have "insert name visited \<subseteq> fst (snd (snd (toposortDeps ctx (sort (ht_Deps target)) names
        (AList.update name (target \<lparr> ht_Deps := sort (ht_Deps target) \<rparr>) T, insert name visited, k + 1))))"
      using 1 [OF _ _ t refl] True by simp
    then show ?thesis
      using True t by (auto simp: ToposortRecursively.simps Let_def split: prod.split sum.split)
  qed (auto simp: ToposortRecursively.simps split: option.split)
next
  case (3 ctx dep deps names s)
  then show ?case
    by (cases "ToposortRecursively ctx dep names s") (auto split: sum.split)
qed simp

lemma toposort_post:
  assumes "\<And>k. ctx k = None" and acyc: "acyclic (targetDeps T0)"
  shows "topoInv T0 stack names s \<Longrightarrow> (\<And>a. a \<in> stack \<Longrightarrow> (name, a) \<notin> (targetDeps T0)\<^sup>*) \<Longrightarrow>
      topoPost T0 stack names {name} (ToposortRecursively ctx name names s)"
    and "topoInv T0 stack names s \<Longrightarrow> (\<And>a d. a \<in> stack \<Longrightarrow> d \<in> set deps \<Longrightarrow> (d, a) \<notin> (targetDeps T0)\<^sup>*) \<Longrightarrow>
      topoPost T0 stack names (set deps) (toposortDeps ctx deps names s)"
  using assms(1)
proof (induction ctx name names s and ctx deps names s arbitrary: stack and stack rule: ToposortRecursively_toposortDeps.induct)
  case (1 ctx name names T visited k)
  note inv = topoInvD [OF 1(2)] and free = 1(3)
  let ?E = "targetDeps T0"
  show ?case
  proof (cases "map_of T name")
    case None
    then have "name \<notin> dom (map_of T0)"
      using sameGraph_dom [OF inv(1)] by auto
    then have "topoInv T0 stack (names @ []) (T, insert name visited, k + 1)"
      using 1(2) by (auto simp: topoInv_def)
    moreover have "topoInv T0 stack (names @ []) (T, visited, k + 1)"
      using 1(2) by (simp add: topoInv_def)
    ultimately show ?thesis
      using None 1(4) by (fastforce simp: topoPost_def ToposortRecursively.simps)
  next
    case (Some target)
    show ?thesis
    proof (cases "name \<in> visited")
      case True
      moreover have "topoInv T0 stack (names @ []) (T, visited, k + 1)"
        using 1(2) by (simp add: topoInv_def)
      ultimately show ?thesis
        using 1(4) by (fastforce simp: topoPost_def ToposortRecursively.simps)
    next
      case False
      let ?deps = "sort (ht_Deps target)"
      let ?s = "(AList.update name (target \<lparr> ht_Deps := ?deps \<rparr>) T, insert name visited, k + 1)"
      have name: "name \<in> dom (map_of T0)" "name \<notin> set names" "name \<notin> stack"
        using Some False sameGraph_dom [OF inv(1)] inv(2) by auto
      have edge: "(name, d) \<in> ?E \<longleftrightarrow> d \<in> set ?deps" for d
        unfolding sameGraph_targetDeps [OF inv(1), symmetric] using Some by (simp add: targetDeps_def)
      have I: "topoInv T0 (insert name stack) names ?s"
        using inv name sameGraph_trans [OF inv(1) sameGraph_sort [OF Some]] by (auto simp: topoInv_def)
      have F: "(d, a) \<notin> ?E\<^sup>*" if "a \<in> insert name stack" "d \<in> set ?deps" for a d
      proof
        assume "(d, a) \<in> ?E\<^sup>*"
        then have "(name, a) \<in> ?E\<^sup>+"
          using that(2) edge by (meson rtrancl_into_trancl2)
        then show False
          using that(1) free acyc by (auto simp: acyclic_def dest: trancl_into_rtrancl)
      qed
      have "topoPost T0 (insert name stack) names (set ?deps) (toposortDeps ctx ?deps names ?s)"
        by (rule 1(1) [OF 1(4) False Some refl I]) (use F 1(4) in auto)
      then obtain new T' visited' k' where r: "toposortDeps ctx ?deps names ?s = (Inr (names @ new), T', visited', k')"
        and post: "topoInv T0 (insert name stack) (names @ new) (T', visited', k')" "set ?deps \<subseteq> visited'"
          "set new \<subseteq> ?E\<^sup>* `` set ?deps"
        by (auto simp: topoPost_def)
      note inv' = topoInvD [OF post(1)]
      have listed: "d \<in> set (names @ new)" if "(name, d) \<in> ?E" "d \<in> dom (map_of T0)" for d
      proof -
        have "d \<in> set (names @ new) \<union> insert name stack"
          using that post(2) edge inv'(2) by auto
        moreover have "d \<notin> insert name stack"
          using F [of d d] that(1) edge by auto
        ultimately show ?thesis
          by simp
      qed
      have "topoInv T0 stack (names @ new @ [name]) (T', visited', k')"
        using inv' name listed by (auto simp: topoInv_def depsFirst_snoc simp flip: append_assoc)
      moreover have "set (new @ [name]) \<subseteq> ?E\<^sup>* `` {name}"
        using post(3) edge by (auto intro: converse_rtrancl_into_rtrancl)
      moreover have "name \<in> visited'"
        using visited_mono(2) [of ?s ctx ?deps names] r by auto
      moreover have "ToposortRecursively ctx name names (T, visited, k) = (Inr (names @ new @ [name]), T', visited', k')"
        using 1(4) [of k] False Some r by (simp add: ToposortRecursively.simps Let_def)
      ultimately show ?thesis
        unfolding topoPost_def by (intro exI [where x = "new @ [name]"] exI [where x = "(T', visited', k')"]) simp
    qed
  qed
next
  case (2 ctx names s)
  then show ?case
    by (simp add: topoPost_def)
next
  case (3 ctx dep deps names s)
  let ?E = "targetDeps T0"
  have "topoPost T0 stack names {dep} (ToposortRecursively ctx dep names s)"
    by (rule 3(1) [OF 3(3)]) (use 3(4,5) in auto)
  then obtain new s' where r: "ToposortRecursively ctx dep names s = (Inr (names @ new), s')"
    and post: "topoInv T0 stack (names @ new) s'" "dep \<in> fst (snd s')" "set new \<subseteq> ?E\<^sup>* `` {dep}"
    by (auto simp: topoPost_def)
  have "topoPost T0 stack (names @ new) (set deps) (toposortDeps ctx deps (names @ new) s')"
    by (rule 3(2) [OF r [symmetric] refl post(1)]) (use 3(4,5) in auto)
  then obtain new' s'' where r': "toposortDeps ctx deps (names @ new) s' = (Inr ((names @ new) @ new'), s'')"
    and post': "topoInv T0 stack ((names @ new) @ new') s''" "set deps \<subseteq> fst (snd s'')" "set new' \<subseteq> ?E\<^sup>* `` set deps"
    by (auto simp: topoPost_def)
  have "dep \<in> fst (snd s'')"
    using visited_mono(2) [of s' ctx deps "names @ new"] r' post(2) by auto
  then show ?case
    using r r' post post' unfolding topoPost_def
    by (intro exI [where x = "new @ new'"] exI [where x = s'']) auto
qed

lemma toposortNames_eq: "toposortNames ctx names out s = toposortDeps ctx names out s"
  by (induction names arbitrary: out s) (auto split: prod.split sum.split)

lemma depsFirst_closed:
  assumes "depsFirst T names" "n \<in> set names" "(n, d) \<in> targetDeps T" "d \<in> dom (map_of T)"
  shows "d \<in> set names"
proof -
  obtain i where "i < length names" "names ! i = n"
    using assms(2) by (auto simp: in_set_conv_nth)
  then show ?thesis
    using assms(1,3,4) unfolding depsFirst_def by (metis in_set_takeD)
qed

lemma depsFirst_reachable:
  assumes "depsFirst T names" "\<And>r. r \<in> set roots \<Longrightarrow> r \<in> dom (map_of T) \<Longrightarrow> r \<in> set names"
  shows "(targetDeps T)\<^sup>* `` set roots \<inter> dom (map_of T) \<subseteq> set names"
proof
  fix n assume "n \<in> (targetDeps T)\<^sup>* `` set roots \<inter> dom (map_of T)"
  then obtain r where "(r, n) \<in> (targetDeps T)\<^sup>*" "r \<in> set roots" "n \<in> dom (map_of T)"
    by auto
  then show "n \<in> set names"
  proof (induction rule: rtrancl_induct)
    case base
    then show ?case
      using assms(2) by blast
  next
    case (step m n)
    have "m \<in> dom (map_of T)"
      using step(2) by (auto simp: targetDeps_def)
    then show ?case
      using step depsFirst_closed [OF assms(1)] by blast
  qed
qed

lemma toposortNames_result:
  fixes k :: nat
  assumes "\<And>k. ctx k = None" and "acyclic (targetDeps T)"
  obtains names T' visited k' where "toposortNames ctx roots [] (T, {}, k) = (Inr names, T', visited, k')"
    "distinct names" "set names = (targetDeps T)\<^sup>* `` set roots \<inter> dom (map_of T)" "depsFirst T names"
    "sameGraph T T'" "visited \<inter> dom (map_of T) = set names"
proof -
  have "topoInv T {} [] (T, {}, k)"
    by (simp add: topoInv_def)
  then have "topoPost T {} [] (set roots) (toposortDeps ctx roots [] (T, {}, k))"
    by (rule toposort_post(2) [OF assms]) simp
  then obtain names T' visited k' where r: "toposortNames ctx roots [] (T, {}, k) = (Inr names, T', visited, k')"
    and inv: "topoInv T {} names (T', visited, k')" and roots: "set roots \<subseteq> visited"
    and reach: "set names \<subseteq> (targetDeps T)\<^sup>* `` set roots"
    by (auto simp: topoPost_def toposortNames_eq)
  note i = topoInvD [OF inv]
  have "set names \<subseteq> dom (map_of T)"
    using i(2) by auto
  moreover have "(targetDeps T)\<^sup>* `` set roots \<inter> dom (map_of T) \<subseteq> set names"
    by (rule depsFirst_reachable [OF i(6)]) (use roots i(2) in auto)
  ultimately have "set names = (targetDeps T)\<^sup>* `` set roots \<inter> dom (map_of T)"
    using reach by blast
  then show ?thesis
    using that [OF r i(3) _ i(6) i(1)] i(2) by simp
qed

end
