(* ===== verification/TargetMerkle.thy ===== *)
theory TargetMerkle
  imports TargetOrder
begin

text \<open>
  \<open>HashRecursively\<close> against a reference: \<open>merkle\<close> defines the hash of a target from the graph alone, with
  no traversal state. On a graph without cycles the traversal gives every name its reference hash,
  whatever was hashed before and in whatever order. The source hasher is an interface: its result
  depends on the file only.
\<close>

section \<open>The source hasher\<close>

locale source_hasher =
  fixes hasher :: "SourceFile option \<Rightarrow> (nat, 'e hashError, slice) stateful"
    and content :: "SourceFile option \<Rightarrow> 'e hashError + bytes"
  assumes hasher_stable: "fst (hasher sf k) = (case content sf of Inl e \<Rightarrow> Inl e | Inr h \<Rightarrow> Inr (Some h))"
begin

lemma hasher_result:
  assumes "hasher sf k = (Inr hash, k')"
  obtains h where "hash = Some h" "content sf = Inr h"
  using hasher_stable [of sf k] assms by (auto split: sum.splits)

lemma hasher_error: "hasher sf k = (Inl e, k') \<Longrightarrow> content sf = Inl e"
  using hasher_stable [of sf k] by (auto split: sum.splits)

end

section \<open>The disk hasher without cancellation\<close>

text \<open>The walk writes the same bytes whatever the number of polls made before.\<close>

definition samePolls :: "('e hashError + unit) \<times> walkState \<Rightarrow> ('e hashError + unit) \<times> walkState \<Rightarrow> bool" where
  "samePolls r r' \<longleftrightarrow> fst r = fst r' \<and> fst (snd r) = fst (snd r') \<and> fst (snd (snd r)) = fst (snd (snd r'))"

lemma samePolls_bindS:
  assumes "samePolls (m s) (m s')"
    and "\<And>t t'. fst t = fst t' \<Longrightarrow> fst (snd t) = fst (snd t') \<Longrightarrow> samePolls (f () t) (f () t')"
  shows "samePolls (bindS m f s) (bindS m f s')"
  using assms(1) assms(2) [of "snd (m s)" "snd (m s')"]
  by (cases "m s"; cases "m s'") (auto simp: samePolls_def bindS_def split: sum.split)

lemma walkEntry_polls:
  "samePolls (walkEntry sha (\<lambda>_. None) path name node (h, c, k)) (walkEntry sha (\<lambda>_. None) path name node (h, c, k'))"
  by (auto simp: samePolls_def walkEntry_def Let_def split: fsnode.split sum.split)

lemma walk_polls:
  "samePolls (walkNode sha (\<lambda>_. None) path name node s) (walkNode sha (\<lambda>_. None) path name node s')"
  if "fst s = fst s'" "fst (snd s) = fst (snd s')"
  for node :: "'e fsnode"
  using that
proof (induction node arbitrary: path name s s')
  case (Directory err entries)
  have list: "samePolls (walkList sha (\<lambda>_. None) dir es t) (walkList sha (\<lambda>_. None) dir es t')"
    if "set es \<subseteq> set entries" "fst t = fst t'" "fst (snd t) = fst (snd t')" for dir es t t'
    using that
  proof (induction es arbitrary: t t')
    case (Cons e es)
    obtain n node where e: "e = (n, node)"
      by (cases e)
    have "samePolls (walkNode sha (\<lambda>_. None) (PathJoin [dir, n]) n node t) (walkNode sha (\<lambda>_. None) (PathJoin [dir, n]) n node t')"
      by (rule Directory.IH [of e node]) (use Cons.prems in \<open>simp_all add: e\<close>)
    then show ?case
      unfolding e walkList.simps by (rule samePolls_bindS) (rule Cons.IH, use Cons.prems in simp_all)
  qed (simp add: samePolls_def retS_def)
  have "samePolls (walkEntry sha (\<lambda>_. None) path name (Directory err entries) s)
      (walkEntry sha (\<lambda>_. None) path name (Directory err entries) s')"
    using Directory.prems by (cases s; cases s') (simp add: walkEntry_polls)
  then show ?case
    unfolding walkNode.simps
  proof (rule samePolls_bindS)
    fix t t' :: walkState
    assume "fst t = fst t'" "fst (snd t) = fst (snd t')"
    then show "samePolls ((case err of None \<Rightarrow> walkList sha (\<lambda>_. None) path entries | Some e \<Rightarrow> liftS (Inl (FsError e))) t)
        ((case err of None \<Rightarrow> walkList sha (\<lambda>_. None) path entries | Some e \<Rightarrow> liftS (Inl (FsError e))) t')"
      using list [of entries t t' path] by (cases err) (simp_all add: liftS_def samePolls_def)
  qed
qed (auto simp: walkEntry_polls)

lemma walkList_polls:
  "samePolls (walkList sha (\<lambda>_. None) dir es (h, c, k)) (walkList sha (\<lambda>_. None) dir es (h, c, k'))"
proof -
  have "samePolls (walkList sha (\<lambda>_. None) dir es t) (walkList sha (\<lambda>_. None) dir es t')"
    if "fst t = fst t'" "fst (snd t) = fst (snd t')" for t t'
    using that
  proof (induction es arbitrary: t t')
    case (Cons e es)
    obtain n node where e: "e = (n, node)"
      by (cases e)
    show ?case
      unfolding e walkList.simps by (rule samePolls_bindS [OF walk_polls]) (use Cons in auto)
  qed (simp add: samePolls_def retS_def)
  then show ?thesis
    by simp
qed

definition diskHasher ::
    "(bytes \<Rightarrow> bytes) \<Rightarrow> (string \<Rightarrow> 'e stat) \<Rightarrow> string \<Rightarrow> (string \<rightharpoonup> bytes) \<Rightarrow> SourceFile option \<Rightarrow> (nat, 'e hashError, slice) stateful" where
  "diskHasher sha stat root known = diskHashSourceFile sha stat
     \<lparr> dh_workspaceroot = root, dh_knownFileHashes = map_option Some \<circ> known \<rparr> (\<lambda>_. None)"

definition diskContent ::
    "(bytes \<Rightarrow> bytes) \<Rightarrow> (string \<Rightarrow> 'e stat) \<Rightarrow> string \<Rightarrow> (string \<rightharpoonup> bytes) \<Rightarrow> SourceFile option \<Rightarrow> 'e hashError + bytes" where
  "diskContent sha stat root known sf =
    (case fst (diskHasher sha stat root known sf 0) of Inl e \<Rightarrow> Inl e | Inr s \<Rightarrow> Inr (sliceBytes s))"

lemma hashDir_polls: "fst (hashDir sha (\<lambda>_. None) root err entries k) = fst (hashDir sha (\<lambda>_. None) root err entries 0)"
  using walkList_polls [of sha root entries "[]" 0 "Suc k" "Suc 0"]
  by (auto simp: hashDir_def samePolls_def split: option.split prod.split sum.split)

lemma diskHasher_polls: "fst (diskHasher sha stat root known sf k) = fst (diskHasher sha stat root known sf 0)"
proof -
  have dir: "fst (case hashDir sha (\<lambda>_. None) l err es k of (Inl e, k') \<Rightarrow> (Inl e, k') | (Inr c, k') \<Rightarrow> (Inr (f c), k')) =
      fst (case hashDir sha (\<lambda>_. None) l err es 0 of (Inl e, k') \<Rightarrow> (Inl e, k') | (Inr c, k') \<Rightarrow> (Inr (f c), k'))" for l err es f
    using hashDir_polls [of sha l err es k] by (auto split: prod.split sum.split)
  show ?thesis
    by (simp add: dir diskHasher_def diskHashSourceFile_def Let_def split: option.split list.split stat.split sum.split)
qed

lemma diskHasher_Some: "fst (diskHasher sha stat root known sf k) \<noteq> Inr None"
  by (auto simp: diskHasher_def diskHashSourceFile_def Let_def split: option.split list.split stat.split sum.split prod.split)

interpretation disk: source_hasher "diskHasher sha stat root known" "diskContent sha stat root known"
  for sha stat root known
proof
  fix sf k
  show "fst (diskHasher sha stat root known sf k) =
      (case diskContent sha stat root known sf of Inl e \<Rightarrow> Inl e | Inr h \<Rightarrow> Inr (Some h))"
    using diskHasher_Some [of sha stat root known sf 0]
    by (subst diskHasher_polls) (auto simp: diskContent_def sliceBytes_def split: sum.split option.split)
qed

section \<open>Reference hashes\<close>

definition fresh :: "targetMap \<Rightarrow> string \<Rightarrow> bool" where
  "fresh T name = (case map_of T name of None \<Rightarrow> True | Some t \<Rightarrow> ht_Hash t = None)"

text \<open>The target that is hashed for a name that is not collapsed to its repository.\<close>

definition ownTarget :: "'e hashEnv \<Rightarrow> 'e HashParam \<Rightarrow> targetMap \<Rightarrow> string \<Rightarrow> HashTarget option" where
  "ownTarget env p T name =
    (if isForeign env p name \<and> collapsesToRepo (map_of T name) then None
     else case map_of T name of
       Some t \<Rightarrow> Some t
     | None \<Rightarrow> if lb_Repository (env_Parse env name) = '''' then Some (unexportedFile env p name) else None)"

definition skips :: "'e HashParam \<Rightarrow> string \<Rightarrow> bool" where
  "skips p name = isExcluded name (hp_ExcludedRegex p)"

inductive merkle for env :: "'e hashEnv" and p :: "'e HashParam" and content :: "SourceFile option \<Rightarrow> 'e hashError + bytes"
  and T :: targetMap where
  known: "map_of T name = Some t \<Longrightarrow> ht_Hash t = Some h \<Longrightarrow> merkle env p content T name h"
| repo: "fresh T name \<Longrightarrow> isForeign env p name \<Longrightarrow> collapsesToRepo (map_of T name) \<Longrightarrow>
    map_of T (externalTargetForRule name) = Some t \<Longrightarrow> ht_Hash t = Some h \<Longrightarrow> merkle env p content T name h"
| noRepo: "fresh T name \<Longrightarrow> isForeign env p name \<Longrightarrow> collapsesToRepo (map_of T name) \<Longrightarrow>
    map_of T (externalTargetForRule name) = None \<Longrightarrow> skips p name \<Longrightarrow> merkle env p content T name []"
| excluded: "fresh T name \<Longrightarrow> ownTarget env p T name = Some t \<Longrightarrow> skips p name \<Longrightarrow> merkle env p content T name []"
| source: "fresh T name \<Longrightarrow> ownTarget env p T name = Some t \<Longrightarrow> \<not> skips p name \<Longrightarrow> ht_RuleType t = SourceFileType \<Longrightarrow>
    content (ht_SourceFile t) = Inr h \<Longrightarrow> merkle env p content T name h"
| generated: "fresh T name \<Longrightarrow> ownTarget env p T name = Some t \<Longrightarrow> \<not> skips p name \<Longrightarrow> ht_RuleType t = GeneratedFileType \<Longrightarrow>
    ht_Deps t = dep # deps \<Longrightarrow> merkle env p content T dep h \<Longrightarrow> merkle env p content T name h"
| group: "fresh T name \<Longrightarrow> ownTarget env p T name = Some t \<Longrightarrow> \<not> skips p name \<Longrightarrow> ht_RuleType t = PackageGroup \<Longrightarrow>
    merkle env p content T name (env_sha env (bytes_of name))"
| rule: "fresh T name \<Longrightarrow> ownTarget env p T name = Some t \<Longrightarrow> \<not> skips p name \<Longrightarrow>
    ht_RuleType t \<notin> {SourceFileType, GeneratedFileType, PackageGroup} \<Longrightarrow>
    list_all2 (merkle env p content T) (ht_Deps t) hs \<Longrightarrow>
    merkle env p content T name (env_sha env (ruleBody env t @ concat hs))"

definition merkleDeps :: "'e hashEnv \<Rightarrow> 'e HashParam \<Rightarrow> targetMap \<Rightarrow> (string \<times> string) set" where
  "merkleDeps env p T = {(n, d). \<exists>t. ownTarget env p T n = Some t \<and> d \<in> set (ht_Deps t)}"

lemma fresh_simps [simp]:
  "map_of T name = None \<Longrightarrow> fresh T name" "map_of T name = Some t \<Longrightarrow> fresh T name \<longleftrightarrow> ht_Hash t = None"
  by (simp_all add: fresh_def)

lemma ruleTypes_distinct [simp]:
  "SourceFileType \<noteq> GeneratedFileType" "SourceFileType \<noteq> PackageGroup" "GeneratedFileType \<noteq> PackageGroup"
  "GeneratedFileType \<noteq> SourceFileType" "PackageGroup \<noteq> SourceFileType" "PackageGroup \<noteq> GeneratedFileType"
  by (simp_all add: ruleType_defs)

lemma ownTarget_not_collapsed: "ownTarget env p T name = Some t \<Longrightarrow> \<not> (isForeign env p name \<and> collapsesToRepo (map_of T name))"
  by (auto simp: ownTarget_def)

lemma merkle_own:
  assumes "fresh T name" "ownTarget env p T name = Some t" "merkle env p content T name h"
  shows "if skips p name then h = []
    else if ht_RuleType t = SourceFileType then content (ht_SourceFile t) = Inr h
    else if ht_RuleType t = GeneratedFileType then \<exists>dep deps. ht_Deps t = dep # deps \<and> merkle env p content T dep h
    else if ht_RuleType t = PackageGroup then h = env_sha env (bytes_of name)
    else \<exists>hs. list_all2 (merkle env p content T) (ht_Deps t) hs \<and> h = env_sha env (ruleBody env t @ concat hs)"
proof -
  have nk: "ht_Hash t' \<noteq> Some h'" if "map_of T name = Some t'" for t' h'
    using assms(1) that by simp
  note nc = ownTarget_not_collapsed [OF assms(2)]
  from assms(3) show ?thesis
    by cases (use assms(2) nk nc in simp_all, (metis nk)?)
qed

lemma merkle_collapsed:
  assumes "fresh T name" "isForeign env p name" "collapsesToRepo (map_of T name)" "merkle env p content T name h"
  shows "case map_of T (externalTargetForRule name) of Some t \<Rightarrow> ht_Hash t = Some h | None \<Rightarrow> h = []"
proof -
  have nk: "ht_Hash t' \<noteq> Some h'" if "map_of T name = Some t'" for t' h'
    using assms(1) that by simp
  have no: "ownTarget env p T name = None"
    using assms(2,3) by (simp add: ownTarget_def)
  from assms(4) show ?thesis
    by cases (use no nk in simp_all, (metis nk)?)
qed

lemma merkle_known:
  assumes "map_of T name = Some t" "ht_Hash t = Some h" "merkle env p content T name h'"
  shows "h' = h"
  using assms(3) by cases (use assms(1,2) in simp_all)

lemma list_all2_functional:
  "list_all2 (\<lambda>x y. Q x y \<and> (\<forall>z. P x z \<longrightarrow> z = y)) xs ys \<Longrightarrow> list_all2 P xs zs \<Longrightarrow> zs = ys"
proof (induction arbitrary: zs rule: list_all2_induct)
  case (Cons x xs y ys)
  then show ?case
    by (cases zs) auto
qed simp

lemma merkle_deterministic: "merkle env p content T name h \<Longrightarrow> merkle env p content T name h' \<Longrightarrow> h' = h"
proof (induction arbitrary: h' rule: merkle.induct)
  case (known name t h)
  show ?case
    by (rule merkle_known [OF known])
next
  case (repo name t h)
  then show ?case
    using merkle_collapsed [OF repo(1-3,6)] by simp
next
  case (noRepo name)
  then show ?case
    using merkle_collapsed [OF noRepo(1-3,6)] by simp
next
  case (generated name t dep deps h)
  have "merkle env p content T dep h'"
    using merkle_own [OF generated(1,2,8)] generated(3-5) by auto
  then show ?case
    by (rule generated.IH)
next
  case (rule name t hs)
  obtain hs' where hs': "h' = env_sha env (ruleBody env t @ concat hs')" "list_all2 (merkle env p content T) (ht_Deps t) hs'"
    using merkle_own [OF rule(1,2,6)] rule(3,4) by auto
  have "hs' = hs"
    using rule(5) hs'(2) by (rule list_all2_functional)
  then show ?case
    using hs'(1) by simp
next
  case (excluded name t)
  then show ?case
    using merkle_own [OF excluded(1,2,4)] by simp
next
  case (source name t h)
  then show ?case
    using merkle_own [OF source(1,2,6)] by simp
next
  case (group name t)
  then show ?case
    using merkle_own [OF group(1,2,5)] by simp
qed

text \<open>
  The state of the traversal relative to the map \<open>T0\<close> it started from: an entry is untouched, or it
  was without a hash and now has its reference hash or the empty mark of a target on the stack.
\<close>

definition hashInv ::
    "'e hashEnv \<Rightarrow> 'e HashParam \<Rightarrow> (SourceFile option \<Rightarrow> 'e hashError + bytes) \<Rightarrow> targetMap \<Rightarrow> string set \<Rightarrow> string set \<Rightarrow> targetMap \<Rightarrow> bool" where
  "hashInv env p content T0 D stack T \<longleftrightarrow> (\<forall>n. map_of T n = map_of T0 n \<or>
     (n \<in> D \<and> fresh T0 n \<and> (\<exists>t h. map_of T n = Some t \<and> ht_Hash t = Some h \<and> (n \<in> stack \<or> merkle env p content T0 n h))))"

text \<open>
  What is asked of the graph and of the set \<open>D\<close> of names that the traversal may reach: records carry
  their own key, \<open>D\<close> is closed under dependencies, and the repository rule that an external file of
  \<open>D\<close> collapses to is hashed already, or is no name of \<open>D\<close>.
\<close>

definition preparedGraph :: "'e hashEnv \<Rightarrow> 'e HashParam \<Rightarrow> string set \<Rightarrow> targetMap \<Rightarrow> bool" where
  "preparedGraph env p D T \<longleftrightarrow> (\<forall>n t. map_of T n = Some t \<longrightarrow> ht_Name t = n) \<and>
     merkleDeps env p T `` D \<subseteq> D \<and>
     (\<forall>n. n \<in> D \<longrightarrow> isForeign env p n \<longrightarrow> collapsesToRepo (map_of T n) \<longrightarrow>
        (case map_of T (externalTargetForRule n) of
           None \<Rightarrow> externalTargetForRule n \<notin> D
         | Some t \<Rightarrow> ht_Hash t \<noteq> None))"

lemma hashInv_fresh:
  assumes "hashInv env p content T0 D stack T" "fresh T n"
  shows "map_of T n = map_of T0 n" "fresh T0 n"
  using assms by (auto simp: hashInv_def fresh_def split: option.splits dest!: spec [where x = n])

lemma hashInv_hashed:
  assumes "hashInv env p content T0 D stack T" "map_of T n = Some t" "ht_Hash t = Some h" "n \<notin> stack"
  shows "merkle env p content T0 n h"
  using assms by (auto simp: hashInv_def intro: merkle.known dest!: spec [where x = n])

lemma hashInv_kept:
  assumes "hashInv env p content T0 D stack T" "n \<notin> D \<or> \<not> fresh T0 n"
  shows "map_of T n = map_of T0 n"
  using assms by (auto simp: hashInv_def dest!: spec [where x = n])

lemma hashInv_update:
  assumes "hashInv env p content T0 D stack T" "fresh T0 n" "n \<in> D" "ht_Hash t = Some h"
    "n \<in> stack' \<or> merkle env p content T0 n h" "stack \<subseteq> insert n stack'"
  shows "hashInv env p content T0 D stack' (AList.update n t T)"
  unfolding hashInv_def
proof
  fix m
  show "map_of (AList.update n t T) m = map_of T0 m \<or> m \<in> D \<and> fresh T0 m \<and>
      (\<exists>t' h. map_of (AList.update n t T) m = Some t' \<and> ht_Hash t' = Some h \<and> (m \<in> stack' \<or> merkle env p content T0 m h))"
  proof (cases "m = n")
    case False
    then show ?thesis
      using assms(1,6) unfolding hashInv_def by (auto dest!: spec [where x = m])
  qed (use assms(2-5) in auto)
qed

lemma hashInv_store:
  "hashInv env p content T0 D stack T \<Longrightarrow> fresh T0 n \<Longrightarrow> n \<in> D \<Longrightarrow> merkle env p content T0 n h \<Longrightarrow> ht_Hash t = Some h \<Longrightarrow>
    hashInv env p content T0 D stack (AList.update n t T)"
  by (rule hashInv_update) auto

lemma hashInv_mark:
  "hashInv env p content T0 D stack T \<Longrightarrow> fresh T0 n \<Longrightarrow> n \<in> D \<Longrightarrow> ht_Hash t = Some h \<Longrightarrow>
    hashInv env p content T0 D (insert n stack) (AList.update n t T)"
  by (rule hashInv_update) auto

lemma hashInv_twice: "hashInv env p content T0 D stack (AList.update n t (AList.update n u T)) =
    hashInv env p content T0 D stack (AList.update n t T)"
  by (simp add: hashInv_def)

section \<open>The traversal computes the reference hashes\<close>

lemma enterTarget_hashed:
  "map_of T name = Some t \<Longrightarrow> ht_Hash t = Some h \<Longrightarrow> enterTarget env p name T = (Inl (Inr (Some h)), T)"
  by (simp add: enterTarget_def)

lemma enterTarget_fresh:
  assumes "fresh T name"
  shows "enterTarget env p name T = (case resolveTarget env p name T of
      (Inl r, T1) \<Rightarrow> (Inl r, T1)
    | (Inr (key, target), T1) \<Rightarrow>
        if ht_Hash target \<noteq> None then (Inl (Inr (ht_Hash target)), alreadyVisited name target T1)
        else if isExcluded name (hp_ExcludedRegex p) then
          (case map_of T1 name of
             None \<Rightarrow> (Inl (Inl Panic), T1)
           | Some t \<Rightarrow> (Inl (Inr (Some [])),
               AList.update name (t \<lparr> ht_Hash := Some [], ht_HashWithoutDeps := Some [] \<rparr>) T1))
        else (Inr (key, target), AList.update key (target \<lparr> ht_Hash := Some [] \<rparr>) T1))"
  using assms by (cases "map_of T name") (simp_all add: enterTarget_def)

text \<open>A name can be entered if it has a target of its own, or a repository rule, or is excluded.\<close>

definition enterable :: "'e hashEnv \<Rightarrow> 'e HashParam \<Rightarrow> targetMap \<Rightarrow> string \<Rightarrow> bool" where
  "enterable env p T name = (if isForeign env p name \<and> collapsesToRepo (map_of T name)
     then map_of T (externalTargetForRule name) \<noteq> None \<or> skips p name else ownTarget env p T name \<noteq> None)"

lemma resolveTarget_error:
  "resolveTarget env p name T = (Inl (Inl e), T1) \<Longrightarrow>
    isForeign env p name \<and> collapsesToRepo (map_of T name) \<and> map_of T (externalTargetForRule name) = None \<and> \<not> skips p name \<or>
    \<not> isForeign env p name \<and> map_of T name = None \<and> lb_Repository (env_Parse env name) \<noteq> ''''"
  by (auto simp: resolveTarget_def Let_def skips_def split: if_splits option.splits)

text \<open>
  Entering a name: an error for a name that cannot be entered, the mark or the reference hash of a
  hashed one, or its own unmarked target, which gets the mark.
\<close>

lemma enterTarget_inv:
  assumes inv: "hashInv env p content T0 D stack T" and prep: "preparedGraph env p D T0" and name: "name \<in> D"
    and e: "enterTarget env p name T = (r, T1)"
  obtains (error) err where "r = Inl (Inl err)" "\<not> enterable env p T0 name"
  | (hash) h where "r = Inl (Inr (Some h))" "name \<in> stack \<or> merkle env p content T0 name h" "hashInv env p content T0 D stack T1"
      "\<not> fresh T1 name"
  | (visit) t where "r = Inr (name, t)" "ownTarget env p T0 name = Some t" "fresh T0 name" "\<not> skips p name"
      "ht_Name t = name" "hashInv env p content T0 D (insert name stack) T1"
proof (cases "fresh T name")
  case False
  then obtain t h where t: "map_of T name = Some t" "ht_Hash t = Some h"
    by (auto simp: fresh_def split: option.splits)
  then show ?thesis
    using enterTarget_hashed [OF t, of env p] e hashInv_hashed [OF inv t] inv False by (intro hash [of h]) auto
next
  case True
  note same = hashInv_fresh [OF inv True] and body = enterTarget_fresh [OF True, of env p]
  note store = hashInv_store [OF inv same(2) name] and mark = hashInv_mark [OF inv same(2) name]
  obtain r' T' where res: "resolveTarget env p name T = (r', T')"
    by (cases "resolveTarget env p name T")
  from res show ?thesis
  proof (cases rule: resolveTarget_cases)
    case excluded
    have none: "map_of T0 (externalTargetForRule name) = None"
      using inv excluded(4) unfolding hashInv_def by (auto dest!: spec [where x = "externalTargetForRule name"])
    have m: "merkle env p content T0 name []"
      using merkle.noRepo [OF same(2) excluded(2) _ none, of content] excluded(3,5) same(1) by (simp add: skips_def)
    show ?thesis
      by (rule hash [OF _ disjI2 [OF m]]) (use e body res excluded in \<open>auto intro: store [OF m]\<close>)
  next
    case (error err)
    have "\<not> enterable env p T0 name"
      using resolveTarget_error [OF res [unfolded error]] same(1) inv unfolding hashInv_def
      by (auto simp: enterable_def ownTarget_def dest!: spec [where x = "externalTargetForRule name"])
    then show ?thesis
      using e body res error by (intro that(1) [of err]) auto
  next
    case (repo t)
    let ?x = "externalTargetForRule name"
    have collapse: "collapsesToRepo (map_of T0 name)"
      using repo(3) same(1) by simp
    have P: "case map_of T0 ?x of None \<Rightarrow> ?x \<notin> D | Some t \<Rightarrow> ht_Hash t \<noteq> None"
      using prep name repo(2) collapse unfolding preparedGraph_def by blast
    then have "map_of T0 ?x = Some t \<and> ht_Hash t \<noteq> None"
      using repo(4) hashInv_kept [OF inv, of ?x] by (cases "map_of T0 ?x") auto
    then obtain h where h: "map_of T0 ?x = Some t" "ht_Hash t = Some h"
      by auto
    have m: "merkle env p content T0 name h"
      by (rule merkle.repo [OF same(2) repo(2) collapse h])
    show ?thesis
      by (rule hash [OF _ disjI2 [OF m]])
        (use e body res repo h in \<open>auto simp: alreadyVisited_def intro!: store [OF m] split: option.splits\<close>)
  next
    case (own t)
    have own0: "ownTarget env p T0 name = Some t"
      using own same(1) by (auto simp: ownTarget_def)
    have h: "ht_Hash t = None"
      using True own(2) by simp
    have nm: "ht_Name t = name"
      using prep own(2) same(1) by (simp add: preparedGraph_def)
    show ?thesis
    proof (cases "skips p name")
      case True
      have m: "merkle env p content T0 name []"
        by (rule merkle.excluded [OF same(2) own0 True])
      show ?thesis
        by (rule hash [OF _ disjI2 [OF m]]) (use e body res own h True in \<open>auto simp: skips_def intro!: store [OF m]\<close>)
    next
      case False
      show ?thesis
        by (rule visit [OF _ own0 same(2) False nm])
          (use e body res own h False in \<open>auto simp: skips_def intro!: mark\<close>)
    qed
  next
    case unexported
    have own0: "ownTarget env p T0 name = Some (unexportedFile env p name)"
      using unexported same(1) by (simp add: ownTarget_def)
    show ?thesis
    proof (cases "skips p name")
      case True
      have m: "merkle env p content T0 name []"
        by (rule merkle.excluded [OF same(2) own0 True])
      show ?thesis
        by (rule hash [OF _ disjI2 [OF m]])
          (use e body res unexported True in \<open>auto simp: skips_def hashInv_twice intro!: store [OF m]\<close>)
    next
      case False
      show ?thesis
        by (rule visit [OF _ own0 same(2) False])
          (use e body res unexported False in \<open>auto simp: skips_def hashInv_twice intro!: mark\<close>)
    qed
  qed
qed

lemma storeHash_inv:
  assumes "\<not> hp_isNoOpHasher p" "ht_Name t = name"
    and "hashInv env p content T0 D (insert name stack) T" "fresh T0 name" "name \<in> D" "merkle env p content T0 name h"
  obtains T' where "storeHash p name name t (Some h) w (T, k) = (Inr (Some h), T', k)" "hashInv env p content T0 D stack T'"
proof -
  have "hashInv env p content T0 D stack (AList.update name t' (AList.update name u T))" if "ht_Hash t' = Some h" for t' u
    unfolding hashInv_twice by (rule hashInv_update [OF assms(3-5) that]) (use assms(6) in auto)
  then show ?thesis
    using assms(1,2) that by (auto simp: storeHash_def Let_def)
qed

lemma preparedGraph_closed:
  "preparedGraph env p D T \<Longrightarrow> n \<in> D \<Longrightarrow> ownTarget env p T n = Some t \<Longrightarrow> set (ht_Deps t) \<subseteq> D"
  unfolding preparedGraph_def merkleDeps_def by fastforce

context source_hasher
begin

lemma hash_merkle:
  assumes "hp_Hasher p = hasher" "\<not> hp_isNoOpHasher p" "preparedGraph env p D T0" "acyclic (merkleDeps env p T0)"
  shows "HashRecursively env p name s = (Inr r, s') \<Longrightarrow> hashInv env p content T0 D stack (fst s) \<Longrightarrow> name \<in> D \<Longrightarrow>
      (\<And>a. a \<in> stack \<Longrightarrow> (name, a) \<notin> (merkleDeps env p T0)\<^sup>*) \<Longrightarrow>
      \<exists>h. r = Some h \<and> merkle env p content T0 name h \<and> hashInv env p content T0 D stack (fst s')"
    and "hashDeps env p deps b s = (Inr b', s') \<Longrightarrow> hashInv env p content T0 D stack (fst s) \<Longrightarrow> set deps \<subseteq> D \<Longrightarrow>
      (\<And>a d. a \<in> stack \<Longrightarrow> d \<in> set deps \<Longrightarrow> (d, a) \<notin> (merkleDeps env p T0)\<^sup>*) \<Longrightarrow>
      \<exists>hs. list_all2 (merkle env p content T0) deps hs \<and> b' = b @ concat hs \<and> hashInv env p content T0 D stack (fst s')"
  using assms
proof (induction env p name s and env p deps b s arbitrary: r s' stack and b' s' stack rule: HashRecursively_hashDeps.induct)
  case (1 env p name T k)
  note run = 1(3) and inv = 1(4)[simplified] and D = 1(5) and free = 1(6) and p = 1(7,8) and prep = 1(9) and acyc = 1(10)
  let ?E = "merkleDeps env p T0"
  have ctx: "env_ctx env k = None"
    using run by (cases "env_ctx env k") (auto simp: HashRecursively.simps)
  obtain e T1 where e: "enterTarget env p name T = (e, T1)"
    by (cases "enterTarget env p name T")
  note body = HashRecursively.simps [of env p name T k] ctx e
  have "name \<notin> stack"
    using free by auto
  from inv prep D e show ?case
  proof (cases rule: enterTarget_inv)
    case (error err)
    then show ?thesis
      using run body by simp
  next
    case (hash h)
    then show ?thesis
      using run body \<open>name \<notin> stack\<close> by auto
  next
    case (visit t)
    have F: "(d, a) \<notin> ?E\<^sup>*" if "a \<in> insert name stack" "d \<in> set (ht_Deps t)" for a d
    proof
      assume "(d, a) \<in> ?E\<^sup>*"
      moreover have "(name, d) \<in> ?E"
        using visit(2) that(2) by (auto simp: merkleDeps_def)
      ultimately have "(name, a) \<in> ?E\<^sup>+"
        by (meson rtrancl_into_trancl2)
      then show False
        using that(1) free acyc by (auto simp: acyclic_def dest: trancl_into_rtrancl)
    qed
    note deps = preparedGraph_closed [OF prep D visit(2)]
    have finish: ?thesis if m: "merkle env p content T0 name h" and i: "hashInv env p content T0 D (insert name stack) (fst u)"
      and st: "storeHash p name name t (Some h) w u = (Inr r, s')" for h w u
    proof -
      obtain T2 k2 where u: "u = (T2, k2)"
        by (cases u)
      obtain T3 where "storeHash p name name t (Some h) w (T2, k2) = (Inr (Some h), T3, k2)" "hashInv env p content T0 D stack T3"
        by (rule storeHash_inv [OF p(2) visit(5) i [unfolded u fst_conv] visit(3) D m])
      then show ?thesis
        using m st u by auto
    qed
    show ?thesis
    proof (cases "ht_RuleType t = SourceFileType")
      case True
      obtain hash k2 where H: "hp_Hasher p (ht_SourceFile t) (k + 1) = (Inr hash, k2)"
        using run body visit(1) True by (auto split: prod.splits sum.splits)
      obtain h where h: "hash = Some h" "content (ht_SourceFile t) = Inr h"
        using hasher_result H p(1) by metis
      show ?thesis
        using run body visit(1) True H h
        by (intro finish [where w = None and u = "(T1, k2)", OF merkle.source [where content = content, OF visit(3,2,4) True h(2)]]) (simp_all add: visit(6))
    next
      case src: False
      show ?thesis
      proof (cases "ht_RuleType t = GeneratedFileType")
        case True
        obtain dep rest where d: "ht_Deps t = dep # rest"
          using run body visit(1) True by (cases "ht_Deps t") auto
        obtain hash s2 where H: "HashRecursively env p dep (T1, k + 1) = (Inr hash, s2)"
          using run body visit(1) src True d by (auto split: prod.splits sum.splits)
        obtain h where h: "hash = Some h" "merkle env p content T0 dep h" "hashInv env p content T0 D (insert name stack) (fst s2)"
          using 1(1) [OF ctx e [symmetric] visit(1) refl src True d H _ _ _ p prep acyc, of "insert name stack"] visit(6) F deps d
          by auto
        show ?thesis
          using run body visit(1) src True d H h
          by (intro finish [where w = None, OF merkle.generated [OF visit(3,2,4) True d h(2)] h(3)]) simp_all
      next
        case gen: False
        show ?thesis
        proof (cases "ht_RuleType t = PackageGroup")
          case True
          show ?thesis
            using run body visit(1) src gen True
            by (intro finish [where w = None and u = "(T1, k + 1)", OF merkle.group [OF visit(3,2,4) True]]) (simp_all add: visit(6))
        next
          case pg: False
          obtain b s2 where H: "hashDeps env p (ht_Deps t) (ruleBody env t) (T1, k + 1) = (Inr b, s2)"
            using run body visit(1) src gen pg by (auto split: prod.splits sum.splits)
          obtain hs where hs: "list_all2 (merkle env p content T0) (ht_Deps t) hs" "b = ruleBody env t @ concat hs"
            "hashInv env p content T0 D (insert name stack) (fst s2)"
            using 1(2) [OF ctx e [symmetric] visit(1) refl src gen pg H _ deps _ p prep acyc, of "insert name stack"] visit(6) F
            by auto
          have t: "ht_RuleType t \<notin> {SourceFileType, GeneratedFileType, PackageGroup}"
            using src gen pg by simp
          show ?thesis
            using run body visit(1) src gen pg H hs(2)
            by (intro finish [where w = "Some (ruleBody env t)", OF merkle.rule [OF visit(3,2,4) t hs(1)] hs(3)]) simp_all
        qed
      qed
    qed
  qed
next
  case (2 env p h s)
  then show ?case
    by auto
next
  case (3 env p dep deps h s)
  obtain r1 s1 where H: "HashRecursively env p dep s = (Inr r1, s1)"
    using 3(3) by (auto split: prod.splits sum.splits)
  obtain h1 where h1: "r1 = Some h1" "merkle env p content T0 dep h1" "hashInv env p content T0 D stack (fst s1)"
    using 3(1) [OF H 3(4) _ _ 3(7-10)] 3(5,6) by auto
  have H2: "hashDeps env p deps (h @ h1) s1 = (Inr b', s')"
    using 3(3) H h1(1) by (simp add: sliceBytes_def)
  obtain hs where "list_all2 (merkle env p content T0) deps hs" "b' = (h @ h1) @ concat hs" "hashInv env p content T0 D stack (fst s')"
    using 3(2) [OF H [symmetric] refl _ h1(3) _ _ 3(7-10)] 3(5,6) H2 h1(1) by (auto simp: sliceBytes_def)
  then show ?case
    using h1(2) by (intro exI [where x = "h1 # hs"]) simp
qed

end

section \<open>Hashing succeeds\<close>

text \<open>
  A graph whose names can be entered, whose files can be read and whose generated files have a
  generating rule is hashed without error, whatever its cycles. The invariant with every name on the
  stack only says that an entry is untouched or hashed.
\<close>

definition hashable ::
    "'e hashEnv \<Rightarrow> 'e HashParam \<Rightarrow> (SourceFile option \<Rightarrow> 'e hashError + bytes) \<Rightarrow> string set \<Rightarrow> targetMap \<Rightarrow> bool" where
  "hashable env p content D T \<longleftrightarrow> (\<forall>n. n \<in> D \<longrightarrow> enterable env p T n \<and>
     (\<forall>t. ownTarget env p T n = Some t \<longrightarrow>
        (ht_RuleType t = SourceFileType \<longrightarrow> (\<exists>h. content (ht_SourceFile t) = Inr h)) \<and>
        (ht_RuleType t = GeneratedFileType \<longrightarrow> ht_Deps t \<noteq> [])))"

lemma storeHash_live:
  assumes "ht_Name t = name" "hashInv env p content T0 D UNIV (fst s)" "fresh T0 name" "name \<in> D"
  shows "\<exists>s'. storeHash p name name t (Some h) w s = (Inr (Some h), s') \<and> hashInv env p content T0 D UNIV (fst s') \<and> \<not> fresh (fst s') name"
proof -
  define t' where "t' = (if hp_isNoOpHasher p then t \<lparr> ht_Hash := Some [], ht_HashWithoutDeps := Some [] \<rparr>
      else t \<lparr> ht_Hash := Some h, ht_HashWithoutDeps := w \<rparr>)"
  let ?T = "AList.update name (t' \<lparr> ht_Hash := ht_Hash t' \<rparr>) (AList.update name t' (fst s))"
  have st: "storeHash p name name t (Some h) w s = (Inr (Some h), ?T, snd s)"
    using assms(1) by (cases s) (simp add: storeHash_def Let_def t'_def)
  have b: "\<exists>b. ht_Hash (t' \<lparr> ht_Hash := ht_Hash t' \<rparr>) = Some b"
    by (simp add: t'_def)
  then have "hashInv env p content T0 D UNIV ?T"
    unfolding hashInv_twice using hashInv_update [OF assms(2-4)] by blast
  then show ?thesis
    using st b by auto
qed

context source_hasher
begin

lemma hasher_total: "content sf = Inr h \<Longrightarrow> \<exists>k'. hasher sf k = (Inr (Some h), k')"
  using hasher_stable [of sf k] by (cases "hasher sf k") auto

lemma hash_live:
  assumes "hp_Hasher p = hasher" "preparedGraph env p D T0" "hashable env p content D T0" "\<And>k. env_ctx env k = None"
  shows "hashInv env p content T0 D UNIV (fst s) \<Longrightarrow> name \<in> D \<Longrightarrow>
      \<exists>h s'. HashRecursively env p name s = (Inr (Some h), s') \<and> hashInv env p content T0 D UNIV (fst s') \<and> \<not> fresh (fst s') name"
    and "hashInv env p content T0 D UNIV (fst s) \<Longrightarrow> set deps \<subseteq> D \<Longrightarrow>
      \<exists>b' s'. hashDeps env p deps b s = (Inr b', s') \<and> hashInv env p content T0 D UNIV (fst s')"
  using assms
proof (induction env p name s and env p deps b s rule: HashRecursively_hashDeps.induct)
  case (1 env p name T k)
  note inv = 1(3)[simplified] and D = 1(4) and p = 1(5) and prep = 1(6) and able = 1(7) and ctx = 1(8)
  obtain e T1 where e: "enterTarget env p name T = (e, T1)"
    by (cases "enterTarget env p name T")
  note body = HashRecursively.simps [of env p name T k] ctx e
  have en: "enterable env p T0 name"
    using able D by (simp add: hashable_def)
  from inv prep D e show ?case
  proof (cases rule: enterTarget_inv)
    case (error err)
    then show ?thesis
      using en by simp
  next
    case (hash h)
    then show ?thesis
      using body by auto
  next
    case (visit t)
    note i1 = visit(6) [simplified]
    have fin: ?thesis if "HashRecursively env p name (T, k) = storeHash p name name t (Some h) w u" "hashInv env p content T0 D UNIV (fst u)" for h w u
      using storeHash_live [OF visit(5) that(2) visit(3) D] unfolding that(1) by blast
    note deps = preparedGraph_closed [OF prep D visit(2)]
    have t: "ht_RuleType t = SourceFileType \<Longrightarrow> \<exists>h. content (ht_SourceFile t) = Inr h"
      "ht_RuleType t = GeneratedFileType \<Longrightarrow> ht_Deps t \<noteq> []"
      using able D visit(2) by (simp_all add: hashable_def)
    show ?thesis
    proof (cases "ht_RuleType t = SourceFileType")
      case True
      then obtain h k2 where "hp_Hasher p (ht_SourceFile t) (Suc k) = (Inr (Some h), k2)"
        using t(1) hasher_total p by metis
      then show ?thesis
        using body visit(1) True i1 by (intro fin [where w = None and u = "(T1, k2)" and h = h]) simp_all
    next
      case src: False
      show ?thesis
      proof (cases "ht_RuleType t = GeneratedFileType")
        case True
        obtain dep rest where d: "ht_Deps t = dep # rest"
          using t(2) True by (cases "ht_Deps t") auto
        then obtain h s2 where "HashRecursively env p dep (T1, k + 1) = (Inr (Some h), s2)" "hashInv env p content T0 D UNIV (fst s2)"
          using 1(1) [OF ctx e [symmetric] visit(1) refl src True d _ _ p prep able ctx] i1 deps by auto
        then show ?thesis
          using body visit(1) src True d by (intro fin [where w = None and u = s2 and h = h]) simp_all
      next
        case gen: False
        show ?thesis
        proof (cases "ht_RuleType t = PackageGroup")
          case True
          then show ?thesis
            using body visit(1) src gen i1
            by (intro fin [where w = None and u = "(T1, k + 1)" and h = "env_sha env (bytes_of name)"]) simp_all
        next
          case pg: False
          obtain b s2 where "hashDeps env p (ht_Deps t) (ruleBody env t) (T1, k + 1) = (Inr b, s2)" "hashInv env p content T0 D UNIV (fst s2)"
            using 1(2) [OF ctx e [symmetric] visit(1) refl src gen pg _ deps p prep able ctx] i1 by auto
          then show ?thesis
            using body visit(1) src gen pg
            by (intro fin [where w = "Some (ruleBody env t)" and u = s2 and h = "env_sha env b"]) simp_all
        qed
      qed
    qed
  qed
next
  case (2 env p h s)
  then show ?case
    by auto
next
  case (3 env p dep deps h s)
  obtain h1 s1 where H: "HashRecursively env p dep s = (Inr (Some h1), s1)" "hashInv env p content T0 D UNIV (fst s1)"
    using 3(1) [OF 3(3) _ 3(5-8)] 3(4) by auto
  then show ?case
    using 3(2) [OF H(1) [symmetric] refl H(2) _ 3(5-8)] 3(4) by simp
qed

end

end
