(* ===== verification/TargetHashProperties.thy ===== *)
theory TargetHashProperties
  imports TargetMerkle
begin

text \<open>
  Examples for the statements below: a rule over a source file, with a hash function that is the
  identity and a file system without the file.
\<close>

definition demoEnv :: "unit hashEnv" where
  "demoEnv = \<lparr> env_sha = (\<lambda>b. b), env_Parse = (\<lambda>s. \<lparr> lb_Repository = '''', lb_Package = '''', lb_Target = s \<rparr>),
     env_STRING_LIST = 5, env_ctx = (\<lambda>_. None) \<rparr>"

definition demoParam :: "unit HashParam" where
  "demoParam = \<lparr> hp_Hasher = diskHasher (\<lambda>b. b) (\<lambda>_. StatMissing) ''/w'' Map.empty, hp_isNoOpHasher = False,
     hp_WorkspaceRoot = ''/w'', hp_FullHashRepos = {''''}, hp_ExcludedRegex = [], hp_UseBzlmod = False \<rparr>"

definition demoRule :: "string \<Rightarrow> string list \<Rightarrow> byte \<Rightarrow> HashTarget" where
  "demoRule name deps body = (newTarget name ''go_library'') \<lparr> ht_Deps := deps, ht_HashWithoutDeps := Some [body] \<rparr>"

definition demoGraph :: targetMap where
  "demoGraph = [(''lib'', demoRule ''lib'' [''src''] 1),
     (''src'', (newTarget ''src'' SourceFileType) \<lparr> ht_SourceFile := Some \<lparr> sf_Name = Some ''src'', sf_Location = None, sf_VisibilityLabel = [] \<rparr> \<rparr>)]"

definition demoCycle :: targetMap where
  "demoCycle = [(''a'', demoRule ''a'' [''b'', ''file''] 1), (''b'', demoRule ''b'' [''a''] 2)]"

lemma hashInv_refl: "hashInv env p content T D stack T"
  by (simp add: hashInv_def)

lemma hashNames_inv:
  assumes "source_hasher (hp_Hasher p) content" "\<not> hp_isNoOpHasher p" "preparedGraph env p D T0" "acyclic (merkleDeps env p T0)"
    and "hashNames env p names s = (Inr (), s')" "hashInv env p content T0 D {} (fst s)" "set names \<subseteq> D"
  shows "hashInv env p content T0 D {} (fst s')"
  using assms(5-)
proof (induction names arbitrary: s)
  case (Cons name names)
  obtain r s1 where H: "HashRecursively env p name s = (Inr r, s1)"
    using Cons.prems(1) by (auto split: prod.splits sum.splits)
  have "hashInv env p content T0 D {} (fst s1)"
    using source_hasher.hash_merkle(1) [OF assms(1) refl assms(2-4) H Cons.prems(2)] Cons.prems(3) by auto
  then show ?case
    using Cons.IH [of s1] Cons.prems H by simp
qed simp

text \<open>C20: On a graph without dependency cycles, hashing a name gives the hash that the graph alone
  determines (its reference hash \<open>merkle\<close>), whatever names were hashed before it and in whatever order;
  the reference hash is unique.\<close>

theorem HashRecursively_merkle:
  assumes "hp_Hasher p = diskHasher (env_sha env) stat root known" "\<not> hp_isNoOpHasher p"
    and "preparedGraph env p D T" "acyclic (merkleDeps env p T)" "set names \<subseteq> D" "name \<in> D"
    and "hashNames env p names (T, k) = (Inr (), s1)" "HashRecursively env p name s1 = (Inr r, s2)"
  shows "\<exists>h. r = Some h \<and> merkle env p (diskContent (env_sha env) stat root known) T name h \<and>
    (\<forall>h'. merkle env p (diskContent (env_sha env) stat root known) T name h' \<longrightarrow> h' = h)"
proof -
  have loc: "source_hasher (hp_Hasher p) (diskContent (env_sha env) stat root known)"
    using disk.source_hasher_axioms assms(1) by simp
  have "hashInv env p (diskContent (env_sha env) stat root known) T D {} (fst s1)"
    using hashNames_inv [OF loc assms(2-4,7)] assms(5) by (simp add: hashInv_refl)
  then obtain h where h: "r = Some h" "merkle env p (diskContent (env_sha env) stat root known) T name h"
    using disk.hash_merkle(1) [OF assms(1-4,8) _ assms(6), of "{}"] by auto
  show ?thesis
    by (intro exI conjI allI impI) (rule h(1), rule h(2), erule merkle_deterministic [OF h(2)])
qed

lemma demo_prepared: "preparedGraph demoEnv demoParam UNIV demoGraph"
  by (auto simp: preparedGraph_def demoGraph_def demoRule_def isForeign_def demoEnv_def Let_def)

lemma demo_own:
  "ownTarget demoEnv demoParam T n = Some (case map_of T n of Some t \<Rightarrow> t | None \<Rightarrow> unexportedFile demoEnv demoParam n)"
  by (simp add: ownTarget_def isForeign_def demoEnv_def Let_def split: option.split)

lemma demo_merkleDeps: "merkleDeps demoEnv demoParam demoGraph = {(''lib'', ''src'')}"
proof -
  have "(\<exists>t. ownTarget demoEnv demoParam demoGraph n = Some t \<and> d \<in> set (ht_Deps t)) \<longleftrightarrow> n = ''lib'' \<and> d = ''src''" for n d
    unfolding demo_own by (cases "n = ''lib''"; cases "n = ''src''") (simp_all add: demoGraph_def demoRule_def)
  then show ?thesis
    by (simp add: merkleDeps_def)
qed

lemma demo_acyclic: "acyclic (merkleDeps demoEnv demoParam demoGraph)"
proof -
  have "wf {(''src'', ''lib'')}"
    by (rule wf_insert [THEN iffD2]) simp
  then show ?thesis
    unfolding demo_merkleDeps using wf_acyclic [of "{(''src'', ''lib'')}"] acyclic_converse [of "{(''lib'', ''src'')}"] by simp
qed

lemma demo_run:
  "hashNames demoEnv demoParam [''src''] (demoGraph, 0) =
     (Inr (), snd (hashNames demoEnv demoParam [''src''] (demoGraph, 0)))"
  "HashRecursively demoEnv demoParam ''lib'' (snd (hashNames demoEnv demoParam [''src''] (demoGraph, 0))) =
     (Inr (Some (1 # bytes_of ''src'')), snd (HashRecursively demoEnv demoParam ''lib'' (snd (hashNames demoEnv demoParam [''src''] (demoGraph, 0)))))"
  by code_simp+

theorem HashRecursively_merkle_witness:
  "merkle demoEnv demoParam (diskContent (\<lambda>b. b) (\<lambda>_. StatMissing) ''/w'' Map.empty) demoGraph ''lib'' (1 # bytes_of ''src'')"
proof -
  have "hp_Hasher demoParam = diskHasher (env_sha demoEnv) (\<lambda>_. StatMissing) ''/w'' Map.empty" "\<not> hp_isNoOpHasher demoParam"
    by (simp_all add: demoParam_def demoEnv_def)
  from HashRecursively_merkle [OF this demo_prepared demo_acyclic _ _ demo_run]
  show ?thesis
    by (simp add: demoEnv_def)
qed

text \<open>C21: Hashing ends and succeeds on every graph whose names can be resolved and whose files can be
  read, cyclic or not, when the context is not cancelled: the name has a hash afterwards.\<close>

theorem HashRecursively_succeeds:
  assumes "hp_Hasher p = diskHasher (env_sha env) stat root known" "\<And>k. env_ctx env k = None"
    and "preparedGraph env p D T" "hashable env p (diskContent (env_sha env) stat root known) D T" "name \<in> D"
  shows "\<exists>h T' k' t. HashRecursively env p name (T, k) = (Inr (Some h), T', k') \<and>
    map_of T' name = Some t \<and> ht_Hash t \<noteq> None"
proof -
  obtain h s' where s': "HashRecursively env p name (T, k) = (Inr (Some h), s')" "\<not> fresh (fst s') name"
    using disk.hash_live(1) [OF assms(1,3,4,2), of "(T, k)" name] assms(5) by (auto simp: hashInv_refl)
  then show ?thesis
    by (cases s') (auto simp: fresh_def split: option.splits)
qed

lemma demo_cycle_prepared: "preparedGraph demoEnv demoParam UNIV demoCycle"
  by (auto simp: preparedGraph_def demoCycle_def demoRule_def isForeign_def demoEnv_def Let_def)

lemma demo_content: "\<exists>h. diskContent (\<lambda>b. b) (\<lambda>_. StatMissing) ''/w'' Map.empty sf = (Inr h :: unit hashError + bytes)"
  by (simp add: diskContent_def diskHasher_def diskHashSourceFile_def Let_def)

lemma demo_not_foreign: "\<not> isForeign demoEnv demoParam n"
  by (simp add: isForeign_def demoEnv_def Let_def)

lemma demo_cycle_hashable:
  "hashable demoEnv demoParam (diskContent (env_sha demoEnv) (\<lambda>_. StatMissing) ''/w'' Map.empty) UNIV demoCycle"
proof -
  have "enterable demoEnv demoParam demoCycle n" for n
    by (simp add: enterable_def demo_not_foreign demo_own)
  moreover have "ht_RuleType (case map_of demoCycle n of Some t \<Rightarrow> t | None \<Rightarrow> unexportedFile demoEnv demoParam n) \<noteq> GeneratedFileType" for n
    by (simp add: demoCycle_def demoRule_def GeneratedFileType_def SourceFileType_def)
  moreover have "env_sha demoEnv = (\<lambda>b. b)"
    by (simp add: demoEnv_def)
  ultimately show ?thesis
    using demo_content by (auto simp: hashable_def demo_own)
qed

theorem HashRecursively_succeeds_witness:
  "\<exists>h T' k' t. HashRecursively demoEnv demoParam ''a'' (demoCycle, 0) = (Inr (Some h), T', k') \<and>
    map_of T' ''a'' = Some t \<and> ht_Hash t \<noteq> None"
proof -
  have "hp_Hasher demoParam = diskHasher (env_sha demoEnv) (\<lambda>_. StatMissing) ''/w'' Map.empty" "\<And>k. env_ctx demoEnv k = None"
    by (simp_all add: demoParam_def demoEnv_def)
  from HashRecursively_succeeds [OF this demo_cycle_prepared demo_cycle_hashable]
  show ?thesis
    by simp
qed














text \<open>The roots are, in order, the targets that no target depends on; exactly the buildable ones
  among them are marked, and nothing else of the graph changes.\<close>

theorem roots_correct:
  "GetTopologicalRootsAndIdentifyBuildableRoots T = (roots, T') \<Longrightarrow>
    sorted roots \<and> set roots = {n. n \<in> fst ` set T \<and> (\<forall>m t. (m, t) \<in> set T \<longrightarrow> n \<notin> set (ht_Deps t))} \<and>
    T' = map (\<lambda>(n, t). (n, if n \<in> set roots \<and> CanBeRoot (ht_RuleType t) then t \<lparr> ht_Root := True \<rparr> else t)) T"
proof -
  assume r: "GetTopologicalRootsAndIdentifyBuildableRoots T = (roots, T')"
  let ?deps = "concat (map (\<lambda>(n, t). ht_Deps t) T)"
  have deps: "n \<in> set ?deps \<longleftrightarrow> (\<exists>m t. (m, t) \<in> set T \<and> n \<in> set (ht_Deps t))" for n
    by force
  have roots: "roots = sort (map fst (filter (\<lambda>(n, t). n \<notin> set ?deps) T))"
    and T': "T' = map (\<lambda>(n, t). (n, if n \<notin> set ?deps \<and> CanBeRoot (ht_RuleType t) then t \<lparr> ht_Root := True \<rparr> else t)) T"
    using r by (simp_all add: GetTopologicalRootsAndIdentifyBuildableRoots_def Let_def)
  have mem: "n \<in> set roots \<longleftrightarrow> n \<in> fst ` set T \<and> n \<notin> set ?deps" for n
    unfolding roots by force
  have "T' = map (\<lambda>(n, t). (n, if n \<in> set roots \<and> CanBeRoot (ht_RuleType t) then t \<lparr> ht_Root := True \<rparr> else t)) T"
    unfolding T' mem by (intro map_cong) force+
  moreover have "set roots = {n. n \<in> fst ` set T \<and> (\<forall>m t. (m, t) \<in> set T \<longrightarrow> n \<notin> set (ht_Deps t))}"
    unfolding set_eq_iff mem_Collect_eq mem deps by blast
  moreover have "sorted roots"
    by (simp add: roots)
  ultimately show ?thesis
    by (intro conjI)
qed

theorem roots_correct_witness:
  "sorted [''lib''] \<and> set [''lib''] = {n. n \<in> fst ` set demoGraph \<and> (\<forall>m t. (m, t) \<in> set demoGraph \<longrightarrow> n \<notin> set (ht_Deps t))} \<and>
    snd (GetTopologicalRootsAndIdentifyBuildableRoots demoGraph) =
      map (\<lambda>(n, t). (n, if n \<in> set [''lib''] \<and> CanBeRoot (ht_RuleType t) then t \<lparr> ht_Root := True \<rparr> else t)) demoGraph"
proof -
  have "GetTopologicalRootsAndIdentifyBuildableRoots demoGraph = ([''lib''], snd (GetTopologicalRootsAndIdentifyBuildableRoots demoGraph))"
    by code_simp
  from roots_correct [OF this] show ?thesis .
qed

lemma length_encodeFields_le:
  "length (encodeFields fs) \<le> (\<Sum>(n, t, p)\<leftarrow>fs. length n + 22 + (case p of None \<Rightarrow> 0 | Some x \<Rightarrow> length x))"
proof (induction fs)
  case (Cons f fs)
  obtain n t p where f: "f = (n, t, p)"
    by (cases f)
  have "length (encodeField (n, t, p)) \<le> length n + 22 + (case p of None \<Rightarrow> 0 | Some x \<Rightarrow> length x)"
    using length_AppendUvarint_le_10 [of "of_nat (length n)"]
      length_AppendUvarint_le_10 [of "of_nat (length (the p))"] by (cases p) (simp_all add: frame_def)
  then show ?case
    using Cons by (simp add: encodeFields_def f)
qed (simp add: encodeFields_def)

lemma length_listPayload_le: "length (listPayload t es) \<le> 11 + (\<Sum>x\<leftarrow>es. length x + 11)"
proof -
  have "length (concat (map (\<lambda>x. (1 :: byte) # frame x) es)) \<le> (\<Sum>x\<leftarrow>es. length x + 11)"
  proof (induction es)
    case (Cons x es)
    then show ?case
      using length_AppendUvarint_le_10 [of "of_nat (length x)"] by (simp add: frame_def)
  qed simp
  then show ?thesis
    using length_AppendUvarint_le_10 [of "of_nat (length es)"] by (simp add: listPayload_def)
qed

text \<open>C22: The bytes that \<open>HashRuleCommon\<close> hashes identify the rule up to the order of its collections,
  absent messages and the \<open>generator_location\<close> attribute: for a rule with distinct attribute names, another
  rule gives the same bytes exactly if it has the same meaning, and no rule gives the bytes of an absent one.\<close>

theorem HashRuleCommon_canonical:
  assumes "length (encodeRule r) < 2 ^ 63" "distinct (map (\<lambda>a. getString (at_Name a)) (hashedAttributes r))"
  shows "(HashRuleCommon (Some r) h = HashRuleCommon (Some r') h \<longleftrightarrow> ruleMeaning r = ruleMeaning r') \<and>
    HashRuleCommon (Some r) h \<noteq> HashRuleCommon None h"
proof -
  have len: "length (encodeField (''rule'', canonicalMessage, Some (encodeRule r)) @ []) < 2 ^ 64"
    using assms(1) length_AppendUvarint_le_10 [of "of_nat (length (encodeRule r))"]
      length_AppendUvarint_le_10 [of "of_nat (length (bytes_of ''rule''))"] by (simp add: frame_def)
  have enc: "HashRuleCommon x h = h @ encodeField (''rule'', canonicalMessage, map_option encodeRule x)" for x
    by (cases x) (simp_all add: HashRuleCommon_def writeField_append encodeFields_def)
  have "HashRuleCommon (Some r) h = HashRuleCommon x h \<longleftrightarrow> Some (encodeRule r) = map_option encodeRule x" for x
    using encodeField_inject [OF _ len, of "map_option encodeRule x" "[]"] by (auto simp: enc simp del: encodeField.simps)
  from this [of "Some r'"] this [of None] show ?thesis
    using encodeRule_eq [OF _ assms(2)] assms(1) by simp
qed

definition demoAttribute :: "string \<Rightarrow> string list \<Rightarrow> Attribute" where
  "demoAttribute name vs = \<lparr> at_Name = Some name, at_ExplicitlySpecified = None, at_Nodep = None, at_Type = None, at_IntValue = None,
     at_StringValue = None, at_BooleanValue = None, at_TristateValue = None, at_StringListValue = vs, at_StringDictValue = [],
     at_FilesetListValue = [], at_LabelListDictValue = [], at_StringListDictValue = [], at_IntListValue = [],
     at_LabelDictUnaryValue = [], at_LabelKeyedStringDictValue = [] \<rparr>"

definition demoBuildRule :: "string list \<Rightarrow> Rule" where
  "demoBuildRule srcs = \<lparr> ru_Name = Some ''//:lib'', ru_RuleClass = Some ''go_library'',
     ru_Attribute = [None, Some (demoAttribute ''generator_location'' srcs)],
     ru_RuleInput = srcs, ru_RuleOutput = [], ru_DefaultSetting = [], ru_SkylarkEnvironmentHashCode = None \<rparr>"

theorem HashRuleCommon_canonical_witness:
  "(HashRuleCommon (Some (demoBuildRule [''a'', ''b''])) [] = HashRuleCommon (Some (demoBuildRule [''b'', ''a''])) [] \<longleftrightarrow>
     ruleMeaning (demoBuildRule [''a'', ''b'']) = ruleMeaning (demoBuildRule [''b'', ''a''])) \<and>
   HashRuleCommon (Some (demoBuildRule [''a'', ''b''])) [] \<noteq> HashRuleCommon None []"
proof (rule HashRuleCommon_canonical)
  have "length (encodeRule (demoBuildRule [''a'', ''b''])) \<le> 500"
    unfolding encodeRule_fields
    by (rule order_trans [OF length_encodeFields_le])
      (use length_listPayload_le [of canonicalMessage "[]"] length_listPayload_le [of canonicalString "[]"]
         length_listPayload_le [of canonicalString "[bytes_of ''a'', bytes_of ''b'']"]
       in \<open>simp add: demoBuildRule_def demoAttribute_def attributesPayload_def hashedAttributes_def stringsPayload_def map_filter_def\<close>)
  then show "length (encodeRule (demoBuildRule [''a'', ''b''])) < 2 ^ 63"
    by simp
  show "distinct (map (\<lambda>a. getString (at_Name a)) (hashedAttributes (demoBuildRule [''a'', ''b''])))"
    by code_simp
qed


text \<open>An absolute symbolic link into the checkout is hashed by its relative target, so that it is the
  same wherever the checkout is.\<close>

theorem stableSymlinkTarget_relocation:
  assumes "list_all plainElem (root @ root' @ dir @ [name] @ targ)"
  shows "stableSymlinkTarget (''/'' @ Join ''/'' (root @ dir @ [name])) (''/'' @ Join ''/'' (root @ targ)) =
    (stableSymlinkTarget (''/'' @ Join ''/'' (root' @ dir @ [name])) (''/'' @ Join ''/'' (root' @ targ)) :: 'e hashError + string)"
proof -
  have "stableSymlinkTarget (''/'' @ Join ''/'' (r @ dir @ [name])) (''/'' @ Join ''/'' (r @ targ)) =
      ((case stripCommon dir targ of (up, down) \<Rightarrow>
         Inr (Clean (case replicate (length up) ''..'' @ down of [] \<Rightarrow> ''.'' | ps \<Rightarrow> Join ''/'' ps))) :: 'e hashError + string)"
    if "list_all plainElem (r @ dir @ [name] @ targ)" for r
  proof -
    have D: "Dir (''/'' @ Join ''/'' (r @ dir @ [name])) = ''/'' @ Join ''/'' (r @ dir)"
      using Dir_plain [of "r @ dir" name] that by simp
    show ?thesis
      using that by (simp only: stableSymlinkTarget_def IsAbs_slash if_True D Rel_plain list_all_append stripCommon_append)
        (simp split: prod.split)
  qed
  then show ?thesis
    using assms by simp
qed

theorem stableSymlinkTarget_relocation_witness:
  "stableSymlinkTarget (''/'' @ Join ''/'' ([''home'', ''x''] @ [''pkg''] @ [''link''])) (''/'' @ Join ''/'' ([''home'', ''x''] @ [''lib'', ''f''])) =
    (stableSymlinkTarget (''/'' @ Join ''/'' ([''ci''] @ [''pkg''] @ [''link''])) (''/'' @ Join ''/'' ([''ci''] @ [''lib'', ''f''])) :: unit hashError + string)"
  by (rule stableSymlinkTarget_relocation) (simp add: plainElem_def)

text \<open>The hash of a marker file covers its first line and the lines of inputs in the main repository
  only: any other line after the first can be added or removed without changing it, and a marker file
  without text has no hash.\<close>

theorem readMarkerHash_stable:
  assumes "TrimSpace header \<noteq> ''''" "\<not> isLocalInput (TrimSpace line)"
  shows "readMarkerHash sha (MarkerFile (header # before @ line # after) None) =
      (readMarkerHash sha (MarkerFile (header # before @ after) None) :: 'e + slice) \<and>
    readMarkerHash sha (MarkerFile (header # before @ after) None) =
      (Inr (Some (sha (concat (map bytes_of (TrimSpace header # filter isLocalInput (map TrimSpace (before @ after))))))) :: 'e + slice) \<and>
    readMarkerHash sha (MarkerFile [] None) = (Inr None :: 'e + slice)"
proof -
  have "\<not> isLocalInput ''''"
    by (simp add: isLocalInput_def localInputPrefixes_def HasPrefix_def)
  then have nonempty: "filter isLocalInput (filter (\<lambda>l. l \<noteq> '''') ls) = filter isLocalInput ls" for ls
    by (auto simp: filter_filter intro!: filter_cong)
  have stable: "stableLines (header # ls) = TrimSpace header # filter isLocalInput (map TrimSpace ls)" for ls
    using assms(1) nonempty [of "map TrimSpace ls"] by (simp add: stableLines_def)
  show ?thesis
    using assms(2) by (simp add: readMarkerHash_def markerLines_unseen stable) (simp add: stableLines_def)
qed

theorem readMarkerHash_stable_witness:
  "readMarkerHash (\<lambda>b. b) (MarkerFile (''h'' # [''FILE:@@//p 1''] @ ''ENV:X 2'' # []) None) =
      (readMarkerHash (\<lambda>b. b) (MarkerFile (''h'' # [''FILE:@@//p 1''] @ []) None) :: unit + slice)"
proof -
  have "TrimSpace ''h'' \<noteq> ''''" "\<not> isLocalInput (TrimSpace ''ENV:X 2'')"
    by code_simp+
  from readMarkerHash_stable [OF this] show ?thesis
    by blast
qed

text \<open>On a cycle the hashes depend on the order in which its targets are entered: the two orders of
  listing two sequential targets of one cycle give the first of them different hashes.\<close>

theorem sequential_order_matters:
  "map_option ht_Hash (map_of (fst (snd (hashNames demoEnv demoParam [''a'', ''b''] (demoCycle, 0)))) ''a'') \<noteq>
   map_option ht_Hash (map_of (fst (snd (hashNames demoEnv demoParam [''b'', ''a''] (demoCycle, 0)))) ''a'')"
  by code_simp

text \<open>Targets first met while hashing a cycle that no root reaches are in the result's map but not in
  its list of names: here the unexported file of a rule on the cycle.\<close>

theorem TargetNames_misses_targets:
  "(case fst (hashGraph demoEnv demoParam [] (demoCycle, 0)) of
      Inl e \<Rightarrow> False
    | Inr r \<Rightarrow> rs_TargetNames r = [''a'', ''b''] \<and> map fst (rs_Targets r) = [''a'', ''b'', ''file''])"
  by code_simp

end
