(* ===== verification/GoError.thy ===== *)
theory GoError
  imports Prelude
begin

text \<open>
  Go's error values as the service uses them, \<open>core/errors\<close> (classification) and
  \<open>mapper/proto/errors.go\<close> (the code on the wire). \<open>Wrapped\<close> is \<open>fmt.Errorf\<close> with \<open>%w\<close> verbs or
  \<open>errors.Join\<close>: the text around the wrapped errors and the errors themselves.
\<close>

section \<open>Error values\<close>

datatype ErrorCode = ErrorInfra | ErrorCancelled | ErrorUser | ErrorInfraRetryable

datatype goerr =
  Msg string
| ErrNotFound
| ErrCorruptTGB
| ErrCanceled
| EOF
| PanicValue
| Wrapped string "goerr list"
| TangoError goerr ErrorCode

abbreviation wrap :: "string \<Rightarrow> goerr \<Rightarrow> goerr" where
  "wrap text e \<equiv> Wrapped text [e]"

text \<open>\<open>errors.Is(err, target)\<close> for a sentinel, and \<open>errors.As\<close> for \<open>*TangoError\<close>: both walk the wrapped
  errors depth first.\<close>

fun errorsIs :: "goerr \<Rightarrow> goerr \<Rightarrow> bool" where
  "errorsIs (Wrapped text es) target = (Wrapped text es = target \<or> list_ex (\<lambda>e. errorsIs e target) es)"
| "errorsIs (TangoError e code) target = (TangoError e code = target \<or> errorsIs e target)"
| "errorsIs err target = (err = target)"

fun errorsAs :: "goerr \<Rightarrow> ErrorCode option" where
  "errorsAs (TangoError e code) = Some code"
| "errorsAs (Wrapped text es) = fold (\<lambda>e found. if found = None then errorsAs e else found) es None"
| "errorsAs err = None"

section \<open>Classification\<close>

fun ErrorCode_String :: "ErrorCode \<Rightarrow> string" where
  "ErrorCode_String ErrorInfra = ''infra''"
| "ErrorCode_String ErrorCancelled = ''cancelled''"
| "ErrorCode_String ErrorUser = ''user''"
| "ErrorCode_String ErrorInfraRetryable = ''infra_retryable''"

text \<open>A nil error is \<open>None\<close>.\<close>

definition newError :: "goerr option \<Rightarrow> ErrorCode \<Rightarrow> goerr option" where
  "newError err code = (case err of None \<Rightarrow> None | Some e \<Rightarrow> Some (TangoError e code))"

definition NewInfra :: "goerr option \<Rightarrow> goerr option" where
  "NewInfra err = newError err ErrorInfra"

definition NewUser :: "goerr option \<Rightarrow> goerr option" where
  "NewUser err = newError err ErrorUser"

definition NewInfraRetryable :: "goerr option \<Rightarrow> goerr option" where
  "NewInfraRetryable err = newError err ErrorInfraRetryable"

definition NewCancelled :: "goerr option \<Rightarrow> goerr option" where
  "NewCancelled err = newError err ErrorCancelled"

definition GetErrorCode :: "goerr option \<Rightarrow> ErrorCode" where
  "GetErrorCode err = (case err of None \<Rightarrow> ErrorInfra
     | Some e \<Rightarrow> if errorsIs e ErrCanceled then ErrorCancelled
         else (case errorsAs e of Some code \<Rightarrow> code | None \<Rightarrow> ErrorInfra))"

section \<open>The wire error\<close>

datatype PbErrorCode = PB_ERROR_INFRA | PB_ERROR_CANCELLED | PB_ERROR_USER | PB_ERROR_INFRA_RETRYABLE

record wireError =
  we_Code :: PbErrorCode
  we_Message :: string

fun toProtoErrorCode :: "ErrorCode \<Rightarrow> PbErrorCode" where
  "toProtoErrorCode ErrorCancelled = PB_ERROR_CANCELLED"
| "toProtoErrorCode ErrorUser = PB_ERROR_USER"
| "toProtoErrorCode ErrorInfraRetryable = PB_ERROR_INFRA_RETRYABLE"
| "toProtoErrorCode ErrorInfra = PB_ERROR_INFRA"

text \<open>\<open>message\<close> is \<open>err.Error()\<close>; the YARPC code is always \<open>CodeInternal\<close>.\<close>

definition ToProtoError :: "(goerr \<Rightarrow> string) \<Rightarrow> goerr option \<Rightarrow> wireError option" where
  "ToProtoError message err = (case err of None \<Rightarrow> None
     | Some e \<Rightarrow> Some \<lparr> we_Code = toProtoErrorCode (GetErrorCode err), we_Message = message e \<rparr>)"

section \<open>Wrapping\<close>

text \<open>\<open>return fmt.Errorf(text, err)\<close> when there is an error.\<close>

definition mapErrE :: "('e \<Rightarrow> 'f) \<Rightarrow> 'e + 'a \<Rightarrow> 'f + 'a" where
  "mapErrE f m = (case m of Inl e \<Rightarrow> Inl (f e) | Inr x \<Rightarrow> Inr x)"

lemma mapErrE_simps [simp]: "mapErrE f (Inl e) = Inl (f e)" "mapErrE f (Inr x) = Inr x"
  by (simp_all add: mapErrE_def)

lemma mapErrE_eq_Inl: "mapErrE f m = Inl e \<longleftrightarrow> (\<exists>e'. m = Inl e' \<and> e = f e')"
  by (cases m) auto

lemma mapErrE_eq_Inr: "mapErrE f m = Inr x \<longleftrightarrow> m = Inr x"
  by (cases m) auto

lemma GetErrorCode_wrap [simp]: "GetErrorCode (Some (wrap text e)) = GetErrorCode (Some e)"
  by (simp add: GetErrorCode_def)

lemma GetErrorCode_TangoError [simp]:
  "GetErrorCode (Some (TangoError e code)) = (if errorsIs e ErrCanceled then ErrorCancelled else code)"
  by (simp add: GetErrorCode_def)

lemma errorsIs_refl [simp]: "errorsIs e e"
  by (cases e) auto

end
