(* ===== verification/Handler.thy ===== *)
theory Handler
  imports Entity GoError
begin

text \<open>
  The edge of the service: \<open>internal/mapper\<close> and \<open>mapper/proto\<close> convert requests and responses between
  the wire types and the entities, \<open>handler\<close> resolves the repository, calls the controller, trims what
  it returns to the requested distance and fields, and turns errors into wire errors. A pointer that
  may be nil is an option. The server stream is a parameter \<open>send\<close> on a state of its own; the
  controller and the repository configuration are parameters of the two RPC handlers.
\<close>

section \<open>Wire types\<close>

record PbOptimizedTarget =
  pt_Id :: i32
  pt_Hash :: string
  pt_DirectDependencies :: "i32 list"
  pt_RuleType :: i32
  pt_Tags :: "i32 list"
  pt_Root :: bool
  pt_External :: bool
  pt_Attributes :: "(i32, i32) gomap"

record PbMetadata =
  pm_TargetIdMapping :: "(i32, string) gomap"
  pm_RuleTypeMapping :: "(i32, string) gomap"
  pm_TagMapping :: "(i32, string) gomap"
  pm_AttributeNameMapping :: "(i32, string) gomap"
  pm_AttributeStringValueMapping :: "(i32, string) gomap"

record PbChangedTarget =
  pc_ChangeType :: nat
  pc_OldTarget :: "PbOptimizedTarget option"
  pc_NewTarget :: "PbOptimizedTarget option"
  pc_Distance :: i32

datatype PbTargetGraphItem = PbTargets "PbOptimizedTarget option list option" | PbGraphMetadata "PbMetadata option"
datatype PbChangedTargetsItem = PbChangedTargets "PbChangedTarget option list" | PbChangedMetadata "PbMetadata option"

record PbOutputConfig =
  oc_IncludeTags :: bool
  oc_IncludeAttributes :: bool
  oc_IncludeHashes :: bool
  oc_MaxDistance :: i32

record PbBuildDescription =
  pb_Remote :: string
  pb_BaseSha :: string
  pb_Requests :: "string list"
  pb_Strategy :: int

record PbGetTargetGraphRequest =
  pgr_BuildDescription :: "PbBuildDescription option"
  pgr_OutputConfig :: "PbOutputConfig option"
  pgr_ExtraExcludeFilesRegex :: "string list"
  pgr_BypassCache :: bool

record PbGetChangedTargetsRequest =
  pcr_FirstRevision :: "PbBuildDescription option"
  pcr_SecondRevision :: "PbBuildDescription option"
  pcr_OutputConfig :: "PbOutputConfig option"
  pcr_ExtraExcludeFilesRegex :: "string list"
  pcr_BypassCache :: bool

record GetTargetGraphRequest =
  tgr_Build :: BuildDescription
  tgr_ExcludeFilesRegex :: "string list"
  tgr_BypassCache :: bool

record GetChangedTargetsRequest =
  ctr_First :: BuildDescription
  ctr_Second :: BuildDescription
  ctr_ExcludeFilesRegex :: "string list"
  ctr_BypassCache :: bool

record RepositoryConfig =
  rc_Remote :: string
  rc_RepositoryID :: string
  rc_FullHashRepos :: "string list"
  rc_ExcludedFiles :: "string list"
  rc_BzlmodEnabled :: "bool option"
  rc_BazelCommandPath :: string
  rc_BazelExtraArgs :: "string list"
  rc_BazelStartupOptions :: "string list"
  rc_StreamBazelLogs :: bool
  rc_QueryTimeoutSeconds :: int
  rc_SeedAttributes :: "string list"
  rc_AllTargetsFiles :: "string list"

section \<open>Requests\<close>

definition validateComputationStrategy :: "int \<Rightarrow> goerr + ComputationStrategy" where
  "validateComputationStrategy s =
    (if s = 1 then Inr ComputationStrategyUnset
     else if s = 2 then Inr ComputationStrategyShell
     else if s = 3 then Inr ComputationStrategyNative
     else Inl (TangoError (Msg ''unknown computation strategy: %d'') ErrorUser))"

definition ProtoToBuildDescription :: "PbBuildDescription option \<Rightarrow> goerr + BuildDescription" where
  "ProtoToBuildDescription desc = (case desc of
     None \<Rightarrow> Inl (Msg ''build description is required'')
   | Some d \<Rightarrow>
       if pb_Remote d = '''' then Inl (Msg ''build description remote is required'')
       else if pb_BaseSha d = '''' then Inl (Msg ''build description base_sha is required'')
       else bindE (validateComputationStrategy (pb_Strategy d)) (\<lambda>strategy.
         Inr \<lparr> bd_Remote = pb_Remote d, bd_BaseSha = pb_BaseSha d, bd_ChangeRequests = pb_Requests d, bd_Strategy = strategy \<rparr>))"

definition ProtoToGetTargetGraphRequest :: "PbGetTargetGraphRequest option \<Rightarrow> goerr + GetTargetGraphRequest" where
  "ProtoToGetTargetGraphRequest req = (case req of
     None \<Rightarrow> Inl (Msg ''get target graph request is required'')
   | Some r \<Rightarrow> bindE (ProtoToBuildDescription (pgr_BuildDescription r)) (\<lambda>build.
       Inr \<lparr> tgr_Build = build, tgr_ExcludeFilesRegex = pgr_ExtraExcludeFilesRegex r, tgr_BypassCache = pgr_BypassCache r \<rparr>))"

definition ProtoToGetChangedTargetsRequest :: "PbGetChangedTargetsRequest option \<Rightarrow> goerr + GetChangedTargetsRequest" where
  "ProtoToGetChangedTargetsRequest req = (case req of
     None \<Rightarrow> Inl (Msg ''get changed targets request is required'')
   | Some r \<Rightarrow>
       bindE (mapErrE (wrap ''first revision: '') (ProtoToBuildDescription (pcr_FirstRevision r))) (\<lambda>first.
       bindE (mapErrE (wrap ''second revision: '') (ProtoToBuildDescription (pcr_SecondRevision r))) (\<lambda>second.
       if bd_Remote first \<noteq> bd_Remote second then Inl (Msg ''first and second revision must have the same remote'')
       else Inr \<lparr> ctr_First = first, ctr_Second = second, ctr_ExcludeFilesRegex = pcr_ExtraExcludeFilesRegex r,
         ctr_BypassCache = pcr_BypassCache r \<rparr>)))"

section \<open>Responses\<close>

definition optimizedTargetToProto :: "OptimizedTarget \<Rightarrow> PbOptimizedTarget" where
  "optimizedTargetToProto t = \<lparr> pt_Id = ot_ID t, pt_Hash = ot_Hash t, pt_DirectDependencies = ot_DirectDependencies t,
     pt_RuleType = ot_RuleType t, pt_Tags = ot_Tags t, pt_Root = ot_Root t, pt_External = ot_External t,
     pt_Attributes = ot_Attributes t \<rparr>"

definition optionalTargetToProto :: "OptimizedTarget option \<Rightarrow> PbOptimizedTarget option" where
  "optionalTargetToProto t = (case t of None \<Rightarrow> None | Some t \<Rightarrow> Some (optimizedTargetToProto t))"

definition metadataToProto :: "Metadata \<Rightarrow> PbMetadata" where
  "metadataToProto m = \<lparr> pm_TargetIdMapping = md_TargetIDMapping m, pm_RuleTypeMapping = md_RuleTypeMapping m,
     pm_TagMapping = md_TagMapping m, pm_AttributeNameMapping = md_AttributeNameMapping m,
     pm_AttributeStringValueMapping = md_AttributeStringValueMapping m \<rparr>"

definition GetTargetGraphResponseToProto :: "GetTargetGraphResponse \<Rightarrow> PbTargetGraphItem" where
  "GetTargetGraphResponseToProto chunk = (case gr_Metadata chunk of
     Some m \<Rightarrow> PbGraphMetadata (Some (metadataToProto m))
   | None \<Rightarrow> PbTargets (Some (map (\<lambda>t. Some (optimizedTargetToProto t)) (gr_Targets chunk))))"

definition changedTargetToProto :: "ChangedTarget \<Rightarrow> PbChangedTarget" where
  "changedTargetToProto ct = \<lparr> pc_ChangeType = ChangeType_code (ct_ChangeType ct),
     pc_OldTarget = optionalTargetToProto (ct_OldTarget ct), pc_NewTarget = optionalTargetToProto (ct_NewTarget ct),
     pc_Distance = ct_Distance ct \<rparr>"

definition ChangedTargetsResponseToProto :: "GetChangedTargetsResponse \<Rightarrow> PbChangedTargetsItem" where
  "ChangedTargetsResponseToProto resp = (case cr_Metadata resp of
     Some m \<Rightarrow> PbChangedMetadata (Some (metadataToProto m))
   | None \<Rightarrow> PbChangedTargets (map (\<lambda>ct. Some (changedTargetToProto ct)) (cr_ChangedTargets resp)))"

section \<open>Filters\<close>

text \<open>The getters of a nil configuration return false.\<close>

definition flagSet :: "(PbOutputConfig \<Rightarrow> bool) \<Rightarrow> PbOutputConfig option \<Rightarrow> bool" where
  "flagSet flag cfg = (case cfg of None \<Rightarrow> False | Some c \<Rightarrow> flag c)"

definition optimizedTargetNeedsStripping :: "PbOutputConfig option \<Rightarrow> bool" where
  "optimizedTargetNeedsStripping cfg = (case cfg of None \<Rightarrow> True
     | Some c \<Rightarrow> \<not> oc_IncludeHashes c \<or> \<not> oc_IncludeTags c \<or> \<not> oc_IncludeAttributes c)"

definition applyOptimizedTargetOutputConfig :: "PbOptimizedTarget option \<Rightarrow> PbOutputConfig option \<Rightarrow> PbOptimizedTarget option" where
  "applyOptimizedTargetOutputConfig src cfg = (case src of None \<Rightarrow> None
     | Some t \<Rightarrow> if \<not> optimizedTargetNeedsStripping cfg then src
         else Some (t \<lparr> pt_Hash := (if flagSet oc_IncludeHashes cfg then pt_Hash t else ''''),
           pt_Tags := (if flagSet oc_IncludeTags cfg then pt_Tags t else []),
           pt_Attributes := (if flagSet oc_IncludeAttributes cfg then pt_Attributes t else []) \<rparr>))"

definition applyOptimizedTargetsOutputConfig :: "PbOptimizedTarget option list \<Rightarrow> PbOutputConfig option \<Rightarrow> PbOptimizedTarget option list" where
  "applyOptimizedTargetsOutputConfig src cfg = (if \<not> optimizedTargetNeedsStripping cfg \<or> src = [] then src
     else map (\<lambda>t. applyOptimizedTargetOutputConfig t cfg) src)"

definition applyChangedTargetOutputConfig :: "PbChangedTarget option \<Rightarrow> PbOutputConfig option \<Rightarrow> PbChangedTarget option" where
  "applyChangedTargetOutputConfig src cfg = (case src of None \<Rightarrow> None
     | Some ct \<Rightarrow> if \<not> optimizedTargetNeedsStripping cfg then src
         else Some (ct \<lparr> pc_OldTarget := applyOptimizedTargetOutputConfig (pc_OldTarget ct) cfg,
           pc_NewTarget := applyOptimizedTargetOutputConfig (pc_NewTarget ct) cfg \<rparr>))"

definition applyChangedTargetsOutputConfig :: "PbChangedTarget option list \<Rightarrow> PbOutputConfig option \<Rightarrow> PbChangedTarget option list" where
  "applyChangedTargetsOutputConfig src cfg = (if \<not> optimizedTargetNeedsStripping cfg \<or> src = [] then src
     else map (\<lambda>ct. applyChangedTargetOutputConfig ct cfg) src)"

definition metadataNeedsPruning :: "PbOutputConfig option \<Rightarrow> bool" where
  "metadataNeedsPruning cfg = (case cfg of None \<Rightarrow> True | Some c \<Rightarrow> \<not> oc_IncludeTags c \<or> \<not> oc_IncludeAttributes c)"

definition applyMetadataOutputConfig :: "PbMetadata option \<Rightarrow> PbOutputConfig option \<Rightarrow> PbMetadata option" where
  "applyMetadataOutputConfig meta cfg = (case meta of None \<Rightarrow> None
     | Some m \<Rightarrow> if \<not> metadataNeedsPruning cfg then meta
         else Some (m \<lparr> pm_TagMapping := (if flagSet oc_IncludeTags cfg then pm_TagMapping m else []),
           pm_AttributeNameMapping := (if flagSet oc_IncludeAttributes cfg then pm_AttributeNameMapping m else []),
           pm_AttributeStringValueMapping :=
             (if flagSet oc_IncludeAttributes cfg then pm_AttributeStringValueMapping m else []) \<rparr>))"

definition applyOptimizedTargetsOutputConfigToChunk :: "PbTargetGraphItem \<Rightarrow> PbOutputConfig option \<Rightarrow> PbTargetGraphItem" where
  "applyOptimizedTargetsOutputConfigToChunk chunk cfg = (case chunk of
     PbTargets targets \<Rightarrow> (case targets of None \<Rightarrow> chunk
       | Some ts \<Rightarrow> if \<not> optimizedTargetNeedsStripping cfg then chunk
           else PbTargets (Some (applyOptimizedTargetsOutputConfig ts cfg)))
   | PbGraphMetadata meta \<Rightarrow> PbGraphMetadata (applyMetadataOutputConfig meta cfg))"

text \<open>\<open>GetDistance\<close> of a nil target is 0.\<close>

definition GetDistance :: "PbChangedTarget option \<Rightarrow> i32" where
  "GetDistance ct = (case ct of None \<Rightarrow> 0 | Some c \<Rightarrow> pc_Distance c)"

definition filterChangedTargetsByDistance :: "PbChangedTarget option list \<Rightarrow> i32 \<Rightarrow> PbChangedTarget option list" where
  "filterChangedTargetsByDistance targets maxDist = (if sint maxDist < 0 then targets
     else filter (\<lambda>t. 0 \<le> sint (GetDistance t) \<and> sint (GetDistance t) \<le> sint maxDist) targets)"

section \<open>Handlers\<close>

definition trimResponse :: "i32 \<Rightarrow> PbOutputConfig option \<Rightarrow> PbChangedTargetsItem \<Rightarrow> PbChangedTargetsItem" where
  "trimResponse maxDist cfg item = (case item of
     PbChangedTargets targets \<Rightarrow>
       if 0 \<le> sint maxDist \<or> optimizedTargetNeedsStripping cfg then
         let kept = (if 0 \<le> sint maxDist then filterChangedTargetsByDistance targets maxDist else targets)
         in PbChangedTargets (applyChangedTargetsOutputConfig kept cfg)
       else item
   | PbChangedMetadata meta \<Rightarrow>
       if metadataNeedsPruning cfg then PbChangedMetadata (applyMetadataOutputConfig meta cfg) else item)"

fun sendTrimmedChangedTargets :: "(PbChangedTargetsItem \<Rightarrow> 'st \<Rightarrow> goerr option \<times> 'st) \<Rightarrow> GetChangedTargetsResponse list \<Rightarrow>
    i32 \<Rightarrow> PbOutputConfig option \<Rightarrow> 'st \<Rightarrow> goerr option \<times> 'st" where
  "sendTrimmedChangedTargets send [] maxDist cfg st = (None, st)"
| "sendTrimmedChangedTargets send (resp # responses) maxDist cfg st =
    (case send (trimResponse maxDist cfg (ChangedTargetsResponseToProto resp)) st of
       (Some e, st) \<Rightarrow> (Some e, st)
     | (None, st) \<Rightarrow> sendTrimmedChangedTargets send responses maxDist cfg st)"

definition resolveRequestRepository :: "(string \<Rightarrow> RepositoryConfig option) \<Rightarrow> goerr + string \<Rightarrow> goerr + RepositoryConfig" where
  "resolveRequestRepository repoConfig request = bindE request (\<lambda>remote.
     case repoConfig remote of
       None \<Rightarrow> Inl (TangoError (Msg ''repository remote %q is not configured'') ErrorUser)
     | Some repo \<Rightarrow> Inr repo)"

definition maxDistanceOf :: "PbOutputConfig option \<Rightarrow> i32" where
  "maxDistanceOf cfg = (case cfg of None \<Rightarrow> - 1 | Some c \<Rightarrow> oc_MaxDistance c)"

text \<open>The handler without the deferred conversion of its error.\<close>

definition changedTargetsRPC :: "(string \<Rightarrow> RepositoryConfig option) \<Rightarrow>
    (GetChangedTargetsRequest \<Rightarrow> RepositoryConfig \<Rightarrow> goerr + GetChangedTargetsResponse list) \<Rightarrow>
    (PbChangedTargetsItem \<Rightarrow> 'st \<Rightarrow> goerr option \<times> 'st) \<Rightarrow> PbGetChangedTargetsRequest option \<Rightarrow> 'st \<Rightarrow> goerr option \<times> 'st" where
  "changedTargetsRPC repoConfig controller send request st =
    (let entityReq = mapErrE (\<lambda>e. TangoError (wrap ''convert get changed targets request: '' e) ErrorUser)
           (ProtoToGetChangedTargetsRequest request);
         repo = resolveRequestRepository repoConfig (bindE entityReq (\<lambda>r. Inr (bd_Remote (ctr_First r))));
         cfg = (case request of None \<Rightarrow> None | Some r \<Rightarrow> pcr_OutputConfig r) in
     case bindE repo (\<lambda>repoCfg. bindE entityReq (\<lambda>r. mapErrE (wrap ''get changed targets: '') (controller r repoCfg))) of
       Inl e \<Rightarrow> (Some e, st)
     | Inr responses \<Rightarrow> (case sendTrimmedChangedTargets send responses (maxDistanceOf cfg) cfg st of
           (Some e, st) \<Rightarrow> (Some (wrap ''send response: '' e), st)
         | (None, st) \<Rightarrow> (None, st)))"

definition handleGetChangedTargets :: "(goerr \<Rightarrow> string) \<Rightarrow> (string \<Rightarrow> RepositoryConfig option) \<Rightarrow>
    (GetChangedTargetsRequest \<Rightarrow> RepositoryConfig \<Rightarrow> goerr + GetChangedTargetsResponse list) \<Rightarrow>
    (PbChangedTargetsItem \<Rightarrow> 'st \<Rightarrow> goerr option \<times> 'st) \<Rightarrow> PbGetChangedTargetsRequest option \<Rightarrow> 'st \<Rightarrow> wireError option \<times> 'st" where
  "handleGetChangedTargets message repoConfig controller send request st =
    (case changedTargetsRPC repoConfig controller send request st of (err, st) \<Rightarrow> (ToProtoError message err, st))"

text \<open>
  A graph reader is what its successive reads return: chunks, then the end of the stream or an error.
\<close>

type_synonym graphStream = "GetTargetGraphResponse list \<times> goerr option"

fun sendGraph :: "(PbTargetGraphItem \<Rightarrow> 'st \<Rightarrow> goerr option \<times> 'st) \<Rightarrow> graphStream \<Rightarrow> PbOutputConfig option \<Rightarrow> 'st \<Rightarrow>
    goerr option \<times> 'st" where
  "sendGraph send ([], None) cfg st = (None, st)"
| "sendGraph send ([], Some e) cfg st = (Some (wrap ''graph reader read: '' e), st)"
| "sendGraph send (chunk # chunks, end) cfg st =
    (case send (applyOptimizedTargetsOutputConfigToChunk (GetTargetGraphResponseToProto chunk) cfg) st of
       (Some e, st) \<Rightarrow> (Some (wrap ''send graph: '' e), st)
     | (None, st) \<Rightarrow> sendGraph send (chunks, end) cfg st)"

definition targetGraphRPC :: "(string \<Rightarrow> RepositoryConfig option) \<Rightarrow>
    (GetTargetGraphRequest \<Rightarrow> RepositoryConfig \<Rightarrow> goerr + graphStream option) \<Rightarrow>
    (PbTargetGraphItem \<Rightarrow> 'st \<Rightarrow> goerr option \<times> 'st) \<Rightarrow> PbGetTargetGraphRequest option \<Rightarrow> 'st \<Rightarrow> goerr option \<times> 'st" where
  "targetGraphRPC repoConfig controller send request st =
    (let entityReq = mapErrE (\<lambda>e. TangoError (wrap ''convert get target graph request: '' e) ErrorUser)
           (ProtoToGetTargetGraphRequest request);
         repo = resolveRequestRepository repoConfig (bindE entityReq (\<lambda>r. Inr (bd_Remote (tgr_Build r))));
         cfg = (case request of None \<Rightarrow> None | Some r \<Rightarrow> pgr_OutputConfig r) in
     case bindE repo (\<lambda>repoCfg. bindE entityReq (\<lambda>r. mapErrE (wrap ''get graph: '') (controller r repoCfg))) of
       Inl e \<Rightarrow> (Some e, st)
     | Inr None \<Rightarrow> (None, st)
     | Inr (Some graphReader) \<Rightarrow> sendGraph send graphReader cfg st)"

definition handleGetTargetGraph :: "(goerr \<Rightarrow> string) \<Rightarrow> (string \<Rightarrow> RepositoryConfig option) \<Rightarrow>
    (GetTargetGraphRequest \<Rightarrow> RepositoryConfig \<Rightarrow> goerr + graphStream option) \<Rightarrow>
    (PbTargetGraphItem \<Rightarrow> 'st \<Rightarrow> goerr option \<times> 'st) \<Rightarrow> PbGetTargetGraphRequest option \<Rightarrow> 'st \<Rightarrow> wireError option \<times> 'st" where
  "handleGetTargetGraph message repoConfig controller send request st =
    (case targetGraphRPC repoConfig controller send request st of (err, st) \<Rightarrow> (ToProtoError message err, st))"

definition handleGetChangedTargetGraph :: "goerr option" where
  "handleGetChangedTargetGraph = NewInfra (Some (Msg ''GetChangedTargetGraph is not yet implemented''))"

end
