(* ===== verification/IdMapper.thy ===== *)
theory IdMapper
  imports Prelude "HOL-Library.Multiset"
begin

text \<open>
  \<open>internal/mapper/idmapper\<close>: names are numbered from 1 in the order in which they are first seen.
  The abstraction of a mapper is the list of the names it has seen; \<open>ID\<close> refines recording a name
  in that list, and the ID of a name is its position.
\<close>

section \<open>Operations\<close>

record Mapper =
  nameToID :: "(string, i32) gomap"
  nextID :: i32

definition NewMapper :: Mapper where
  "NewMapper = \<lparr> nameToID = [], nextID = 1 \<rparr>"

definition ID :: "string \<Rightarrow> Mapper \<Rightarrow> i32 \<times> Mapper" where
  "ID name a = (case map_of (nameToID a) name of
     Some i \<Rightarrow> (i, a)
   | None \<Rightarrow> let i = nextID a in
       (i, a \<lparr> nextID := nextID a + 1, nameToID := AList.update name i (nameToID a) \<rparr>))"

text \<open>The range over the map visits its entries in the order \<open>visit\<close> chooses.\<close>

definition Invert :: "((string, i32) gomap \<Rightarrow> (string, i32) gomap) \<Rightarrow> Mapper \<Rightarrow> (i32, string) gomap" where
  "Invert visit a = foldl (\<lambda>out (name, i). AList.update i name out) [] (visit (nameToID a))"

text \<open>The loops that collect the IDs of a slice of names.\<close>

fun IDs :: "string list \<Rightarrow> Mapper \<Rightarrow> i32 list \<times> Mapper" where
  "IDs [] a = ([], a)"
| "IDs (name # names) a = (case ID name a of (i, a) \<Rightarrow> case IDs names a of (is, a) \<Rightarrow> (i # is, a))"

section \<open>Abstraction\<close>

definition seen :: "string list \<Rightarrow> string \<Rightarrow> string list" where
  "seen ns name = (if name \<in> set ns then ns else ns @ [name])"

definition positionOf :: "'a list \<Rightarrow> 'a \<Rightarrow> nat" where
  "positionOf ns name = length (takeWhile (\<lambda>x. x \<noteq> name) ns)"

definition idIn :: "string list \<Rightarrow> string \<Rightarrow> i32" where
  "idIn ns name = of_nat (Suc (positionOf ns name))"

definition mapperOf :: "string list \<Rightarrow> Mapper" where
  "mapperOf ns = \<lparr> nameToID = map (\<lambda>name. (name, idIn ns name)) ns, nextID = of_nat (Suc (length ns)) \<rparr>"

lemma positionOf_append: "name \<in> set ns \<Longrightarrow> positionOf (ns @ ms) name = positionOf ns name"
  by (auto simp: positionOf_def)

lemma positionOf_less: "name \<in> set ns \<Longrightarrow> positionOf ns name < length ns"
  by (induction ns) (auto simp: positionOf_def)

lemma nth_positionOf: "name \<in> set ns \<Longrightarrow> ns ! positionOf ns name = name"
  by (induction ns) (auto simp: positionOf_def)

lemma positionOf_snoc: "name \<notin> set ns \<Longrightarrow> positionOf (ns @ [name]) name = length ns"
proof -
  assume "name \<notin> set ns"
  then have "takeWhile (\<lambda>x. x \<noteq> name) ns = ns"
    by (simp only: takeWhile_eq_all_conv) blast
  then show ?thesis
    by (simp add: positionOf_def takeWhile_tail)
qed

lemma positionOf_inject: "x \<in> set ns \<Longrightarrow> y \<in> set ns \<Longrightarrow> positionOf ns x = positionOf ns y \<longleftrightarrow> x = y"
  by (metis nth_positionOf)

lemma idIn_append: "name \<in> set ns \<Longrightarrow> idIn (ns @ ms) name = idIn ns name"
  by (simp add: idIn_def positionOf_append)

lemma distinct_seen [simp]: "distinct (seen ns name) \<longleftrightarrow> distinct ns"
  by (simp add: seen_def)

lemma set_seen [simp]: "set (seen ns name) = insert name (set ns)"
  by (auto simp: seen_def)

lemma foldl_seen: "distinct (foldl seen ns names) = distinct ns" "set (foldl seen ns names) = set ns \<union> set names"
  by (induction names arbitrary: ns) auto

lemma seen_extends: "\<exists>ms. foldl seen ns names = ns @ ms"
proof (induction names arbitrary: ns)
  case (Cons name names)
  obtain ms where "foldl seen (seen ns name) names = seen ns name @ ms"
    using Cons.IH by blast
  then show ?case
    by (cases "name \<in> set ns") (auto simp: seen_def [of ns name])
qed simp

lemma idIn_foldl_seen: "name \<in> set ns \<Longrightarrow> idIn (foldl seen ns names) name = idIn ns name"
  using seen_extends [of ns names] by (auto simp: idIn_append)

lemma idIn_inject:
  assumes "x \<in> set ns" "y \<in> set ns" "length ns < 2 ^ 32"
  shows "idIn ns x = idIn ns y \<longleftrightarrow> x = y"
proof -
  have "(of_nat (positionOf ns x) :: i32) = of_nat (positionOf ns y) \<longleftrightarrow> positionOf ns x = positionOf ns y"
    using positionOf_less [OF assms(1)] positionOf_less [OF assms(2)] assms(3)
    by (auto simp: word_unat_eq_iff unat_of_nat)
  then show ?thesis
    using positionOf_inject [OF assms(1,2)] by (simp add: idIn_def)
qed

lemma sint_idIn:
  assumes "x \<in> set ns" "length ns < 2 ^ 31"
  shows "sint (idIn ns x) = int (Suc (positionOf ns x))"
proof -
  have "Suc (positionOf ns x) < 2 ^ 31"
    using positionOf_less [OF assms(1)] assms(2) by linarith
  then show ?thesis
    unfolding idIn_def by (simp only: signed_of_nat) (simp add: signed_take_bit_int_eq_self)
qed

section \<open>Refinement\<close>

lemma NewMapper_abs: "NewMapper = mapperOf []"
  by (simp add: NewMapper_def mapperOf_def)

lemma map_of_mapperOf: "map_of (nameToID (mapperOf ns)) name = (if name \<in> set ns then Some (idIn ns name) else None)"
  by (simp add: mapperOf_def map_of_map_restrict restrict_map_def)

lemma update_fresh: "k \<notin> fst ` set m \<Longrightarrow> AList.update k v m = m @ [(k, v)]"
  by (induction m) auto

lemma ID_abs: "ID name (mapperOf ns) = (idIn (seen ns name) name, mapperOf (seen ns name))"
proof (cases "name \<in> set ns")
  case True
  then show ?thesis
    by (simp add: ID_def map_of_mapperOf seen_def)
next
  case False
  then have "AList.update name (of_nat (Suc (length ns))) (nameToID (mapperOf ns)) = nameToID (mapperOf (ns @ [name]))"
    by (subst update_fresh) (auto simp: mapperOf_def idIn_append, simp add: idIn_def positionOf_snoc)
  with False show ?thesis
    by (simp add: ID_def map_of_mapperOf seen_def Let_def) (simp add: mapperOf_def idIn_def positionOf_snoc)
qed

lemma IDs_abs: "IDs names (mapperOf ns) = (map (idIn (foldl seen ns names)) names, mapperOf (foldl seen ns names))"
proof (induction names arbitrary: ns)
  case (Cons name names)
  then show ?case
    by (simp add: ID_abs idIn_foldl_seen)
qed simp

lemma foldl_update_fresh:
  "distinct (map fst m @ map snd kvs) \<Longrightarrow>
    foldl (\<lambda>out (name, i). AList.update i name out) m kvs = m @ map prod.swap kvs"
proof (induction kvs arbitrary: m)
  case (Cons kv kvs)
  obtain name i where [simp]: "kv = (name, i)"
    by (cases kv)
  have "AList.update i name m = m @ [(i, name)]"
    using Cons.prems by (intro update_fresh) force
  then show ?case
    using Cons.IH [of "m @ [(i, name)]"] Cons.prems by auto
qed simp

text \<open>Inverting a mapper lists the names under their IDs, in the order the range visits them.\<close>

lemma Invert_abs:
  assumes "distinct ns" "length ns < 2 ^ 32" "mset (visit (nameToID (mapperOf ns))) = mset (nameToID (mapperOf ns))"
  shows "Invert visit (mapperOf ns) = map prod.swap (visit (nameToID (mapperOf ns)))"
    and "distinct (map fst (Invert visit (mapperOf ns)))"
    and "name \<in> set ns \<Longrightarrow> map_of (Invert visit (mapperOf ns)) (idIn ns name) = Some name"
    and "length (Invert visit (mapperOf ns)) = length ns"
proof -
  have "inj_on (idIn ns) (set ns)"
    using assms(2) by (auto simp: inj_on_def idIn_inject)
  then have "distinct (map snd (nameToID (mapperOf ns)))"
    using assms(1) by (simp add: mapperOf_def comp_def distinct_map)
  then have d: "distinct (map snd (visit (nameToID (mapperOf ns))))"
    using assms(3) by (metis mset_eq_imp_distinct_iff mset_map)
  then show eq: "Invert visit (mapperOf ns) = map prod.swap (visit (nameToID (mapperOf ns)))"
    unfolding Invert_def by (subst foldl_update_fresh) simp_all
  then show "distinct (map fst (Invert visit (mapperOf ns)))"
    using d by (simp add: comp_def)
  moreover have "(name, idIn ns name) \<in> set (visit (nameToID (mapperOf ns)))" if "name \<in> set ns"
    using that mset_eq_setD [OF assms(3)] by (simp add: mapperOf_def)
  then have "(idIn ns name, name) \<in> set (Invert visit (mapperOf ns))" if "name \<in> set ns"
    using that by (force simp: eq)
  ultimately show "map_of (Invert visit (mapperOf ns)) (idIn ns name) = Some name" if "name \<in> set ns"
    using that by simp
  show "length (Invert visit (mapperOf ns)) = length ns"
    by (simp only: eq length_map mset_eq_length [OF assms(3)]) (simp add: mapperOf_def)
qed

lemma idIn_not_0:
  assumes "name \<in> set ns" "length ns < 2 ^ 32 - 1"
  shows "idIn ns name \<noteq> 0"
proof -
  have "Suc (positionOf ns name) < 2 ^ 32"
    using positionOf_less [OF assms(1)] assms(2) by linarith
  then have "unat (idIn ns name) = Suc (positionOf ns name)"
    unfolding idIn_def unat_of_nat by simp
  then show ?thesis
    by auto
qed

lemma Invert_0:
  assumes "distinct ns" "length ns < 2 ^ 32 - 1" "mset (visit (nameToID (mapperOf ns))) = mset (nameToID (mapperOf ns))"
  shows "map_of (Invert visit (mapperOf ns)) 0 = None"
proof -
  have "length ns < 2 ^ 32"
    using assms(2) by simp
  then have "fst ` set (Invert visit (mapperOf ns)) = idIn ns ` set ns"
    using mset_eq_setD [OF assms(3)] Invert_abs(1) [of ns visit] assms(1,3) by (force simp: mapperOf_def image_def)
  then show ?thesis
    using idIn_not_0 [OF _ assms(2)] by (force simp: map_of_eq_None_iff)
qed

text \<open>C14: IDs are stable, unique and positive. However often names are looked up in a new mapper, as
  long as fewer than 2^31 of them are different, equal names get equal IDs and different names
  different ones, every ID lies between 1 and the number of names, so that none is the unset value 0,
  and inverting the mapper, in any order of its map, gives every ID its name and nothing more.\<close>

theorem Mapper_invariant:
  assumes "IDs names NewMapper = (is, a)" "card (set names) < 2 ^ 31" "mset (visit (nameToID a)) = mset (nameToID a)"
  shows "length is = length names \<and>
    (\<forall>i j. i < length names \<and> j < length names \<longrightarrow> (is ! i = is ! j \<longleftrightarrow> names ! i = names ! j)) \<and>
    (\<forall>i < length names. 1 \<le> sint (is ! i) \<and> sint (is ! i) \<le> int (card (set names)) \<and>
       map_of (Invert visit a) (is ! i) = Some (names ! i)) \<and>
    length (Invert visit a) = card (set names)"
proof -
  let ?ns = "foldl seen [] names"
  have ids: "is = map (idIn ?ns) names" and a: "a = mapperOf ?ns"
    using assms(1) IDs_abs [of names "[]"] by (simp_all add: NewMapper_abs)
  have d: "distinct ?ns" and s: "set ?ns = set names"
    using foldl_seen [of "[]" names] by simp_all
  then have l: "length ?ns = card (set names)"
    by (metis distinct_card)
  have l32: "length ?ns < 2 ^ 32" and l31: "length ?ns < 2 ^ 31"
    using assms(2) l by simp_all
  note inv = Invert_abs [OF d l32, of visit, folded a, OF assms(3)]
  have one: "1 \<le> sint (is ! i) \<and> sint (is ! i) \<le> int (card (set names)) \<and> map_of (Invert visit a) (is ! i) = Some (names ! i)"
    if "i < length names" for i
    using that inv(3) [of "names ! i"] sint_idIn [OF _ l31, of "names ! i"] positionOf_less [of "names ! i" ?ns] l s
    by (simp add: ids)
  moreover have "is ! i = is ! j \<longleftrightarrow> names ! i = names ! j" if "i < length names \<and> j < length names" for i j
    using that idIn_inject [OF _ _ l32, of "names ! i" "names ! j"] s by (simp add: ids)
  ultimately show ?thesis
    using inv(4) l ids by simp
qed

theorem Mapper_invariant_witness:
  "snd (IDs [''b'', ''a'', ''b''] NewMapper) = snd (IDs [''b'', ''a''] NewMapper) \<and>
   (\<exists>is a. IDs [''b'', ''a'', ''b''] NewMapper = (is, a) \<and> length is = 3 \<and> is ! 0 = is ! 2 \<and> is ! 0 \<noteq> is ! 1 \<and>
     map_of (Invert rev a) (is ! 1) = Some ''a'')"
proof -
  obtain "is" a where e: "IDs [''b'', ''a'', ''b''] NewMapper = (is, a)"
    by (cases "IDs [''b'', ''a'', ''b''] NewMapper")
  have "snd (IDs [''b'', ''a'', ''b''] NewMapper) = snd (IDs [''b'', ''a''] NewMapper)"
    by code_simp
  moreover have "card (set [''b'', ''a'', ''b'']) < 2 ^ 31"
    by (simp add: card_insert_if)
  note Mapper_invariant [OF e this, of rev]
  ultimately show ?thesis
    using e by (auto simp: nth_Cons')
qed

end
