(* ===== verification/Responses.thy ===== *)
theory Responses
  imports Streaming TgbAdapt IdMapper
begin

text \<open>
  The decoding and the encoding ends of the comparison in \<open>controller/getchangedtargets.go\<close>: the
  chunks of a graph stream become a graph keyed by target name (\<open>getTargetsAndMetadata\<close>,
  \<open>toDiffGraph\<close>), and a comparison result becomes response chunks in which every name is an ID of
  the mappers of this one call (\<open>transpose\<close>, \<open>resultToResponses\<close>).
\<close>

section \<open>Decoding a stream\<close>

definition putTarget :: "(i32, OptimizedTarget) gomap \<Rightarrow> OptimizedTarget \<Rightarrow> (i32, OptimizedTarget) gomap" where
  "putTarget targets t = AList.update (ot_ID t) t targets"

text \<open>One poll of the context per chunk; \<open>k\<close> counts the polls before the loop.\<close>

fun getTargetsAndMetadata :: "'e go_context \<Rightarrow> nat \<Rightarrow> GetTargetGraphResponse list \<Rightarrow>
    (i32, OptimizedTarget) gomap \<times> Metadata \<Rightarrow> 'e + (i32, OptimizedTarget) gomap \<times> Metadata" where
  "getTargetsAndMetadata ctx k [] st = Inr st"
| "getTargetsAndMetadata ctx k (chunk # graph) (targets, merged) =
    bindE (checkCtx ctx k) (\<lambda>_.
    getTargetsAndMetadata ctx (k + 1) graph
      (foldl putTarget targets (gr_Targets chunk),
       case gr_Metadata chunk of None \<Rightarrow> merged | Some m \<Rightarrow> mergeMetadata merged m))"

definition allTargetsFileChanged :: "Metadata \<Rightarrow> Metadata \<Rightarrow> bool" where
  "allTargetsFileChanged first second \<longleftrightarrow> \<not> mapsEqual (md_AllTargetsFileHashes first) (md_AllTargetsFileHashes second)"

text \<open>\<open>m[k]\<close> of a map with string values: the zero value is the empty string.\<close>

definition getOr :: "('k, string) gomap \<Rightarrow> 'k \<Rightarrow> string" where
  "getOr m k = (case map_of m k of Some v \<Rightarrow> v | None \<Rightarrow> '''')"

definition resolveAttributes :: "Metadata \<Rightarrow> string set option \<Rightarrow> (i32, i32) gomap \<Rightarrow> (string, string) gomap" where
  "resolveAttributes meta seedAttrs attrs = foldl (\<lambda>out (nameID, valID).
     let attrName = getOr (md_AttributeNameMapping meta) nameID in
     if attrName = '''' then out
     else if (case seedAttrs of None \<Rightarrow> False | Some allowed \<Rightarrow> attrName \<notin> allowed) then out
     else AList.update attrName (getOr (md_AttributeStringValueMapping meta) valID) out) [] attrs"

definition namedTarget :: "Metadata \<Rightarrow> string set option \<Rightarrow> string \<Rightarrow> OptimizedTarget \<Rightarrow> Target" where
  "namedTarget meta seedAttrs name t = \<lparr>
     dt_Name = name,
     dt_Hash = ot_Hash t,
     dt_RuleType = getOr (md_RuleTypeMapping meta) (ot_RuleType t),
     dt_Dependencies = filter (\<lambda>n. n \<noteq> '''') (map (getOr (md_TargetIDMapping meta)) (ot_DirectDependencies t)),
     dt_Tags = filter (\<lambda>n. n \<noteq> '''') (map (getOr (md_TagMapping meta)) (ot_Tags t)),
     dt_Attributes = resolveAttributes meta seedAttrs (ot_Attributes t),
     dt_Root = ot_Root t,
     dt_External = ot_External t \<rparr>"

definition diffGraphEntry :: "Metadata \<Rightarrow> string set option \<Rightarrow> DiffGraph \<Rightarrow> i32 \<times> OptimizedTarget \<Rightarrow> DiffGraph" where
  "diffGraphEntry meta seedAttrs graph entry = (case entry of (i, t) \<Rightarrow>
     let name = getOr (md_TargetIDMapping meta) i in
     if name = '''' then graph else AList.update name (namedTarget meta seedAttrs name t) graph)"

definition toDiffGraph :: "'e go_context \<Rightarrow> nat \<Rightarrow> (i32, OptimizedTarget) gomap \<Rightarrow> Metadata \<Rightarrow> string set option \<Rightarrow> 'e + DiffGraph" where
  "toDiffGraph ctx k targetsByID meta seedAttrs =
    bindE (pollLoop ctx k (length targetsByID)) (\<lambda>_.
    Inr (foldl (diffGraphEntry meta seedAttrs) [] targetsByID))"

definition seedAttributesFor :: "string list \<Rightarrow> string set option" where
  "seedAttributesFor SeedAttributes = (if SeedAttributes = [] then None else Some (set SeedAttributes))"

section \<open>Everything changed\<close>

definition allChangedBefore :: "DiffGraph \<Rightarrow> string \<times> Target \<Rightarrow> DiffTarget" where
  "allChangedBefore after entry = (case entry of (name, beforeTarget) \<Rightarrow>
     (case map_of after name of
        None \<Rightarrow> \<lparr> cd_ChangeType = DiffTypeDeleted, cd_Before = Some beforeTarget, cd_After = None, cd_Distance = 0 \<rparr>
      | Some afterTarget \<Rightarrow> \<lparr> cd_ChangeType = DiffTypeChanged, cd_Before = Some beforeTarget,
          cd_After = Some afterTarget, cd_Distance = 0 \<rparr>))"

definition allChangedAfter :: "DiffGraph \<Rightarrow> string \<times> Target \<Rightarrow> DiffTarget option" where
  "allChangedAfter before entry = (case entry of (name, afterTarget) \<Rightarrow>
     if map_of before name \<noteq> None then None
     else Some \<lparr> cd_ChangeType = DiffTypeNew, cd_Before = None, cd_After = Some afterTarget, cd_Distance = 0 \<rparr>)"

definition allTargetsChanged :: "'e go_context \<Rightarrow> nat \<Rightarrow> DiffGraph \<Rightarrow> DiffGraph \<Rightarrow> 'e + DiffTarget list" where
  "allTargetsChanged ctx k before after =
    bindE (pollLoop ctx k (length before)) (\<lambda>_.
    bindE (pollLoop ctx (k + loopPolls (length before)) (length after)) (\<lambda>_.
    Inr (map (allChangedBefore after) before @ List.map_filter (allChangedAfter before) after)))"

section \<open>Encoding a result\<close>

record canonicalMappers =
  cm_target :: Mapper
  cm_ruleType :: Mapper
  cm_tag :: Mapper
  cm_attrName :: Mapper
  cm_attrVal :: Mapper

definition newCanonicalMappers :: canonicalMappers where
  "newCanonicalMappers = \<lparr> cm_target = NewMapper, cm_ruleType = NewMapper, cm_tag = NewMapper,
     cm_attrName = NewMapper, cm_attrVal = NewMapper \<rparr>"

text \<open>The attribute loop: the two mappers and the map that is filled.\<close>

definition transposeAttribute :: "Mapper \<times> Mapper \<times> (i32, i32) gomap \<Rightarrow> string \<times> string \<Rightarrow> Mapper \<times> Mapper \<times> (i32, i32) gomap" where
  "transposeAttribute st attr = (case st of (names, vals, out) \<Rightarrow> case attr of (name, val) \<Rightarrow>
     case ID name names of (nameID, names) \<Rightarrow> case ID val vals of (valID, vals) \<Rightarrow>
       (names, vals, AList.update nameID valID out))"

definition transposeTarget :: "Target \<Rightarrow> canonicalMappers \<Rightarrow> OptimizedTarget \<times> canonicalMappers" where
  "transposeTarget src m =
    (case ID (dt_Name src) (cm_target m) of (i, target) \<Rightarrow>
     case IDs (dt_Dependencies src) target of (deps, target) \<Rightarrow>
     case (if dt_RuleType src \<noteq> '''' then ID (dt_RuleType src) (cm_ruleType m) else (0, cm_ruleType m)) of (rt, ruleType) \<Rightarrow>
     case IDs (dt_Tags src) (cm_tag m) of (tags, tag) \<Rightarrow>
     case foldl transposeAttribute (cm_attrName m, cm_attrVal m, []) (dt_Attributes src) of (attrName, attrVal, attrs) \<Rightarrow>
       (\<lparr> ot_ID = i, ot_Hash = dt_Hash src, ot_DirectDependencies = deps, ot_RuleType = rt, ot_Tags = tags,
          ot_Root = dt_Root src, ot_External = dt_External src, ot_Attributes = attrs \<rparr>,
        \<lparr> cm_target = target, cm_ruleType = ruleType, cm_tag = tag, cm_attrName = attrName, cm_attrVal = attrVal \<rparr>))"

definition transpose :: "Target option \<Rightarrow> canonicalMappers \<Rightarrow> OptimizedTarget option \<times> canonicalMappers" where
  "transpose src m = (case src of None \<Rightarrow> (None, m)
     | Some t \<Rightarrow> case transposeTarget t m of (dst, m) \<Rightarrow> (Some dst, m))"

fun toChangeType :: "DiffChangeType \<Rightarrow> ChangeType" where
  "toChangeType DiffTypeNew = ChangeTypeNew"
| "toChangeType DiffTypeDeleted = ChangeTypeDeleted"
| "toChangeType DiffTypeChanged = ChangeTypeChanged"
| "toChangeType DiffTypeInvalid = ChangeTypeInvalid"

fun toChanged :: "DiffTarget list \<Rightarrow> canonicalMappers \<Rightarrow> ChangedTarget list \<times> canonicalMappers" where
  "toChanged [] m = ([], m)"
| "toChanged (ct # cts) m =
    (case transpose (cd_Before ct) m of (old, m) \<Rightarrow>
     case transpose (cd_After ct) m of (new, m) \<Rightarrow>
     case toChanged cts m of (changed, m) \<Rightarrow>
       (\<lparr> ct_ChangeType = toChangeType (cd_ChangeType ct), ct_OldTarget = old, ct_NewTarget = new,
          ct_Distance = of_int (cd_Distance ct) \<rparr> # changed, m))"

definition resultToResponses :: "((string, i32) gomap \<Rightarrow> (string, i32) gomap) \<Rightarrow> nat \<Rightarrow> DiffTarget list \<Rightarrow>
    string + GetChangedTargetsResponse list" where
  "resultToResponses visit maxMessageBytes result =
    (case toChanged result newCanonicalMappers of (changed, mappers) \<Rightarrow>
     bindE (SplitBySize ChangedTarget_Size changed maxMessageBytes) (\<lambda>changedGroups.
     bindE (SplitMetadata (Invert visit (cm_target mappers)) (Invert visit (cm_ruleType mappers))
       (Invert visit (cm_tag mappers)) (Invert visit (cm_attrName mappers)) (Invert visit (cm_attrVal mappers))
       maxMessageBytes) (\<lambda>metaGroups.
     Inr (map (\<lambda>g. \<lparr> cr_ChangedTargets = g, cr_Metadata = None \<rparr>) changedGroups @
          map (\<lambda>m. \<lparr> cr_ChangedTargets = [], cr_Metadata = Some m \<rparr>) metaGroups))))"

end
