(* ===== verification/ResponseRoundTrip.thy ===== *)
theory ResponseRoundTrip
  imports Responses
begin

text \<open>
  The responses carry the whole comparison: a client that merges the metadata chunks and resolves
  the IDs reads back the changed targets. The names that the mappers have seen are the abstract
  state; encoding a target against them does not change when further names follow.
\<close>

section \<open>The names seen\<close>

record nameLists =
  nl_target :: "string list"
  nl_ruleType :: "string list"
  nl_tag :: "string list"
  nl_attrName :: "string list"
  nl_attrVal :: "string list"

definition mappersOf :: "nameLists \<Rightarrow> canonicalMappers" where
  "mappersOf nl = \<lparr> cm_target = mapperOf (nl_target nl), cm_ruleType = mapperOf (nl_ruleType nl), cm_tag = mapperOf (nl_tag nl),
     cm_attrName = mapperOf (nl_attrName nl), cm_attrVal = mapperOf (nl_attrVal nl) \<rparr>"

definition ruleNames :: "Target \<Rightarrow> string list" where
  "ruleNames t = (if dt_RuleType t = '''' then [] else [dt_RuleType t])"

definition seenTarget :: "nameLists \<Rightarrow> Target \<Rightarrow> nameLists" where
  "seenTarget nl t = \<lparr>
     nl_target = foldl seen (nl_target nl) (dt_Name t # dt_Dependencies t),
     nl_ruleType = foldl seen (nl_ruleType nl) (ruleNames t),
     nl_tag = foldl seen (nl_tag nl) (dt_Tags t),
     nl_attrName = foldl seen (nl_attrName nl) (map fst (dt_Attributes t)),
     nl_attrVal = foldl seen (nl_attrVal nl) (map snd (dt_Attributes t)) \<rparr>"

definition knows :: "nameLists \<Rightarrow> Target \<Rightarrow> bool" where
  "knows nl t \<longleftrightarrow> insert (dt_Name t) (set (dt_Dependencies t)) \<subseteq> set (nl_target nl) \<and> set (ruleNames t) \<subseteq> set (nl_ruleType nl) \<and>
     set (dt_Tags t) \<subseteq> set (nl_tag nl) \<and> fst ` set (dt_Attributes t) \<subseteq> set (nl_attrName nl) \<and>
     snd ` set (dt_Attributes t) \<subseteq> set (nl_attrVal nl)"

definition encodeIn :: "nameLists \<Rightarrow> Target \<Rightarrow> OptimizedTarget" where
  "encodeIn nl t = \<lparr> ot_ID = idIn (nl_target nl) (dt_Name t), ot_Hash = dt_Hash t,
     ot_DirectDependencies = map (idIn (nl_target nl)) (dt_Dependencies t),
     ot_RuleType = (if dt_RuleType t = '''' then 0 else idIn (nl_ruleType nl) (dt_RuleType t)),
     ot_Tags = map (idIn (nl_tag nl)) (dt_Tags t),
     ot_Root = dt_Root t, ot_External = dt_External t,
     ot_Attributes = map (\<lambda>(k, v). (idIn (nl_attrName nl) k, idIn (nl_attrVal nl) v)) (dt_Attributes t) \<rparr>"

text \<open>\<open>later nl\<close>: the states that extend \<open>nl\<close>.\<close>

definition later :: "nameLists \<Rightarrow> nameLists \<Rightarrow> bool" where
  "later nl nl' \<longleftrightarrow> (\<exists>a b c d e. nl' = \<lparr> nl_target = nl_target nl @ a, nl_ruleType = nl_ruleType nl @ b, nl_tag = nl_tag nl @ c,
     nl_attrName = nl_attrName nl @ d, nl_attrVal = nl_attrVal nl @ e \<rparr>)"

lemma later_refl: "later nl nl"
  unfolding later_def by (intro exI [of _ "[]"]) simp

lemma later_trans: "later a b \<Longrightarrow> later b c \<Longrightarrow> later a c"
  by (auto simp: later_def)

lemma later_seenTarget: "later nl (seenTarget nl t)"
  using seen_extends [of "nl_target nl" "dt_Name t # dt_Dependencies t"] seen_extends [of "nl_ruleType nl" "ruleNames t"]
    seen_extends [of "nl_tag nl" "dt_Tags t"] seen_extends [of "nl_attrName nl" "map fst (dt_Attributes t)"]
    seen_extends [of "nl_attrVal nl" "map snd (dt_Attributes t)"]
  unfolding later_def seenTarget_def nameLists.simps by metis

lemma later_foldl: "later nl (foldl seenTarget nl ts)"
  by (induction ts arbitrary: nl) (auto intro: later_refl later_trans later_seenTarget)

lemma knows_later: "knows nl t \<Longrightarrow> later nl nl' \<Longrightarrow> knows nl' t"
  by (auto simp: knows_def later_def)

lemma knows_seenTarget: "knows (seenTarget nl t) t"
  by (auto simp: knows_def seenTarget_def foldl_seen)

lemma encodeIn_later:
  assumes "knows nl t" "later nl nl'"
  shows "encodeIn nl' t = encodeIn nl t"
proof -
  obtain a b c d e where nl': "nl' = \<lparr> nl_target = nl_target nl @ a, nl_ruleType = nl_ruleType nl @ b, nl_tag = nl_tag nl @ c,
      nl_attrName = nl_attrName nl @ d, nl_attrVal = nl_attrVal nl @ e \<rparr>"
    using assms(2) by (auto simp: later_def)
  have "map (idIn (nl_target nl @ a)) (dt_Dependencies t) = map (idIn (nl_target nl)) (dt_Dependencies t)"
    and "map (idIn (nl_tag nl @ c)) (dt_Tags t) = map (idIn (nl_tag nl)) (dt_Tags t)"
    and "map (\<lambda>(k, v). (idIn (nl_attrName nl @ d) k, idIn (nl_attrVal nl @ e) v)) (dt_Attributes t) =
      map (\<lambda>(k, v). (idIn (nl_attrName nl) k, idIn (nl_attrVal nl) v)) (dt_Attributes t)"
    using assms(1) by (force simp: knows_def idIn_append intro!: map_cong)+
  then show ?thesis
    using assms(1) by (simp add: encodeIn_def nl' knows_def idIn_append ruleNames_def split: if_splits)
qed

section \<open>Transposing\<close>

text \<open>What the round trip needs of a target: no name is empty, and the attributes are a map.\<close>

definition wf_target :: "Target \<Rightarrow> bool" where
  "wf_target t \<longleftrightarrow> '''' \<notin> set (dt_Dependencies t) \<and> '''' \<notin> set (dt_Tags t) \<and>
     '''' \<notin> fst ` set (dt_Attributes t) \<and> distinct (map fst (dt_Attributes t))"

lemma transposeAttributes_abs:
  assumes "distinct (map fst attrs)" "length (foldl seen names (map fst attrs)) < 2 ^ 32"
    and "fst ` set out \<subseteq> idIn names ` (set names - fst ` set attrs)"
  shows "foldl transposeAttribute (mapperOf names, mapperOf vals, out) attrs =
    (mapperOf (foldl seen names (map fst attrs)), mapperOf (foldl seen vals (map snd attrs)),
     out @ map (\<lambda>(k, v). (idIn (foldl seen names (map fst attrs)) k, idIn (foldl seen vals (map snd attrs)) v)) attrs)"
  using assms
proof (induction attrs arbitrary: names vals out)
  case (Cons kv attrs)
  obtain k v where kv: "kv = (k, v)"
    by (cases kv)
  let ?ns = "seen names k" and ?vs = "seen vals v"
  have len: "length ?ns < 2 ^ 32"
    using Cons.prems(2) seen_extends [of ?ns "map fst attrs"] by (auto simp: kv)
  have old: "idIn ?ns x = idIn names x" if "x \<in> set names" for x
    using that idIn_foldl_seen [of x names "[k]"] by simp
  have "idIn ?ns k \<notin> fst ` set out"
  proof
    assume "idIn ?ns k \<in> fst ` set out"
    then obtain x where x: "x \<in> set names" "x \<noteq> k" "idIn ?ns k = idIn ?ns x"
      using Cons.prems(3) old by (force simp: kv)
    then show False
      using idIn_inject [OF _ _ len, of k x] by simp
  qed
  then have upd: "AList.update (idIn ?ns k) (idIn ?vs v) out = out @ [(idIn ?ns k, idIn ?vs v)]"
    by (rule update_fresh)
  have "fst ` set (out @ [(idIn ?ns k, idIn ?vs v)]) \<subseteq> idIn ?ns ` (set ?ns - fst ` set attrs)"
  proof -
    have "k \<notin> fst ` set attrs"
      using Cons.prems(1) by (simp add: kv)
    moreover have "idIn names ` (set names - fst ` set (kv # attrs)) \<subseteq> idIn ?ns ` (set ?ns - fst ` set attrs)"
      using old by (force simp: kv)
    ultimately show ?thesis
      using Cons.prems(3) by auto
  qed
  then have "foldl transposeAttribute (mapperOf ?ns, mapperOf ?vs, out @ [(idIn ?ns k, idIn ?vs v)]) attrs =
      (mapperOf (foldl seen ?ns (map fst attrs)), mapperOf (foldl seen ?vs (map snd attrs)),
       (out @ [(idIn ?ns k, idIn ?vs v)]) @
       map (\<lambda>(k, v). (idIn (foldl seen ?ns (map fst attrs)) k, idIn (foldl seen ?vs (map snd attrs)) v)) attrs)"
    using Cons.prems(1,2) by (intro Cons.IH) (simp_all add: kv)
  then show ?case
    by (simp add: kv transposeAttribute_def [of _ "(k, v)"] ID_abs upd idIn_foldl_seen)
qed simp

lemma transposeTarget_abs:
  assumes "wf_target t" "length (nl_attrName (seenTarget nl t)) < 2 ^ 32"
  shows "transposeTarget t (mappersOf nl) = (encodeIn (seenTarget nl t) t, mappersOf (seenTarget nl t))"
proof -
  have attrs: "foldl transposeAttribute (mapperOf (nl_attrName nl), mapperOf (nl_attrVal nl), []) (dt_Attributes t) =
      (mapperOf (nl_attrName (seenTarget nl t)), mapperOf (nl_attrVal (seenTarget nl t)),
       ot_Attributes (encodeIn (seenTarget nl t) t))"
    using assms by (subst transposeAttributes_abs) (simp_all add: wf_target_def seenTarget_def encodeIn_def)
  show ?thesis
    unfolding transposeTarget_def mappersOf_def canonicalMappers.simps attrs
    by (simp add: ID_abs IDs_abs seenTarget_def encodeIn_def ruleNames_def idIn_foldl_seen)
qed

section \<open>Encoding the result\<close>

definition targetsOf :: "DiffTarget \<Rightarrow> Target list" where
  "targetsOf c = (case cd_Before c of None \<Rightarrow> [] | Some t \<Rightarrow> [t]) @ (case cd_After c of None \<Rightarrow> [] | Some t \<Rightarrow> [t])"

definition encodeChange :: "nameLists \<Rightarrow> DiffTarget \<Rightarrow> ChangedTarget" where
  "encodeChange nl c = \<lparr> ct_ChangeType = toChangeType (cd_ChangeType c), ct_OldTarget = map_option (encodeIn nl) (cd_Before c),
     ct_NewTarget = map_option (encodeIn nl) (cd_After c), ct_Distance = of_int (cd_Distance c) \<rparr>"

lemma later_length: "later nl nl' \<Longrightarrow> length (nl_attrName nl) \<le> length (nl_attrName nl')"
  by (auto simp: later_def)

lemma transpose_abs:
  assumes "list_all wf_target (case src of None \<Rightarrow> [] | Some t \<Rightarrow> [t])" "later (foldl seenTarget nl (case src of None \<Rightarrow> [] | Some t \<Rightarrow> [t])) nl'"
    and "length (nl_attrName nl') < 2 ^ 32"
  shows "transpose src (mappersOf nl) =
    (map_option (encodeIn nl') src, mappersOf (foldl seenTarget nl (case src of None \<Rightarrow> [] | Some t \<Rightarrow> [t])))"
proof (cases src)
  case (Some t)
  then have "length (nl_attrName (seenTarget nl t)) < 2 ^ 32"
    using later_length [OF assms(2)] assms(3) by simp
  then show ?thesis
    using transposeTarget_abs [of t nl] assms(1,2) encodeIn_later [OF knows_seenTarget, of nl t nl'] Some
    by (simp add: transpose_def)
qed (simp add: transpose_def)

lemma toChanged_abs:
  assumes "list_all wf_target (concat (map targetsOf result))"
    and "later (foldl seenTarget nl (concat (map targetsOf result))) nl'" "length (nl_attrName nl') < 2 ^ 32"
  shows "toChanged result (mappersOf nl) =
    (map (encodeChange nl') result, mappersOf (foldl seenTarget nl (concat (map targetsOf result))))"
  using assms
proof (induction result arbitrary: nl)
  case (Cons c cs)
  define os where "os = (case cd_Before c of None \<Rightarrow> [] | Some t \<Rightarrow> [t])"
  define ns where "ns = (case cd_After c of None \<Rightarrow> [] | Some t \<Rightarrow> [t])"
  let ?rest = "concat (map targetsOf cs)"
  have parts: "concat (map targetsOf (c # cs)) = os @ ns @ ?rest"
    by (simp add: targetsOf_def os_def ns_def)
  have wf: "list_all wf_target os" "list_all wf_target ns" "list_all wf_target ?rest"
    using Cons.prems(1) unfolding parts by simp_all
  have l: "later (foldl seenTarget (foldl seenTarget (foldl seenTarget nl os) ns) ?rest) nl'"
    using Cons.prems(2) unfolding parts by simp
  then have l2: "later (foldl seenTarget (foldl seenTarget nl os) ns) nl'"
    using later_foldl later_trans by blast
  then have l1: "later (foldl seenTarget nl os) nl'"
    using later_foldl later_trans by blast
  have old: "transpose (cd_Before c) (mappersOf nl) = (map_option (encodeIn nl') (cd_Before c), mappersOf (foldl seenTarget nl os))"
    using transpose_abs [OF _ _ Cons.prems(3)] wf(1) l1 unfolding os_def by blast
  have new: "transpose (cd_After c) (mappersOf (foldl seenTarget nl os)) =
      (map_option (encodeIn nl') (cd_After c), mappersOf (foldl seenTarget (foldl seenTarget nl os) ns))"
    using transpose_abs [OF _ _ Cons.prems(3)] wf(2) l2 unfolding ns_def by blast
  show ?case
    using Cons.IH [OF wf(3) l Cons.prems(3)] unfolding parts by (simp add: old new encodeChange_def [of nl' c])
qed simp

section \<open>Reading back\<close>

text \<open>A client merges the metadata chunks and resolves every ID in them.\<close>

definition mergedMetadata :: "GetChangedTargetsResponse list \<Rightarrow> Metadata" where
  "mergedMetadata responses = foldl mergeMetadata emptyMetadata (List.map_filter cr_Metadata responses)"

definition readTarget :: "Metadata \<Rightarrow> OptimizedTarget \<Rightarrow> Target" where
  "readTarget md t = namedTarget md None (getOr (md_TargetIDMapping md) (ot_ID t)) t"

definition readChange :: "Metadata \<Rightarrow> ChangedTarget \<Rightarrow> ChangeType \<times> Target option \<times> Target option \<times> int" where
  "readChange md ct = (ct_ChangeType ct, map_option (readTarget md) (ct_OldTarget ct), map_option (readTarget md) (ct_NewTarget ct),
     sint (ct_Distance ct))"

definition nameCount :: "DiffTarget list \<Rightarrow> nat" where
  "nameCount result = sum_list (map (\<lambda>t. 2 + length (dt_Dependencies t) + length (dt_Tags t) + length (dt_Attributes t))
     (concat (map targetsOf result)))"

text \<open>\<open>resolves field ns\<close>: the map gives every ID of \<open>ns\<close> its name, and no name to 0.\<close>

definition resolves :: "(i32, string) gomap \<Rightarrow> string list \<Rightarrow> bool" where
  "resolves m ns \<longleftrightarrow> (\<forall>name \<in> set ns. getOr m (idIn ns name) = name) \<and> getOr m 0 = ''''"

lemma map_idI_on: "(\<And>x. x \<in> set xs \<Longrightarrow> f x = x) \<Longrightarrow> map f xs = xs"
  by (simp add: map_idI)

lemma resolveAttributes_encode:
  assumes "distinct (map fst attrs)" "'''' \<notin> fst ` set attrs"
    and "resolves (md_AttributeNameMapping md) an" "resolves (md_AttributeStringValueMapping md) vn"
    and "fst ` set attrs \<subseteq> set an" "snd ` set attrs \<subseteq> set vn"
  shows "resolveAttributes md None (map (\<lambda>(k, v). (idIn an k, idIn vn v)) attrs) = attrs"
proof -
  have "foldl (\<lambda>out (nameID, valID).
      let attrName = getOr (md_AttributeNameMapping md) nameID in
      if attrName = '''' then out
      else if (case None of None \<Rightarrow> False | Some allowed \<Rightarrow> attrName \<notin> allowed) then out
      else AList.update attrName (getOr (md_AttributeStringValueMapping md) valID) out) out
      (map (\<lambda>(k, v). (idIn an k, idIn vn v)) attrs) = out @ attrs"
    if "distinct (map fst (out @ attrs))" for out
    using assms that
  proof (induction attrs arbitrary: out)
    case (Cons kv attrs)
    obtain k v where kv: "kv = (k, v)"
      by (cases kv)
    have "AList.update k v out = out @ [(k, v)]"
      using Cons.prems(7) by (intro update_fresh) (force simp: kv)
    moreover have "k \<noteq> ''''"
      using Cons.prems(2) by (auto simp: kv)
    ultimately show ?case
      using Cons.IH [of "out @ [(k, v)]"] Cons.prems by (simp add: kv resolves_def)
  qed simp
  from this [of "[]"] show ?thesis
    using assms(1) by (simp add: resolveAttributes_def)
qed

lemma readTarget_encodeIn:
  assumes "wf_target t" "knows nl t" "resolves (md_TargetIDMapping md) (nl_target nl)" "resolves (md_RuleTypeMapping md) (nl_ruleType nl)"
    and "resolves (md_TagMapping md) (nl_tag nl)" "resolves (md_AttributeNameMapping md) (nl_attrName nl)"
    and "resolves (md_AttributeStringValueMapping md) (nl_attrVal nl)"
  shows "readTarget md (encodeIn nl t) = t"
proof -
  have "map (getOr (md_TargetIDMapping md) \<circ> idIn (nl_target nl)) (dt_Dependencies t) = dt_Dependencies t"
    and "map (getOr (md_TagMapping md) \<circ> idIn (nl_tag nl)) (dt_Tags t) = dt_Tags t"
    using assms(2,3,5) by (force simp: knows_def resolves_def intro!: map_idI_on)+
  moreover have "filter (\<lambda>n. n \<noteq> '''') (dt_Dependencies t) = dt_Dependencies t" "filter (\<lambda>n. n \<noteq> '''') (dt_Tags t) = dt_Tags t"
    using assms(1) by (auto simp: wf_target_def filter_id_conv)
  moreover have "resolveAttributes md None (ot_Attributes (encodeIn nl t)) = dt_Attributes t"
    using assms(1,2,6,7) by (simp add: encodeIn_def wf_target_def knows_def resolveAttributes_encode)
  moreover have "getOr (md_RuleTypeMapping md) (ot_RuleType (encodeIn nl t)) = dt_RuleType t"
      "getOr (md_TargetIDMapping md) (ot_ID (encodeIn nl t)) = dt_Name t"
    using assms(2,3,4) by (auto simp: encodeIn_def knows_def resolves_def ruleNames_def)
  ultimately show ?thesis
    by (simp add: readTarget_def namedTarget_def encodeIn_def)
qed

section \<open>The metadata\<close>

lemma putAll_fresh: "distinct (map fst (m @ kvs)) \<Longrightarrow> putAll m kvs = m @ kvs"
proof (induction kvs arbitrary: m)
  case (Cons kv kvs)
  have "AList.update (fst kv) (snd kv) m = m @ [kv]"
    using Cons.prems by (subst update_fresh) auto
  then show ?case
    using Cons.IH [of "m @ [kv]"] Cons.prems by (simp add: putAll_def)
qed (simp add: putAll_def)

lemma foldl_putAll:
  "distinct (map fst (m @ concat kvss)) \<Longrightarrow> foldl putAll m kvss = m @ concat kvss"
proof (induction kvss arbitrary: m)
  case (Cons kvs kvss)
  have "putAll m kvs = m @ kvs"
    using Cons.prems by (intro putAll_fresh) auto
  then show ?case
    using Cons.IH [of "m @ kvs"] Cons.prems by simp
qed simp

lemma foldl_mergeMetadata:
  "md_TargetIDMapping (foldl mergeMetadata md metas) = foldl putAll (md_TargetIDMapping md) (map md_TargetIDMapping metas)"
  "md_RuleTypeMapping (foldl mergeMetadata md metas) = foldl putAll (md_RuleTypeMapping md) (map md_RuleTypeMapping metas)"
  "md_TagMapping (foldl mergeMetadata md metas) = foldl putAll (md_TagMapping md) (map md_TagMapping metas)"
  "md_AttributeNameMapping (foldl mergeMetadata md metas) = foldl putAll (md_AttributeNameMapping md) (map md_AttributeNameMapping metas)"
  "md_AttributeStringValueMapping (foldl mergeMetadata md metas) =
    foldl putAll (md_AttributeStringValueMapping md) (map md_AttributeStringValueMapping metas)"
  by (induction metas arbitrary: md) (simp_all add: mergeMetadata_def)

lemma merged_field:
  assumes "distinct (map fst m)" "mergeMetas field metas = m"
  shows "foldl putAll [] (map field metas) = m"
  using foldl_putAll [of "[]" "map field metas"] assms by (simp add: mergeMetas_def)

definition permutes_entries :: "((string, i32) gomap \<Rightarrow> (string, i32) gomap) \<Rightarrow> bool" where
  "permutes_entries visit \<longleftrightarrow> (\<forall>m. mset (visit m) = mset m)"

lemma Invert_resolves:
  assumes "distinct ns" "length ns < 2 ^ 31" "permutes_entries visit"
  shows "resolves (Invert visit (mapperOf ns)) ns" "distinct (map fst (Invert visit (mapperOf ns)))"
proof -
  have l: "length ns < 2 ^ 32" "length ns < 2 ^ 32 - 1"
    using assms(2) by simp_all
  have p: "mset (visit (nameToID (mapperOf ns))) = mset (nameToID (mapperOf ns))"
    using assms(3) by (simp add: permutes_entries_def)
  show "resolves (Invert visit (mapperOf ns)) ns"
    using Invert_abs(3) [of ns visit] Invert_0 [of ns visit] assms(1) l p by (simp add: resolves_def getOr_def)
  show "distinct (map fst (Invert visit (mapperOf ns)))"
    using Invert_abs(2) [of ns visit] assms(1) l(1) p by blast
qed

definition noNames :: nameLists where
  "noNames = \<lparr> nl_target = [], nl_ruleType = [], nl_tag = [], nl_attrName = [], nl_attrVal = [] \<rparr>"

definition distinctNames :: "nameLists \<Rightarrow> bool" where
  "distinctNames nl \<longleftrightarrow> distinct (nl_target nl) \<and> distinct (nl_ruleType nl) \<and> distinct (nl_tag nl) \<and>
     distinct (nl_attrName nl) \<and> distinct (nl_attrVal nl)"

definition fewNames :: "nat \<Rightarrow> nameLists \<Rightarrow> bool" where
  "fewNames n nl \<longleftrightarrow> length (nl_target nl) \<le> n \<and> length (nl_ruleType nl) \<le> n \<and> length (nl_tag nl) \<le> n \<and>
     length (nl_attrName nl) \<le> n \<and> length (nl_attrVal nl) \<le> n"

lemma distinctNames_foldl: "distinctNames nl \<Longrightarrow> distinctNames (foldl seenTarget nl ts)"
proof (induction ts arbitrary: nl)
  case (Cons t ts)
  have "distinctNames (seenTarget nl t)"
    using Cons.prems unfolding distinctNames_def seenTarget_def nameLists.simps foldl_seen .
  then show ?case
    using Cons.IH by simp
qed simp

lemma length_foldl_seen: "length (foldl seen ns names) \<le> length ns + length names"
proof (induction names arbitrary: ns)
  case (Cons name names)
  have "length (seen ns name) \<le> Suc (length ns)"
    by (simp add: seen_def)
  then show ?case
    using Cons.IH [of "seen ns name"] by simp
qed simp

lemma fewNames_seenTarget:
  assumes "fewNames n nl"
  shows "fewNames (n + (2 + length (dt_Dependencies t) + length (dt_Tags t) + length (dt_Attributes t))) (seenTarget nl t)"
proof -
  have "length (ruleNames t) \<le> 1"
    by (simp add: ruleNames_def)
  then show ?thesis
    using assms length_foldl_seen [of "nl_target nl" "dt_Name t # dt_Dependencies t"] length_foldl_seen [of "nl_ruleType nl" "ruleNames t"]
      length_foldl_seen [of "nl_tag nl" "dt_Tags t"] length_foldl_seen [of "nl_attrName nl" "map fst (dt_Attributes t)"]
      length_foldl_seen [of "nl_attrVal nl" "map snd (dt_Attributes t)"]
    unfolding fewNames_def seenTarget_def nameLists.simps length_map by simp
qed

lemma fewNames_foldl:
  "fewNames n nl \<Longrightarrow> fewNames (n + sum_list (map (\<lambda>t. 2 + length (dt_Dependencies t) + length (dt_Tags t) + length (dt_Attributes t)) ts))
     (foldl seenTarget nl ts)"
proof (induction ts arbitrary: n nl)
  case (Cons t ts)
  then show ?case
    using Cons.IH [OF fewNames_seenTarget [OF Cons.prems, of t]] by (simp add: ac_simps)
qed simp

lemma knows_foldl: "t \<in> set ts \<Longrightarrow> knows (foldl seenTarget nl ts) t"
proof (induction ts arbitrary: nl)
  case (Cons x ts)
  show ?case
  proof (cases "t = x")
    case True
    then show ?thesis
      using knows_later [OF knows_seenTarget later_foldl] by simp
  qed (use Cons in simp)
qed simp

section \<open>The responses\<close>

lemma SplitMetadata_resolves:
  assumes "permutes_entries visit" "distinctNames nl" "fewNames n nl" "n < 2 ^ 31"
  shows "\<exists>metas. SplitMetadata (Invert visit (mapperOf (nl_target nl))) (Invert visit (mapperOf (nl_ruleType nl)))
      (Invert visit (mapperOf (nl_tag nl))) (Invert visit (mapperOf (nl_attrName nl))) (Invert visit (mapperOf (nl_attrVal nl))) maxBytes =
      Inr metas \<and>
    (let md = foldl mergeMetadata emptyMetadata metas in
     resolves (md_TargetIDMapping md) (nl_target nl) \<and> resolves (md_RuleTypeMapping md) (nl_ruleType nl) \<and>
     resolves (md_TagMapping md) (nl_tag nl) \<and> resolves (md_AttributeNameMapping md) (nl_attrName nl) \<and>
     resolves (md_AttributeStringValueMapping md) (nl_attrVal nl))"
proof -
  let ?I = "\<lambda>ns. Invert visit (mapperOf ns)"
  have small: "length (nl_target nl) < 2 ^ 31" "length (nl_ruleType nl) < 2 ^ 31" "length (nl_tag nl) < 2 ^ 31"
      "length (nl_attrName nl) < 2 ^ 31" "length (nl_attrVal nl) < 2 ^ 31"
    using assms(3,4) by (auto simp: fewNames_def)
  have d: "distinct (nl_target nl)" "distinct (nl_ruleType nl)" "distinct (nl_tag nl)" "distinct (nl_attrName nl)" "distinct (nl_attrVal nl)"
    using assms(2) by (simp_all add: distinctNames_def)
  obtain metas where m: "SplitMetadata (?I (nl_target nl)) (?I (nl_ruleType nl)) (?I (nl_tag nl)) (?I (nl_attrName nl)) (?I (nl_attrVal nl)) maxBytes =
      Inr metas" and f: "mergeMetas md_TargetIDMapping metas = ?I (nl_target nl)" "mergeMetas md_RuleTypeMapping metas = ?I (nl_ruleType nl)"
      "mergeMetas md_TagMapping metas = ?I (nl_tag nl)" "mergeMetas md_AttributeNameMapping metas = ?I (nl_attrName nl)"
      "mergeMetas md_AttributeStringValueMapping metas = ?I (nl_attrVal nl)"
    using SplitMetadata_total [of "?I (nl_target nl)" "?I (nl_ruleType nl)" "?I (nl_tag nl)" "?I (nl_attrName nl)" "?I (nl_attrVal nl)" maxBytes] by blast
  note inv = Invert_resolves [OF _ _ assms(1)]
  let ?md = "foldl mergeMetadata emptyMetadata metas"
  have "md_TargetIDMapping ?md = ?I (nl_target nl)" "md_RuleTypeMapping ?md = ?I (nl_ruleType nl)" "md_TagMapping ?md = ?I (nl_tag nl)"
      "md_AttributeNameMapping ?md = ?I (nl_attrName nl)" "md_AttributeStringValueMapping ?md = ?I (nl_attrVal nl)"
    using merged_field [OF inv(2) [OF d(1) small(1)] f(1)] merged_field [OF inv(2) [OF d(2) small(2)] f(2)]
      merged_field [OF inv(2) [OF d(3) small(3)] f(3)] merged_field [OF inv(2) [OF d(4) small(4)] f(4)]
      merged_field [OF inv(2) [OF d(5) small(5)] f(5)]
    by (simp_all add: foldl_mergeMetadata) (simp_all add: emptyMetadata_def)
  then show ?thesis
    using m inv(1) [OF d(1) small(1)] inv(1) [OF d(2) small(2)] inv(1) [OF d(3) small(3)] inv(1) [OF d(4) small(4)] inv(1) [OF d(5) small(5)]
    by (simp add: Let_def)
qed

lemma newCanonicalMappers_abs: "newCanonicalMappers = mappersOf noNames"
  by (simp add: newCanonicalMappers_def mappersOf_def noNames_def NewMapper_abs)

lemma map_filter_metas: "List.map_filter cr_Metadata (map (\<lambda>g. \<lparr> cr_ChangedTargets = g, cr_Metadata = None \<rparr>) gs @
    map (\<lambda>m. \<lparr> cr_ChangedTargets = [], cr_Metadata = Some m \<rparr>) ms) = ms"
  by (simp add: List.map_filter_def comp_def)

lemma concat_changed: "concat (map cr_ChangedTargets (map (\<lambda>g. \<lparr> cr_ChangedTargets = g, cr_Metadata = None \<rparr>) gs @
    map (\<lambda>m. \<lparr> cr_ChangedTargets = [], cr_Metadata = Some m \<rparr>) ms)) = concat gs"
  by (simp add: comp_def)

lemma sint_of_int: "- (2 ^ 31) \<le> d \<Longrightarrow> d < 2 ^ 31 \<Longrightarrow> sint (of_int d :: i32) = d"
  by (simp only: signed_of_int) (simp add: signed_take_bit_int_eq_self)

lemma readChange_encodeChange:
  assumes "list_all wf_target (targetsOf c)" "\<And>t. t \<in> set (targetsOf c) \<Longrightarrow> readTarget md (encodeIn nl t) = t"
    and "- (2 ^ 31) \<le> cd_Distance c" "cd_Distance c < 2 ^ 31"
  shows "readChange md (encodeChange nl c) = (toChangeType (cd_ChangeType c), cd_Before c, cd_After c, cd_Distance c)"
  using assms sint_of_int [OF assms(3,4)]
  by (auto simp: readChange_def encodeChange_def targetsOf_def split: option.splits)

definition wf_result :: "DiffTarget list \<Rightarrow> bool" where
  "wf_result result \<longleftrightarrow> list_all wf_target (concat (map targetsOf result)) \<and>
     list_all (\<lambda>c. - (2 ^ 31) \<le> cd_Distance c \<and> cd_Distance c < 2 ^ 31) result \<and> nameCount result < 2 ^ 31"

lemma resultToResponses_reads_back:
  assumes "wf_result result" "permutes_entries visit"
  shows "\<exists>responses. resultToResponses visit maxBytes result = Inr responses \<and>
    map (readChange (mergedMetadata responses)) (concat (map cr_ChangedTargets responses)) =
    map (\<lambda>c. (toChangeType (cd_ChangeType c), cd_Before c, cd_After c, cd_Distance c)) result"
proof -
  let ?ts = "concat (map targetsOf result)"
  let ?nl = "foldl seenTarget noNames ?ts"
  have wf: "list_all wf_target ?ts" and n: "nameCount result < 2 ^ 31"
    and dist: "\<And>c. c \<in> set result \<Longrightarrow> - (2 ^ 31) \<le> cd_Distance c \<and> cd_Distance c < 2 ^ 31"
    using assms(1) by (auto simp: wf_result_def list_all_iff)
  have few: "fewNames (nameCount result) ?nl"
    using fewNames_foldl [of 0 noNames ?ts] by (simp add: nameCount_def fewNames_def noNames_def)
  have d: "distinctNames ?nl"
    by (rule distinctNames_foldl) (simp add: distinctNames_def noNames_def)
  have "length (nl_attrName ?nl) < 2 ^ 32"
    using few n by (simp add: fewNames_def)
  then have ch: "toChanged result newCanonicalMappers = (map (encodeChange ?nl) result, mappersOf ?nl)"
    unfolding newCanonicalMappers_abs using toChanged_abs [OF wf later_refl] by blast
  obtain gs where gs: "SplitBySize ChangedTarget_Size (map (encodeChange ?nl) result) maxBytes = Inr gs" "concat gs = map (encodeChange ?nl) result"
    using SplitBySize_total by metis
  obtain ms where ms: "SplitMetadata (Invert visit (mapperOf (nl_target ?nl))) (Invert visit (mapperOf (nl_ruleType ?nl)))
      (Invert visit (mapperOf (nl_tag ?nl))) (Invert visit (mapperOf (nl_attrName ?nl))) (Invert visit (mapperOf (nl_attrVal ?nl))) maxBytes = Inr ms"
    and res: "let md = foldl mergeMetadata emptyMetadata ms in
     resolves (md_TargetIDMapping md) (nl_target ?nl) \<and> resolves (md_RuleTypeMapping md) (nl_ruleType ?nl) \<and>
     resolves (md_TagMapping md) (nl_tag ?nl) \<and> resolves (md_AttributeNameMapping md) (nl_attrName ?nl) \<and>
     resolves (md_AttributeStringValueMapping md) (nl_attrVal ?nl)"
    using SplitMetadata_resolves [OF assms(2) d few n] by blast
  let ?rs = "map (\<lambda>g. \<lparr> cr_ChangedTargets = g, cr_Metadata = None \<rparr>) gs @ map (\<lambda>m. \<lparr> cr_ChangedTargets = [], cr_Metadata = Some m \<rparr>) ms"
  have r: "resultToResponses visit maxBytes result = Inr ?rs"
    unfolding resultToResponses_def ch by (simp add: gs(1)) (simp add: mappersOf_def ms)
  have md: "mergedMetadata ?rs = foldl mergeMetadata emptyMetadata ms"
    by (simp only: mergedMetadata_def map_filter_metas)
  have "readTarget (mergedMetadata ?rs) (encodeIn ?nl t) = t" if "t \<in> set ?ts" for t
    using readTarget_encodeIn [of t ?nl "mergedMetadata ?rs"] that wf knows_foldl [OF that] res unfolding md Let_def list_all_iff by blast
  then have "readChange (mergedMetadata ?rs) (encodeChange ?nl c) = (toChangeType (cd_ChangeType c), cd_Before c, cd_After c, cd_Distance c)"
    if "c \<in> set result" for c
    using that dist [OF that] wf by (intro readChange_encodeChange) (auto simp: list_all_iff)
  then have "map (readChange (mergedMetadata ?rs)) (concat gs) =
      map (\<lambda>c. (toChangeType (cd_ChangeType c), cd_Before c, cd_After c, cd_Distance c)) result"
    unfolding gs(2) map_map by (intro map_cong [OF refl]) (simp only: comp_def)
  then show ?thesis
    using r by (intro exI [of _ ?rs] conjI) (simp_all only: concat_changed)
qed

end
