(* ===== verification/HandlerProperties.thy ===== *)
theory HandlerProperties
  imports Handler ResponseRoundTrip
begin

text \<open>
  What a client of \<open>GetChangedTargets\<close> receives. The stream that records what is sent is the concrete
  server stream; the client reads the metadata items together and resolves the IDs of the targets.
\<close>

section \<open>The recording stream and the client\<close>

definition recordSend :: "'m \<Rightarrow> 'm list \<Rightarrow> goerr option \<times> 'm list" where
  "recordSend m sent = (None, sent @ [m])"

definition targetFromProto :: "PbOptimizedTarget \<Rightarrow> OptimizedTarget" where
  "targetFromProto t = \<lparr> ot_ID = pt_Id t, ot_Hash = pt_Hash t, ot_DirectDependencies = pt_DirectDependencies t,
     ot_RuleType = pt_RuleType t, ot_Tags = pt_Tags t, ot_Root = pt_Root t, ot_External = pt_External t,
     ot_Attributes = pt_Attributes t \<rparr>"

definition metadataFromProto :: "PbMetadata \<Rightarrow> Metadata" where
  "metadataFromProto m = \<lparr> md_TargetIDMapping = pm_TargetIdMapping m, md_RuleTypeMapping = pm_RuleTypeMapping m,
     md_TagMapping = pm_TagMapping m, md_AttributeNameMapping = pm_AttributeNameMapping m,
     md_AttributeStringValueMapping = pm_AttributeStringValueMapping m, md_AllTargetsFileHashes = [] \<rparr>"

definition sentTargets :: "PbChangedTargetsItem list \<Rightarrow> PbChangedTarget list" where
  "sentTargets items = concat (map (\<lambda>item. case item of PbChangedTargets ts \<Rightarrow> List.map_filter id ts | _ \<Rightarrow> []) items)"

definition sentMetadata :: "PbChangedTargetsItem list \<Rightarrow> Metadata" where
  "sentMetadata items = foldl mergeMetadata emptyMetadata
     (List.map_filter (\<lambda>item. case item of PbChangedMetadata (Some m) \<Rightarrow> Some (metadataFromProto m) | _ \<Rightarrow> None) items)"

definition clientChange :: "Metadata \<Rightarrow> PbChangedTarget \<Rightarrow> nat \<times> Target option \<times> Target option \<times> int" where
  "clientChange md ct = (pc_ChangeType ct, map_option (readTarget md \<circ> targetFromProto) (pc_OldTarget ct),
     map_option (readTarget md \<circ> targetFromProto) (pc_NewTarget ct), sint (pc_Distance ct))"

text \<open>What the request asks for: which fields, which distances.\<close>

definition trimTarget :: "PbOutputConfig option \<Rightarrow> Target \<Rightarrow> Target" where
  "trimTarget cfg t = t \<lparr> dt_Hash := (if flagSet oc_IncludeHashes cfg then dt_Hash t else ''''),
     dt_Tags := (if flagSet oc_IncludeTags cfg then dt_Tags t else []),
     dt_Attributes := (if flagSet oc_IncludeAttributes cfg then dt_Attributes t else []) \<rparr>"

definition within :: "int \<Rightarrow> int \<Rightarrow> bool" where
  "within maxDist d \<longleftrightarrow> maxDist < 0 \<or> 0 \<le> d \<and> d \<le> maxDist"

section \<open>Sending\<close>

lemma sendTrimmed_recorded:
  "sendTrimmedChangedTargets recordSend responses maxDist cfg sent =
    (None, sent @ map (\<lambda>resp. trimResponse maxDist cfg (ChangedTargetsResponseToProto resp)) responses)"
  by (induction responses arbitrary: sent) (simp_all add: recordSend_def)

lemma stripped:
  "applyOptimizedTargetOutputConfig (Some t) cfg =
    Some (t \<lparr> pt_Hash := (if flagSet oc_IncludeHashes cfg then pt_Hash t else ''''),
      pt_Tags := (if flagSet oc_IncludeTags cfg then pt_Tags t else []),
      pt_Attributes := (if flagSet oc_IncludeAttributes cfg then pt_Attributes t else []) \<rparr>)"
  by (auto simp: applyOptimizedTargetOutputConfig_def optimizedTargetNeedsStripping_def flagSet_def split: option.splits)

lemma stripped_change:
  "applyChangedTargetOutputConfig (Some ct) cfg =
    Some (ct \<lparr> pc_OldTarget := applyOptimizedTargetOutputConfig (pc_OldTarget ct) cfg,
      pc_NewTarget := applyOptimizedTargetOutputConfig (pc_NewTarget ct) cfg \<rparr>)"
  by (auto simp: applyChangedTargetOutputConfig_def applyOptimizedTargetOutputConfig_def split: option.splits)

lemma pruned:
  "applyMetadataOutputConfig (Some m) cfg =
    Some (m \<lparr> pm_TagMapping := (if flagSet oc_IncludeTags cfg then pm_TagMapping m else []),
      pm_AttributeNameMapping := (if flagSet oc_IncludeAttributes cfg then pm_AttributeNameMapping m else []),
      pm_AttributeStringValueMapping := (if flagSet oc_IncludeAttributes cfg then pm_AttributeStringValueMapping m else []) \<rparr>)"
  by (auto simp: applyMetadataOutputConfig_def metadataNeedsPruning_def flagSet_def split: option.splits)

lemma strip_all: "applyChangedTargetsOutputConfig ts cfg = map (\<lambda>ct. applyChangedTargetOutputConfig ct cfg) ts"
  by (auto simp: applyChangedTargetsOutputConfig_def applyChangedTargetOutputConfig_def intro!: map_idI [symmetric] split: option.splits)

lemma trim_targets:
  "trimResponse maxDist cfg (PbChangedTargets ts) =
    PbChangedTargets (map (\<lambda>ct. applyChangedTargetOutputConfig ct cfg) (filter (\<lambda>t. within (sint maxDist) (sint (GetDistance t))) ts))"
proof (cases "0 \<le> sint maxDist \<or> optimizedTargetNeedsStripping cfg")
  case True
  then show ?thesis
    by (auto simp: trimResponse_def strip_all filterChangedTargetsByDistance_def within_def Let_def not_less)
next
  case False
  then have "applyChangedTargetOutputConfig ct cfg = ct" for ct
    by (simp add: applyChangedTargetOutputConfig_def split: option.splits)
  with False show ?thesis
    by (simp add: trimResponse_def within_def)
qed

lemma trim_metadata: "trimResponse maxDist cfg (PbChangedMetadata meta) = PbChangedMetadata (applyMetadataOutputConfig meta cfg)"
  by (auto simp: trimResponse_def applyMetadataOutputConfig_def split: option.splits)

text \<open>The metadata as the client merges it, in terms of what the controller produced.\<close>

definition pruneMetadata :: "PbOutputConfig option \<Rightarrow> Metadata \<Rightarrow> Metadata" where
  "pruneMetadata cfg m = m \<lparr> md_TagMapping := (if flagSet oc_IncludeTags cfg then md_TagMapping m else []),
     md_AttributeNameMapping := (if flagSet oc_IncludeAttributes cfg then md_AttributeNameMapping m else []),
     md_AttributeStringValueMapping := (if flagSet oc_IncludeAttributes cfg then md_AttributeStringValueMapping m else []),
     md_AllTargetsFileHashes := [] \<rparr>"

lemma pruneMetadata_sel:
  "md_TargetIDMapping (pruneMetadata cfg m) = md_TargetIDMapping m"
  "md_RuleTypeMapping (pruneMetadata cfg m) = md_RuleTypeMapping m"
  "md_TagMapping (pruneMetadata cfg m) = (if flagSet oc_IncludeTags cfg then md_TagMapping m else [])"
  by (simp_all add: pruneMetadata_def)

lemma prune_merge: "mergeMetadata (pruneMetadata cfg a) (pruneMetadata cfg b) = pruneMetadata cfg (mergeMetadata a b)"
  by (simp add: pruneMetadata_def mergeMetadata_def putAll_def)

lemma foldl_prune: "foldl mergeMetadata (pruneMetadata cfg md) (map (pruneMetadata cfg) metas) = pruneMetadata cfg (foldl mergeMetadata md metas)"
  by (induction metas arbitrary: md) (simp_all add: prune_merge)

lemma pruned_proto: "map_option metadataFromProto (applyMetadataOutputConfig (Some (metadataToProto m)) cfg) = Some (pruneMetadata cfg m)"
  by (simp add: pruned metadataFromProto_def metadataToProto_def pruneMetadata_def)

lemma sentMetadata_eq:
  "sentMetadata (map (\<lambda>resp. trimResponse maxDist cfg (ChangedTargetsResponseToProto resp)) responses) =
    pruneMetadata cfg (mergedMetadata responses)"
proof -
  have one: "(case trimResponse maxDist cfg (ChangedTargetsResponseToProto resp) of
      PbChangedMetadata (Some m) \<Rightarrow> Some (metadataFromProto m) | _ \<Rightarrow> None) = map_option (pruneMetadata cfg) (cr_Metadata resp)" for resp
  proof (cases "cr_Metadata resp")
    case None
    then show ?thesis
      by (simp add: ChangedTargetsResponseToProto_def trim_targets)
  next
    case (Some m)
    then show ?thesis
      using pruned_proto [of m cfg] by (auto simp: ChangedTargetsResponseToProto_def trim_metadata split: option.splits)
  qed
  have "List.map_filter (\<lambda>item. case item of PbChangedMetadata (Some m) \<Rightarrow> Some (metadataFromProto m) | _ \<Rightarrow> None)
      (map (\<lambda>resp. trimResponse maxDist cfg (ChangedTargetsResponseToProto resp)) responses) =
      map (pruneMetadata cfg) (List.map_filter cr_Metadata responses)"
    by (induction responses) (simp_all add: one map_filter_simps split: option.splits)
  moreover have "pruneMetadata cfg emptyMetadata = emptyMetadata"
    by (simp add: pruneMetadata_def emptyMetadata_def)
  ultimately show ?thesis
    using foldl_prune [of cfg emptyMetadata] by (simp add: sentMetadata_def mergedMetadata_def)
qed

section \<open>Receiving\<close>

definition stripChange :: "PbOutputConfig option \<Rightarrow> PbChangedTarget \<Rightarrow> PbChangedTarget" where
  "stripChange cfg ct = ct \<lparr> pc_OldTarget := applyOptimizedTargetOutputConfig (pc_OldTarget ct) cfg,
     pc_NewTarget := applyOptimizedTargetOutputConfig (pc_NewTarget ct) cfg \<rparr>"

lemma map_filter_Some: "List.map_filter id (map (\<lambda>ct. applyChangedTargetOutputConfig ct cfg)
    (filter (\<lambda>t. within m (sint (GetDistance t))) (map (\<lambda>ct. Some (changedTargetToProto ct)) cts))) =
  map (\<lambda>ct. stripChange cfg (changedTargetToProto ct)) (filter (\<lambda>ct. within m (sint (ct_Distance ct))) cts)"
  by (induction cts) (simp_all add: map_filter_simps stripped_change stripChange_def GetDistance_def changedTargetToProto_def)

lemma sentTargets_eq:
  assumes "\<forall>r \<in> set responses. cr_Metadata r = None \<or> cr_ChangedTargets r = []"
  shows "sentTargets (map (\<lambda>resp. trimResponse maxDist cfg (ChangedTargetsResponseToProto resp)) responses) =
    map (\<lambda>ct. stripChange cfg (changedTargetToProto ct))
      (filter (\<lambda>ct. within (sint maxDist) (sint (ct_Distance ct))) (concat (map cr_ChangedTargets responses)))"
  using assms
proof (induction responses)
  case (Cons r rs)
  have "(case trimResponse maxDist cfg (ChangedTargetsResponseToProto r) of
      PbChangedTargets ts \<Rightarrow> List.map_filter id ts | PbChangedMetadata x \<Rightarrow> []) =
      map (\<lambda>ct. stripChange cfg (changedTargetToProto ct)) (filter (\<lambda>ct. within (sint maxDist) (sint (ct_Distance ct))) (cr_ChangedTargets r))"
    using Cons.prems
    by (cases "cr_Metadata r") (simp_all add: ChangedTargetsResponseToProto_def trim_targets trim_metadata map_filter_Some)
  then show ?case
    using Cons by (simp add: sentTargets_def)
qed (simp add: sentTargets_def)

lemma resolveAttributes_same:
  "md_AttributeNameMapping a = md_AttributeNameMapping b \<Longrightarrow> md_AttributeStringValueMapping a = md_AttributeStringValueMapping b \<Longrightarrow>
    resolveAttributes a seedAttrs attrs = resolveAttributes b seedAttrs attrs"
  by (simp only: resolveAttributes_def)

lemma read_stripped:
  "map_option (readTarget (pruneMetadata cfg md) \<circ> targetFromProto) (applyOptimizedTargetOutputConfig (optionalTargetToProto t) cfg) =
    map_option (trimTarget cfg) (map_option (readTarget md) t)"
proof (cases t)
  case (Some u)
  have "resolveAttributes (pruneMetadata cfg md) None (if flagSet oc_IncludeAttributes cfg then ot_Attributes u else []) =
      (if flagSet oc_IncludeAttributes cfg then resolveAttributes md None (ot_Attributes u) else [])"
    using resolveAttributes_same [of "pruneMetadata cfg md" md None "ot_Attributes u"]
    by (simp add: pruneMetadata_def) (simp add: resolveAttributes_def)
  with Some show ?thesis
    by (simp add: optionalTargetToProto_def stripped optimizedTargetToProto_def targetFromProto_def readTarget_def namedTarget_def
      trimTarget_def pruneMetadata_sel split: if_splits)
qed (simp add: optionalTargetToProto_def applyOptimizedTargetOutputConfig_def)

lemma clientChange_stripped:
  "clientChange (pruneMetadata cfg md) (stripChange cfg (changedTargetToProto ct)) =
    (case readChange md ct of (ty, b, a, d) \<Rightarrow> (ChangeType_code ty, map_option (trimTarget cfg) b, map_option (trimTarget cfg) a, d))"
  by (simp add: clientChange_def stripChange_def changedTargetToProto_def readChange_def read_stripped)

lemma resultToResponses_shape:
  assumes "resultToResponses visit maxBytes result = Inr responses"
  shows "\<forall>r \<in> set responses. cr_Metadata r = None \<or> cr_ChangedTargets r = []"
  using assms by (auto simp: resultToResponses_def bindE_eq_Inr split: prod.splits)

lemma filter_map_read:
  assumes "map (readChange md) cts = map f result" "\<And>c. snd (snd (snd (f c))) = cd_Distance c"
  shows "map (readChange md) (filter (\<lambda>ct. within m (sint (ct_Distance ct))) cts) = map f (filter (\<lambda>c. within m (cd_Distance c)) result)"
  using assms(1)
proof (induction cts arbitrary: result)
  case (Cons ct cts)
  then obtain c cs where r: "result = c # cs" "readChange md ct = f c" "map (readChange md) cts = map f cs"
    by (cases result) auto
  have "sint (ct_Distance ct) = cd_Distance c"
    using assms(2) [of c] r(2) by (simp add: readChange_def flip: r(2))
  then show ?case
    using Cons.IH [OF r(3)] r by simp
qed simp

text \<open>C7: a client gets what it asked for. Whatever the comparison found, the response stream of
  \<open>GetChangedTargets\<close>, with its metadata chunks merged and its IDs resolved, is the list of the changed
  targets within the requested distance, in order, with their change types, distances, names, rule
  types and dependencies, and with hash, tags and attributes exactly when the request includes them.\<close>

theorem client_receives_changes:
  assumes "wf_result result" "permutes_entries visit"
  shows "\<exists>responses sent. resultToResponses visit maxBytes result = Inr responses \<and>
    sendTrimmedChangedTargets recordSend responses maxDist cfg [] = (None, sent) \<and>
    map (clientChange (sentMetadata sent)) (sentTargets sent) =
    map (\<lambda>c. (ChangeType_code (toChangeType (cd_ChangeType c)), map_option (trimTarget cfg) (cd_Before c),
      map_option (trimTarget cfg) (cd_After c), cd_Distance c)) (filter (\<lambda>c. within (sint maxDist) (cd_Distance c)) result)"
proof -
  obtain rs where rs: "resultToResponses visit maxBytes result = Inr rs"
      "map (readChange (mergedMetadata rs)) (concat (map cr_ChangedTargets rs)) =
       map (\<lambda>c. (toChangeType (cd_ChangeType c), cd_Before c, cd_After c, cd_Distance c)) result"
    using resultToResponses_reads_back [OF assms] by blast
  let ?sent = "map (\<lambda>resp. trimResponse maxDist cfg (ChangedTargetsResponseToProto resp)) rs"
  let ?kept = "filter (\<lambda>ct. within (sint maxDist) (sint (ct_Distance ct))) (concat (map cr_ChangedTargets rs))"
  let ?trim = "\<lambda>(ty, b, a, d). (ChangeType_code ty, map_option (trimTarget cfg) b, map_option (trimTarget cfg) a, d)"
  have "map (clientChange (sentMetadata ?sent)) (sentTargets ?sent) = map ?trim (map (readChange (mergedMetadata rs)) ?kept)"
    unfolding sentMetadata_eq sentTargets_eq [OF resultToResponses_shape [OF rs(1)]] map_map
    by (intro map_cong [OF refl]) (simp add: clientChange_stripped)
  also have "map (readChange (mergedMetadata rs)) ?kept =
      map (\<lambda>c. (toChangeType (cd_ChangeType c), cd_Before c, cd_After c, cd_Distance c)) (filter (\<lambda>c. within (sint maxDist) (cd_Distance c)) result)"
    using filter_map_read [OF rs(2)] by simp
  finally show ?thesis
    using rs(1) sendTrimmed_recorded [of rs maxDist cfg "[]"] by (simp add: comp_def)
qed

definition demoDiffTarget :: Target where
  "demoDiffTarget = \<lparr> dt_Name = ''//a:t'', dt_Hash = ''ff'', dt_RuleType = ''go_library'', dt_Dependencies = [''//b:t'', ''//a:t''],
     dt_Tags = [''manual''], dt_Attributes = [(''name'', ''t'')], dt_Root = True, dt_External = False \<rparr>"

definition demoResult :: "DiffTarget list" where
  "demoResult = [\<lparr> cd_ChangeType = DiffTypeNew, cd_Before = None, cd_After = Some demoDiffTarget, cd_Distance = 0 \<rparr>,
     \<lparr> cd_ChangeType = DiffTypeChanged, cd_Before = Some demoDiffTarget, cd_After = Some demoDiffTarget, cd_Distance = 2 \<rparr>]"

theorem client_receives_changes_witness:
  "\<exists>responses sent. resultToResponses rev 64 demoResult = Inr responses \<and>
    sendTrimmedChangedTargets recordSend responses 1 None [] = (None, sent) \<and>
    map (clientChange (sentMetadata sent)) (sentTargets sent) =
      [(1, None, Some (demoDiffTarget \<lparr> dt_Hash := '''', dt_Tags := [], dt_Attributes := [] \<rparr>), 0)]"
proof -
  have "wf_result demoResult"
    by (simp add: wf_result_def demoResult_def demoDiffTarget_def wf_target_def targetsOf_def nameCount_def)
  moreover have "permutes_entries rev"
    by (simp add: permutes_entries_def)
  ultimately show ?thesis
    using client_receives_changes [of demoResult rev 64 1 None]
    by (simp add: demoResult_def within_def trimTarget_def flagSet_def)
qed

section \<open>Errors\<close>

lemma validate_not_canceled: "validateComputationStrategy s = Inl e \<Longrightarrow> \<not> errorsIs e ErrCanceled"
  by (auto simp: validateComputationStrategy_def split: if_splits)

lemma build_not_canceled: "ProtoToBuildDescription d = Inl e \<Longrightarrow> \<not> errorsIs e ErrCanceled"
  by (auto simp: ProtoToBuildDescription_def bindE_eq_Inl validate_not_canceled split: option.splits if_splits)

lemma request_not_canceled: "ProtoToGetChangedTargetsRequest r = Inl e \<Longrightarrow> \<not> errorsIs e ErrCanceled"
  by (auto simp: ProtoToGetChangedTargetsRequest_def bindE_eq_Inl mapErrE_eq_Inl build_not_canceled split: option.splits if_splits)

text \<open>C19: requests are checked before any work. A request that is malformed (a missing revision,
  remote or base SHA, an unknown strategy, two remotes) or names a repository that is not configured
  is answered with the wire code for user errors, whatever the controller would do, and nothing is sent.\<close>

theorem invalid_requests_are_user_errors:
  assumes "ProtoToGetChangedTargetsRequest request = Inl e \<or>
    (\<exists>r. ProtoToGetChangedTargetsRequest request = Inr r \<and> repoConfig (bd_Remote (ctr_First r)) = None)"
  shows "\<exists>w. handleGetChangedTargets message repoConfig controller send request st = (Some w, st) \<and> we_Code w = PB_ERROR_USER"
  using assms
  by (auto simp: handleGetChangedTargets_def changedTargetsRPC_def resolveRequestRepository_def ToProtoError_def Let_def
    dest: request_not_canceled)

theorem invalid_requests_are_user_errors_witness:
  "\<exists>w. handleGetChangedTargets (\<lambda>_. '''') (\<lambda>_. None) (\<lambda>_ _. Inr []) recordSend (None :: PbGetChangedTargetsRequest option) [] = (Some w, []) \<and>
     we_Code w = PB_ERROR_USER"
  using invalid_requests_are_user_errors [of None "Msg ''get changed targets request is required''"]
  by (simp add: ProtoToGetChangedTargetsRequest_def)

end
