(* ===== verification/BlobStorage.thy ===== *)
theory BlobStorage
  imports TgbEncode GoStrings Bfs GoError "HOL-Library.Multiset"
begin

text \<open>
  \<open>core/storage\<close>: the blob storage interface, its in-memory implementation (\<open>memstorage.go\<close>) and the
  one on disk (\<open>disk/\<close>). The body of an upload is the sequence of chunks its reader delivers and the
  error that ends it, if any; every read through \<open>CtxReader\<close> polls the context first. The interface is
  the locale \<open>blob_store\<close>, which both implementations interpret.
\<close>

section \<open>Reading under a context\<close>

type_synonym uploadBody = "bytes list \<times> goerr option"

text \<open>\<open>io.Copy\<close> from a \<open>CtxReader\<close>; the \<open>k\<close>-th read polls the context as its \<open>k\<close>-th poll.\<close>

fun copyBody :: "goerr go_context \<Rightarrow> nat \<Rightarrow> bytes list \<Rightarrow> goerr option \<Rightarrow> goerr + bytes" where
  "copyBody ctx k [] err = bindE (checkCtx ctx k) (\<lambda>_. case err of None \<Rightarrow> Inr [] | Some e \<Rightarrow> Inl e)"
| "copyBody ctx k (c # cs) err = bindE (checkCtx ctx k) (\<lambda>_. bindE (copyBody ctx (k + 1) cs err) (\<lambda>b. Inr (c @ b)))"

definition IsNotFound :: "goerr \<Rightarrow> bool" where
  "IsNotFound err = errorsIs err ErrNotFound"

definition NewNotFoundError :: "string \<Rightarrow> goerr" where
  "NewNotFoundError key = Wrapped (''storage get '' @ key @ '': '') [ErrNotFound]"

section \<open>Memory\<close>

record memoryStorage =
  ms_data :: "(string, bytes) gomap"

definition NewMemoryStorage :: memoryStorage where
  "NewMemoryStorage = \<lparr> ms_data = [] \<rparr>"

definition memGet :: "string \<Rightarrow> memoryStorage \<Rightarrow> goerr + bytes" where
  "memGet key m = (case map_of (ms_data m) key of Some b \<Rightarrow> Inr b | None \<Rightarrow> Inl (NewNotFoundError key))"

text \<open>A nil reader is \<open>None\<close>.\<close>

definition memPut :: "goerr go_context \<Rightarrow> string \<Rightarrow> uploadBody option \<Rightarrow> (memoryStorage, goerr, unit) stateful" where
  "memPut ctx key body m = (case body of
     None \<Rightarrow> (Inl (Msg ''nil reader''), m)
   | Some (cs, err) \<Rightarrow> (case copyBody ctx 0 cs err of
         Inl e \<Rightarrow> (Inl e, m)
       | Inr b \<Rightarrow> (Inr (), m \<lparr> ms_data := AList.update key b (ms_data m) \<rparr>)))"

definition memExists :: "string \<Rightarrow> memoryStorage \<Rightarrow> bool" where
  "memExists key m = (map_of (ms_data m) key \<noteq> None)"

definition memList :: "string \<Rightarrow> memoryStorage \<Rightarrow> string list" where
  "memList prefix m = filter (\<lambda>k. HasPrefix k prefix) (map fst (ms_data m))"

section \<open>Disk\<close>

text \<open>
  The file system below the objects directory: its regular files, in the order \<open>filepath.Walk\<close> visits them, and the
  failures of the operating system, per operation and path.
\<close>

record diskState =
  df_files :: "(string, bytes) gomap"
  df_faults :: "string \<Rightarrow> string \<Rightarrow> goerr option"

definition objectsDir :: string where "objectsDir = ''.objects''"
definition blobFileName :: string where "blobFileName = ''blob''"
definition keyChunkSize :: nat where "keyChunkSize = 200"

function keyChunks :: "string \<Rightarrow> string list" where
  "keyChunks encoded = (if keyChunkSize < length encoded
     then take keyChunkSize encoded # keyChunks (drop keyChunkSize encoded)
     else if encoded \<noteq> '''' then [encoded] else [])"
  by pat_completeness auto

termination keyChunks
  by (relation "measure length") (auto simp: keyChunkSize_def)

declare keyChunks.simps [simp del]

definition keyPath :: "string \<Rightarrow> string \<Rightarrow> string" where
  "keyPath rootDir key = PathJoin ([rootDir, objectsDir] @ keyChunks (EncodeToString (bytes_of key)) @ [blobFileName])"

definition keyFromPath :: "string \<Rightarrow> string \<Rightarrow> goerr + string" where
  "keyFromPath rootDir path = (case Rel (PathJoin [rootDir, objectsDir]) path of
     None \<Rightarrow> Inl (Msg ''Rel: can't make path relative'')
   | Some rel \<Rightarrow> let parts = SplitByte (CHR ''/'') rel; encoded = Join '''' (butlast parts) in
       (case DecodeString encoded of None \<Rightarrow> Inl (Msg ''encoding/hex: invalid key'') | Some key \<Rightarrow> Inr (string_of key)))"

definition faultE :: "diskState \<Rightarrow> string \<Rightarrow> string \<Rightarrow> goerr + unit" where
  "faultE d operation path = (case df_faults d operation path of Some e \<Rightarrow> Inl e | None \<Rightarrow> Inr ())"

definition diskGet :: "goerr go_context \<Rightarrow> string \<Rightarrow> string \<Rightarrow> diskState \<Rightarrow> goerr + bytes" where
  "diskGet ctx rootDir key d =
    bindE (checkCtx ctx 0) (\<lambda>_.
    let path = keyPath rootDir key in
    bindE (faultE d ''open'' path) (\<lambda>_.
    case map_of (df_files d) path of Some b \<Rightarrow> Inr b | None \<Rightarrow> Inl (NewNotFoundError key)))"

text \<open>
  The upload goes to a fresh file \<open>tmp\<close> in the directory of the blob, which the rename puts in place;
  the deferred removal finds it only when the rename did not happen.
\<close>

definition diskPut :: "goerr go_context \<Rightarrow> string \<Rightarrow> string \<Rightarrow> string \<Rightarrow> uploadBody option \<Rightarrow> (diskState, goerr, unit) stateful" where
  "diskPut ctx rootDir tmp key body d =
    (let path = keyPath rootDir key in
     case bindE (checkCtx ctx 0) (\<lambda>_.
       case body of None \<Rightarrow> Inl (Msg ''nil reader'')
       | Some b \<Rightarrow> bindE (faultE d ''mkdir'' (Dir path)) (\<lambda>_. bindE (faultE d ''createtemp'' tmp) (\<lambda>_. Inr b))) of
       Inl e \<Rightarrow> (Inl e, d)
     | Inr (cs, err) \<Rightarrow>
         let written = (case copyBody ctx 1 cs err of Inl _ \<Rightarrow> concat cs | Inr b \<Rightarrow> b);
             d1 = d \<lparr> df_files := AList.update tmp written (df_files d) \<rparr>;
             removed = d1 \<lparr> df_files := AList.delete tmp (df_files d1) \<rparr> in
         case bindE (copyBody ctx 1 cs err) (\<lambda>b. bindE (faultE d ''close'' tmp) (\<lambda>_. bindE (faultE d ''rename'' path) (\<lambda>_. Inr b))) of
           Inl e \<Rightarrow> (Inl e, removed)
         | Inr b \<Rightarrow> (Inr (), removed \<lparr> df_files := AList.update path b (df_files removed) \<rparr>))"

definition diskExists :: "goerr go_context \<Rightarrow> string \<Rightarrow> string \<Rightarrow> diskState \<Rightarrow> goerr + bool" where
  "diskExists ctx rootDir key d =
    bindE (checkCtx ctx 0) (\<lambda>_.
    bindE (faultE d ''stat'' (keyPath rootDir key)) (\<lambda>_.
    Inr (map_of (df_files d) (keyPath rootDir key) \<noteq> None)))"

definition Base :: "string \<Rightarrow> string" where
  "Base path = last (SplitByte (CHR ''/'') path)"

text \<open>The function that \<open>List\<close> walks the files with; a file that vanished is skipped.\<close>

definition listVisit :: "diskState \<Rightarrow> string \<Rightarrow> string \<Rightarrow> string \<Rightarrow> goerr + string list" where
  "listVisit d rootDir prefix path = bindE (faultE d ''walk'' path) (\<lambda>_.
     if Base path \<noteq> blobFileName then Inr []
     else bindE (keyFromPath rootDir path) (\<lambda>key. Inr (if HasPrefix key prefix then [key] else [])))"

definition diskList :: "goerr go_context \<Rightarrow> string \<Rightarrow> string \<Rightarrow> diskState \<Rightarrow> goerr + string list" where
  "diskList ctx rootDir prefix d =
    bindE (checkCtx ctx 0) (\<lambda>_.
    bindE (mapE (listVisit d rootDir prefix) (map fst (df_files d))) (\<lambda>kss. Inr (concat kss)))"

section \<open>Hexadecimal\<close>

lemma nibble_cases: "unat (x :: byte) < 16 \<Longrightarrow> x \<in> of_nat ` {0..<16}"
  by (intro image_eqI [of _ _ "unat x"]) simp_all

lemma hexNibble_hexDigit: "unat x < 16 \<Longrightarrow> hexNibble (byte_of_char (hexDigit x)) = Some x"
proof -
  assume "unat x < 16"
  then have "x \<in> set (map of_nat [0..<16])"
    using nibble_cases by simp
  moreover have "\<forall>x \<in> set (map of_nat [0..<16]). hexNibble (byte_of_char (hexDigit x)) = Some x"
    by code_simp
  ultimately show ?thesis
    by blast
qed

lemma nibbles: "unat (drop_bit 4 (b :: byte)) < 16" "unat (b AND 0x0f) < 16" "push_bit 4 (drop_bit 4 b) OR (b AND 0x0f) = b"
proof -
  have "unat b < 256"
    using unsigned_less [of b] by simp
  then show "unat (drop_bit 4 b) < 16"
    by (simp add: drop_bit_eq_div unat_div)
  have m: "b AND 0x0f = take_bit 4 b"
    by (simp add: take_bit_eq_mask mask_eq_exp_minus_1)
  show "unat (b AND 0x0f) < 16"
    unfolding m by (simp add: take_bit_eq_mod unat_mod)
  show "push_bit 4 (drop_bit 4 b) OR (b AND 0x0f) = b"
    unfolding m by (rule bit_word_eqI) (auto simp: bit_push_bit_iff bit_drop_bit_eq bit_take_bit_iff bit_or_iff)
qed

lemma length_EncodeToString: "length (EncodeToString bs) = 2 * length bs"
  by (induction bs) (simp_all add: EncodeToString_def)

lemma DecodeString_EncodeToString: "DecodeString (EncodeToString bs) = Some bs"
proof -
  have "hexPairs (length bs) (bytes_of (EncodeToString bs)) = Some bs"
    by (induction bs) (simp_all add: EncodeToString_def bytes_of_def hexNibble_hexDigit nibbles)
  then show ?thesis
    by (simp add: DecodeString_def length_EncodeToString)
qed

definition hexChar :: "char \<Rightarrow> bool" where
  "hexChar c \<longleftrightarrow> c \<in> set ''0123456789abcdef''"

lemma hexDigit_hexChar: "unat x < 16 \<Longrightarrow> hexChar (hexDigit x)"
  unfolding hexChar_def hexDigit_def by (rule nth_mem) simp

lemma EncodeToString_hexChar: "c \<in> set (EncodeToString bs) \<Longrightarrow> hexChar c"
  by (auto simp: EncodeToString_def hexDigit_hexChar nibbles)

section \<open>Keys and paths\<close>

lemma keyChunks_concat: "concat (keyChunks encoded) = encoded"
  by (induction encoded rule: keyChunks.induct) (subst keyChunks.simps, simp)

lemma keyChunks_not_empty: "c \<in> set (keyChunks encoded) \<Longrightarrow> c \<noteq> ''''"
proof (induction encoded rule: keyChunks.induct)
  case (1 encoded)
  then show ?case
    by (subst (asm) (2) keyChunks.simps) (auto simp: keyChunkSize_def split: if_splits)
qed

lemma hexChars_plain: "e \<noteq> '''' \<Longrightarrow> (\<And>c. c \<in> set e \<Longrightarrow> hexChar c) \<Longrightarrow> plainElem e"
  by (cases e) (auto simp: plainElem_def hexChar_def)

lemma keyChunks_plain: "list_all plainElem (keyChunks (EncodeToString bs))"
proof -
  have "plainElem c" if "c \<in> set (keyChunks (EncodeToString bs))" for c
  proof (rule hexChars_plain)
    show "c \<noteq> ''''"
      using that by (rule keyChunks_not_empty)
    have "set c \<subseteq> set (concat (keyChunks (EncodeToString bs)))"
      using that by auto
    then show "hexChar x" if "x \<in> set c" for x
      using that EncodeToString_hexChar [of x bs] unfolding keyChunks_concat by blast
  qed
  then show ?thesis
    by (simp add: list_all_iff)
qed

text \<open>An absolute, clean root directory, given by its elements.\<close>

definition rootPath :: "string list \<Rightarrow> string" where
  "rootPath rs = ''/'' @ Join ''/'' rs"

lemma SplitByte_sep: "SplitByte sep (s @ sep # t) = SplitByte sep s @ SplitByte sep t"
  by (induction s) (auto split: list.splits)

lemma cleanElems_mixed:
  "list_all (\<lambda>e. e = '''' \<or> plainElem e) es \<Longrightarrow> cleanElems rooted out es = rev out @ filter (\<lambda>e. e \<noteq> '''') es"
  by (induction es arbitrary: out) (auto simp: plainElem_def)

lemma Join_Cons: "ps \<noteq> [] \<Longrightarrow> Join sep (p # ps) = p @ sep @ Join sep ps"
  by (cases ps) simp_all

lemma PathJoin_root:
  assumes "list_all plainElem rs" "list_all plainElem ps" "ps \<noteq> []"
  shows "PathJoin (rootPath rs # ps) = rootPath (rs @ ps)"
proof -
  let ?s = "rootPath rs @ ''/'' @ Join ''/'' ps"
  have ps: "\<forall>p \<in> set ps. p \<noteq> ''''" and sl: "list_all (\<lambda>p. CHR ''/'' \<notin> set p) rs" "list_all (\<lambda>p. CHR ''/'' \<notin> set p) ps"
    using assms by (auto simp: list_all_iff plainElem_def)
  then have f: "filter (\<lambda>p. p \<noteq> '''') (rootPath rs # ps) = rootPath rs # ps"
    by (simp add: rootPath_def filter_id_conv)
  have j: "Join ''/'' (rootPath rs # ps) = ?s"
    using assms(3) by (simp add: Join_Cons)
  have rootsplit: "SplitByte (CHR ''/'') (rootPath rs) = '''' # (if rs = [] then [''''] else rs)"
    using sl(1) by (simp add: rootPath_def SplitByte_Join)
  have "SplitByte (CHR ''/'') ?s = '''' # (if rs = [] then [''''] else rs) @ ps"
    using SplitByte_sep [of "CHR ''/''" "rootPath rs" "Join ''/'' ps"] SplitByte_Join [of ps "CHR ''/''"] sl(2) assms(3) rootsplit by simp
  moreover have "list_all (\<lambda>e. e = '''' \<or> plainElem e) ('''' # (if rs = [] then [''''] else rs) @ ps)"
    using assms(1,2) by (auto simp: list_all_iff)
  moreover have "filter (\<lambda>e. e \<noteq> '''') (rs @ ps) = rs @ ps"
    using assms(1,2) by (auto simp: list_all_iff plainElem_def filter_id_conv)
  ultimately have "elems ?s = rs @ ps"
    unfolding elems_def using cleanElems_mixed by (auto split: if_splits)
  moreover have "IsAbs ?s"
    by (simp add: IsAbs_def rootPath_def HasPrefix_def)
  ultimately show ?thesis
    unfolding PathJoin_def f by (simp add: j Clean_def rootPath_def [of "rs @ ps"])
qed

lemma keyPath_root:
  assumes "list_all plainElem rs"
  shows "keyPath (rootPath rs) key = rootPath (rs @ [objectsDir] @ keyChunks (EncodeToString (bytes_of key)) @ [blobFileName])"
proof -
  have "list_all plainElem (objectsDir # keyChunks (EncodeToString (bytes_of key)) @ [blobFileName])"
    using keyChunks_plain [of "bytes_of key"] by (simp add: objectsDir_def blobFileName_def plainElem_def)
  from PathJoin_root [OF assms this] show ?thesis
    by (simp add: keyPath_def)
qed

lemma elems_rootPath: "list_all plainElem es \<Longrightarrow> elems (rootPath es) = es"
  by (simp only: rootPath_def elems_plain)

text \<open>The key is read back from its path.\<close>

lemma Join_empty: "Join '''' ps = concat ps"
  by (induction "[] :: char list" ps rule: Join.induct) simp_all

lemma keyFromPath_keyPath:
  assumes "list_all plainElem rs"
  shows "keyFromPath (rootPath rs) (keyPath (rootPath rs) key) = Inr key"
proof -
  let ?ch = "keyChunks (EncodeToString (bytes_of key))"
  have pl: "list_all plainElem [objectsDir]" "list_all plainElem [blobFileName]"
    by (simp_all add: objectsDir_def blobFileName_def plainElem_def)
  have base: "PathJoin [rootPath rs, objectsDir] = rootPath (rs @ [objectsDir])"
    using PathJoin_root [OF assms pl(1)] by simp
  have abs: "IsAbs (rootPath es)" for es
    by (simp add: IsAbs_def rootPath_def HasPrefix_def)
  have "stripCommon ((rs @ [objectsDir]) @ []) ((rs @ [objectsDir]) @ ?ch @ [blobFileName]) = ([], ?ch @ [blobFileName])"
    unfolding stripCommon_append by simp
  then have "stripCommon (elems (rootPath (rs @ [objectsDir]))) (elems (keyPath (rootPath rs) key)) = ([], ?ch @ [blobFileName])"
    using assms pl keyChunks_plain [of "bytes_of key"] by (simp add: keyPath_root elems_rootPath)
  then have "Rel (PathJoin [rootPath rs, objectsDir]) (keyPath (rootPath rs) key) = Some (Join ''/'' (?ch @ [blobFileName]))"
    unfolding base Rel_def by (simp add: abs split: list.splits)
  moreover have "SplitByte (CHR ''/'') (Join ''/'' (?ch @ [blobFileName])) = ?ch @ [blobFileName]"
    using keyChunks_plain [of "bytes_of key"] pl(2) by (intro SplitByte_Join) (auto simp: list_all_iff plainElem_def)
  ultimately show ?thesis
    by (simp add: keyFromPath_def Join_empty keyChunks_concat DecodeString_EncodeToString)
qed

lemma keyPath_inject:
  assumes "list_all plainElem rs"
  shows "keyPath (rootPath rs) k = keyPath (rootPath rs) k' \<longleftrightarrow> k = k'"
proof
  assume "keyPath (rootPath rs) k = keyPath (rootPath rs) k'"
  then have "(Inr k :: goerr + string) = Inr k'"
    unfolding keyFromPath_keyPath [OF assms, symmetric] by (rule arg_cong)
  then show "k = k'"
    by simp
qed simp

end
