(* ===== verification/StorageProperties.thy ===== *)
theory StorageProperties
  imports BlobStorage
begin

text \<open>
  The contract of the storage interface as a locale: a blob that was stored is returned until its key
  is stored again, a missing blob is reported as not found, and listing a prefix lists the stored keys
  that start with it. Memory and disk both satisfy it, so they answer alike.
\<close>

section \<open>The contract\<close>

locale blob_store =
  fixes get :: "'s \<Rightarrow> string \<Rightarrow> goerr + bytes"
    and put :: "string \<times> bytes list \<Rightarrow> 's \<Rightarrow> 's"
    and list :: "'s \<Rightarrow> string \<Rightarrow> goerr + string list"
    and ok :: "'s \<Rightarrow> bool"
  assumes put_ok: "ok s \<Longrightarrow> ok (put (k, cs) s)"
    and get_put: "ok s \<Longrightarrow> get (put (k, cs) s) k' = (if k' = k then Inr (concat cs) else get s k')"
    and get_missing: "ok s \<Longrightarrow> get s k = Inl e \<Longrightarrow> e = NewNotFoundError k"
    and list_stored: "ok s \<Longrightarrow> \<exists>ks. list s prefix = Inr ks \<and> set ks = {k. HasPrefix k prefix \<and> (\<exists>b. get s k = Inr b)}"
begin

lemma puts_ok: "ok s \<Longrightarrow> ok (fold put ws s)"
  by (induction ws arbitrary: s) (auto simp: put_ok)

lemma get_puts:
  "ok s \<Longrightarrow> get (fold put ws s) k = (case map_of (rev ws) k of Some cs \<Rightarrow> Inr (concat cs) | None \<Rightarrow> get s k)"
proof (induction ws arbitrary: s)
  case (Cons w ws)
  obtain k1 cs where w: "w = (k1, cs)"
    by (cases w)
  show ?case
    using Cons.IH [OF put_ok [OF Cons.prems, of k1 cs]] get_put [OF Cons.prems, of k1 cs k]
    by (simp add: w map_add_def split: option.splits)
qed simp

end

section \<open>Memory\<close>

definition background :: "goerr go_context" where
  "background = (\<lambda>_. None)"

lemma copyBody_background: "copyBody background k cs None = Inr (concat cs)"
  by (induction cs arbitrary: k) (simp_all add: background_def checkCtx_def)


definition memStore :: "string \<times> bytes list \<Rightarrow> memoryStorage \<Rightarrow> memoryStorage" where
  "memStore kc m = snd (memPut background (fst kc) (Some (snd kc, None)) m)"

lemma memStore_eq: "memStore (k, cs) m = m \<lparr> ms_data := AList.update k (concat cs) (ms_data m) \<rparr>"
  by (simp add: memStore_def memPut_def copyBody_background)

interpretation memory: blob_store "\<lambda>m k. memGet k m" memStore "\<lambda>m prefix. Inr (memList prefix m)" "\<lambda>_. True"
proof
  fix m :: memoryStorage and k k' :: string and cs and prefix and e
  show "memGet k' (memStore (k, cs) m) = (if k' = k then Inr (concat cs) else memGet k' m)"
    by (simp add: memGet_def memStore_eq update_conv')
  show "memGet k m = Inl e \<Longrightarrow> e = NewNotFoundError k"
    by (simp add: memGet_def split: option.splits)
  have "k \<in> fst ` set (ms_data m) \<longleftrightarrow> (\<exists>b. memGet k m = Inr b)" for k
    using map_of_eq_None_iff [of "ms_data m" k] by (auto simp: memGet_def split: option.splits)
  then show "\<exists>ks. Inr (memList prefix m) = (Inr ks :: goerr + string list) \<and> set ks = {k. HasPrefix k prefix \<and> (\<exists>b. memGet k m = Inr b)}"
    by (auto simp: memList_def)
qed simp

section \<open>Disk\<close>

text \<open>The directory holds blobs only, and the operating system does not fail.\<close>

definition disk_ok :: "string list \<Rightarrow> diskState \<Rightarrow> bool" where
  "disk_ok rs d \<longleftrightarrow> list_all plainElem rs \<and> (\<forall>operation path. df_faults d operation path = None) \<and>
     (\<forall>path \<in> fst ` set (df_files d). \<exists>key. path = keyPath (rootPath rs) key)"

definition tempName :: "string list \<Rightarrow> string" where
  "tempName rs = rootPath (rs @ [objectsDir, ''.tmp-1''])"

definition diskStore :: "string list \<Rightarrow> string \<times> bytes list \<Rightarrow> diskState \<Rightarrow> diskState" where
  "diskStore rs kc d = snd (diskPut background (rootPath rs) (tempName rs) (fst kc) (Some (snd kc, None)) d)"

lemma Base_keyPath: "list_all plainElem rs \<Longrightarrow> Base (keyPath (rootPath rs) key) = blobFileName"
proof -
  assume rs: "list_all plainElem rs"
  let ?es = "rs @ [objectsDir] @ keyChunks (EncodeToString (bytes_of key)) @ [blobFileName]"
  have "list_all (\<lambda>p. CHR ''/'' \<notin> set p) ?es"
    using rs keyChunks_plain [of "bytes_of key"] by (auto simp: list_all_iff plainElem_def objectsDir_def blobFileName_def)
  then have "SplitByte (CHR ''/'') (Join ''/'' ?es) = ?es"
    by (intro SplitByte_Join) simp_all
  then show ?thesis
    unfolding keyPath_root [OF rs] by (simp add: Base_def rootPath_def)
qed

lemma tempName_not_key: "list_all plainElem rs \<Longrightarrow> tempName rs \<noteq> keyPath (rootPath rs) key"
proof
  assume rs: "list_all plainElem rs" and eq: "tempName rs = keyPath (rootPath rs) key"
  let ?ch = "keyChunks (EncodeToString (bytes_of key))"
  have "list_all plainElem (rs @ [objectsDir, ''.tmp-1''])" "list_all plainElem (rs @ [objectsDir] @ ?ch @ [blobFileName])"
    using rs keyChunks_plain [of "bytes_of key"] by (simp_all add: objectsDir_def blobFileName_def plainElem_def)
  then have "rs @ [objectsDir, ''.tmp-1''] = rs @ [objectsDir] @ ?ch @ [blobFileName]"
    using eq unfolding tempName_def keyPath_root [OF rs] by (metis elems_rootPath)
  then have "[''.tmp-1''] = ?ch @ [blobFileName]"
    by simp
  then have "last [''.tmp-1''] = blobFileName"
    by (metis last_snoc)
  then show False
    by (simp add: blobFileName_def)
qed

lemma delete_update_fresh: "k \<notin> fst ` set m \<Longrightarrow> AList.delete k (AList.update k v m) = m"
  by (induction m) auto

lemma diskStore_eq:
  assumes "disk_ok rs d"
  shows "diskStore rs (k, cs) d = d \<lparr> df_files := AList.update (keyPath (rootPath rs) k) (concat cs) (df_files d) \<rparr>"
proof -
  have "tempName rs \<notin> fst ` set (df_files d)"
    using assms tempName_not_key by (auto simp: disk_ok_def)
  then have "AList.delete (tempName rs) (AList.update (tempName rs) (concat cs) (df_files d)) = df_files d"
    by (rule delete_update_fresh)
  moreover have "faultE d operation path = Inr ()" for operation path
    using assms by (simp add: disk_ok_def faultE_def)
  moreover have "checkCtx background 0 = Inr ()"
    by (simp add: background_def checkCtx_def)
  ultimately show ?thesis
    by (simp add: diskStore_def diskPut_def copyBody_background Let_def)
qed

lemma diskGet_ok:
  "disk_ok rs d \<Longrightarrow> diskGet background (rootPath rs) k d =
    (case map_of (df_files d) (keyPath (rootPath rs) k) of Some b \<Rightarrow> Inr b | None \<Rightarrow> Inl (NewNotFoundError k))"
  by (simp add: diskGet_def background_def checkCtx_def faultE_def disk_ok_def Let_def)

lemma diskList_ok:
  assumes "disk_ok rs d"
  shows "\<exists>ks. diskList background (rootPath rs) prefix d = Inr ks \<and>
    set ks = {k. HasPrefix k prefix \<and> keyPath (rootPath rs) k \<in> fst ` set (df_files d)}"
proof -
  have rs: "list_all plainElem rs" and f: "faultE d operation path = Inr ()" for operation path
    using assms by (simp_all add: disk_ok_def faultE_def)
  have "\<exists>ks. mapE (listVisit d (rootPath rs) prefix) paths = Inr ks \<and>
      set (concat ks) = {k. HasPrefix k prefix \<and> keyPath (rootPath rs) k \<in> set paths}"
    if "\<forall>path \<in> set paths. \<exists>key. path = keyPath (rootPath rs) key" for paths
    using that
  proof (induction paths)
    case (Cons path paths)
    then obtain key ks where k: "path = keyPath (rootPath rs) key" and ks: "mapE (listVisit d (rootPath rs) prefix) paths = Inr ks"
        "set (concat ks) = {k. HasPrefix k prefix \<and> keyPath (rootPath rs) k \<in> set paths}"
      by auto
    have "listVisit d (rootPath rs) prefix path = Inr (if HasPrefix key prefix then [key] else [])"
      by (simp add: listVisit_def f k Base_keyPath [OF rs] keyFromPath_keyPath [OF rs])
    then show ?case
      using ks by (auto simp: k keyPath_inject [OF rs])
  qed simp
  from this [of "map fst (df_files d)"] show ?thesis
    using assms by (auto simp: diskList_def background_def checkCtx_def disk_ok_def)
qed

interpretation diskStorage: blob_store "\<lambda>d k. diskGet background (rootPath rs) k d" "diskStore rs"
  "\<lambda>d prefix. diskList background (rootPath rs) prefix d" "disk_ok rs" for rs
proof
  fix d :: diskState and k k' :: string and cs and prefix and e
  assume ok: "disk_ok rs d"
  have rs: "list_all plainElem rs"
    using ok by (simp add: disk_ok_def)
  show ok': "disk_ok rs (diskStore rs (k, cs) d)"
    using ok by (auto simp: diskStore_eq [OF ok] disk_ok_def dom_update)
  show "diskGet background (rootPath rs) k' (diskStore rs (k, cs) d) =
      (if k' = k then Inr (concat cs) else diskGet background (rootPath rs) k' d)"
    unfolding diskGet_ok [OF ok'] diskGet_ok [OF ok] by (simp add: diskStore_eq [OF ok] update_conv' keyPath_inject [OF rs])
  show "diskGet background (rootPath rs) k d = Inl e \<Longrightarrow> e = NewNotFoundError k"
    unfolding diskGet_ok [OF ok] by (simp split: option.splits)
  have "keyPath (rootPath rs) k \<in> fst ` set (df_files d) \<longleftrightarrow> (\<exists>b. diskGet background (rootPath rs) k d = Inr b)" for k
    using map_of_eq_None_iff [of "df_files d" "keyPath (rootPath rs) k"] unfolding diskGet_ok [OF ok] by (auto split: option.splits)
  then show "\<exists>ks. diskList background (rootPath rs) prefix d = Inr ks \<and>
      set ks = {k. HasPrefix k prefix \<and> (\<exists>b. diskGet background (rootPath rs) k d = Inr b)}"
    using diskList_ok [OF ok, of prefix] by auto
qed

section \<open>Results\<close>

text \<open>C12: disk storage refines memory storage. After any sequence of uploads into an empty directory,
  whose keys may be any strings (slashes, dots, empty), and into a new memory storage, the two answer
  every download alike, with the last blob stored under the key or the not-found error, and list the
  same keys under every prefix.\<close>

theorem disk_refines_memory:
  assumes "list_all plainElem rs" "\<And>operation path. df_faults d operation path = None" "df_files d = []"
  shows "diskGet background (rootPath rs) k (fold (diskStore rs) ws d) = memGet k (fold memStore ws NewMemoryStorage) \<and>
    (\<exists>ks. diskList background (rootPath rs) prefix (fold (diskStore rs) ws d) = Inr ks \<and>
      set ks = set (memList prefix (fold memStore ws NewMemoryStorage)))"
proof -
  let ?d = "fold (diskStore rs) ws d" and ?m = "fold memStore ws NewMemoryStorage"
  have ok: "disk_ok rs d"
    using assms by (simp add: disk_ok_def)
  have same: "diskGet background (rootPath rs) k ?d = memGet k ?m" for k
    unfolding diskStorage.get_puts [OF ok] memory.get_puts [OF TrueI] diskGet_ok [OF ok]
    by (simp add: assms(3) memGet_def NewMemoryStorage_def split: option.split)
  obtain ks where ks: "diskList background (rootPath rs) prefix ?d = Inr ks"
      "set ks = {k. HasPrefix k prefix \<and> (\<exists>b. diskGet background (rootPath rs) k ?d = Inr b)}"
    using diskStorage.list_stored [OF diskStorage.puts_ok [OF ok]] by blast
  moreover have "set (memList prefix ?m) = {k. HasPrefix k prefix \<and> (\<exists>b. memGet k ?m = Inr b)}"
    using memory.list_stored [OF TrueI, of prefix ?m] by auto
  ultimately show ?thesis
    by (simp add: same)
qed

definition emptyDisk :: diskState where
  "emptyDisk = \<lparr> df_files = [], df_faults = (\<lambda>_ _. None) \<rparr>"

theorem disk_refines_memory_witness:
  "diskGet background (rootPath [''data'']) ''../a'' (fold (diskStore [''data'']) [(''../a'', [[1], [2]]), ('''', [[3]])] emptyDisk) = Inr [1, 2]"
proof -
  have "memGet ''../a'' (fold memStore [(''../a'', [[1], [2]]), ('''', [[3]])] NewMemoryStorage) = Inr [1, 2]"
    by (simp add: memStore_eq memGet_def NewMemoryStorage_def)
  then show ?thesis
    using disk_refines_memory [of "[''data'']" emptyDisk "''../a''" "[(''../a'', [[1], [2]]), ('''', [[3]])]" "''''"]
    by (simp add: emptyDisk_def plainElem_def)
qed



end
