(* ===== verification/CacheKey.thy ===== *)
theory CacheKey
  imports Entity TgbEncode GoStrings "HOL-Library.Multiset" BlobStorage
begin

text \<open>
  \<open>core/cachekey\<close> and \<open>internal/url\<close>: the storage keys. Lists of strings enter a key as the MD5 digest
  of their framed concatenation; \<open>md5\<close> is a parameter. Two keys of graphs are equal only for the same
  repository, tree and strategy and the same exclusion patterns up to order, unless two different
  framed lists have the same digest.
\<close>

section \<open>Framing\<close>

definition writeFramedString :: "string \<Rightarrow> bytes" where
  "writeFramedString value = bytes_of (decimal (length value)) @ bytes_of '':'' @ bytes_of value"

definition framed :: "string list \<Rightarrow> bytes" where
  "framed strs = concat (map writeFramedString strs)"

section \<open>Keys\<close>

definition ToShortRemote :: "string \<Rightarrow> string" where
  "ToShortRemote remote = last (SplitByte (CHR '':'') remote)"

definition GetReqURLsHash :: "(bytes \<Rightarrow> bytes) \<Rightarrow> string list \<Rightarrow> string" where
  "GetReqURLsHash md5 requests = (if requests = [] then '''' else EncodeToString (md5 (framed requests)))"

definition hashExcludeFilesRegex :: "(bytes \<Rightarrow> bytes) \<Rightarrow> string list \<Rightarrow> string" where
  "hashExcludeFilesRegex md5 excludeFilesRegex =
    (if excludeFilesRegex = [] then '''' else EncodeToString (md5 (framed (sort excludeFilesRegex))))"

definition requestOptions :: "(bytes \<Rightarrow> bytes) \<Rightarrow> string list \<Rightarrow> string" where
  "requestOptions md5 excludeFilesRegex = (let hash = hashExcludeFilesRegex md5 excludeFilesRegex in
     if hash \<noteq> '''' then ''_requests-options-'' @ hash else '''')"

definition GetTGBGraphByTreeHash :: "(bytes \<Rightarrow> bytes) \<Rightarrow> string \<Rightarrow> string \<Rightarrow> ComputationStrategy \<Rightarrow> string list \<Rightarrow> string" where
  "GetTGBGraphByTreeHash md5 repositoryID treehash strategy excludeFilesRegex =
    PathJoin [repositoryID, ''graphs'', treehash, ComputationStrategy_String strategy @ ''-tgb''] @ requestOptions md5 excludeFilesRegex"

definition GetTreehashCachePath :: "(bytes \<Rightarrow> bytes) \<Rightarrow> string \<Rightarrow> BuildDescription \<Rightarrow> string" where
  "GetTreehashCachePath md5 repositoryID buildDescription =
    PathJoin [repositoryID, ''treehashes'', ''base-sha-'' @ bd_BaseSha buildDescription] @
    (if bd_ChangeRequests buildDescription \<noteq> [] then ''_request-urls-'' @ GetReqURLsHash md5 (bd_ChangeRequests buildDescription) else '''')"

definition GetComparedTargetsCachePath :: "(bytes \<Rightarrow> bytes) \<Rightarrow> string \<Rightarrow> string \<Rightarrow> string \<Rightarrow> string list \<Rightarrow> string" where
  "GetComparedTargetsCachePath md5 repositoryID treehash1 treehash2 excludeFilesRegex =
    PathJoin [repositoryID, ''compared-targets'', treehash1 @ ''_'' @ treehash2] @ requestOptions md5 excludeFilesRegex"

section \<open>Framing is injective\<close>

definition digit :: "char \<Rightarrow> bool" where
  "digit c \<longleftrightarrow> c \<in> set ''0123456789''"

lemma digit_char_of: "n < 10 \<Longrightarrow> digit (char_of (48 + n :: nat))"
proof -
  assume "n < 10"
  then have "n \<in> set [0..<10]"
    by simp
  moreover have "\<forall>n \<in> set [0..<10]. digit (char_of (48 + n :: nat))"
    by code_simp
  ultimately show ?thesis
    by blast
qed

lemma decimal_digits: "c \<in> set (decimal n) \<Longrightarrow> digit c"
proof (induction n rule: decimal.induct)
  case (1 n)
  show ?case
  proof (cases "n < 10")
    case True
    then show ?thesis
      using "1.prems" decimal.simps [of n] by (simp add: digit_char_of)
  next
    case False
    then have "c \<in> set (decimal (n div 10)) \<or> c = char_of (48 + n mod 10)"
      using "1.prems" decimal.simps [of n] by auto
    then show ?thesis
      using "1.IH" [OF False] digit_char_of [of "n mod 10"] by auto
  qed
qed

definition decValue :: "string \<Rightarrow> nat" where
  "decValue s = foldl (\<lambda>acc c. 10 * acc + (of_char c - 48)) 0 s"

lemma decValue_decimal: "decValue (decimal n) = n"
proof (induction n rule: decimal.induct)
  case (1 n)
  show ?case
  proof (cases "n < 10")
    case True
    then show ?thesis
      by (subst decimal.simps) (simp add: decValue_def)
  next
    case False
    then show ?thesis
      using "1.IH" by (subst decimal.simps) (simp add: decValue_def)
  qed
qed

lemma decimal_inject: "decimal m = decimal n \<longleftrightarrow> m = n"
  by (metis decValue_decimal)

lemma until_colon:
  assumes "s @ '':'' @ t = s' @ '':'' @ t'" "\<And>c. c \<in> set s \<Longrightarrow> digit c" "\<And>c. c \<in> set s' \<Longrightarrow> digit c"
  shows "s = s' \<and> t = t'"
proof -
  have "takeWhile (\<lambda>c. c \<noteq> CHR '':'') (u @ '':'' @ v) = u" if "\<And>c. c \<in> set u \<Longrightarrow> digit c" for u v
    using that by (subst takeWhile_append2) (auto simp: digit_def)
  then have "s = s'"
    using assms by metis
  then show ?thesis
    using assms(1) by simp
qed

definition frameString :: "string \<Rightarrow> string" where
  "frameString value = decimal (length value) @ '':'' @ value"

lemma framed_bytes: "framed strs = bytes_of (concat (map frameString strs))"
  by (induction strs) (simp_all add: framed_def writeFramedString_def frameString_def flip: bytes_of_append)

lemma decimal_not_Nil: "decimal n \<noteq> []"
  by (subst decimal.simps) simp

lemma framed_inject: "framed xs = framed ys \<longleftrightarrow> xs = ys"
proof
  assume "framed xs = framed ys"
  then have "concat (map frameString xs) = concat (map frameString ys)"
    by (simp add: framed_bytes)
  then show "xs = ys"
  proof (induction xs arbitrary: ys)
    case Nil
    then show ?case
      by (cases ys) (simp_all add: frameString_def)
  next
    case (Cons x xs)
    then obtain y ys' where ys: "ys = y # ys'"
      by (cases ys) (simp_all add: frameString_def)
    have "decimal (length x) @ '':'' @ (x @ concat (map frameString xs)) = decimal (length y) @ '':'' @ (y @ concat (map frameString ys'))"
      using Cons.prems by (simp add: ys frameString_def [of x] frameString_def [of y])
    from until_colon [OF this decimal_digits decimal_digits]
    have len: "length x = length y" and rest: "x @ concat (map frameString xs) = y @ concat (map frameString ys')"
      by (simp_all add: decimal_inject)
    then have "x = y" "concat (map frameString xs) = concat (map frameString ys')"
      using append_eq_append_conv [of x y] by blast+
    then show ?case
      using Cons.IH [of ys'] by (simp add: ys)
  qed
qed simp

section \<open>Keys are separate\<close>

lemma Join_relative:
  assumes "list_all plainElem es" "es \<noteq> []"
  shows "Clean (Join ''/'' es) = Join ''/'' es" "SplitByte (CHR ''/'') (Join ''/'' es) = es"
proof -
  have sl: "list_all (\<lambda>p. CHR ''/'' \<notin> set p) es"
    using assms(1) by (auto simp: list_all_iff plainElem_def)
  then show sp: "SplitByte (CHR ''/'') (Join ''/'' es) = es"
    using assms(2) by (simp add: SplitByte_Join)
  obtain e es' where es: "es = e # es'"
    using assms(2) by (cases es) auto
  obtain c cs where e: "e = c # cs" "c \<noteq> CHR ''/''"
    using assms(1) by (cases e) (auto simp: es plainElem_def)
  have "\<not> IsAbs (Join ''/'' es)"
    by (cases es') (simp_all add: es e IsAbs_def HasPrefix_def)
  then show "Clean (Join ''/'' es) = Join ''/'' es"
    using assms by (simp add: Clean_def elems_def sp cleanElems_plain)
qed

lemma PathJoin_relative:
  assumes "list_all plainElem es" "es \<noteq> []" "list_all plainElem ps" "ps \<noteq> []"
  shows "PathJoin (Join ''/'' es # ps) = Join ''/'' (es @ ps)"
proof -
  have join: "Join ''/'' (Join ''/'' es # ps) = Join ''/'' (es @ ps)"
    using assms(2,4)
  proof (induction es)
    case (Cons a es)
    then show ?case
      by (cases "es = []") (simp_all add: Join_Cons)
  qed simp
  have "Join ''/'' es \<noteq> ''''"
    using Join_relative(2) [OF assms(1,2)] assms(1,2) by (cases es) (auto simp: plainElem_def)
  then have "filter (\<lambda>p. p \<noteq> '''') (Join ''/'' es # ps) = Join ''/'' es # ps"
    using assms(3) by (simp add: filter_id_conv list_all_iff plainElem_def)
  then show ?thesis
    using assms Join_relative(1) [of "es @ ps"] unfolding PathJoin_def by (simp add: join)
qed

lemma requestOptions_inject:
  assumes "requestOptions md5 r = requestOptions md5 r'" "\<And>b. md5 b \<noteq> []"
  shows "mset r = mset r' \<or> framed (sort r) \<noteq> framed (sort r') \<and> md5 (framed (sort r)) = md5 (framed (sort r'))"
proof -
  have ne: "EncodeToString (md5 b) \<noteq> ''''" for b
    using length_EncodeToString [of "md5 b"] assms(2) [of b] by auto
  show ?thesis
  proof (cases "r = [] \<or> r' = []")
    case True
    then have "r = [] \<and> r' = []"
      using assms(1) by (auto simp: requestOptions_def hashExcludeFilesRegex_def Let_def ne split: if_splits)
    then show ?thesis
      by simp
  next
    case False
    then have "EncodeToString (md5 (framed (sort r))) = EncodeToString (md5 (framed (sort r')))"
      using assms(1) by (simp add: requestOptions_def hashExcludeFilesRegex_def Let_def ne)
    then have "md5 (framed (sort r)) = md5 (framed (sort r'))"
      by (metis DecodeString_EncodeToString option.inject)
    moreover have "framed (sort r) = framed (sort r') \<Longrightarrow> mset r = mset r'"
      by (metis framed_inject mset_sort)
    ultimately show ?thesis
      by blast
  qed
qed

lemma strategy_inject:
  assumes "ComputationStrategy_String s @ ''-tgb'' @ requestOptions md5 r = ComputationStrategy_String s' @ ''-tgb'' @ requestOptions md5 r'"
  shows "s = s'" "requestOptions md5 r = requestOptions md5 r'"
  using assms by (cases s; cases s'; simp)+

lemma requestOptions_slashes: "CHR ''/'' \<notin> set (requestOptions md5 r)"
proof -
  have "CHR ''/'' \<notin> set (EncodeToString b)" for b
    using EncodeToString_hexChar [of "CHR ''/''" b] by (auto simp: hexChar_def)
  then show ?thesis
    by (auto simp: requestOptions_def hashExcludeFilesRegex_def Let_def)
qed

lemma Join_snoc_append: "Join sep (es @ [e]) @ s = Join sep (es @ [e @ s])"
proof (induction es)
  case (Cons a es)
  then show ?case
    by (simp add: Join_Cons)
qed simp

lemma graphKey_Join:
  assumes "list_all plainElem rs" "rs \<noteq> []" "plainElem th"
  shows "GetTGBGraphByTreeHash md5 (Join ''/'' rs) th s r =
    Join ''/'' (rs @ [''graphs'', th, ComputationStrategy_String s @ ''-tgb'' @ requestOptions md5 r])"
proof -
  have "list_all plainElem [''graphs'', th, ComputationStrategy_String s @ ''-tgb'']"
    using assms(3) by (cases s) (auto simp: plainElem_def)
  from PathJoin_relative [OF assms(1,2) this] show ?thesis
    using Join_snoc_append [of "''/''" "rs @ [''graphs'', th]" "ComputationStrategy_String s @ ''-tgb''" "requestOptions md5 r"]
    by (simp add: GetTGBGraphByTreeHash_def)
qed

lemma append_three: "xs @ [a, b, c] = ys @ [a', b', c'] \<longleftrightarrow> xs = ys \<and> a = a' \<and> b = b' \<and> c = c'"
  using append_eq_append_conv [of "[a, b, c]" "[a', b', c']" xs ys] by auto

lemma graphKey_inject:
  assumes "list_all plainElem rs" "rs \<noteq> []" "plainElem th" "list_all plainElem rs'" "rs' \<noteq> []" "plainElem th'"
    and "GetTGBGraphByTreeHash md5 (Join ''/'' rs) th s r = GetTGBGraphByTreeHash md5 (Join ''/'' rs') th' s' r'"
  shows "rs = rs' \<and> th = th' \<and> s = s' \<and> requestOptions md5 r = requestOptions md5 r'"
proof -
  let ?es = "\<lambda>rs th s r. rs @ [''graphs'', th, ComputationStrategy_String s @ ''-tgb'' @ requestOptions md5 r]"
  have plain: "list_all (\<lambda>p. CHR ''/'' \<notin> set p) (?es rs th s r)"
    if "list_all plainElem rs" "plainElem th" for rs th s r
    using that requestOptions_slashes [of md5 r] by (cases s) (auto simp: list_all_iff plainElem_def)
  have sp: "SplitByte (CHR ''/'') (Join ''/'' (?es rs th s r)) = ?es rs th s r" if "list_all plainElem rs" "plainElem th" for rs th s r
    using plain [OF that] by (intro SplitByte_Join) simp_all
  have "SplitByte (CHR ''/'') (Join ''/'' (?es rs th s r)) = SplitByte (CHR ''/'') (Join ''/'' (?es rs' th' s' r'))"
    using assms(7) unfolding graphKey_Join [OF assms(1-3)] graphKey_Join [OF assms(4-6)] by (rule arg_cong)
  then have eq: "rs = rs'" "th = th'"
      "ComputationStrategy_String s @ ''-tgb'' @ requestOptions md5 r = ComputationStrategy_String s' @ ''-tgb'' @ requestOptions md5 r'"
    unfolding sp [OF assms(1,3)] sp [OF assms(4,6)] append_three by (simp_all only:)
  then show ?thesis
    using strategy_inject [OF eq(3)] by simp
qed

text \<open>C15: graphs are never confused in the cache. When the keys of two stored graphs are equal, they
  are for the same repository, the same tree and the same strategy, and for the same exclusion
  patterns in any order; otherwise two different framed pattern lists have the same MD5 digest. The
  framing itself is injective, so no choice of patterns forges another list.\<close>

theorem graph_keys_separate:
  assumes "list_all plainElem rs" "rs \<noteq> []" "plainElem th" "list_all plainElem rs'" "rs' \<noteq> []" "plainElem th'"
    and "\<And>b. md5 b \<noteq> []"
    and "GetTGBGraphByTreeHash md5 (Join ''/'' rs) th s r = GetTGBGraphByTreeHash md5 (Join ''/'' rs') th' s' r'"
  shows "rs = rs' \<and> th = th' \<and> s = s' \<and>
    (mset r = mset r' \<or> framed (sort r) \<noteq> framed (sort r') \<and> md5 (framed (sort r)) = md5 (framed (sort r')))"
  using graphKey_inject [OF assms(1-6,8)] requestOptions_inject [of md5 r r'] assms(7) by blast

theorem graph_keys_separate_witness:
  "mset [''b'', ''a''] = mset [''a'', ''b''] \<or>
   framed (sort [''b'', ''a'']) \<noteq> framed (sort [''a'', ''b'']) \<and> 1 # framed (sort [''b'', ''a'']) = 1 # framed (sort [''a'', ''b''])"
proof -
  have "GetTGBGraphByTreeHash (\<lambda>b. 1 # b) (Join ''/'' [''uber'', ''tango'']) ''t1'' ComputationStrategyShell [''b'', ''a''] =
      GetTGBGraphByTreeHash (\<lambda>b. 1 # b) (Join ''/'' [''uber'', ''tango'']) ''t1'' ComputationStrategyShell [''a'', ''b'']"
    by code_simp
  from graph_keys_separate [OF _ _ _ _ _ _ _ this] show ?thesis
    by (simp add: plainElem_def)
qed

end
