(* ===== verification/Controller.thy ===== *)
theory Controller
  imports Handler Responses CacheKey TgbDecode
begin

text \<open>
  \<open>controller/gettargetgraph.go\<close>, \<open>controller/getchangedtargets.go\<close> and \<open>core/storage/tgbgraph.go\<close>: where a
  graph comes from (the cache or the orchestrator), how the two graphs of a comparison are fetched and
  compared, and what the cache of results does.

  The storage is what a download of a key returns: an error, or a body that may fail while it is read.
  \<open>zd\<close> is the zstd decompressor, \<open>md5\<close> the digest, \<open>gob\<close> the gob decoder of a stream of responses. A
  request context is a sequence of polls per phase of the request; results that arrive from the two
  goroutines of a pair are a list in the order of their arrival. When one fetch fails its sibling is
  cancelled and may report another error; that outcome is dropped by \<open>fetchTargetGraphs\<close>, so
  \<open>computeChangedTargets\<close> gives both their uncancelled ones. Closing a download does not fail. Logging
  and metrics are left out.
\<close>

type_synonym requestCtx = "nat \<Rightarrow> goerr go_context"
type_synonym download = "string \<Rightarrow> goerr + (goerr + bytes)"
type_synonym decompressor = "nat \<Rightarrow> bytes \<Rightarrow> bytes option"

section \<open>Stored graphs\<close>

fun tgbErr :: "tgb_error \<Rightarrow> goerr" where
  "tgbErr (Err s) = Msg s"
| "tgbErr Panic = PanicValue"

record TGBGraphReader =
  tr_r :: Reader
  tr_maxBytes :: nat
  tr_chunks :: "GetTargetGraphResponse list"
  tr_built :: bool
  tr_next :: nat

definition NewTGBGraphReader :: "download \<Rightarrow> string \<Rightarrow> nat \<Rightarrow> goerr + TGBGraphReader" where
  "NewTGBGraphReader get key maxBytes =
    bindE (get key) (\<lambda>body.
    bindE (mapErrE (wrap (''read TGB blob at %q: '')) body) (\<lambda>data.
    case NewReader data of
      Inl e \<Rightarrow> Inl (Wrapped ''open TGB blob at %q: '' [tgbErr e, ErrCorruptTGB])
    | Inr r \<Rightarrow> Inr \<lparr> tr_r = r, tr_maxBytes = maxBytes, tr_chunks = [], tr_built = False, tr_next = 0 \<rparr>))"

definition buildChunks :: "nat \<Rightarrow> Graph \<Rightarrow> goerr + GetTargetGraphResponse list" where
  "buildChunks maxBytes graph =
    bindE (mapErrE Msg (SplitBySize OptimizedTarget_Size (g_Targets graph) maxBytes)) (\<lambda>targetGroups.
    bindE (mapErrE Msg (SplitMetadata (md_TargetIDMapping (g_Metadata graph)) (md_RuleTypeMapping (g_Metadata graph))
      (md_TagMapping (g_Metadata graph)) (md_AttributeNameMapping (g_Metadata graph))
      (md_AttributeStringValueMapping (g_Metadata graph)) maxBytes)) (\<lambda>metaGroups.
    Inr (map (\<lambda>g. \<lparr> gr_Targets = g, gr_Metadata = None \<rparr>) targetGroups @
         map (\<lambda>m. \<lparr> gr_Targets = [], gr_Metadata = Some m \<rparr>) metaGroups)))"

definition tgbBuild :: "decompressor \<Rightarrow> (TGBGraphReader, goerr, unit) stateful" where
  "tgbBuild zd g = (case DecodeGraph zd (tr_r g) of (res, r) \<Rightarrow>
     (case bindE (mapErrE (\<lambda>e. wrap ''decode TGB graph: '' (tgbErr e)) res) (buildChunks (tr_maxBytes g)) of
        Inl e \<Rightarrow> (Inl e, g \<lparr> tr_r := r \<rparr>)
      | Inr chunks \<Rightarrow> (Inr (), g \<lparr> tr_r := r, tr_chunks := chunks, tr_built := True \<rparr>)))"

definition tgbNext :: "(TGBGraphReader, goerr, GetTargetGraphResponse) stateful" where
  "tgbNext g = (if length (tr_chunks g) \<le> tr_next g then (Inl EOF, g)
     else (Inr (tr_chunks g ! tr_next g), g \<lparr> tr_next := tr_next g + 1 \<rparr>))"

definition tgbRead :: "decompressor \<Rightarrow> (TGBGraphReader, goerr, GetTargetGraphResponse) stateful" where
  "tgbRead zd = (\<lambda>g. if \<not> tr_built g then bindS (tgbBuild zd) (\<lambda>_. tgbNext) g else tgbNext g)"

definition tgbClose :: "TGBGraphReader \<Rightarrow> TGBGraphReader" where
  "tgbClose g = g \<lparr> tr_chunks := [] \<rparr>"

section \<open>Fetched graphs\<close>

record fetchedGraph =
  fg_tgb :: "TGBGraphReader option"
  fg_chunks :: "GetTargetGraphResponse list"

lemma tgbRead_progress:
  assumes "tgbRead zd g = (Inr chunk, g')"
  shows "tr_built g' \<and> (tr_built g \<longrightarrow> length (tr_chunks g') - tr_next g' < length (tr_chunks g) - tr_next g)"
  using assms
  by (auto simp: tgbRead_def bindS_def tgbBuild_def tgbNext_def split: if_splits prod.splits sum.splits)

function drainTGB :: "decompressor \<Rightarrow> TGBGraphReader \<Rightarrow> GetTargetGraphResponse list \<Rightarrow> goerr + GetTargetGraphResponse list" where
  "drainTGB zd g chunks = (case tgbRead zd g of
     (Inl err, g') \<Rightarrow> if err = EOF then Inr chunks else Inl err
   | (Inr chunk, g') \<Rightarrow> drainTGB zd g' (chunks @ [chunk]))"
  by pat_completeness auto

termination drainTGB
proof (relation "measures [\<lambda>(zd, g, chunks). if tr_built g then 0 else 1, \<lambda>(zd, g, chunks). length (tr_chunks g) - tr_next g]")
  fix zd g chunks chunk g' and res :: "(goerr + GetTargetGraphResponse) \<times> TGBGraphReader"
  fix a b
  assume "(a, b) = tgbRead zd g" "a = Inr chunk"
  then show "((zd, b, chunks @ [chunk]), zd, g, chunks)
      \<in> measures [\<lambda>(zd, g, chunks). if tr_built g then 0 else 1, \<lambda>(zd, g, chunks). length (tr_chunks g) - tr_next g]"
    using tgbRead_progress [of zd g chunk b] by auto
qed simp

definition materializeChunks :: "decompressor \<Rightarrow> fetchedGraph \<Rightarrow> goerr + GetTargetGraphResponse list" where
  "materializeChunks zd f = (case fg_tgb f of None \<Rightarrow> Inr (fg_chunks f) | Some g \<Rightarrow> drainTGB zd g [])"

section \<open>Getting a graph\<close>

datatype graphReader = TGBStream TGBGraphReader | ChunkStream graphStream

record controllerEnv =
  ce_get :: download
  ce_orchestrator :: "GetTargetGraphRequest \<Rightarrow> goerr + graphReader option"
  ce_md5 :: "bytes \<Rightarrow> bytes"
  ce_zd :: decompressor
  ce_gob :: "bytes \<Rightarrow> GetChangedTargetsResponse list \<times> goerr option"
  ce_maxMessageBytes :: nat

definition readCachedGraph :: "controllerEnv \<Rightarrow> string \<Rightarrow> string \<Rightarrow> ComputationStrategy \<Rightarrow> string list \<Rightarrow> goerr + TGBGraphReader" where
  "readCachedGraph env repositoryID treehash strategy excludeFilesRegex =
    NewTGBGraphReader (ce_get env) (GetTGBGraphByTreeHash (ce_md5 env) repositoryID treehash strategy excludeFilesRegex)
      (ce_maxMessageBytes env)"

text \<open>\<open>if ctx.Err() != nil { err = context.Cause(ctx) }\<close>: a cancelled context replaces the outcome.\<close>

definition unlessCancelled :: "goerr go_context \<Rightarrow> goerr + 'a \<Rightarrow> goerr + 'a" where
  "unlessCancelled ctx m = (case ctx 0 of Some cause \<Rightarrow> Inl cause | None \<Rightarrow> m)"

text \<open>The lookup in the cache: \<open>Inr None\<close> is a miss.\<close>

definition cachedGraph :: "controllerEnv \<Rightarrow> requestCtx \<Rightarrow> GetTargetGraphRequest \<Rightarrow> string \<Rightarrow> goerr + graphReader option" where
  "cachedGraph env ctx req repositoryID =
    (case ce_get env (GetTreehashCachePath (ce_md5 env) repositoryID (tgr_Build req)) of
       Inl e \<Rightarrow> if IsNotFound e then Inr None else Inl (wrap ''get treehash: '' e)
     | Inr body \<Rightarrow>
         bindE (mapErrE (wrap ''read treehash: '') body) (\<lambda>treehashBytes.
         case unlessCancelled (ctx 0) (readCachedGraph env repositoryID (string_of treehashBytes)
           (bd_Strategy (tgr_Build req)) (tgr_ExcludeFilesRegex req)) of
           Inl e \<Rightarrow> if IsNotFound e then Inr None else Inl (wrap ''graph reader: '' e)
         | Inr g \<Rightarrow> Inr (Some (TGBStream g))))"

definition computeGraph :: "controllerEnv \<Rightarrow> requestCtx \<Rightarrow> GetTargetGraphRequest \<Rightarrow> goerr + graphReader option" where
  "computeGraph env ctx req = (case ce_orchestrator env req of
     Inl e \<Rightarrow> Inl (wrap ''get target graph: '' (case ctx 1 0 of Some cause \<Rightarrow> cause | None \<Rightarrow> e))
   | Inr g \<Rightarrow> Inr g)"

definition getGraph :: "controllerEnv \<Rightarrow> requestCtx \<Rightarrow> GetTargetGraphRequest \<Rightarrow> string \<Rightarrow> goerr + graphReader option" where
  "getGraph env ctx req repositoryID =
    (if tgr_BypassCache req then computeGraph env ctx req
     else bindE (cachedGraph env ctx req repositoryID) (\<lambda>hit.
       case hit of Some g \<Rightarrow> Inr (Some g) | None \<Rightarrow> computeGraph env ctx req))"

section \<open>Fetching two graphs\<close>

record job =
  jb_graph :: fetchedGraph
  jb_err :: "goerr option"
  jb_cancelled :: bool
  jb_completed :: bool

record graphResult =
  gs_order :: nat
  gs_graph :: fetchedGraph
  gs_err :: "goerr option"

definition noGraph :: fetchedGraph where
  "noGraph = \<lparr> fg_tgb = None, fg_chunks = [] \<rparr>"

text \<open>What the goroutine of one revision reports; a panic is recovered.\<close>

definition fetchGraph :: "nat \<Rightarrow> goerr + graphReader option \<Rightarrow> graphResult" where
  "fetchGraph i outcome = (case outcome of
     Inl e \<Rightarrow> \<lparr> gs_order = i, gs_graph = noGraph,
       gs_err = Some (if e = PanicValue then Msg ''panic in graph fetch: %v'' else e) \<rparr>
   | Inr None \<Rightarrow> \<lparr> gs_order = i, gs_graph = noGraph, gs_err = None \<rparr>
   | Inr (Some (TGBStream g)) \<Rightarrow> \<lparr> gs_order = i, gs_graph = \<lparr> fg_tgb = Some g, fg_chunks = [] \<rparr>, gs_err = None \<rparr>
   | Inr (Some (ChunkStream (chunks, err))) \<Rightarrow> (case err of
         None \<Rightarrow> \<lparr> gs_order = i, gs_graph = \<lparr> fg_tgb = None, fg_chunks = chunks \<rparr>, gs_err = None \<rparr>
       | Some e \<Rightarrow> \<lparr> gs_order = i, gs_graph = noGraph, gs_err = Some e \<rparr>))"

definition newJob :: job where
  "newJob = \<lparr> jb_graph = noGraph, jb_err = None, jb_cancelled = False, jb_completed = False \<rparr>"

definition receive :: "job list \<Rightarrow> graphResult \<Rightarrow> job list" where
  "receive jobs res =
    (let i = gs_order res;
         err = (if gs_graph res = noGraph \<and> gs_err res = None then Some (Msg ''no chunks returned'') else gs_err res);
         jobs = jobs[i := (jobs ! i) \<lparr> jb_graph := gs_graph res, jb_completed := True, jb_err := err \<rparr>];
         other = (i + 1) mod 2
     in if err \<noteq> None \<and> \<not> jb_completed (jobs ! other)
        then jobs[other := (jobs ! other) \<lparr> jb_cancelled := True \<rparr>] else jobs)"

text \<open>The errors that are not induced by cancelling the sibling, with the position of their graph.\<close>

definition originalErrors :: "job list \<Rightarrow> goerr list" where
  "originalErrors jobs = List.map_filter (\<lambda>(i, j). if jb_cancelled j then None
     else map_option (wrap (''failed to get target graph #'' @ decimal (i + 1) @ '': '')) (jb_err j)) (enumerate 0 jobs)"

definition fetchTargetGraphs :: "goerr go_context \<Rightarrow> graphResult list \<Rightarrow> goerr + fetchedGraph \<times> fetchedGraph" where
  "fetchTargetGraphs ctx arrivals =
    (let jobs = foldl receive [newJob, newJob] arrivals in
     bindE (checkCtx ctx 0) (\<lambda>_.
     if originalErrors jobs \<noteq> [] then Inl (Wrapped '''' (originalErrors jobs))
     else Inr (jb_graph (jobs ! 0), jb_graph (jobs ! 1))))"

section \<open>Tree hashes\<close>

definition readTreehash :: "controllerEnv \<Rightarrow> BuildDescription \<Rightarrow> string \<Rightarrow> goerr + string" where
  "readTreehash env build repositoryID =
    (case ce_get env (GetTreehashCachePath (ce_md5 env) repositoryID build) of
       Inl e \<Rightarrow> if IsNotFound e then Inr '''' else Inl (wrap ''treehash read failed for key %q: '' e)
     | Inr body \<Rightarrow> bindE (mapErrE (wrap ''treehash body read failed for key %q: '') body) (\<lambda>b. Inr (string_of b)))"

text \<open>The two results in the order of their arrival; a read that is cancelled reports an error of its own.\<close>

definition receiveHash :: "(nat \<Rightarrow> string) \<times> goerr option \<Rightarrow> nat \<times> (goerr + string) \<Rightarrow> (nat \<Rightarrow> string) \<times> goerr option" where
  "receiveHash st res = (case st of (hashes, firstErr) \<Rightarrow> case res of (i, outcome) \<Rightarrow>
     (case outcome of
        Inr hash \<Rightarrow> (hashes(i := hash), firstErr)
      | Inl e \<Rightarrow> (hashes(i := ''''), if firstErr = None then Some e else firstErr)))"

definition readTreehashParallel :: "(nat \<times> (goerr + string)) list \<Rightarrow> goerr + string \<times> string" where
  "readTreehashParallel arrivals = (case foldl receiveHash (\<lambda>_. '''', None) arrivals of (hashes, firstErr) \<Rightarrow>
     (case firstErr of Some e \<Rightarrow> Inl e | None \<Rightarrow> Inr (hashes 0, hashes 1)))"

section \<open>Comparing\<close>

text \<open>
  The order in which a range visits a map: \<open>rg_names\<close> for the tables of the mappers, \<open>rg_targets\<close> for the
  targets by ID.
\<close>

record rangeOrder =
  rg_names :: "(string, i32) gomap \<Rightarrow> (string, i32) gomap"
  rg_targets :: "(i32, OptimizedTarget) gomap \<Rightarrow> (i32, OptimizedTarget) gomap"

definition toResponses :: "controllerEnv \<Rightarrow> rangeOrder \<Rightarrow> DiffTarget list \<Rightarrow> goerr + GetChangedTargetsResponse list" where
  "toResponses env rg result = mapErrE Msg (resultToResponses (rg_names rg) (ce_maxMessageBytes env) result)"

definition allTargetsChangedFromGraph :: "controllerEnv \<Rightarrow> rangeOrder \<Rightarrow> requestCtx \<Rightarrow> (i32, OptimizedTarget) gomap \<Rightarrow> Metadata \<Rightarrow>
    (i32, OptimizedTarget) gomap \<Rightarrow> Metadata \<Rightarrow> goerr + GetChangedTargetsResponse list" where
  "allTargetsChangedFromGraph env rg ctx beforeTargetsByID beforeMeta afterTargetsByID afterMeta =
    bindE (toDiffGraph (ctx 10) 0 (rg_targets rg beforeTargetsByID) beforeMeta None) (\<lambda>before.
    bindE (toDiffGraph (ctx 11) 0 (rg_targets rg afterTargetsByID) afterMeta None) (\<lambda>after.
    bindE (allTargetsChanged (ctx 12) 0 before after) (toResponses env rg)))"

definition targetsByID :: "Graph \<Rightarrow> (i32, OptimizedTarget) gomap" where
  "targetsByID graph = foldl putTarget [] (g_Targets graph)"

definition allTargetsChangedFromTGB :: "controllerEnv \<Rightarrow> rangeOrder \<Rightarrow> requestCtx \<Rightarrow> Reader \<Rightarrow> Reader \<Rightarrow>
    goerr + GetChangedTargetsResponse list" where
  "allTargetsChangedFromTGB env rg ctx beforeReader afterReader =
    bindE (mapErrE (\<lambda>e. wrap ''decode first TGB graph: '' (tgbErr e)) (fst (DecodeGraph (ce_zd env) beforeReader))) (\<lambda>beforeGraph.
    bindE (mapErrE (\<lambda>e. wrap ''decode second TGB graph: '' (tgbErr e)) (fst (DecodeGraph (ce_zd env) afterReader))) (\<lambda>afterGraph.
    allTargetsChangedFromGraph env rg ctx (targetsByID beforeGraph) (g_Metadata beforeGraph) (targetsByID afterGraph) (g_Metadata afterGraph)))"

definition compareTargetGraphs :: "controllerEnv \<Rightarrow> rangeOrder \<Rightarrow> requestCtx \<Rightarrow> GetTargetGraphResponse list \<Rightarrow> GetTargetGraphResponse list \<Rightarrow>
    string set option \<Rightarrow> goerr + GetChangedTargetsResponse list" where
  "compareTargetGraphs env rg ctx firstGraph secondGraph seedAttrs =
    bindE (getTargetsAndMetadata (ctx 2) 0 firstGraph ([], emptyMetadata)) (\<lambda>(firstTargetsByID, firstMetadata).
    bindE (getTargetsAndMetadata (ctx 3) 0 secondGraph ([], emptyMetadata)) (\<lambda>(secondTargetsByID, secondMetadata).
    if allTargetsFileChanged firstMetadata secondMetadata
    then allTargetsChangedFromGraph env rg ctx firstTargetsByID firstMetadata secondTargetsByID secondMetadata
    else
      bindE (toDiffGraph (ctx 4) 0 (rg_targets rg firstTargetsByID) firstMetadata seedAttrs) (\<lambda>before.
      bindE (toDiffGraph (ctx 5) 0 (rg_targets rg secondTargetsByID) secondMetadata seedAttrs) (\<lambda>after.
      bindE (Compare (ctx 6) \<lparr> rq_Before = before, rq_After = after, rq_MaxDistance = - 1 \<rparr>) (\<lambda>result.
      bindE (checkCtx (ctx 7) 0) (\<lambda>_. toResponses env rg result))))))"

fun diffErr :: "goerr diffError \<Rightarrow> goerr" where
  "diffErr (CtxCause e) = e"
| "diffErr (ReaderError e) = tgbErr e"
| "diffErr (HashStrideMismatch a b) = Msg ''tgbdiff: hash stride mismatch: %d vs %d''"

definition compareTargetGraphsTGB :: "controllerEnv \<Rightarrow> rangeOrder \<Rightarrow> requestCtx \<Rightarrow> Reader \<Rightarrow> Reader \<Rightarrow> string set option \<Rightarrow>
    goerr + GetChangedTargetsResponse list" where
  "compareTargetGraphsTGB env rg ctx before after seedAttrs =
    (let b = viewOfReader (ce_zd env) before; a = viewOfReader (ce_zd env) after in
     bindE (mapErrE (\<lambda>e. wrap ''tgb compare: '' (diffErr e))
       (tgbCompare (ctx 6) b a \<lparr> do_MaxDistance = - 1, do_SeedAttrs = seedAttrs \<rparr>)) (\<lambda>res.
     bindE (mapErrE (\<lambda>e. wrap ''materialize changed targets: '' (tgbErr e)) (Materialize b a res seedAttrs)) (\<lambda>result.
     bindE (checkCtx (ctx 7) 0) (\<lambda>_. toResponses env rg result))))"

text \<open>What the background comparison counts.\<close>

definition shadowCompareTGB :: "controllerEnv \<Rightarrow> goerr go_context \<Rightarrow> Reader \<Rightarrow> Reader \<Rightarrow> string set option \<Rightarrow> DiffTarget list \<Rightarrow> string" where
  "shadowCompareTGB env appCtx before after seedAttrs got =
    (case Compare appCtx \<lparr> rq_Before = SemanticGraph (viewOfReader (ce_zd env) before) seedAttrs,
        rq_After = SemanticGraph (viewOfReader (ce_zd env) after) seedAttrs, rq_MaxDistance = - 1 \<rparr> of
       Inl e \<Rightarrow> ''tgb_shadow_error''
     | Inr oracle \<Rightarrow> if ResultsEquivalent got oracle then ''tgb_shadow_match'' else ''tgb_shadow_mismatch'')"

definition compareFetchedGraphs :: "controllerEnv \<Rightarrow> rangeOrder \<Rightarrow> requestCtx \<Rightarrow> fetchedGraph \<Rightarrow> fetchedGraph \<Rightarrow> string set option \<Rightarrow>
    goerr + GetChangedTargetsResponse list" where
  "compareFetchedGraphs env rg ctx first second seedAttrs = (case (fg_tgb first, fg_tgb second) of
     (Some f, Some s) \<Rightarrow>
       bindE (mapErrE (\<lambda>e. wrap ''read AllTargetsFileHashes from first TGB: '' (tgbErr e)) (fst (AllTargetsFileHashes (ce_zd env) (tr_r f)))) (\<lambda>firstATFH.
       bindE (mapErrE (\<lambda>e. wrap ''read AllTargetsFileHashes from second TGB: '' (tgbErr e)) (fst (AllTargetsFileHashes (ce_zd env) (tr_r s)))) (\<lambda>secondATFH.
       if allTargetsFileChanged (emptyMetadata \<lparr> md_AllTargetsFileHashes := firstATFH \<rparr>) (emptyMetadata \<lparr> md_AllTargetsFileHashes := secondATFH \<rparr>)
       then allTargetsChangedFromTGB env rg ctx (tr_r f) (tr_r s)
       else compareTargetGraphsTGB env rg ctx (tr_r f) (tr_r s) seedAttrs))
   | _ \<Rightarrow>
       bindE (mapErrE (wrap ''decode first graph: '') (materializeChunks (ce_zd env) first)) (\<lambda>firstChunks.
       bindE (mapErrE (wrap ''decode second graph: '') (materializeChunks (ce_zd env) second)) (\<lambda>secondChunks.
       compareTargetGraphs env rg ctx firstChunks secondChunks seedAttrs)))"

section \<open>Results from the cache\<close>

fun drainCache :: "goerr go_context \<Rightarrow> nat \<Rightarrow> GetChangedTargetsResponse list \<Rightarrow> goerr option \<Rightarrow> GetChangedTargetsResponse list \<Rightarrow>
    goerr + GetChangedTargetsResponse list" where
  "drainCache ctx k [] err acc = bindE (mapErrE (wrap ''cache reader: '') (checkCtx ctx k)) (\<lambda>_.
     Inr (case err of None \<Rightarrow> acc | Some _ \<Rightarrow> []))"
| "drainCache ctx k (resp # resps) err acc = bindE (mapErrE (wrap ''cache reader: '') (checkCtx ctx k)) (\<lambda>_.
     drainCache ctx (k + 1) resps err (acc @ [resp]))"

text \<open>An empty list is a miss; a body that cannot be read to its end is one too.\<close>

definition comparedTargetsFromCache :: "controllerEnv \<Rightarrow> requestCtx \<Rightarrow> (nat \<times> (goerr + string)) list \<Rightarrow> GetChangedTargetsRequest \<Rightarrow> string \<Rightarrow>
    goerr + GetChangedTargetsResponse list" where
  "comparedTargetsFromCache env ctx arrivals request repositoryID =
    bindE (mapErrE (wrap ''read revision treehash: '') (readTreehashParallel arrivals)) (\<lambda>(treehash1, treehash2).
    if treehash1 = '''' \<or> treehash2 = '''' then Inr []
    else case ce_get env (GetComparedTargetsCachePath (ce_md5 env) repositoryID treehash1 treehash2 (ctr_ExcludeFilesRegex request)) of
      Inl e \<Rightarrow> Inr []
    | Inr (Inl e) \<Rightarrow> drainCache (ctx 8) 0 [] (Some e) []
    | Inr (Inr body) \<Rightarrow> (case ce_gob env body of (resps, err) \<Rightarrow> drainCache (ctx 8) 0 resps err []))"

text \<open>The two arrivals of tree hashes and of graphs; \<open>swap\<close> tells which goroutine reports first.\<close>

definition arrivalsOf :: "bool \<Rightarrow> 'a \<Rightarrow> 'a \<Rightarrow> 'a list" where
  "arrivalsOf swap x y = (if swap then [y, x] else [x, y])"

definition graphRequest :: "GetChangedTargetsRequest \<Rightarrow> BuildDescription \<Rightarrow> GetTargetGraphRequest" where
  "graphRequest request build = \<lparr> tgr_Build = build, tgr_ExcludeFilesRegex = ctr_ExcludeFilesRegex request,
     tgr_BypassCache = ctr_BypassCache request \<rparr>"

definition computeChangedTargets :: "controllerEnv \<Rightarrow> rangeOrder \<Rightarrow> requestCtx \<Rightarrow> bool \<Rightarrow> GetChangedTargetsRequest \<Rightarrow> RepositoryConfig \<Rightarrow>
    goerr + GetChangedTargetsResponse list" where
  "computeChangedTargets env rg ctx swap entityReq repoCfg =
    (let fetched = (\<lambda>i build. fetchGraph i (getGraph env ctx (graphRequest entityReq build) (rc_RepositoryID repoCfg))) in
     bindE (mapErrE (wrap ''fetch target graphs: '')
       (fetchTargetGraphs (ctx 9) (arrivalsOf swap (fetched 0 (ctr_First entityReq)) (fetched 1 (ctr_Second entityReq))))) (\<lambda>(first, second).
     mapErrE (\<lambda>e. wrap ''compare target graphs: '' (case ctx 13 0 of Some cause \<Rightarrow> cause | None \<Rightarrow> e))
       (compareFetchedGraphs env rg ctx first second (seedAttributesFor (rc_SeedAttributes repoCfg)))))"

definition GetChangedTargets :: "controllerEnv \<Rightarrow> rangeOrder \<Rightarrow> requestCtx \<Rightarrow> bool \<Rightarrow> bool \<Rightarrow> GetChangedTargetsRequest \<Rightarrow> RepositoryConfig \<Rightarrow>
    goerr + GetChangedTargetsResponse list" where
  "GetChangedTargets env rg ctx swapHashes swap entityReq repoCfg =
    (let treehash = (\<lambda>i build. (i, readTreehash env build (rc_RepositoryID repoCfg))) in
     bindE (if ctr_BypassCache entityReq then Inr []
       else mapErrE (wrap ''serve from cache: '') (comparedTargetsFromCache env ctx
         (arrivalsOf swapHashes (treehash 0 (ctr_First entityReq)) (treehash 1 (ctr_Second entityReq))) entityReq (rc_RepositoryID repoCfg))) (\<lambda>hit.
     if hit \<noteq> [] then Inr hit else computeChangedTargets env rg ctx swap entityReq repoCfg))"

text \<open>The write that the background goroutine makes, if any: the key and the responses.\<close>

definition cacheComparedTargets :: "controllerEnv \<Rightarrow> (nat \<times> (goerr + string)) list \<Rightarrow> GetChangedTargetsRequest \<Rightarrow> string \<Rightarrow>
    GetChangedTargetsResponse list \<Rightarrow> (string \<times> GetChangedTargetsResponse list) option" where
  "cacheComparedTargets env arrivals request repositoryID responses = (case readTreehashParallel arrivals of
     Inl e \<Rightarrow> None
   | Inr (treehash1, treehash2) \<Rightarrow>
       if treehash1 \<noteq> '''' \<and> treehash2 \<noteq> ''''
       then Some (GetComparedTargetsCachePath (ce_md5 env) repositoryID treehash1 treehash2 (ctr_ExcludeFilesRegex request), responses)
       else None)"

end
