(* ===== verification/GraphMapper.thy ===== *)
theory GraphMapper
  imports ResponseRoundTrip TargetGraph
begin

text \<open>
  \<open>mapper/mapper.go\<close>: the result of hashing becomes targets with IDs and metadata, split into chunks.
  The target IDs are the positions of the names; the other tables are mappers. What the comparison
  decodes from the chunks (\<open>getTargetsAndMetadata\<close>, \<open>toDiffGraph\<close>) is the result itself, target by
  target. \<open>STRING\<close> is the number of that attribute type in the Bazel protocol.
\<close>

section \<open>Mapping\<close>

text \<open>\<open>targetNamesMapping\<close>: the last position wins.\<close>

definition putName :: "(string, i32) gomap \<Rightarrow> nat \<times> string \<Rightarrow> (string, i32) gomap" where
  "putName m entry = (case entry of (i, name) \<Rightarrow> AList.update name (of_nat (i + 1)) m)"

definition targetNamesMapping :: "string list \<Rightarrow> (string, i32) gomap" where
  "targetNamesMapping names = foldl putName [] (enumerate 0 names)"

definition stringAttribute :: "i32 \<Rightarrow> Attribute option \<Rightarrow> (string \<times> string) option" where
  "stringAttribute STRING attr = (case attr of None \<Rightarrow> None
     | Some a \<Rightarrow> if at_Type a = Some STRING
         then (case (at_Name a, at_StringValue a) of (Some name, Some val) \<Rightarrow> Some (name, val) | _ \<Rightarrow> None)
         else None)"

record resultMappers =
  rm_ruleType :: Mapper
  rm_tag :: Mapper
  rm_attrName :: Mapper
  rm_attrVal :: Mapper

definition mapTarget :: "i32 \<Rightarrow> (string, i32) gomap \<Rightarrow> string \<Rightarrow> HashTarget \<Rightarrow> resultMappers \<Rightarrow> OptimizedTarget \<times> resultMappers" where
  "mapTarget STRING nameIDs name t m =
    (let depIDs = List.map_filter (map_of nameIDs) (ht_Deps t) in
     case (if ht_RuleType t \<noteq> '''' then ID (ht_RuleType t) (rm_ruleType m) else (0, rm_ruleType m)) of (rt, ruleType) \<Rightarrow>
     case IDs (ht_Tags t) (rm_tag m) of (tags, tag) \<Rightarrow>
     case foldl transposeAttribute (rm_attrName m, rm_attrVal m, []) (List.map_filter (stringAttribute STRING) (ht_Attributes t)) of
       (names, vals, attrs) \<Rightarrow>
       (\<lparr> ot_ID = (case map_of nameIDs name of Some i \<Rightarrow> i | None \<Rightarrow> 0), ot_Hash = EncodeToString (sliceBytes (ht_Hash t)),
          ot_DirectDependencies = depIDs, ot_RuleType = rt, ot_Tags = tags, ot_Root = ht_Root t, ot_External = ht_External t,
          ot_Attributes = attrs \<rparr>,
        \<lparr> rm_ruleType = ruleType, rm_tag = tag, rm_attrName = names, rm_attrVal = vals \<rparr>))"

text \<open>The loop: \<open>n\<close> targets were mapped before.\<close>

fun mapTargets :: "'e go_context \<Rightarrow> i32 \<Rightarrow> HashResult \<Rightarrow> nat \<Rightarrow> string list \<Rightarrow> resultMappers \<Rightarrow> 'e + OptimizedTarget list \<times> resultMappers" where
  "mapTargets ctx STRING result n [] m = Inr ([], m)"
| "mapTargets ctx STRING result n (name # names) m =
    (case map_of (rs_Targets result) name of
       None \<Rightarrow> mapTargets ctx STRING result n names m
     | Some t \<Rightarrow>
         bindE (if n mod 4096 = 0 then checkCtx ctx (n div 4096) else Inr ()) (\<lambda>_.
         case mapTarget STRING (targetNamesMapping (rs_TargetNames result)) name t m of (idt, m) \<Rightarrow>
         bindE (mapTargets ctx STRING result (n + 1) names m) (\<lambda>(targets, m). Inr (idt # targets, m))))"

definition ResultToTargetGraph :: "((string, i32) gomap \<Rightarrow> (string, i32) gomap) \<Rightarrow> 'e go_context \<Rightarrow> i32 \<Rightarrow> HashResult \<Rightarrow>
    'e + OptimizedTarget list \<times> Metadata" where
  "ResultToTargetGraph visit ctx STRING result =
    bindE (mapTargets ctx STRING result 0 (rs_TargetNames result)
      \<lparr> rm_ruleType = NewMapper, rm_tag = NewMapper, rm_attrName = NewMapper, rm_attrVal = NewMapper \<rparr>) (\<lambda>(targets, m).
    Inr (targets, \<lparr>
      md_TargetIDMapping = foldl (\<lambda>out (s, i). AList.update i s out) [] (visit (targetNamesMapping (rs_TargetNames result))),
      md_RuleTypeMapping = Invert visit (rm_ruleType m),
      md_TagMapping = Invert visit (rm_tag m),
      md_AttributeNameMapping = Invert visit (rm_attrName m),
      md_AttributeStringValueMapping = Invert visit (rm_attrVal m),
      md_AllTargetsFileHashes = (case rs_AllTargetsFileHashes result of None \<Rightarrow> [] | Some h \<Rightarrow> h) \<rparr>))"

definition ResultToGraphChunks :: "((string, i32) gomap \<Rightarrow> (string, i32) gomap) \<Rightarrow> (string \<Rightarrow> 'e) \<Rightarrow> 'e go_context \<Rightarrow> i32 \<Rightarrow>
    HashResult \<Rightarrow> nat \<Rightarrow> 'e + GetTargetGraphResponse list" where
  "ResultToGraphChunks visit err ctx STRING result maxBytes =
    bindE (ResultToTargetGraph visit ctx STRING result) (\<lambda>(targets, meta).
    bindE (map_sum err id (SplitBySize OptimizedTarget_Size targets maxBytes)) (\<lambda>targetGroups.
    bindE (map_sum err id (SplitMetadata (md_TargetIDMapping meta) (md_RuleTypeMapping meta) (md_TagMapping meta)
      (md_AttributeNameMapping meta) (md_AttributeStringValueMapping meta) maxBytes)) (\<lambda>metaGroups.
    let metaGroups = (if md_AllTargetsFileHashes meta \<noteq> []
          then metaGroups[0 := (metaGroups ! 0) \<lparr> md_AllTargetsFileHashes := md_AllTargetsFileHashes meta \<rparr>] else metaGroups) in
    Inr (map (\<lambda>g. \<lparr> gr_Targets = g, gr_Metadata = None \<rparr>) targetGroups @
         map (\<lambda>m. \<lparr> gr_Targets = [], gr_Metadata = Some m \<rparr>) metaGroups))))"

section \<open>Names\<close>

lemma targetNamesMapping_abs:
  "distinct names \<Longrightarrow> targetNamesMapping names = nameToID (mapperOf names)"
proof -
  assume d: "distinct names"
  have "foldl putName (map (\<lambda>n. (n, idIn (ms @ ns) n)) ms) (enumerate (length ms) ns) = map (\<lambda>n. (n, idIn (ms @ ns) n)) (ms @ ns)"
    if "distinct (ms @ ns)" for ms ns
    using that
  proof (induction ns arbitrary: ms)
    case (Cons n ns)
    have "idIn (ms @ n # ns) n = of_nat (length ms + 1)"
      using Cons.prems idIn_append [of n "ms @ [n]" ns] positionOf_snoc [of n ms] by (simp add: idIn_def)
    then have "putName (map (\<lambda>x. (x, idIn (ms @ n # ns) x)) ms) (length ms, n) = map (\<lambda>x. (x, idIn (ms @ n # ns) x)) (ms @ [n])"
      using Cons.prems by (simp add: putName_def update_fresh image_image)
    then show ?case
      using Cons.IH [of "ms @ [n]"] Cons.prems by simp
  qed simp
  from this [of "[]" names] show ?thesis
    using d by (simp add: targetNamesMapping_def mapperOf_def)
qed

section \<open>One target\<close>

definition stringAttributes :: "i32 \<Rightarrow> HashTarget \<Rightarrow> (string \<times> string) list" where
  "stringAttributes STRING t = List.map_filter (stringAttribute STRING) (ht_Attributes t)"

text \<open>What a hashed target stands for: its dependencies inside the graph and its string attributes.\<close>

definition hashedTarget :: "i32 \<Rightarrow> string list \<Rightarrow> string \<Rightarrow> HashTarget \<Rightarrow> Target" where
  "hashedTarget STRING names name t = \<lparr>
     dt_Name = name, dt_Hash = EncodeToString (sliceBytes (ht_Hash t)), dt_RuleType = ht_RuleType t,
     dt_Dependencies = filter (\<lambda>d. d \<in> set names) (ht_Deps t), dt_Tags = ht_Tags t,
     dt_Attributes = putAll [] (stringAttributes STRING t), dt_Root = ht_Root t, dt_External = ht_External t \<rparr>"

definition seenHashed :: "i32 \<Rightarrow> nameLists \<Rightarrow> HashTarget \<Rightarrow> nameLists" where
  "seenHashed STRING nl t = nl \<lparr>
     nl_ruleType := foldl seen (nl_ruleType nl) (if ht_RuleType t = '''' then [] else [ht_RuleType t]),
     nl_tag := foldl seen (nl_tag nl) (ht_Tags t),
     nl_attrName := foldl seen (nl_attrName nl) (map fst (stringAttributes STRING t)),
     nl_attrVal := foldl seen (nl_attrVal nl) (map snd (stringAttributes STRING t)) \<rparr>"

definition resultMappersOf :: "nameLists \<Rightarrow> resultMappers" where
  "resultMappersOf nl = \<lparr> rm_ruleType = mapperOf (nl_ruleType nl), rm_tag = mapperOf (nl_tag nl),
     rm_attrName = mapperOf (nl_attrName nl), rm_attrVal = mapperOf (nl_attrVal nl) \<rparr>"

lemma update_map_inj:
  "inj_on f (insert k (fst ` set m)) \<Longrightarrow> AList.update (f k) (g v) (map (\<lambda>(k, v). (f k, g v)) m) = map (\<lambda>(k, v). (f k, g v)) (AList.update k v m)"
proof (induction m)
  case (Cons kv m)
  obtain k1 v1 where kv: "kv = (k1, v1)"
    by (cases kv)
  have "inj_on f (insert k (fst ` set m))"
    using Cons.prems by (rule inj_on_subset) auto
  moreover have "f k1 = f k \<longleftrightarrow> k1 = k"
    using inj_onD [OF Cons.prems, of k1 k] by (auto simp: kv)
  ultimately show ?case
    using Cons.IH by (simp add: kv)
qed simp

lemma keys_putAll: "fst ` set (putAll m kvs) = fst ` set m \<union> fst ` set kvs"
  by (induction kvs arbitrary: m) (auto simp: putAll_def dom_update)

lemma putAll_Cons: "putAll m ((k, v) # kvs) = putAll (AList.update k v m) kvs"
  by (simp add: putAll_def)

lemma vals_update: "snd ` set (AList.update k v m) \<subseteq> insert v (snd ` set m)"
  by (induction m) auto

lemma vals_putAll: "snd ` set (putAll m kvs) \<subseteq> snd ` set m \<union> snd ` set kvs"
proof (induction kvs arbitrary: m)
  case (Cons kv kvs)
  have "snd ` set (AList.update (fst kv) (snd kv) m) \<union> snd ` set kvs \<subseteq> snd ` set m \<union> snd ` set (kv # kvs)"
    using vals_update [of "fst kv" "snd kv" m] by auto
  moreover have "snd ` set (putAll m (kv # kvs)) \<subseteq> snd ` set (AList.update (fst kv) (snd kv) m) \<union> snd ` set kvs"
    using Cons.IH [of "AList.update (fst kv) (snd kv) m"] by (simp add: putAll_def)
  ultimately show ?case
    by (rule subset_trans [rotated])
qed (simp add: putAll_def)

text \<open>The attribute loop with repeated names: later values replace earlier ones.\<close>

lemma transposeAttributes_update:
  assumes "length (foldl seen names (map fst kvs)) < 2 ^ 32" "fst ` set m \<subseteq> set names" "snd ` set m \<subseteq> set vals"
  shows "foldl transposeAttribute (mapperOf names, mapperOf vals, map (\<lambda>(k, v). (idIn names k, idIn vals v)) m) kvs =
    (mapperOf (foldl seen names (map fst kvs)), mapperOf (foldl seen vals (map snd kvs)),
     map (\<lambda>(k, v). (idIn (foldl seen names (map fst kvs)) k, idIn (foldl seen vals (map snd kvs)) v)) (putAll m kvs))"
  using assms
proof (induction kvs arbitrary: names vals m)
  case (Cons kv kvs)
  obtain k v where kv: "kv = (k, v)"
    by (cases kv)
  let ?ns = "seen names k" and ?vs = "seen vals v"
  have len: "length ?ns < 2 ^ 32"
    using Cons.prems(1) seen_extends [of ?ns "map fst kvs"] by (auto simp: kv)
  have old: "map (\<lambda>(k, v). (idIn names k, idIn vals v)) m = map (\<lambda>(k, v). (idIn ?ns k, idIn ?vs v)) m"
    using Cons.prems(2,3) idIn_foldl_seen [of _ names "[k]"] idIn_foldl_seen [of _ vals "[v]"] by (force intro!: map_cong)
  have "inj_on (idIn ?ns) (set ?ns)"
    using idIn_inject [OF _ _ len] by (simp add: inj_on_def)
  then have "inj_on (idIn ?ns) (insert k (fst ` set m))"
    by (rule inj_on_subset) (use Cons.prems(2) in auto)
  then have upd: "AList.update (idIn ?ns k) (idIn ?vs v) (map (\<lambda>(k, v). (idIn ?ns k, idIn ?vs v)) m) =
      map (\<lambda>(k, v). (idIn ?ns k, idIn ?vs v)) (AList.update k v m)"
    by (rule update_map_inj)
  have "fst ` set (AList.update k v m) \<subseteq> set ?ns"
    using Cons.prems(2) by (auto simp: dom_update)
  moreover have "snd ` set (AList.update k v m) \<subseteq> set ?vs"
    by (rule subset_trans [OF vals_update]) (use Cons.prems(3) in auto)
  ultimately show ?case
    using Cons.IH [of ?ns "AList.update k v m" ?vs] Cons.prems(1)
    by (simp add: kv transposeAttribute_def [of _ "(k, v)"] ID_abs old upd putAll_Cons)
qed (simp add: putAll_def)

lemma map_filter_ids: "List.map_filter (map_of (nameToID (mapperOf names))) ds = map (idIn names) (filter (\<lambda>d. d \<in> set names) ds)"
  by (induction ds) (simp_all add: map_filter_simps map_of_mapperOf)

lemma mapTarget_abs:
  assumes "name \<in> set (nl_target nl)" "length (nl_attrName (seenHashed STRING nl t)) < 2 ^ 32"
  shows "mapTarget STRING (nameToID (mapperOf (nl_target nl))) name t (resultMappersOf nl) =
    (encodeIn (seenHashed STRING nl t) (hashedTarget STRING (nl_target nl) name t), resultMappersOf (seenHashed STRING nl t))"
proof -
  have attrs: "foldl transposeAttribute (mapperOf (nl_attrName nl), mapperOf (nl_attrVal nl), []) (List.map_filter (stringAttribute STRING) (ht_Attributes t)) =
      (mapperOf (nl_attrName (seenHashed STRING nl t)), mapperOf (nl_attrVal (seenHashed STRING nl t)),
       ot_Attributes (encodeIn (seenHashed STRING nl t) (hashedTarget STRING (nl_target nl) name t)))"
    using transposeAttributes_update [of "nl_attrName nl" "stringAttributes STRING t" "[]" "nl_attrVal nl"] assms(2)
    by (simp add: stringAttributes_def [symmetric] seenHashed_def encodeIn_def hashedTarget_def)
  show ?thesis
    unfolding mapTarget_def resultMappersOf_def resultMappers.simps attrs
    by (simp add: assms(1) map_filter_ids map_of_mapperOf ID_abs IDs_abs idIn_foldl_seen seenHashed_def encodeIn_def hashedTarget_def Let_def)
qed

end
