(* ===== verification/GraphMapperProperties.thy ===== *)
theory GraphMapperProperties
  imports GraphMapper
begin

text \<open>
  Mapping a result to chunks and decoding the chunks for a comparison gives the result back.
\<close>

section \<open>The loop over the targets\<close>

lemma nl_target_seenHashed [simp]: "nl_target (seenHashed STRING nl t) = nl_target nl"
  by (simp add: seenHashed_def)

lemma later_seenHashed: "later nl (seenHashed STRING nl t)"
proof -
  obtain b c d e where "foldl seen (nl_ruleType nl) (if ht_RuleType t = '''' then [] else [ht_RuleType t]) = nl_ruleType nl @ b"
      "foldl seen (nl_tag nl) (ht_Tags t) = nl_tag nl @ c"
      "foldl seen (nl_attrName nl) (map fst (stringAttributes STRING t)) = nl_attrName nl @ d"
      "foldl seen (nl_attrVal nl) (map snd (stringAttributes STRING t)) = nl_attrVal nl @ e"
    using seen_extends by meson
  then have "seenHashed STRING nl t = \<lparr> nl_target = nl_target nl @ [], nl_ruleType = nl_ruleType nl @ b, nl_tag = nl_tag nl @ c,
      nl_attrName = nl_attrName nl @ d, nl_attrVal = nl_attrVal nl @ e \<rparr>"
    by (simp add: seenHashed_def)
  then show ?thesis
    unfolding later_def by blast
qed

lemma later_foldl_hashed: "later nl (foldl (seenHashed STRING) nl ts)"
  by (induction ts arbitrary: nl) (auto intro: later_refl later_trans later_seenHashed)

lemma nl_target_foldl [simp]: "nl_target (foldl (seenHashed STRING) nl ts) = nl_target nl"
  by (induction ts arbitrary: nl) simp_all

lemma knows_hashed:
  assumes "name \<in> set (nl_target nl)"
  shows "knows (seenHashed STRING nl t) (hashedTarget STRING (nl_target nl) name t)"
proof -
  have "snd ` set (putAll [] (stringAttributes STRING t)) \<subseteq> snd ` set (stringAttributes STRING t)"
    using vals_putAll [of "[]" "stringAttributes STRING t"] by simp
  then show ?thesis
    using assms
    by (auto simp: knows_def seenHashed_def hashedTarget_def ruleNames_def foldl_seen keys_putAll)
qed

lemma mapTargets_abs:
  assumes "never_cancelled ctx" "distinct (rs_TargetNames result)" "nl_target nl = rs_TargetNames result"
    and "\<forall>name \<in> set names. name \<in> set (rs_TargetNames result) \<and> map_of (rs_Targets result) name = Some (f name)"
    and "later (foldl (seenHashed STRING) nl (map f names)) nl'" "length (nl_attrName nl') < 2 ^ 32"
  shows "mapTargets ctx STRING result n names (resultMappersOf nl) =
    Inr (map (\<lambda>name. encodeIn nl' (hashedTarget STRING (rs_TargetNames result) name (f name))) names,
      resultMappersOf (foldl (seenHashed STRING) nl (map f names)))"
  using assms(3-5)
proof (induction names arbitrary: nl n)
  case (Cons name names)
  let ?nl = "seenHashed STRING nl (f name)" and ?h = "hashedTarget STRING (rs_TargetNames result) name (f name)"
  have nameIDs: "targetNamesMapping (rs_TargetNames result) = nameToID (mapperOf (nl_target nl))"
    using targetNamesMapping_abs [OF assms(2)] Cons.prems(1) by simp
  have l: "later (foldl (seenHashed STRING) ?nl (map f names)) nl'"
    using Cons.prems(3) by simp
  have l1: "later ?nl nl'"
    using later_trans [OF later_foldl_hashed l] .
  have "length (nl_attrName ?nl) < 2 ^ 32"
    using later_length [OF l1] assms(6) by simp
  then have one: "mapTarget STRING (targetNamesMapping (rs_TargetNames result)) name (f name) (resultMappersOf nl) = (encodeIn nl' ?h, resultMappersOf ?nl)"
    using mapTarget_abs [of name nl STRING "f name"] Cons.prems(1,2) encodeIn_later [OF knows_hashed l1, of name] unfolding nameIDs by simp
  have "(if n mod 4096 = 0 then checkCtx ctx (n div 4096) else Inr ()) = Inr ()"
    by (simp add: checkCtx_never [OF assms(1)])
  then show ?case
    using Cons.IH [of ?nl "n + 1"] Cons.prems l one by simp
qed simp

section \<open>Sizes\<close>

definition resultSize :: "HashResult \<Rightarrow> nat" where
  "resultSize result = length (rs_TargetNames result) +
     sum_list (map (\<lambda>name. case map_of (rs_Targets result) name of None \<Rightarrow> 0
       | Some t \<Rightarrow> 1 + length (ht_Tags t) + length (ht_Attributes t)) (rs_TargetNames result))"

lemma length_map_filter_le: "length (List.map_filter f xs) \<le> length xs"
  by (induction xs) (auto simp: map_filter_simps split: option.splits)

lemma fewNames_seenHashed:
  assumes "fewNames n nl"
  shows "fewNames (n + (1 + length (ht_Tags t) + length (ht_Attributes t))) (seenHashed STRING nl t)"
proof -
  have "length (stringAttributes STRING t) \<le> length (ht_Attributes t)"
    unfolding stringAttributes_def by (rule length_map_filter_le)
  then show ?thesis
    using assms length_foldl_seen [of "nl_ruleType nl" "if ht_RuleType t = '''' then [] else [ht_RuleType t]"]
      length_foldl_seen [of "nl_tag nl" "ht_Tags t"] length_foldl_seen [of "nl_attrName nl" "map fst (stringAttributes STRING t)"]
      length_foldl_seen [of "nl_attrVal nl" "map snd (stringAttributes STRING t)"]
    by (simp add: fewNames_def seenHashed_def split: if_splits)
qed

lemma fewNames_foldl_hashed:
  "fewNames n nl \<Longrightarrow> fewNames (n + sum_list (map (\<lambda>t. 1 + length (ht_Tags t) + length (ht_Attributes t)) ts)) (foldl (seenHashed STRING) nl ts)"
proof (induction ts arbitrary: n nl)
  case (Cons t ts)
  then show ?case
    using Cons.IH [OF fewNames_seenHashed [OF Cons.prems, of t STRING]] by (simp add: ac_simps)
qed simp

lemma distinctNames_foldl_hashed: "distinctNames nl \<Longrightarrow> distinctNames (foldl (seenHashed STRING) nl ts)"
proof (induction ts arbitrary: nl)
  case (Cons t ts)
  have "distinctNames (seenHashed STRING nl t)"
    using Cons.prems by (simp add: distinctNames_def seenHashed_def foldl_seen)
  then show ?case
    using Cons.IH by simp
qed simp

section \<open>Decoding the chunks\<close>

lemma getTargetsAndMetadata_never:
  "never_cancelled ctx \<Longrightarrow> getTargetsAndMetadata ctx k chunks (targets, merged) =
    Inr (foldl putTarget targets (concat (map gr_Targets chunks)), foldl mergeMetadata merged (List.map_filter gr_Metadata chunks))"
proof (induction chunks arbitrary: k targets merged)
  case (Cons c cs)
  then show ?case
    by (cases "gr_Metadata c") (simp_all add: checkCtx_never map_filter_simps)
qed (simp add: map_filter_simps)

lemma foldl_putTarget:
  "distinct (map fst m @ map ot_ID ts) \<Longrightarrow> foldl putTarget m ts = m @ map (\<lambda>t. (ot_ID t, t)) ts"
proof (induction ts arbitrary: m)
  case (Cons t ts)
  have "putTarget m t = m @ [(ot_ID t, t)]"
    unfolding putTarget_def by (rule update_fresh) (use Cons.prems in auto)
  then show ?case
    using Cons.IH [of "m @ [(ot_ID t, t)]"] Cons.prems by auto
qed simp

lemma foldl_diffGraphEntry:
  assumes "distinct (map fst g @ names)" "'''' \<notin> set names" "\<And>name. name \<in> set names \<Longrightarrow> getOr (md_TargetIDMapping md) (i name) = name"
  shows "foldl (diffGraphEntry md seedAttrs) g (map (\<lambda>name. (i name, enc name)) names) =
    g @ map (\<lambda>name. (name, namedTarget md seedAttrs name (enc name))) names"
  using assms
proof (induction names arbitrary: g)
  case (Cons name names)
  have "diffGraphEntry md seedAttrs g (i name, enc name) = g @ [(name, namedTarget md seedAttrs name (enc name))]"
    using Cons.prems by (auto simp: diffGraphEntry_def Let_def intro!: update_fresh)
  then show ?case
    using Cons.IH [of "g @ [(name, namedTarget md seedAttrs name (enc name))]"] Cons.prems by auto
qed simp

section \<open>The metadata chunks\<close>

lemma map_update_first: "(\<And>x. f (g x) = f x) \<Longrightarrow> map f (xs[0 := g (xs ! 0)]) = map f xs"
  by (cases xs) simp_all

lemma SplitMetadata_no_hashes:
  assumes "SplitMetadata tids rts tags ans avs maxBytes = Inr metas"
  shows "metas \<noteq> []" "\<forall>m \<in> set metas. md_AllTargetsFileHashes m = []"
proof -
  obtain m ms where l: "largeMetas tids avs maxBytes = m # ms"
    using largeMetas_not_Nil by (metis neq_Nil_conv)
  have metas: "metas = m \<lparr> md_RuleTypeMapping := rts, md_TagMapping := tags, md_AttributeNameMapping := ans \<rparr> # ms"
    using assms SplitMetadata_eq [OF l] by simp
  have "\<forall>x \<in> set (largeMetas tids avs maxBytes). md_AllTargetsFileHashes x = []"
    by (auto simp: largeMetas_def Let_def emptyMetadata_def)
  then show "metas \<noteq> []" "\<forall>m \<in> set metas. md_AllTargetsFileHashes m = []"
    unfolding l metas by simp_all
qed

lemma foldl_merge_hashes:
  "md_AllTargetsFileHashes (foldl mergeMetadata md metas) = foldl putAll (md_AllTargetsFileHashes md) (map md_AllTargetsFileHashes metas)"
  by (induction metas arbitrary: md) (simp_all add: mergeMetadata_def)

text \<open>Putting the file hashes into the first chunk keeps the other tables and adds the hashes.\<close>

definition withHashes :: "(string, string) gomap \<Rightarrow> Metadata list \<Rightarrow> Metadata list" where
  "withHashes h metas = (if h \<noteq> [] then metas[0 := (metas ! 0) \<lparr> md_AllTargetsFileHashes := h \<rparr>] else metas)"

lemma withHashes_fields:
  "map md_TargetIDMapping (withHashes h metas) = map md_TargetIDMapping metas"
  "map md_RuleTypeMapping (withHashes h metas) = map md_RuleTypeMapping metas"
  "map md_TagMapping (withHashes h metas) = map md_TagMapping metas"
  "map md_AttributeNameMapping (withHashes h metas) = map md_AttributeNameMapping metas"
  "map md_AttributeStringValueMapping (withHashes h metas) = map md_AttributeStringValueMapping metas"
  by (cases metas; simp add: withHashes_def)+

lemma withHashes_merged:
  assumes "metas \<noteq> []" "\<forall>m \<in> set metas. md_AllTargetsFileHashes m = []" "distinct (map fst h)"
  shows "md_AllTargetsFileHashes (foldl mergeMetadata emptyMetadata (withHashes h metas)) = h"
proof -
  obtain m ms where metas: "metas = m # ms"
    using assms(1) by (cases metas) auto
  have none: "foldl putAll x (map md_AllTargetsFileHashes ms) = x" for x
    using assms(2) unfolding metas by (induction ms arbitrary: x) (simp_all add: putAll_def)
  have "putAll [] h = h"
    using putAll_fresh [of "[]" h] assms(3) by simp
  then show ?thesis
    using assms(2) by (simp add: foldl_merge_hashes emptyMetadata_def withHashes_def metas none) (simp add: putAll_def)
qed

section \<open>The result\<close>

definition wf_hashResult :: "i32 \<Rightarrow> HashResult \<Rightarrow> bool" where
  "wf_hashResult STRING result \<longleftrightarrow> distinct (rs_TargetNames result) \<and> '''' \<notin> set (rs_TargetNames result) \<and>
     list_all (\<lambda>name. case map_of (rs_Targets result) name of None \<Rightarrow> False
       | Some t \<Rightarrow> '''' \<notin> set (ht_Tags t) \<and> '''' \<notin> fst ` set (stringAttributes STRING t)) (rs_TargetNames result) \<and>
     (case rs_AllTargetsFileHashes result of None \<Rightarrow> True | Some h \<Rightarrow> distinct (map fst h)) \<and> resultSize result < 2 ^ 31"

definition resultGraph :: "i32 \<Rightarrow> HashResult \<Rightarrow> DiffGraph" where
  "resultGraph STRING result = List.map_filter (\<lambda>name. map_option (\<lambda>t. (name, hashedTarget STRING (rs_TargetNames result) name t))
     (map_of (rs_Targets result) name)) (rs_TargetNames result)"

definition resultHashes :: "HashResult \<Rightarrow> (string, string) gomap" where
  "resultHashes result = (case rs_AllTargetsFileHashes result of None \<Rightarrow> [] | Some h \<Rightarrow> h)"

lemma distinct_putAll: "distinct (map fst m) \<Longrightarrow> distinct (map fst (putAll m kvs))"
  by (induction kvs arbitrary: m) (auto simp: putAll_def distinct_update)

lemma map_filter_total: "(\<And>x. x \<in> set xs \<Longrightarrow> f x = Some (g x)) \<Longrightarrow> List.map_filter f xs = map g xs"
  by (induction xs) (simp_all add: map_filter_simps)

text \<open>The chunks, in terms of the names the mappers have seen in the end.\<close>

lemma ResultToGraphChunks_abs:
  fixes STRING :: i32
  assumes "wf_hashResult STRING result" "never_cancelled ctx" "permutes_entries visit"
  defines "f \<equiv> \<lambda>name. the (map_of (rs_Targets result) name)"
  shows "\<exists>nl gs metas. ResultToGraphChunks visit err ctx STRING result maxBytes =
      Inr (map (\<lambda>g. \<lparr> gr_Targets = g, gr_Metadata = None \<rparr>) gs @
        map (\<lambda>m. \<lparr> gr_Targets = [], gr_Metadata = Some m \<rparr>) (withHashes (resultHashes result) metas)) \<and>
    concat gs = map (\<lambda>name. encodeIn nl (hashedTarget STRING (rs_TargetNames result) name (f name))) (rs_TargetNames result) \<and>
    nl_target nl = rs_TargetNames result \<and> length (rs_TargetNames result) < 2 ^ 31 \<and>
    (\<forall>name \<in> set (rs_TargetNames result). knows nl (hashedTarget STRING (rs_TargetNames result) name (f name))) \<and>
    metas \<noteq> [] \<and> (\<forall>m \<in> set metas. md_AllTargetsFileHashes m = []) \<and>
    (let md = foldl mergeMetadata emptyMetadata metas in
     resolves (md_TargetIDMapping md) (nl_target nl) \<and> resolves (md_RuleTypeMapping md) (nl_ruleType nl) \<and>
     resolves (md_TagMapping md) (nl_tag nl) \<and> resolves (md_AttributeNameMapping md) (nl_attrName nl) \<and>
     resolves (md_AttributeStringValueMapping md) (nl_attrVal nl))"
proof -
  let ?names = "rs_TargetNames result"
  let ?start = "noNames \<lparr> nl_target := ?names \<rparr>"
  let ?nl = "foldl (seenHashed STRING) ?start (map f ?names)"
  have d: "distinct ?names" and sz: "resultSize result < 2 ^ 31"
    using assms(1) by (simp_all add: wf_hashResult_def)
  have found: "map_of (rs_Targets result) name = Some (f name)" if "name \<in> set ?names" for name
    using assms(1) that by (auto simp: wf_hashResult_def f_def list_all_iff split: option.splits)
  have "resultSize result = length ?names + sum_list (map (\<lambda>t. 1 + length (ht_Tags t) + length (ht_Attributes t)) (map f ?names))"
    unfolding resultSize_def map_map by (intro arg_cong2 [of _ _ _ _ "(+)"] arg_cong [of _ _ sum_list] map_cong) (simp_all add: found)
  moreover have "fewNames (length ?names) ?start"
    by (simp add: fewNames_def noNames_def)
  ultimately have few: "fewNames (resultSize result) ?nl"
    using fewNames_foldl_hashed [of "length ?names" ?start "map f ?names" STRING] by simp
  have dn: "distinctNames ?nl"
    by (rule distinctNames_foldl_hashed) (simp add: distinctNames_def noNames_def d)
  have len: "length (nl_attrName ?nl) < 2 ^ 32" "length ?names < 2 ^ 31"
    using few sz by (simp_all add: fewNames_def)
  have "mapTargets ctx STRING result 0 ?names (resultMappersOf ?start) =
      Inr (map (\<lambda>name. encodeIn ?nl (hashedTarget STRING ?names name (f name))) ?names, resultMappersOf ?nl)"
    using found len(1) by (intro mapTargets_abs [OF assms(2) d _ _ later_refl]) simp_all
  moreover have "resultMappersOf ?start = \<lparr> rm_ruleType = NewMapper, rm_tag = NewMapper, rm_attrName = NewMapper, rm_attrVal = NewMapper \<rparr>"
    by (simp add: resultMappersOf_def noNames_def NewMapper_abs)
  ultimately have m: "mapTargets ctx STRING result 0 ?names
        \<lparr> rm_ruleType = NewMapper, rm_tag = NewMapper, rm_attrName = NewMapper, rm_attrVal = NewMapper \<rparr> =
      Inr (map (\<lambda>name. encodeIn ?nl (hashedTarget STRING ?names name (f name))) ?names, resultMappersOf ?nl)"
    by simp
  have ids: "foldl (\<lambda>out (s, i). AList.update i s out) [] (visit (targetNamesMapping ?names)) = Invert visit (mapperOf (nl_target ?nl))"
    by (simp add: Invert_def targetNamesMapping_abs [OF d] noNames_def)
  obtain gs where gs: "SplitBySize OptimizedTarget_Size (map (\<lambda>name. encodeIn ?nl (hashedTarget STRING ?names name (f name))) ?names) maxBytes = Inr gs"
      "concat gs = map (\<lambda>name. encodeIn ?nl (hashedTarget STRING ?names name (f name))) ?names"
    using SplitBySize_total [of OptimizedTarget_Size "map (\<lambda>name. encodeIn ?nl (hashedTarget STRING ?names name (f name))) ?names" maxBytes]
    by blast
  obtain metas where ms: "SplitMetadata (Invert visit (mapperOf (nl_target ?nl))) (Invert visit (mapperOf (nl_ruleType ?nl)))
      (Invert visit (mapperOf (nl_tag ?nl))) (Invert visit (mapperOf (nl_attrName ?nl))) (Invert visit (mapperOf (nl_attrVal ?nl))) maxBytes = Inr metas"
    and res: "let md = foldl mergeMetadata emptyMetadata metas in
     resolves (md_TargetIDMapping md) (nl_target ?nl) \<and> resolves (md_RuleTypeMapping md) (nl_ruleType ?nl) \<and>
     resolves (md_TagMapping md) (nl_tag ?nl) \<and> resolves (md_AttributeNameMapping md) (nl_attrName ?nl) \<and>
     resolves (md_AttributeStringValueMapping md) (nl_attrVal ?nl)"
    using SplitMetadata_resolves [OF assms(3) dn few sz] by blast
  have "ResultToGraphChunks visit err ctx STRING result maxBytes =
      Inr (map (\<lambda>g. \<lparr> gr_Targets = g, gr_Metadata = None \<rparr>) gs @
        map (\<lambda>m. \<lparr> gr_Targets = [], gr_Metadata = Some m \<rparr>) (withHashes (resultHashes result) metas))"
    unfolding ResultToGraphChunks_def ResultToTargetGraph_def m ids
    by (simp add: gs(1)) (simp add: resultMappersOf_def ms [simplified] withHashes_def resultHashes_def)
  moreover have "knows ?nl (hashedTarget STRING ?names name (f name))" if mem: "name \<in> set ?names" for name
  proof -
    obtain xs ys where "?names = xs @ name # ys"
      using split_list [OF mem] by blast
    then have "map f ?names = map f xs @ f name # map f ys"
      by simp
    then have nl: "?nl = foldl (seenHashed STRING) (seenHashed STRING (foldl (seenHashed STRING) ?start (map f xs)) (f name)) (map f ys)"
      by (simp only: foldl_append foldl_Cons)
    have "nl_target (foldl (seenHashed STRING) ?start (map f xs)) = ?names"
      by simp
    then have "knows (seenHashed STRING (foldl (seenHashed STRING) ?start (map f xs)) (f name)) (hashedTarget STRING ?names name (f name))"
      using knows_hashed [of name "foldl (seenHashed STRING) ?start (map f xs)" STRING "f name"] mem by simp
    from knows_later [OF this later_foldl_hashed [of _ STRING "map f ys"]] show ?thesis
      by (simp only: nl)
  qed
  ultimately show ?thesis
    using gs(2) len(2) res SplitMetadata_no_hashes [OF ms] by (intro exI [of _ ?nl] exI [of _ gs] exI [of _ metas]) simp
qed

text \<open>C8: the comparison sees what the hasher computed. Mapping a hash result to chunks never fails, and
  decoding the chunks the way the comparison does gives a graph with exactly the named targets in their
  order: each with its hash, rule type, tags and flags, its string attributes with the last value of a
  repeated name, and those of its dependencies that the graph has; and the hashes of the files that
  affect every target. The number of names must stay below 2^31.\<close>

theorem result_reaches_comparison:
  assumes "wf_hashResult STRING result" "never_cancelled ctx" "permutes_entries visit"
  shows "\<exists>chunks targetsByID meta. ResultToGraphChunks visit err ctx STRING result maxBytes = Inr chunks \<and>
    getTargetsAndMetadata ctx k chunks ([], emptyMetadata) = Inr (targetsByID, meta) \<and>
    toDiffGraph ctx k' targetsByID meta None = Inr (resultGraph STRING result) \<and>
    md_AllTargetsFileHashes meta = resultHashes result"
proof -
  let ?names = "rs_TargetNames result" and ?f = "\<lambda>name. the (map_of (rs_Targets result) name)"
  let ?h = "\<lambda>name. hashedTarget STRING ?names name (?f name)"
  obtain nl gs metas where ch: "ResultToGraphChunks visit err ctx STRING result maxBytes =
      Inr (map (\<lambda>g. \<lparr> gr_Targets = g, gr_Metadata = None \<rparr>) gs @
        map (\<lambda>m. \<lparr> gr_Targets = [], gr_Metadata = Some m \<rparr>) (withHashes (resultHashes result) metas))"
    and gs: "concat gs = map (\<lambda>name. encodeIn nl (?h name)) ?names" and nl: "nl_target nl = ?names" and len: "length ?names < 2 ^ 31"
    and kn: "\<forall>name \<in> set ?names. knows nl (?h name)" and ne: "metas \<noteq> []" "\<forall>m \<in> set metas. md_AllTargetsFileHashes m = []"
    and res: "let md = foldl mergeMetadata emptyMetadata metas in
     resolves (md_TargetIDMapping md) (nl_target nl) \<and> resolves (md_RuleTypeMapping md) (nl_ruleType nl) \<and>
     resolves (md_TagMapping md) (nl_tag nl) \<and> resolves (md_AttributeNameMapping md) (nl_attrName nl) \<and>
     resolves (md_AttributeStringValueMapping md) (nl_attrVal nl)"
    using ResultToGraphChunks_abs [OF assms, of err maxBytes] by blast
  let ?chunks = "map (\<lambda>g. \<lparr> gr_Targets = g, gr_Metadata = None \<rparr>) gs @
      map (\<lambda>m. \<lparr> gr_Targets = [], gr_Metadata = Some m \<rparr>) (withHashes (resultHashes result) metas)"
  define md where "md = foldl mergeMetadata emptyMetadata (withHashes (resultHashes result) metas)"
  have d: "distinct ?names" and e: "'''' \<notin> set ?names" and hs: "distinct (map fst (resultHashes result))"
    using assms(1) by (auto simp: wf_hashResult_def resultHashes_def split: option.splits)
  have wf: "wf_target (?h name)" if "name \<in> set ?names" for name
    using assms(1) that e distinct_putAll [of "[]" "stringAttributes STRING (?f name)"]
    by (auto simp: wf_hashResult_def wf_target_def hashedTarget_def list_all_iff keys_putAll split: option.splits)
  have res': "resolves (md_TargetIDMapping md) (nl_target nl)" "resolves (md_RuleTypeMapping md) (nl_ruleType nl)"
      "resolves (md_TagMapping md) (nl_tag nl)" "resolves (md_AttributeNameMapping md) (nl_attrName nl)"
      "resolves (md_AttributeStringValueMapping md) (nl_attrVal nl)"
    using res by (simp_all add: md_def foldl_mergeMetadata withHashes_fields Let_def)
  have read: "namedTarget md None name (encodeIn nl (?h name)) = ?h name" if "name \<in> set ?names" for name
  proof -
    have "getOr (md_TargetIDMapping md) (ot_ID (encodeIn nl (?h name))) = name"
      using res'(1) kn that by (simp add: resolves_def encodeIn_def hashedTarget_def nl)
    then show ?thesis
      using readTarget_encodeIn [OF wf [OF that] _ res'] kn that by (simp add: readTarget_def)
  qed
  let ?enc = "\<lambda>name. encodeIn nl (?h name)"
  have id: "ot_ID (?enc name) = idIn ?names name" for name
    by (simp add: encodeIn_def hashedTarget_def nl)
  have "inj_on (idIn ?names) (set ?names)"
    using len idIn_inject [of _ ?names] by (auto simp: inj_on_def)
  then have "distinct (map ot_ID (map ?enc ?names))"
    using d by (simp add: comp_def id distinct_map)
  moreover have "concat (map gr_Targets ?chunks) = map ?enc ?names"
    using gs by (simp add: comp_def)
  ultimately have put: "foldl putTarget [] (concat (map gr_Targets ?chunks)) = map (\<lambda>name. (idIn ?names name, ?enc name)) ?names"
    using foldl_putTarget [of "[]" "map ?enc ?names"] by (simp only: append_Nil list.map(1)) (simp add: comp_def id)
  have mdata: "List.map_filter gr_Metadata ?chunks = withHashes (resultHashes result) metas"
    by (simp add: List.map_filter_def comp_def)
  have get: "getTargetsAndMetadata ctx k ?chunks ([], emptyMetadata) = Inr (map (\<lambda>name. (idIn ?names name, ?enc name)) ?names, md)"
    unfolding getTargetsAndMetadata_never [OF assms(2)] put mdata md_def ..
  have "getOr (md_TargetIDMapping md) (idIn ?names name) = name" if "name \<in> set ?names" for name
    using res'(1) that by (simp add: resolves_def nl)
  then have "foldl (diffGraphEntry md None) [] (map (\<lambda>name. (idIn ?names name, ?enc name)) ?names) = map (\<lambda>name. (name, ?h name)) ?names"
    using foldl_diffGraphEntry [of "[]" ?names md "idIn ?names" None ?enc] d e read by simp
  moreover have "resultGraph STRING result = map (\<lambda>name. (name, ?h name)) ?names"
    unfolding resultGraph_def using assms(1) by (intro map_filter_total) (auto simp: wf_hashResult_def list_all_iff split: option.splits)
  ultimately have "toDiffGraph ctx k' (map (\<lambda>name. (idIn ?names name, ?enc name)) ?names) md None = Inr (resultGraph STRING result)"
    by (simp add: toDiffGraph_def pollLoop_never [OF assms(2)])
  moreover have "md_AllTargetsFileHashes md = resultHashes result"
    unfolding md_def by (rule withHashes_merged [OF ne hs])
  ultimately show ?thesis
    using ch get by blast
qed

definition demoHashed :: HashResult where
  "demoHashed = \<lparr> rs_TargetNames = [''//a:a'', ''//b:b''],
     rs_Targets = [(''//b:b'', newTarget ''//b:b'' ''''),
       (''//a:a'', newTarget ''//a:a'' ''go_library'' \<lparr> ht_Deps := [''//b:b'', ''@x//:y''], ht_Tags := [''manual''], ht_Hash := Some [1] \<rparr>)],
     rs_AllTargetsFileHashes = Some [(''go.mod'', ''ff'')] \<rparr>"

theorem result_reaches_comparison_witness:
  "\<exists>chunks targetsByID meta. ResultToGraphChunks rev id (\<lambda>_. None :: string option) 2 demoHashed 100 = Inr chunks \<and>
    getTargetsAndMetadata (\<lambda>_. None :: string option) 0 chunks ([], emptyMetadata) = Inr (targetsByID, meta) \<and>
    toDiffGraph (\<lambda>_. None :: string option) 0 targetsByID meta None = Inr (resultGraph 2 demoHashed) \<and>
    map (\<lambda>(name, t). (name, dt_Dependencies t, dt_Tags t)) (resultGraph 2 demoHashed) =
      [(''//a:a'', [''//b:b''], [''manual'']), (''//b:b'', [], [])]"
proof -
  have wf: "wf_hashResult 2 demoHashed"
    by (simp add: wf_hashResult_def demoHashed_def newTarget_def stringAttributes_def resultSize_def map_filter_simps)
  have never: "never_cancelled (\<lambda>_. None :: string option)"
    by (simp add: never_cancelled_def)
  have perm: "permutes_entries rev"
    by (simp add: permutes_entries_def)
  have graph: "map (\<lambda>(name, t). (name, dt_Dependencies t, dt_Tags t)) (resultGraph 2 demoHashed) =
      [(''//a:a'', [''//b:b''], [''manual'']), (''//b:b'', [], [])]"
    by code_simp
  obtain chunks targetsByID meta where "ResultToGraphChunks rev id (\<lambda>_. None :: string option) 2 demoHashed 100 = Inr chunks"
      "getTargetsAndMetadata (\<lambda>_. None :: string option) 0 chunks ([], emptyMetadata) = Inr (targetsByID, meta)"
      "toDiffGraph (\<lambda>_. None :: string option) 0 targetsByID meta None = Inr (resultGraph 2 demoHashed)"
    using result_reaches_comparison [OF wf never perm, of id 100 0 0] by auto
  then show ?thesis
    using graph by auto
qed

end
