(* ===== verification/ControllerProperties.thy ===== *)
theory ControllerProperties
  imports Controller GraphMapperProperties TgbProperties TgbDiffProperties
begin

text \<open>
  Results about the controller: which error a pair of fetches reports, what is reported when a file
  that affects every target changes, that the chunk comparison computes the reference comparison of
  the two hash results, and what the caches do.
\<close>

section \<open>Fetching\<close>

definition failureOf :: "graphResult \<Rightarrow> goerr option" where
  "failureOf res = (if gs_err res = None \<and> gs_graph res = noGraph then Some (Msg ''no chunks returned'') else gs_err res)"

definition fetchError :: "graphResult \<Rightarrow> goerr \<Rightarrow> goerr" where
  "fetchError res e = Wrapped '''' [wrap (''failed to get target graph #'' @ decimal (gs_order res + 1) @ '': '') e]"

lemma receive_0:
  "gs_order res = 0 \<Longrightarrow> receive [a, b] res = [a \<lparr> jb_graph := gs_graph res, jb_completed := True, jb_err := failureOf res \<rparr>,
    if failureOf res \<noteq> None \<and> \<not> jb_completed b then b \<lparr> jb_cancelled := True \<rparr> else b]"
  by (auto simp: receive_def failureOf_def Let_def)

lemma receive_1:
  "gs_order res = 1 \<Longrightarrow> receive [a, b] res = [if failureOf res \<noteq> None \<and> \<not> jb_completed a then a \<lparr> jb_cancelled := True \<rparr> else a,
    b \<lparr> jb_graph := gs_graph res, jb_completed := True, jb_err := failureOf res \<rparr>]"
  by (auto simp: receive_def failureOf_def Let_def)

lemma originalErrors_pair:
  "originalErrors [a, b] =
    (if jb_cancelled a then [] else (case jb_err a of None \<Rightarrow> [] | Some e \<Rightarrow> [wrap (''failed to get target graph #'' @ decimal 1 @ '': '') e])) @
    (if jb_cancelled b then [] else (case jb_err b of None \<Rightarrow> [] | Some e \<Rightarrow> [wrap (''failed to get target graph #'' @ decimal 2 @ '': '') e]))"
  by (simp add: originalErrors_def map_filter_simps numeral_2_eq_2 split: option.split)

text \<open>C17: the first failure is reported, alone. The fetch of two graphs returns the error of the goroutine
  that failed first, with the number of its graph; the outcome of the other one, which is cancelled and
  may report any error or even a graph, does not show. When neither fails the two graphs are returned
  in the order of the request, whichever arrived first; a graph without chunks counts as a failure.\<close>

theorem fetchTargetGraphs_first_failure:
  assumes "gs_order res = 0 \<and> gs_order res' = 1 \<or> gs_order res = 1 \<and> gs_order res' = 0" "ctx 0 = None"
  shows "fetchTargetGraphs ctx [res, res'] =
    (case failureOf res of
       Some e \<Rightarrow> Inl (fetchError res e)
     | None \<Rightarrow> (case failureOf res' of
         Some e \<Rightarrow> Inl (fetchError res' e)
       | None \<Rightarrow> Inr (if gs_order res = 0 then (gs_graph res, gs_graph res') else (gs_graph res', gs_graph res))))"
  using assms(1)
proof
  assume "gs_order res = 0 \<and> gs_order res' = 1"
  then show ?thesis
    using assms(2) by (cases "failureOf res"; cases "failureOf res'")
      (simp_all add: fetchTargetGraphs_def receive_0 receive_1 originalErrors_pair fetchError_def newJob_def checkCtx_def Let_def numeral_2_eq_2)
next
  assume "gs_order res = 1 \<and> gs_order res' = 0"
  then show ?thesis
    using assms(2) by (cases "failureOf res"; cases "failureOf res'")
      (simp_all add: fetchTargetGraphs_def receive_0 receive_1 originalErrors_pair fetchError_def newJob_def checkCtx_def Let_def numeral_2_eq_2)
qed

theorem fetchTargetGraphs_first_failure_witness:
  "fetchTargetGraphs (\<lambda>_. None) [\<lparr> gs_order = 1, gs_graph = noGraph, gs_err = Some (Msg ''disk'') \<rparr>,
      \<lparr> gs_order = 0, gs_graph = noGraph, gs_err = Some ErrCanceled \<rparr>] =
    Inl (Wrapped '''' [wrap (''failed to get target graph #'' @ decimal 2 @ '': '') (Msg ''disk'')])"
  using fetchTargetGraphs_first_failure [of "\<lparr> gs_order = 1, gs_graph = noGraph, gs_err = Some (Msg ''disk'') \<rparr>"
      "\<lparr> gs_order = 0, gs_graph = noGraph, gs_err = Some ErrCanceled \<rparr>" "\<lambda>_. None"]
  by (simp add: failureOf_def fetchError_def numeral_2_eq_2)

section \<open>Everything changed\<close>

fun wholeChange :: "Target option \<Rightarrow> Target option \<Rightarrow> DiffTarget" where
  "wholeChange (Some b) None = \<lparr> cd_ChangeType = DiffTypeDeleted, cd_Before = Some b, cd_After = None, cd_Distance = 0 \<rparr>"
| "wholeChange None (Some a) = \<lparr> cd_ChangeType = DiffTypeNew, cd_Before = None, cd_After = Some a, cd_Distance = 0 \<rparr>"
| "wholeChange b a = \<lparr> cd_ChangeType = DiffTypeChanged, cd_Before = b, cd_After = a, cd_Distance = 0 \<rparr>"

lemma allTargetsChanged_eq:
  assumes "distinct (map fst before)" "distinct (map fst after)" "never_cancelled ctx"
  shows "allTargetsChanged ctx k before after = Inr (map (\<lambda>name. wholeChange (map_of before name) (map_of after name))
    (map fst before @ filter (\<lambda>name. map_of before name = None) (map fst after)))"
proof -
  have "map (allChangedBefore after) before = map (\<lambda>name. wholeChange (map_of before name) (map_of after name)) (map fst before)"
    unfolding map_map by (intro map_cong [OF refl]) (auto simp: allChangedBefore_def assms(1) split: option.splits)
  moreover have "List.map_filter (allChangedAfter before) xs =
      map (\<lambda>name. wholeChange (map_of before name) (map_of after name)) (filter (\<lambda>name. map_of before name = None) (map fst xs))"
    if "set xs \<subseteq> set after" for xs
    using that
  proof (induction xs)
    case (Cons x xs)
    have "map_of after (fst x) = Some (snd x)"
      using Cons.prems assms(2) by (cases x) simp
    then show ?case
      using Cons by (cases x) (simp add: map_filter_simps allChangedAfter_def)
  qed (simp add: map_filter_simps)
  ultimately show ?thesis
    by (simp add: allTargetsChanged_def pollLoop_never [OF assms(3)])
qed

text \<open>C18: a change of a global file reports every target. When no graph lists a name twice, the result
  has exactly one entry for every name of either graph, at distance 0: deleted or new when only one of the
  graphs has it, as in the ordinary comparison, and changed otherwise, even with an equal hash.\<close>

theorem allTargetsChanged_complete:
  assumes "distinct (map fst before)" "distinct (map fst after)" "never_cancelled ctx"
  shows "\<exists>names. distinct names \<and> set names = fst ` set before \<union> fst ` set after \<and>
    allTargetsChanged ctx k before after = Inr (map (\<lambda>name. wholeChange (map_of before name) (map_of after name)) names)"
  using assms allTargetsChanged_eq [OF assms]
  by (intro exI [of _ "map fst before @ filter (\<lambda>name. map_of before name = None) (map fst after)"])
    (auto simp: map_of_eq_None_iff)

theorem allTargetsChanged_complete_witness:
  "\<exists>names. distinct names \<and> set names = {''//a:t''} \<and>
    allTargetsChanged (\<lambda>_. None :: unit option) 0 [] [(''//a:t'', undefined)] =
      Inr (map (\<lambda>name. wholeChange None (map_of [(''//a:t'', undefined)] name)) names)"
  using allTargetsChanged_complete [of "[]" "[(''//a:t'', undefined)]" "\<lambda>_. None :: unit option" 0]
  by (simp add: never_cancelled_def)

section \<open>The caches\<close>

lemma drainCache_Inr: "drainCache ctx k resps err acc = Inr rs \<Longrightarrow> rs = (if err = None then acc @ resps else [])"
proof (induction resps arbitrary: k acc)
  case (Cons r resps)
  then have "drainCache ctx (k + 1) resps err (acc @ [r]) = Inr rs"
    by (auto simp: bindE_eq_Inr)
  then show ?case
    using Cons.IH by fastforce
qed (auto simp: bindE_eq_Inr split: option.splits)

text \<open>C16: a result from the cache is complete. What \<open>GetChangedTargets\<close> returns is either computed, or it is
  the whole stored list of responses, read to its end without an error; a missing, broken or truncated
  entry is computed again, and a request that bypasses the cache never reads it.\<close>

theorem GetChangedTargets_cached_or_computed:
  assumes "GetChangedTargets env rg ctx swapHashes swap request repoCfg = Inr responses"
  shows "computeChangedTargets env rg ctx swap request repoCfg = Inr responses \<or>
    \<not> ctr_BypassCache request \<and> (\<exists>th1 th2 body.
      readTreehash env (ctr_First request) (rc_RepositoryID repoCfg) = Inr th1 \<and>
      readTreehash env (ctr_Second request) (rc_RepositoryID repoCfg) = Inr th2 \<and> th1 \<noteq> '''' \<and> th2 \<noteq> '''' \<and>
      ce_get env (GetComparedTargetsCachePath (ce_md5 env) (rc_RepositoryID repoCfg) th1 th2 (ctr_ExcludeFilesRegex request)) = Inr (Inr body) \<and>
      ce_gob env body = (responses, None))"
  using assms
  by (auto simp: GetChangedTargets_def comparedTargetsFromCache_def readTreehashParallel_def receiveHash_def arrivalsOf_def bindE_eq_Inr
    mapErrE_eq_Inr Let_def dest!: drainCache_Inr split: if_splits option.splits sum.splits prod.splits)

definition demoTreehash :: bytes where
  "demoTreehash = bytes_of ''abc''"

text \<open>A storage that has one tree hash for every revision and one list of responses for every pair.\<close>

definition demoController :: controllerEnv where
  "demoController = \<lparr>
     ce_get = (\<lambda>key. Inr (Inr (if HasPrefix key ''repo/treehashes'' then demoTreehash else [1]))),
     ce_orchestrator = (\<lambda>_. Inl (Msg ''unavailable'')), ce_md5 = (\<lambda>b. 1 # b), ce_zd = (\<lambda>_ _. None),
     ce_gob = (\<lambda>b. ([\<lparr> cr_ChangedTargets = [], cr_Metadata = Some emptyMetadata \<rparr>], None)), ce_maxMessageBytes = 100 \<rparr>"

definition demoBuild :: "ComputationStrategy \<Rightarrow> BuildDescription" where
  "demoBuild strategy = \<lparr> bd_Remote = ''r'', bd_BaseSha = ''s'', bd_ChangeRequests = [], bd_Strategy = strategy \<rparr>"

definition demoRequestFor :: "ComputationStrategy \<Rightarrow> GetChangedTargetsRequest" where
  "demoRequestFor strategy = \<lparr> ctr_First = demoBuild strategy, ctr_Second = demoBuild strategy, ctr_ExcludeFilesRegex = [], ctr_BypassCache = False \<rparr>"

definition demoRepo :: RepositoryConfig where
  "demoRepo = \<lparr> rc_Remote = ''r'', rc_RepositoryID = ''repo'', rc_FullHashRepos = [], rc_ExcludedFiles = [],
     rc_BzlmodEnabled = None, rc_BazelCommandPath = '''', rc_BazelExtraArgs = [], rc_BazelStartupOptions = [],
     rc_StreamBazelLogs = False, rc_QueryTimeoutSeconds = 600, rc_SeedAttributes = [], rc_AllTargetsFiles = [] \<rparr>"

definition demoOrder :: rangeOrder where
  "demoOrder = \<lparr> rg_names = rev, rg_targets = rev \<rparr>"

lemma demo_served: "GetChangedTargets demoController demoOrder (\<lambda>_ _. None) False True (demoRequestFor strategy) demoRepo =
    Inr [\<lparr> cr_ChangedTargets = [], cr_Metadata = Some emptyMetadata \<rparr>]"
proof -
  have "readTreehash demoController (demoBuild strategy) ''repo'' = Inr ''abc''"
    by (cases strategy; code_simp)
  moreover have "\<not> HasPrefix (GetComparedTargetsCachePath (ce_md5 demoController) ''repo'' ''abc'' ''abc'' []) ''repo/treehashes''"
    by code_simp
  ultimately show ?thesis
    by (simp add: GetChangedTargets_def comparedTargetsFromCache_def readTreehashParallel_def receiveHash_def arrivalsOf_def
      demoRequestFor_def demoRepo_def Let_def checkCtx_def) (simp add: demoController_def checkCtx_def)
qed

theorem GetChangedTargets_cached_or_computed_witness:
  "computeChangedTargets demoController demoOrder (\<lambda>_ _. None) True (demoRequestFor ComputationStrategyShell) demoRepo =
     Inr [\<lparr> cr_ChangedTargets = [], cr_Metadata = Some emptyMetadata \<rparr>] \<or>
   (\<exists>body. ce_gob demoController body = ([\<lparr> cr_ChangedTargets = [], cr_Metadata = Some emptyMetadata \<rparr>], None))"
  using GetChangedTargets_cached_or_computed [OF demo_served, of ComputationStrategyShell] by blast

definition withStrategy :: "ComputationStrategy \<Rightarrow> GetChangedTargetsRequest \<Rightarrow> GetChangedTargetsRequest" where
  "withStrategy s r = r \<lparr> ctr_First := (ctr_First r) \<lparr> bd_Strategy := s \<rparr>, ctr_Second := (ctr_Second r) \<lparr> bd_Strategy := s \<rparr> \<rparr>"

lemma readTreehash_strategy [simp]: "readTreehash env (b \<lparr> bd_Strategy := s \<rparr>) repositoryID = readTreehash env b repositoryID"
  by (simp add: readTreehash_def GetTreehashCachePath_def)

lemma comparedTargetsFromCache_request:
  "ctr_ExcludeFilesRegex r = ctr_ExcludeFilesRegex r' \<Longrightarrow>
    comparedTargetsFromCache env ctx arrivals r repositoryID = comparedTargetsFromCache env ctx arrivals r' repositoryID"
  by (simp only: comparedTargetsFromCache_def)

text \<open>C36: the cache of results does not tell strategies apart. When a result is cached that was computed with
  one strategy, it is served to a request that asks for any other, although the keys of the graphs
  themselves contain the strategy because graphs of different strategies may differ.\<close>

theorem cached_result_ignores_strategy:
  assumes "\<not> ctr_BypassCache r" "hit \<noteq> []"
    and "comparedTargetsFromCache env ctx (arrivalsOf swapHashes (0, readTreehash env (ctr_First (withStrategy s r)) (rc_RepositoryID repo))
      (1, readTreehash env (ctr_Second (withStrategy s r)) (rc_RepositoryID repo))) (withStrategy s r) (rc_RepositoryID repo) = Inr hit"
  shows "GetChangedTargets env rg ctx swapHashes swap (withStrategy s' r) repo = Inr hit"
proof -
  have "comparedTargetsFromCache env ctx arrivals (withStrategy s' r) repositoryID =
      comparedTargetsFromCache env ctx arrivals (withStrategy s r) repositoryID" for arrivals repositoryID
    by (rule comparedTargetsFromCache_request) (simp add: withStrategy_def)
  then show ?thesis
    using assms by (simp add: GetChangedTargets_def Let_def) (simp add: withStrategy_def)
qed

theorem cached_result_ignores_strategy_witness:
  "GetChangedTargets demoController demoOrder (\<lambda>_ _. None) False True
     (withStrategy ComputationStrategyNative (demoRequestFor ComputationStrategyShell)) demoRepo =
   Inr [\<lparr> cr_ChangedTargets = [], cr_Metadata = Some emptyMetadata \<rparr>]"
proof -
  have "readTreehash demoController (demoBuild ComputationStrategyShell) ''repo'' = Inr ''abc''"
    by code_simp
  moreover have "\<not> HasPrefix (GetComparedTargetsCachePath (ce_md5 demoController) ''repo'' ''abc'' ''abc'' []) ''repo/treehashes''"
    by code_simp
  ultimately show ?thesis
    by (intro cached_result_ignores_strategy [where s = ComputationStrategyShell])
      (simp_all add: comparedTargetsFromCache_def readTreehashParallel_def receiveHash_def arrivalsOf_def withStrategy_def
        demoRequestFor_def demoRepo_def, simp add: demoController_def checkCtx_def)
qed

text \<open>C35: a corrupt graph blob fails the request. When the tree hash is stored but the graph blob under its key
  is not a valid TGB file, the graph is not recomputed, whatever the orchestrator would return: the
  request fails with an error that wraps the corruption, as often as it is repeated.\<close>

theorem corrupt_blob_not_recomputed:
  assumes "\<not> tgr_BypassCache req" "ctx 0 0 = None"
    and "ce_get env (GetTreehashCachePath (ce_md5 env) repositoryID (tgr_Build req)) = Inr (Inr treehash)"
    and "ce_get env (GetTGBGraphByTreeHash (ce_md5 env) repositoryID (string_of treehash) (bd_Strategy (tgr_Build req)) (tgr_ExcludeFilesRegex req)) =
      Inr (Inr data)"
    and "NewReader data = Inl e"
  shows "\<exists>err. getGraph env ctx req repositoryID = Inl err \<and> errorsIs err ErrCorruptTGB"
proof -
  have "\<not> errorsIs (tgbErr e) ErrNotFound"
    by (cases e) simp_all
  then show ?thesis
    using assms
    by (simp add: getGraph_def cachedGraph_def readCachedGraph_def NewTGBGraphReader_def unlessCancelled_def IsNotFound_def)
qed

theorem corrupt_blob_not_recomputed_witness:
  "\<exists>err. getGraph demoController (\<lambda>_ _. None) (graphRequest (demoRequestFor ComputationStrategyShell) (demoBuild ComputationStrategyShell)) ''repo'' = Inl err \<and>
     errorsIs err ErrCorruptTGB"
proof -
  let ?req = "graphRequest (demoRequestFor ComputationStrategyShell) (demoBuild ComputationStrategyShell)"
  have "ce_get demoController (GetTreehashCachePath (ce_md5 demoController) ''repo'' (tgr_Build ?req)) = Inr (Inr demoTreehash)"
    by code_simp
  moreover have "ce_get demoController (GetTGBGraphByTreeHash (ce_md5 demoController) ''repo'' (string_of demoTreehash)
      (bd_Strategy (tgr_Build ?req)) (tgr_ExcludeFilesRegex ?req)) = Inr (Inr [1])"
    by code_simp
  moreover obtain e where "NewReader [1] = Inl e"
    by (cases "NewReader [1]") (auto simp: NewReader_def headerSize_def footerSize_def)
  ultimately show ?thesis
    using corrupt_blob_not_recomputed [of ?req "\<lambda>_ _. None" demoController "''repo''" demoTreehash "[1]"]
    by (simp add: graphRequest_def demoRequestFor_def)
qed

section \<open>Mixed formats\<close>

lemma drainTGB_built:
  "tr_built g \<Longrightarrow> drainTGB zd g acc = Inr (acc @ drop (tr_next g) (tr_chunks g))"
proof (induction "length (tr_chunks g) - tr_next g" arbitrary: g acc)
  case 0
  then show ?case
    by (subst drainTGB.simps) (simp add: tgbRead_def tgbNext_def)
next
  case (Suc n)
  let ?g = "g \<lparr> tr_next := tr_next g + 1 \<rparr>"
  have lt: "tr_next g < length (tr_chunks g)"
    using Suc.hyps(2) by linarith
  then have "tgbRead zd g = (Inr (tr_chunks g ! tr_next g), ?g)"
    using Suc.prems by (simp add: tgbRead_def tgbNext_def)
  moreover have "drainTGB zd ?g (acc @ [tr_chunks g ! tr_next g]) = Inr ((acc @ [tr_chunks g ! tr_next g]) @ drop (tr_next g + 1) (tr_chunks g))"
    using Suc.hyps(1) [of ?g] Suc.hyps(2) Suc.prems by simp
  ultimately show ?case
    using Cons_nth_drop_Suc [OF lt] by (subst drainTGB.simps) simp
qed

definition openedTGB :: "Reader \<Rightarrow> nat \<Rightarrow> fetchedGraph" where
  "openedTGB r maxBytes = \<lparr> fg_tgb = Some \<lparr> tr_r = r, tr_maxBytes = maxBytes, tr_chunks = [], tr_built = False, tr_next = 0 \<rparr>, fg_chunks = [] \<rparr>"

lemma buildChunks_total:
  "\<exists>gs metas. buildChunks maxBytes graph = Inr (map (\<lambda>g. \<lparr> gr_Targets = g, gr_Metadata = None \<rparr>) gs @
      map (\<lambda>m. \<lparr> gr_Targets = [], gr_Metadata = Some m \<rparr>) metas) \<and> concat gs = g_Targets graph \<and> gs \<noteq> [] \<and>
    (\<forall>m \<in> set metas. md_AllTargetsFileHashes m = [])"
proof -
  let ?md = "g_Metadata graph"
  obtain gs where gs: "SplitBySize OptimizedTarget_Size (g_Targets graph) maxBytes = Inr gs" "concat gs = g_Targets graph" "gs \<noteq> []"
    using SplitBySize_total [of OptimizedTarget_Size "g_Targets graph" maxBytes] by blast
  obtain metas where m: "SplitMetadata (md_TargetIDMapping ?md) (md_RuleTypeMapping ?md) (md_TagMapping ?md) (md_AttributeNameMapping ?md)
      (md_AttributeStringValueMapping ?md) maxBytes = Inr metas"
    using SplitMetadata_total by blast
  show ?thesis
    using gs m SplitMetadata_no_hashes(2) [OF m]
    by (intro exI [of _ gs] exI [of _ metas]) (simp add: buildChunks_def)
qed

lemma materialize_opened:
  assumes "fst (DecodeGraph zd r) = Inr graph" "buildChunks maxBytes graph = Inr (c # cs)"
  shows "materializeChunks zd (openedTGB r maxBytes) = Inr (c # cs)"
proof -
  obtain r' where d: "DecodeGraph zd r = (Inr graph, r')"
    using assms(1) by (cases "DecodeGraph zd r") simp
  let ?g = "\<lparr> tr_r = r', tr_maxBytes = maxBytes, tr_chunks = c # cs, tr_built = True, tr_next = 1 \<rparr>"
  have "tgbRead zd \<lparr> tr_r = r, tr_maxBytes = maxBytes, tr_chunks = [], tr_built = False, tr_next = 0 \<rparr> = (Inr c, ?g)"
    by (simp add: tgbRead_def bindS_def tgbBuild_def d assms(2) tgbNext_def)
  then show ?thesis
    using drainTGB_built [of ?g zd "[c]"] by (simp add: materializeChunks_def openedTGB_def drainTGB.simps)
qed

text \<open>C37: a stored graph that is read as a stream loses its file hashes. Decoding a TGB blob into chunks
  keeps every target, but the chunks carry no hashes of the files that affect every target, so that a
  comparison with a graph that has such hashes reports every target as changed even when they agree.\<close>

theorem tgb_stream_loses_file_hashes:
  assumes "fst (DecodeGraph zd r) = Inr graph" "never_cancelled ctx"
  shows "\<exists>chunks targets md. materializeChunks zd (openedTGB r maxBytes) = Inr chunks \<and>
    concat (map gr_Targets chunks) = g_Targets graph \<and>
    getTargetsAndMetadata ctx 0 chunks ([], emptyMetadata) = Inr (targets, md) \<and>
    md_AllTargetsFileHashes md = [] \<and> allTargetsFileChanged md (other \<lparr> md_AllTargetsFileHashes := h # hs \<rparr>)"
proof -
  obtain gs metas where b: "buildChunks maxBytes graph = Inr (map (\<lambda>g. \<lparr> gr_Targets = g, gr_Metadata = None \<rparr>) gs @
      map (\<lambda>m. \<lparr> gr_Targets = [], gr_Metadata = Some m \<rparr>) metas)" "concat gs = g_Targets graph"
      "\<forall>m \<in> set metas. md_AllTargetsFileHashes m = []" "gs \<noteq> []"
    using buildChunks_total by blast
  let ?chunks = "map (\<lambda>g. \<lparr> gr_Targets = g, gr_Metadata = None \<rparr>) gs @ map (\<lambda>m. \<lparr> gr_Targets = [], gr_Metadata = Some m \<rparr>) metas"
  obtain c cs where "?chunks = c # cs"
    using b(4) by (cases gs) auto
  then have m: "materializeChunks zd (openedTGB r maxBytes) = Inr ?chunks"
    using materialize_opened [OF assms(1), of maxBytes c cs] b(1) by simp
  have mf: "List.map_filter gr_Metadata ?chunks = metas"
    by (simp add: List.map_filter_def comp_def)
  have "foldl putAll [] (map md_AllTargetsFileHashes metas) = []"
    using b(3) by (induction metas) (simp_all add: putAll_def)
  then have e: "md_AllTargetsFileHashes (foldl mergeMetadata emptyMetadata metas) = []"
    by (simp add: foldl_merge_hashes emptyMetadata_def)
  have "concat (map gr_Targets ?chunks) = g_Targets graph"
    using b(2) by (simp add: comp_def)
  then show ?thesis
    using m e getTargetsAndMetadata_never [OF assms(2), of 0 ?chunks "[]" emptyMetadata]
    by (intro exI [of _ ?chunks] exI [of _ "foldl putTarget [] (concat (map gr_Targets ?chunks))"] exI [of _ "foldl mergeMetadata emptyMetadata metas"])
      (simp add: mf allTargetsFileChanged_def mapsEqual_def)
qed

theorem tgb_stream_loses_file_hashes_witness:
  "\<exists>r chunks targets md. NewReader (writeBlob storeAll exampleEncoder) = Inr r \<and>
    materializeChunks loadAll (openedTGB r 100) = Inr chunks \<and>
    getTargetsAndMetadata (\<lambda>_. None :: unit option) 0 chunks ([], emptyMetadata) = Inr (targets, md) \<and>
    allTargetsFileChanged md (emptyMetadata \<lparr> md_AllTargetsFileHashes := [(''go.mod'', ''ff'')] \<rparr>)"
proof -
  obtain outs where outs: "encoded exampleEncoder outs"
    using newEncoder_encoded [OF example_newEncoder] by blast
  have opts: "options_ok (e_opts exampleEncoder)"
    by (simp add: options_ok_def exampleEncoder_def exampleOptions_def)
  have "strmap_ok (md_AllTargetsFileHashes (g_Metadata (e_g exampleEncoder)))"
    using example_graph_ok by (simp add: graph_ok_def exampleEncoder_def)
  then obtain g' where "Decode loadAll (writeBlob storeAll exampleEncoder) = Inr g'"
    using Decode_writeBlob [OF outs example_limits example_zstd opts] by blast
  then have "fst (DecodeGraph loadAll (openedReader storeAll exampleEncoder)) = Inr g'"
    by (simp add: Decode_def example_NewReader)
  moreover have "never_cancelled (\<lambda>_. None :: unit option)"
    by (simp add: never_cancelled_def)
  ultimately show ?thesis
    using tgb_stream_loses_file_hashes [where zd = loadAll and r = "openedReader storeAll exampleEncoder" and graph = g'
        and ctx = "\<lambda>_. None :: unit option" and maxBytes = 100 and other = emptyMetadata and h = "(''go.mod'', ''ff'')" and hs = "[]"]
      example_NewReader by blast
qed

end
