(* ===== verification/Itg.thy ===== *)
theory Itg
  imports GraphMapper Bfs
begin

text \<open>
  \<open>core/itg/graph\<close>: the incremental target graph. A graph keeps its targets as shared objects: the tables
  \<open>OptimizedTargets\<close> and \<open>ExternalRuleTargets\<close> hold pointers, which may be the same, so the objects are in
  a store of their own. Target IDs are positions that never wrap. An \<open>IntSet\<close> is the list of its
  elements in the order a range visits them.
\<close>

section \<open>State\<close>

type_synonym addr = nat

record ItgTarget =
  it_ID :: nat
  it_Hash :: slice
  it_HashWithoutDeps :: slice
  it_RuleType :: nat
  it_Deps :: "nat list"
  it_ReverseDeps :: "nat list"
  it_Tags :: "nat list"
  it_Root :: bool
  it_External :: bool
  it_Attributes :: "(nat, nat) gomap"

text \<open>A pair of maps such as \<open>RuleTypeToID\<close> and \<open>RuleTypeIDToString\<close>.\<close>

record idTable =
  tb_ToID :: "(string, nat) gomap"
  tb_ToString :: "nat \<rightharpoonup> string"

record OptimizedGraph =
  og_store :: "addr \<Rightarrow> ItgTarget"
  og_alloc :: addr
  og_OptimizedTargets :: "(nat, addr) gomap"
  og_ExternalRuleTargets :: "(nat, addr) gomap"
  og_NextTargetID :: nat
  og_TargetNameToID :: "string \<rightharpoonup> nat"
  og_TargetIDToString :: "nat \<rightharpoonup> string"
  og_RuleType :: idTable
  og_Tag :: idTable
  og_AttrName :: idTable
  og_AttrValue :: idTable

datatype 'e itgError = TargetNotFound nat | DependencyNotFound string string | DependencyTargetNotFound string nat
  | MissingHash string | MissingRuleHash string | HashingFailed "'e hashError" | Cancelled 'e | NilTarget

text \<open>The set of invalidated IDs is passed along with the graph.\<close>

type_synonym itgState = "OptimizedGraph \<times> nat list"

text \<open>\<open>m[k]\<close> of a map with string values.\<close>

definition stringOf :: "('k \<rightharpoonup> string) \<Rightarrow> 'k \<Rightarrow> string" where
  "stringOf m k = (case m k of None \<Rightarrow> '''' | Some s \<Rightarrow> s)"

definition newObject :: "ItgTarget \<Rightarrow> OptimizedGraph \<Rightarrow> addr \<times> OptimizedGraph" where
  "newObject t g = (og_alloc g, g \<lparr> og_store := (og_store g)(og_alloc g := t), og_alloc := Suc (og_alloc g) \<rparr>)"

definition modifyAt :: "addr \<Rightarrow> (ItgTarget \<Rightarrow> ItgTarget) \<Rightarrow> OptimizedGraph \<Rightarrow> OptimizedGraph" where
  "modifyAt a f g = g \<lparr> og_store := (og_store g)(a := f (og_store g a)) \<rparr>"

text \<open>A \<open>for\<close> loop whose body may return an error.\<close>

fun eachS :: "('a \<Rightarrow> ('s, 'e, unit) stateful) \<Rightarrow> 'a list \<Rightarrow> ('s, 'e, unit) stateful" where
  "eachS f [] s = (Inr (), s)"
| "eachS f (x # xs) s = (case f x s of (Inl e, s') \<Rightarrow> (Inl e, s') | (Inr _, s') \<Rightarrow> eachS f xs s')"

lemma filter_count_le: "(\<And>x. x \<in> set xs \<Longrightarrow> P x \<Longrightarrow> Q x) \<Longrightarrow> length (filter P xs) \<le> length (filter Q xs)"
  by (induction xs) auto

lemma filter_count_less:
  assumes "y \<in> set xs" "Q y" "\<not> P y" "\<And>x. x \<in> set xs \<Longrightarrow> P x \<Longrightarrow> Q x"
  shows "length (filter P xs) < length (filter Q xs)"
  using assms
proof (induction xs)
  case (Cons x xs)
  then show ?case
    using filter_count_le [of xs P Q] by (cases "x = y") (auto simp: less_Suc_eq_le)
qed simp

section \<open>Identifiers\<close>

definition getOrGenerateTargetID :: "string \<Rightarrow> OptimizedGraph \<Rightarrow> nat \<times> OptimizedGraph" where
  "getOrGenerateTargetID targetName g = (case og_TargetNameToID g targetName of
     Some i \<Rightarrow> (i, g)
   | None \<Rightarrow> let i = og_NextTargetID g in
       (i, g \<lparr> og_NextTargetID := i + 1, og_TargetNameToID := (og_TargetNameToID g)(targetName \<mapsto> i),
               og_TargetIDToString := (og_TargetIDToString g)(i \<mapsto> targetName) \<rparr>))"

definition getOrGenerate :: "string \<Rightarrow> (string, nat) gomap \<Rightarrow> nat \<times> (string, nat) gomap" where
  "getOrGenerate key m = (case map_of m key of
     Some val \<Rightarrow> (val, m)
   | None \<Rightarrow> (length m, AList.update key (length m) m))"

definition getOrGenerateRecordReverse :: "string \<Rightarrow> idTable \<Rightarrow> nat \<times> idTable" where
  "getOrGenerateRecordReverse key tb = (case getOrGenerate key (tb_ToID tb) of (i, m) \<Rightarrow>
     (i, \<lparr> tb_ToID = m, tb_ToString = (tb_ToString tb)(i \<mapsto> key) \<rparr>))"

fun generateIDs :: "string list \<Rightarrow> nat list \<Rightarrow> OptimizedGraph \<Rightarrow> nat list \<times> OptimizedGraph" where
  "generateIDs [] depIDs g = (depIDs, g)"
| "generateIDs (dep # deps) depIDs g = (case getOrGenerateTargetID dep g of (i, g) \<Rightarrow> generateIDs deps (List.insert i depIDs) g)"

fun recordAll :: "string list \<Rightarrow> idTable \<Rightarrow> nat list \<times> idTable" where
  "recordAll [] tb = ([], tb)"
| "recordAll (key # keys) tb = (case getOrGenerateRecordReverse key tb of (i, tb) \<Rightarrow>
     case recordAll keys tb of (is, tb) \<Rightarrow> (i # is, tb))"

definition recordAttribute :: "idTable \<times> idTable \<times> (nat, nat) gomap \<Rightarrow> string \<times> string \<Rightarrow> idTable \<times> idTable \<times> (nat, nat) gomap" where
  "recordAttribute st attr = (case st of (names, vals, out) \<Rightarrow> case attr of (name, val) \<Rightarrow>
     case getOrGenerateRecordReverse name names of (i, names) \<Rightarrow>
     case getOrGenerateRecordReverse val vals of (v, vals) \<Rightarrow> (names, vals, AList.update i v out))"

text \<open>The tag and attribute loops that \<open>AddTarget\<close> and \<open>upsertTarget\<close> share.\<close>

definition tagsAndAttributes :: "i32 \<Rightarrow> HashTarget \<Rightarrow> OptimizedGraph \<Rightarrow> (nat list \<times> (nat, nat) gomap) \<times> OptimizedGraph" where
  "tagsAndAttributes STRING target g =
    (case recordAll (ht_Tags target) (og_Tag g) of (tagIDs, tags) \<Rightarrow>
     case foldl recordAttribute (og_AttrName g, og_AttrValue g, []) (List.map_filter (stringAttribute STRING) (ht_Attributes target)) of
       (names, vals, attributes) \<Rightarrow>
         ((tagIDs, attributes), g \<lparr> og_Tag := tags, og_AttrName := names, og_AttrValue := vals \<rparr>))"

section \<open>Building and copying\<close>

definition AddTarget :: "i32 \<Rightarrow> HashTarget \<Rightarrow> OptimizedGraph \<Rightarrow> OptimizedGraph" where
  "AddTarget STRING target g =
    (case getOrGenerateTargetID (ht_Name target) g of (i, g) \<Rightarrow>
     case generateIDs (ht_Deps target) [] g of (depIDs, g) \<Rightarrow>
     case getOrGenerateRecordReverse (ht_RuleType target) (og_RuleType g) of (ruleType, ruleTypes) \<Rightarrow>
     let g = g \<lparr> og_RuleType := ruleTypes \<rparr>;
         external = ht_RuleType target = ExternalRuleType in
     case (if external then (([], []), g) else tagsAndAttributes STRING target g) of ((tagIDs, attributes), g) \<Rightarrow>
     case newObject \<lparr> it_ID = i, it_Hash = ht_Hash target, it_HashWithoutDeps = ht_HashWithoutDeps target, it_RuleType = ruleType,
         it_Deps = depIDs, it_ReverseDeps = [], it_Tags = tagIDs, it_Root = (\<not> external \<and> ht_Root target),
         it_External = ht_External target, it_Attributes = attributes \<rparr> g of (a, g) \<Rightarrow>
       g \<lparr> og_OptimizedTargets := AList.update i a (og_OptimizedTargets g),
           og_ExternalRuleTargets := (if external then AList.update i a (og_ExternalRuleTargets g) else og_ExternalRuleTargets g) \<rparr>)"

definition emptyTable :: idTable where
  "emptyTable = \<lparr> tb_ToID = [], tb_ToString = (\<lambda>_. None) \<rparr>"

definition emptyObject :: ItgTarget where
  "emptyObject = \<lparr> it_ID = 0, it_Hash = None, it_HashWithoutDeps = None, it_RuleType = 0, it_Deps = [], it_ReverseDeps = [],
     it_Tags = [], it_Root = False, it_External = False, it_Attributes = [] \<rparr>"

definition emptyGraph :: OptimizedGraph where
  "emptyGraph = \<lparr> og_store = (\<lambda>_. emptyObject), og_alloc = 0, og_OptimizedTargets = [], og_ExternalRuleTargets = [], og_NextTargetID = 0,
     og_TargetNameToID = (\<lambda>_. None), og_TargetIDToString = (\<lambda>_. None), og_RuleType = emptyTable, og_Tag = emptyTable,
     og_AttrName = emptyTable, og_AttrValue = emptyTable \<rparr>"

definition addReverseDep :: "nat \<Rightarrow> OptimizedGraph \<Rightarrow> nat \<Rightarrow> OptimizedGraph" where
  "addReverseDep i g depID = (case map_of (og_OptimizedTargets g) depID of
     None \<Rightarrow> g
   | Some child \<Rightarrow> modifyAt child (\<lambda>t. t \<lparr> it_ReverseDeps := List.insert i (it_ReverseDeps t) \<rparr>) g)"

definition OptimizeGraph :: "i32 \<Rightarrow> targetMap \<Rightarrow> OptimizedGraph" where
  "OptimizeGraph STRING targets =
    (let g = foldl (\<lambda>g (name, target). AddTarget STRING target g) emptyGraph targets in
     foldl (\<lambda>g (i, a). foldl (addReverseDep i) g (it_Deps (og_store g a))) g (og_OptimizedTargets g))"

fun copyAll :: "(nat, addr) gomap \<Rightarrow> OptimizedGraph \<Rightarrow> (nat, addr) gomap \<times> OptimizedGraph" where
  "copyAll [] g = ([], g)"
| "copyAll ((i, a) # entries) g = (case newObject (og_store g a) g of (b, g) \<Rightarrow>
     case copyAll entries g of (out, g) \<Rightarrow> ((i, b) # out, g))"

definition Copy :: "OptimizedGraph \<Rightarrow> OptimizedGraph" where
  "Copy g =
    (case copyAll (og_OptimizedTargets g) g of (optimizedTargetsCopy, g) \<Rightarrow>
     case copyAll (og_ExternalRuleTargets g) g of (externalRuleTargetsCopy, g) \<Rightarrow>
       g \<lparr> og_OptimizedTargets := optimizedTargetsCopy, og_ExternalRuleTargets := externalRuleTargetsCopy \<rparr>)"

definition attributeOfStrings :: "i32 \<Rightarrow> string \<Rightarrow> string \<Rightarrow> Attribute" where
  "attributeOfStrings STRING n v = \<lparr> at_Name = Some n, at_ExplicitlySpecified = None, at_Nodep = None, at_Type = Some STRING,
     at_IntValue = None, at_StringValue = Some v, at_BooleanValue = None, at_TristateValue = None, at_StringListValue = [],
     at_StringDictValue = [], at_FilesetListValue = [], at_LabelListDictValue = [], at_StringListDictValue = [],
     at_IntListValue = [], at_LabelDictUnaryValue = [], at_LabelKeyedStringDictValue = [] \<rparr>"

definition OptimizedTargetToTarget :: "i32 \<Rightarrow> OptimizedGraph \<Rightarrow> nat \<Rightarrow> HashTarget" where
  "OptimizedTargetToTarget STRING g targetID = (case og_TargetIDToString g targetID of
     None \<Rightarrow> newTarget '''' ''''
   | Some name \<Rightarrow> (case map_of (og_OptimizedTargets g) targetID of
         None \<Rightarrow> newTarget name ''''
       | Some a \<Rightarrow> let t = og_store g a in
           \<lparr> ht_Name = name, ht_Hash = it_Hash t, ht_HashWithoutDeps = it_HashWithoutDeps t,
             ht_RuleType = stringOf (tb_ToString (og_RuleType g)) (it_RuleType t),
             ht_Deps = map (stringOf (og_TargetIDToString g)) (it_Deps t),
             ht_Tags = map (stringOf (tb_ToString (og_Tag g))) (it_Tags t),
             ht_Root = it_Root t, ht_External = it_External t, ht_SourceFile = None, ht_Rule = None,
             ht_Attributes = map (\<lambda>(n, v). Some (attributeOfStrings STRING (stringOf (tb_ToString (og_AttrName g)) n)
               (stringOf (tb_ToString (og_AttrValue g)) v))) (it_Attributes t) \<rparr>))"

section \<open>Invalidation\<close>

definition getTargetByID :: "OptimizedGraph \<Rightarrow> nat \<Rightarrow> addr option" where
  "getTargetByID g i = (case map_of (og_OptimizedTargets g) i of
     Some a \<Rightarrow> Some a
   | None \<Rightarrow> map_of (og_ExternalRuleTargets g) i)"

text \<open>The number of targets that still have a hash.\<close>

definition hashedTargets :: "OptimizedGraph \<Rightarrow> nat" where
  "hashedTargets g = length (filter (\<lambda>(i, a). it_Hash (og_store g a) \<noteq> None) (og_OptimizedTargets g))"

definition clearHash :: "addr \<Rightarrow> OptimizedGraph \<Rightarrow> OptimizedGraph" where
  "clearHash a g = modifyAt a (\<lambda>t. t \<lparr> it_Hash := None \<rparr>) g"

lemma hashedTargets_clearHash:
  assumes "map_of (og_OptimizedTargets g) i = Some a" "it_Hash (og_store g a) \<noteq> None"
  shows "hashedTargets (clearHash a g) < hashedTargets g"
  unfolding hashedTargets_def clearHash_def modifyAt_def
  using map_of_SomeD [OF assms(1)] assms(2) by (auto intro!: filter_count_less split: if_splits)

text \<open>The queue of \<open>invalidateHashRecursively\<close>.\<close>

function invalidateLoop :: "nat list \<Rightarrow> itgState \<Rightarrow> itgState" where
  "invalidateLoop [] (g, invalidated) = (g, invalidated)"
| "invalidateLoop (targetID # candidates) (g, invalidated) = (case map_of (og_OptimizedTargets g) targetID of
     None \<Rightarrow> invalidateLoop candidates (g, invalidated)
   | Some a \<Rightarrow>
       if it_Hash (og_store g a) = None then invalidateLoop candidates (g, invalidated)
       else invalidateLoop (candidates @ it_ReverseDeps (og_store g a)) (clearHash a g, List.insert targetID invalidated))"
  by pat_completeness auto

termination invalidateLoop
  by (relation "inv_image (less_than <*lex*> less_than) (\<lambda>(c, g, inv). (hashedTargets g, length c))")
    (auto simp: hashedTargets_clearHash)

definition invalidateHashRecursively :: "nat list \<Rightarrow> itgState \<Rightarrow> itgState" where
  "invalidateHashRecursively ids s = invalidateLoop ids s"

section \<open>Removal\<close>

definition becomesRoot :: "OptimizedGraph \<Rightarrow> ItgTarget \<Rightarrow> bool" where
  "becomesRoot g t = (it_ReverseDeps t = [] \<and> CanBeRoot (stringOf (tb_ToString (og_RuleType g)) (it_RuleType t)))"

text \<open>\<open>ReverseDeps.Delete(id)\<close> and the root flag of a target that lost its last reverse dependency.\<close>

definition dropReverseDep :: "nat \<Rightarrow> addr \<Rightarrow> OptimizedGraph \<Rightarrow> OptimizedGraph" where
  "dropReverseDep i a g = modifyAt a (\<lambda>t. let t = t \<lparr> it_ReverseDeps := removeAll i (it_ReverseDeps t) \<rparr> in
     if becomesRoot g t then t \<lparr> it_Root := True \<rparr> else t) g"

definition unlinkReverse :: "nat \<Rightarrow> nat \<Rightarrow> (OptimizedGraph, 'e itgError, unit) stateful" where
  "unlinkReverse i reverseDepID g = (case map_of (og_OptimizedTargets g) reverseDepID of
     None \<Rightarrow> (Inl (TargetNotFound reverseDepID), g)
   | Some a \<Rightarrow> (Inr (), modifyAt a (\<lambda>t. t \<lparr> it_Deps := removeAll i (it_Deps t) \<rparr>) g))"

definition unlinkDep :: "nat \<Rightarrow> nat \<Rightarrow> (OptimizedGraph, 'e itgError, unit) stateful" where
  "unlinkDep i depID g = (case map_of (og_OptimizedTargets g) depID of
     None \<Rightarrow> (Inl (TargetNotFound depID), g)
   | Some a \<Rightarrow> (Inr (), dropReverseDep i a g))"

definition deleteTarget :: "nat \<Rightarrow> OptimizedGraph \<Rightarrow> OptimizedGraph" where
  "deleteTarget i g = g \<lparr> og_OptimizedTargets := AList.delete i (og_OptimizedTargets g),
     og_ExternalRuleTargets := AList.delete i (og_ExternalRuleTargets g),
     og_TargetNameToID := (og_TargetNameToID g)(stringOf (og_TargetIDToString g) i := None),
     og_TargetIDToString := (og_TargetIDToString g)(i := None) \<rparr>"

definition removeTarget :: "addr \<Rightarrow> (itgState, 'e itgError, unit) stateful" where
  "removeTarget a = (\<lambda>(g, invalidated). let i = it_ID (og_store g a) in
     case eachS (unlinkReverse i) (it_ReverseDeps (og_store g a)) g of
       (Inl e, g) \<Rightarrow> (Inl e, g, invalidated)
     | (Inr _, g) \<Rightarrow>
         (case eachS (unlinkDep i) (it_Deps (og_store g a)) g of
            (Inl e, g) \<Rightarrow> (Inl e, g, invalidated)
          | (Inr _, g) \<Rightarrow> (Inr (), invalidateHashRecursively (it_ReverseDeps (og_store g a)) (deleteTarget i g, removeAll i invalidated))))"

definition getPackage :: "string \<Rightarrow> string" where
  "getPackage targetName = TrimPrefix (fst (Cut targetName '':'')) ''//''"

text \<open>The body of the range over the targets; it can delete its own entry only.\<close>

definition checkDeleted :: "string set \<Rightarrow> string set \<Rightarrow> nat list \<Rightarrow> nat \<times> addr \<Rightarrow> (itgState, 'e itgError, unit) stateful" where
  "checkDeleted changedPkgs deletedPkgs targetIDsInQuery = (\<lambda>(i, a) (g, invalidated).
     let pkgName = getPackage (stringOf (og_TargetIDToString g) (it_ID (og_store g a))) in
     if pkgName \<in> deletedPkgs \<or> (pkgName \<in> changedPkgs \<and> it_ID (og_store g a) \<notin> set targetIDsInQuery)
     then removeTarget a (g, invalidated) else (Inr (), g, invalidated))"

definition checkDeletedTargets :: "string set \<Rightarrow> string set \<Rightarrow> targetMap \<Rightarrow> (itgState, 'e itgError, unit) stateful" where
  "checkDeletedTargets changedPkgs deletedPkgs targets = (\<lambda>(g, invalidated).
     let targetIDsInQuery = List.map_filter (\<lambda>(name, t). og_TargetNameToID g name) targets in
     eachS (checkDeleted changedPkgs deletedPkgs targetIDsInQuery) (og_OptimizedTargets g) (g, invalidated))"

section \<open>Insertion\<close>

text \<open>The loop over the dependencies of an inserted target: their IDs, and the links back.\<close>

fun linkDeps :: "nat \<Rightarrow> string \<Rightarrow> string list \<Rightarrow> nat list \<Rightarrow> (OptimizedGraph, 'e itgError, nat list) stateful" where
  "linkDeps i name [] depIDs g = (Inr depIDs, g)"
| "linkDeps i name (dep # deps) depIDs g = (case og_TargetNameToID g dep of
     None \<Rightarrow> (Inl (DependencyNotFound dep name), g)
   | Some depID \<Rightarrow> (case getTargetByID g depID of
         None \<Rightarrow> (Inl (DependencyTargetNotFound dep depID), g)
       | Some a \<Rightarrow> linkDeps i name deps (List.insert depID depIDs)
           (modifyAt a (\<lambda>t. t \<lparr> it_ReverseDeps := List.insert i (it_ReverseDeps t), it_Root := False \<rparr>) g)))"

definition dropOldDep :: "nat \<Rightarrow> nat list \<Rightarrow> OptimizedGraph \<Rightarrow> nat \<Rightarrow> OptimizedGraph" where
  "dropOldDep i depIDs g oldDep = (if oldDep \<in> set depIDs then g
     else case getTargetByID g oldDep of None \<Rightarrow> g | Some a \<Rightarrow> dropReverseDep i a g)"

text \<open>Updating the object of an ID, or adding one.\<close>

definition putObject :: "nat \<Rightarrow> nat \<Rightarrow> nat list \<Rightarrow> nat list \<times> (nat, nat) gomap \<Rightarrow> HashTarget \<Rightarrow> OptimizedGraph \<Rightarrow> addr \<times> OptimizedGraph" where
  "putObject i ruleTypeID depIDs tas target g = (case map_of (og_OptimizedTargets g) i of
     Some a \<Rightarrow> (a, modifyAt a (\<lambda>t. t \<lparr> it_Hash := ht_Hash target, it_HashWithoutDeps := ht_HashWithoutDeps target,
         it_RuleType := ruleTypeID, it_Deps := depIDs, it_Tags := fst tas, it_External := ht_External target,
         it_Attributes := snd tas \<rparr>) (foldl (dropOldDep i depIDs) g (it_Deps (og_store g a))))
   | None \<Rightarrow> (case newObject \<lparr> it_ID = i, it_Hash = ht_Hash target, it_HashWithoutDeps = ht_HashWithoutDeps target,
         it_RuleType = ruleTypeID, it_Deps = depIDs, it_ReverseDeps = [], it_Tags = fst tas, it_Root = CanBeRoot (ht_RuleType target),
         it_External = ht_External target, it_Attributes = snd tas \<rparr> g of (a, g) \<Rightarrow>
       (a, g \<lparr> og_OptimizedTargets := AList.update i a (og_OptimizedTargets g) \<rparr>)))"

definition upsertTarget :: "i32 \<Rightarrow> HashTarget \<Rightarrow> (itgState, 'e itgError, unit) stateful" where
  "upsertTarget STRING target = (\<lambda>(g, invalidated).
     case getOrGenerateTargetID (ht_Name target) g of (i, g) \<Rightarrow>
     case getOrGenerateRecordReverse (ht_RuleType target) (og_RuleType g) of (ruleTypeID, ruleTypes) \<Rightarrow>
     case linkDeps i (ht_Name target) (ht_Deps target) [] (g \<lparr> og_RuleType := ruleTypes \<rparr>) of
       (Inl e, g) \<Rightarrow> (Inl e, g, invalidated)
     | (Inr depIDs, g) \<Rightarrow>
         (case tagsAndAttributes STRING target g of (tas, g) \<Rightarrow>
          case putObject i ruleTypeID depIDs tas target g of (a, g) \<Rightarrow>
          case invalidateHashRecursively (it_ReverseDeps (og_store g a)) (g, invalidated) of (g, invalidated) \<Rightarrow>
            (Inr (), g, if ht_Hash target = None then List.insert i invalidated else invalidated)))"

text \<open>Updating the object of an external rule, or adding one; its dependencies are not linked.\<close>

definition putExternalObject :: "nat \<Rightarrow> nat \<Rightarrow> nat list \<Rightarrow> HashTarget \<Rightarrow> itgState \<Rightarrow> itgState" where
  "putExternalObject i ruleTypeID depIDs target = (\<lambda>(g, invalidated). case map_of (og_OptimizedTargets g) i of
       Some a \<Rightarrow> invalidateHashRecursively (it_ReverseDeps (og_store g a))
         (modifyAt a (\<lambda>t. t \<lparr> it_Hash := ht_Hash target, it_Deps := depIDs, it_HashWithoutDeps := ht_HashWithoutDeps target,
           it_External := ht_External target \<rparr>) g, invalidated)
     | None \<Rightarrow> (case newObject \<lparr> it_ID = i, it_Hash = ht_Hash target, it_HashWithoutDeps = ht_HashWithoutDeps target,
           it_RuleType = ruleTypeID, it_Deps = depIDs, it_ReverseDeps = [], it_Tags = [], it_Root = False,
           it_External = ht_External target, it_Attributes = [] \<rparr> g of (a, g) \<Rightarrow>
         (g \<lparr> og_OptimizedTargets := AList.update i a (og_OptimizedTargets g),
              og_ExternalRuleTargets := AList.update i a (og_ExternalRuleTargets g) \<rparr>, invalidated)))"

definition upsertExternalRuleTarget :: "HashTarget \<Rightarrow> itgState \<Rightarrow> itgState" where
  "upsertExternalRuleTarget target = (\<lambda>(g, invalidated).
     case getOrGenerateTargetID (ht_Name target) g of (i, g) \<Rightarrow>
     case getOrGenerateRecordReverse (ht_RuleType target) (og_RuleType g) of (ruleTypeID, ruleTypes) \<Rightarrow>
     case generateIDs (ht_Deps target) [] (g \<lparr> og_RuleType := ruleTypes \<rparr>) of (depIDs, g) \<Rightarrow>
       putExternalObject i ruleTypeID depIDs target (g, invalidated))"

text \<open>The targets of a query, roots first reached, dependencies before dependents.\<close>

definition topoSort :: "'e go_context \<Rightarrow> targetMap \<Rightarrow> nat \<Rightarrow> 'e hashError + HashTarget list \<times> nat" where
  "topoSort ctx targets k =
    (case GetTopologicalRootsAndIdentifyBuildableRoots targets of (roots, targets) \<Rightarrow>
     case toposortNames ctx roots [] (targets, {}, k) of
       (Inl e, s) \<Rightarrow> Inl e
     | (Inr targetNames, targets, visited, k) \<Rightarrow> Inr (List.map_filter (map_of targets) targetNames, k))"

definition removeDeletedSource :: "string \<Rightarrow> (itgState, 'e itgError, unit) stateful" where
  "removeDeletedSource name = (\<lambda>(g, invalidated). case og_TargetNameToID g name of
     None \<Rightarrow> (Inr (), g, invalidated)
   | Some toDeleteID \<Rightarrow> (case map_of (og_OptimizedTargets g) toDeleteID of
         None \<Rightarrow> (Inl NilTarget, g, invalidated)
       | Some a \<Rightarrow> removeTarget a (g, invalidated)))"

definition updateInvalidateTargets :: "i32 \<Rightarrow> 'e go_context \<Rightarrow> nat \<Rightarrow> string list \<Rightarrow> string set \<Rightarrow> string set \<Rightarrow> targetMap \<Rightarrow>
    (itgState, 'e itgError, nat) stateful" where
  "updateInvalidateTargets STRING ctx k deletedSrcFileTargets changedPkgs deletedPkgs targets =
    bindS (eachS removeDeletedSource deletedSrcFileTargets) (\<lambda>_.
    bindS (checkDeletedTargets changedPkgs deletedPkgs targets) (\<lambda>_.
    bindS (liftS (map_sum HashingFailed id (topoSort ctx targets k))) (\<lambda>(topoSortedTargets, k).
    bindS (eachS (upsertTarget STRING) topoSortedTargets) (\<lambda>_. retS k))))"

section \<open>Hashing\<close>

text \<open>The hashes that need no dependencies; \<open>k\<close> counts the polls of the source hasher's context.\<close>

definition availableHash :: "'e hashEnv \<Rightarrow> 'e HashParam \<Rightarrow> string \<Rightarrow> HashTarget \<Rightarrow> (nat, 'e hashError, slice \<times> slice) stateful" where
  "availableHash env p name target =
    (if ht_RuleType target = GeneratedFileType then retS (None, None)
     else if ht_RuleType target = PackageGroup then retS (Some (env_sha env (bytes_of name)), None)
     else if ht_RuleType target = SourceFileType then bindS (hp_Hasher p (ht_SourceFile target)) (\<lambda>h. retS (h, None))
     else if ht_RuleType target = ExternalRuleType then retS (None, None)
     else retS (None, Some (env_sha env (HashRuleCommon (ht_Rule target) []))))"

fun computeAvailableHashes :: "'e hashEnv \<Rightarrow> 'e HashParam \<Rightarrow> targetMap \<Rightarrow> (nat, 'e hashError, targetMap) stateful" where
  "computeAvailableHashes env p [] k = (Inr [], k)"
| "computeAvailableHashes env p ((name, target) # targets) k = (case availableHash env p name target k of
     (Inl e, k) \<Rightarrow> (Inl e, k)
   | (Inr (hash, hashWithoutDeps), k) \<Rightarrow>
       let target = (if hash \<noteq> None then target \<lparr> ht_Hash := hash \<rparr> else target);
           target = (if hashWithoutDeps \<noteq> None then target \<lparr> ht_HashWithoutDeps := hashWithoutDeps \<rparr> else target) in
       (case computeAvailableHashes env p targets k of
          (Inl e, k) \<Rightarrow> (Inl e, k)
        | (Inr rest, k) \<Rightarrow> (Inr ((name, target) # rest), k)))"

type_synonym computeState = "OptimizedGraph \<times> nat"

definition sortIDs :: "OptimizedGraph \<Rightarrow> nat list \<Rightarrow> nat list" where
  "sortIDs g ids = sort_key (stringOf (og_TargetIDToString g)) ids"

definition setHash :: "addr \<Rightarrow> slice \<Rightarrow> OptimizedGraph \<Rightarrow> OptimizedGraph" where
  "setHash a h g = modifyAt a (\<lambda>t. t \<lparr> it_Hash := h \<rparr>) g"

text \<open>\<open>for dep := range target.Deps { singleDep = dep; break }\<close>: zero without dependencies.\<close>

definition singleDep :: "nat list \<Rightarrow> nat" where
  "singleDep deps = (case deps of [] \<Rightarrow> 0 | d # _ \<Rightarrow> d)"

function computeHashes :: "(bytes \<Rightarrow> bytes) \<Rightarrow> 'e go_context \<Rightarrow> nat \<Rightarrow> computeState \<Rightarrow> ('e itgError + slice) \<times> computeState"
and computeDepHashes :: "(bytes \<Rightarrow> bytes) \<Rightarrow> 'e go_context \<Rightarrow> nat list \<Rightarrow> bytes \<Rightarrow> computeState \<Rightarrow> ('e itgError + bytes) \<times> computeState"
where
  "computeHashes sha ctx i (g, k) = (case ctx k of
     Some cause \<Rightarrow> (Inl (Cancelled cause), g, k + 1)
   | None \<Rightarrow> (case map_of (og_ExternalRuleTargets g) i of
       Some a \<Rightarrow> (Inr (it_Hash (og_store g a)), g, k + 1)
     | None \<Rightarrow> (case map_of (og_OptimizedTargets g) i of
         None \<Rightarrow> (Inl (TargetNotFound i), g, k + 1)
       | Some a \<Rightarrow> let target = og_store g a; ruleType = stringOf (tb_ToString (og_RuleType g)) (it_RuleType target) in
           if it_Hash target \<noteq> None then (Inr (it_Hash target), g, k + 1)
           else if ruleType = SourceFileType \<or> ruleType = PackageGroup
             then (Inl (MissingHash (stringOf (og_TargetIDToString g) i)), setHash a (Some []) g, k + 1)
           else if ruleType = GeneratedFileType then
             (case computeHashes sha ctx (singleDep (it_Deps target)) (setHash a (Some []) g, k + 1) of
                (Inl e, s) \<Rightarrow> (Inl e, s)
              | (Inr hash, g, k) \<Rightarrow> (Inr hash, if hash \<noteq> None then setHash a hash g else g, k))
           else (case it_HashWithoutDeps target of
               None \<Rightarrow> (Inl (MissingRuleHash (stringOf (og_TargetIDToString g) i)), setHash a (Some []) g, k + 1)
             | Some own \<Rightarrow>
                 (case computeDepHashes sha ctx (sortIDs g (it_Deps target)) own (setHash a (Some []) g, k + 1) of
                    (Inl e, s) \<Rightarrow> (Inl e, s)
                  | (Inr content, g, k) \<Rightarrow> (Inr (Some (sha content)), setHash a (Some (sha content)) g, k))))))"
| "computeDepHashes sha ctx [] content s = (Inr content, s)"
| "computeDepHashes sha ctx (dep # deps) content s = (case computeHashes sha ctx dep s of
     (Inl e, s) \<Rightarrow> (Inl e, s)
   | (Inr dephash, s) \<Rightarrow> computeDepHashes sha ctx deps (content @ sliceBytes dephash) s)"
  by pat_completeness auto

text \<open>Every call that goes on marks a target that had no hash, and no call takes a hash away.\<close>

definition unhashedTargets :: "OptimizedGraph \<Rightarrow> nat" where
  "unhashedTargets g = length (filter (\<lambda>(i, a). it_Hash (og_store g a) = None) (og_OptimizedTargets g))"

lemma unhashedTargets_setHash_le: "h \<noteq> None \<Longrightarrow> unhashedTargets (setHash a h g) \<le> unhashedTargets g"
  unfolding unhashedTargets_def setHash_def modifyAt_def by (auto intro!: filter_count_le split: if_splits)

lemma unhashedTargets_setHash_less:
  assumes "map_of (og_OptimizedTargets g) i = Some a" "it_Hash (og_store g a) = None"
  shows "unhashedTargets (setHash a (Some h) g) < unhashedTargets g"
  unfolding unhashedTargets_def setHash_def modifyAt_def
  using map_of_SomeD [OF assms(1)] assms(2) by (auto intro!: filter_count_less split: if_splits)

lemma generatedType_simps [simp]: "GeneratedFileType \<noteq> SourceFileType" "GeneratedFileType \<noteq> PackageGroup"
  by (simp_all add: ruleType_defs)

text \<open>A call goes on to the dependencies for a generated file or a rule without a hash; otherwise it is over.\<close>

lemma computeHashes_cases:
  obtains
    (generated) a where "ctx k = None" "map_of (og_ExternalRuleTargets g) i = None" "map_of (og_OptimizedTargets g) i = Some a"
      "it_Hash (og_store g a) = None" "stringOf (tb_ToString (og_RuleType g)) (it_RuleType (og_store g a)) = GeneratedFileType"
  | (rule) a own where "ctx k = None" "map_of (og_ExternalRuleTargets g) i = None" "map_of (og_OptimizedTargets g) i = Some a"
      "it_Hash (og_store g a) = None"
      "stringOf (tb_ToString (og_RuleType g)) (it_RuleType (og_store g a)) \<notin> {SourceFileType, PackageGroup, GeneratedFileType}"
      "it_HashWithoutDeps (og_store g a) = Some own"
  | (finished) "ctx k = None \<Longrightarrow> map_of (og_ExternalRuleTargets g) i = None \<Longrightarrow>
      (case map_of (og_OptimizedTargets g) i of None \<Rightarrow> True
       | Some a \<Rightarrow> it_Hash (og_store g a) \<noteq> None \<or>
           stringOf (tb_ToString (og_RuleType g)) (it_RuleType (og_store g a)) \<in> {SourceFileType, PackageGroup} \<or>
           stringOf (tb_ToString (og_RuleType g)) (it_RuleType (og_store g a)) \<noteq> GeneratedFileType \<and>
           it_HashWithoutDeps (og_store g a) = None)"
  by (cases "ctx k"; cases "map_of (og_ExternalRuleTargets g) i"; cases "map_of (og_OptimizedTargets g) i") fastforce+

lemma unhashed_compute_partial:
  fixes ctx :: "'e go_context"
  shows "computeHashes_computeDepHashes_dom (Inl (sha, ctx, i, s)) \<Longrightarrow>
      unhashedTargets (fst (snd (computeHashes sha ctx i s))) \<le> unhashedTargets (fst s)"
    and "computeHashes_computeDepHashes_dom (Inr (sha, ctx, deps, content, s)) \<Longrightarrow>
      unhashedTargets (fst (snd (computeDepHashes sha ctx deps content s))) \<le> unhashedTargets (fst s)"
proof (induction sha ctx i s and sha ctx deps content s rule: computeHashes_computeDepHashes.pinduct)
  case (1 sha ctx i g k)
  note step = computeHashes.psimps [OF 1(1)]
  have le: "unhashedTargets (setHash a (Some h) g) \<le> unhashedTargets g" for a h g
    by (simp add: unhashedTargets_setHash_le)
  show ?case
  proof (cases rule: computeHashes_cases [of ctx k g i])
    case (generated a)
    let ?r = "computeHashes sha ctx (singleDep (it_Deps (og_store g a))) (setHash a (Some []) g, k + 1)"
    have "unhashedTargets (fst (snd ?r)) \<le> unhashedTargets g"
      using 1(2) [OF generated(1,2,3) refl refl] generated le [of a "[]" g] by auto
    then show ?thesis
      using generated by (auto simp: step Let_def split: prod.split sum.split intro: le_trans [OF le])
  next
    case (rule a own)
    let ?r = "computeDepHashes sha ctx (sortIDs g (it_Deps (og_store g a))) own (setHash a (Some []) g, k + 1)"
    have "unhashedTargets (fst (snd ?r)) \<le> unhashedTargets g"
      using 1(3) [OF rule(1,2,3) refl refl _ _ _ rule(6)] rule le [of a "[]" g] by auto
    then show ?thesis
      using rule by (auto simp: step Let_def split: prod.split sum.split intro: le_trans [OF le])
  next
    case finished
    then show ?thesis
      using le by (auto simp: step Let_def split: option.split)
  qed
next
  case (2 sha ctx content s)
  then show ?case
    by (simp add: computeDepHashes.psimps)
next
  case (3 sha ctx dep deps content s)
  then show ?case
    by (cases "computeHashes sha ctx dep s") (auto simp: computeDepHashes.psimps split: sum.split intro: le_trans)
qed

termination computeHashes
proof (relation "inv_image (less_than <*lex*> less_than)
    (\<lambda>x. case x of Inl (sha, ctx, i, s) \<Rightarrow> (unhashedTargets (fst s), 0)
       | Inr (sha, ctx, deps, content, s) \<Rightarrow> (unhashedTargets (fst s), Suc (length deps)))", goal_cases)
  case (2 sha ctx i g k a)
  then show ?case
    using unhashedTargets_setHash_less [of g i a "[]"] by auto
next
  case (3 sha ctx i g k a)
  then show ?case
    using unhashedTargets_setHash_less [of g i a "[]"] by auto
next
  case (5 sha ctx dep deps content s x y b)
  then have "unhashedTargets (fst y) \<le> unhashedTargets (fst s)"
    using unhashed_compute_partial(1) [OF 5(3)] by (cases "computeHashes sha ctx dep s") auto
  then show ?case
    by auto
qed auto

declare computeHashes.simps [simp del]

definition sequentialHashTargets :: "string list" where
  "sequentialHashTargets = [''@io_bazel_rules_go//:go_context_data'']"

text \<open>The three passes: the sequential targets, the invalidated roots and the rest, sorted by name.\<close>

definition computeAll :: "(bytes \<Rightarrow> bytes) \<Rightarrow> 'e go_context \<Rightarrow> (OptimizedGraph \<Rightarrow> nat \<Rightarrow> bool) \<Rightarrow> nat list \<Rightarrow> (computeState, 'e itgError, unit) stateful" where
  "computeAll sha ctx chosen ids = eachS (\<lambda>i s. if chosen (fst s) i
     then (case computeHashes sha ctx i s of (Inl e, s) \<Rightarrow> (Inl e, s) | (Inr _, s) \<Rightarrow> (Inr (), s)) else (Inr (), s)) ids"

definition computeInvalidatedHashes :: "(bytes \<Rightarrow> bytes) \<Rightarrow> 'e go_context \<Rightarrow> nat list \<Rightarrow> (computeState, 'e itgError, unit) stateful" where
  "computeInvalidatedHashes sha ctx invalidated = (\<lambda>(g, k).
    let ids = sortIDs g invalidated in
    bindS (computeAll sha ctx (\<lambda>_ i. i \<in> set invalidated) (List.map_filter (og_TargetNameToID g) sequentialHashTargets)) (\<lambda>_.
    bindS (computeAll sha ctx (\<lambda>g i. case map_of (og_OptimizedTargets g) i of None \<Rightarrow> False
      | Some a \<Rightarrow> it_ReverseDeps (og_store g a) = []) ids) (\<lambda>_.
    computeAll sha ctx (\<lambda>_ _. True) ids)) (g, k))"

section \<open>Update\<close>

record UpdateGraphInput =
  ui_DeletedSrcFiles :: "string list"
  ui_ChangedPkgs :: "string set"
  ui_DeletedPkgs :: "string set"
  ui_QueryResult :: "BuildTarget list"

text \<open>The external rule targets of the graph that the query does not have, as the hasher needs them.\<close>

definition externalRuleTarget :: "OptimizedGraph \<Rightarrow> string \<Rightarrow> ItgTarget \<Rightarrow> HashTarget" where
  "externalRuleTarget g name t = (newTarget name ExternalRuleType) \<lparr> ht_Deps := map (stringOf (og_TargetIDToString g)) (it_Deps t),
     ht_Hash := it_Hash t, ht_HashWithoutDeps := it_HashWithoutDeps t, ht_External := it_External t \<rparr>"

definition addExternalRuleTargets :: "OptimizedGraph \<Rightarrow> targetMap \<Rightarrow> targetMap" where
  "addExternalRuleTargets g targets = foldl (\<lambda>targets (i, a).
     let name = stringOf (og_TargetIDToString g) i in
     if map_of targets name \<noteq> None then targets
     else AList.update name (externalRuleTarget g name (og_store g a)) targets) targets (og_ExternalRuleTargets g)"

definition updateExternal :: "itgState \<Rightarrow> string \<times> HashTarget \<Rightarrow> itgState" where
  "updateExternal s = (\<lambda>(name, target). if ht_RuleType target = ExternalRuleType then upsertExternalRuleTarget target s else s)"

text \<open>\<open>p\<close> holds the source hasher, the workspace root and the repositories of the input; \<open>k\<close> counts the polls.\<close>

definition UpdateGraph :: "'e hashEnv \<Rightarrow> i32 \<Rightarrow> (nat \<Rightarrow> nat list) \<Rightarrow> 'e HashParam \<Rightarrow> UpdateGraphInput \<Rightarrow>
    (OptimizedGraph, 'e itgError, unit) stateful" where
  "UpdateGraph env STRING order p input g =
    (case GetInternalTargetsWithoutHashAndRootInfo env order (ui_QueryResult input) 0 of
       (Inl e, k) \<Rightarrow> (Inl (HashingFailed e), g)
     | (Inr targets, k) \<Rightarrow>
    (case HashExternalTargets env order p (ui_QueryResult input) (targets, k) of
       (Inl e, s) \<Rightarrow> (Inl (HashingFailed e), g)
     | (Inr _, targets, k) \<Rightarrow>
    (case foldl updateExternal (g, []) targets of
       (g, invalidated) \<Rightarrow>
    (case computeAvailableHashes env p (addExternalRuleTargets g targets) k of
       (Inl e, k) \<Rightarrow> (Inl (HashingFailed e), g)
     | (Inr targets, k) \<Rightarrow>
    (case updateInvalidateTargets STRING (env_ctx env) k (ui_DeletedSrcFiles input) (ui_ChangedPkgs input) (ui_DeletedPkgs input) targets (g, invalidated) of
       (Inl e, g, invalidated) \<Rightarrow> (Inl e, g)
     | (Inr k, g, invalidated) \<Rightarrow>
    (case computeInvalidatedHashes (env_sha env) (env_ctx env) invalidated (g, k) of
       (res, g, k) \<Rightarrow> (res, g)))))))"

end
