(* ===== verification/ItgLinks.thy ===== *)
theory ItgLinks
  imports Itg
begin

text \<open>
  The structure of an incremental graph. \<open>targetAt\<close> forgets the store: a graph is a map from IDs to
  targets, and every loop over the targets is one \<open>updateEach\<close> of that map. \<open>wf_graph\<close> is the invariant:
  the tables agree, and reverse dependencies are the transpose of dependencies.
\<close>

section \<open>Targets by ID\<close>

definition targetAt :: "OptimizedGraph \<Rightarrow> nat \<Rightarrow> ItgTarget option" where
  "targetAt g i = map_option (og_store g) (map_of (og_OptimizedTargets g) i)"

definition targetIDs :: "OptimizedGraph \<Rightarrow> nat set" where
  "targetIDs g = dom (map_of (og_OptimizedTargets g))"

definition wf_store :: "OptimizedGraph \<Rightarrow> bool" where
  "wf_store g \<longleftrightarrow> distinct (map fst (og_OptimizedTargets g)) \<and>
     (\<forall>i a. map_of (og_OptimizedTargets g) i = Some a \<longrightarrow> a < og_alloc g \<and> it_ID (og_store g a) = i) \<and>
     (\<forall>i a. map_of (og_ExternalRuleTargets g) i = Some a \<longrightarrow> map_of (og_OptimizedTargets g) i = Some a)"

lemma wf_storeD:
  assumes "wf_store g"
  shows "distinct (map fst (og_OptimizedTargets g))"
    and "map_of (og_OptimizedTargets g) i = Some a \<Longrightarrow> a < og_alloc g"
    and "map_of (og_OptimizedTargets g) i = Some a \<Longrightarrow> it_ID (og_store g a) = i"
    and "map_of (og_ExternalRuleTargets g) i = Some a \<Longrightarrow> map_of (og_OptimizedTargets g) i = Some a"
  using assms by (auto simp: wf_store_def)

lemma targetAt_iff: "targetAt g i = Some t \<longleftrightarrow> (\<exists>a. map_of (og_OptimizedTargets g) i = Some a \<and> t = og_store g a)"
  by (auto simp: targetAt_def)

lemma targetIDs_iff: "i \<in> targetIDs g \<longleftrightarrow> (\<exists>t. targetAt g i = Some t)"
  by (auto simp: targetIDs_def targetAt_def)

lemma targetAt_None: "targetAt g i = None \<longleftrightarrow> i \<notin> targetIDs g"
  by (auto simp: targetIDs_def targetAt_def)

lemma getTargetByID_eq:
  assumes "wf_store g"
  shows "getTargetByID g i = map_of (og_OptimizedTargets g) i"
  using wf_storeD(4) [OF assms, of i] by (cases "map_of (og_ExternalRuleTargets g) i") (auto simp: getTargetByID_def split: option.split)

section \<open>Updates of many targets\<close>

definition updateEach :: "(nat \<Rightarrow> ItgTarget \<Rightarrow> ItgTarget) \<Rightarrow> OptimizedGraph \<Rightarrow> OptimizedGraph" where
  "updateEach f g = g \<lparr> og_store := (\<lambda>a. if a \<in> snd ` set (og_OptimizedTargets g)
     then f (it_ID (og_store g a)) (og_store g a) else og_store g a) \<rparr>"

definition keepsID :: "(nat \<Rightarrow> ItgTarget \<Rightarrow> ItgTarget) \<Rightarrow> bool" where
  "keepsID f \<longleftrightarrow> (\<forall>i t. it_ID (f i t) = it_ID t)"

lemma updateEach_simps [simp]:
  "og_OptimizedTargets (updateEach f g) = og_OptimizedTargets g"
  "og_ExternalRuleTargets (updateEach f g) = og_ExternalRuleTargets g"
  "og_alloc (updateEach f g) = og_alloc g"
  "og_NextTargetID (updateEach f g) = og_NextTargetID g"
  "og_TargetNameToID (updateEach f g) = og_TargetNameToID g"
  "og_TargetIDToString (updateEach f g) = og_TargetIDToString g"
  "og_RuleType (updateEach f g) = og_RuleType g"
  "targetIDs (updateEach f g) = targetIDs g"
  by (simp_all add: updateEach_def targetIDs_def)

lemma updateEach_store:
  assumes "wf_store g" "map_of (og_OptimizedTargets g) i = Some a"
  shows "og_store (updateEach f g) a = f i (og_store g a)"
  using assms wf_storeD(3) [OF assms] map_of_SomeD [OF assms(2)] by (force simp: updateEach_def)

lemma targetAt_updateEach: "wf_store g \<Longrightarrow> targetAt (updateEach f g) i = map_option (f i) (targetAt g i)"
  by (auto simp: targetAt_def updateEach_store option.map_comp intro!: map_option_cong)

lemma wf_store_updateEach: "wf_store g \<Longrightarrow> keepsID f \<Longrightarrow> wf_store (updateEach f g)"
  by (auto simp: wf_store_def updateEach_store keepsID_def)

lemma updateEach_updateEach:
  "keepsID f \<Longrightarrow> updateEach f' (updateEach f g) = updateEach (\<lambda>i t. f' i (f i t)) g"
  by (auto simp: updateEach_def keepsID_def fun_eq_iff)

lemma updateEach_cong:
  assumes "wf_store g" "\<And>i t. targetAt g i = Some t \<Longrightarrow> f i t = f' i t"
  shows "updateEach f g = updateEach f' g"
proof -
  have "f (it_ID (og_store g a)) (og_store g a) = f' (it_ID (og_store g a)) (og_store g a)" if "a \<in> snd ` set (og_OptimizedTargets g)" for a
  proof -
    obtain i where "(i, a) \<in> set (og_OptimizedTargets g)"
      using \<open>a \<in> snd ` set (og_OptimizedTargets g)\<close> by auto
    then have "map_of (og_OptimizedTargets g) i = Some a"
      using wf_storeD(1) [OF assms(1)] by simp
    then show ?thesis
      using assms(2) [of i "og_store g a"] wf_storeD(3) [OF assms(1)] by (simp add: targetAt_iff)
  qed
  then show ?thesis
    by (auto simp: updateEach_def fun_eq_iff)
qed

lemma updateEach_same: "wf_store g \<Longrightarrow> (\<And>i t. targetAt g i = Some t \<Longrightarrow> f i t = t) \<Longrightarrow> updateEach f g = g"
  using updateEach_cong [of g f "\<lambda>_ t. t"] by (simp add: updateEach_def if_distrib cong: if_cong)

lemma wf_store_address:
  assumes "wf_store g" "map_of (og_OptimizedTargets g) i = Some a" "b \<in> snd ` set (og_OptimizedTargets g)"
  shows "it_ID (og_store g b) = i \<longleftrightarrow> b = a"
proof -
  obtain j where "(j, b) \<in> set (og_OptimizedTargets g)"
    using assms(3) by auto
  then have b: "map_of (og_OptimizedTargets g) j = Some b"
    using wf_storeD(1) [OF assms(1)] by simp
  show ?thesis
    using b assms(2) wf_storeD(3) [OF assms(1) b] wf_storeD(3) [OF assms(1,2)] by (cases "b = a"; cases "j = i") simp_all
qed

lemma modifyAt_updateEach:
  assumes "wf_store g" "map_of (og_OptimizedTargets g) i = Some a"
  shows "modifyAt a f g = updateEach (\<lambda>j t. if j = i then f t else t) g"
proof -
  have mem: "a \<in> snd ` set (og_OptimizedTargets g)"
    using map_of_SomeD [OF assms(2)] by force
  have "(og_store g)(a := f (og_store g a)) = (\<lambda>b. if b \<in> snd ` set (og_OptimizedTargets g)
      then if it_ID (og_store g b) = i then f (og_store g b) else og_store g b else og_store g b)"
    (is "?l = ?r")
  proof (intro ext)
    fix b
    show "?l b = ?r b"
      using wf_store_address [OF assms, of b] mem
      by (cases "b \<in> snd ` set (og_OptimizedTargets g)"; cases "b = a") simp_all
  qed
  then show ?thesis
    by (simp only: modifyAt_def updateEach_def)
qed

lemma clearHash_updateEach:
  "wf_store g \<Longrightarrow> map_of (og_OptimizedTargets g) i = Some a \<Longrightarrow>
    clearHash a g = updateEach (\<lambda>j t. if j = i then t \<lparr> it_Hash := None \<rparr> else t) g"
  by (simp add: clearHash_def modifyAt_updateEach)

section \<open>Links\<close>

definition wf_links :: "OptimizedGraph \<Rightarrow> bool" where
  "wf_links g \<longleftrightarrow>
     (\<forall>i t. targetAt g i = Some t \<longrightarrow> set (it_Deps t) \<subseteq> targetIDs g \<and> set (it_ReverseDeps t) \<subseteq> targetIDs g) \<and>
     (\<forall>i j t u. targetAt g i = Some t \<longrightarrow> targetAt g j = Some u \<longrightarrow> (j \<in> set (it_ReverseDeps t) \<longleftrightarrow> i \<in> set (it_Deps u)))"

definition wf_names :: "OptimizedGraph \<Rightarrow> bool" where
  "wf_names g \<longleftrightarrow> (\<forall>n i. og_TargetNameToID g n = Some i \<longleftrightarrow> og_TargetIDToString g i = Some n) \<and>
     (\<forall>i n. og_TargetIDToString g i = Some n \<longrightarrow> i < og_NextTargetID g) \<and> targetIDs g \<subseteq> dom (og_TargetIDToString g)"

lemma wf_namesD:
  assumes "wf_names g"
  shows "og_TargetNameToID g n = Some i \<longleftrightarrow> og_TargetIDToString g i = Some n"
    and "og_TargetIDToString g i = Some n \<Longrightarrow> i < og_NextTargetID g"
    and "i \<in> targetIDs g \<Longrightarrow> \<exists>n. og_TargetIDToString g i = Some n"
  using assms by (auto simp: wf_names_def)

definition wf_table :: "idTable \<Rightarrow> bool" where
  "wf_table tb \<longleftrightarrow> (\<forall>key i. map_of (tb_ToID tb) key = Some i \<longrightarrow> i < length (tb_ToID tb)) \<and>
     (\<forall>key i. map_of (tb_ToID tb) key = Some i \<longleftrightarrow> tb_ToString tb i = Some key)"

definition wf_graph :: "OptimizedGraph \<Rightarrow> bool" where
  "wf_graph g \<longleftrightarrow> wf_store g \<and> wf_links g \<and> wf_names g \<and> wf_table (og_RuleType g) \<and>
     (\<forall>i t. targetAt g i = Some t \<longrightarrow> it_RuleType t \<in> dom (tb_ToString (og_RuleType g)))"

lemma wf_graphD:
  assumes "wf_graph g"
  shows "wf_store g" "wf_links g" "wf_names g" "wf_table (og_RuleType g)"
    and "targetAt g i = Some t \<Longrightarrow> it_RuleType t \<in> dom (tb_ToString (og_RuleType g))"
  using assms by (auto simp: wf_graph_def)

lemma wf_linksD:
  assumes "wf_links g" "targetAt g i = Some t"
  shows "set (it_Deps t) \<subseteq> targetIDs g" "set (it_ReverseDeps t) \<subseteq> targetIDs g"
    and "targetAt g j = Some u \<Longrightarrow> j \<in> set (it_ReverseDeps t) \<longleftrightarrow> i \<in> set (it_Deps u)"
  using assms by (auto simp: wf_links_def)

section \<open>Invalidation\<close>

definition hashedAt :: "OptimizedGraph \<Rightarrow> nat \<Rightarrow> bool" where
  "hashedAt g i \<longleftrightarrow> (\<exists>t. targetAt g i = Some t \<and> it_Hash t \<noteq> None)"

text \<open>The targets that lose their hash: those reached from the candidates over reverse dependencies, through
  targets with a hash.\<close>

inductive affected :: "OptimizedGraph \<Rightarrow> nat set \<Rightarrow> nat \<Rightarrow> bool" for g cs where
  candidate: "c \<in> cs \<Longrightarrow> hashedAt g c \<Longrightarrow> affected g cs c"
| dependent: "affected g cs i \<Longrightarrow> targetAt g i = Some t \<Longrightarrow> j \<in> set (it_ReverseDeps t) \<Longrightarrow> hashedAt g j \<Longrightarrow> affected g cs j"

definition clearAffected :: "OptimizedGraph \<Rightarrow> nat set \<Rightarrow> OptimizedGraph" where
  "clearAffected g cs = updateEach (\<lambda>j t. if affected g cs j then t \<lparr> it_Hash := None \<rparr> else t) g"

lemma affected_hashed: "affected g cs i \<Longrightarrow> hashedAt g i"
  by (erule affected.cases) auto

lemma affected_present: "affected g cs i \<Longrightarrow> i \<in> targetIDs g"
  using affected_hashed [of g cs i] by (auto simp: hashedAt_def targetIDs_iff)

lemma affected_skip: "\<not> hashedAt g i \<Longrightarrow> affected g (insert i cs) j \<longleftrightarrow> affected g cs j"
proof
  assume n: "\<not> hashedAt g i"
  show "affected g (insert i cs) j \<Longrightarrow> affected g cs j"
    by (induction rule: affected.induct) (use n in \<open>auto intro: affected.intros\<close>)
  show "affected g cs j \<Longrightarrow> affected g (insert i cs) j"
    by (induction rule: affected.induct) (auto intro: affected.intros)
qed

lemma affected_clear:
  assumes wf: "wf_store g" and i: "map_of (og_OptimizedTargets g) i = Some a" and h: "it_Hash (og_store g a) \<noteq> None"
  shows "affected g (insert i cs) j \<longleftrightarrow> j = i \<or> affected (clearHash a g) (cs \<union> set (it_ReverseDeps (og_store g a))) j"
proof -
  let ?g = "clearHash a g" and ?cs = "cs \<union> set (it_ReverseDeps (og_store g a))"
  have at: "targetAt ?g x = map_option (\<lambda>t. if x = i then t \<lparr> it_Hash := None \<rparr> else t) (targetAt g x)" for x
    using wf i by (simp add: clearHash_updateEach targetAt_updateEach)
  have hashed: "hashedAt ?g x \<longleftrightarrow> hashedAt g x \<and> x \<noteq> i" for x
    by (cases "targetAt g x") (auto simp: hashedAt_def at)
  have ti: "targetAt g i = Some (og_store g a)"
    using i by (simp add: targetAt_def)
  have base: "affected g (insert i cs) i"
    using h ti by (auto intro!: affected.candidate simp: hashedAt_def)
  have "affected ?g ?cs x \<Longrightarrow> affected g (insert i cs) x" for x
  proof (induction rule: affected.induct)
    case (candidate c)
    then show ?case
      using base ti by (auto simp: hashed intro: affected.intros)
  next
    case (dependent x t y)
    then obtain u where "targetAt g x = Some u" "it_ReverseDeps u = it_ReverseDeps t"
      by (auto simp: at split: if_splits)
    then show ?case
      using dependent by (auto simp: hashed intro: affected.dependent)
  qed
  moreover have "affected g (insert i cs) x \<Longrightarrow> x = i \<or> affected ?g ?cs x" for x
  proof (induction rule: affected.induct)
    case (candidate c)
    then show ?case
      by (cases "c = i") (auto simp: hashed intro: affected.candidate)
  next
    case (dependent x t y)
    show ?case
    proof (cases "x = i \<or> y = i")
      case True
      then show ?thesis
        using dependent ti by (cases "y = i") (auto simp: hashed intro: affected.candidate)
    next
      case False
      then have "targetAt ?g x = Some t"
        using dependent by (simp add: at)
      then show ?thesis
        using dependent False by (auto simp: hashed intro: affected.dependent)
    qed
  qed
  ultimately show ?thesis
    using base by blast
qed

lemma invalidateLoop_eq:
  "wf_store g \<Longrightarrow> \<exists>iv'. invalidateLoop cs (g, iv) = (clearAffected g (set cs), iv') \<and>
    set iv' = set iv \<union> {j. affected g (set cs) j}"
proof (induction cs "(g, iv)" arbitrary: g iv rule: invalidateLoop.induct)
  case (1 g iv)
  have "\<not> affected g {} j" for j
  proof
    assume "affected g {} j"
    then show False
      by induction auto
  qed
  then show ?case
    using 1 by (auto simp: clearAffected_def updateEach_same)
next
  case (2 i cs g iv)
  show ?case
  proof (cases "hashedAt g i")
    case False
    then have "invalidateLoop (i # cs) (g, iv) = invalidateLoop cs (g, iv)"
      by (auto simp: hashedAt_def targetAt_def split: option.split)
    moreover have "\<exists>iv'. invalidateLoop cs (g, iv) = (clearAffected g (set cs), iv') \<and> set iv' = set iv \<union> {j. affected g (set cs) j}"
      using False 2 by (cases "map_of (og_OptimizedTargets g) i") (auto simp: hashedAt_def targetAt_def)
    moreover have "affected g (set (i # cs)) = affected g (set cs)"
      using affected_skip [OF False, of "set cs"] by (simp add: fun_eq_iff)
    ultimately show ?thesis
      by (simp only: clearAffected_def)
  next
    case True
    then obtain a where a: "map_of (og_OptimizedTargets g) i = Some a" "it_Hash (og_store g a) \<noteq> None"
      by (auto simp: hashedAt_def targetAt_def)
    let ?cs = "cs @ it_ReverseDeps (og_store g a)" and ?g = "clearHash a g"
    have wf: "wf_store ?g"
      using 2(4) a by (auto simp: clearHash_updateEach keepsID_def intro: wf_store_updateEach)
    obtain iv' where iv': "invalidateLoop ?cs (?g, List.insert i iv) = (clearAffected ?g (set ?cs), iv')"
        "set iv' = insert i (set iv) \<union> {j. affected ?g (set ?cs) j}"
      using 2(3) [OF a wf] by auto
    have eq: "affected g (set (i # cs)) j \<longleftrightarrow> j = i \<or> affected ?g (set ?cs) j" for j
      using affected_clear [OF 2(4) a, of "set cs" j] by simp
    have "clearAffected ?g (set ?cs) = clearAffected g (set (i # cs))"
      unfolding clearAffected_def clearHash_updateEach [OF 2(4) a(1)] eq
      by (subst updateEach_updateEach) (auto simp: keepsID_def clearHash_updateEach [OF 2(4) a(1)] intro!: updateEach_cong [OF 2(4)])
    moreover have "invalidateLoop (i # cs) (g, iv) = invalidateLoop ?cs (?g, List.insert i iv)"
      using a by auto
    ultimately show ?thesis
      using iv' unfolding eq by auto
  qed
qed

end
