(* ===== verification/ItgInvariant.thy ===== *)
theory ItgInvariant
  imports ItgLinks
begin

text \<open>
  Removal and insertion keep \<open>wf_graph\<close>. Both are a few \<open>updateEach\<close> of the targets, a change of the
  tables, and the clearing of the affected hashes.
\<close>

section \<open>Clearing hashes\<close>

lemma keepsID_clear [simp]: "keepsID (\<lambda>j t. if P j then t \<lparr> it_Hash := None \<rparr> else t)"
  by (simp add: keepsID_def)

lemma targetAt_clearAffected:
  "wf_store g \<Longrightarrow> targetAt (clearAffected g cs) i = map_option (\<lambda>t. if affected g cs i then t \<lparr> it_Hash := None \<rparr> else t) (targetAt g i)"
  by (simp add: clearAffected_def targetAt_updateEach)

lemma clearAffected_simps [simp]:
  "og_OptimizedTargets (clearAffected g cs) = og_OptimizedTargets g"
  "og_ExternalRuleTargets (clearAffected g cs) = og_ExternalRuleTargets g"
  "og_NextTargetID (clearAffected g cs) = og_NextTargetID g"
  "og_TargetNameToID (clearAffected g cs) = og_TargetNameToID g"
  "og_TargetIDToString (clearAffected g cs) = og_TargetIDToString g"
  "og_RuleType (clearAffected g cs) = og_RuleType g"
  "targetIDs (clearAffected g cs) = targetIDs g"
  by (simp_all add: clearAffected_def)

lemma wf_graph_clearAffected: "wf_graph g \<Longrightarrow> wf_graph (clearAffected g cs)"
proof -
  assume wf: "wf_graph g"
  note s = wf_graphD(1) [OF wf]
  have at: "\<exists>u. targetAt g i = Some u \<and> it_Deps t = it_Deps u \<and> it_ReverseDeps t = it_ReverseDeps u \<and> it_RuleType t = it_RuleType u"
    if "targetAt (clearAffected g cs) i = Some t" for i t
    using that by (auto simp: targetAt_clearAffected [OF s])
  have "wf_links (clearAffected g cs)"
    unfolding wf_links_def clearAffected_simps
  proof (intro conjI allI impI)
    fix i t
    assume "targetAt (clearAffected g cs) i = Some t"
    from at [OF this] obtain u where u: "targetAt g i = Some u" "it_Deps t = it_Deps u" "it_ReverseDeps t = it_ReverseDeps u"
      by auto
    show "set (it_Deps t) \<subseteq> targetIDs g" "set (it_ReverseDeps t) \<subseteq> targetIDs g"
      using wf_linksD(1,2) [OF wf_graphD(2) [OF wf] u(1)] u by auto
    fix j v
    assume "targetAt (clearAffected g cs) j = Some v"
    from at [OF this] obtain w where "targetAt g j = Some w" "it_Deps v = it_Deps w"
      by auto
    then show "j \<in> set (it_ReverseDeps t) \<longleftrightarrow> i \<in> set (it_Deps v)"
      using wf_linksD(3) [OF wf_graphD(2) [OF wf] u(1)] u by auto
  qed
  moreover have "wf_store (clearAffected g cs)"
    using s by (simp add: clearAffected_def wf_store_updateEach)
  moreover have "it_RuleType t \<in> dom (tb_ToString (og_RuleType g))" if "targetAt (clearAffected g cs) i = Some t" for i t
    using at [OF that] wf_graphD(5) [OF wf] by metis
  ultimately show ?thesis
    using wf_graphD(3,4) [OF wf] by (simp add: wf_graph_def wf_names_def)
qed

section \<open>Removal\<close>

definition dropLink :: "idTable \<Rightarrow> nat \<Rightarrow> ItgTarget \<Rightarrow> ItgTarget" where
  "dropLink ruleTypes i t = (let t = t \<lparr> it_ReverseDeps := removeAll i (it_ReverseDeps t) \<rparr> in
     if it_ReverseDeps t = [] \<and> CanBeRoot (stringOf (tb_ToString ruleTypes) (it_RuleType t)) then t \<lparr> it_Root := True \<rparr> else t)"

lemma dropLink_simps [simp]:
  "it_ID (dropLink rs i t) = it_ID t" "it_Hash (dropLink rs i t) = it_Hash t" "it_HashWithoutDeps (dropLink rs i t) = it_HashWithoutDeps t"
  "it_RuleType (dropLink rs i t) = it_RuleType t" "it_Deps (dropLink rs i t) = it_Deps t"
  "it_ReverseDeps (dropLink rs i t) = removeAll i (it_ReverseDeps t)"
  by (simp_all add: dropLink_def Let_def)

lemma dropLink_dropLink [simp]: "dropLink rs i (dropLink rs i t) = dropLink rs i t"
  by (simp add: dropLink_def Let_def)

lemma dropReverseDep_updateEach:
  assumes "wf_store g" "map_of (og_OptimizedTargets g) j = Some a"
  shows "dropReverseDep i a g = updateEach (\<lambda>x t. if x = j then dropLink (og_RuleType g) i t else t) g"
  unfolding dropReverseDep_def modifyAt_updateEach [OF assms] becomesRoot_def dropLink_def ..

text \<open>A loop whose body updates the target of its ID, once and for all, updates all of them.\<close>

lemma eachS_updateEach:
  assumes step: "\<And>x g. wf_store g \<Longrightarrow> x \<in> targetIDs g \<Longrightarrow> og_RuleType g = rt \<Longrightarrow>
      f x g = (Inr (), updateEach (\<lambda>j t. if j = x then F t else t) g)"
    and F: "\<And>t. F (F t) = F t" "\<And>t. it_ID (F t) = it_ID t"
  shows "wf_store g \<Longrightarrow> og_RuleType g = rt \<Longrightarrow> set xs \<subseteq> targetIDs g \<Longrightarrow>
    eachS f xs g = (Inr (), updateEach (\<lambda>j t. if j \<in> set xs then F t else t) g)"
proof (induction xs arbitrary: g)
  case (Cons x xs)
  let ?g = "updateEach (\<lambda>j t. if j = x then F t else t) g"
  have "updateEach (\<lambda>j t. if j \<in> set xs then F t else t) ?g = updateEach (\<lambda>j t. if j \<in> set (x # xs) then F t else t) g"
    by (subst updateEach_updateEach) (auto simp: keepsID_def F fun_eq_iff intro!: arg_cong2 [of _ _ _ _ updateEach])
  moreover have "eachS f xs ?g = (Inr (), updateEach (\<lambda>j t. if j \<in> set xs then F t else t) ?g)"
    using Cons.prems by (intro Cons.IH wf_store_updateEach) (auto simp: keepsID_def F)
  moreover have "f x g = (Inr (), ?g)"
    using Cons.prems by (intro step) auto
  ultimately show ?case
    by simp
qed (simp add: updateEach_same)

lemma eachS_unlinkReverse:
  assumes "wf_store g" "set rs \<subseteq> targetIDs g"
  shows "eachS (unlinkReverse i) rs g = (Inr (), updateEach (\<lambda>j t. if j \<in> set rs then t \<lparr> it_Deps := removeAll i (it_Deps t) \<rparr> else t) g)"
  by (rule eachS_updateEach [OF _ _ _ assms(1) refl assms(2)])
    (auto simp: unlinkReverse_def modifyAt_updateEach targetIDs_def)

lemma eachS_unlinkDep:
  assumes "wf_store g" "og_RuleType g = rt" "set ds \<subseteq> targetIDs g"
  shows "eachS (unlinkDep i) ds g = (Inr (), updateEach (\<lambda>j t. if j \<in> set ds then dropLink rt i t else t) g)"
  by (rule eachS_updateEach [OF _ _ _ assms])
    (auto simp: unlinkDep_def dropReverseDep_updateEach targetIDs_def)

text \<open>What removal does to the targets that stay.\<close>

definition unlinked :: "idTable \<Rightarrow> nat \<Rightarrow> ItgTarget \<Rightarrow> nat \<Rightarrow> ItgTarget \<Rightarrow> ItgTarget" where
  "unlinked ruleTypes i t j u =
    (let u = (if j \<in> set (it_ReverseDeps t) then u \<lparr> it_Deps := removeAll i (it_Deps u) \<rparr> else u) in
     if j \<in> set (it_Deps t) - {i} then dropLink ruleTypes i u else u)"

lemma keepsID_unlinked [simp]: "keepsID (unlinked rs i t)"
  by (simp add: keepsID_def unlinked_def Let_def)

definition withoutTarget :: "nat \<Rightarrow> ItgTarget \<Rightarrow> OptimizedGraph \<Rightarrow> OptimizedGraph" where
  "withoutTarget i t g = deleteTarget i (updateEach (unlinked (og_RuleType g) i t) g)"

lemma wf_store_deleteTarget: "wf_store g \<Longrightarrow> wf_store (deleteTarget i g)"
  by (simp add: deleteTarget_def wf_store_def delete_conv' distinct_delete)

lemma wf_store_withoutTarget: "wf_store g \<Longrightarrow> wf_store (withoutTarget i t g)"
  by (simp add: withoutTarget_def wf_store_deleteTarget wf_store_updateEach)

lemma withoutTarget_simps [simp]:
  "og_RuleType (withoutTarget i t g) = og_RuleType g"
  "og_NextTargetID (withoutTarget i t g) = og_NextTargetID g"
  "og_TargetNameToID (withoutTarget i t g) = (og_TargetNameToID g)(stringOf (og_TargetIDToString g) i := None)"
  "og_TargetIDToString (withoutTarget i t g) = (og_TargetIDToString g)(i := None)"
  "map_of (og_ExternalRuleTargets (withoutTarget i t g)) = (map_of (og_ExternalRuleTargets g))(i := None)"
  "targetIDs (withoutTarget i t g) = targetIDs g - {i}"
  by (auto simp: withoutTarget_def deleteTarget_def delete_conv' targetIDs_def split: if_splits)

lemma targetAt_withoutTarget:
  "wf_store g \<Longrightarrow> targetAt (withoutTarget i t g) j = (if j = i then None else map_option (unlinked (og_RuleType g) i t j) (targetAt g j))"
  using targetAt_updateEach [of g "unlinked (og_RuleType g) i t" j]
  by (simp add: withoutTarget_def deleteTarget_def targetAt_def delete_conv')

lemma removeTarget_eq:
  assumes wf: "wf_graph g" and a: "map_of (og_OptimizedTargets g) i = Some a"
  shows "\<exists>iv'. removeTarget a (g, iv) = (Inr () :: 'e itgError + unit, clearAffected (withoutTarget i (og_store g a) g) (set (it_ReverseDeps (og_store g a))), iv') \<and>
    set iv' = set iv - {i} \<union> {j. affected (withoutTarget i (og_store g a) g) (set (it_ReverseDeps (og_store g a))) j}"
proof -
  note s = wf_graphD(1) [OF wf] and l = wf_graphD(2) [OF wf]
  let ?t = "og_store g a"
  have t: "targetAt g i = Some ?t"
    using a by (simp add: targetAt_def)
  have id: "it_ID ?t = i"
    using wf_storeD(3) [OF s a] .
  let ?f = "\<lambda>j u. if j \<in> set (it_ReverseDeps ?t) then u \<lparr> it_Deps := removeAll i (it_Deps u) \<rparr> else u"
  let ?g1 = "updateEach ?f g"
  have s1: "wf_store ?g1"
    using s by (simp add: wf_store_updateEach keepsID_def)
  have "og_store ?g1 a = ?f i ?t"
    using updateEach_store [OF s a] .
  moreover have "i \<in> set (it_ReverseDeps ?t) \<longleftrightarrow> i \<in> set (it_Deps ?t)"
    using wf_linksD(3) [OF l t t] .
  ultimately have deps: "set (it_Deps (og_store ?g1 a)) = set (it_Deps ?t) - {i}"
    by auto
  let ?h = "\<lambda>j u. if j \<in> set (it_Deps (og_store ?g1 a)) then dropLink (og_RuleType g) i u else u"
  have loop1: "eachS (unlinkReverse i) (it_ReverseDeps ?t) g = (Inr () :: 'e itgError + unit, ?g1)"
    using wf_linksD(2) [OF l t] by (intro eachS_unlinkReverse [OF s])
  have loop2: "eachS (unlinkDep i) (it_Deps (og_store ?g1 a)) ?g1 = (Inr () :: 'e itgError + unit, updateEach ?h ?g1)"
    using wf_linksD(1) [OF l t] deps by (intro eachS_unlinkDep [OF s1]) auto
  have g2: "updateEach ?h ?g1 = updateEach (unlinked (og_RuleType g) i ?t) g"
    unfolding deps by (subst updateEach_updateEach) (auto simp: keepsID_def unlinked_def Let_def fun_eq_iff intro!: arg_cong2 [of _ _ _ _ updateEach])
  have "og_store (updateEach (unlinked (og_RuleType g) i ?t) g) a = unlinked (og_RuleType g) i ?t i ?t"
    using updateEach_store [OF s a] .
  then have rd: "it_ReverseDeps (og_store (updateEach ?h ?g1) a) = it_ReverseDeps ?t"
    unfolding g2 by (simp add: unlinked_def Let_def)
  from invalidateLoop_eq [OF wf_store_withoutTarget [OF s, of i ?t], of "it_ReverseDeps ?t" "removeAll i iv"] show ?thesis
    unfolding removeTarget_def invalidateHashRecursively_def
    using loop1 loop2 rd unfolding g2 by (auto simp: id withoutTarget_def Let_def)
qed

lemma unlinked_simps [simp]:
  "it_Hash (unlinked rs i t j u) = it_Hash u" "it_HashWithoutDeps (unlinked rs i t j u) = it_HashWithoutDeps u"
  "it_RuleType (unlinked rs i t j u) = it_RuleType u"
  "set (it_Deps (unlinked rs i t j u)) = (if j \<in> set (it_ReverseDeps t) then set (it_Deps u) - {i} else set (it_Deps u))"
  "set (it_ReverseDeps (unlinked rs i t j u)) = (if j \<in> set (it_Deps t) - {i} then set (it_ReverseDeps u) - {i} else set (it_ReverseDeps u))"
  by (simp_all add: unlinked_def Let_def)

lemma wf_links_withoutTarget:
  assumes s: "wf_store g" and l: "wf_links g" and t: "targetAt g i = Some t"
  shows "wf_links (withoutTarget i t g)"
proof -
  have deps: "set (it_Deps (unlinked (og_RuleType g) i t j u)) = set (it_Deps u) - {i}"
    and rdeps: "set (it_ReverseDeps (unlinked (og_RuleType g) i t j u)) = set (it_ReverseDeps u) - {i}"
    if "targetAt g j = Some u" "j \<noteq> i" for j u
    using wf_linksD(3) [OF l t that(1)] wf_linksD(3) [OF l that(1) t] that(2) by auto
  show ?thesis
    unfolding wf_links_def withoutTarget_simps
  proof (intro conjI allI impI)
    fix j u
    assume "targetAt (withoutTarget i t g) j = Some u"
    then obtain v where v: "j \<noteq> i" "targetAt g j = Some v" "u = unlinked (og_RuleType g) i t j v"
      by (auto simp: targetAt_withoutTarget [OF s] split: if_splits)
    show "set (it_Deps u) \<subseteq> targetIDs g - {i}" "set (it_ReverseDeps u) \<subseteq> targetIDs g - {i}"
      using wf_linksD(1,2) [OF l v(2)] deps [OF v(2,1)] rdeps [OF v(2,1)] v(3) by auto
    fix x w
    assume "targetAt (withoutTarget i t g) x = Some w"
    then obtain y where y: "x \<noteq> i" "targetAt g x = Some y" "w = unlinked (og_RuleType g) i t x y"
      by (auto simp: targetAt_withoutTarget [OF s] split: if_splits)
    show "x \<in> set (it_ReverseDeps u) \<longleftrightarrow> j \<in> set (it_Deps w)"
      using wf_linksD(3) [OF l v(2) y(2)] deps [OF y(2,1)] rdeps [OF v(2,1)] v y by auto
  qed
qed

lemma wf_names_withoutTarget:
  assumes n: "wf_names g" and i: "i \<in> targetIDs g"
  shows "wf_names (withoutTarget i t g)"
proof -
  obtain m where m: "og_TargetIDToString g i = Some m"
    using wf_namesD(3) [OF n i] by auto
  have str: "stringOf (og_TargetIDToString g) i = m"
    using m by (simp add: stringOf_def)
  show ?thesis
    unfolding wf_names_def withoutTarget_simps str
  proof (intro conjI allI impI)
    fix x k
    show "((og_TargetNameToID g)(m := None)) x = Some k \<longleftrightarrow> ((og_TargetIDToString g)(i := None)) k = Some x"
      using m wf_namesD(1) [OF n, of x k] wf_namesD(1) [OF n, of m k] wf_namesD(1) [OF n, of m i] by (cases "x = m"; cases "k = i") simp_all
  next
    fix k x
    assume "((og_TargetIDToString g)(i := None)) k = Some x"
    then show "k < og_NextTargetID g"
      using wf_namesD(2) [OF n, of k x] by (simp split: if_splits)
  next
    show "targetIDs g - {i} \<subseteq> dom ((og_TargetIDToString g)(i := None))"
      using wf_namesD(3) [OF n] by auto
  qed
qed

lemma wf_graph_withoutTarget:
  assumes "wf_graph g" "targetAt g i = Some t"
  shows "wf_graph (withoutTarget i t g)"
proof -
  have "it_RuleType u \<in> dom (tb_ToString (og_RuleType g))" if "targetAt (withoutTarget i t g) j = Some u" for j u
    using that wf_graphD(1) [OF assms(1)] by (auto simp: targetAt_withoutTarget split: if_splits dest!: wf_graphD(5) [OF assms(1)])
  then show ?thesis
    using wf_graphD [OF assms(1)] assms(2)
    by (simp add: wf_graph_def wf_store_withoutTarget wf_links_withoutTarget wf_names_withoutTarget targetIDs_iff)
qed

end
