(* ===== verification/ItgUpsert.thy ===== *)
theory ItgUpsert
  imports ItgInvariant
begin

text \<open>
  Insertion and update of a target keep \<open>wf_graph\<close>: the tables grow, the dependencies are linked, the
  object is replaced or added, and its dependents lose their hashes.
\<close>

section \<open>Growing tables\<close>

text \<open>Only tables have changed, and they have only grown.\<close>

definition grows :: "OptimizedGraph \<Rightarrow> OptimizedGraph \<Rightarrow> bool" where
  "grows g g' \<longleftrightarrow> og_store g' = og_store g \<and> og_alloc g' = og_alloc g \<and> og_OptimizedTargets g' = og_OptimizedTargets g \<and>
     og_ExternalRuleTargets g' = og_ExternalRuleTargets g \<and>
     og_TargetIDToString g \<subseteq>\<^sub>m og_TargetIDToString g' \<and> tb_ToString (og_RuleType g) \<subseteq>\<^sub>m tb_ToString (og_RuleType g')"

lemma growsD:
  assumes "grows g g'"
  shows "targetAt g' = targetAt g" "targetIDs g' = targetIDs g" "og_ExternalRuleTargets g' = og_ExternalRuleTargets g"
    "og_OptimizedTargets g' = og_OptimizedTargets g" "og_store g' = og_store g" "og_alloc g' = og_alloc g"
    "wf_store g \<Longrightarrow> wf_store g'" "wf_links g \<Longrightarrow> wf_links g'"
    "og_TargetIDToString g \<subseteq>\<^sub>m og_TargetIDToString g'" "tb_ToString (og_RuleType g) \<subseteq>\<^sub>m tb_ToString (og_RuleType g')"
proof -
  show at: "targetAt g' = targetAt g" "targetIDs g' = targetIDs g"
    using assms by (auto simp: grows_def targetAt_def targetIDs_def)
  show "wf_store g \<Longrightarrow> wf_store g'" "wf_links g \<Longrightarrow> wf_links g'"
    using assms at by (simp_all add: grows_def wf_store_def wf_links_def)
qed (use assms in \<open>auto simp: grows_def\<close>)

lemma grows_trans: "grows g g' \<Longrightarrow> grows g' g'' \<Longrightarrow> grows g g''"
  by (auto simp: grows_def intro: map_le_trans)

lemma getOrGenerateTargetID_grows:
  assumes n: "wf_names g" and i: "getOrGenerateTargetID name g = (i, g')"
  shows "grows g g' \<and> wf_names g' \<and> og_TargetIDToString g' i = Some name \<and> og_RuleType g' = og_RuleType g"
proof (cases "og_TargetNameToID g name")
  case None
  let ?i = "og_NextTargetID g"
  have fresh: "og_TargetIDToString g k \<noteq> Some x" if "?i \<le> k" for k x
    using wf_namesD(2) [OF n, of k x] that by auto
  have g': "i = ?i" "g' = g \<lparr> og_NextTargetID := ?i + 1, og_TargetNameToID := (og_TargetNameToID g)(name \<mapsto> ?i),
      og_TargetIDToString := (og_TargetIDToString g)(?i \<mapsto> name) \<rparr>"
    using i None by (auto simp: getOrGenerateTargetID_def Let_def)
  have "og_TargetIDToString g ?i = None"
    using fresh [of ?i] by (cases "og_TargetIDToString g ?i") auto
  then have "og_TargetIDToString g \<subseteq>\<^sub>m (og_TargetIDToString g)(?i \<mapsto> name)"
    by (auto simp: map_le_def)
  moreover have "wf_names g'"
    unfolding wf_names_def
  proof (intro conjI allI impI)
    fix x k
    show "og_TargetNameToID g' x = Some k \<longleftrightarrow> og_TargetIDToString g' k = Some x"
      using wf_namesD(1) [OF n, of x k] fresh [of k x] None wf_namesD(1) [OF n, of name k]
      by (cases "x = name"; cases "k = ?i") (auto simp: g')
  next
    fix k x
    assume "og_TargetIDToString g' k = Some x"
    then show "k < og_NextTargetID g'"
      using wf_namesD(2) [OF n, of k x] by (cases "k = ?i") (auto simp: g')
  next
    have "targetIDs g' = targetIDs g"
      by (simp add: g' targetIDs_def)
    then show "targetIDs g' \<subseteq> dom (og_TargetIDToString g')"
      using wf_namesD(3) [OF n] by (auto simp: g')
  qed
  ultimately show ?thesis
    by (simp add: g' grows_def)
next
  case (Some k)
  then show ?thesis
    using i n wf_namesD(1) [OF n, of name k] by (simp add: getOrGenerateTargetID_def grows_def)
qed

lemma getOrGenerateRecordReverse_table:
  assumes t: "wf_table tb" and i: "getOrGenerateRecordReverse key tb = (i, tb')"
  shows "wf_table tb' \<and> tb_ToString tb \<subseteq>\<^sub>m tb_ToString tb' \<and> tb_ToString tb' i = Some key"
proof (cases "map_of (tb_ToID tb) key")
  case None
  let ?n = "length (tb_ToID tb)"
  have fresh: "tb_ToString tb ?n = None"
    using t by (cases "tb_ToString tb ?n") (auto simp: wf_table_def)
  have tb': "i = ?n" "tb' = \<lparr> tb_ToID = AList.update key ?n (tb_ToID tb), tb_ToString = (tb_ToString tb)(?n \<mapsto> key) \<rparr>"
    using i None by (auto simp: getOrGenerateRecordReverse_def getOrGenerate_def)
  have "length (AList.update key ?n (tb_ToID tb)) = Suc ?n"
    using None by (simp add: map_of_eq_None_iff update_fresh)
  moreover have "map_of (tb_ToID tb) x = Some k \<longleftrightarrow> tb_ToString tb k = Some x" "map_of (tb_ToID tb) x = Some k \<Longrightarrow> k < ?n" for x k
    using t by (auto simp: wf_table_def)
  moreover have "tb_ToString tb k \<noteq> Some key" for k
    using None t by (metis option.distinct(1) wf_table_def)
  ultimately have "wf_table tb'"
    unfolding wf_table_def tb' using None fresh by (auto simp: less_Suc_eq)
  then show ?thesis
    using fresh by (auto simp: tb' map_le_def)
next
  case (Some k)
  then have k: "tb_ToString tb k = Some key"
    using t by (simp add: wf_table_def)
  then have "(tb_ToString tb)(k \<mapsto> key) = tb_ToString tb"
    by (simp add: fun_upd_idem)
  then show ?thesis
    using i t k Some by (cases tb) (auto simp: getOrGenerateRecordReverse_def getOrGenerate_def)
qed

lemma tagsAndAttributes_grows:
  "tagsAndAttributes STRING target g = (tas, g') \<Longrightarrow> grows g g' \<and> og_TargetNameToID g' = og_TargetNameToID g \<and>
    og_TargetIDToString g' = og_TargetIDToString g \<and> og_NextTargetID g' = og_NextTargetID g \<and> og_RuleType g' = og_RuleType g"
  by (auto simp: tagsAndAttributes_def grows_def split: prod.splits)

section \<open>Linking\<close>

definition linkTo :: "nat \<Rightarrow> ItgTarget \<Rightarrow> ItgTarget" where
  "linkTo i t = t \<lparr> it_ReverseDeps := List.insert i (it_ReverseDeps t), it_Root := False \<rparr>"

lemma linkTo_simps [simp]:
  "it_ID (linkTo i t) = it_ID t" "it_Hash (linkTo i t) = it_Hash t" "it_HashWithoutDeps (linkTo i t) = it_HashWithoutDeps t"
  "it_RuleType (linkTo i t) = it_RuleType t" "it_Deps (linkTo i t) = it_Deps t"
  "set (it_ReverseDeps (linkTo i t)) = insert i (set (it_ReverseDeps t))" "linkTo i (linkTo i t) = linkTo i t"
  by (simp_all add: linkTo_def)

lemma linkDeps_eq:
  assumes "wf_store g" "linkDeps i name deps depIDs g = (Inr ids :: 'e itgError + nat list, g')"
  shows "\<exists>new. ids = fold List.insert new depIDs \<and> set new \<subseteq> targetIDs g \<and>
    g' = updateEach (\<lambda>j t. if j \<in> set new then linkTo i t else t) g"
  using assms
proof (induction deps arbitrary: depIDs g)
  case Nil
  then show ?case
    by (intro exI [of _ "[]"]) (simp add: updateEach_same)
next
  case (Cons dep deps)
  obtain d where name: "og_TargetNameToID g dep = Some d"
    using Cons.prems(2) by (cases "og_TargetNameToID g dep") auto
  obtain a where a: "map_of (og_OptimizedTargets g) d = Some a"
    using Cons.prems name by (cases "map_of (og_OptimizedTargets g) d") (auto simp: getTargetByID_eq)
  have d: "map_of (og_OptimizedTargets g) d = Some a" "linkDeps i name deps (List.insert d depIDs) (modifyAt a (linkTo i) g) = (Inr ids :: 'e itgError + nat list, g')"
    using Cons.prems name a by (simp_all add: getTargetByID_eq linkTo_def [abs_def])
  let ?g = "updateEach (\<lambda>j t. if j = d then linkTo i t else t) g"
  have g: "modifyAt a (linkTo i) g = ?g"
    using modifyAt_updateEach [OF Cons.prems(1) a] .
  have wf: "wf_store ?g"
    using Cons.prems(1) by (simp add: wf_store_updateEach keepsID_def)
  obtain new where new: "ids = fold List.insert new (List.insert d depIDs)" "set new \<subseteq> targetIDs g"
      "g' = updateEach (\<lambda>j t. if j \<in> set new then linkTo i t else t) ?g"
    using Cons.IH [OF wf d(2) [unfolded g]] by auto
  have "g' = updateEach (\<lambda>j t. if j \<in> set (d # new) then linkTo i t else t) g"
    unfolding new(3) by (subst updateEach_updateEach) (auto simp: keepsID_def fun_eq_iff intro!: arg_cong2 [of _ _ _ _ updateEach])
  then show ?case
    using new a by (intro exI [of _ "d # new"]) (auto simp: targetIDs_def)
qed

lemma set_fold_insert: "set (fold List.insert new xs) = set new \<union> set xs"
  by (induction new arbitrary: xs) auto

lemma dropOldDeps_eq:
  "wf_store g \<Longrightarrow> set olds \<subseteq> targetIDs g \<Longrightarrow> og_RuleType g = rt \<Longrightarrow>
    foldl (dropOldDep i depIDs) g olds = updateEach (\<lambda>j t. if j \<in> set olds - set depIDs then dropLink rt i t else t) g"
proof (induction olds arbitrary: g)
  case (Cons d olds)
  let ?f = "\<lambda>j t. if j = d \<and> d \<notin> set depIDs then dropLink rt i t else t"
  obtain a where a: "map_of (og_OptimizedTargets g) d = Some a"
    using Cons.prems(2) by (auto simp: targetIDs_def)
  have "dropOldDep i depIDs g d = updateEach ?f g"
    using Cons.prems a by (cases "d \<in> set depIDs")
      (simp_all add: dropOldDep_def updateEach_same getTargetByID_eq dropReverseDep_updateEach [OF Cons.prems(1) a, unfolded Cons.prems(3)])
  moreover have "wf_store (updateEach ?f g)"
    using Cons.prems(1) by (simp add: wf_store_updateEach keepsID_def)
  ultimately have "foldl (dropOldDep i depIDs) g (d # olds) =
      updateEach (\<lambda>j t. if j \<in> set olds - set depIDs then dropLink rt i t else t) (updateEach ?f g)"
    using Cons.IH [of "updateEach ?f g"] Cons.prems by simp
  also have "\<dots> = updateEach (\<lambda>j t. if j \<in> set (d # olds) - set depIDs then dropLink rt i t else t) g"
    by (subst updateEach_updateEach) (auto simp: keepsID_def fun_eq_iff intro!: arg_cong2 [of _ _ _ _ updateEach])
  finally show ?case .
qed (simp add: updateEach_same)

section \<open>The object\<close>

definition oldDeps :: "OptimizedGraph \<Rightarrow> nat \<Rightarrow> nat set" where
  "oldDeps g i = (case targetAt g i of None \<Rightarrow> {} | Some t \<Rightarrow> set (it_Deps t))"

definition oldReverseDeps :: "OptimizedGraph \<Rightarrow> nat \<Rightarrow> nat set" where
  "oldReverseDeps g i = (case targetAt g i of None \<Rightarrow> {} | Some t \<Rightarrow> set (it_ReverseDeps t))"

definition sameTables :: "OptimizedGraph \<Rightarrow> OptimizedGraph \<Rightarrow> bool" where
  "sameTables g g' \<longleftrightarrow> og_ExternalRuleTargets g' = og_ExternalRuleTargets g \<and> og_NextTargetID g' = og_NextTargetID g \<and>
     og_TargetNameToID g' = og_TargetNameToID g \<and> og_TargetIDToString g' = og_TargetIDToString g \<and> og_RuleType g' = og_RuleType g"

definition objectOf :: "nat \<Rightarrow> nat list \<Rightarrow> HashTarget \<Rightarrow> nat set \<Rightarrow> ItgTarget \<Rightarrow> bool" where
  "objectOf ruleTypeID depIDs target rdeps t \<longleftrightarrow> it_Hash t = ht_Hash target \<and> it_HashWithoutDeps t = ht_HashWithoutDeps target \<and>
     it_RuleType t = ruleTypeID \<and> it_Deps t = depIDs \<and> set (it_ReverseDeps t) = rdeps"

lemma putObject_old:
  assumes wf: "wf_store g" and a: "map_of (og_OptimizedTargets g) i = Some a" and deps: "set (it_Deps (og_store g a)) \<subseteq> targetIDs g"
    and p: "putObject i ruleTypeID depIDs tas target g = (b, g')"
  shows "b = a \<and> wf_store g' \<and> og_OptimizedTargets g' = og_OptimizedTargets g \<and> sameTables g g' \<and>
    (\<forall>j. j \<noteq> i \<longrightarrow> targetAt g' j = map_option (\<lambda>u. if j \<in> oldDeps g i - set depIDs then dropLink (og_RuleType g) i u else u) (targetAt g j)) \<and>
    (\<exists>t. targetAt g' i = Some t \<and> objectOf ruleTypeID depIDs target
      (if i \<in> oldDeps g i - set depIDs then oldReverseDeps g i - {i} else oldReverseDeps g i) t)"
proof -
  have t: "targetAt g i = Some (og_store g a)"
    using a by (simp add: targetAt_def)
  let ?d = "\<lambda>j u. if j \<in> oldDeps g i - set depIDs then dropLink (og_RuleType g) i u else u"
  let ?set = "\<lambda>t. t \<lparr> it_Hash := ht_Hash target, it_HashWithoutDeps := ht_HashWithoutDeps target, it_RuleType := ruleTypeID,
      it_Deps := depIDs, it_Tags := fst tas, it_External := ht_External target, it_Attributes := snd tas \<rparr>"
  let ?g = "updateEach ?d g"
  have dropped: "foldl (dropOldDep i depIDs) g (it_Deps (og_store g a)) = ?g"
    using dropOldDeps_eq [OF wf deps refl, of i depIDs] t by (simp add: oldDeps_def)
  have wf': "wf_store ?g"
    using wf by (simp add: wf_store_updateEach keepsID_def)
  have b: "b = a" "g' = updateEach (\<lambda>j t. if j = i then ?set t else t) ?g"
    using p a dropped modifyAt_updateEach [OF wf', of i a ?set] by (auto simp: putObject_def)
  have "wf_store g'"
    unfolding b by (rule wf_store_updateEach [OF wf']) (simp add: keepsID_def)
  moreover have "targetAt g' j = map_option (\<lambda>u. if j = i then ?set (?d j u) else ?d j u) (targetAt g j)" for j
    unfolding b targetAt_updateEach [OF wf'] targetAt_updateEach [OF wf] by (cases "targetAt g j") simp_all
  ultimately show ?thesis
    using t by (simp add: b sameTables_def objectOf_def oldDeps_def oldReverseDeps_def)
qed

text \<open>An object that is new in the store.\<close>

lemma addObject:
  assumes wf: "wf_store g" and i: "map_of (og_OptimizedTargets g) i = None" "it_ID t = i"
    and ext: "\<And>j c. map_of E j = Some c \<Longrightarrow> j \<noteq> i \<Longrightarrow> map_of (og_ExternalRuleTargets g) j = Some c" "\<And>c. map_of E i = Some c \<Longrightarrow> c = og_alloc g"
    and g': "og_store g' = (og_store g)(og_alloc g := t)" "og_alloc g' = Suc (og_alloc g)"
      "og_OptimizedTargets g' = AList.update i (og_alloc g) (og_OptimizedTargets g)" "og_ExternalRuleTargets g' = E"
  shows "wf_store g'" "targetAt g' = (targetAt g)(i \<mapsto> t)" "map_of (og_OptimizedTargets g') i = Some (og_alloc g)"
proof -
  have old: "map_of (og_OptimizedTargets g) j = Some c \<Longrightarrow> c \<noteq> og_alloc g" for j c
    using wf_storeD(2) [OF wf] by fastforce
  have at: "map_of (og_OptimizedTargets g') = (map_of (og_OptimizedTargets g))(i \<mapsto> og_alloc g)"
    by (simp add: g')
  show "wf_store g'"
    unfolding wf_store_def
  proof (intro conjI allI impI)
    show "distinct (map fst (og_OptimizedTargets g'))"
      using wf_storeD(1) [OF wf] by (simp add: g' distinct_update)
    fix j c
    assume j: "map_of (og_OptimizedTargets g') j = Some c"
    show "c < og_alloc g'" "it_ID (og_store g' c) = j"
      using j wf_storeD(2,3) [OF wf, of j c] old [of j c] g' i by (auto simp: at split: if_splits)
  next
    fix j c
    assume "map_of (og_ExternalRuleTargets g') j = Some c"
    then show "map_of (og_OptimizedTargets g') j = Some c"
      using g'(4) ext(1) [of j c] ext(2) [of c] wf_storeD(4) [OF wf, of j c] by (cases "j = i") (auto simp: at)
  qed
  have "targetAt g' j = ((targetAt g)(i \<mapsto> t)) j" for j
    using old g'(1) by (cases "map_of (og_OptimizedTargets g) j") (auto simp: targetAt_def at)
  then show "targetAt g' = (targetAt g)(i \<mapsto> t)"
    by blast
qed (simp add: g')

lemma putObject_new:
  assumes wf: "wf_store g" and a: "map_of (og_OptimizedTargets g) i = None"
    and p: "putObject i ruleTypeID depIDs tas target g = (b, g')"
  shows "wf_store g' \<and> map_of (og_OptimizedTargets g') i = Some b \<and> targetIDs g' = insert i (targetIDs g) \<and> sameTables g g' \<and>
    (\<forall>j. j \<noteq> i \<longrightarrow> targetAt g' j = targetAt g j) \<and>
    (\<exists>t. targetAt g' i = Some t \<and> objectOf ruleTypeID depIDs target {} t)"
proof -
  let ?t = "og_store g' b"
  have ext: "map_of (og_ExternalRuleTargets g) i = None"
    using wf_storeD(4) [OF wf, of i] a by (cases "map_of (og_ExternalRuleTargets g) i") auto
  have g': "b = og_alloc g" "sameTables g g'" "objectOf ruleTypeID depIDs target {} ?t" "it_ID ?t = i"
      "og_store g' = (og_store g)(og_alloc g := ?t)" "og_alloc g' = Suc (og_alloc g)"
      "og_OptimizedTargets g' = AList.update i (og_alloc g) (og_OptimizedTargets g)"
    using p a by (auto simp: putObject_def newObject_def sameTables_def objectOf_def)
  note add = addObject [OF wf a g'(4) _ _ g'(5-7), where E = "og_ExternalRuleTargets g"]
  have "og_ExternalRuleTargets g' = og_ExternalRuleTargets g"
    using g'(2) by (simp add: sameTables_def)
  then show ?thesis
    using add g'(1-3) ext by (auto simp: targetIDs_iff split: if_splits)
qed

lemma putObject_at:
  assumes wf: "wf_store g" and deps: "oldDeps g i \<subseteq> targetIDs g" and p: "putObject i ruleTypeID depIDs tas target g = (b, g')"
  shows "wf_store g' \<and> map_of (og_OptimizedTargets g') i = Some b \<and> targetIDs g' = insert i (targetIDs g) \<and> sameTables g g' \<and>
    (\<forall>j. j \<noteq> i \<longrightarrow> targetAt g' j = map_option (\<lambda>u. if j \<in> oldDeps g i - set depIDs then dropLink (og_RuleType g) i u else u) (targetAt g j)) \<and>
    (\<exists>t. targetAt g' i = Some t \<and> objectOf ruleTypeID depIDs target
      (if i \<in> oldDeps g i - set depIDs then oldReverseDeps g i - {i} else oldReverseDeps g i) t)"
proof (cases "map_of (og_OptimizedTargets g) i")
  case None
  then have none: "oldDeps g i = {}" "oldReverseDeps g i = {}"
    by (simp_all add: oldDeps_def oldReverseDeps_def targetAt_def)
  show ?thesis
    using putObject_new [OF wf None p] unfolding none by (simp add: option.map_ident)
next
  case (Some a)
  have "set (it_Deps (og_store g a)) \<subseteq> targetIDs g"
    using deps Some by (simp add: oldDeps_def targetAt_def)
  from putObject_old [OF wf Some this p] show ?thesis
    using Some by (auto simp: targetIDs_def)
qed

section \<open>The invariant\<close>

text \<open>The graph after the links and the object are in place, described by the one before.\<close>

definition relinked :: "OptimizedGraph \<Rightarrow> nat \<Rightarrow> nat set \<Rightarrow> ItgTarget \<Rightarrow> OptimizedGraph \<Rightarrow> bool" where
  "relinked g i deps t h \<longleftrightarrow> targetIDs h = insert i (targetIDs g) \<and> targetAt h i = Some t \<and> set (it_Deps t) = deps \<and> deps \<subseteq> targetIDs g \<and>
     set (it_ReverseDeps t) - {i} = oldReverseDeps g i - {i} \<and> (i \<in> set (it_ReverseDeps t) \<longleftrightarrow> i \<in> deps) \<and>
     (\<forall>j u. j \<noteq> i \<longrightarrow> targetAt h j = Some u \<longrightarrow> (\<exists>v. targetAt g j = Some v \<and> it_Hash u = it_Hash v \<and>
        it_HashWithoutDeps u = it_HashWithoutDeps v \<and> it_RuleType u = it_RuleType v \<and> it_Deps u = it_Deps v \<and>
        set (it_ReverseDeps u) - {i} = set (it_ReverseDeps v) - {i} \<and> (i \<in> set (it_ReverseDeps u) \<longleftrightarrow> j \<in> deps)))"

lemma relinkedD:
  assumes "relinked g i deps t h"
  shows "targetIDs h = insert i (targetIDs g)" "targetAt h i = Some t" "set (it_Deps t) = deps" "deps \<subseteq> targetIDs g"
    "set (it_ReverseDeps t) - {i} = oldReverseDeps g i - {i}" "i \<in> set (it_ReverseDeps t) \<longleftrightarrow> i \<in> deps"
    and "j \<noteq> i \<Longrightarrow> targetAt h j = Some u \<Longrightarrow> (\<exists>v. targetAt g j = Some v \<and> it_Hash u = it_Hash v \<and>
        it_HashWithoutDeps u = it_HashWithoutDeps v \<and> it_RuleType u = it_RuleType v \<and> it_Deps u = it_Deps v \<and>
        set (it_ReverseDeps u) - {i} = set (it_ReverseDeps v) - {i} \<and> (i \<in> set (it_ReverseDeps u) \<longleftrightarrow> j \<in> deps))"
proof -
  have r: "\<forall>j u. j \<noteq> i \<longrightarrow> targetAt h j = Some u \<longrightarrow> (\<exists>v. targetAt g j = Some v \<and> it_Hash u = it_Hash v \<and>
        it_HashWithoutDeps u = it_HashWithoutDeps v \<and> it_RuleType u = it_RuleType v \<and> it_Deps u = it_Deps v \<and>
        set (it_ReverseDeps u) - {i} = set (it_ReverseDeps v) - {i} \<and> (i \<in> set (it_ReverseDeps u) \<longleftrightarrow> j \<in> deps))"
    using assms unfolding relinked_def by (elim conjE)
  then show "j \<noteq> i \<Longrightarrow> targetAt h j = Some u \<Longrightarrow> (\<exists>v. targetAt g j = Some v \<and> it_Hash u = it_Hash v \<and>
        it_HashWithoutDeps u = it_HashWithoutDeps v \<and> it_RuleType u = it_RuleType v \<and> it_Deps u = it_Deps v \<and>
        set (it_ReverseDeps u) - {i} = set (it_ReverseDeps v) - {i} \<and> (i \<in> set (it_ReverseDeps u) \<longleftrightarrow> j \<in> deps))"
    by (simp only: simp_thms)
  show "targetIDs h = insert i (targetIDs g)" "targetAt h i = Some t" "set (it_Deps t) = deps" "deps \<subseteq> targetIDs g"
    "set (it_ReverseDeps t) - {i} = oldReverseDeps g i - {i}" "i \<in> set (it_ReverseDeps t) \<longleftrightarrow> i \<in> deps"
    using assms unfolding relinked_def by - (elim conjE, assumption)+
qed

lemma wf_links_relinked:
  assumes l: "wf_links g" and r: "relinked g i deps t h"
  shows "wf_links h"
proof -
  note D = relinkedD [OF r]
  have old: "oldReverseDeps g i \<subseteq> targetIDs g"
    using wf_linksD(2) [OF l, of i] by (auto simp: oldReverseDeps_def split: option.splits)
  have dep: "x \<in> oldReverseDeps g i \<longleftrightarrow> i \<in> set (it_Deps v)" if "targetAt g x = Some v" for x v
    using wf_linksD(3) [OF l _ that, of i] wf_linksD(1) [OF l that] by (auto simp: oldReverseDeps_def targetIDs_iff split: option.splits)
  have link: "x \<in> set (it_ReverseDeps u) \<longleftrightarrow> j \<in> set (it_Deps w)" if u: "targetAt h j = Some u" and w: "targetAt h x = Some w" for j x u w
  proof (cases "x = i")
    case True
    then show ?thesis
      using D(2,3,6) D(7) [OF _ u] u w by (cases "j = i") auto
  next
    case False
    then obtain v where v: "targetAt g x = Some v" "it_Deps w = it_Deps v"
      using D(7) [OF _ w] by auto
    show ?thesis
    proof (cases "j = i")
      case True
      then show ?thesis
        using D(2,5) u dep [OF v(1)] v(2) False by auto
    next
      case j: False
      then obtain y where y: "targetAt g j = Some y" "set (it_ReverseDeps u) - {i} = set (it_ReverseDeps y) - {i}"
        using D(7) [OF _ u] by auto
      then show ?thesis
        using wf_linksD(3) [OF l y(1) v(1)] v(2) False by auto
    qed
  qed
  have closed: "set (it_Deps u) \<subseteq> targetIDs h \<and> set (it_ReverseDeps u) \<subseteq> targetIDs h" if u: "targetAt h j = Some u" for j u
  proof (cases "j = i")
    case True
    then show ?thesis
      using D(1-5) u old by auto
  next
    case False
    then obtain y where y: "targetAt g j = Some y" "it_Deps u = it_Deps y" "set (it_ReverseDeps u) - {i} = set (it_ReverseDeps y) - {i}"
      using D(7) [OF _ u] by auto
    then show ?thesis
      using wf_linksD(1,2) [OF l y(1)] D(1) by auto
  qed
  show ?thesis
    unfolding wf_links_def using link closed by blast
qed

lemma putObject_relinked:
  assumes wf: "wf_store g" and l: "wf_links g" and new: "set depIDs \<subseteq> targetIDs g"
    and g': "grows (updateEach (\<lambda>j t. if j \<in> set depIDs then linkTo i t else t) g) g'"
    and p: "putObject i ruleTypeID depIDs tas target g' = (b, h)"
  shows "\<exists>t. wf_store h \<and> map_of (og_OptimizedTargets h) i = Some b \<and> relinked g i (set depIDs) t h \<and> sameTables g' h \<and>
    it_Hash t = ht_Hash target \<and> it_HashWithoutDeps t = ht_HashWithoutDeps target \<and> it_RuleType t = ruleTypeID"
proof -
  have wf': "wf_store g'"
    using growsD(7) [OF g'] wf by (simp add: wf_store_updateEach keepsID_def)
  have at: "targetAt g' j = map_option (\<lambda>t. if j \<in> set depIDs then linkTo i t else t) (targetAt g j)" for j
    unfolding growsD(1) [OF g'] targetAt_updateEach [OF wf] ..
  have ids: "targetIDs g' = targetIDs g"
    using growsD(2) [OF g'] by simp
  have deps: "oldDeps g' i = oldDeps g i" "oldDeps g i \<subseteq> targetIDs g"
    using wf_linksD(1) [OF l, of i] by (auto simp: oldDeps_def at split: option.splits)
  have rdeps: "oldReverseDeps g' i = oldReverseDeps g i \<union> (if i \<in> set depIDs then {i} else {})"
    using new by (auto simp: oldReverseDeps_def at targetIDs_iff split: option.splits)
  have self: "i \<in> oldReverseDeps g i \<longleftrightarrow> i \<in> oldDeps g i"
    using wf_linksD(3) [OF l] by (auto simp: oldReverseDeps_def oldDeps_def split: option.splits)
  have fromOld: "i \<in> set (it_ReverseDeps v) \<longleftrightarrow> j \<in> oldDeps g i" if "targetAt g j = Some v" for j v
    using wf_linksD(3) [OF l that, of i] wf_linksD(2) [OF l that] by (auto simp: oldDeps_def targetIDs_iff split: option.splits)
  obtain t where h: "wf_store h" "map_of (og_OptimizedTargets h) i = Some b" "targetIDs h = insert i (targetIDs g)"
      "sameTables g' h"
      "\<And>j. j \<noteq> i \<Longrightarrow> targetAt h j = map_option (\<lambda>u. if j \<in> oldDeps g i - set depIDs then dropLink (og_RuleType g') i u else u) (targetAt g' j)"
      "targetAt h i = Some t"
      "objectOf ruleTypeID depIDs target (if i \<in> oldDeps g i - set depIDs then oldReverseDeps g' i - {i} else oldReverseDeps g' i) t"
    using putObject_at [OF wf' _ p] deps ids by auto
  have t: "it_Hash t = ht_Hash target" "it_HashWithoutDeps t = ht_HashWithoutDeps target" "it_RuleType t = ruleTypeID"
      "it_Deps t = depIDs" "set (it_ReverseDeps t) = (if i \<in> oldDeps g i - set depIDs then oldReverseDeps g' i - {i} else oldReverseDeps g' i)"
    using h(7) unfolding objectOf_def by auto
  have "relinked g i (set depIDs) t h"
    unfolding relinked_def
  proof (intro conjI allI impI)
    show "set (it_ReverseDeps t) - {i} = oldReverseDeps g i - {i}" "i \<in> set (it_ReverseDeps t) \<longleftrightarrow> i \<in> set depIDs"
      using self by (auto simp: t(5) rdeps)
  next
    fix j u
    assume j: "j \<noteq> i" "targetAt h j = Some u"
    then obtain v where v: "targetAt g j = Some v"
        "u = (let w = if j \<in> set depIDs then linkTo i v else v in if j \<in> oldDeps g i - set depIDs then dropLink (og_RuleType g') i w else w)"
      by (auto simp: h(5) at)
    then show "\<exists>v. targetAt g j = Some v \<and> it_Hash u = it_Hash v \<and> it_HashWithoutDeps u = it_HashWithoutDeps v \<and>
        it_RuleType u = it_RuleType v \<and> it_Deps u = it_Deps v \<and> set (it_ReverseDeps u) - {i} = set (it_ReverseDeps v) - {i} \<and>
        (i \<in> set (it_ReverseDeps u) \<longleftrightarrow> j \<in> set depIDs)"
      using fromOld [OF v(1)] by (intro exI [of _ v]) (auto simp: Let_def)
  qed (use h(3,6) t(4) new in simp_all)
  then show ?thesis
    using h t by blast
qed

text \<open>A successful insertion in closed form.\<close>

lemma wf_graph_relinked:
  assumes wf: "wf_graph g" and gr: "grows g g1" and names: "wf_names g1" and types: "wf_table (og_RuleType g1)"
    and r: "relinked g i deps t h" and s: "wf_store h"
    and tabs: "og_TargetIDToString h = og_TargetIDToString g1" "og_TargetNameToID h = og_TargetNameToID g1"
      "og_NextTargetID h = og_NextTargetID g1" "og_RuleType h = og_RuleType g1"
    and i: "i \<in> dom (og_TargetIDToString g1)" "it_RuleType t \<in> dom (tb_ToString (og_RuleType g1))"
  shows "wf_graph h"
proof -
  note R = relinkedD [OF r]
  have "it_RuleType u \<in> dom (tb_ToString (og_RuleType g1))" if u: "targetAt h j = Some u" for j u
  proof (cases "j = i")
    case False
    then obtain v where v: "targetAt g j = Some v" "it_RuleType u = it_RuleType v"
      using R(7) [OF False u] by auto
    then show ?thesis
      using subsetD [OF map_le_implies_dom_le [OF growsD(10) [OF gr]] wf_graphD(5) [OF wf v(1)]] by simp
  qed (use u R(2) i(2) in simp)
  moreover have "targetIDs h \<subseteq> dom (og_TargetIDToString g1)"
    using names growsD(2) [OF gr] R(1) i(1) by (auto simp: wf_names_def)
  then have "wf_names h"
    using names by (simp add: wf_names_def tabs)
  ultimately show ?thesis
    using s types wf_links_relinked [OF wf_graphD(2) [OF wf] r] by (simp add: wf_graph_def tabs)
qed

lemma upsertTarget_eq:
  assumes wf: "wf_graph g" and up: "upsertTarget STRING target (g, iv) = (Inr () :: 'e itgError + unit, g', iv')"
  obtains i deps t h where "wf_graph h" "relinked g i deps t h" "og_ExternalRuleTargets h = og_ExternalRuleTargets g"
    "og_TargetIDToString g \<subseteq>\<^sub>m og_TargetIDToString h" "tb_ToString (og_RuleType g) \<subseteq>\<^sub>m tb_ToString (og_RuleType h)"
    "it_Hash t = ht_Hash target" "it_HashWithoutDeps t = ht_HashWithoutDeps target"
    "stringOf (tb_ToString (og_RuleType h)) (it_RuleType t) = ht_RuleType target"
    "og_TargetIDToString h i = Some (ht_Name target)"
    "g' = clearAffected h (set (it_ReverseDeps t))"
    "set iv' = set iv \<union> {j. affected h (set (it_ReverseDeps t)) j} \<union> (if ht_Hash target = None then {i} else {})"
proof -
  obtain i g1 where g1: "getOrGenerateTargetID (ht_Name target) g = (i, g1)"
    by fastforce
  obtain ruleTypeID ruleTypes where rt: "getOrGenerateRecordReverse (ht_RuleType target) (og_RuleType g1) = (ruleTypeID, ruleTypes)"
    by fastforce
  let ?g2 = "g1 \<lparr> og_RuleType := ruleTypes \<rparr>"
  note n1 = getOrGenerateTargetID_grows [OF wf_graphD(3) [OF wf] g1]
  have r2: "wf_table ruleTypes" "tb_ToString (og_RuleType g) \<subseteq>\<^sub>m tb_ToString ruleTypes" "tb_ToString ruleTypes ruleTypeID = Some (ht_RuleType target)"
    using getOrGenerateRecordReverse_table [OF _ rt] wf_graphD(4) [OF wf] n1 by auto
  have gr: "grows g ?g2"
    using n1 r2 by (auto simp: grows_def)
  note wf2 = growsD(7) [OF gr wf_graphD(1) [OF wf]] growsD(8) [OF gr wf_graphD(2) [OF wf]]
  obtain depIDs g3 where g3: "linkDeps i (ht_Name target) (ht_Deps target) [] ?g2 = (Inr depIDs :: 'e itgError + nat list, g3)"
    using up g1 rt by (auto simp: upsertTarget_def split: prod.splits sum.splits)
  obtain tas g4 where g4: "tagsAndAttributes STRING target g3 = (tas, g4)"
    by fastforce
  obtain a h where h: "putObject i ruleTypeID depIDs tas target g4 = (a, h)"
    by fastforce
  obtain new where new: "depIDs = fold List.insert new []" "set new \<subseteq> targetIDs ?g2"
      "g3 = updateEach (\<lambda>j t. if j \<in> set new then linkTo i t else t) ?g2"
    using linkDeps_eq [OF wf2(1) g3] by auto
  have ids: "set depIDs = set new"
    using new(1) by (simp add: set_fold_insert)
  note tas = tagsAndAttributes_grows [OF g4]
  obtain t where t: "wf_store h" "map_of (og_OptimizedTargets h) i = Some a" "relinked ?g2 i (set depIDs) t h" "sameTables g4 h"
      "it_Hash t = ht_Hash target" "it_HashWithoutDeps t = ht_HashWithoutDeps target" "it_RuleType t = ruleTypeID"
    using putObject_relinked [OF wf2 _ _ h] tas new(2,3) ids by auto
  have tabs: "og_ExternalRuleTargets h = og_ExternalRuleTargets g" "og_TargetIDToString h = og_TargetIDToString g1"
      "og_TargetNameToID h = og_TargetNameToID g1" "og_NextTargetID h = og_NextTargetID g1" "og_RuleType h = ruleTypes"
    using t(4) tas growsD(3) [OF gr] by (simp_all add: sameTables_def new(3) grows_def)
  have "oldReverseDeps ?g2 = oldReverseDeps g"
    using growsD(1) [OF gr] by (simp add: oldReverseDeps_def fun_eq_iff)
  then have rel: "relinked g i (set depIDs) t h"
    using t(3) growsD(1,2) [OF gr] by (simp add: relinked_def)
  have wfh: "wf_graph h"
    using n1 r2 t(7) by (intro wf_graph_relinked [OF wf gr _ _ rel t(1)]) (auto simp: tabs wf_names_def targetIDs_def)
  have at: "og_store h a = t"
    using relinkedD(2) [OF rel] t(2) by (simp add: targetAt_def)
  obtain iv0 where iv0: "invalidateLoop (it_ReverseDeps t) (h, iv) = (clearAffected h (set (it_ReverseDeps t)), iv0)"
      "set iv0 = set iv \<union> {j. affected h (set (it_ReverseDeps t)) j}"
    using invalidateLoop_eq [OF t(1), of "it_ReverseDeps t" iv] by blast
  have "(Inr () :: 'e itgError + unit, g', iv') =
      (Inr (), clearAffected h (set (it_ReverseDeps t)), if ht_Hash target = None then List.insert i iv0 else iv0)"
    using up by (simp add: upsertTarget_def g1 rt g3 g4 h at invalidateHashRecursively_def iv0(1))
  then have "g' = clearAffected h (set (it_ReverseDeps t))"
    "set iv' = set iv \<union> {j. affected h (set (it_ReverseDeps t)) j} \<union> (if ht_Hash target = None then {i} else {})"
    using iv0(2) by auto
  moreover have "og_TargetIDToString g \<subseteq>\<^sub>m og_TargetIDToString h" "og_TargetIDToString h i = Some (ht_Name target)"
    using n1 by (simp_all add: tabs grows_def)
  moreover have "tb_ToString (og_RuleType g) \<subseteq>\<^sub>m tb_ToString (og_RuleType h)"
      "stringOf (tb_ToString (og_RuleType h)) (it_RuleType t) = ht_RuleType target"
    using r2 t(7) by (simp_all add: tabs stringOf_def)
  ultimately show thesis
    using that [OF wfh rel tabs(1)] t(5,6) by simp
qed

end
