(* ===== verification/ItgHash.thy ===== *)
theory ItgHash
  imports ItgUpsert
begin

text \<open>
  What the hash of a target is: \<open>itgMerkle\<close> defines it from the graph alone, reading stored hashes only of
  source files, package groups and external rules. \<open>current\<close> says that every stored hash is that
  hash, \<open>supported\<close> that a target with a hash has hashed dependencies. Removal and insertion keep both.
\<close>

section \<open>Reference\<close>

definition ruleTypeOf :: "OptimizedGraph \<Rightarrow> ItgTarget \<Rightarrow> string" where
  "ruleTypeOf g t = stringOf (tb_ToString (og_RuleType g)) (it_RuleType t)"

definition isExternalRule :: "OptimizedGraph \<Rightarrow> nat \<Rightarrow> bool" where
  "isExternalRule g i \<longleftrightarrow> map_of (og_ExternalRuleTargets g) i \<noteq> None"

definition leafTypes :: "string set" where
  "leafTypes = {SourceFileType, PackageGroup}"

definition isLeaf :: "OptimizedGraph \<Rightarrow> nat \<Rightarrow> ItgTarget \<Rightarrow> bool" where
  "isLeaf g i t \<longleftrightarrow> isExternalRule g i \<or> ruleTypeOf g t \<in> leafTypes"

inductive itgMerkle :: "(bytes \<Rightarrow> bytes) \<Rightarrow> OptimizedGraph \<Rightarrow> nat \<Rightarrow> bytes \<Rightarrow> bool" for sha g where
  leaf: "targetAt g i = Some t \<Longrightarrow> isLeaf g i t \<Longrightarrow> it_Hash t = Some h \<Longrightarrow> itgMerkle sha g i h"
| generated: "targetAt g i = Some t \<Longrightarrow> \<not> isLeaf g i t \<Longrightarrow> ruleTypeOf g t = GeneratedFileType \<Longrightarrow> it_Deps t \<noteq> [] \<Longrightarrow>
    itgMerkle sha g (singleDep (it_Deps t)) h \<Longrightarrow> itgMerkle sha g i h"
| rule: "targetAt g i = Some t \<Longrightarrow> \<not> isLeaf g i t \<Longrightarrow> ruleTypeOf g t \<noteq> GeneratedFileType \<Longrightarrow> it_HashWithoutDeps t = Some own \<Longrightarrow>
    list_all2 (itgMerkle sha g) (sortIDs g (it_Deps t)) hs \<Longrightarrow> itgMerkle sha g i (sha (own @ concat hs))"

lemma set_sortIDs [simp]: "set (sortIDs g ids) = set ids"
  by (simp add: sortIDs_def)

lemma itgMerkle_unique: "itgMerkle sha g i h \<Longrightarrow> itgMerkle sha g i h' \<Longrightarrow> h = h'"
proof (induction arbitrary: h' rule: itgMerkle.induct)
  case (leaf i t h)
  from leaf(4) show ?case
    by (cases rule: itgMerkle.cases) (use leaf(1-3) in auto)
next
  case (generated i t h)
  from generated(7) show ?case
    by (cases rule: itgMerkle.cases) (use generated(1-4) generated(6) [of h'] in auto)
next
  case (rule i t own hs)
  from rule(6) obtain hs' where h': "h' = sha (own @ concat hs')" "list_all2 (itgMerkle sha g) (sortIDs g (it_Deps t)) hs'"
    by (cases rule: itgMerkle.cases) (use rule(1-4) in auto)
  have "hs ! k = hs' ! k" if "k < length hs" for k
    using rule(5) h'(2) that by (simp add: list_all2_conv_all_nth)
  then have "hs = hs'"
    using list_all2_lengthD [OF rule(5)] list_all2_lengthD [OF h'(2)] by (intro nth_equalityI) simp_all
  then show ?case
    using h' by simp
qed

definition current :: "(bytes \<Rightarrow> bytes) \<Rightarrow> OptimizedGraph \<Rightarrow> bool" where
  "current sha g \<longleftrightarrow> (\<forall>i t h. targetAt g i = Some t \<longrightarrow> it_Hash t = Some h \<longrightarrow> itgMerkle sha g i h)"

definition supported :: "OptimizedGraph \<Rightarrow> bool" where
  "supported g \<longleftrightarrow> (\<forall>i t d. targetAt g i = Some t \<longrightarrow> it_Hash t \<noteq> None \<longrightarrow> \<not> isLeaf g i t \<longrightarrow> d \<in> set (it_Deps t) \<longrightarrow> hashedAt g d)"

section \<open>Transfer\<close>

text \<open>A target that has kept everything that its hash depends on.\<close>

definition kept :: "OptimizedGraph \<Rightarrow> OptimizedGraph \<Rightarrow> nat \<Rightarrow> bool" where
  "kept g g' j \<longleftrightarrow> (\<exists>u v. targetAt g' j = Some u \<and> targetAt g j = Some v \<and> it_Hash u = it_Hash v \<and>
     it_HashWithoutDeps u = it_HashWithoutDeps v \<and> it_Deps u = it_Deps v \<and> ruleTypeOf g' u = ruleTypeOf g v \<and>
     isExternalRule g' j = isExternalRule g j \<and> sortIDs g' (it_Deps u) = sortIDs g (it_Deps v))"

lemma singleDep_in: "ds \<noteq> [] \<Longrightarrow> singleDep ds \<in> set ds"
  by (cases ds) (auto simp: singleDep_def)

lemma itgMerkle_transfer:
  assumes kept: "\<And>j. hashedAt g' j \<Longrightarrow> j \<noteq> i \<Longrightarrow> kept g g' j"
    and closed: "\<And>j u d. j \<noteq> i \<Longrightarrow> targetAt g' j = Some u \<Longrightarrow> it_Hash u \<noteq> None \<Longrightarrow> \<not> isLeaf g' j u \<Longrightarrow> d \<in> set (it_Deps u) \<Longrightarrow>
      hashedAt g' d \<and> d \<noteq> i"
  shows "itgMerkle sha g j h \<Longrightarrow> hashedAt g' j \<Longrightarrow> j \<noteq> i \<Longrightarrow> itgMerkle sha g' j h"
proof (induction rule: itgMerkle.induct)
  case (leaf j t h)
  obtain u where "targetAt g' j = Some u" "it_Hash u = it_Hash t" "isLeaf g' j u"
    using kept [OF leaf(4,5)] leaf(1,2) by (auto simp: kept_def isLeaf_def)
  then show ?case
    using leaf(3) by (auto intro: itgMerkle.leaf)
next
  case (generated j t h)
  obtain u where u: "targetAt g' j = Some u" "it_Deps u = it_Deps t" "\<not> isLeaf g' j u" "ruleTypeOf g' u = GeneratedFileType"
    using kept [OF generated(7,8)] generated(1-3) by (auto simp: kept_def isLeaf_def)
  have "hashedAt g' (singleDep (it_Deps u)) \<and> singleDep (it_Deps u) \<noteq> i"
    using generated(4,7,8) u by (intro closed [of j u]) (auto simp: hashedAt_def singleDep_in)
  then show ?case
    using generated(4,6) u by (auto intro: itgMerkle.generated)
next
  case (rule j t own hs)
  obtain u where u: "targetAt g' j = Some u" "it_Deps u = it_Deps t" "\<not> isLeaf g' j u" "ruleTypeOf g' u \<noteq> GeneratedFileType"
      "it_HashWithoutDeps u = Some own" "sortIDs g' (it_Deps u) = sortIDs g (it_Deps t)"
    using kept [OF rule(6,7)] rule(1-4) by (auto simp: kept_def isLeaf_def)
  have dep: "hashedAt g' d \<and> d \<noteq> i" if "d \<in> set (sortIDs g (it_Deps t))" for d
    using closed [OF rule(7) u(1) _ u(3)] that rule(6) u(1,2) by (auto simp: hashedAt_def)
  have "list_all2 (itgMerkle sha g') (sortIDs g (it_Deps t)) hs"
    using rule(5) by (rule list.rel_mono_strong) (use dep in auto)
  then show ?case
    using u by (auto intro: itgMerkle.rule)
qed

section \<open>Removal and insertion\<close>

lemma hashedAt_clearAffected: "wf_store h \<Longrightarrow> hashedAt (clearAffected h cs) j \<longleftrightarrow> hashedAt h j \<and> \<not> affected h cs j"
  by (cases "targetAt h j") (auto simp: hashedAt_def targetAt_clearAffected)

lemma stringOf_le: "m \<subseteq>\<^sub>m m' \<Longrightarrow> k \<in> dom m \<Longrightarrow> stringOf m' k = stringOf m k"
  by (simp add: stringOf_def map_le_def)

lemma sort_key_same:
  assumes "\<And>x. x \<in> set xs \<Longrightarrow> f x = f' x"
  shows "sort_key f xs = sort_key f' xs"
proof -
  have ins: "f x = f' x \<Longrightarrow> (\<And>y. y \<in> set ys \<Longrightarrow> f y = f' y) \<Longrightarrow> insort_key f x ys = insort_key f' x ys" for x ys
    by (induction ys) auto
  show ?thesis
    using assms
  proof (induction xs)
    case (Cons x xs)
    then show ?case
      using ins [of x "sort_key f' xs"] by simp
  qed simp
qed

lemma sortIDs_cong: "(\<And>d. d \<in> set ids \<Longrightarrow> og_TargetIDToString g' d = og_TargetIDToString g d) \<Longrightarrow> sortIDs g' ids = sortIDs g ids"
  unfolding sortIDs_def by (rule sort_key_same) (simp add: stringOf_def)

text \<open>
  After the affected hashes are cleared, the targets that still have a hash depend on each other only. \<open>i\<close> is
  the target that changed; its dependents are the candidates.
\<close>

lemma cleared_closed:
  assumes wf: "wf_graph h" and cs: "\<And>j u. targetAt h j = Some u \<Longrightarrow> i \<in> set (it_Deps u) \<Longrightarrow> j \<in> cs"
    and sup: "\<And>j u d. j \<noteq> i \<Longrightarrow> targetAt h j = Some u \<Longrightarrow> it_Hash u \<noteq> None \<Longrightarrow> \<not> isLeaf h j u \<Longrightarrow> d \<in> set (it_Deps u) \<Longrightarrow> d \<noteq> i \<Longrightarrow> hashedAt h d"
    and j: "j \<noteq> i" "targetAt (clearAffected h cs) j = Some u" "it_Hash u \<noteq> None" "\<not> isLeaf (clearAffected h cs) j u" "d \<in> set (it_Deps u)"
  shows "hashedAt (clearAffected h cs) d \<and> d \<noteq> i"
proof -
  note s = wf_graphD(1) [OF wf]
  have "\<not> affected h cs j"
    using j(2,3) by (auto simp: targetAt_clearAffected [OF s])
  then obtain v where v: "targetAt h j = Some v" "\<not> affected h cs j" "u = v"
    using j(2) by (auto simp: targetAt_clearAffected [OF s])
  have hj: "hashedAt h j"
    using v j(3) by (auto simp: hashedAt_def)
  have di: "d \<noteq> i"
    using cs [OF v(1)] v j(5) affected.candidate [OF _ hj, of cs] by auto
  have "\<not> isLeaf h j v"
    using j(4) v(3) by (simp add: isLeaf_def isExternalRule_def ruleTypeOf_def)
  then have hd: "hashedAt h d"
    using sup [OF j(1) v(1)] v(3) j(3,5) di by auto
  then obtain w where w: "targetAt h d = Some w"
    by (auto simp: hashedAt_def)
  have "j \<in> set (it_ReverseDeps w)"
    using wf_linksD(3) [OF wf_graphD(2) [OF wf] w v(1)] v(3) j(5) by simp
  then have "\<not> affected h cs d"
    using affected.dependent [OF _ w _ hj] v(2) by blast
  then show ?thesis
    using hd di s by (simp add: hashedAt_clearAffected)
qed

text \<open>Both invariants, for a change of the target \<open>i\<close> that keeps everything else.\<close>

lemma cleared_current:
  assumes wf: "wf_graph h" and cs: "\<And>j u. targetAt h j = Some u \<Longrightarrow> i \<in> set (it_Deps u) \<Longrightarrow> j \<in> cs"
    and cur: "current sha g" and sup: "supported g"
    and kept: "\<And>j. hashedAt h j \<Longrightarrow> j \<noteq> i \<Longrightarrow> j \<notin> cs \<Longrightarrow> kept g h j"
    and hashes: "\<And>j u. j \<noteq> i \<Longrightarrow> targetAt h j = Some u \<Longrightarrow> \<exists>v. targetAt g j = Some v \<and> it_Hash u = it_Hash v \<and>
        (isLeaf h j u \<longleftrightarrow> isLeaf g j v) \<and> set (it_Deps u) - {i} \<subseteq> set (it_Deps v)"
    and present: "targetIDs g - {i} \<subseteq> targetIDs h"
    and own: "\<And>t h'. targetAt h i = Some t \<Longrightarrow> it_Hash t = Some h' \<Longrightarrow> isLeaf h i t"
  shows "current sha (clearAffected h cs) \<and> supported (clearAffected h cs)"
proof -
  note s = wf_graphD(1) [OF wf]
  let ?g = "clearAffected h cs"
  have hashed: "hashedAt h d \<longleftrightarrow> hashedAt g d" if "d \<noteq> i" for d
  proof -
    have "\<exists>u. targetAt h d = Some u" if "targetAt g d = Some v" for v
      using subsetD [OF present, of d] that \<open>d \<noteq> i\<close> by (simp add: targetIDs_iff)
    then show ?thesis
      using hashes [OF that] by (fastforce simp: hashedAt_def)
  qed
  have sup': "hashedAt h d" if a: "j \<noteq> i" "targetAt h j = Some u" "it_Hash u \<noteq> None" "\<not> isLeaf h j u" "d \<in> set (it_Deps u)" "d \<noteq> i" for j u d
  proof -
    obtain v where v: "targetAt g j = Some v" "it_Hash v \<noteq> None" "\<not> isLeaf g j v" "d \<in> set (it_Deps v)"
      using hashes [OF a(1,2)] a(3-6) by auto
    then show ?thesis
      using sup hashed [OF a(6)] by (simp add: supported_def)
  qed
  have closed: "hashedAt ?g d \<and> d \<noteq> i"
    if "j \<noteq> i" "targetAt ?g j = Some u" "it_Hash u \<noteq> None" "\<not> isLeaf ?g j u" "d \<in> set (it_Deps u)" for j u d
    by (rule cleared_closed [OF wf cs sup' that])
  have kept': "kept g ?g j" if j: "hashedAt ?g j" "j \<noteq> i" for j
  proof -
    have h: "hashedAt h j" "\<not> affected h cs j"
      using j(1) s by (simp_all add: hashedAt_clearAffected)
    then have "j \<notin> cs"
      using affected.candidate by blast
    from kept [OF h(1) j(2) this] show ?thesis
      using h(2) by (simp add: kept_def targetAt_clearAffected [OF s] ruleTypeOf_def isExternalRule_def sortIDs_def)
  qed
  have leaf: "isLeaf ?g i t" if "targetAt ?g i = Some t" "it_Hash t = Some x" for t x
    using that own by (auto simp: targetAt_clearAffected [OF s] isLeaf_def isExternalRule_def ruleTypeOf_def split: if_splits)
  have "itgMerkle sha ?g j x" if u: "targetAt ?g j = Some u" "it_Hash u = Some x" for j u x
  proof (cases "j = i")
    case True
    then show ?thesis
      using u leaf by (auto intro: itgMerkle.leaf)
  next
    case False
    have "hashedAt ?g j"
      using u by (auto simp: hashedAt_def)
    from kept' [OF this False] u obtain v where "targetAt g j = Some v" "it_Hash v = Some x"
      by (auto simp: kept_def)
    then have m: "itgMerkle sha g j x"
      using cur by (auto simp: current_def)
    show ?thesis
      by (rule itgMerkle_transfer [where g = g and i = i, OF _ _ m \<open>hashedAt ?g j\<close> False]) (fact kept', fact closed)
  qed
  moreover have "supported ?g"
    unfolding supported_def using closed leaf by (metis option.exhaust)
  ultimately show ?thesis
    by (auto simp: current_def)
qed

definition tracked :: "itgState \<Rightarrow> bool" where
  "tracked s \<longleftrightarrow> set (snd s) \<subseteq> targetIDs (fst s) \<and> (\<forall>i \<in> targetIDs (fst s). \<not> hashedAt (fst s) i \<longrightarrow> i \<in> set (snd s))"

text \<open>The invariant of a graph between updates.\<close>

definition consistent :: "(bytes \<Rightarrow> bytes) \<Rightarrow> itgState \<Rightarrow> bool" where
  "consistent sha s \<longleftrightarrow> wf_graph (fst s) \<and> current sha (fst s) \<and> supported (fst s) \<and> tracked s"

lemma consistentD:
  assumes "consistent sha (g, iv)"
  shows "wf_graph g" "current sha g" "supported g" "tracked (g, iv)"
  using assms by (auto simp: consistent_def)

lemma kept_withoutTarget:
  assumes wf: "wf_graph g" and t: "targetAt g i = Some t" and j: "j \<noteq> i" "targetAt g j = Some v" "j \<notin> set (it_ReverseDeps t)"
  shows "kept g (withoutTarget i t g) j"
proof -
  note s = wf_graphD(1) [OF wf]
  let ?u = "unlinked (og_RuleType g) i t j v"
  have i: "i \<notin> set (it_Deps v)"
    using wf_linksD(3) [OF wf_graphD(2) [OF wf] t j(2)] j(3) by simp
  have u: "targetAt (withoutTarget i t g) j = Some ?u" "it_Deps ?u = it_Deps v"
    using j by (simp_all add: targetAt_withoutTarget [OF s] unlinked_def Let_def)
  have "sortIDs (withoutTarget i t g) (it_Deps v) = sortIDs g (it_Deps v)"
    using i by (intro sortIDs_cong) auto
  then show ?thesis
    using u j by (simp add: kept_def ruleTypeOf_def isExternalRule_def)
qed

lemma removeTarget_consistent:
  assumes ok: "consistent sha (g, iv)" and a: "map_of (og_OptimizedTargets g) i = Some a"
  shows "\<exists>g' iv'. removeTarget a (g, iv) = (Inr () :: 'e itgError + unit, g', iv') \<and> consistent sha (g', iv') \<and>
    targetIDs g' = targetIDs g - {i}"
proof -
  note wf = consistentD(1) [OF ok]
  note s = wf_graphD(1) [OF wf]
  let ?t = "og_store g a"
  let ?h = "withoutTarget i ?t g" and ?cs = "set (it_ReverseDeps ?t)"
  have t: "targetAt g i = Some ?t"
    using a by (simp add: targetAt_def)
  have wfh: "wf_graph ?h"
    using wf t by (rule wf_graph_withoutTarget)
  note sh = wf_graphD(1) [OF wfh]
  have none: "targetAt ?h i = None"
    by (simp add: targetAt_None)
  obtain iv' where iv': "removeTarget a (g, iv) = (Inr () :: 'e itgError + unit, clearAffected ?h ?cs, iv')"
      "set iv' = set iv - {i} \<union> {j. affected ?h ?cs j}"
    using removeTarget_eq [OF wf a] by blast
  have at: "targetAt ?h j = Some u \<Longrightarrow> \<exists>v. targetAt g j = Some v \<and> u = unlinked (og_RuleType g) i ?t j v \<and> j \<noteq> i" for j u
    by (auto simp: targetAt_withoutTarget [OF s] split: if_splits)
  have "current sha (clearAffected ?h ?cs) \<and> supported (clearAffected ?h ?cs)"
  proof (rule cleared_current [OF wfh _ consistentD(2,3) [OF ok]])
    show "j \<in> ?cs" if "targetAt ?h j = Some u" "i \<in> set (it_Deps u)" for j u
      using wf_linksD(1) [OF wf_graphD(2) [OF wfh] that(1)] that(2) by auto
    show "kept g ?h j" if "hashedAt ?h j" "j \<noteq> i" "j \<notin> ?cs" for j
      using that at by (auto simp: hashedAt_def intro: kept_withoutTarget [OF wf t])
    show "\<exists>v. targetAt g j = Some v \<and> it_Hash u = it_Hash v \<and> (isLeaf ?h j u \<longleftrightarrow> isLeaf g j v) \<and> set (it_Deps u) - {i} \<subseteq> set (it_Deps v)"
      if "j \<noteq> i" "targetAt ?h j = Some u" for j u
      using at [OF that(2)] by (auto simp: isLeaf_def isExternalRule_def ruleTypeOf_def split: if_splits)
  qed (simp_all add: none)
  moreover have "tracked (clearAffected ?h ?cs, iv')"
    unfolding tracked_def
  proof (intro conjI ballI impI)
    show "set (snd (clearAffected ?h ?cs, iv')) \<subseteq> targetIDs (fst (clearAffected ?h ?cs, iv'))"
      using consistentD(4) [OF ok] iv'(2) affected_present [of ?h ?cs] by (auto simp: tracked_def)
  next
    fix j
    assume j: "j \<in> targetIDs (fst (clearAffected ?h ?cs, iv'))" "\<not> hashedAt (fst (clearAffected ?h ?cs, iv')) j"
    show "j \<in> set (snd (clearAffected ?h ?cs, iv'))"
    proof (cases "affected ?h ?cs j")
      case False
      then have "\<not> hashedAt ?h j" "j \<in> targetIDs g" "j \<noteq> i"
        using j sh by (auto simp: hashedAt_clearAffected)
      then have "\<not> hashedAt g j"
        by (auto simp: hashedAt_def targetAt_withoutTarget [OF s])
      then show ?thesis
        using consistentD(4) [OF ok] \<open>j \<in> targetIDs g\<close> \<open>j \<noteq> i\<close> iv'(2) by (auto simp: tracked_def)
    qed (simp add: iv'(2))
  qed
  ultimately show ?thesis
    using iv'(1) wf_graph_clearAffected [OF wfh] by (auto simp: consistent_def)
qed

text \<open>A target is inserted without a hash, unless its hash does not depend on other targets.\<close>

definition insertable :: "OptimizedGraph \<Rightarrow> HashTarget \<Rightarrow> bool" where
  "insertable g target \<longleftrightarrow> ht_Hash target = None \<or> ht_RuleType target \<in> leafTypes \<or>
     (\<exists>i. og_TargetIDToString g i = Some (ht_Name target) \<and> isExternalRule g i)"

lemma kept_relinked:
  assumes wf: "wf_graph g" and r: "relinked g i deps t h" and ext: "\<And>j. j \<noteq> i \<Longrightarrow> isExternalRule h j = isExternalRule g j"
    and names: "og_TargetIDToString g \<subseteq>\<^sub>m og_TargetIDToString h" and types: "tb_ToString (og_RuleType g) \<subseteq>\<^sub>m tb_ToString (og_RuleType h)"
    and j: "j \<noteq> i" "targetAt h j = Some u"
  shows "kept g h j"
proof -
  obtain v where v: "targetAt g j = Some v" "it_Hash u = it_Hash v" "it_HashWithoutDeps u = it_HashWithoutDeps v"
      "it_RuleType u = it_RuleType v" "it_Deps u = it_Deps v"
    using relinkedD(7) [OF r j] by blast
  have "ruleTypeOf h u = ruleTypeOf g v"
    unfolding ruleTypeOf_def v(4) using wf_graphD(5) [OF wf v(1)] by (rule stringOf_le [OF types])
  moreover have "sortIDs h (it_Deps v) = sortIDs g (it_Deps v)"
  proof (rule sortIDs_cong)
    fix d
    assume "d \<in> set (it_Deps v)"
    then have "d \<in> dom (og_TargetIDToString g)"
      using wf_linksD(1) [OF wf_graphD(2) [OF wf] v(1)] wf_namesD(3) [OF wf_graphD(3) [OF wf]] by blast
    then show "og_TargetIDToString h d = og_TargetIDToString g d"
      using names by (simp add: map_le_def)
  qed
  ultimately show ?thesis
    using v j ext by (simp add: kept_def isExternalRule_def)
qed

text \<open>Changing one target and its links keeps the invariant, when the targets that depend on it lose their hashes.\<close>

lemma relinked_consistent:
  assumes ok: "consistent sha (g, iv)" and wfh: "wf_graph h" and r: "relinked g i deps t h"
    and ext: "\<And>j. j \<noteq> i \<Longrightarrow> isExternalRule h j = isExternalRule g j"
    and names: "og_TargetIDToString g \<subseteq>\<^sub>m og_TargetIDToString h" and types: "tb_ToString (og_RuleType g) \<subseteq>\<^sub>m tb_ToString (og_RuleType h)"
    and own: "it_Hash t \<noteq> None \<Longrightarrow> isLeaf h i t" and g': "g' = clearAffected h (set (it_ReverseDeps t))"
    and iv': "set iv' = set iv \<union> {j. affected h (set (it_ReverseDeps t)) j} \<union> (if it_Hash t = None then {i} else {})"
  shows "consistent sha (g', iv')"
proof -
  note wf = consistentD(1) [OF ok]
  note R = relinkedD [OF r] and sh = wf_graphD(1) [OF wfh]
  let ?cs = "set (it_ReverseDeps t)"
  have kept: "kept g h j" if "j \<noteq> i" "targetAt h j = Some u" for j u
    using kept_relinked [OF wf r ext names types that] .
  have "current sha (clearAffected h ?cs) \<and> supported (clearAffected h ?cs)"
  proof (rule cleared_current [OF wfh _ consistentD(2,3) [OF ok]])
    show "j \<in> ?cs" if "targetAt h j = Some u" "i \<in> set (it_Deps u)" for j u
      using wf_linksD(3) [OF wf_graphD(2) [OF wfh] R(2) that(1)] that(2) by simp
    show "kept g h j" if "hashedAt h j" "j \<noteq> i" "j \<notin> ?cs" for j
      using that kept by (auto simp: hashedAt_def)
    show "\<exists>v. targetAt g j = Some v \<and> it_Hash u = it_Hash v \<and> (isLeaf h j u \<longleftrightarrow> isLeaf g j v) \<and> set (it_Deps u) - {i} \<subseteq> set (it_Deps v)"
      if "j \<noteq> i" "targetAt h j = Some u" for j u
      using kept [OF that] that(2) by (auto simp: kept_def isLeaf_def)
    show "targetIDs g - {i} \<subseteq> targetIDs h"
      using R(1) by blast
    show "isLeaf h i u" if "targetAt h i = Some u" "it_Hash u = Some x" for u x
      using that R(2) own by simp
  qed
  moreover have "j \<in> set iv'" if j: "j \<in> targetIDs h" "\<not> hashedAt (clearAffected h ?cs) j" for j
  proof (cases "affected h ?cs j \<or> j = i")
    case False
    obtain u where u: "targetAt h j = Some u"
      using j(1) by (auto simp: targetIDs_iff)
    have "\<not> hashedAt h j"
      using j(2) False sh by (simp add: hashedAt_clearAffected)
    then have "it_Hash u = None"
      using u by (simp add: hashedAt_def)
    then have "\<not> hashedAt g j" "j \<in> targetIDs g"
      using kept [OF _ u] u False by (auto simp: kept_def hashedAt_def targetIDs_iff)
    then show ?thesis
      using consistentD(4) [OF ok] iv' by (auto simp: tracked_def)
  next
    case True
    have "it_Hash t = None" if "\<not> affected h ?cs j" "j = i"
    proof -
      have "\<not> hashedAt h j"
        using j(2) that sh by (simp add: hashedAt_clearAffected)
      then show ?thesis
        using R(2) that(2) by (simp add: hashedAt_def)
    qed
    then show ?thesis
      using True iv' by auto
  qed
  moreover have "set iv' \<subseteq> targetIDs h"
    using consistentD(4) [OF ok] iv' R(1) affected_present [of h ?cs] by (auto simp: tracked_def)
  ultimately show ?thesis
    unfolding g' using wf_graph_clearAffected [OF wfh] by (auto simp: consistent_def tracked_def)
qed

lemma upsertTarget_consistent:
  assumes ok: "consistent sha (g, iv)" and ins: "insertable g target"
    and up: "upsertTarget STRING target (g, iv) = (Inr () :: 'e itgError + unit, g', iv')"
  shows "consistent sha (g', iv')"
proof -
  note wf = consistentD(1) [OF ok]
  obtain i deps t h where h: "wf_graph h" "relinked g i deps t h" "og_ExternalRuleTargets h = og_ExternalRuleTargets g"
      "og_TargetIDToString g \<subseteq>\<^sub>m og_TargetIDToString h" "tb_ToString (og_RuleType g) \<subseteq>\<^sub>m tb_ToString (og_RuleType h)"
      "it_Hash t = ht_Hash target" "stringOf (tb_ToString (og_RuleType h)) (it_RuleType t) = ht_RuleType target"
      "og_TargetIDToString h i = Some (ht_Name target)" "g' = clearAffected h (set (it_ReverseDeps t))"
      "set iv' = set iv \<union> {j. affected h (set (it_ReverseDeps t)) j} \<union> (if ht_Hash target = None then {i} else {})"
    using upsertTarget_eq [OF wf up] by metis
  have external: "isExternalRule h i" if "og_TargetIDToString g k = Some (ht_Name target)" "isExternalRule g k" for k
  proof -
    have "og_TargetIDToString h k = Some (ht_Name target)"
      using that(1) h(4) by (metis domI map_le_def)
    then have "k = i"
      using h(8) wf_namesD(1) [OF wf_graphD(3) [OF h(1)]] by (metis option.inject)
    then show ?thesis
      using that(2) h(3) by (simp add: isExternalRule_def)
  qed
  show ?thesis
  proof (rule relinked_consistent [OF ok h(1,2) _ h(4,5) _ h(9)])
    show "isLeaf h i t" if "it_Hash t \<noteq> None"
      using that ins external h(6,7) by (auto simp: insertable_def isLeaf_def ruleTypeOf_def)
  qed (use h(3,6,10) in \<open>simp_all add: isExternalRule_def\<close>)
qed

end
