(* ===== verification/ItgCompute.thy ===== *)
theory ItgCompute
  imports ItgHash
begin

text \<open>
  Hashing the invalidated targets of a graph without cycles gives every target the hash \<open>itgMerkle\<close>, which
  depends on the graph alone: the result is that of hashing everything.
\<close>

section \<open>Partially hashed graphs\<close>

definition acyclicBy :: "OptimizedGraph \<Rightarrow> (nat \<Rightarrow> nat) \<Rightarrow> bool" where
  "acyclicBy g rank \<longleftrightarrow> (\<forall>i t d. targetAt g i = Some t \<longrightarrow> \<not> isLeaf g i t \<longrightarrow> d \<in> set (it_Deps t) \<longrightarrow> rank d < rank i)"

definition ready :: "OptimizedGraph \<Rightarrow> bool" where
  "ready g \<longleftrightarrow> (\<forall>i t. targetAt g i = Some t \<longrightarrow>
     (if isLeaf g i t then it_Hash t \<noteq> None
      else if ruleTypeOf g t = GeneratedFileType then it_Deps t \<noteq> [] else it_HashWithoutDeps t \<noteq> None))"

lemma readyD:
  assumes "ready g" "targetAt g i = Some t"
  shows "isLeaf g i t \<Longrightarrow> it_Hash t \<noteq> None"
    "\<not> isLeaf g i t \<Longrightarrow> ruleTypeOf g t = GeneratedFileType \<Longrightarrow> it_Deps t \<noteq> []"
    "\<not> isLeaf g i t \<Longrightarrow> ruleTypeOf g t \<noteq> GeneratedFileType \<Longrightarrow> it_HashWithoutDeps t \<noteq> None"
proof -
  have "if isLeaf g i t then it_Hash t \<noteq> None
      else if ruleTypeOf g t = GeneratedFileType then it_Deps t \<noteq> [] else it_HashWithoutDeps t \<noteq> None"
    using assms unfolding ready_def by blast
  then show "isLeaf g i t \<Longrightarrow> it_Hash t \<noteq> None"
    "\<not> isLeaf g i t \<Longrightarrow> ruleTypeOf g t = GeneratedFileType \<Longrightarrow> it_Deps t \<noteq> []"
    "\<not> isLeaf g i t \<Longrightarrow> ruleTypeOf g t \<noteq> GeneratedFileType \<Longrightarrow> it_HashWithoutDeps t \<noteq> None"
    by simp_all
qed

text \<open>Graphs that differ in the hashes of inner targets only.\<close>

definition sameShape :: "OptimizedGraph \<Rightarrow> OptimizedGraph \<Rightarrow> bool" where
  "sameShape g g' \<longleftrightarrow> og_alloc g' = og_alloc g \<and> og_NextTargetID g' = og_NextTargetID g \<and> og_OptimizedTargets g' = og_OptimizedTargets g \<and> og_ExternalRuleTargets g' = og_ExternalRuleTargets g \<and>
     og_TargetNameToID g' = og_TargetNameToID g \<and> og_TargetIDToString g' = og_TargetIDToString g \<and> og_RuleType g' = og_RuleType g \<and>
     (\<forall>i t. targetAt g i = Some t \<longrightarrow> (\<exists>x. targetAt g' i = Some (t \<lparr> it_Hash := x \<rparr>) \<and> (isLeaf g i t \<longrightarrow> x = it_Hash t)))"

lemma sameShapeD:
  assumes "sameShape g g'"
  shows "og_OptimizedTargets g' = og_OptimizedTargets g" "og_ExternalRuleTargets g' = og_ExternalRuleTargets g"
    "og_TargetIDToString g' = og_TargetIDToString g" "og_RuleType g' = og_RuleType g"
    and "targetAt g i = Some t \<Longrightarrow> \<exists>x. targetAt g' i = Some (t \<lparr> it_Hash := x \<rparr>) \<and> (isLeaf g i t \<longrightarrow> x = it_Hash t)"
  using assms unfolding sameShape_def by auto

lemma sameShape_refl: "sameShape g g"
proof -
  have "\<exists>x. t = t \<lparr> it_Hash := x \<rparr> \<and> (P \<longrightarrow> x = it_Hash t)" for t :: ItgTarget and P
    by (rule exI [of _ "it_Hash t"]) simp
  then show ?thesis
    by (simp add: sameShape_def)
qed

lemma sameShape_setHash:
  assumes s: "sameShape g0 g" and t: "targetAt g0 i = Some t" and n: "\<not> isLeaf g0 i t" and a: "map_of (og_OptimizedTargets g0) i = Some a"
    and wf: "wf_store g0"
  shows "sameShape g0 (setHash a x g)" "targetAt (setHash a x g) i = Some (t \<lparr> it_Hash := x \<rparr>)"
    "j \<noteq> i \<Longrightarrow> targetAt (setHash a x g) j = targetAt g j"
proof -
  note D = sameShapeD [OF s]
  obtain y where y: "targetAt g i = Some (t \<lparr> it_Hash := y \<rparr>)"
    using D(5) [OF t] by auto
  have inj: "b \<noteq> a" if "map_of (og_OptimizedTargets g0) j = Some b" "j \<noteq> i" for j b
    using that a wf_storeD(3) [OF wf, of j b] wf_storeD(3) [OF wf, of i a] by auto
  show at: "targetAt (setHash a x g) i = Some (t \<lparr> it_Hash := x \<rparr>)"
    using y a D(1) by (auto simp: targetAt_def setHash_def modifyAt_def)
  show other: "targetAt (setHash a x g) j = targetAt g j" if "j \<noteq> i" for j
    using inj [of j] that D(1) by (cases "map_of (og_OptimizedTargets g0) j") (auto simp: targetAt_def setHash_def modifyAt_def)
  have "\<exists>z. targetAt (setHash a x g) j = Some (u \<lparr> it_Hash := z \<rparr>) \<and> (isLeaf g0 j u \<longrightarrow> z = it_Hash u)" if u: "targetAt g0 j = Some u" for j u
  proof (cases "j = i")
    case True
    then show ?thesis
      using u t n at by auto
  next
    case False
    then show ?thesis
      using D(5) [OF u] other by simp
  qed
  then show "sameShape g0 (setHash a x g)"
    using s by (simp add: sameShape_def setHash_def modifyAt_def)
qed

text \<open>\<open>g\<close> comes from \<open>g0\<close> by hashing; the targets in \<open>M\<close> are being hashed.\<close>

definition progress :: "(bytes \<Rightarrow> bytes) \<Rightarrow> OptimizedGraph \<Rightarrow> nat set \<Rightarrow> OptimizedGraph \<Rightarrow> bool" where
  "progress sha g0 M g \<longleftrightarrow> sameShape g0 g \<and>
     (\<forall>i t h. i \<notin> M \<longrightarrow> targetAt g i = Some t \<longrightarrow> it_Hash t = Some h \<longrightarrow> itgMerkle sha g0 i h)"

lemma progressD:
  assumes "progress sha g0 M g"
  shows "sameShape g0 g" "i \<notin> M \<Longrightarrow> targetAt g i = Some t \<Longrightarrow> it_Hash t = Some h \<Longrightarrow> itgMerkle sha g0 i h"
  using assms by (auto simp: progress_def)

definition keepsHashes :: "OptimizedGraph \<Rightarrow> OptimizedGraph \<Rightarrow> bool" where
  "keepsHashes g g' \<longleftrightarrow> (\<forall>i. hashedAt g i \<longrightarrow> hashedAt g' i)"

lemma progress_mark:
  assumes p: "progress sha g0 M g" and i: "targetAt g0 i = Some t" "\<not> isLeaf g0 i t" "map_of (og_OptimizedTargets g0) i = Some a" "wf_store g0"
  shows "progress sha g0 (insert i M) (setHash a (Some x) g)" "keepsHashes g (setHash a (Some x) g)"
proof -
  note S = sameShape_setHash [OF progressD(1) [OF p] i, where x = "Some x"]
  show "progress sha g0 (insert i M) (setHash a (Some x) g)"
    using S progressD(2) [OF p] by (auto simp: progress_def)
  show "keepsHashes g (setHash a (Some x) g)"
    unfolding keepsHashes_def
  proof (intro allI impI)
    fix j
    assume "hashedAt g j"
    then show "hashedAt (setHash a (Some x) g) j"
      using S(2) S(3) [of j] by (cases "j = i") (simp_all add: hashedAt_def)
  qed
qed

lemma progress_store:
  assumes p: "progress sha g0 (insert i M) g" and i: "targetAt g0 i = Some t" "\<not> isLeaf g0 i t" "map_of (og_OptimizedTargets g0) i = Some a" "wf_store g0"
    and h: "itgMerkle sha g0 i h"
  shows "progress sha g0 M (setHash a (Some h) g)"
proof -
  note S = sameShape_setHash [OF progressD(1) [OF p] i, where x = "Some h"]
  have "itgMerkle sha g0 j x" if "j \<notin> M" "targetAt (setHash a (Some h) g) j = Some u" "it_Hash u = Some x" for j u x
    using that S(2,3) h progressD(2) [OF p, of j u x] by (cases "j = i") auto
  then show ?thesis
    using S(1) by (auto simp: progress_def)
qed

section \<open>Hashing one target\<close>

text \<open>The outcome that is expected of a call.\<close>

definition hashes :: "(bytes \<Rightarrow> bytes) \<Rightarrow> OptimizedGraph \<Rightarrow> nat set \<Rightarrow> 'e go_context \<Rightarrow> nat \<Rightarrow> bool" where
  "hashes sha g0 M ctx i \<longleftrightarrow> (\<forall>g k. progress sha g0 M g \<longrightarrow> (\<exists>h g' k'. computeHashes sha ctx i (g, k) = (Inr (Some h), g', k') \<and>
     itgMerkle sha g0 i h \<and> progress sha g0 M g' \<and> keepsHashes g g' \<and> hashedAt g' i))"

lemma computeDepHashes_progress:
  assumes "\<And>d. d \<in> set ds \<Longrightarrow> hashes sha g0 M ctx d" "progress sha g0 M g"
  shows "\<exists>hs g' k'. computeDepHashes sha ctx ds content (g, k) = (Inr (content @ concat hs), g', k') \<and>
    list_all2 (itgMerkle sha g0) ds hs \<and> progress sha g0 M g' \<and> keepsHashes g g'"
  using assms
proof (induction ds arbitrary: content g k)
  case Nil
  then show ?case
    by (intro exI [of _ "[]"]) (simp add: keepsHashes_def)
next
  case (Cons d ds)
  obtain h g1 k1 where h: "computeHashes sha ctx d (g, k) = (Inr (Some h), g1, k1)" "itgMerkle sha g0 d h" "progress sha g0 M g1" "keepsHashes g g1"
    using Cons.prems(1) [of d] Cons.prems(2) unfolding hashes_def by fastforce
  obtain hs g2 k2 where hs: "computeDepHashes sha ctx ds (content @ h) (g1, k1) = (Inr ((content @ h) @ concat hs), g2, k2)"
      "list_all2 (itgMerkle sha g0) ds hs" "progress sha g0 M g2" "keepsHashes g1 g2"
    using Cons.IH [OF Cons.prems(1) h(3), of "content @ h" k1] by auto
  then show ?case
    using h by (intro exI [of _ "h # hs"]) (auto simp: sliceBytes_def keepsHashes_def)
qed

lemma wf_store_sameShape:
  assumes "sameShape g0 g" "wf_store g0" "map_of (og_ExternalRuleTargets g0) i = Some a"
  shows "targetAt g i = Some (og_store g a)"
  using sameShapeD(1) [OF assms(1)] wf_storeD(4) [OF assms(2,3)] by (simp add: targetAt_def)

lemma computeHashes_hashes:
  assumes wf: "wf_graph g0" and rd: "ready g0" and ac: "acyclicBy g0 rank" and ctx: "never_cancelled ctx"
  shows "i \<in> targetIDs g0 \<Longrightarrow> (\<And>m. m \<in> M \<Longrightarrow> rank i < rank m) \<Longrightarrow> hashes sha g0 M ctx i"
proof (induction "rank i" arbitrary: i M rule: less_induct)
  case less
  note s = wf_graphD(1) [OF wf]
  obtain t a where a: "map_of (og_OptimizedTargets g0) i = Some a" and t: "targetAt g0 i = Some t"
    using less.prems(1) by (auto simp: targetIDs_def targetAt_def)
  have iM: "i \<notin> M"
    using less.prems(2) by blast
  show ?case
    unfolding hashes_def
  proof (intro allI impI)
    fix g k
    assume p: "progress sha g0 M g"
    note S = sameShapeD [OF progressD(1) [OF p]]
    obtain x where x: "targetAt g i = Some (t \<lparr> it_Hash := x \<rparr>)" "isLeaf g0 i t \<Longrightarrow> x = it_Hash t"
      using S(5) [OF t] by auto
    have a': "map_of (og_OptimizedTargets g) i = Some a" "og_store g a = t \<lparr> it_Hash := x \<rparr>"
      using a x(1) S(1) by (auto simp: targetAt_def)
    have rt: "stringOf (tb_ToString (og_RuleType g)) (it_RuleType t) = ruleTypeOf g0 t"
      using S(4) by (simp add: ruleTypeOf_def)
    have ext: "map_of (og_ExternalRuleTargets g) i = None \<or> map_of (og_ExternalRuleTargets g) i = Some a"
      using S(2) wf_storeD(4) [OF s, of i] a by (cases "map_of (og_ExternalRuleTargets g) i") auto
    have c: "ctx n = None" for n
      using ctx by (simp add: never_cancelled_def)
    show "\<exists>h g' k'. computeHashes sha ctx i (g, k) = (Inr (Some h), g', k') \<and>
        itgMerkle sha g0 i h \<and> progress sha g0 M g' \<and> keepsHashes g g' \<and> hashedAt g' i"
    proof (cases x)
      case (Some h)
      then have "computeHashes sha ctx i (g, k) = (Inr (Some h), g, k + 1)"
        using ext a' by (auto simp: computeHashes.simps c)
      then show ?thesis
        using p progressD(2) [OF p iM x(1), of h] x(1) Some by (auto simp: keepsHashes_def hashedAt_def)
    next
      case None
      have n: "\<not> isLeaf g0 i t"
        using readyD(1) [OF rd t] x(2) None by auto
      then have ne: "map_of (og_ExternalRuleTargets g) i = None" "ruleTypeOf g0 t \<notin> {SourceFileType, PackageGroup}"
        using S(2) by (auto simp: isLeaf_def isExternalRule_def leafTypes_def)
      let ?g = "setHash a (Some []) g"
      note mark = progress_mark [OF p t n a s, of "[]"]
      have deps: "hashes sha g0 (insert i M) ctx d" if "d \<in> set (it_Deps t)" for d
      proof (rule less.hyps)
        show "rank d < rank i"
          using ac t n that by (auto simp: acyclicBy_def)
        show "d \<in> targetIDs g0"
          using wf_linksD(1) [OF wf_graphD(2) [OF wf] t] that by auto
        show "rank d < rank m" if "m \<in> insert i M" for m
          using \<open>rank d < rank i\<close> less.prems(2) [of m] that by auto
      qed
      show ?thesis
      proof (cases "ruleTypeOf g0 t = GeneratedFileType")
        case True
        have "it_Deps t \<noteq> []"
          using readyD(2) [OF rd t n True] .
        then obtain h g' k' where h: "computeHashes sha ctx (singleDep (it_Deps t)) (?g, k + 1) = (Inr (Some h), g', k')"
            "itgMerkle sha g0 (singleDep (it_Deps t)) h" "progress sha g0 (insert i M) g'" "keepsHashes ?g g'"
          using deps [OF singleDep_in] mark(1) unfolding hashes_def by blast
        have m: "itgMerkle sha g0 i h"
          using itgMerkle.generated [OF t n True \<open>it_Deps t \<noteq> []\<close> h(2)] .
        have "computeHashes sha ctx i (g, k) = (Inr (Some h), setHash a (Some h) g', k')"
          using h(1) True None ne a' by (simp add: computeHashes.simps [of sha ctx i] c rt)
        then show ?thesis
          using m progress_store [OF h(3) t n a s m] mark(2) h(4) progress_mark(2) [OF h(3) t n a s, of h]
            sameShape_setHash(2) [OF progressD(1) [OF h(3)] t n a s, of "Some h"]
          by (auto simp: keepsHashes_def hashedAt_def)
      next
        case False
        then obtain own where own: "it_HashWithoutDeps t = Some own"
          using readyD(3) [OF rd t n] by auto
        have srt: "sortIDs g = sortIDs g0"
          unfolding sortIDs_def [abs_def] S(3) ..
        have deps': "hashes sha g0 (insert i M) ctx d" if "d \<in> set (sortIDs g0 (it_Deps t))" for d
          using deps that by simp
        obtain hs g' k' where h: "computeDepHashes sha ctx (sortIDs g0 (it_Deps t)) own (?g, k + 1) = (Inr (own @ concat hs), g', k')"
            "list_all2 (itgMerkle sha g0) (sortIDs g0 (it_Deps t)) hs" "progress sha g0 (insert i M) g'" "keepsHashes ?g g'"
          using computeDepHashes_progress [OF deps' mark(1), of "sortIDs g0 (it_Deps t)" own "k + 1"] by blast
        have m: "itgMerkle sha g0 i (sha (own @ concat hs))"
          using itgMerkle.rule [OF t n False own h(2)] .
        have "computeHashes sha ctx i (g, k) = (Inr (Some (sha (own @ concat hs))), setHash a (Some (sha (own @ concat hs))) g', k')"
          using h(1) False None ne a' own by (simp add: computeHashes.simps [of sha ctx i] c rt srt)
        then show ?thesis
          using m progress_store [OF h(3) t n a s m] mark(2) h(4) progress_mark(2) [OF h(3) t n a s, of "sha (own @ concat hs)"]
            sameShape_setHash(2) [OF progressD(1) [OF h(3)] t n a s, of "Some (sha (own @ concat hs))"]
          by (auto simp: keepsHashes_def hashedAt_def)
      qed
    qed
  qed
qed

section \<open>Hashing what was invalidated\<close>

lemma computeAll_progress:
  assumes "\<And>i. i \<in> set ids \<Longrightarrow> i \<in> targetIDs g0 \<Longrightarrow> hashes sha g0 {} ctx i"
    and "\<And>i g. i \<in> set ids \<Longrightarrow> chosen g i \<Longrightarrow> sameShape g0 g \<Longrightarrow> i \<in> targetIDs g0" "progress sha g0 {} g"
  shows "\<exists>g' k'. computeAll sha ctx chosen ids (g, k) = (Inr () :: 'e itgError + unit, g', k') \<and> progress sha g0 {} g' \<and> keepsHashes g g' \<and>
    (\<forall>i \<in> set ids. (\<forall>g. chosen g i) \<longrightarrow> hashedAt g' i)"
  using assms
proof (induction ids arbitrary: g k)
  case Nil
  then show ?case
    by (auto simp: computeAll_def keepsHashes_def)
next
  case (Cons i ids)
  let ?f = "\<lambda>i s. if chosen (fst s) i then (case computeHashes sha ctx i s of (Inl e, s) \<Rightarrow> (Inl e, s) | (Inr _, s) \<Rightarrow> (Inr (), s)) else (Inr (), s)"
  obtain g1 k1 where g1: "?f i (g, k) = (Inr () :: 'e itgError + unit, g1, k1)" "progress sha g0 {} g1" "keepsHashes g g1" "chosen g i \<Longrightarrow> hashedAt g1 i"
  proof (cases "chosen g i")
    case True
    then have "hashes sha g0 {} ctx i"
      using Cons.prems(1) [of i] Cons.prems(2) [of i g] progressD(1) [OF Cons.prems(3)] by auto
    then obtain h g' k' where "computeHashes sha ctx i (g, k) = (Inr (Some h) :: 'e itgError + slice, g', k')" "progress sha g0 {} g'" "keepsHashes g g'" "hashedAt g' i"
      using Cons.prems(3) unfolding hashes_def by blast
    then show thesis
      using that [of g' k'] True by simp
  next
    case False
    then show thesis
      using that [of g k] Cons.prems(3) by (simp add: keepsHashes_def)
  qed
  have "\<exists>g' k'. computeAll sha ctx chosen ids (g1, k1) = (Inr () :: 'e itgError + unit, g', k') \<and> progress sha g0 {} g' \<and> keepsHashes g1 g' \<and>
      (\<forall>i \<in> set ids. (\<forall>g. chosen g i) \<longrightarrow> hashedAt g' i)"
    using Cons.prems(1,2) by (intro Cons.IH [OF _ _ g1(2)]) auto
  then obtain g' k' where g': "computeAll sha ctx chosen ids (g1, k1) = (Inr () :: 'e itgError + unit, g', k')" "progress sha g0 {} g'" "keepsHashes g1 g'"
      "\<forall>i \<in> set ids. (\<forall>g. chosen g i) \<longrightarrow> hashedAt g' i"
    by blast
  have "computeAll sha ctx chosen (i # ids) (g, k) = computeAll sha ctx chosen ids (g1, k1)"
    using g1(1) unfolding computeAll_def by (simp only: eachS.simps prod.case sum.case)
  then show ?case
    using g' g1(3,4) by (intro exI [of _ g'] exI [of _ k']) (auto simp: keepsHashes_def)
qed

lemma computeInvalidatedHashes_complete:
  assumes ok: "consistent sha (g, iv)" and rd: "ready g" and ac: "acyclicBy g rank" and ctx: "never_cancelled ctx"
  shows "\<exists>g' k'. computeInvalidatedHashes sha ctx iv (g, k) = (Inr () :: 'e itgError + unit, g', k') \<and> sameShape g g' \<and>
    (\<forall>i t. targetAt g' i = Some t \<longrightarrow> (\<exists>h. it_Hash t = Some h \<and> itgMerkle sha g i h))"
proof -
  note wf = consistentD(1) [OF ok]
  have ids: "set iv \<subseteq> targetIDs g"
    using consistentD(4) [OF ok] by (simp add: tracked_def)
  have h: "hashes sha g {} ctx i" if "i \<in> targetIDs g" for i
    using computeHashes_hashes [OF wf rd ac ctx that, of "{}"] by simp
  have p: "progress sha g {} g"
    using consistentD(2) [OF ok] by (auto simp: progress_def sameShape_refl current_def)
  let ?seq = "List.map_filter (og_TargetNameToID g) sequentialHashTargets" and ?ids = "sortIDs g iv"
  obtain g1 k1 where g1: "computeAll sha ctx (\<lambda>_ i. i \<in> set iv) ?seq (g, k) = (Inr () :: 'e itgError + unit, g1, k1)" "progress sha g {} g1" "keepsHashes g g1"
    using computeAll_progress [of ?seq g sha ctx "\<lambda>_ i. i \<in> set iv" g k] h ids p by blast
  let ?root = "\<lambda>g i. case map_of (og_OptimizedTargets g) i of None \<Rightarrow> False | Some a \<Rightarrow> it_ReverseDeps (og_store g a) = []"
  have root: "i \<in> targetIDs g" if "?root g' i" "sameShape g g'" for g' i
    using that sameShapeD(1) [OF that(2)] by (auto simp: targetIDs_def split: option.splits)
  obtain g2 k2 where g2: "computeAll sha ctx ?root ?ids (g1, k1) = (Inr () :: 'e itgError + unit, g2, k2)" "progress sha g {} g2" "keepsHashes g1 g2"
    using computeAll_progress [of ?ids g sha ctx ?root g1 k1] h root g1(2) by blast
  obtain g3 k3 where g3: "computeAll sha ctx (\<lambda>_ _. True) ?ids (g2, k2) = (Inr () :: 'e itgError + unit, g3, k3)" "progress sha g {} g3" "keepsHashes g2 g3"
      "\<forall>i \<in> set iv. hashedAt g3 i"
    using computeAll_progress [of ?ids g sha ctx "\<lambda>_ _. True" g2 k2] h ids g2(2) by auto
  have "computeInvalidatedHashes sha ctx iv (g, k) = (Inr () :: 'e itgError + unit, g3, k3)"
    using g1(1) g2(1) g3(1) by (simp add: computeInvalidatedHashes_def bindS_def Let_def)
  moreover have "\<exists>h. it_Hash t = Some h \<and> itgMerkle sha g i h" if t: "targetAt g3 i = Some t" for i t
  proof -
    have "i \<in> targetIDs g"
      using t sameShapeD(1) [OF progressD(1) [OF g3(2)]] by (auto simp: targetIDs_def targetAt_def)
    then have "hashedAt g i \<or> i \<in> set iv"
      using consistentD(4) [OF ok] by (auto simp: tracked_def)
    then have "hashedAt g3 i"
      using g1(3) g2(3) g3(3,4) by (auto simp: keepsHashes_def)
    then obtain h where "it_Hash t = Some h"
      using t by (auto simp: hashedAt_def)
    then show ?thesis
      using progressD(2) [OF g3(2) _ t] by auto
  qed
  ultimately show ?thesis
    using progressD(1) [OF g3(2)] by blast
qed

section \<open>Between updates\<close>

lemma sameShape_back:
  assumes s: "sameShape g g'" and t: "targetAt g' i = Some u"
  shows "\<exists>t x. targetAt g i = Some t \<and> u = t \<lparr> it_Hash := x \<rparr> \<and> (isLeaf g i t \<longrightarrow> x = it_Hash t)"
proof -
  obtain t where "targetAt g i = Some t"
    using t sameShapeD(1) [OF s] by (auto simp: targetAt_def)
  then show ?thesis
    using sameShapeD(5) [OF s, of i t] t by auto
qed

lemma isLeaf_sameShape: "sameShape g g' \<Longrightarrow> isLeaf g' i (t \<lparr> it_Hash := x \<rparr>) \<longleftrightarrow> isLeaf g i t"
  using sameShapeD(2,4) [of g g'] by (simp add: isLeaf_def isExternalRule_def ruleTypeOf_def)

lemma itgMerkle_sameShape: "itgMerkle sha g i h \<Longrightarrow> sameShape g g' \<Longrightarrow> itgMerkle sha g' i h"
proof (induction rule: itgMerkle.induct)
  case (leaf i t h)
  then obtain x where "targetAt g' i = Some (t \<lparr> it_Hash := x \<rparr>)" "x = it_Hash t"
    using sameShapeD(5) [OF leaf(4,1)] by auto
  then show ?case
    using leaf by (intro itgMerkle.leaf [of g' i "t \<lparr> it_Hash := x \<rparr>"]) (simp_all add: isLeaf_sameShape [OF leaf(4)])
next
  case (generated i t h)
  then obtain x where "targetAt g' i = Some (t \<lparr> it_Hash := x \<rparr>)"
    using sameShapeD(5) [OF generated(7,1)] by auto
  then show ?case
    using generated sameShapeD(4) [OF generated(7)]
    by (intro itgMerkle.generated [of g' i "t \<lparr> it_Hash := x \<rparr>"]) (simp_all add: isLeaf_sameShape [OF generated(7)] ruleTypeOf_def)
next
  case (rule i t own hs)
  then obtain x where "targetAt g' i = Some (t \<lparr> it_Hash := x \<rparr>)"
    using sameShapeD(5) [OF rule(6,1)] by auto
  moreover have "list_all2 (itgMerkle sha g') (sortIDs g' (it_Deps t)) hs"
    using rule(5,6) sameShapeD(3) [OF rule(6)] by (auto simp: sortIDs_def elim: list.rel_mono_strong)
  ultimately show ?case
    using rule sameShapeD(4) [OF rule(6)]
    by (intro itgMerkle.rule [of g' i "t \<lparr> it_Hash := x \<rparr>"]) (simp_all add: isLeaf_sameShape [OF rule(6)] ruleTypeOf_def)
qed

lemma wf_graph_sameShape:
  assumes wf: "wf_graph g" and s: "sameShape g g'"
  shows "wf_graph g'"
proof -
  have al: "og_alloc g' = og_alloc g" "og_NextTargetID g' = og_NextTargetID g"
    using s by (simp_all add: sameShape_def)
  note D = sameShapeD [OF s]
  have ids: "targetIDs g' = targetIDs g"
    using D(1) by (simp add: targetIDs_def)
  have names: "og_TargetNameToID g' = og_TargetNameToID g"
    using s by (simp add: sameShape_def)
  have "wf_links g'"
    unfolding wf_links_def ids
  proof (intro conjI allI impI)
    fix i t
    assume "targetAt g' i = Some t"
    from sameShape_back [OF s this] obtain t0 where t0: "targetAt g i = Some t0" "it_Deps t = it_Deps t0" "it_ReverseDeps t = it_ReverseDeps t0"
      by auto
    show "set (it_Deps t) \<subseteq> targetIDs g" "set (it_ReverseDeps t) \<subseteq> targetIDs g"
      using wf_linksD(1,2) [OF wf_graphD(2) [OF wf] t0(1)] t0 by auto
    fix j u
    assume "targetAt g' j = Some u"
    from sameShape_back [OF s this] obtain u0 where u0: "targetAt g j = Some u0" "it_Deps u = it_Deps u0"
      by auto
    show "j \<in> set (it_ReverseDeps t) \<longleftrightarrow> i \<in> set (it_Deps u)"
      using wf_linksD(3) [OF wf_graphD(2) [OF wf] t0(1) u0(1)] t0 u0 by simp
  qed
  moreover have "it_ID (og_store g' a) = i" if "map_of (og_OptimizedTargets g) i = Some a" for i a
    using D(5) [of i "og_store g a"] that wf_storeD(3) [OF wf_graphD(1) [OF wf] that] D(1) by (auto simp: targetAt_def)
  then have "wf_store g'"
    using wf_graphD(1) [OF wf] D(1,2) al by (auto simp: wf_store_def)
  moreover have "it_RuleType t \<in> dom (tb_ToString (og_RuleType g))" if "targetAt g' i = Some t" for i t
  proof -
    obtain u where "targetAt g i = Some u" "it_RuleType t = it_RuleType u"
      using sameShape_back [OF s \<open>targetAt g' i = Some t\<close>] by auto
    then show ?thesis
      using wf_graphD(5) [OF wf, of i u] by simp
  qed
  ultimately show ?thesis
    using wf_graphD(3,4) [OF wf] D(3,4) names ids al by (simp add: wf_graph_def wf_names_def)
qed

text \<open>Hashing leaves a consistent graph in which nothing is invalidated.\<close>

lemma rehashed_consistent:
  assumes wf: "wf_graph g" and s: "sameShape g g'"
    and h: "\<And>i t. targetAt g' i = Some t \<Longrightarrow> \<exists>h. it_Hash t = Some h \<and> itgMerkle sha g i h"
  shows "consistent sha (g', [])"
proof -
  have wf': "wf_graph g'"
    using wf s by (rule wf_graph_sameShape)
  have "hashedAt g' i" if "i \<in> targetIDs g'" for i
    using that h by (fastforce simp: hashedAt_def targetIDs_iff)
  moreover have "current sha g'"
    unfolding current_def
  proof (intro allI impI)
    fix i t x
    assume "targetAt g' i = Some t" "it_Hash t = Some x"
    then have "itgMerkle sha g i x"
      using h by fastforce
    then show "itgMerkle sha g' i x"
      using s by (rule itgMerkle_sameShape)
  qed
  ultimately show ?thesis
    using wf' wf_linksD(1) [OF wf_graphD(2) [OF wf']] by (fastforce simp: consistent_def supported_def tracked_def)
qed

lemma emptyGraph_consistent: "consistent sha (emptyGraph, [])"
  by (simp add: consistent_def wf_graph_def wf_store_def wf_links_def wf_names_def wf_table_def targetAt_def targetIDs_def
      current_def supported_def tracked_def emptyGraph_def emptyTable_def)

end
