(* ===== verification/ItgExternal.thy ===== *)
theory ItgExternal
  imports ItgHash
begin

text \<open>
  Updating the target of an external rule, as \<open>UpdateGraph\<close> does before the other targets of the query: the
  invariant is kept when its dependencies stay the same, or are none for a new one. The update does not
  link dependencies.
\<close>

section \<open>Identifiers of known names\<close>

lemma generateIDs_known:
  "wf_names g \<Longrightarrow> set names \<subseteq> dom (og_TargetNameToID g) \<Longrightarrow>
    \<exists>ids'. generateIDs names ids g = (ids', g) \<and> set ids' = set ids \<union> {d. \<exists>n \<in> set names. og_TargetIDToString g d = Some n}"
proof (induction names arbitrary: ids)
  case (Cons n names)
  obtain i where i: "og_TargetNameToID g n = Some i"
    using Cons.prems(2) by auto
  have "og_TargetIDToString g d = Some n \<longleftrightarrow> d = i" for d
    using i wf_namesD(1) [OF Cons.prems(1), of n] by (metis option.inject)
  then show ?case
    using Cons.IH [of "List.insert i ids"] Cons.prems i by (auto simp: getOrGenerateTargetID_def)
qed simp

section \<open>The target alone changes\<close>

lemma relinked_same:
  assumes wf: "wf_graph g" and at: "targetAt h = (targetAt g)(i \<mapsto> t)" and deps: "set (it_Deps t) = oldDeps g i"
    and rdeps: "set (it_ReverseDeps t) = oldReverseDeps g i"
  shows "relinked g i (oldDeps g i) t h"
proof -
  note l = wf_graphD(2) [OF wf]
  have "oldDeps g i \<subseteq> targetIDs g"
    using wf_linksD(1) [OF l, of i] by (auto simp: oldDeps_def split: option.splits)
  moreover have "targetIDs h = insert i (targetIDs g)"
    by (auto simp: targetIDs_iff at split: if_splits)
  moreover have "i \<in> set (it_ReverseDeps u) \<longleftrightarrow> j \<in> oldDeps g i" if u: "targetAt g j = Some u" for j u
  proof (cases "targetAt g i")
    case None
    then show ?thesis
      using subsetD [OF wf_linksD(2) [OF l u], of i] by (auto simp: oldDeps_def targetIDs_iff)
  next
    case (Some v)
    then show ?thesis
      using wf_linksD(3) [OF l u] by (simp add: oldDeps_def)
  qed
  moreover have "i \<in> oldReverseDeps g i \<longleftrightarrow> i \<in> oldDeps g i"
    using wf_linksD(3) [OF l, of i _ i] by (auto simp: oldDeps_def oldReverseDeps_def split: option.splits)
  ultimately show ?thesis
    using deps rdeps by (auto simp: relinked_def at)
qed

section \<open>The update\<close>

text \<open>The dependencies of a known target are those it has; a new target has none.\<close>

definition settled :: "OptimizedGraph \<Rightarrow> HashTarget \<Rightarrow> bool" where
  "settled g target \<longleftrightarrow> ht_Hash target \<noteq> None \<and> set (ht_Deps target) \<subseteq> dom (og_TargetNameToID g) \<and>
     (\<forall>i. og_TargetIDToString g i = Some (ht_Name target) \<longrightarrow> i \<in> targetIDs g \<longrightarrow> isExternalRule g i) \<and>
     {d. \<exists>n \<in> set (ht_Deps target). og_TargetIDToString g d = Some n} =
       (case og_TargetNameToID g (ht_Name target) of None \<Rightarrow> {} | Some i \<Rightarrow> oldDeps g i)"

text \<open>The object of the target, in a graph that has its name and its rule type.\<close>

lemma putExternalObject_relinked:
  assumes wf: "wf_graph g" and gr: "grows g g1" and deps: "set depIDs = oldDeps g i"
    and known: "i \<in> targetIDs g \<Longrightarrow> isExternalRule g i" and rt: "rt \<in> dom (tb_ToString (og_RuleType g1))"
  shows "\<exists>t h. putExternalObject i rt depIDs target (g1, iv) = invalidateLoop (it_ReverseDeps t) (h, iv) \<and> wf_store h \<and>
      relinked g i (oldDeps g i) t h \<and> (\<forall>j. isExternalRule h j \<longleftrightarrow> j = i \<or> isExternalRule g j) \<and> it_Hash t = ht_Hash target \<and>
      it_RuleType t \<in> dom (tb_ToString (og_RuleType g1)) \<and> og_TargetIDToString h = og_TargetIDToString g1 \<and>
      og_TargetNameToID h = og_TargetNameToID g1 \<and> og_NextTargetID h = og_NextTargetID g1 \<and> og_RuleType h = og_RuleType g1"
proof (cases "map_of (og_OptimizedTargets g1) i")
  case None
  note s = growsD(7) [OF gr wf_graphD(1) [OF wf]]
  have none: "targetAt g i = None"
    using None growsD(1) [OF gr] by (metis (no_types) option.map(1) targetAt_def)
  let ?t = "\<lparr> it_ID = i, it_Hash = ht_Hash target, it_HashWithoutDeps = ht_HashWithoutDeps target, it_RuleType = rt, it_Deps = depIDs,
      it_ReverseDeps = [], it_Tags = [], it_Root = False, it_External = ht_External target, it_Attributes = [] \<rparr>"
  let ?E = "AList.update i (og_alloc g1) (og_ExternalRuleTargets g1)"
  let ?h = "g1 \<lparr> og_store := (og_store g1)(og_alloc g1 := ?t), og_alloc := Suc (og_alloc g1),
      og_OptimizedTargets := AList.update i (og_alloc g1) (og_OptimizedTargets g1), og_ExternalRuleTargets := ?E \<rparr>"
  have h: "wf_store ?h" "targetAt ?h = (targetAt g1)(i \<mapsto> ?t)"
    using addObject [OF s None, of ?t ?E ?h] by (simp_all add: update_conv' split: if_splits)
  have "relinked g i (oldDeps g i) ?t ?h"
    using h(2) growsD(1) [OF gr] none deps by (intro relinked_same [OF wf]) (simp_all add: oldReverseDeps_def)
  moreover have "isExternalRule ?h j \<longleftrightarrow> j = i \<or> isExternalRule g j" for j
    using growsD(3) [OF gr] by (simp add: isExternalRule_def update_conv')
  moreover have "putExternalObject i rt depIDs target (g1, iv) = invalidateLoop (it_ReverseDeps ?t) (?h, iv)"
    using None by (simp add: putExternalObject_def newObject_def)
  ultimately show ?thesis
    using h(1) rt by (intro exI [of _ ?t] exI [of _ ?h]) simp
next
  case (Some a)
  note s = growsD(7) [OF gr wf_graphD(1) [OF wf]]
  let ?f = "\<lambda>t. t \<lparr> it_Hash := ht_Hash target, it_Deps := depIDs, it_HashWithoutDeps := ht_HashWithoutDeps target,
      it_External := ht_External target \<rparr>"
  let ?v = "og_store g1 a"
  let ?h = "updateEach (\<lambda>j t. if j = i then ?f t else t) g1"
  have v: "targetAt g i = Some ?v"
    using Some growsD(1) [OF gr] by (metis (no_types) option.map(2) targetAt_def)
  have keeps: "keepsID (\<lambda>j t. if j = i then ?f t else t)"
    by (simp add: keepsID_def)
  have at: "targetAt ?h = (targetAt g)(i \<mapsto> ?f ?v)"
    using v growsD(1) [OF gr] by (auto simp: targetAt_updateEach [OF s] fun_eq_iff option.map_ident)
  have "relinked g i (oldDeps g i) (?f ?v) ?h"
    using at v deps by (intro relinked_same [OF wf]) (simp_all add: oldReverseDeps_def)
  moreover have "isExternalRule ?h j \<longleftrightarrow> j = i \<or> isExternalRule g j" for j
    using growsD(3) [OF gr] known v by (auto simp: isExternalRule_def targetIDs_iff)
  moreover have "it_RuleType ?v \<in> dom (tb_ToString (og_RuleType g1))"
    using subsetD [OF map_le_implies_dom_le [OF growsD(10) [OF gr]] wf_graphD(5) [OF wf v]] .
  moreover have "putExternalObject i rt depIDs target (g1, iv) = invalidateLoop (it_ReverseDeps (?f ?v)) (?h, iv)"
    using Some by (simp add: putExternalObject_def invalidateHashRecursively_def modifyAt_updateEach [OF s Some])
  ultimately show ?thesis
    using wf_store_updateEach [OF s keeps] by (intro exI [of _ "?f ?v"] exI [of _ ?h]) simp
qed

text \<open>The name and the rule type are recorded; the identifiers of the dependencies are those of the graph.\<close>

lemma recorded:
  assumes wf: "wf_graph g" and g1: "getOrGenerateTargetID name g = (i, g1)"
    and r: "getOrGenerateRecordReverse ty (og_RuleType g1) = (rt, ruleTypes)"
  shows "grows g (g1 \<lparr> og_RuleType := ruleTypes \<rparr>)" "wf_names (g1 \<lparr> og_RuleType := ruleTypes \<rparr>)" "wf_table ruleTypes"
    "tb_ToString ruleTypes rt = Some ty" "og_TargetIDToString g1 i = Some name"
    "i \<in> targetIDs g \<Longrightarrow> og_TargetIDToString g i = Some name"
proof -
  note n1 = getOrGenerateTargetID_grows [OF wf_graphD(3) [OF wf] g1]
  have r2: "wf_table ruleTypes" "tb_ToString (og_RuleType g) \<subseteq>\<^sub>m tb_ToString ruleTypes" "tb_ToString ruleTypes rt = Some ty"
    using getOrGenerateRecordReverse_table [OF _ r] wf_graphD(4) [OF wf] n1 by auto
  show "grows g (g1 \<lparr> og_RuleType := ruleTypes \<rparr>)"
    using n1 r2 by (auto simp: grows_def)
  show "wf_names (g1 \<lparr> og_RuleType := ruleTypes \<rparr>)"
    using n1 by (simp add: wf_names_def targetIDs_def)
  show "og_TargetIDToString g i = Some name" if i: "i \<in> targetIDs g"
  proof -
    obtain n where n: "og_TargetIDToString g i = Some n"
      using wf_namesD(3) [OF wf_graphD(3) [OF wf] i] by blast
    then have "og_TargetIDToString g1 i = Some n"
      using growsD(9) [OF conjunct1 [OF n1]] by (metis domI map_le_def)
    then show ?thesis
      using n n1 by simp
  qed
  show "wf_table ruleTypes" "tb_ToString ruleTypes rt = Some ty" "og_TargetIDToString g1 i = Some name"
    using n1 r2 by simp_all
qed

lemma generateIDs_settled:
  assumes st: "settled g target" and wf: "wf_names g" and gr: "grows g g2" and names: "wf_names g2"
  shows "\<exists>depIDs. generateIDs (ht_Deps target) [] g2 = (depIDs, g2) \<and>
    set depIDs = {d. \<exists>n \<in> set (ht_Deps target). og_TargetIDToString g d = Some n}"
proof -
  have mono: "og_TargetNameToID g2 n = Some d" if "og_TargetNameToID g n = Some d" for n d
    using that growsD(9) [OF gr] wf_namesD(1) [OF wf, of n d] wf_namesD(1) [OF names, of n d] by (metis domI map_le_def)
  have deps: "set (ht_Deps target) \<subseteq> dom (og_TargetNameToID g2)"
    using st mono by (fastforce simp: settled_def)
  have "og_TargetIDToString g2 d = Some n \<longleftrightarrow> og_TargetIDToString g d = Some n" if n: "n \<in> set (ht_Deps target)" for d n
  proof -
    obtain e where e: "og_TargetNameToID g n = Some e"
      using st n by (auto simp: settled_def)
    show ?thesis
      using e mono [OF e] wf_namesD(1) [OF wf, of n d] wf_namesD(1) [OF names, of n d] by auto
  qed
  then show ?thesis
    using generateIDs_known [OF names deps, of "[]"] by auto
qed

lemma upsertExternalRuleTarget_consistent:
  assumes ok: "consistent sha (g, iv)" and st: "settled g target"
  shows "consistent sha (upsertExternalRuleTarget target (g, iv))"
proof -
  note wf = consistentD(1) [OF ok]
  obtain i g1 where g1: "getOrGenerateTargetID (ht_Name target) g = (i, g1)"
    by fastforce
  obtain rt ruleTypes where r: "getOrGenerateRecordReverse (ht_RuleType target) (og_RuleType g1) = (rt, ruleTypes)"
    by fastforce
  let ?g2 = "g1 \<lparr> og_RuleType := ruleTypes \<rparr>"
  note R = recorded [OF wf g1 r]
  obtain depIDs where d: "generateIDs (ht_Deps target) [] ?g2 = (depIDs, ?g2)"
      "set depIDs = {d. \<exists>n \<in> set (ht_Deps target). og_TargetIDToString g d = Some n}"
    using generateIDs_settled [OF st wf_graphD(3) [OF wf] R(1,2)] by blast
  have old: "set depIDs = oldDeps g i"
  proof (cases "og_TargetNameToID g (ht_Name target)")
    case None
    then have "targetAt g i = None"
      using R(6) wf_namesD(1) [OF wf_graphD(3) [OF wf], of "ht_Name target" i] by (auto simp: targetAt_None)
    then show ?thesis
      using d(2) st None by (simp add: settled_def oldDeps_def)
  next
    case (Some k)
    then have "k = i"
      using g1 by (simp add: getOrGenerateTargetID_def)
    then show ?thesis
      using d(2) st Some by (simp add: settled_def)
  qed
  have ext: "i \<in> targetIDs g \<Longrightarrow> isExternalRule g i"
    using R(6) st by (auto simp: settled_def)
  obtain t h where h: "putExternalObject i rt depIDs target (?g2, iv) = invalidateLoop (it_ReverseDeps t) (h, iv)" "wf_store h"
      "relinked g i (oldDeps g i) t h" "\<And>j. isExternalRule h j \<longleftrightarrow> j = i \<or> isExternalRule g j" "it_Hash t = ht_Hash target"
      "it_RuleType t \<in> dom (tb_ToString (og_RuleType ?g2))" "og_TargetIDToString h = og_TargetIDToString ?g2"
      "og_TargetNameToID h = og_TargetNameToID ?g2" "og_NextTargetID h = og_NextTargetID ?g2" "og_RuleType h = og_RuleType ?g2"
    using putExternalObject_relinked [OF wf R(1) old ext, of rt target iv] R(4) by (auto simp del: simp_thms)
  have wfh: "wf_graph h"
    using R(3,5) h(6) by (intro wf_graph_relinked [OF wf R(1,2) _ h(3,2,7-10)]) auto
  obtain iv' where iv': "invalidateLoop (it_ReverseDeps t) (h, iv) = (clearAffected h (set (it_ReverseDeps t)), iv')"
      "set iv' = set iv \<union> {j. affected h (set (it_ReverseDeps t)) j}"
    using invalidateLoop_eq [OF h(2), of "it_ReverseDeps t" iv] by blast
  have "consistent sha (clearAffected h (set (it_ReverseDeps t)), iv')"
  proof (rule relinked_consistent [OF ok wfh h(3)])
    show "set iv' = set iv \<union> {j. affected h (set (it_ReverseDeps t)) j} \<union> (if it_Hash t = None then {i} else {})"
      using iv'(2) h(5) st by (auto simp: settled_def)
  qed (use h(4,7,10) growsD(9,10) [OF R(1)] in \<open>simp_all add: isLeaf_def\<close>)
  then show ?thesis
    by (simp add: upsertExternalRuleTarget_def g1 r d(1) h(1) iv'(1))
qed

end
