(* ===== verification/ItgUpdate.thy ===== *)
theory ItgUpdate
  imports ItgCompute ItgExternal TargetOrder
begin

text \<open>
  \<open>UpdateGraph\<close> as a sequence of the operations on the graph, each of which keeps the invariant, and the
  hashes that it leaves.
\<close>

section \<open>Sequences of operations\<close>

inductive updates :: "(bytes \<Rightarrow> bytes) \<Rightarrow> i32 \<Rightarrow> itgState \<Rightarrow> itgState \<Rightarrow> bool" for sha STRING s where
  start: "updates sha STRING s s"
| remove: "updates sha STRING s (g, iv) \<Longrightarrow> map_of (og_OptimizedTargets g) i = Some a \<Longrightarrow>
    removeTarget a (g, iv) = (Inr () :: string itgError + unit, s') \<Longrightarrow> updates sha STRING s s'"
| upsert: "updates sha STRING s (g, iv) \<Longrightarrow> insertable g target \<Longrightarrow>
    upsertTarget STRING target (g, iv) = (Inr () :: string itgError + unit, s') \<Longrightarrow> updates sha STRING s s'"
| external: "updates sha STRING s (g, iv) \<Longrightarrow> settled g target \<Longrightarrow> updates sha STRING s (upsertExternalRuleTarget target (g, iv))"
| rehash: "updates sha STRING s (g, iv) \<Longrightarrow> ready g \<Longrightarrow> acyclicBy g rank \<Longrightarrow> never_cancelled ctx \<Longrightarrow>
    computeInvalidatedHashes sha ctx iv (g, k) = (Inr () :: string itgError + unit, g', k') \<Longrightarrow> updates sha STRING s (g', [])"

lemma updates_consistent: "updates sha STRING s s' \<Longrightarrow> consistent sha s \<Longrightarrow> consistent sha s'"
proof (induction rule: updates.induct)
  case (remove g iv i a s')
  then show ?case
    using removeTarget_consistent [of sha g iv i a, where 'e = string] by (cases s') auto
next
  case (upsert g iv target s')
  then show ?case
    by (cases s') (auto intro: upsertTarget_consistent [where 'e = string])
next
  case (external g iv target)
  then show ?case
    using upsertExternalRuleTarget_consistent by blast
next
  case (rehash g iv rank ctx k g' k')
  obtain g1 k1 where g1: "computeInvalidatedHashes sha ctx iv (g, k) = (Inr () :: string itgError + unit, g1, k1)" "sameShape g g1"
      "\<And>i t. targetAt g1 i = Some t \<Longrightarrow> \<exists>h. it_Hash t = Some h \<and> itgMerkle sha g i h"
    using computeInvalidatedHashes_complete [OF rehash.IH [OF rehash.prems] rehash.hyps(2-4), of k] by blast
  then show ?case
    using rehash.hyps(5) rehashed_consistent [OF consistentD(1) [OF rehash.IH [OF rehash.prems]] g1(2,3)] by simp
qed

section \<open>Removing the deleted targets\<close>

text \<open>What a removal leaves of the tables.\<close>

lemma removeTarget_tables:
  assumes wf: "wf_graph g" and a: "map_of (og_OptimizedTargets g) i = Some a" and r: "removeTarget a (g, iv) = (Inr () :: 'e itgError + unit, g', iv')"
  shows "map_of (og_OptimizedTargets g') = (map_of (og_OptimizedTargets g))(i := None)" "og_TargetIDToString g' = (og_TargetIDToString g)(i := None)"
    "map_of (og_ExternalRuleTargets g') = (map_of (og_ExternalRuleTargets g))(i := None)"
proof -
  have "g' = clearAffected (withoutTarget i (og_store g a) g) (set (it_ReverseDeps (og_store g a)))"
    using removeTarget_eq [OF wf a, where 'e = 'e, of iv] r by auto
  moreover have "map_of (og_OptimizedTargets (withoutTarget i t g)) = (map_of (og_OptimizedTargets g))(i := None)" for t
    by (simp add: withoutTarget_def deleteTarget_def delete_conv')
  ultimately show "map_of (og_OptimizedTargets g') = (map_of (og_OptimizedTargets g))(i := None)" "og_TargetIDToString g' = (og_TargetIDToString g)(i := None)"
    "map_of (og_ExternalRuleTargets g') = (map_of (og_ExternalRuleTargets g))(i := None)"
    by simp_all
qed

text \<open>The external rules that a predicate on identifiers and names keeps.\<close>

definition keepsExternal :: "(nat \<Rightarrow> string \<Rightarrow> bool) \<Rightarrow> OptimizedGraph \<Rightarrow> OptimizedGraph \<Rightarrow> bool" where
  "keepsExternal P g g' \<longleftrightarrow> (\<forall>i n. og_TargetIDToString g i = Some n \<longrightarrow> isExternalRule g i \<longrightarrow> P i n \<longrightarrow>
     og_TargetIDToString g' i = Some n \<and> isExternalRule g' i)"

lemma keepsExternal_trans:
  "keepsExternal P g g1 \<Longrightarrow> keepsExternal Q g1 g2 \<Longrightarrow> (\<And>i n. R i n \<Longrightarrow> P i n \<and> Q i n) \<Longrightarrow> keepsExternal R g g2"
  unfolding keepsExternal_def by blast

lemma keepsExternal_refl [simp]: "keepsExternal P g g"
  by (simp add: keepsExternal_def)

lemma removeTarget_updates:
  assumes up: "updates sha STRING s (g, iv)" and ok: "consistent sha s" and a: "map_of (og_OptimizedTargets g) i = Some a"
    and r: "removeTarget a (g, iv) = (Inr () :: string itgError + unit, g', iv')"
  shows "updates sha STRING s (g', iv')" "og_TargetIDToString g i = Some n \<Longrightarrow> \<not> P i n \<Longrightarrow> keepsExternal P g g'"
proof -
  note wf = consistentD(1) [OF updates_consistent [OF up ok]]
  show "updates sha STRING s (g', iv')"
    by (rule updates.remove [OF up a r])
  assume n: "og_TargetIDToString g i = Some n" "\<not> P i n"
  show "keepsExternal P g g'"
    unfolding keepsExternal_def isExternalRule_def removeTarget_tables [OF wf a r] using n by auto
qed

lemma removeDeletedSources_updates:
  assumes "updates sha STRING s (g, iv)" "consistent sha s"
    and "eachS removeDeletedSource ds (g, iv) = (Inr () :: string itgError + unit, g', iv')"
  shows "updates sha STRING s (g', iv') \<and> keepsExternal (\<lambda>i n. n \<notin> set ds) g g'"
  using assms
proof (induction ds arbitrary: g iv)
  case (Cons d ds)
  note wf = consistentD(1) [OF updates_consistent [OF Cons.prems(1,2)]]
  obtain g1 iv1 where s1: "removeDeletedSource d (g, iv) = (Inr () :: string itgError + unit, g1, iv1)"
      "eachS removeDeletedSource ds (g1, iv1) = (Inr () :: string itgError + unit, g', iv')"
    using Cons.prems(3) by (auto split: prod.splits sum.splits)
  have one: "updates sha STRING s (g1, iv1) \<and> keepsExternal (\<lambda>i n. n \<noteq> d) g g1"
  proof (cases "og_TargetNameToID g d")
    case None
    then show ?thesis
      using s1(1) Cons.prems(1) by (auto simp: removeDeletedSource_def)
  next
    case (Some i)
    then obtain a where a: "map_of (og_OptimizedTargets g) i = Some a" "removeTarget a (g, iv) = (Inr () :: string itgError + unit, g1, iv1)"
      using s1(1) by (auto simp: removeDeletedSource_def split: option.splits)
    have "og_TargetIDToString g i = Some d"
      using Some wf_namesD(1) [OF wf_graphD(3) [OF wf]] by simp
    then show ?thesis
      using removeTarget_updates [OF Cons.prems(1,2) a] by simp
  qed
  have two: "updates sha STRING s (g', iv') \<and> keepsExternal (\<lambda>i n. n \<notin> set ds) g1 g'"
    using Cons.IH [of g1 iv1] one Cons.prems(2) s1(2) by simp
  show ?case
    using two keepsExternal_trans [OF conjunct2 [OF one] conjunct2 [OF two], of "\<lambda>i n. n \<notin> set (d # ds)"] by simp
qed simp

text \<open>The entries that are left are in the table still.\<close>

lemma checkDeleted_updates:
  assumes "updates sha STRING s (g, iv)" "consistent sha s" "distinct (map fst es)"
    and "\<And>i a. (i, a) \<in> set es \<Longrightarrow> map_of (og_OptimizedTargets g) i = Some a"
    and "eachS (checkDeleted cp dp q) es (g, iv) = (Inr () :: string itgError + unit, g', iv')"
  shows "updates sha STRING s (g', iv') \<and> keepsExternal (\<lambda>i n. getPackage n \<notin> dp \<and> i \<in> set q) g g'"
  using assms
proof (induction es arbitrary: g iv)
  case (Cons e es)
  note wf = consistentD(1) [OF updates_consistent [OF Cons.prems(1,2)]]
  let ?Q = "\<lambda>i n. getPackage n \<notin> dp \<and> i \<in> set q"
  obtain i a where e: "e = (i, a)"
    by fastforce
  have a: "map_of (og_OptimizedTargets g) i = Some a"
    using Cons.prems(4) e by simp
  obtain n where n: "og_TargetIDToString g i = Some n"
    using wf_namesD(3) [OF wf_graphD(3) [OF wf], of i] a by (auto simp: targetIDs_def)
  obtain g1 iv1 where s1: "checkDeleted cp dp q (i, a) (g, iv) = (Inr () :: string itgError + unit, g1, iv1)"
      "eachS (checkDeleted cp dp q) es (g1, iv1) = (Inr () :: string itgError + unit, g', iv')"
    using Cons.prems(5) e by (auto split: prod.splits sum.splits)
  have id: "it_ID (og_store g a) = i"
    using wf_storeD(3) [OF wf_graphD(1) [OF wf] a] .
  let ?gone = "getPackage n \<in> dp \<or> (getPackage n \<in> cp \<and> i \<notin> set q)"
  have body: "checkDeleted cp dp q (i, a) (g, iv) = (if ?gone then removeTarget a (g, iv) else (Inr (), g, iv))"
    by (simp add: checkDeleted_def Let_def id n stringOf_def)
  consider (gone) "removeTarget a (g, iv) = (Inr () :: string itgError + unit, g1, iv1)" "\<not> ?Q i n" | (same) "g1 = g" "iv1 = iv"
    using s1(1) unfolding body by (cases ?gone) (simp_all, blast)
  then have one: "updates sha STRING s (g1, iv1) \<and> keepsExternal ?Q g g1 \<and>
      (\<forall>j. j \<noteq> i \<longrightarrow> map_of (og_OptimizedTargets g1) j = map_of (og_OptimizedTargets g) j)"
  proof cases
    case gone
    then show ?thesis
      using removeTarget_updates(1) [OF Cons.prems(1,2) a gone(1)] removeTarget_updates(2) [OF Cons.prems(1,2) a gone(1) n, of ?Q]
        removeTarget_tables(1) [OF wf a gone(1)] by simp
  qed (use Cons.prems(1) in simp)
  have "map_of (og_OptimizedTargets g1) j = Some b" if j: "(j, b) \<in> set es" for j b
  proof -
    have "j \<noteq> i"
      using j Cons.prems(3) e by force
    then show ?thesis
      using one Cons.prems(4) j by simp
  qed
  then have two: "updates sha STRING s (g', iv') \<and> keepsExternal ?Q g1 g'"
    using one Cons.prems(2,3) s1(2) by (intro Cons.IH [of g1 iv1]) simp_all
  show ?case
    using two keepsExternal_trans [of ?Q g g1 ?Q g' ?Q] one by simp
qed simp

lemma checkDeletedTargets_updates:
  assumes up: "updates sha STRING s (g, iv)" and ok: "consistent sha s"
    and r: "checkDeletedTargets cp dp targets (g, iv) = (Inr () :: string itgError + unit, g', iv')"
  shows "updates sha STRING s (g', iv') \<and> keepsExternal (\<lambda>i n. getPackage n \<notin> dp \<and> n \<in> fst ` set targets) g g'"
proof -
  note wf = consistentD(1) [OF updates_consistent [OF up ok]]
  let ?q = "List.map_filter (\<lambda>(name, t). og_TargetNameToID g name) targets"
  have d: "distinct (map fst (og_OptimizedTargets g))"
    using wf_storeD(1) [OF wf_graphD(1) [OF wf]] .
  have "updates sha STRING s (g', iv') \<and> keepsExternal (\<lambda>i n. getPackage n \<notin> dp \<and> i \<in> set ?q) g g'"
    using r d by (intro checkDeleted_updates [OF up ok d, of cp dp ?q]) (simp_all add: checkDeletedTargets_def Let_def)
  moreover have "i \<in> set ?q" if "og_TargetIDToString g i = Some n" "n \<in> fst ` set targets" for i n
  proof -
    have "og_TargetNameToID g n = Some i"
      using that(1) wf_namesD(1) [OF wf_graphD(3) [OF wf]] by simp
    then show ?thesis
      using that(2) by (force simp: List.map_filter_def)
  qed
  ultimately show ?thesis
    by (auto simp: keepsExternal_def)
qed

section \<open>Inserting the targets of the query\<close>

text \<open>The order of the targets keeps all but the order of dependencies and the root flag.\<close>

lemma toposort_sameGraph:
  fixes ctx :: "nat \<Rightarrow> 'e option"
  shows "sameGraph (fst s) (fst (snd (ToposortRecursively ctx name targets s)))"
    and "sameGraph (fst s) (fst (snd (toposortDeps ctx deps targets s)))"
proof (induction ctx name targets s and ctx deps targets s rule: ToposortRecursively_toposortDeps.induct)
  case (1 ctx name targets T visited k)
  show ?case
  proof (cases "ctx k = None \<and> name \<notin> visited \<and> map_of T name \<noteq> None")
    case True
    then obtain target where t: "map_of T name = Some target"
      by auto
    let ?d = "toposortDeps ctx (sort (ht_Deps target)) targets
        (AList.update name (target \<lparr> ht_Deps := sort (ht_Deps target) \<rparr>) T, insert name visited, k + 1)"
    have "sameGraph (AList.update name (target \<lparr> ht_Deps := sort (ht_Deps target) \<rparr>) T) (fst (snd ?d))"
      using 1 [OF _ _ t refl] True by simp
    then have "sameGraph T (fst (snd ?d))"
      by (rule sameGraph_trans [OF sameGraph_sort [OF t]])
    moreover have "snd (ToposortRecursively ctx name targets (T, visited, k)) = snd ?d"
      using True t by (auto simp: ToposortRecursively.simps Let_def split: prod.split sum.split)
    ultimately show ?thesis
      by simp
  next
    case False
    then show ?thesis
      by (auto simp: ToposortRecursively.simps split: option.split)
  qed
next
  case (3 ctx dep deps targets s)
  then show ?case
    by (cases "ToposortRecursively ctx dep targets s") (auto split: sum.split intro: sameGraph_trans)
qed simp

lemma topoSort_targets:
  assumes r: "topoSort ctx targets k = Inr (ts, k')" and t: "t \<in> set ts"
  shows "\<exists>name t0. map_of targets name = Some t0 \<and> ht_Name t = ht_Name t0 \<and> ht_Hash t = ht_Hash t0 \<and> ht_RuleType t = ht_RuleType t0"
proof -
  obtain roots T1 where T1: "GetTopologicalRootsAndIdentifyBuildableRoots targets = (roots, T1)"
    by fastforce
  obtain names T2 v where T2: "toposortNames ctx roots [] (T1, {}, k) = (Inr names, T2, v, k')" "ts = List.map_filter (map_of T2) names"
    using r T1 by (auto simp: topoSort_def split: prod.splits sum.splits)
  obtain name where "map_of T2 name = Some t"
    using t T2(2) by (auto simp: List.map_filter_def)
  moreover have "sameGraph T1 T2"
    using toposort_sameGraph(2) [of "(T1, {}, k)" ctx roots "[]"] T2(1) by (simp add: toposortNames_eq)
  ultimately obtain t1 where t1: "map_of T1 name = Some t1" "ht_Name t = ht_Name t1" "ht_Hash t = ht_Hash t1" "ht_RuleType t = ht_RuleType t1"
    by (auto simp: sameGraph_def option_rel_Some2 dest!: spec [where x = name])
  define f where "f n t \<longleftrightarrow> n \<notin> set (concat (map (\<lambda>(n, t). ht_Deps t) targets)) \<and> CanBeRoot (ht_RuleType t)" for n and t :: HashTarget
  have f: "T1 = map (\<lambda>(n, t). (n, if f n t then t \<lparr> ht_Root := True \<rparr> else t)) targets"
    using T1 by (simp only: GetTopologicalRootsAndIdentifyBuildableRoots_def Let_def f_def prod.inject)
  have "map_of T1 n = map_option (\<lambda>t. if f n t then t \<lparr> ht_Root := True \<rparr> else t) (map_of targets n)" for n
    unfolding f by (induction targets) auto
  then obtain z where "map_of targets name = Some z" "t1 = (if f name z then z \<lparr> ht_Root := True \<rparr> else z)"
    using t1(1) by auto
  then show ?thesis
    using t1(2-4) by (intro exI [of _ name] exI [of _ z]) simp
qed

lemma insertable_upsert:
  assumes wf: "wf_graph g" and up: "upsertTarget STRING target (g, iv) = (Inr () :: 'e itgError + unit, g', iv')" and x: "insertable g x"
  shows "insertable g' x"
proof -
  obtain h cs where "og_ExternalRuleTargets h = og_ExternalRuleTargets g" "og_TargetIDToString g \<subseteq>\<^sub>m og_TargetIDToString h" "g' = clearAffected h cs"
    using upsertTarget_eq [OF wf up] by metis
  then have "og_ExternalRuleTargets g' = og_ExternalRuleTargets g" "\<And>i n. og_TargetIDToString g i = Some n \<Longrightarrow> og_TargetIDToString g' i = Some n"
    by (simp, metis clearAffected_simps(5) domI map_le_def)
  then show ?thesis
    using x unfolding insertable_def isExternalRule_def by metis
qed

lemma upserts_updates:
  assumes "updates sha STRING s (g, iv)" "consistent sha s" "\<And>x. x \<in> set ts \<Longrightarrow> insertable g x"
    and "eachS (upsertTarget STRING) ts (g, iv) = (Inr () :: string itgError + unit, g', iv')"
  shows "updates sha STRING s (g', iv')"
  using assms
proof (induction ts arbitrary: g iv)
  case (Cons t ts)
  note wf = consistentD(1) [OF updates_consistent [OF Cons.prems(1,2)]]
  obtain g1 iv1 where s1: "upsertTarget STRING t (g, iv) = (Inr () :: string itgError + unit, g1, iv1)"
      "eachS (upsertTarget STRING) ts (g1, iv1) = (Inr () :: string itgError + unit, g', iv')"
    using Cons.prems(4) by (auto split: prod.splits sum.splits)
  have "updates sha STRING s (g1, iv1)"
    by (rule updates.upsert [OF Cons.prems(1) _ s1(1)]) (simp add: Cons.prems(3))
  then show ?case
    using Cons.IH [of g1 iv1] Cons.prems(2,3) s1(2) insertable_upsert [OF wf s1(1)] by simp
qed simp

text \<open>
  The targets of a query that may be inserted: those without a hash, those whose hash does not depend on
  other targets, and the external rules of the graph that are not deleted.
\<close>

definition plain :: "OptimizedGraph \<Rightarrow> string list \<Rightarrow> string set \<Rightarrow> string \<times> HashTarget \<Rightarrow> bool" where
  "plain g deletedSources deletedPkgs = (\<lambda>(name, t). ht_Name t = name \<and> (ht_Hash t = None \<or> ht_RuleType t \<in> leafTypes \<or>
     (name \<notin> set deletedSources \<and> getPackage name \<notin> deletedPkgs \<and> (\<exists>i. og_TargetIDToString g i = Some name \<and> isExternalRule g i))))"

lemma updateInvalidateTargets_updates:
  assumes up: "updates sha STRING s (g, iv)" and ok: "consistent sha s" and pl: "\<forall>x \<in> set targets. plain g ds dp x"
    and r: "updateInvalidateTargets STRING ctx k ds cp dp targets (g, iv) = (Inr k' :: string itgError + nat, g', iv')"
  shows "updates sha STRING s (g', iv')"
proof -
  obtain g1 iv1 where s1: "eachS removeDeletedSource ds (g, iv) = (Inr () :: string itgError + unit, g1, iv1)"
    using r by (auto simp: updateInvalidateTargets_def bindS_def split: prod.splits sum.splits)
  obtain g2 iv2 where s2: "checkDeletedTargets cp dp targets (g1, iv1) = (Inr () :: string itgError + unit, g2, iv2)"
    using r s1 by (auto simp: updateInvalidateTargets_def bindS_def split: prod.splits sum.splits)
  obtain ts k1 where ts: "topoSort ctx targets k = Inr (ts, k1)"
    using r s1 s2 by (cases "topoSort ctx targets k") (auto simp: updateInvalidateTargets_def bindS_def liftS_def split: prod.splits sum.splits)
  have s3: "eachS (upsertTarget STRING) ts (g2, iv2) = (Inr () :: string itgError + unit, g', iv')"
    using r s1 s2 ts by (auto simp: updateInvalidateTargets_def bindS_def liftS_def retS_def split: prod.splits sum.splits)
  note u1 = removeDeletedSources_updates [OF up ok s1]
  note u2 = checkDeletedTargets_updates [OF conjunct1 [OF u1] ok s2]
  have "keepsExternal (\<lambda>i n. n \<notin> set ds \<and> getPackage n \<notin> dp \<and> n \<in> fst ` set targets) g g2"
    by (rule keepsExternal_trans [OF conjunct2 [OF u1] conjunct2 [OF u2]]) simp
  then have keep: "og_TargetIDToString g2 i = Some n \<and> isExternalRule g2 i"
    if "og_TargetIDToString g i = Some n" "isExternalRule g i" "n \<notin> set ds" "getPackage n \<notin> dp" "n \<in> fst ` set targets" for i n
    using that unfolding keepsExternal_def by blast
  have "insertable g2 x" if x: "x \<in> set ts" for x
  proof -
    obtain name t0 where t0: "map_of targets name = Some t0" "ht_Name x = ht_Name t0" "ht_Hash x = ht_Hash t0" "ht_RuleType x = ht_RuleType t0"
      using topoSort_targets [OF ts x] by blast
    have mem: "(name, t0) \<in> set targets"
      using t0(1) by (rule map_of_SomeD)
    then have "plain g ds dp (name, t0)" "name \<in> fst ` set targets"
      using pl by (auto intro: rev_image_eqI)
    then show ?thesis
      using keep t0(2-4) unfolding plain_def insertable_def by fastforce
  qed
  then show ?thesis
    by (rule upserts_updates [OF conjunct1 [OF u2] ok _ s3])
qed

section \<open>The whole update\<close>

text \<open>Every external rule of the query is settled when its turn comes.\<close>

fun settledAll :: "itgState \<Rightarrow> targetMap \<Rightarrow> bool" where
  "settledAll s [] = True"
| "settledAll s ((name, target) # targets) =
    ((ht_RuleType target = ExternalRuleType \<longrightarrow> settled (fst s) target) \<and> settledAll (updateExternal s (name, target)) targets)"

lemma updateExternals_updates:
  "updates sha STRING s s1 \<Longrightarrow> settledAll s1 targets \<Longrightarrow> updates sha STRING s (foldl updateExternal s1 targets)"
proof (induction s1 targets rule: settledAll.induct)
  case (2 s1 name target targets)
  have "updates sha STRING s (updateExternal s1 (name, target))"
    using 2(2,3) by (cases s1) (auto simp: updateExternal_def intro: updates.external)
  then show ?case
    using 2(1,3) by simp
qed simp

lemma UpdateGraph_updates:
  assumes ok: "consistent (env_sha env) (g, [])" and ctx: "never_cancelled (env_ctx env)"
    and internal: "GetInternalTargetsWithoutHashAndRootInfo env order (ui_QueryResult input) 0 = (Inr T0 :: string hashError + targetMap, k0)"
    and external: "HashExternalTargets env order p (ui_QueryResult input) (T0, k0) = (Inr () :: string hashError + unit, T1, k1)"
    and st: "settledAll (g, []) T1" and g1: "foldl updateExternal (g, []) T1 = (g1, iv1)"
    and available: "computeAvailableHashes env p (addExternalRuleTargets g1 T1) k1 = (Inr T2 :: string hashError + targetMap, k2)"
    and pl: "\<forall>x \<in> set T2. plain g1 (ui_DeletedSrcFiles input) (ui_DeletedPkgs input) x"
    and inval: "updateInvalidateTargets STRING (env_ctx env) k2 (ui_DeletedSrcFiles input) (ui_ChangedPkgs input) (ui_DeletedPkgs input) T2 (g1, iv1)
      = (Inr k3 :: string itgError + nat, g2, iv2)"
    and rd: "ready g2" and ac: "acyclicBy g2 rank"
  shows "\<exists>g'. UpdateGraph env STRING order p input g = (Inr (), g') \<and> sameShape g2 g' \<and> consistent (env_sha env) (g', []) \<and>
    (\<forall>i t. targetAt g' i = Some t \<longrightarrow> (\<exists>h. it_Hash t = Some h \<and> itgMerkle (env_sha env) g' i h))"
proof -
  let ?sha = "env_sha env"
  have "updates ?sha STRING (g, []) (g1, iv1)"
    using updateExternals_updates [OF updates.start st] g1 by simp
  then have "updates ?sha STRING (g, []) (g2, iv2)"
    by (rule updateInvalidateTargets_updates [OF _ ok pl inval])
  then have ok2: "consistent ?sha (g2, iv2)"
    using ok by (rule updates_consistent)
  obtain g' k' where g': "computeInvalidatedHashes ?sha (env_ctx env) iv2 (g2, k3) = (Inr () :: string itgError + unit, g', k')" "sameShape g2 g'"
      "\<And>i t. targetAt g' i = Some t \<Longrightarrow> \<exists>h. it_Hash t = Some h \<and> itgMerkle ?sha g2 i h"
    using computeInvalidatedHashes_complete [OF ok2 rd ac ctx, of k3] by blast
  have "UpdateGraph env STRING order p input g = (Inr (), g')"
    by (simp add: UpdateGraph_def internal external g1 available inval g'(1))
  moreover have "consistent ?sha (g', [])"
    using consistentD(1) [OF ok2] g'(2,3) by (rule rehashed_consistent)
  moreover have "\<exists>h. it_Hash t = Some h \<and> itgMerkle ?sha g' i h" if "targetAt g' i = Some t" for i t
    using g'(3) [OF that] itgMerkle_sameShape [OF _ g'(2)] by blast
  ultimately show ?thesis
    using g'(2) by blast
qed

end
