(* ===== verification/ItgFull.thy ===== *)
theory ItgFull
  imports ItgUpdate TargetHashProperties
begin

text \<open>
  The hashes of the incremental graph against those of full hashing: a graph that represents the targets of a
  query has, wherever it has a hash, the hash that \<open>HashRecursively\<close> computes.
\<close>

definition representsTarget :: "'e hashEnv \<Rightarrow> 'e HashParam \<Rightarrow> (SourceFile option \<Rightarrow> 'e hashError + bytes) \<Rightarrow> OptimizedGraph \<Rightarrow> nat \<Rightarrow> ItgTarget \<Rightarrow>
    string \<Rightarrow> HashTarget \<Rightarrow> bool" where
  "representsTarget env p content g i t n x \<longleftrightarrow>
    (if isExternalRule g i then ht_Hash x = it_Hash t
     else ht_Hash x = None \<and> \<not> skips p n \<and> \<not> (isForeign env p n \<and> collapsesToRepo (Some x)) \<and> ruleTypeOf g t = ht_RuleType x \<and>
       (if ht_RuleType x = SourceFileType then (\<exists>h. it_Hash t = Some h \<and> content (ht_SourceFile x) = Inr h)
        else if ht_RuleType x = PackageGroup then it_Hash t = Some (env_sha env (bytes_of n))
        else if ht_RuleType x = GeneratedFileType then (\<exists>d. it_Deps t = [d] \<and> ht_Deps x = [stringOf (og_TargetIDToString g) d])
        else it_HashWithoutDeps t = Some (ruleBody env x) \<and> ht_Deps x = map (stringOf (og_TargetIDToString g)) (sortIDs g (it_Deps t))))"

definition represents :: "'e hashEnv \<Rightarrow> 'e HashParam \<Rightarrow> (SourceFile option \<Rightarrow> 'e hashError + bytes) \<Rightarrow> OptimizedGraph \<Rightarrow> targetMap \<Rightarrow> bool" where
  "represents env p content g T \<longleftrightarrow> (\<forall>i t. targetAt g i = Some t \<longrightarrow>
     (\<exists>n x. og_TargetIDToString g i = Some n \<and> map_of T n = Some x \<and> representsTarget env p content g i t n x))"

lemma itgMerkle_merkle:
  assumes rep: "represents env p content g T" and wf: "wf_graph g"
  shows "itgMerkle (env_sha env) g i h \<Longrightarrow> merkle env p content T (stringOf (og_TargetIDToString g) i) h"
proof (induction rule: itgMerkle.induct)
  case (leaf i t h)
  obtain n x where x: "og_TargetIDToString g i = Some n" "map_of T n = Some x" "representsTarget env p content g i t n x"
    using rep leaf(1) unfolding represents_def by blast
  show ?case
  proof (cases "isExternalRule g i")
    case True
    then show ?thesis
      using x leaf(3) by (auto simp: representsTarget_def stringOf_def intro: merkle.known)
  next
    case False
    then have own: "ownTarget env p T n = Some x" "fresh T n" "\<not> skips p n" "ht_RuleType x = SourceFileType \<or> ht_RuleType x = PackageGroup"
      using x leaf(2) by (auto simp: representsTarget_def ownTarget_def isLeaf_def leafTypes_def)
    show ?thesis
      using own(4) merkle.source [OF own(2,1,3)] merkle.group [OF own(2,1,3)] x leaf(3) False
      by (auto simp: representsTarget_def stringOf_def)
  qed
next
  case (generated i t h)
  obtain n x where x: "og_TargetIDToString g i = Some n" "map_of T n = Some x" "representsTarget env p content g i t n x"
    using rep generated(1) unfolding represents_def by blast
  obtain d where d: "it_Deps t = [d]" "ht_Deps x = [stringOf (og_TargetIDToString g) d]"
    using x(3) generated(2,3) by (auto simp: representsTarget_def isLeaf_def)
  have own: "ownTarget env p T n = Some x" "fresh T n" "\<not> skips p n" "ht_RuleType x = GeneratedFileType"
    using x generated(2,3) by (auto simp: representsTarget_def ownTarget_def isLeaf_def)
  show ?case
    using merkle.generated [OF own(2,1,3,4) d(2)] generated.IH x(1) d(1) by (simp add: stringOf_def singleDep_def)
next
  case (rule i t own hs)
  obtain n x where x: "og_TargetIDToString g i = Some n" "map_of T n = Some x" "representsTarget env p content g i t n x"
    using rep rule(1) unfolding represents_def by blast
  have n: "ownTarget env p T n = Some x" "fresh T n" "\<not> skips p n" "ht_RuleType x \<notin> {SourceFileType, GeneratedFileType, PackageGroup}"
    using x rule(2,3) by (auto simp: representsTarget_def ownTarget_def isLeaf_def leafTypes_def)
  have body: "own = ruleBody env x" "ht_Deps x = map (stringOf (og_TargetIDToString g)) (sortIDs g (it_Deps t))"
    using x(3) n(4) rule(2,4) by (auto simp: representsTarget_def isLeaf_def)
  have "list_all2 (merkle env p content T) (ht_Deps x) hs"
    using rule(5) unfolding body(2) list_all2_map1 by (rule list.rel_mono_strong) simp
  then show ?case
    using merkle.rule [OF n(2,1,3,4)] x(1) body(1) by (simp add: stringOf_def)
qed

lemma incremental_full:
  assumes loc: "source_hasher (hp_Hasher p) content" and p: "\<not> hp_isNoOpHasher p"
    and prep: "preparedGraph env p D T" and ac: "acyclic (merkleDeps env p T)" and n: "og_TargetIDToString g i = Some n" "n \<in> D"
    and ok: "consistent (env_sha env) (g, iv)" and rep: "represents env p content g T"
    and t: "targetAt g i = Some t" "it_Hash t = Some h" and r: "HashRecursively env p n (T, k) = (Inr r, s)"
  shows "r = Some h"
proof -
  have "merkle env p content T n h"
    using itgMerkle_merkle [OF rep consistentD(1) [OF ok], of i h] consistentD(2) [OF ok] t n(1) by (simp add: current_def stringOf_def)
  moreover obtain h' where "r = Some h'" "merkle env p content T n h'"
    using source_hasher.hash_merkle(1) [OF loc refl p prep ac r, of "{}"] n(2) by (auto simp: hashInv_refl)
  ultimately show ?thesis
    using merkle_deterministic by blast
qed

end
