(* ===== verification/ItgBuild.thy ===== *)
theory ItgBuild
  imports ItgExternal ItgCompute
begin

text \<open>
  \<open>OptimizeGraph\<close> of the targets of a query is a well-formed graph that holds these targets, and it is
  consistent when each target has the hash that the hashes of its dependencies give.
\<close>

section \<open>Adding targets\<close>

text \<open>The object of a target, before and after the reverse dependencies are set.\<close>

definition holds :: "OptimizedGraph \<Rightarrow> nat \<Rightarrow> ItgTarget \<Rightarrow> HashTarget \<Rightarrow> bool" where
  "holds g i t x \<longleftrightarrow> it_Hash t = ht_Hash x \<and> it_HashWithoutDeps t = ht_HashWithoutDeps x \<and>
     it_RuleType t \<in> dom (tb_ToString (og_RuleType g)) \<and> ruleTypeOf g t = ht_RuleType x \<and>
     (isExternalRule g i \<longleftrightarrow> ht_RuleType x = ExternalRuleType) \<and>
     set (ht_Deps x) \<subseteq> dom (og_TargetNameToID g) \<and> distinct (it_Deps t) \<and>
     set (it_Deps t) = {d. \<exists>n \<in> set (ht_Deps x). og_TargetIDToString g d = Some n}"

text \<open>While targets are added, no reverse dependency is set and a dependency need only have a name.\<close>

definition building :: "(string \<rightharpoonup> HashTarget) \<Rightarrow> OptimizedGraph \<Rightarrow> bool" where
  "building M g \<longleftrightarrow> wf_store g \<and> wf_names g \<and> wf_table (og_RuleType g) \<and>
     (\<forall>i t. targetAt g i = Some t \<longrightarrow> it_ReverseDeps t = [] \<and>
        (\<exists>n x. og_TargetIDToString g i = Some n \<and> M n = Some x \<and> holds g i t x)) \<and>
     (\<forall>n x. M n = Some x \<longrightarrow> (\<exists>i \<in> targetIDs g. og_TargetIDToString g i = Some n))"

lemma buildingD:
  assumes "building M g"
  shows "wf_store g" "wf_names g" "wf_table (og_RuleType g)"
    and "targetAt g i = Some t \<Longrightarrow> it_ReverseDeps t = [] \<and> (\<exists>n x. og_TargetIDToString g i = Some n \<and> M n = Some x \<and> holds g i t x)"
    and "M n = Some x \<Longrightarrow> \<exists>i \<in> targetIDs g. og_TargetIDToString g i = Some n"
  using assms unfolding building_def by blast+

lemma generateIDs_grows:
  assumes "wf_names g" "generateIDs names ids g = (ids', g')"
  shows "grows g g' \<and> wf_names g' \<and> og_RuleType g' = og_RuleType g \<and> set names \<subseteq> dom (og_TargetNameToID g') \<and> (distinct ids \<longrightarrow> distinct ids') \<and>
    set ids' = set ids \<union> {d. \<exists>n \<in> set names. og_TargetIDToString g' d = Some n}"
  using assms
proof (induction names arbitrary: ids g)
  case Nil
  then show ?case
    by (auto simp: grows_def)
next
  case (Cons n names)
  obtain i g1 where g1: "getOrGenerateTargetID n g = (i, g1)"
    by fastforce
  note a = getOrGenerateTargetID_grows [OF Cons.prems(1) g1]
  have b: "grows g1 g' \<and> wf_names g' \<and> og_RuleType g' = og_RuleType g1 \<and> set names \<subseteq> dom (og_TargetNameToID g') \<and> (distinct (List.insert i ids) \<longrightarrow> distinct ids') \<and>
      set ids' = set (List.insert i ids) \<union> {d. \<exists>n \<in> set names. og_TargetIDToString g' d = Some n}"
    using Cons.IH [of g1 "List.insert i ids"] Cons.prems(2) a g1 by simp
  have i: "og_TargetIDToString g' i = Some n"
    using a growsD(9) [of g1 g'] b by (metis domI map_le_def)
  then have n: "og_TargetNameToID g' n = Some i"
    using b wf_namesD(1) by blast
  have "og_TargetIDToString g' d = Some n \<longleftrightarrow> d = i" for d
    using n b wf_namesD(1) [of g' n d] by auto
  then have "set ids' = set ids \<union> {d. \<exists>m \<in> set (n # names). og_TargetIDToString g' d = Some m}"
    using b by auto
  then show ?case
    using a b n grows_trans [of g g1 g'] by auto
qed

lemma holds_grows:
  assumes h: "holds g i t x" and gr: "grows g g'" and n: "wf_names g" "wf_names g'"
  shows "holds g' i t x"
proof -
  have mono: "og_TargetNameToID g' m = Some d" if "og_TargetNameToID g m = Some d" for m d
    using that growsD(9) [OF gr] wf_namesD(1) [OF n(1), of m d] wf_namesD(1) [OF n(2), of m d] by (metis domI map_le_def)
  have same: "og_TargetIDToString g' d = Some m \<longleftrightarrow> og_TargetIDToString g d = Some m" if "m \<in> set (ht_Deps x)" for d m
  proof -
    obtain e where e: "og_TargetNameToID g m = Some e"
      using h \<open>m \<in> set (ht_Deps x)\<close> by (auto simp: holds_def)
    show ?thesis
      using e mono [OF e] wf_namesD(1) [OF n(1), of m d] wf_namesD(1) [OF n(2), of m d] by auto
  qed
  have "set (ht_Deps x) \<subseteq> dom (og_TargetNameToID g')"
    using h mono by (fastforce simp: holds_def)
  moreover have "it_RuleType t \<in> dom (tb_ToString (og_RuleType g'))" "ruleTypeOf g' t = ruleTypeOf g t"
    using h subsetD [OF map_le_implies_dom_le [OF growsD(10) [OF gr]]] stringOf_le [OF growsD(10) [OF gr]]
    by (simp_all add: holds_def ruleTypeOf_def)
  ultimately show ?thesis
    using h same growsD(3) [OF gr] by (auto simp: holds_def isExternalRule_def)
qed

lemma building_grows:
  assumes b: "building M g" and gr: "grows g g'" and n: "wf_names g'" and t: "wf_table (og_RuleType g')"
  shows "building M g'"
proof -
  note B = buildingD [OF b] and G = growsD [OF gr]
  have name: "og_TargetIDToString g' i = Some m" if "og_TargetIDToString g i = Some m" for i m
    using that G(9) by (metis domI map_le_def)
  have "it_ReverseDeps u = [] \<and> (\<exists>n x. og_TargetIDToString g' i = Some n \<and> M n = Some x \<and> holds g' i u x)"
    if "targetAt g' i = Some u" for i u
    using B(4) [of i u] that G(1) name holds_grows [OF _ gr B(2) n] by fastforce
  moreover have "\<exists>i \<in> targetIDs g'. og_TargetIDToString g' i = Some m" if "M m = Some x" for m x
    using B(5) [OF that] G(2) name by auto
  ultimately show ?thesis
    using G(7) [OF B(1)] n t by (auto simp: building_def)
qed

text \<open>The tables are filled before the object is stored.\<close>

lemma AddTarget_tables:
  assumes n: "wf_names g" and t: "wf_table (og_RuleType g)"
  obtains g' i o1 E where "grows g g'" "wf_names g'" "wf_table (og_RuleType g')" "og_TargetIDToString g' i = Some (ht_Name x)"
    "it_ID o1 = i" "it_ReverseDeps o1 = []" "\<forall>h. og_RuleType h = og_RuleType g' \<and> og_TargetIDToString h = og_TargetIDToString g' \<and>
      og_TargetNameToID h = og_TargetNameToID g' \<and> (isExternalRule h i \<longleftrightarrow> ht_RuleType x = ExternalRuleType) \<longrightarrow> holds h i o1 x"
    "E = (if ht_RuleType x = ExternalRuleType then AList.update i (og_alloc g') (og_ExternalRuleTargets g') else og_ExternalRuleTargets g')"
    "AddTarget STRING x g = g' \<lparr> og_store := (og_store g')(og_alloc g' := o1), og_alloc := Suc (og_alloc g'),
      og_OptimizedTargets := AList.update i (og_alloc g') (og_OptimizedTargets g'), og_ExternalRuleTargets := E \<rparr>"
proof -
  obtain i g1 where g1: "getOrGenerateTargetID (ht_Name x) g = (i, g1)"
    by fastforce
  obtain depIDs g2 where g2: "generateIDs (ht_Deps x) [] g1 = (depIDs, g2)"
    by fastforce
  obtain rt ruleTypes where rt: "getOrGenerateRecordReverse (ht_RuleType x) (og_RuleType g2) = (rt, ruleTypes)"
    by fastforce
  let ?g3 = "g2 \<lparr> og_RuleType := ruleTypes \<rparr>" and ?ext = "ht_RuleType x = ExternalRuleType"
  obtain tags attrs g4 where g4: "(if ?ext then (([], []), ?g3) else tagsAndAttributes STRING x ?g3) = ((tags, attrs), g4)"
    by (metis surj_pair)
  note n1 = getOrGenerateTargetID_grows [OF n g1]
  have n2: "grows g1 g2 \<and> wf_names g2 \<and> og_RuleType g2 = og_RuleType g1 \<and> set (ht_Deps x) \<subseteq> dom (og_TargetNameToID g2) \<and> distinct depIDs \<and>
      set depIDs = {d. \<exists>n \<in> set (ht_Deps x). og_TargetIDToString g2 d = Some n}"
    using generateIDs_grows [OF _ g2] n1 by simp
  have r: "wf_table ruleTypes" "tb_ToString (og_RuleType g) \<subseteq>\<^sub>m tb_ToString ruleTypes" "tb_ToString ruleTypes rt = Some (ht_RuleType x)"
    using getOrGenerateRecordReverse_table [OF _ rt] t n1 n2 by auto
  have gr3: "grows g ?g3"
    using grows_trans [of g g1 g2] n1 n2 r(2) by (auto simp: grows_def)
  have g34: "grows ?g3 g4 \<and> og_TargetNameToID g4 = og_TargetNameToID g2 \<and> og_TargetIDToString g4 = og_TargetIDToString g2 \<and>
      og_NextTargetID g4 = og_NextTargetID g2 \<and> og_RuleType g4 = ruleTypes"
    using g4 tagsAndAttributes_grows [of STRING x ?g3] by (auto simp: grows_def split: if_splits)
  have "targetIDs g4 = targetIDs g2"
    using g34 by (simp add: grows_def targetIDs_def)
  then have names: "wf_names g4"
    using n2 g34 by (simp add: wf_names_def)
  have name: "og_TargetIDToString g4 i = Some (ht_Name x)"
    using n1 n2 g34 growsD(9) [of g1 g2] by (metis domI map_le_def)
  let ?o = "\<lparr> it_ID = i, it_Hash = ht_Hash x, it_HashWithoutDeps = ht_HashWithoutDeps x, it_RuleType = rt,
      it_Deps = depIDs, it_ReverseDeps = [], it_Tags = tags, it_Root = (\<not> ?ext \<and> ht_Root x),
      it_External = ht_External x, it_Attributes = attrs \<rparr>"
  have obj: "holds h i ?o x" if "og_RuleType h = og_RuleType g4" "og_TargetIDToString h = og_TargetIDToString g4"
      "og_TargetNameToID h = og_TargetNameToID g4" "isExternalRule h i \<longleftrightarrow> ?ext" for h
    using that n2 g34 r(3) by (auto simp: holds_def ruleTypeOf_def stringOf_def)
  have "AddTarget STRING x g = g4 \<lparr> og_store := (og_store g4)(og_alloc g4 := ?o), og_alloc := Suc (og_alloc g4),
      og_OptimizedTargets := AList.update i (og_alloc g4) (og_OptimizedTargets g4),
      og_ExternalRuleTargets := (if ?ext then AList.update i (og_alloc g4) (og_ExternalRuleTargets g4) else og_ExternalRuleTargets g4) \<rparr>"
    unfolding AddTarget_def by (simp add: g1 g2 rt g4 newObject_def Let_def del: if_split)
  then show thesis
    by (rule that [OF grows_trans [OF gr3 conjunct1 [OF g34]] names _ name _ _ _ refl, rotated -1])
      (use r(1) g34 obj in simp_all)
qed

lemma AddTarget_building:
  assumes b: "building M g" and new: "M (ht_Name x) = None"
  shows "building (M(ht_Name x \<mapsto> x)) (AddTarget STRING x g)"
proof -
  obtain g' i o1 E where g': "grows g g'" "wf_names g'" "wf_table (og_RuleType g')" "og_TargetIDToString g' i = Some (ht_Name x)"
      and o1: "it_ID o1 = i" "it_ReverseDeps o1 = []" "\<forall>h. og_RuleType h = og_RuleType g' \<and> og_TargetIDToString h = og_TargetIDToString g' \<and>
      og_TargetNameToID h = og_TargetNameToID g' \<and> (isExternalRule h i \<longleftrightarrow> ht_RuleType x = ExternalRuleType) \<longrightarrow> holds h i o1 x"
      and E: "E = (if ht_RuleType x = ExternalRuleType then AList.update i (og_alloc g') (og_ExternalRuleTargets g') else og_ExternalRuleTargets g')"
      and h: "AddTarget STRING x g = g' \<lparr> og_store := (og_store g')(og_alloc g' := o1), og_alloc := Suc (og_alloc g'),
        og_OptimizedTargets := AList.update i (og_alloc g') (og_OptimizedTargets g'), og_ExternalRuleTargets := E \<rparr>" (is "_ = ?h")
    by (rule AddTarget_tables [OF buildingD(2,3) [OF b], of x STRING])
  note B = buildingD [OF building_grows [OF b g'(1-3)]]
  have absent: "map_of (og_OptimizedTargets g') i = None"
  proof (rule ccontr)
    assume "map_of (og_OptimizedTargets g') i \<noteq> None"
    then obtain t where "targetAt g' i = Some t"
      by (auto simp: targetAt_def)
    then show False
      using B(4) g'(4) new by fastforce
  qed
  have noext: "map_of (og_ExternalRuleTargets g') i = None"
    using wf_storeD(4) [OF B(1), of i] absent by (cases "map_of (og_ExternalRuleTargets g') i") auto
  have e: "map_of E j = Some c \<Longrightarrow> j \<noteq> i \<Longrightarrow> map_of (og_ExternalRuleTargets g') j = Some c" "map_of E i = Some c \<Longrightarrow> c = og_alloc g'" for j c
    using noext by (simp_all add: E update_conv' split: if_splits)
  have s: "wf_store ?h" "targetAt ?h = (targetAt g')(i \<mapsto> o1)"
    by (rule addObject [OF B(1) absent o1(1) e]; simp)+
  have ext: "isExternalRule ?h j \<longleftrightarrow> (if j = i then ht_RuleType x = ExternalRuleType else isExternalRule g' j)" for j
    using noext by (simp add: isExternalRule_def E update_conv')
  have old: "it_ReverseDeps u = [] \<and> (\<exists>n y. og_TargetIDToString ?h j = Some n \<and> (M(ht_Name x \<mapsto> x)) n = Some y \<and> holds ?h j u y)"
    if u: "targetAt g' j = Some u" "j \<noteq> i" for j u
  proof -
    obtain n y where y: "it_ReverseDeps u = []" "og_TargetIDToString g' j = Some n" "M n = Some y" "holds g' j u y"
      using B(4) [OF u(1)] by blast
    have "holds ?h j u y"
      using y(4) ext [of j] u(2) by (simp add: holds_def ruleTypeOf_def)
    then show ?thesis
      using y new by auto
  qed
  have "it_ReverseDeps u = [] \<and> (\<exists>n y. og_TargetIDToString ?h j = Some n \<and> (M(ht_Name x \<mapsto> x)) n = Some y \<and> holds ?h j u y)"
    if "targetAt ?h j = Some u" for j u
  proof (cases "j = i")
    case True
    then show ?thesis
      using that s(2) o1(2) spec [OF o1(3), of ?h] ext [of i] g'(4) by simp
  qed (use that s(2) old in auto)
  moreover have "\<exists>j \<in> targetIDs ?h. og_TargetIDToString ?h j = Some n" if m: "(M(ht_Name x \<mapsto> x)) n = Some y" for n y
  proof (cases "n = ht_Name x")
    case True
    then show ?thesis
      using s(2) g'(4) by (auto simp: targetIDs_iff)
  next
    case False
    then obtain j where "j \<in> targetIDs g'" "og_TargetIDToString g' j = Some n"
      using B(5) [of n y] m by auto
    then show ?thesis
      using s(2) by (auto simp: targetIDs_iff)
  qed
  moreover have "targetIDs ?h = insert i (targetIDs g')"
    by (auto simp: targetIDs_iff s(2) split: if_splits)
  then have "wf_names ?h"
    using g'(2) domI [where m = "og_TargetIDToString g'", OF g'(4)] by (simp add: wf_names_def)
  ultimately show ?thesis
    unfolding h building_def using s(1) g'(3) by auto
qed

lemma AddTargets_building:
  assumes "building M g" "distinct (map fst T)" "\<And>n x. (n, x) \<in> set T \<Longrightarrow> ht_Name x = n \<and> M n = None"
  shows "building (M ++ map_of T) (foldl (\<lambda>g (name, target). AddTarget STRING target g) g T)"
  using assms
proof (induction T arbitrary: M g)
  case (Cons e T)
  obtain n x where e: "e = (n, x)"
    by fastforce
  have n: "ht_Name x = n" "M n = None" "n \<notin> fst ` set T"
    using Cons.prems(2) Cons.prems(3) [of n x] unfolding e by simp_all
  have "building (M(n \<mapsto> x)) (AddTarget STRING x g)"
    using AddTarget_building [OF Cons.prems(1), of x STRING] n(1,2) by simp
  then have "building (M(n \<mapsto> x) ++ map_of T) (foldl (\<lambda>g (name, target). AddTarget STRING target g) (AddTarget STRING x g) T)"
  proof (rule Cons.IH)
    show "ht_Name y = m \<and> (M(n \<mapsto> x)) m = None" if "(m, y) \<in> set T" for m y
    proof -
      have "m \<noteq> n"
        using that n(3) by force
      then show ?thesis
        using Cons.prems(3) [of m y] that by simp
    qed
  qed (use Cons.prems(2) in simp)
  moreover have eq: "M ++ map_of (e # T) = M(n \<mapsto> x) ++ map_of T"
  proof -
    have "map_of T n = None"
      using n(3) by (simp add: map_of_eq_None_iff)
    then show ?thesis
      by (auto simp: e map_add_def fun_eq_iff split: option.split)
  qed
  ultimately show ?case
    unfolding eq by (simp add: e)
qed simp

section \<open>Linking\<close>

lemma addReverseDeps_eq:
  "wf_store g \<Longrightarrow> foldl (addReverseDep i) g ds = updateEach (\<lambda>j t. if j \<in> set ds then t \<lparr> it_ReverseDeps := List.insert i (it_ReverseDeps t) \<rparr> else t) g"
proof (induction ds arbitrary: g)
  case Nil
  then show ?case
    by (simp add: updateEach_same)
next
  case (Cons d ds)
  let ?f = "\<lambda>j t. if j = d then t \<lparr> it_ReverseDeps := List.insert i (it_ReverseDeps t) \<rparr> else t"
  have one: "addReverseDep i g d = updateEach ?f g"
  proof (cases "map_of (og_OptimizedTargets g) d")
    case None
    then have "updateEach ?f g = g"
      by (intro updateEach_same [OF Cons.prems]) (auto simp: targetAt_def)
    then show ?thesis
      using None by (simp add: addReverseDep_def)
  next
    case (Some a)
    then show ?thesis
      by (simp add: addReverseDep_def modifyAt_updateEach [OF Cons.prems Some])
  qed
  have "keepsID ?f"
    by (simp add: keepsID_def)
  then have "foldl (addReverseDep i) g (d # ds) = updateEach (\<lambda>j t. if j \<in> set ds then t \<lparr> it_ReverseDeps := List.insert i (it_ReverseDeps t) \<rparr> else t) (updateEach ?f g)"
    using Cons.IH [OF wf_store_updateEach [OF Cons.prems]] one by simp
  then show ?case
    using Cons.prems \<open>keepsID ?f\<close> by (auto simp: updateEach_updateEach intro!: updateEach_cong)
qed

lemma linkAll_eq:
  assumes "wf_store g"
  shows "\<exists>rs. foldl (\<lambda>g (i, a). foldl (addReverseDep i) g (it_Deps (og_store g a))) g es = updateEach (\<lambda>j t. t \<lparr> it_ReverseDeps := rs j t \<rparr>) g \<and>
    (\<forall>j t. set (rs j t) = set (it_ReverseDeps t) \<union> {i. \<exists>a. (i, a) \<in> set es \<and> j \<in> set (it_Deps (og_store g a))})"
  using assms
proof (induction es arbitrary: g)
  case Nil
  have "updateEach (\<lambda>j t. t \<lparr> it_ReverseDeps := it_ReverseDeps t \<rparr>) g = g"
    using Nil by (intro updateEach_same) simp_all
  then show ?case
    by (intro exI [of _ "\<lambda>j t. it_ReverseDeps t"]) simp
next
  case (Cons e es)
  obtain i a where e: "e = (i, a)"
    by fastforce
  let ?f = "\<lambda>j t. if j \<in> set (it_Deps (og_store g a)) then t \<lparr> it_ReverseDeps := List.insert i (it_ReverseDeps t) \<rparr> else t"
  let ?g = "updateEach ?f g"
  have keeps: "keepsID ?f"
    by (simp add: keepsID_def)
  have deps: "it_Deps (og_store ?g b) = it_Deps (og_store g b)" for b
    by (simp add: updateEach_def)
  obtain rs where rs: "foldl (\<lambda>g (i, a). foldl (addReverseDep i) g (it_Deps (og_store g a))) ?g es = updateEach (\<lambda>j t. t \<lparr> it_ReverseDeps := rs j t \<rparr>) ?g"
      "\<And>j t. set (rs j t) = set (it_ReverseDeps t) \<union> {i. \<exists>a. (i, a) \<in> set es \<and> j \<in> set (it_Deps (og_store g a))}"
    using Cons.IH [OF wf_store_updateEach [OF Cons.prems keeps]] unfolding deps by blast
  have "(\<lambda>j t. (?f j t) \<lparr> it_ReverseDeps := rs j (?f j t) \<rparr>) = (\<lambda>j t. t \<lparr> it_ReverseDeps := rs j (?f j t) \<rparr>)"
    by (auto simp: fun_eq_iff)
  then have "foldl (\<lambda>g (i, a). foldl (addReverseDep i) g (it_Deps (og_store g a))) g (e # es) = updateEach (\<lambda>j t. t \<lparr> it_ReverseDeps := rs j (?f j t) \<rparr>) g"
    using rs(1) addReverseDeps_eq [OF Cons.prems] keeps by (simp add: e updateEach_updateEach)
  moreover have "set (rs j (?f j t)) = set (it_ReverseDeps t) \<union> {i. \<exists>a. (i, a) \<in> set (e # es) \<and> j \<in> set (it_Deps (og_store g a))}" for j t
    unfolding rs(2) by (auto simp: e)
  ultimately show ?case
    by (intro exI [of _ "\<lambda>j t. rs j (?f j t)"]) simp
qed

text \<open>The targets of a query whose dependencies are all in it.\<close>

definition closedTargets :: "targetMap \<Rightarrow> bool" where
  "closedTargets T \<longleftrightarrow> distinct (map fst T) \<and> (\<forall>n x. (n, x) \<in> set T \<longrightarrow> ht_Name x = n \<and> set (ht_Deps x) \<subseteq> fst ` set T)"

lemma OptimizeGraph_holds:
  assumes T: "closedTargets T"
  shows "wf_graph (OptimizeGraph STRING T)"
    and "targetAt (OptimizeGraph STRING T) i = Some t \<Longrightarrow> \<exists>n x. og_TargetIDToString (OptimizeGraph STRING T) i = Some n \<and> map_of T n = Some x \<and>
      holds (OptimizeGraph STRING T) i t x"
    and "map_of T n = Some x \<Longrightarrow> \<exists>i \<in> targetIDs (OptimizeGraph STRING T). og_TargetIDToString (OptimizeGraph STRING T) i = Some n"
proof -
  let ?g = "foldl (\<lambda>g (name, target). AddTarget STRING target g) emptyGraph T" and ?h = "OptimizeGraph STRING T"
  have "building Map.empty emptyGraph"
    by (simp add: building_def emptyGraph_def emptyTable_def wf_store_def wf_names_def wf_table_def targetAt_def targetIDs_def)
  then have "building (Map.empty ++ map_of T) ?g"
    using T by (intro AddTargets_building) (auto simp: closedTargets_def)
  then have b: "building (map_of T) ?g"
    by simp
  note B = buildingD [OF b]
  obtain rs where rs: "?h = updateEach (\<lambda>j t. t \<lparr> it_ReverseDeps := rs j t \<rparr>) ?g"
      "\<And>j t. set (rs j t) = set (it_ReverseDeps t) \<union> {i. \<exists>a. (i, a) \<in> set (og_OptimizedTargets ?g) \<and> j \<in> set (it_Deps (og_store ?g a))}"
    using linkAll_eq [OF B(1), of "og_OptimizedTargets ?g"] unfolding OptimizeGraph_def Let_def by blast
  have at: "targetAt ?h j = map_option (\<lambda>t. t \<lparr> it_ReverseDeps := rs j t \<rparr>) (targetAt ?g j)" for j
    unfolding rs(1) by (rule targetAt_updateEach [OF B(1)])
  have holds: "holds ?h j (t \<lparr> it_ReverseDeps := r \<rparr>) x \<longleftrightarrow> holds ?g j t x" for j t r x
    by (simp add: rs(1) holds_def ruleTypeOf_def isExternalRule_def)
  show present: "\<exists>i \<in> targetIDs ?h. og_TargetIDToString ?h i = Some n" if "map_of T n = Some x" for n x
    using B(5) [OF that] by (simp add: rs(1))
  show held: "\<exists>n x. og_TargetIDToString ?h i = Some n \<and> map_of T n = Some x \<and> holds ?h i t x" if t: "targetAt ?h i = Some t" for i t
  proof -
    obtain u where u: "targetAt ?g i = Some u" "t = u \<lparr> it_ReverseDeps := rs i u \<rparr>"
      using t at [of i] by auto
    then show ?thesis
      using B(4) [OF u(1)] holds [where j = i and t = u] by (simp add: rs(1))
  qed
  have deps: "set (it_Deps t) \<subseteq> targetIDs ?h" if t: "targetAt ?h i = Some t" for i t
  proof
    fix d
    assume "d \<in> set (it_Deps t)"
    then obtain n x m where x: "map_of T n = Some x" "m \<in> set (ht_Deps x)" "og_TargetIDToString ?h d = Some m"
      using held [OF t] by (auto simp: holds_def)
    have "m \<in> fst ` set T"
      using x(1,2) T map_of_SomeD [OF x(1)] by (auto simp: closedTargets_def)
    then obtain y where "map_of T m = Some y"
      by (metis map_of_eq_None_iff not_None_eq)
    then obtain j where "j \<in> targetIDs ?h" "og_TargetIDToString ?h j = Some m"
      using present by blast
    moreover have "wf_names ?h"
      using B(2) by (simp add: rs(1) wf_names_def)
    ultimately show "d \<in> targetIDs ?h"
      using x(3) wf_namesD(1) by (metis option.inject)
  qed
  have rdeps: "j \<in> set (it_ReverseDeps t) \<longleftrightarrow> (\<exists>v. targetAt ?h j = Some v \<and> i \<in> set (it_Deps v))" if t: "targetAt ?h i = Some t" for i j t
  proof -
    obtain u where u: "targetAt ?g i = Some u" "t = u \<lparr> it_ReverseDeps := rs i u \<rparr>"
      using t at [of i] by auto
    have "(\<exists>a. (j, a) \<in> set (og_OptimizedTargets ?g) \<and> i \<in> set (it_Deps (og_store ?g a))) \<longleftrightarrow> (\<exists>v. targetAt ?g j = Some v \<and> i \<in> set (it_Deps v))"
      using wf_storeD(1) [OF B(1)] by (auto simp: targetAt_iff)
    then show ?thesis
      using u(2) rs(2) [of i u] B(4) [OF u(1)] at [of j] by auto
  qed
  have "wf_links ?h"
    using deps rdeps unfolding wf_links_def by (auto simp: targetIDs_iff)
  moreover have "wf_store ?h"
    unfolding rs(1) by (rule wf_store_updateEach [OF B(1)]) (simp add: keepsID_def)
  moreover have "wf_names ?h" "wf_table (og_RuleType ?h)"
    using B(2,3) by (simp_all add: rs(1) wf_names_def)
  ultimately show "wf_graph ?h"
    using held by (fastforce simp: wf_graph_def holds_def)
qed

section \<open>Hashes\<close>

text \<open>
  Targets that are all hashed, each from its own body and the hashes of its dependencies, on a graph
  without cycles: what full hashing leaves.
\<close>

definition hashIn :: "targetMap \<Rightarrow> string \<Rightarrow> bytes" where
  "hashIn T n = (case map_of T n of None \<Rightarrow> [] | Some x \<Rightarrow> sliceBytes (ht_Hash x))"

definition localHash :: "(bytes \<Rightarrow> bytes) \<Rightarrow> targetMap \<Rightarrow> HashTarget \<Rightarrow> bool" where
  "localHash sha T x \<longleftrightarrow> ht_Hash x \<noteq> None \<and>
    (if ht_RuleType x \<in> insert ExternalRuleType leafTypes then True
     else if ht_RuleType x = GeneratedFileType then (\<exists>d. ht_Deps x = [d] \<and> sliceBytes (ht_Hash x) = hashIn T d)
     else (\<exists>own. ht_HashWithoutDeps x = Some own \<and> ht_Hash x = Some (sha (own @ concat (map (hashIn T) (sort (remdups (ht_Deps x))))))))"

definition locallyHashed :: "(bytes \<Rightarrow> bytes) \<Rightarrow> (string \<Rightarrow> nat) \<Rightarrow> targetMap \<Rightarrow> bool" where
  "locallyHashed sha rank T \<longleftrightarrow> (\<forall>n x. map_of T n = Some x \<longrightarrow> localHash sha T x \<and>
     (ht_RuleType x \<notin> insert ExternalRuleType leafTypes \<longrightarrow> (\<forall>d \<in> set (ht_Deps x). rank d < rank n)))"

lemma names_sortIDs:
  assumes names: "wf_names g" and d: "distinct ids" "set ids \<subseteq> dom (og_TargetIDToString g)" and ns: "set ns = stringOf (og_TargetIDToString g) ` set ids"
  shows "map (stringOf (og_TargetIDToString g)) (sortIDs g ids) = sort (remdups ns)"
proof (rule sorted_distinct_set_unique)
  have "inj_on (stringOf (og_TargetIDToString g)) (set ids)"
  proof (rule inj_onI)
    fix a b
    assume a: "a \<in> set ids" "b \<in> set ids" "stringOf (og_TargetIDToString g) a = stringOf (og_TargetIDToString g) b"
    obtain n m where nm: "og_TargetIDToString g a = Some n" "og_TargetIDToString g b = Some m"
      using a(1,2) d(2) by blast
    then have "n = m"
      using a(3) by (simp add: stringOf_def)
    then show "a = b"
      using nm wf_namesD(1) [OF names, of n a] wf_namesD(1) [OF names, of n b] by simp
  qed
  then show "distinct (map (stringOf (og_TargetIDToString g)) (sortIDs g ids))"
    using d(1) by (simp add: distinct_map sortIDs_def)
qed (simp_all add: sortIDs_def ns)

lemma distinct_single: "distinct xs \<Longrightarrow> set xs = {e} \<Longrightarrow> xs = [e]"
  by (cases xs; cases "tl xs") auto

lemma OptimizeGraph_merkle:
  assumes T: "closedTargets T" and L: "locallyHashed sha rank T"
  shows "og_TargetIDToString (OptimizeGraph STRING T) i = Some n \<Longrightarrow> i \<in> targetIDs (OptimizeGraph STRING T) \<Longrightarrow>
    itgMerkle sha (OptimizeGraph STRING T) i (hashIn T n)"
proof (induction "rank n" arbitrary: i n rule: less_induct)
  case less
  let ?g = "OptimizeGraph STRING T"
  note wf = OptimizeGraph_holds(1) [OF T, of STRING]
  note names = wf_graphD(3) [OF wf]
  obtain t where t: "targetAt ?g i = Some t"
    using less(3) by (auto simp: targetIDs_iff)
  obtain x where x: "map_of T n = Some x" "holds ?g i t x"
    using OptimizeGraph_holds(2) [OF T t] less(2) by auto
  have lh: "localHash sha T x" "\<And>d. ht_RuleType x \<notin> insert ExternalRuleType leafTypes \<Longrightarrow> d \<in> set (ht_Deps x) \<Longrightarrow> rank d < rank n"
    using L x(1) unfolding locallyHashed_def by blast+
  obtain h where h: "ht_Hash x = Some h" "it_Hash t = Some h" "hashIn T n = h"
    using lh(1) x by (auto simp: localHash_def holds_def hashIn_def sliceBytes_def)
  have leaf: "isLeaf ?g i t \<longleftrightarrow> ht_RuleType x \<in> insert ExternalRuleType leafTypes"
    using x(2) by (auto simp: isLeaf_def holds_def)
  have dep: "itgMerkle sha ?g e (hashIn T (stringOf (og_TargetIDToString ?g) e)) \<and> (\<exists>d. og_TargetIDToString ?g e = Some d \<and> d \<in> set (ht_Deps x))"
    if e: "e \<in> set (it_Deps t)" "\<not> isLeaf ?g i t" for e
  proof -
    obtain d where d: "d \<in> set (ht_Deps x)" "og_TargetIDToString ?g e = Some d"
      using x(2) e(1) by (auto simp: holds_def)
    have "e \<in> targetIDs ?g"
      using wf_linksD(1) [OF wf_graphD(2) [OF wf] t] e(1) by blast
    then show ?thesis
      using less(1) [OF lh(2) d(2)] leaf e(2) d by (simp add: stringOf_def)
  qed
  consider (leaf) "isLeaf ?g i t" | (generated) "\<not> isLeaf ?g i t" "ht_RuleType x = GeneratedFileType"
    | (rule) "\<not> isLeaf ?g i t" "ht_RuleType x \<noteq> GeneratedFileType"
    by blast
  then show ?case
  proof cases
    case leaf
    then show ?thesis
      using itgMerkle.leaf [OF t leaf h(2)] h(3) by simp
  next
    case generated
    obtain d where d: "ht_Deps x = [d]" "hashIn T d = h"
      using lh(1) generated \<open>isLeaf ?g i t \<longleftrightarrow> _\<close> h by (auto simp: localHash_def sliceBytes_def)
    obtain e where e: "og_TargetNameToID ?g d = Some e"
      using x(2) d(1) by (auto simp: holds_def)
    have "{c. og_TargetIDToString ?g c = Some d} = {e}"
      by (auto simp: wf_namesD(1) [OF names, symmetric] e)
    then have "set (it_Deps t) = {e}"
      using x(2) d(1) by (simp add: holds_def)
    moreover have "distinct (it_Deps t)"
      using x(2) by (simp add: holds_def)
    ultimately have ids: "it_Deps t = [e]"
      by (intro distinct_single)
    have "og_TargetIDToString ?g e = Some d"
      using e wf_namesD(1) [OF names] by simp
    then have "itgMerkle sha ?g (singleDep (it_Deps t)) h"
      using dep [of e] generated(1) ids d(2) by (simp add: stringOf_def singleDep_def)
    then show ?thesis
      using itgMerkle.generated [OF t generated(1)] generated(2) x(2) ids h(3) by (simp add: holds_def)
  next
    case rule
    let ?ids = "sortIDs ?g (it_Deps t)" and ?name = "stringOf (og_TargetIDToString ?g)"
    obtain own where own: "ht_HashWithoutDeps x = Some own" "h = sha (own @ concat (map (hashIn T) (sort (remdups (ht_Deps x)))))"
      using lh(1) rule \<open>isLeaf ?g i t \<longleftrightarrow> _\<close> h(1) by (auto simp: localHash_def)
    have "set (ht_Deps x) = ?name ` set (it_Deps t)"
    proof
      show "set (ht_Deps x) \<subseteq> ?name ` set (it_Deps t)"
      proof
        fix d
        assume d: "d \<in> set (ht_Deps x)"
        then obtain e where e: "og_TargetNameToID ?g d = Some e"
          using x(2) by (auto simp: holds_def)
        then have "og_TargetIDToString ?g e = Some d"
          using wf_namesD(1) [OF names] by simp
        then show "d \<in> ?name ` set (it_Deps t)"
          using x(2) d by (force simp: holds_def stringOf_def)
      qed
    qed (use x(2) in \<open>auto simp: holds_def stringOf_def\<close>)
    then have "map ?name ?ids = sort (remdups (ht_Deps x))"
      using x(2) by (intro names_sortIDs [OF names]) (auto simp: holds_def)
    moreover have "list_all2 (itgMerkle sha ?g) ?ids (map (hashIn T \<circ> ?name) ?ids)"
      using dep [OF _ rule(1)] by (simp add: list_all2_map2 list_all2_same)
    ultimately have "list_all2 (itgMerkle sha ?g) ?ids (map (hashIn T) (sort (remdups (ht_Deps x))))"
      by (metis map_map)
    then show ?thesis
      using itgMerkle.rule [OF t rule(1)] rule(2) x(2) own h(3) by (simp add: holds_def)
  qed
qed

lemma OptimizeGraph_consistent:
  assumes T: "closedTargets T" and L: "locallyHashed sha rank T"
  shows "consistent sha (OptimizeGraph STRING T, [])"
proof -
  let ?g = "OptimizeGraph STRING T"
  note wf = OptimizeGraph_holds(1) [OF T, of STRING]
  have merkle: "itgMerkle sha ?g i (hashIn T n) \<and> it_Hash t = Some (hashIn T n)"
    if t: "targetAt ?g i = Some t" and n: "og_TargetIDToString ?g i = Some n" for i t n
  proof -
    obtain x where x: "map_of T n = Some x" "holds ?g i t x"
      using OptimizeGraph_holds(2) [OF T t] n by auto
    have "ht_Hash x \<noteq> None"
      using L x(1) unfolding locallyHashed_def localHash_def by blast
    then show ?thesis
      using OptimizeGraph_merkle [OF T L n] t x by (auto simp: targetIDs_iff holds_def hashIn_def sliceBytes_def)
  qed
  have named: "\<exists>n. og_TargetIDToString ?g i = Some n" if "targetAt ?g i = Some t" for i t
    using OptimizeGraph_holds(2) [OF T that] by blast
  have "hashedAt ?g i" if "i \<in> targetIDs ?g" for i
    using that merkle named by (fastforce simp: hashedAt_def targetIDs_iff)
  moreover have "current sha ?g"
    unfolding current_def using merkle named by fastforce
  ultimately show ?thesis
    using wf wf_linksD(1) [OF wf_graphD(2) [OF wf]] by (fastforce simp: consistent_def supported_def tracked_def)
qed

end
