(* ===== verification/ItgProperties.thy ===== *)
theory ItgProperties
  imports ItgFull ItgBuild
begin







































end
