(* ===== verification/Spec2Isabelle.thy ===== *)
theory Spec2Isabelle
  imports Streaming TgbDiffProperties TargetHashProperties HandlerProperties StorageProperties ControllerProperties ItgProperties
begin

text \<open>
  Verification of tango, a service that builds target graphs of Bazel repositories, stores them as
  TGB blobs, and compares two revisions to find the changed targets.

  \<^bold>\<open>The program.\<close> A query result of Bazel becomes a graph of hashed targets
  (\<open>core/targethasher\<close>); the graph is turned into messages with integer IDs and metadata maps
  (\<open>entity\<close>), encoded into a column-oriented blob (\<open>internal/tgb\<close>) and stored. To compare two
  revisions, the blobs are compared in node-index space (\<open>internal/tgbdiff\<close>) or the decoded graphs by
  label (\<open>internal/targetdiff\<close>); the changed targets are streamed in size-bounded chunks
  (\<open>internal/streaming\<close>). Around this the service has a \<open>handler\<close> per RPC (validation, filters, wire
  errors), a \<open>controller\<close> that serves results and graphs from a blob storage (\<open>core/storage\<close>, keys from
  \<open>core/cachekey\<close>) or computes them, and mappers between the representations (\<open>mapper\<close>,
  \<open>internal/mapper\<close>). \<open>core/itg/graph\<close> keeps a hashed graph and updates it from a query of the changed packages.

  \<^bold>\<open>Theories.\<close>

  \<^item> \<open>Prelude\<close>: vocabulary, error and state combinators, slices, bytes and strings.
    \<open>GoStrings\<close>: the operations of \<open>strings\<close> and \<open>path/filepath\<close> that the code uses.
  \<^item> \<open>Varint\<close>: \<open>internal/tgb/varint.go\<close>, \<open>internal/streaming/wire\<close>. \<open>Entity\<close>: \<open>entity/\<close> and the exact
    wire sizes of its messages. \<open>Streaming\<close>: \<open>internal/streaming/streaming.go\<close>.
  \<^item> \<open>BuildProto\<close>, \<open>RuleHash\<close>, \<open>SourceHash\<close>: \<open>core/targethasher/sourcehasher.go\<close> and \<open>markers.go\<close>; the
    canonical encoding of a rule determines the rule up to the order of its collections.
    \<open>TargetGraph\<close>: \<open>core/targethasher/graph.go\<close>, from \<open>toTarget\<close> to \<open>FromProto\<close>. \<open>HashRecursively\<close> and
    \<open>ToposortRecursively\<close> are total functions: each recursive call has marked a target, and the
    number of unmarked targets is the measure. \<open>TargetOrder\<close>: the topological sort. \<open>TargetMerkle\<close>:
    the recursive hash refines the relation \<open>merkle\<close>, which defines the hash of a target from the
    graph alone; the locale \<open>source_hasher\<close> is the interface \<open>SourceHasher\<close>, interpreted on the disk
    hasher. \<open>TargetHashProperties\<close>: the results.
  \<^item> \<open>TgbFormat\<close>, \<open>TgbDict\<close>, \<open>TgbSort\<close>, \<open>TgbEncode\<close>: \<open>format.go\<close>, \<open>dict.go\<close>, \<open>psort.go\<close>, \<open>encode.go\<close> and
    \<open>graph.go\<close> of \<open>internal/tgb\<close>. \<open>TgbReader\<close>, \<open>TgbDecode\<close>: \<open>reader.go\<close>, the accessors as state
    transformers on the reader and its caches. \<open>TgbColumns\<close>, \<open>TgbContainer\<close>, \<open>TgbEncoder\<close>,
    \<open>TgbRoundTrip\<close>, \<open>TgbInverse\<close>, \<open>TgbCodec\<close>: decoding inverts encoding, column by column and as a
    whole. \<open>TgbLazy\<close>: the lazy reader refines a stateless one. \<open>TgbExample\<close>, \<open>TgbProperties\<close>: an
    example and the results.
  \<^item> \<open>Bfs\<close>: the breadth-first search that both comparisons run, against path lengths.
    \<open>TargetDiff\<close>: \<open>internal/targetdiff/compare.go\<close>. \<open>TgbAlign\<close>, \<open>TgbDiff\<close>, \<open>TgbAdapt\<close>:
    \<open>internal/tgbdiff/compare.go\<close> and \<open>adapt.go\<close>. \<open>TgbDiffNodes\<close>, \<open>TgbDiffPaths\<close>,
    \<open>TgbDiffProperties\<close>: the blob comparison refines the comparison by label.
  \<^item> \<open>IdMapper\<close>: \<open>internal/mapper/idmapper\<close>; a mapper is the list of the names it has seen. \<open>Responses\<close>,
    \<open>ResponseRoundTrip\<close>: decoding of graph streams and encoding of results in
    \<open>controller/getchangedtargets.go\<close>; the responses of a result resolve to the result. \<open>GraphMapper\<close>,
    \<open>GraphMapperProperties\<close>: \<open>mapper/mapper.go\<close>, from hash results to chunks and back.
  \<^item> \<open>GoError\<close>: \<open>core/errors\<close> and \<open>mapper/proto/errors.go\<close>. \<open>Handler\<close>, \<open>HandlerProperties\<close>: \<open>handler/\<close>,
    \<open>internal/mapper\<close>, \<open>mapper/proto\<close>; what a client reads from the response stream.
  \<^item> \<open>BlobStorage\<close>, \<open>StorageProperties\<close>: \<open>core/storage\<close>; the locale \<open>blob_store\<close> is the storage
    interface, interpreted on the memory and on the disk storage. \<open>CacheKey\<close>: \<open>core/cachekey\<close> and
    \<open>internal/url\<close>.
  \<^item> \<open>Controller\<close>, \<open>ControllerProperties\<close>: \<open>core/storage/tgbgraph.go\<close>, \<open>controller/gettargetgraph.go\<close> and
    the rest of \<open>controller/getchangedtargets.go\<close>.
  \<^item> \<open>Itg\<close>: \<open>core/itg/graph\<close>, the incremental target graph, with its targets in a store of objects that
    tables refer to by address. The invalidation queue and the recursive hashing are total: their
    measures count the targets with and without a hash. \<open>ItgLinks\<close>: the well-formed graph; a queue
    invalidates exactly the targets that a candidate reaches backwards through hashed targets.
    \<open>ItgInvariant\<close>, \<open>ItgUpsert\<close>, \<open>ItgExternal\<close>: closed forms of removal and insertion. \<open>ItgHash\<close>: the
    relation \<open>itgMerkle\<close> defines a hash from the graph alone; \<open>consistent\<close> is the invariant between
    updates. \<open>ItgCompute\<close>: hashing what was invalidated gives every target its reference hash.
    \<open>ItgBuild\<close>: the graph \<open>OptimizeGraph\<close> makes of hashed targets is consistent.
    \<open>ItgUpdate\<close>: an update is a sequence of operations that keep the invariant. \<open>ItgFull\<close>: the hashes are
    those of \<open>core/targethasher\<close>. \<open>ItgProperties\<close>: the results.

  \<^bold>\<open>Parameters.\<close> Code outside the repository is an argument of the definitions that call it: the zstd
  compressor and decompressor (with the hypothesis that decompression inverts compression and
  respects the memory cap), xxhash, SHA-1, \<open>labels.Parse\<close>, compiled regular expressions, the number
  of processors, the order in which goroutines of a group finish, the file system as what the code
  reads of it and the faults of its operations, MD5, the gob decoder, the orchestrator, the storage
  behind the controller, the server stream. A context is its sequence of polls. Go maps that are ranged over are lists of their
  entries in the order of the iteration, so statements hold for every such order.

  \<^bold>\<open>Bounds.\<close> Lengths and offsets are natural numbers where the code checks them against smaller
  limits; \<open>int32\<close> and \<open>uint64\<close> values that are read from or written to blobs are words and wrap. IDs of
  mappers are \<open>int32\<close>; they are unique as long as fewer than 2^31 names are numbered. No
  definition needs fuel: loops are structural recursions or have a measure.

  \<^bold>\<open>Not modelled.\<close> Generated code (\<open>tangopb\<close>, the mocks), process and network plumbing (\<open>core/git\<close>,
  \<open>core/bazel\<close>, \<open>core/repomanager\<close>, \<open>core/workspace\<close>, \<open>orchestrator\<close>, \<open>graphrunner\<close>, \<open>core/execcmd\<close>,
  \<open>observability\<close>, \<open>example\<close>, the loading of \<open>config\<close>, the gob streams of \<open>core/storage\<close>, the graph cache
  and the change analysis of \<open>core/itg\<close>), whose behaviour is that of the programs and services they call; log
  output, metrics and timings everywhere.
\<close>

end
